(* ===== verification/Prelude.thy ===== *)
theory Prelude
  imports Main "HOL-Library.Word"
begin

text \<open>
  The shared library of the development: machine words at the widths of the code
  (\<open>u8\<close>, \<open>u16\<close>, \<open>u32\<close>, \<open>u64\<close>), their little- and big-endian byte encodings,
  reading and writing bytes at an offset of a buffer, and the generic facts on words,
  lists and iteration that the component theories use.  Facts meant for a group of
  proofs are collected in \<open>byte_simps\<close> (buffers and encodings) and \<open>word_nat\<close>
  (moving from words to natural numbers).
\<close>

unbundle bit_operations_syntax

type_synonym u8 = "8 word"
type_synonym u16 = "16 word"
type_synonym u32 = "32 word"
type_synonym u64 = "64 word"

named_theorems byte_simps
named_theorems word_nat

section \<open>Words and natural numbers\<close>

lemma unat_add_u32 [word_nat]:
  "unat (a :: u32) + unat b < 2 ^ 32 \<Longrightarrow> unat (a + b) = unat a + unat b"
  by (simp add: unat_word_ariths)

lemma unat_add_u64 [word_nat]:
  "unat (a :: u64) + unat b < 2 ^ 64 \<Longrightarrow> unat (a + b) = unat a + unat b"
  by (simp add: unat_word_ariths)

lemma unat_mult_u32 [word_nat]:
  "unat (a :: u32) * unat b < 2 ^ 32 \<Longrightarrow> unat (a * b) = unat a * unat b"
  by (simp add: unat_word_ariths)

lemma unat_mult_u64 [word_nat]:
  "unat (a :: u64) * unat b < 2 ^ 64 \<Longrightarrow> unat (a * b) = unat a * unat b"
  by (simp add: unat_word_ariths)

lemma unat_sub_le [word_nat]:
  "b \<le> a \<Longrightarrow> unat (a - b) = unat a - unat (b :: 'a::len word)"
  by (simp add: unat_sub)

lemma nat_mod_wrap: "(a :: nat) < 2 * m \<Longrightarrow> a mod m = (if m \<le> a then a - m else a)"
  by (simp add: le_mod_geq)

lemma unat_drop_bit_div [word_nat]: "unat (drop_bit n (w :: 'a::len word)) = unat w div 2 ^ n"
proof -
  have "unat (drop_bit n w) = drop_bit n (unat w)"
    by (simp add: unsigned_drop_bit_eq take_bit_nat_eq_self order_less_le_trans [OF unsigned_less])
  then show ?thesis by (simp only: drop_bit_eq_div)
qed

lemma unat_and_mask [word_nat]: "unat (w AND mask n :: 'a::len word) = unat w mod 2 ^ n"
proof -
  have "unat (take_bit n w) = unat w mod 2 ^ n"
    by (subst unsigned_take_bit_eq) (simp only: take_bit_eq_mod)
  then show ?thesis by (simp only: take_bit_eq_mask)
qed

lemma unat_lt_u32: "unat (a :: u32) < 4294967296"
  using unsigned_less [of a] by simp

lemma unat_lt_u8: "unat (a :: u8) < 256"
  using unsigned_less [of a] by simp

lemma bit_u8_less [dest]: "bit (w :: u8) n \<Longrightarrow> n < 8"
  using bit_imp_le_length by fastforce

lemma bit_u32_less [dest]: "bit (w :: u32) n \<Longrightarrow> n < 32"
  using bit_imp_le_length by fastforce

lemma bit_u8_ge [simp]: "8 \<le> n \<Longrightarrow> \<not> bit (w :: u8) n"
  by (metis bit_u8_less not_less)

lemma bit_u16_ge [simp]: "16 \<le> n \<Longrightarrow> \<not> bit (w :: u16) n"
  using bit_imp_le_length [of w n] by auto

lemma xor_left_cancel [simp]: "(c XOR a = c XOR b) = (a = (b :: 'a::len word))"
  by (metis bit.xor_left_self)

lemma xor_right_cancel [simp]: "(a XOR c = b XOR c) = (a = (b :: 'a::len word))"
  by (metis xor_left_cancel xor.commute)

lemma unat_ucast_up [simp]:
  "LENGTH('a::len) \<le> LENGTH('b::len) \<Longrightarrow> unat (ucast (a :: 'a word) :: 'b word) = unat a"
  by (simp add: unsigned_ucast_eq take_bit_nat_eq_self order_less_le_trans [OF unsigned_less]
      power_increasing)

lemma ucast_up_inject:
  "LENGTH('a::len) \<le> LENGTH('b::len) \<Longrightarrow> (ucast (a :: 'a word) :: 'b word) = ucast b \<longleftrightarrow> a = b"
  by (metis unat_ucast_up word_unat_eq_iff)

lemma word_eq_unat: "(a :: 'a::len word) = b \<longleftrightarrow> unat a = unat b"
  by (simp add: word_unat_eq_iff)

lemma unat_of_nat_u32: "n < 4294967296 \<Longrightarrow> unat (of_nat n :: u32) = n"
  by (simp add: unat_of_nat)

lemma of_nat_less_u32: "n < 4294967296 \<Longrightarrow> (of_nat n < (w :: u32)) = (n < unat w)"
  by (simp add: word_less_nat_alt unat_of_nat_u32)

lemma of_nat_unat_u32: "of_nat (unat w) = (w :: u32)"
  unfolding word_eq_unat by (rule unat_of_nat_u32) (rule unat_lt_u32)

lemma sint_u32: "unat w < 2147483648 \<Longrightarrow> sint (w :: u32) = int (unat w)"
proof -
  assume "unat w < 2147483648"
  then have "int (unat w) < 2147483648" by linarith
  then have "uint w < 2 ^ 31" by simp
  moreover have "- (2 ^ 31) \<le> uint w" by (rule order_trans [of _ 0]) simp_all
  ultimately show ?thesis using signed_take_bit_int_eq_self [of 31 "uint w"] by (simp add: sint_uint)
qed

section \<open>Bytes of words\<close>

text \<open>The machine of the code is little-endian: a \<open>u32\<close> stored in memory is
  \<open>le_bytes32\<close>.  The \<open>be_\<close> forms are what \<open>htonl\<close>/\<open>ntohl\<close> and the SHA-1 standard use.\<close>

definition le_bytes16 :: "u16 \<Rightarrow> u8 list" where
  "le_bytes16 w = [ucast w, ucast (drop_bit 8 w)]"

definition le_bytes32 :: "u32 \<Rightarrow> u8 list" where
  "le_bytes32 w = [ucast w, ucast (drop_bit 8 w), ucast (drop_bit 16 w), ucast (drop_bit 24 w)]"

definition le_word16 :: "u8 list \<Rightarrow> u16" where
  "le_word16 bs = ucast (bs ! 0) OR push_bit 8 (ucast (bs ! 1))"

definition le_word32 :: "u8 list \<Rightarrow> u32" where
  "le_word32 bs = ucast (bs ! 0) OR push_bit 8 (ucast (bs ! 1)) OR
     push_bit 16 (ucast (bs ! 2)) OR push_bit 24 (ucast (bs ! 3))"

definition be_bytes32 :: "u32 \<Rightarrow> u8 list" where
  "be_bytes32 w = rev (le_bytes32 w)"

definition be_word32 :: "u8 list \<Rightarrow> u32" where
  "be_word32 bs = push_bit 24 (ucast (bs ! 0)) OR push_bit 16 (ucast (bs ! 1)) OR
     push_bit 8 (ucast (bs ! 2)) OR ucast (bs ! 3)"

lemma length_le_bytes [simp]:
  "length (le_bytes16 h) = 2" "length (le_bytes32 w) = 4" "length (be_bytes32 w) = 4"
  by (simp_all add: le_bytes16_def le_bytes32_def be_bytes32_def)

lemma le_word16_bytes [simp]: "le_word16 (le_bytes16 w) = w"
  by (rule bit_word_eqI) (auto simp: le_word16_def le_bytes16_def bit_simps)

lemma byte_of_bit: "n < 32 \<Longrightarrow> n < 8 \<or> (\<exists>k<8. n = 8 + k) \<or> (\<exists>k<8. n = 16 + k) \<or> (\<exists>k<8. n = 24 + (k::nat))"
  by presburger

lemma le_word32_bytes [simp]: "le_word32 (le_bytes32 w) = w"
  by (rule bit_word_eqI) (auto simp: le_word32_def le_bytes32_def bit_simps dest!: byte_of_bit)

text \<open>\<open>get_bytes b off n\<close> reads, \<open>put_bytes b off bs\<close> overwrites, inside the buffer.\<close>

definition get_bytes :: "u8 list \<Rightarrow> nat \<Rightarrow> nat \<Rightarrow> u8 list" where
  "get_bytes b off n = take n (drop off b)"

definition put_bytes :: "u8 list \<Rightarrow> nat \<Rightarrow> u8 list \<Rightarrow> u8 list" where
  "put_bytes b off bs = take off b @ bs @ drop (off + length bs) b"

lemma length_put_bytes [byte_simps]:
  "off + length bs \<le> length b \<Longrightarrow> length (put_bytes b off bs) = length b"
  by (simp add: put_bytes_def)

lemma take_put_bytes_0: "length bs = n \<Longrightarrow> take n (put_bytes b 0 bs) = bs"
  by (simp add: put_bytes_def)

lemma length_get_bytes [simp]: "length (get_bytes b off n) = min n (length b - off)"
  by (auto simp: get_bytes_def)

lemma get_put_same [byte_simps]:
  "off + length bs \<le> length b \<Longrightarrow> n = length bs \<Longrightarrow> get_bytes (put_bytes b off bs) off n = bs"
  by (simp add: get_bytes_def put_bytes_def)

lemma get_put_other [byte_simps]:
  assumes "off + length bs \<le> length b" and "o' + n \<le> off \<or> off + length bs \<le> o'"
  shows "get_bytes (put_bytes b off bs) o' n = get_bytes b o' n"
proof (rule nth_equalityI)
  show "length (get_bytes (put_bytes b off bs) o' n) = length (get_bytes b o' n)"
    using assms(1) by (simp add: length_put_bytes)
  fix i assume "i < length (get_bytes (put_bytes b off bs) o' n)"
  then show "get_bytes (put_bytes b off bs) o' n ! i = get_bytes b o' n ! i"
    using assms by (auto simp: get_bytes_def put_bytes_def nth_append)
qed

section \<open>Fields of a buffer\<close>

definition get_u16 :: "u8 list \<Rightarrow> nat \<Rightarrow> u16" where
  "get_u16 b off = le_word16 (get_bytes b off 2)"

definition get_u32 :: "u8 list \<Rightarrow> nat \<Rightarrow> u32" where
  "get_u32 b off = le_word32 (get_bytes b off 4)"

definition put_u8 :: "u8 list \<Rightarrow> nat \<Rightarrow> u8 \<Rightarrow> u8 list" where
  "put_u8 b off w = put_bytes b off [w]"

definition put_u16 :: "u8 list \<Rightarrow> nat \<Rightarrow> u16 \<Rightarrow> u8 list" where
  "put_u16 b off w = put_bytes b off (le_bytes16 w)"

definition put_u32 :: "u8 list \<Rightarrow> nat \<Rightarrow> u32 \<Rightarrow> u8 list" where
  "put_u32 b off w = put_bytes b off (le_bytes32 w)"

text \<open>Compound assignments \<open>x = f(x)\<close>, \<open>x |= m\<close>, \<open>x &= m\<close> to a field.\<close>

definition upd_u8 :: "u8 list \<Rightarrow> nat \<Rightarrow> (u8 \<Rightarrow> u8) \<Rightarrow> u8 list" where
  "upd_u8 b off f = put_u8 b off (f (b ! off))"

definition upd_u16 :: "u8 list \<Rightarrow> nat \<Rightarrow> (u16 \<Rightarrow> u16) \<Rightarrow> u8 list" where
  "upd_u16 b off f = put_u16 b off (f (get_u16 b off))"

definition upd_u32 :: "u8 list \<Rightarrow> nat \<Rightarrow> (u32 \<Rightarrow> u32) \<Rightarrow> u8 list" where
  "upd_u32 b off f = put_u32 b off (f (get_u32 b off))"

text \<open>\<open>htons\<close>/\<open>ntohs\<close> and \<open>htonl\<close>/\<open>ntohl\<close> on the little-endian machine: the byte swap.\<close>

definition swap16 :: "u16 \<Rightarrow> u16" where
  "swap16 w = le_word16 (rev (le_bytes16 w))"

definition swap32 :: "u32 \<Rightarrow> u32" where
  "swap32 w = le_word32 (rev (le_bytes32 w))"

lemma length_put [byte_simps]:
  "off < length b \<Longrightarrow> length (put_u8 b off w8) = length b"
  "off + 2 \<le> length b \<Longrightarrow> length (put_u16 b off w16) = length b"
  "off + 4 \<le> length b \<Longrightarrow> length (put_u32 b off w32) = length b"
  by (simp_all add: put_u8_def put_u16_def put_u32_def length_put_bytes)

lemma get_put_fields [byte_simps]:
  "off + 2 \<le> length b \<Longrightarrow> get_u16 (put_u16 b off w16) off = w16"
  "off + 4 \<le> length b \<Longrightarrow> get_u32 (put_u32 b off w32) off = w32"
  by (simp_all add: get_u16_def get_u32_def put_u16_def put_u32_def get_put_same)

lemma le_bytes16_word: "length bs = 2 \<Longrightarrow> le_bytes16 (le_word16 bs) = bs"
proof -
  assume "length bs = 2"
  then obtain a b where "bs = [a, b]" by (auto simp: length_Suc_conv eval_nat_numeral)
  then show ?thesis
    by (auto simp: le_bytes16_def le_word16_def bit_simps intro!: bit_word_eqI)
qed

lemma le_bytes32_word: "length bs = 4 \<Longrightarrow> le_bytes32 (le_word32 bs) = bs"
proof -
  assume "length bs = 4"
  then obtain a b c d where "bs = [a, b, c, d]" by (auto simp: length_Suc_conv eval_nat_numeral)
  then show ?thesis
    by (auto simp: le_bytes32_def le_word32_def bit_simps intro!: bit_word_eqI)
qed

lemma le_bytes_swap: "le_bytes16 (swap16 h) = rev (le_bytes16 h)" "le_bytes32 (swap32 w) = rev (le_bytes32 w)"
  by (simp_all add: swap16_def swap32_def le_bytes16_word le_bytes32_word)

end
