(* ===== verification/C_Monad.thy ===== *)
theory C_Monad
  imports Main
begin

text \<open>
  Imperative code as state-passing functions.  A statement is a function from the state to
  either a fault or a result with the new state.  The faults are the three ways in which the
  C code fails to return to its caller: \<open>exit(EXIT_FAILURE)\<close> (what \<open>critical_error\<close> and,
  without \<open>-f\<close>, \<open>error\<close> do), undefined behaviour (an access outside a buffer, a null or freed
  pointer), and a loop that has used up the fuel the model gives it.  A theorem that some code
  returns says that none of the three happens: \<open>wp\<close> is total correctness.
\<close>

datatype fault = Exit_Failure | Undefined | Diverge

type_synonym ('s, 'a) prog = "'s \<Rightarrow> fault + 'a \<times> 's"

named_theorems prog_simps
named_theorems wp_simps

section \<open>Statements\<close>

definition ret :: "'a \<Rightarrow> ('s, 'a) prog" where
  "ret x s = Inr (x, s)"

definition bind :: "('s, 'a) prog \<Rightarrow> ('a \<Rightarrow> ('s, 'b) prog) \<Rightarrow> ('s, 'b) prog" where
  "bind m f s = (case m s of Inl e \<Rightarrow> Inl e | Inr (x, s') \<Rightarrow> f x s')"

definition sq :: "('s, 'a) prog \<Rightarrow> ('s, 'b) prog \<Rightarrow> ('s, 'b) prog" where
  "sq m n = bind m (\<lambda>_. n)"

definition gets :: "('s \<Rightarrow> 'a) \<Rightarrow> ('s, 'a) prog" where
  "gets f s = Inr (f s, s)"

definition modify :: "('s \<Rightarrow> 's) \<Rightarrow> ('s, unit) prog" where
  "modify f s = Inr ((), f s)"

definition fail :: "fault \<Rightarrow> ('s, 'a) prog" where
  "fail e s = Inl e"

definition guard :: "('s \<Rightarrow> bool) \<Rightarrow> ('s, unit) prog" where
  "guard P s = (if P s then Inr ((), s) else Inl Undefined)"

definition only_if :: "bool \<Rightarrow> ('s, unit) prog \<Rightarrow> ('s, unit) prog" where
  "only_if c m = (if c then m else ret ())"

text \<open>\<open>from_option\<close>: use of a pointer or entry that must exist.\<close>

definition from_option :: "'a option \<Rightarrow> ('s, 'a) prog" where
  "from_option x = (case x of None \<Rightarrow> fail Undefined | Some y \<Rightarrow> ret y)"

text \<open>A counted loop whose body may leave early: the body returns \<open>Inl r\<close> for \<open>return r\<close> and
  \<open>Inr x\<close> to go on with the loop's variables \<open>x\<close>.\<close>

fun for_each :: "'i list \<Rightarrow> ('i \<Rightarrow> 'x \<Rightarrow> ('s, 'r + 'x) prog) \<Rightarrow> 'x \<Rightarrow> ('s, 'r + 'x) prog" where
  "for_each [] body x = ret (Inr x)"
| "for_each (i # is) body x =
     bind (body i x) (\<lambda>r. case r of Inl v \<Rightarrow> ret (Inl v) | Inr y \<Rightarrow> for_each is body y)"

text \<open>A counted loop without early exit.\<close>

fun for_all :: "'i list \<Rightarrow> ('i \<Rightarrow> ('s, unit) prog) \<Rightarrow> ('s, unit) prog" where
  "for_all [] body = ret ()"
| "for_all (i # is) body = sq (body i) (for_all is body)"

text \<open>A general loop: the step returns \<open>Inl r\<close> when the loop is over with result \<open>r\<close>.\<close>

fun loop :: "nat \<Rightarrow> ('x \<Rightarrow> ('s, 'r + 'x) prog) \<Rightarrow> 'x \<Rightarrow> ('s, 'r) prog" where
  "loop 0 step x = fail Diverge"
| "loop (Suc n) step x =
     bind (step x) (\<lambda>r. case r of Inl v \<Rightarrow> ret v | Inr y \<Rightarrow> loop n step y)"

section \<open>Running a statement\<close>

lemma run_simps [prog_simps]:
  "ret x s1 = Inr (x, s1)"
  "gets g s2 = Inr (g s2, s2)"
  "modify h s3 = Inr ((), h s3)"
  "fail e s4 = Inl e"
  "guard P s5 = (if P s5 then Inr ((), s5) else Inl Undefined)"
  "sq m n s6 = bind m (\<lambda>_. n) s6"
  by (simp_all add: ret_def gets_def modify_def fail_def guard_def sq_def)

lemma bind_run [prog_simps]:
  "bind (ret x) f1 s1 = f1 x s1"
  "bind (gets g) f2 s2 = f2 (g s2) s2"
  "bind (modify h) f3 s3 = f3 () (h s3)"
  "bind (fail e) f4 s4 = Inl e"
  "bind (guard P) f5 s5 = (if P s5 then f5 () s5 else Inl Undefined)"
  "bind (bind m6 k6) f6 s6 = bind m6 (\<lambda>x. bind (k6 x) f6) s6"
  "bind (sq m7 n7) f7 s7 = bind m7 (\<lambda>_. bind n7 f7) s7"
  "bind (if c then m8 else n8) f8 s8 = (if c then bind m8 f8 s8 else bind n8 f8 s8)"
  by (simp_all add: bind_def ret_def gets_def modify_def fail_def guard_def sq_def split: sum.splits prod.splits)

lemma only_if_run [prog_simps]:
  "only_if c' m' s' = (if c' then m' s' else Inr ((), s'))"
  "bind (only_if c m) f s = (if c then bind m f s else f () s)"
  by (simp_all add: only_if_def ret_def bind_def)

lemma from_option_run [prog_simps]:
  "from_option (Some y1) s1 = Inr (y1, s1)" "from_option None s2 = Inl Undefined"
  "bind (from_option (Some y3)) f3 s3 = f3 y3 s3" "bind (from_option None) f4 s4 = Inl Undefined"
  by (simp_all add: from_option_def ret_def fail_def bind_def)

lemma bind_ok: "m s = Inr (x, s') \<Longrightarrow> bind m f s = f x s'"
  by (simp add: bind_def)

lemma sq_ok: "m s = Inr (x, s') \<Longrightarrow> sq m n s = n s'"
  by (simp add: bind_def sq_def)

lemma bind_err: "m s = Inl e \<Longrightarrow> bind m f s = Inl e"
  by (simp add: bind_def)

section \<open>Total correctness\<close>

definition wp :: "('s, 'a) prog \<Rightarrow> ('a \<Rightarrow> 's \<Rightarrow> bool) \<Rightarrow> 's \<Rightarrow> bool" where
  "wp m Q s = (case m s of Inl e \<Rightarrow> False | Inr (x, s') \<Rightarrow> Q x s')"

lemma wp_basic [wp_simps]:
  "wp (ret x) Q1 s1 = Q1 x s1"
  "wp (gets g) Q2 s2 = Q2 (g s2) s2"
  "wp (modify h) Q3 s3 = Q3 () (h s3)"
  "wp (fail e) Q4 s4 = False"
  "wp (guard P) Q5 s5 = (P s5 \<and> Q5 () s5)"
  "wp (bind m6 f6) Q6 s6 = wp m6 (\<lambda>x. wp (f6 x) Q6) s6"
  "wp (sq m7 n7) Q7 s7 = wp m7 (\<lambda>_. wp n7 Q7) s7"
  "wp (if c then m8 else n8) Q8 s8 = (if c then wp m8 Q8 s8 else wp n8 Q8 s8)"
  "wp (only_if c9 m9) Q9 s9 = (if c9 then wp m9 Q9 s9 else Q9 () s9)"
  "wp (from_option (Some y)) Q10 s10 = Q10 y s10"
  by (simp_all add: wp_def bind_def ret_def gets_def modify_def fail_def guard_def sq_def only_if_def
      from_option_def split: sum.splits prod.splits)

lemma wp_conseq: "wp m Q s \<Longrightarrow> (\<And>x s'. Q x s' \<Longrightarrow> R x s') \<Longrightarrow> wp m R s"
  by (auto simp: wp_def split: sum.splits)

lemma wp_exact: "m s = Inr (x, s') \<Longrightarrow> wp m Q s = Q x s'"
  by (simp add: wp_def)

lemma wp_iff: "wp m Q s \<longleftrightarrow> (\<exists>x s'. m s = Inr (x, s') \<and> Q x s')"
  by (auto simp: wp_def split: sum.splits prod.splits)

lemma wp_run: "wp m Q s \<Longrightarrow> \<exists>x s'. m s = Inr (x, s') \<and> Q x s'"
  by (simp add: wp_iff)

text \<open>Loops: an invariant indexed by the items still to come.\<close>

lemma wp_for_all:
  assumes "I is s"
    and "\<And>i js t. I (i # js) t \<Longrightarrow> wp (body i) (\<lambda>_. I js) t"
  shows "wp (for_all is body) (\<lambda>_. I []) s"
  using assms(1)
proof (induction "is" arbitrary: s)
  case Nil
  then show ?case by (simp add: wp_simps)
next
  case (Cons i js)
  from assms(2) [OF Cons.prems] Cons.IH show ?case
    by (simp add: wp_simps) (blast intro: wp_conseq)
qed

lemma wp_for_each:
  assumes "I is x s"
    and "\<And>i js y t. I (i # js) y t \<Longrightarrow>
      wp (body i y) (\<lambda>r t'. case r of Inl v \<Rightarrow> Q (Inl v) t' | Inr z \<Rightarrow> I js z t') t"
    and "\<And>y t. I [] y t \<Longrightarrow> Q (Inr y) t"
  shows "wp (for_each is body x) Q s"
  using assms(1)
proof (induction "is" arbitrary: x s)
  case Nil
  then show ?case by (simp add: wp_simps assms(3))
next
  case (Cons i js)
  from assms(2) [OF Cons.prems] show ?case
    by (simp add: wp_simps) (rule wp_conseq, assumption, auto simp: wp_simps Cons.IH split: sum.splits)
qed

text \<open>A general loop ends when a measure goes down at every step and starts below the fuel.\<close>

lemma wp_loop:
  assumes "I x s" and "m x < n"
    and "\<And>y t. I y t \<Longrightarrow>
      wp (step y) (\<lambda>r t'. case r of Inl v \<Rightarrow> Q v t' | Inr z \<Rightarrow> I z t' \<and> m z < (m y :: nat)) t"
  shows "wp (loop n step x) Q s"
  using assms(1,2)
proof (induction n arbitrary: x s)
  case 0
  then show ?case by simp
next
  case (Suc n)
  from assms(3) [OF Suc.prems(1)] show ?case
    by (simp add: wp_simps)
      (rule wp_conseq, assumption, use Suc in \<open>auto simp: wp_simps split: sum.splits\<close>)
qed

text \<open>A loop followed step by step: \<open>x j\<close> and \<open>st j\<close> are its variables and the state after
  \<open>j\<close> steps.\<close>

lemma loop_from:
  assumes "\<And>j. j < k + m \<Longrightarrow> step (x j) (st j) = Inr (Inr (x (Suc j)), st (Suc j))" and "m < n"
  shows "loop n step (x k) (st k) = loop (n - m) step (x (k + m)) (st (k + m))"
  using assms
proof (induction m arbitrary: n k)
  case (Suc m)
  then obtain n' where n: "n = Suc n'" "m < n'" by (cases n) auto
  have "loop n step (x k) (st k) = loop n' step (x (Suc k)) (st (Suc k))"
    using Suc.prems(1) [of k] by (simp add: n bind_def)
  also have "\<dots> = loop (n' - m) step (x (Suc k + m)) (st (Suc k + m))"
    using Suc.IH [of "Suc k" n'] Suc.prems(1) n by simp
  finally show ?case by (simp add: n)
qed simp

lemma loop_iterate:
  assumes "\<And>j. j < m \<Longrightarrow> step (x j) (st j) = Inr (Inr (x (Suc j)), st (Suc j))"
    and "step (x m) (st m) = Inr (Inl r, s')" and "m < n"
  shows "loop n step (x 0) (st 0) = Inr (r, s')"
proof -
  obtain n' where n: "n - m = Suc n'" using assms(3) by (cases "n - m") auto
  have "loop n step (x 0) (st 0) = loop (n - m) step (x m) (st m)"
    using loop_from [of 0 m step x st n] assms by simp
  then show ?thesis using assms(2) by (simp add: n bind_def ret_def)
qed

lemma loop_fault:
  assumes "\<And>j. j < m \<Longrightarrow> step (x j) (st j) = Inr (Inr (x (Suc j)), st (Suc j))"
    and "step (x m) (st m) = Inl e" and "m < n"
  shows "loop n step (x 0) (st 0) = Inl e"
proof -
  obtain n' where n: "n - m = Suc n'" using assms(3) by (cases "n - m") auto
  have "loop n step (x 0) (st 0) = loop (n - m) step (x m) (st m)"
    using loop_from [of 0 m step x st n] assms by simp
  then show ?thesis using assms(2) by (simp add: n bind_def)
qed

text \<open>Counted loops: the state after \<open>j\<close> items is \<open>st j\<close>.\<close>

lemma for_all_iterate:
  assumes "\<And>j. j < length is \<Longrightarrow> body (is ! j) (st j) = Inr ((), st (Suc j))"
  shows "for_all is body (st 0) = Inr ((), st (length is))"
  using assms
proof (induction "is" arbitrary: st)
  case (Cons i js)
  have "for_all js body (st (Suc 0)) = Inr ((), st (Suc (length js)))"
    using Cons.IH [of "\<lambda>j. st (Suc j)"] Cons.prems [of "Suc _"] by simp
  then show ?case using Cons.prems [of 0] by (simp add: sq_def bind_def)
qed (simp add: ret_def)

text \<open>The same call made once for each of a list of arguments.\<close>

fun run_all :: "('l \<Rightarrow> ('s, 'r) prog) \<Rightarrow> 'l list \<Rightarrow> ('s, 'r list) prog" where
  "run_all f [] = ret []"
| "run_all f (l # ls) = bind (f l) (\<lambda>r. bind (run_all f ls) (\<lambda>rs. ret (r # rs)))"

end
