(* ===== verification/World.thy ===== *)
theory World
  imports Prelude C_Monad
begin

text \<open>
  The state of \<open>make_ext4fs\<close>: its global variables and its heap.

  \<^item> \<open>fs_info\<close>, \<open>fs_aux_info\<close>, \<open>block_group_info\<close>, \<open>ext4_utils.h\<close>'s and \<open>allocate.c\<close>'s structs, are
    records with the source's fields (\<open>int\<close> fields are \<open>u32\<close> words, read with \<open>sint\<close>
    where the code compares them).
  \<^item> Byte buffers (the bitmaps, inode tables, superblock, descriptor table, directory and journal data)
    live in a heap \<open>w_mem\<close> from buffer numbers to bytes, because the code queues a buffer for
    writing and goes on changing it; a pointer is a buffer number with an offset.  An access
    outside the buffer is \<open>Undefined\<close>.
  \<^item> The \<open>struct region\<close> nodes of block allocations live in a heap \<open>w_reg\<close> of their own, with
    their \<open>next\<close> and \<open>prev\<close> pointers.
  \<^item> \<open>w_queue\<close> and \<open>w_last_used\<close> are \<open>backed_block.c\<close>'s list of queued data blocks, each with the
    address of its node, and the search hint.
  \<^item> \<open>w_out\<close> is the output file, \<open>w_sparse_header\<close> the counters in the sparse file header.

  \<open>malloc\<close> and \<open>calloc\<close> always succeed here: the branches that report their failure are not
  modelled.
\<close>

section \<open>Records\<close>

type_synonym ptr = "nat \<times> nat"

record fs_info =
  info_len :: u64
  info_block_size :: u32
  info_blocks_per_group :: u32
  info_inodes_per_group :: u32
  info_inode_size :: u32
  info_inodes :: u32
  info_journal_blocks :: u32
  info_feat_ro_compat :: u16
  info_feat_compat :: u16
  info_feat_incompat :: u16
  info_label :: "u8 list option"
  info_no_journal :: u8

record fs_aux_info =
  aux_sb :: ptr
  aux_bg_desc :: ptr
  aux_first_data_block :: u32
  aux_len_blocks :: u64
  aux_inode_table_blocks :: u32
  aux_groups :: u32
  aux_bg_desc_blocks :: u32
  aux_bg_desc_reserve_blocks :: u32
  aux_default_i_flags :: u32
  aux_blocks_per_ind :: u32
  aux_blocks_per_dind :: u32
  aux_blocks_per_tind :: u32

record block_group_info =
  bg_first_block :: u32
  bg_header_blocks :: u32
  bg_data_blocks_used :: u32
  bg_has_superblock :: bool
  bg_block_bitmap :: ptr
  bg_inode_bitmap :: ptr
  bg_inode_table :: "ptr option"
  bg_free_blocks :: u32
  bg_first_free_block :: u32
  bg_free_inodes :: u32
  bg_first_free_inode :: u32
  bg_used_dirs :: u16

record region =
  reg_block :: u32
  reg_len :: u32
  reg_bg :: u32
  reg_next :: "nat option"
  reg_prev :: "nat option"

text \<open>A queued data block: a buffer in memory or a piece of a host file.\<close>

datatype db_source = Db_Data ptr | Db_File "u8 list" u64

record data_block =
  db_id :: nat
  db_block :: u32
  db_len :: u32
  db_source :: db_source

text \<open>The output file: what has been written, the file position, the bytes the device can hold;
  a gzip stream can only seek forward while it is written.\<close>

record output_file =
  out_bytes :: "u8 list"
  out_pos :: nat
  out_capacity :: nat
  out_gz :: bool
  out_sparse :: bool
  out_cur_out_ptr :: u64
  out_chunk_cnt :: u32
  out_crc32 :: u32
  out_closed :: bool

record sparse_header =
  sh_magic :: u32
  sh_major_version :: u16
  sh_minor_version :: u16
  sh_file_hdr_sz :: u16
  sh_chunk_hdr_sz :: u16
  sh_blk_sz :: u32
  sh_total_blks :: u32
  sh_total_chunks :: u32
  sh_image_checksum :: u32

record world =
  w_force :: bool
  w_info :: fs_info
  w_aux :: fs_aux_info
  w_bgs :: "block_group_info list"
  w_mem :: "nat \<Rightarrow> u8 list option"
  w_reg :: "nat \<Rightarrow> region option"
  w_next :: nat
  w_queue :: "data_block list"
  w_last_used :: "data_block option"
  w_sparse_header :: sparse_header
  w_out :: output_file

type_synonym 'a wprog = "(world, 'a) prog"

section \<open>Errors\<close>

text \<open>\<open>error\<close> prints and exits unless \<open>force\<close> is set; \<open>critical_error\<close> always exits.\<close>

definition error :: "unit wprog" where
  "error = bind (gets w_force) (\<lambda>f. if f then ret () else fail Exit_Failure)"

definition critical_error :: "'a wprog" where
  "critical_error = fail Exit_Failure"

lemma error_run [prog_simps]:
  "error s' = (if w_force s' then Inr ((), s') else Inl Exit_Failure)"
  "bind error f s = (if w_force s then f () s else Inl Exit_Failure)"
  "critical_error s1 = Inl Exit_Failure"
  "bind critical_error g s2 = Inl Exit_Failure"
  by (simp_all add: error_def critical_error_def prog_simps)

section \<open>Block groups\<close>

definition bg_at :: "nat \<Rightarrow> block_group_info wprog" where
  "bg_at g = bind (guard (\<lambda>s. g < length (w_bgs s))) (\<lambda>_. gets (\<lambda>s. w_bgs s ! g))"

definition upd_bg :: "nat \<Rightarrow> (block_group_info \<Rightarrow> block_group_info) \<Rightarrow> world \<Rightarrow> world" where
  "upd_bg g f s = s\<lparr>w_bgs := (w_bgs s)[g := f (w_bgs s ! g)]\<rparr>"

definition set_bg :: "nat \<Rightarrow> (block_group_info \<Rightarrow> block_group_info) \<Rightarrow> unit wprog" where
  "set_bg g f = bind (guard (\<lambda>s. g < length (w_bgs s))) (\<lambda>_. modify (upd_bg g f))"

lemma bg_run [prog_simps]:
  "bg_at g s = (if g < length (w_bgs s) then Inr (w_bgs s ! g, s) else Inl Undefined)"
  "bind (bg_at g) k s = (if g < length (w_bgs s) then k (w_bgs s ! g) s else Inl Undefined)"
  "set_bg g f s = (if g < length (w_bgs s) then Inr ((), upd_bg g f s) else Inl Undefined)"
  "bind (set_bg g f) k' s = (if g < length (w_bgs s) then k' () (upd_bg g f s) else Inl Undefined)"
  by (simp_all add: bg_at_def set_bg_def prog_simps)

section \<open>Byte buffers\<close>

text \<open>\<open>buf s p\<close> are the bytes from pointer \<open>p\<close> to the end of its buffer.\<close>

definition buf :: "world \<Rightarrow> ptr \<Rightarrow> u8 list" where
  "buf s p = (case w_mem s (fst p) of None \<Rightarrow> [] | Some b \<Rightarrow> drop (snd p) b)"

definition ptr_add :: "ptr \<Rightarrow> nat \<Rightarrow> ptr" where
  "ptr_add p n = (fst p, snd p + n)"

definition upd_buf :: "nat \<Rightarrow> u8 list \<Rightarrow> world \<Rightarrow> world" where
  "upd_buf b bs s = s\<lparr>w_mem := (w_mem s)(b := Some bs)\<rparr>"

definition load :: "ptr \<Rightarrow> nat \<Rightarrow> u8 list wprog" where
  "load p n s = (case w_mem s (fst p) of
     None \<Rightarrow> Inl Undefined
   | Some b \<Rightarrow> if snd p + n \<le> length b then Inr (get_bytes b (snd p) n, s) else Inl Undefined)"

definition store :: "ptr \<Rightarrow> u8 list \<Rightarrow> unit wprog" where
  "store p bs s = (case w_mem s (fst p) of
     None \<Rightarrow> Inl Undefined
   | Some b \<Rightarrow> if snd p + length bs \<le> length b then Inr ((), upd_buf (fst p) (put_bytes b (snd p) bs) s)
               else Inl Undefined)"

definition calloc :: "nat \<Rightarrow> ptr wprog" where
  "calloc n s = (let b = w_next s in
     Inr ((b, 0), s\<lparr>w_mem := (w_mem s)(b := Some (replicate n 0)), w_next := Suc b\<rparr>))"

definition free_buf :: "ptr \<Rightarrow> unit wprog" where
  "free_buf p = modify (\<lambda>s. s\<lparr>w_mem := (w_mem s)(fst p := None)\<rparr>)"

definition load_u8 :: "ptr \<Rightarrow> u8 wprog" where
  "load_u8 p = bind (load p 1) (\<lambda>b. ret (b ! 0))"

definition load_u16 :: "ptr \<Rightarrow> u16 wprog" where
  "load_u16 p = bind (load p 2) (\<lambda>b. ret (le_word16 b))"

definition load_u32 :: "ptr \<Rightarrow> u32 wprog" where
  "load_u32 p = bind (load p 4) (\<lambda>b. ret (le_word32 b))"

definition store_u8 :: "ptr \<Rightarrow> u8 \<Rightarrow> unit wprog" where
  "store_u8 p w = store p [w]"

definition store_u16 :: "ptr \<Rightarrow> u16 \<Rightarrow> unit wprog" where
  "store_u16 p w = store p (le_bytes16 w)"

definition store_u32 :: "ptr \<Rightarrow> u32 \<Rightarrow> unit wprog" where
  "store_u32 p w = store p (le_bytes32 w)"

text \<open>\<open>*p = f (*p)\<close>: the compound assignments.\<close>

definition modify_u8 :: "ptr \<Rightarrow> (u8 \<Rightarrow> u8) \<Rightarrow> unit wprog" where
  "modify_u8 p f = bind (load_u8 p) (\<lambda>w. store_u8 p (f w))"

definition modify_u16 :: "ptr \<Rightarrow> (u16 \<Rightarrow> u16) \<Rightarrow> unit wprog" where
  "modify_u16 p f = bind (load_u16 p) (\<lambda>w. store_u16 p (f w))"

definition modify_u32 :: "ptr \<Rightarrow> (u32 \<Rightarrow> u32) \<Rightarrow> unit wprog" where
  "modify_u32 p f = bind (load_u32 p) (\<lambda>w. store_u32 p (f w))"

section \<open>Region nodes\<close>

definition region_at :: "nat \<Rightarrow> region wprog" where
  "region_at r = bind (gets (\<lambda>s. w_reg s r)) from_option"

definition set_region :: "nat \<Rightarrow> (region \<Rightarrow> region) \<Rightarrow> unit wprog" where
  "set_region r f = bind (region_at r) (\<lambda>x. modify (\<lambda>s. s\<lparr>w_reg := (w_reg s)(r := Some (f x))\<rparr>))"

definition new_region :: "region \<Rightarrow> nat wprog" where
  "new_region x s = (let r = w_next s in
     Inr (r, s\<lparr>w_reg := (w_reg s)(r := Some x), w_next := Suc r\<rparr>))"

definition free_region :: "nat \<Rightarrow> unit wprog" where
  "free_region r = bind (region_at r) (\<lambda>_. modify (\<lambda>s. s\<lparr>w_reg := (w_reg s)(r := None)\<rparr>))"

lemma region_run [prog_simps]:
  "region_at r s = (case w_reg s r of None \<Rightarrow> Inl Undefined | Some x \<Rightarrow> Inr (x, s))"
  "bind (region_at r) k s = (case w_reg s r of None \<Rightarrow> Inl Undefined | Some x \<Rightarrow> k x s)"
  "set_region r f s = (case w_reg s r of None \<Rightarrow> Inl Undefined
     | Some x \<Rightarrow> Inr ((), s\<lparr>w_reg := (w_reg s)(r := Some (f x))\<rparr>))"
  "bind (set_region r f) h s = (case w_reg s r of None \<Rightarrow> Inl Undefined
     | Some x \<Rightarrow> h () (s\<lparr>w_reg := (w_reg s)(r := Some (f x))\<rparr>))"
  "free_region r s = (case w_reg s r of None \<Rightarrow> Inl Undefined
     | Some x \<Rightarrow> Inr ((), s\<lparr>w_reg := (w_reg s)(r := None)\<rparr>))"
  "bind (free_region r) h s = (case w_reg s r of None \<Rightarrow> Inl Undefined
     | Some x \<Rightarrow> h () (s\<lparr>w_reg := (w_reg s)(r := None)\<rparr>))"
  "new_region x s = Inr (w_next s, s\<lparr>w_reg := (w_reg s)(w_next s := Some x), w_next := Suc (w_next s)\<rparr>)"
  "bind (new_region x) k' s = k' (w_next s) (s\<lparr>w_reg := (w_reg s)(w_next s := Some x), w_next := Suc (w_next s)\<rparr>)"
  by (simp_all add: region_at_def set_region_def free_region_def new_region_def prog_simps bind_def from_option_def
      ret_def fail_def gets_def modify_def Let_def split: option.splits)

end
