(* ===== verification/Backed_Block.thy ===== *)
theory Backed_Block
  imports World "HOL-Library.Multiset"
begin

text \<open>
  \<open>backed_block.c\<close>: the list of data blocks queued for writing, kept in increasing order of
  their block numbers, with a hint where to start the search for the insertion point.  The linked
  list is modelled by the list of its nodes; a node is told apart by \<open>db_id\<close>, its address.
\<close>

section \<open>The code\<close>

text \<open>\<open>DIV_ROUND_UP\<close> and \<open>ALIGN\<close> at the two widths the code uses.\<close>

definition DIV_ROUND_UP :: "'a::len word \<Rightarrow> 'a word \<Rightarrow> 'a word" where
  "DIV_ROUND_UP x y = (x + y - 1) div y"

definition ALIGN :: "'a::len word \<Rightarrow> 'a word \<Rightarrow> 'a word" where
  "ALIGN x y = y * DIV_ROUND_UP x y"

text \<open>The search loop from node \<open>db\<close>, the head of the list, and the insertion behind the node
  it ends at.\<close>

fun queue_search :: "data_block \<Rightarrow> data_block list \<Rightarrow> data_block list" where
  "queue_search new_db (db # next # rest) =
     (if db_block next < db_block new_db then db # queue_search new_db (next # rest)
      else db # new_db # next # rest)"
| "queue_search new_db db = db @ [new_db]"

text \<open>The search started at the node \<open>at\<close>.\<close>

fun queue_search_from :: "data_block \<Rightarrow> data_block \<Rightarrow> data_block list \<Rightarrow> data_block list" where
  "queue_search_from new_db at (db # rest) =
     (if db_id db = db_id at then queue_search new_db (db # rest)
      else db # queue_search_from new_db at rest)"
| "queue_search_from new_db at [] = []"

fun queue_db :: "data_block \<Rightarrow> data_block list \<times> data_block option \<Rightarrow> data_block list \<times> data_block option" where
  "queue_db new_db ([], last_used) = ([new_db], last_used)"
| "queue_db new_db (db # rest, last_used) =
     (if db_block new_db < db_block db then (new_db # db # rest, last_used)
      else ((case last_used of
               Some lu \<Rightarrow> if db_block lu < db_block new_db
                 then queue_search_from new_db lu (db # rest)
                 else queue_search new_db (db # rest)
             | None \<Rightarrow> queue_search new_db (db # rest)), Some new_db))"

definition queue_new :: "u32 \<Rightarrow> u32 \<Rightarrow> db_source \<Rightarrow> unit wprog" where
  "queue_new block len src = modify (\<lambda>s.
     let db = \<lparr>db_id = w_next s, db_block = block, db_len = len, db_source = src\<rparr>;
         (q, lu) = queue_db db (w_queue s, w_last_used s)
     in s\<lparr>w_queue := q, w_last_used := lu, w_next := Suc (w_next s)\<rparr>)"

definition queue_data_block :: "ptr \<Rightarrow> u32 \<Rightarrow> u32 \<Rightarrow> unit wprog" where
  "queue_data_block data len block = queue_new block len (Db_Data data)"

definition queue_data_file :: "u8 list \<Rightarrow> u64 \<Rightarrow> u32 \<Rightarrow> u32 \<Rightarrow> unit wprog" where
  "queue_data_file filename offset len block = queue_new block len (Db_File filename offset)"

text \<open>\<open>for_each_data_block\<close>; the callbacks reach the output file through the state.\<close>

fun visit_data_blocks :: "(u64 \<Rightarrow> ptr \<Rightarrow> u32 \<Rightarrow> unit wprog) \<Rightarrow>
    (u64 \<Rightarrow> u8 list \<Rightarrow> u64 \<Rightarrow> u32 \<Rightarrow> unit wprog) \<Rightarrow> u32 \<Rightarrow> data_block list \<Rightarrow> unit wprog" where
  "visit_data_blocks data_func file_func last_block [] = ret ()"
| "visit_data_blocks data_func file_func last_block (db # rest) =
     sq (only_if (db_block db < last_block) error)
     (bind (gets (\<lambda>s. info_block_size (w_info s))) (\<lambda>block_size.
      sq (guard (\<lambda>_. block_size \<noteq> 0))
      (let last_block = db_block db + DIV_ROUND_UP (db_len db) block_size - 1;
           off = ucast (db_block db) * ucast block_size
       in sq (case db_source db of
                Db_File filename offset \<Rightarrow> file_func off filename offset (db_len db)
              | Db_Data data \<Rightarrow> data_func off data (db_len db))
             (visit_data_blocks data_func file_func last_block rest))))"

definition for_each_data_block :: "(u64 \<Rightarrow> ptr \<Rightarrow> u32 \<Rightarrow> unit wprog) \<Rightarrow>
    (u64 \<Rightarrow> u8 list \<Rightarrow> u64 \<Rightarrow> u32 \<Rightarrow> unit wprog) \<Rightarrow> unit wprog" where
  "for_each_data_block data_func file_func =
     bind (gets w_queue) (visit_data_blocks data_func file_func 0)"

definition free_data_blocks :: "unit wprog" where
  "free_data_blocks = modify (\<lambda>s. s\<lparr>w_queue := [], w_last_used := None\<rparr>)"

section \<open>The queue is a sorted list\<close>

definition db_sorted :: "data_block list \<Rightarrow> bool" where
  "db_sorted q \<longleftrightarrow> sorted (map db_block q)"

definition queue_inv :: "data_block list \<times> data_block option \<Rightarrow> bool" where
  "queue_inv q \<longleftrightarrow> db_sorted (fst q) \<and> (case snd q of None \<Rightarrow> True | Some lu \<Rightarrow> lu \<in> set (fst q))"

lemma queue_search_mset: "mset (queue_search new_db db) = add_mset new_db (mset db)"
  by (induction new_db db rule: queue_search.induct) auto

lemma queue_search_set [simp]: "set (queue_search new_db db) = insert new_db (set db)"
  by (induction new_db db rule: queue_search.induct) auto

lemma queue_search_sorted:
  "db_sorted db \<Longrightarrow> db \<noteq> [] \<Longrightarrow> db_block (hd db) \<le> db_block new_db \<Longrightarrow> db_sorted (queue_search new_db db)"
  by (induction new_db db rule: queue_search.induct) (auto simp: db_sorted_def)

lemma queue_search_Cons:
  "db_block e < db_block new_db \<Longrightarrow> d # queue_search new_db (e # es) = queue_search new_db (d # e # es)"
  by simp

text \<open>The hint only saves work: the search from it ends where the search from the head does.\<close>

lemma queue_search_from_eq:
  "db_sorted q \<Longrightarrow> at \<in> set q \<Longrightarrow> db_block at < db_block new_db \<Longrightarrow>
   queue_search_from new_db at q = queue_search new_db q"
proof (induction q)
  case Nil
  then show ?case by simp
next
  case (Cons d q)
  show ?case
  proof (cases "db_id d = db_id at")
    case True
    then show ?thesis by simp
  next
    case False
    with Cons.prems have at: "at \<in> set q" by auto
    then obtain e es where q: "q = e # es" by (cases q) auto
    have "db_block e \<le> db_block at"
      using Cons.prems(1) at unfolding q db_sorted_def by auto
    then have "db_block e < db_block new_db" using Cons.prems(3) by simp
    moreover have "queue_search_from new_db at q = queue_search new_db q"
      using Cons.IH Cons.prems at by (simp add: db_sorted_def)
    ultimately show ?thesis using False by (simp add: q)
  qed
qed

lemma queue_db_no_hint:
  assumes "queue_inv (q, lu)"
  shows "fst (queue_db new_db (q, lu)) = fst (queue_db new_db (q, None))"
  using assms queue_search_from_eq [of q]
  by (cases q) (simp_all add: queue_inv_def del: queue_search_from.simps split: option.splits)

lemma queue_db_mset:
  "queue_inv q \<Longrightarrow> mset (fst (queue_db new_db q)) = add_mset new_db (mset (fst q))"
proof -
  assume "queue_inv q"
  then have "fst (queue_db new_db q) = fst (queue_db new_db (fst q, None))"
    using queue_db_no_hint [of "fst q" "snd q"] by simp
  then show ?thesis by (cases "fst q") (auto simp: queue_search_mset)
qed

lemma queue_db_inv: "queue_inv q \<Longrightarrow> queue_inv (queue_db new_db q)"
proof -
  assume inv: "queue_inv q"
  obtain xs lu where q: "q = (xs, lu)" by (cases q)
  have eq: "fst (queue_db new_db q) = fst (queue_db new_db (xs, None))"
    using queue_db_no_hint inv q by simp
  have "db_sorted (fst (queue_db new_db (xs, None)))"
  proof (cases xs)
    case (Cons d ds)
    have "db_sorted (queue_search new_db (d # ds))" if "\<not> db_block new_db < db_block d"
      using inv that by (intro queue_search_sorted) (auto simp: q queue_inv_def Cons not_less)
    then show ?thesis using inv by (auto simp: q Cons queue_inv_def db_sorted_def)
  qed (simp add: db_sorted_def)
  moreover have "set (fst (queue_db new_db q)) = insert new_db (set xs)"
    using queue_db_mset [OF inv, of new_db] q by (metis fst_conv set_mset_add_mset_insert set_mset_mset)
  moreover have "snd (queue_db new_db q) = lu \<or> snd (queue_db new_db q) = Some new_db"
    by (cases xs) (auto simp: q)
  ultimately have "db_sorted (fst (queue_db new_db q))" "case snd (queue_db new_db q) of None \<Rightarrow> True
      | Some lu \<Rightarrow> lu \<in> set (fst (queue_db new_db q))"
    using inv unfolding queue_inv_def eq by (auto simp: q split: option.split_asm)
  then show ?thesis unfolding queue_inv_def ..
qed

text \<open>What a client of a sorted queue relies on, and what it gets from any number of insertions.\<close>

locale sorted_queue =
  fixes ins :: "'a \<Rightarrow> 'q \<Rightarrow> 'q"
    and items :: "'q \<Rightarrow> 'a list"
    and inv :: "'q \<Rightarrow> bool"
    and key :: "'a \<Rightarrow> 'k::linorder"
  assumes ins_inv: "inv q \<Longrightarrow> inv (ins x q)"
    and ins_items: "inv q \<Longrightarrow> mset (items (ins x q)) = add_mset x (mset (items q))"
    and inv_sorted: "inv q \<Longrightarrow> sorted (map key (items q))"
begin

lemma fold_inv: "inv q \<Longrightarrow> inv (fold ins xs q)"
  by (induction xs arbitrary: q) (simp_all add: ins_inv)

lemma fold_items: "inv q \<Longrightarrow> mset (items (fold ins xs q)) = mset xs + mset (items q)"
  by (induction xs arbitrary: q) (simp_all add: ins_inv ins_items)

text \<open>When the keys are distinct, the result is the one sorting of the insertions.\<close>

lemma fold_sorts:
  assumes "inv q" and "items q = []" and "distinct (map key xs)"
  shows "items (fold ins xs q) = sort_key key xs"
proof -
  have m: "mset (items (fold ins xs q)) = mset xs"
    using fold_items [OF assms(1)] assms(2) by simp
  have d: "distinct (map key (items (fold ins xs q)))"
    using assms(3) m by (metis distinct_map mset_eq_setD mset_eq_imp_distinct_iff)
  show ?thesis
  proof (rule properties_for_sort_key [symmetric])
    show "mset (items (fold ins xs q)) = mset xs" by (rule m)
    show "sorted (map key (items (fold ins xs q)))"
      by (rule inv_sorted, rule fold_inv, rule assms(1))
    fix k
    assume k: "k \<in> set (items (fold ins xs q))"
    have one: "filter (\<lambda>x. key k = key x) ys = [k]" if "distinct (map key ys)" "k \<in> set ys" for ys
      using that
    proof (induction ys)
      case (Cons y ys)
      then show ?case
        by (cases "y = k") (auto simp: filter_empty_conv image_iff)
    qed simp
    show "filter (\<lambda>x. key k = key x) (items (fold ins xs q)) = filter (\<lambda>x. key k = key x) xs"
      using one [OF d k] one [OF assms(3)] k m by (metis mset_eq_setD)
  qed
qed

end

interpretation dbq: sorted_queue queue_db fst queue_inv db_block
  by unfold_locales
    (auto simp: queue_db_inv queue_db_mset, simp add: queue_inv_def db_sorted_def)

section \<open>Properties\<close>

text \<open>C6.  The queue keeps its blocks sorted, loses none and invents none, and the search hint never
  changes where a block goes.\<close>
theorem queue_db_correct:
  assumes "queue_inv (q, lu)"
  shows "sorted (map db_block (fst (queue_db new_db (q, lu)))) \<and>
    mset (fst (queue_db new_db (q, lu))) = add_mset new_db (mset q) \<and>
    queue_inv (queue_db new_db (q, lu)) \<and>
    fst (queue_db new_db (q, lu)) = fst (queue_db new_db (q, None))"
  using assms queue_db_inv [of "(q, lu)"] queue_db_mset [of "(q, lu)"] queue_db_no_hint [of q lu]
  by (auto simp: queue_inv_def db_sorted_def)

theorem queue_db_correct_witness:
  "let a = \<lparr>db_id = 0, db_block = 5, db_len = 1, db_source = Db_Data (0, 0)\<rparr>;
       b = \<lparr>db_id = 1, db_block = 9, db_len = 1, db_source = Db_Data (0, 0)\<rparr>;
       c = \<lparr>db_id = 2, db_block = 7, db_len = 1, db_source = Db_Data (0, 0)\<rparr>
   in queue_inv ([a, b], Some a) \<and> sorted (map db_block (fst (queue_db c ([a, b], Some a))))"
proof -
  define a b c where abc: "a = \<lparr>db_id = 0, db_block = 5, db_len = 1, db_source = Db_Data (0, 0)\<rparr>"
    "b = \<lparr>db_id = 1, db_block = 9, db_len = 1, db_source = Db_Data (0, 0)\<rparr>"
    "c = \<lparr>db_id = 2, db_block = 7, db_len = 1, db_source = Db_Data (0, 0)\<rparr>"
  have inv: "queue_inv ([a, b], Some a)" by (simp add: queue_inv_def db_sorted_def abc)
  from queue_db_correct [OF inv] inv show ?thesis by (simp add: Let_def abc)
qed

text \<open> Queueing any blocks with distinct numbers into an empty queue leaves exactly the sorting of
  the blocks: the queue is an insertion sort.\<close>
theorem queue_db_sorts:
  assumes "distinct (map db_block dbs)"
  shows "fst (fold queue_db dbs ([], None)) = sort_key db_block dbs"
  by (rule dbq.fold_sorts [OF _ _ assms]) (simp_all add: queue_inv_def db_sorted_def)

theorem queue_db_sorts_witness:
  "let a = \<lparr>db_id = 0, db_block = 9, db_len = 1, db_source = Db_Data (0, 0)\<rparr>;
       b = \<lparr>db_id = 1, db_block = 5, db_len = 1, db_source = Db_Data (0, 0)\<rparr>
   in fst (fold queue_db [a, b] ([], None)) = [b, a]"
  using queue_db_sorts [of "[\<lparr>db_id = 0, db_block = 9, db_len = 1, db_source = Db_Data (0, 0)\<rparr>,
      \<lparr>db_id = 1, db_block = 5, db_len = 1, db_source = Db_Data (0, 0)\<rparr>]"]
  by simp

end
