(* ===== verification/Fs_Geometry.thy ===== *)
theory Fs_Geometry
  imports Backed_Block
begin

text \<open>
  The shape of the file system: which block groups carry a backup superblock, the derived
  parameters \<open>ext4_create_fs_aux_info\<close> computes (\<open>ext4_utils.c\<close>), and the defaults
  \<open>make_ext4fs.c\<close> computes from the size of the image.  Arithmetic is at the widths of the
  64-bit build: \<open>sizeof\<close> is 64 bits wide.
\<close>

section \<open>Powers and logarithms\<close>

text \<open>\<open>is_power_of\<close>'s loop divides \<open>a\<close> by \<open>b\<close>; it is only called with \<open>b\<close> 3, 5 and 7.\<close>

function is_power_of :: "int \<Rightarrow> int \<Rightarrow> bool" where
  "is_power_of a b =
     (if 1 < b \<and> b < a then (if a mod b \<noteq> 0 then False else is_power_of (a div b) b)
      else a = b)"
  by auto
termination
  by (relation "measure (\<lambda>(a, b). nat a)")
    (auto simp: int_div_less_self)

declare is_power_of.simps [simp del]

function log_2_loop :: "int \<Rightarrow> int \<Rightarrow> int" where
  "log_2_loop i j = (if 0 < j then log_2_loop (i + 1) (j div 2) else i - 1)"
  by auto
termination
  by (relation "measure (\<lambda>(i, j). nat j)") auto

declare log_2_loop.simps [simp del]

definition log_2 :: "int \<Rightarrow> int" where
  "log_2 j = log_2_loop 0 j"

definition EXT4_FEATURE_RO_COMPAT_SPARSE_SUPER :: u16 where
  "EXT4_FEATURE_RO_COMPAT_SPARSE_SUPER = 0x0001"

definition ext4_bg_has_super_block :: "fs_info \<Rightarrow> u32 \<Rightarrow> bool" where
  "ext4_bg_has_super_block info bg =
     (if info_feat_ro_compat info AND EXT4_FEATURE_RO_COMPAT_SPARSE_SUPER = 0 then True
      else if bg = 0 \<or> bg = 1 then True
      else is_power_of (sint bg) 3 \<or> is_power_of (sint bg) 5 \<or> is_power_of (sint bg) 7)"

lemma is_power_of_iff:
  assumes "1 < b"
  shows "is_power_of a b \<longleftrightarrow> (\<exists>k>0. a = b ^ k)"
  using assms
proof (induction a b rule: is_power_of.induct)
  case (1 a b)
  show ?case
  proof (cases "b < a")
    case False
    have "a = b" if "k > 0" "a = b ^ k" for k
    proof -
      have "b ^ 1 \<le> b ^ k" using 1 that by (intro power_increasing) auto
      then show ?thesis using False that by simp
    qed
    moreover have "\<exists>k>0. a = b ^ k" if "a = b" using that by (intro exI [of _ 1]) simp
    ultimately show ?thesis using False by (subst is_power_of.simps) auto
  next
    case big: True
    show ?thesis
    proof (cases "a mod b = 0")
      case False
      have "\<not> (\<exists>k>0. a = b ^ k)" using False by (auto simp: gr0_conv_Suc)
      then show ?thesis using False big 1(2) by (subst is_power_of.simps) auto
    next
      case True
      then have a: "a = b * (a div b)" by auto
      have "is_power_of a b = is_power_of (a div b) b"
        using big 1(2) True by (subst is_power_of.simps) auto
      also have "\<dots> = (\<exists>k>0. a div b = b ^ k)" using 1 big True by auto
      also have "\<dots> = (\<exists>k>0. a = b ^ k)"
      proof
        assume "\<exists>k>0. a div b = b ^ k"
        then obtain k where "a div b = b ^ k" by auto
        then have "a = b ^ Suc k" using a by simp
        then show "\<exists>k>0. a = b ^ k" by blast
      next
        assume "\<exists>k>0. a = b ^ k"
        then obtain k0 where "0 < k0" "a = b ^ k0" by blast
        then obtain k where k: "a = b ^ Suc k" by (cases k0) auto
        then have "k \<noteq> 0" using big by (cases k) auto
        moreover have "a div b = b ^ k" using k 1(2) by simp
        ultimately show "\<exists>k>0. a div b = b ^ k" by blast
      qed
      finally show ?thesis .
    qed
  qed
qed

lemma log_2_loop_bounds:
  "0 < j \<Longrightarrow> \<exists>k. log_2_loop i j = i + int k \<and> 2 ^ k \<le> j \<and> j < 2 ^ Suc k"
proof (induction i j rule: log_2_loop.induct)
  case (1 i j)
  show ?case
  proof (cases "j = 1")
    case True
    then show ?thesis by (intro exI [of _ 0]) (simp add: log_2_loop.simps)
  next
    case False
    then have "0 < j div 2" using 1(2) by simp
    with 1 False obtain k where k: "log_2_loop (i + 1) (j div 2) = i + 1 + int k"
      "2 ^ k \<le> j div 2" "j div 2 < 2 ^ Suc k" by auto
    have "log_2_loop i j = i + int (Suc k)"
      using 1(2) k(1) by (subst log_2_loop.simps) simp
    moreover have "2 ^ Suc k \<le> j" "j < 2 ^ Suc (Suc k)" using k(2,3) by auto
    ultimately show ?thesis by blast
  qed
qed

lemma ext4_bg_has_super_block_iff:
  assumes "info_feat_ro_compat info AND EXT4_FEATURE_RO_COMPAT_SPARSE_SUPER \<noteq> 0" and "unat bg < 2 ^ 31"
  shows "ext4_bg_has_super_block info bg \<longleftrightarrow>
    unat bg = 0 \<or> unat bg = 1 \<or> (\<exists>k. unat bg = 3 ^ k \<or> unat bg = 5 ^ k \<or> unat bg = 7 ^ k)"
proof -
  have s: "sint bg = int (unat bg)"
    using assms(2) by (simp add: sint_u32)
  have pw: "(\<exists>k>0. int (unat bg) = (int b) ^ k) \<or> unat bg = 1 \<longleftrightarrow> (\<exists>k. unat bg = b ^ k)" for b :: nat
  proof -
    have "(int (unat bg) = int b ^ k) = (unat bg = b ^ k)" for k
      by (metis of_nat_eq_iff of_nat_power)
    then show ?thesis by (metis gr0I power_0)
  qed
  have b: "bg = 0 \<longleftrightarrow> unat bg = 0" "bg = 1 \<longleftrightarrow> unat bg = 1"
    by (simp_all only: word_unat_eq_iff unat_0 unat_1)
  have p: "is_power_of (sint bg) (int b) \<or> unat bg = 1 \<longleftrightarrow> (\<exists>k. unat bg = b ^ k)" if "1 < b" for b
    using is_power_of_iff [of "int b" "int (unat bg)"] that pw [of b] unfolding s by simp
  have c: "(info_feat_ro_compat info AND EXT4_FEATURE_RO_COMPAT_SPARSE_SUPER = 0) = False"
    using assms(1) by simp
  have "ext4_bg_has_super_block info bg \<longleftrightarrow> unat bg = 0 \<or> unat bg = 1 \<or>
      is_power_of (sint bg) (int 3) \<or> is_power_of (sint bg) (int 5) \<or> is_power_of (sint bg) (int 7)"
    unfolding ext4_bg_has_super_block_def c b if_False of_nat_numeral by argo
  moreover have "(1 :: nat) < 3" "(1 :: nat) < 5" "(1 :: nat) < 7" by simp_all
  ultimately show ?thesis
    using p [of 3] p [of 5] p [of 7] unfolding ex_disj_distrib by argo
qed

section \<open>Derived parameters\<close>

definition EXT4_NOATIME_FL :: u32 where
  "EXT4_NOATIME_FL = 0x00000080"

definition sizeof_group_desc :: u64 where
  "sizeof_group_desc = 32"

text \<open>The blocks before the data of a group: both bitmaps and the inode table, and in front of
  them, where the group carries a backup, the superblock and the descriptor blocks.\<close>

definition aux_parameters :: "fs_info \<Rightarrow> fs_aux_info \<Rightarrow> fs_aux_info" where
  "aux_parameters info aux =
     (let first_data_block = (if info_block_size info > 1024 then 0 else 1);
          len_blocks = info_len info div ucast (info_block_size info);
          inode_table_blocks =
            DIV_ROUND_UP (info_inodes_per_group info * info_inode_size info) (info_block_size info);
          groups = ucast (DIV_ROUND_UP (len_blocks - ucast first_data_block)
            (ucast (info_blocks_per_group info)));
          blocks_per_ind = info_block_size info div 4;
          blocks_per_dind = blocks_per_ind * blocks_per_ind;
          blocks_per_tind = blocks_per_dind * blocks_per_dind;
          bg_desc_blocks = ucast (DIV_ROUND_UP (ucast groups * sizeof_group_desc)
            (ucast (info_block_size info)));
          bg_desc_reserve_blocks = ucast (DIV_ROUND_UP (ucast (groups * 1024) * sizeof_group_desc)
            (ucast (info_block_size info)) - ucast bg_desc_blocks);
          bg_desc_reserve_blocks = (if blocks_per_ind < bg_desc_reserve_blocks then blocks_per_ind
            else bg_desc_reserve_blocks);
          last_group_size = ucast (len_blocks mod ucast (info_blocks_per_group info));
          last_header_size = 2 + inode_table_blocks;
          last_header_size = (if ext4_bg_has_super_block info (groups - 1)
            then last_header_size + (1 + bg_desc_blocks + bg_desc_reserve_blocks) else last_header_size);
          trim = (last_group_size > 0 \<and> last_group_size < last_header_size)
      in aux\<lparr>aux_first_data_block := first_data_block,
           aux_len_blocks := (if trim then len_blocks - ucast last_group_size else len_blocks),
           aux_inode_table_blocks := inode_table_blocks,
           aux_groups := (if trim then groups - 1 else groups),
           aux_bg_desc_blocks := bg_desc_blocks,
           aux_bg_desc_reserve_blocks := bg_desc_reserve_blocks,
           aux_default_i_flags := EXT4_NOATIME_FL,
           aux_blocks_per_ind := blocks_per_ind,
           aux_blocks_per_dind := blocks_per_dind,
           aux_blocks_per_tind := blocks_per_tind\<rparr>)"

definition ext4_create_fs_aux_info :: "unit wprog" where
  "ext4_create_fs_aux_info =
     sq (guard (\<lambda>s. info_block_size (w_info s) \<noteq> 0 \<and> info_blocks_per_group (w_info s) \<noteq> 0))
     (sq (modify (\<lambda>s. s\<lparr>w_aux := aux_parameters (w_info s) (w_aux s)\<rparr>))
     (bind (gets (\<lambda>s. unat (info_block_size (w_info s)))) (\<lambda>block_size.
      bind (gets (\<lambda>s. unat (aux_bg_desc_blocks (w_aux s)))) (\<lambda>desc_blocks.
      bind (calloc block_size) (\<lambda>sb.
      sq (modify (\<lambda>s. s\<lparr>w_aux := (w_aux s)\<lparr>aux_sb := sb\<rparr>\<rparr>))
      (bind (calloc (block_size * desc_blocks)) (\<lambda>bg_desc.
      modify (\<lambda>s. s\<lparr>w_aux := (w_aux s)\<lparr>aux_bg_desc := bg_desc\<rparr>\<rparr>))))))))"

definition ext4_free_fs_aux_info :: "unit wprog" where
  "ext4_free_fs_aux_info =
     bind (gets w_aux) (\<lambda>aux. sq (free_buf (aux_sb aux)) (free_buf (aux_bg_desc aux)))"

section \<open>Defaults from the image size\<close>

definition compute_block_size :: u32 where
  "compute_block_size = 4096"

definition size_in_blocks :: "fs_info \<Rightarrow> u64" where
  "size_in_blocks info = DIV_ROUND_UP (info_len info) (ucast (info_block_size info))"

definition compute_journal_blocks :: "fs_info \<Rightarrow> u32" where
  "compute_journal_blocks info =
     (let journal_blocks = ucast (size_in_blocks info div 64);
          journal_blocks = (if journal_blocks < 1024 then 1024 else journal_blocks)
      in if 32768 < journal_blocks then 32768 else journal_blocks)"

definition compute_blocks_per_group :: "fs_info \<Rightarrow> u32" where
  "compute_blocks_per_group info = info_block_size info * 8"

definition compute_inodes :: "fs_info \<Rightarrow> u32" where
  "compute_inodes info = ucast (size_in_blocks info div 4)"

definition compute_inodes_per_group :: "fs_info \<Rightarrow> u32" where
  "compute_inodes_per_group info =
     (let blocks = ucast (size_in_blocks info);
          block_groups = DIV_ROUND_UP blocks (info_blocks_per_group info)
      in DIV_ROUND_UP (info_inodes info) block_groups)"

section \<open>Sizes with a suffix\<close>

text \<open>The C library's \<open>strtoull\<close> in base 10 on the bytes of a string: white space, a sign,
  digits; the value saturates; the end pointer is the start when there are no digits.\<close>

definition is_space :: "u8 \<Rightarrow> bool" where
  "is_space c \<longleftrightarrow> c = 32 \<or> 9 \<le> c \<and> c \<le> 13"

definition is_digit :: "u8 \<Rightarrow> bool" where
  "is_digit c \<longleftrightarrow> 48 \<le> c \<and> c \<le> 57"

definition digits_value :: "u8 list \<Rightarrow> nat" where
  "digits_value ds = foldl (\<lambda>v c. 10 * v + (unat c - 48)) 0 ds"

definition strtoull :: "u8 list \<Rightarrow> u64 \<times> u8 list" where
  "strtoull arg =
     (let body = dropWhile is_space arg;
          neg = (body \<noteq> [] \<and> hd body = 45);
          body = (if body \<noteq> [] \<and> (hd body = 45 \<or> hd body = 43) then tl body else body);
          ds = takeWhile is_digit body;
          v = digits_value ds
      in if ds = [] then (0, arg)
         else (if 2 ^ 64 \<le> v then - 1 else if neg then - of_nat v else of_nat v,
               dropWhile is_digit body))"

definition parse_num :: "u8 list \<Rightarrow> u64" where
  "parse_num arg =
     (let (num, endptr) = strtoull arg;
          c = (if endptr = [] then 0 else hd endptr)
      in if c = 107 \<or> c = 75 then num * 1024
         else if c = 109 \<or> c = 77 then num * (1024 * 1024)
         else if c = 103 \<or> c = 71 then num * (1024 * 1024 * 1024)
         else num)"

section \<open>Properties\<close>

text \<open>C21.  With the \<open>sparse_super\<close> feature exactly the groups 0, 1 and the powers of 3, 5 and 7
  carry a backup superblock.\<close>
theorem backup_superblocks:
  assumes "info_feat_ro_compat info AND EXT4_FEATURE_RO_COMPAT_SPARSE_SUPER \<noteq> 0" and "unat bg < 2 ^ 31"
  shows "ext4_bg_has_super_block info bg \<longleftrightarrow>
    unat bg = 0 \<or> unat bg = 1 \<or> (\<exists>k. unat bg = 3 ^ k \<or> unat bg = 5 ^ k \<or> unat bg = 7 ^ k)"
  using assms by (rule ext4_bg_has_super_block_iff)

definition sample_info :: fs_info where
  "sample_info = \<lparr>info_len = 268435456, info_block_size = 4096, info_blocks_per_group = 32768,
     info_inodes_per_group = 8192, info_inode_size = 256, info_inodes = 16384, info_journal_blocks = 1024,
     info_feat_ro_compat = 3, info_feat_compat = 0x14, info_feat_incompat = 0x42, info_label = Some [],
     info_no_journal = 0\<rparr>"

theorem backup_superblocks_witness: "ext4_bg_has_super_block sample_info 49"
proof -
  have "\<exists>k. (49 :: nat) = 3 ^ k \<or> (49 :: nat) = 5 ^ k \<or> (49 :: nat) = 7 ^ k" by (rule exI [of _ 2]) simp
  then show ?thesis
    using backup_superblocks [of sample_info 49]
    by (simp add: sample_info_def EXT4_FEATURE_RO_COMPAT_SPARSE_SUPER_def)
qed

end
