(* ===== verification/Block_Group.thy ===== *)
theory Block_Group
  imports Fs_Geometry
begin

text \<open>
  Block groups (\<open>allocate.c\<close>): the block and inode bitmaps, reserving and freeing blocks of a group,
  the setup of a group, allocation of blocks and inodes from groups.  A group is passed by its index
  in \<open>aux_info.bgs\<close>.
\<close>

definition EXT4_ALLOCATE_FAILED :: u32 where
  "EXT4_ALLOCATE_FAILED = NOT 0"

section \<open>Bitmaps\<close>

definition bitmap_set_bit :: "ptr \<Rightarrow> u32 \<Rightarrow> bool wprog" where
  "bitmap_set_bit bitmap b =
     (let p = ptr_add bitmap (unat (b div 8)); m = push_bit (unat (b mod 8)) 1
      in bind (load_u8 p) (\<lambda>w.
         if w AND m \<noteq> 0 then ret True
         else sq (modify_u8 p (\<lambda>x. x OR m)) (ret False)))"

definition bitmap_set_8_bits :: "ptr \<Rightarrow> u32 \<Rightarrow> u8 wprog" where
  "bitmap_set_8_bits bitmap b =
     (let p = ptr_add bitmap (unat (b div 8))
      in bind (load_u8 p) (\<lambda>r. sq (store_u8 p 0xFF) (ret r)))"

section \<open>Reserving and freeing the blocks of a group\<close>

text \<open>The three loops of \<open>reserve_blocks\<close> share their shape: while \<open>cond i block\<close> holds, mark at
  \<open>block\<close>, complain and give up if it was marked, advance both by \<open>step\<close>.\<close>

definition reserve_step :: "(u32 \<Rightarrow> u32 \<Rightarrow> bool) \<Rightarrow> u32 \<Rightarrow> (u32 \<Rightarrow> bool wprog) \<Rightarrow> u32 \<times> u32 \<Rightarrow>
    ((u32 \<times> u32) option + u32 \<times> u32) wprog" where
  "reserve_step cond step mark = (\<lambda>(i, block).
     if cond i block
     then bind (mark block) (\<lambda>taken.
       if taken then sq error (ret (Inl None)) else ret (Inr (i + step, block + step)))
     else ret (Inl (Some (i, block))))"

definition reserve_blocks :: "nat \<Rightarrow> u32 \<Rightarrow> u32 \<Rightarrow> int wprog" where
  "reserve_blocks g start num =
     bind (bg_at g) (\<lambda>bg.
     if bg_free_blocks bg < num then ret (- 1)
     else let bitmap = bg_block_bitmap bg; fuel = Suc (unat num) in
     bind (loop fuel (reserve_step (\<lambda>i block. i < num \<and> block mod 8 \<noteq> 0) 1 (bitmap_set_bit bitmap))
             (0, start)) (\<lambda>r.
     case r of None \<Rightarrow> ret (- 1) | Some x \<Rightarrow>
     bind (loop fuel (reserve_step (\<lambda>i block. i + 8 \<le> num AND NOT 7) 8
             (\<lambda>block. bind (bitmap_set_8_bits bitmap block) (\<lambda>old. ret (old \<noteq> 0)))) x) (\<lambda>r.
     case r of None \<Rightarrow> ret (- 1) | Some x \<Rightarrow>
     bind (loop fuel (reserve_step (\<lambda>i block. i < num) 1 (bitmap_set_bit bitmap)) x) (\<lambda>r.
     case r of None \<Rightarrow> ret (- 1) | Some x \<Rightarrow>
     sq (set_bg g (\<lambda>bg. bg\<lparr>bg_free_blocks := bg_free_blocks bg - num\<rparr>))
     (sq (set_bg g (\<lambda>bg. if start = bg_first_free_block bg
            then bg\<lparr>bg_first_free_block := start + num\<rparr> else bg))
     (ret 0))))))"

definition free_blocks :: "nat \<Rightarrow> u32 \<Rightarrow> unit wprog" where
  "free_blocks g num_blocks =
     bind (bg_at g) (\<lambda>bg.
     sq (for_all [0..<unat num_blocks] (\<lambda>i.
           let block = bg_first_free_block bg - 1 - of_nat i
           in modify_u8 (ptr_add (bg_block_bitmap bg) (unat (block div 8)))
                (\<lambda>x. x AND NOT (push_bit (unat (block mod 8)) 1))))
     (set_bg g (\<lambda>bg. bg\<lparr>bg_free_blocks := bg_free_blocks bg + num_blocks,
                        bg_first_free_block := bg_first_free_block bg - num_blocks\<rparr>)))"

section \<open>Setting up the groups\<close>

definition init_bg :: "u32 \<Rightarrow> unit wprog" where
  "init_bg i =
     bind (gets w_info) (\<lambda>info. bind (gets w_aux) (\<lambda>aux.
     let g = unat i;
         header_blocks = 2 + aux_inode_table_blocks aux;
         has_superblock = ext4_bg_has_super_block info i;
         header_blocks = (if has_superblock
           then header_blocks + (1 + aux_bg_desc_blocks aux + aux_bg_desc_reserve_blocks aux)
           else header_blocks);
         first_block = aux_first_data_block aux + i * info_blocks_per_group info;
         block = (if has_superblock
           then first_block + (1 + aux_bg_desc_blocks aux + aux_bg_desc_reserve_blocks aux)
           else first_block)
     in bind (calloc (unat (info_block_size info) * 2)) (\<lambda>bitmaps.
        sq (set_bg g (\<lambda>bg. bg\<lparr>bg_has_superblock := has_superblock,
              bg_block_bitmap := bitmaps,
              bg_inode_bitmap := ptr_add bitmaps (unat (info_block_size info)),
              bg_header_blocks := header_blocks,
              bg_first_block := first_block\<rparr>))
        (sq (queue_data_block bitmaps (2 * info_block_size info) block)
        (sq (set_bg g (\<lambda>bg. bg\<lparr>bg_data_blocks_used := 0,
              bg_free_blocks := info_blocks_per_group info,
              bg_first_free_block := 0,
              bg_free_inodes := info_inodes_per_group info,
              bg_first_free_inode := 1\<rparr>))
        (bind (reserve_blocks g 0 header_blocks) (\<lambda>r.
         sq (only_if (r < 0) error)
         (let overrun = ucast (ucast (first_block + info_blocks_per_group info) - aux_len_blocks aux)
          in if 0 < overrun
             then bind (reserve_blocks g (info_blocks_per_group info - overrun) overrun) (\<lambda>_. ret ())
             else ret ()))))))))"

definition bg_zero :: block_group_info where
  "bg_zero = \<lparr>bg_first_block = 0, bg_header_blocks = 0, bg_data_blocks_used = 0, bg_has_superblock = False,
     bg_block_bitmap = (0, 0), bg_inode_bitmap = (0, 0), bg_inode_table = None, bg_free_blocks = 0,
     bg_first_free_block = 0, bg_free_inodes = 0, bg_first_free_inode = 0, bg_used_dirs = 0\<rparr>"

text \<open>The numbers \<open>0 .. n - 1\<close> a \<open>u32\<close> counter runs through.\<close>

definition upto_u32 :: "u32 \<Rightarrow> u32 list" where
  "upto_u32 n = map of_nat [0..<unat n]"

definition block_allocator_init :: "unit wprog" where
  "block_allocator_init =
     bind (gets (\<lambda>s. aux_groups (w_aux s))) (\<lambda>groups.
     sq (modify (\<lambda>s. s\<lparr>w_bgs := replicate (unat groups) bg_zero\<rparr>))
     (for_all (upto_u32 groups) init_bg))"

definition block_allocator_free :: "unit wprog" where
  "block_allocator_free =
     bind (gets (\<lambda>s. aux_groups (w_aux s))) (\<lambda>groups.
     sq (for_all (upto_u32 groups) (\<lambda>i. bind (bg_at (unat i)) (\<lambda>bg.
           sq (free_buf (bg_block_bitmap bg))
              (case bg_inode_table bg of None \<Rightarrow> ret () | Some p \<Rightarrow> free_buf p))))
     (modify (\<lambda>s. s\<lparr>w_bgs := []\<rparr>)))"

section \<open>Allocating blocks of a group\<close>

definition get_free_blocks :: "u32 \<Rightarrow> u32 wprog" where
  "get_free_blocks bg = bind (bg_at (unat bg)) (\<lambda>b. ret (bg_free_blocks b))"

definition ext4_allocate_blocks_from_block_group :: "u32 \<Rightarrow> u32 \<Rightarrow> u32 wprog" where
  "ext4_allocate_blocks_from_block_group len bg_num =
     bind (get_free_blocks bg_num) (\<lambda>free.
     if free < len then ret EXT4_ALLOCATE_FAILED
     else bind (bg_at (unat bg_num)) (\<lambda>bg.
       let block = bg_first_free_block bg in
       bind (reserve_blocks (unat bg_num) (bg_first_free_block bg) len) (\<lambda>r.
       if r < 0 then sq error (ret EXT4_ALLOCATE_FAILED)
       else sq (set_bg (unat bg_num) (\<lambda>bg. bg\<lparr>bg_data_blocks_used := bg_data_blocks_used bg + len\<rparr>))
              (ret (bg_first_block bg + block)))))"

text \<open>The first group that can satisfy the request: its number and the first block.\<close>

definition first_group :: "u32 \<Rightarrow> (u32 \<times> u32) option wprog" where
  "first_group len =
     bind (gets (\<lambda>s. aux_groups (w_aux s))) (\<lambda>groups.
     bind (for_each (upto_u32 groups) (\<lambda>i (_ :: unit).
       bind (ext4_allocate_blocks_from_block_group len i) (\<lambda>block.
         if block \<noteq> EXT4_ALLOCATE_FAILED then ret (Inl (i, block)) else ret (Inr ()))) ())
     (\<lambda>r. case r of Inl x \<Rightarrow> ret (Some x) | Inr _ \<Rightarrow> ret None))"

definition allocate_block :: "u32 wprog" where
  "allocate_block = bind (first_group 1) (\<lambda>r.
     case r of Some (_, block) \<Rightarrow> ret block | None \<Rightarrow> ret EXT4_ALLOCATE_FAILED)"

section \<open>Inodes\<close>

definition allocate_bg_inode_table :: "nat \<Rightarrow> unit wprog" where
  "allocate_bg_inode_table g =
     bind (bg_at g) (\<lambda>bg.
     if bg_inode_table bg \<noteq> None then ret ()
     else bind (gets w_info) (\<lambda>info. bind (gets w_aux) (\<lambda>aux.
       let block = bg_first_block bg + 2;
           block = (if bg_has_superblock bg
             then block + (aux_bg_desc_blocks aux + aux_bg_desc_reserve_blocks aux + 1) else block)
       in bind (calloc (unat (aux_inode_table_blocks aux) * unat (info_block_size info))) (\<lambda>p.
          sq (set_bg g (\<lambda>bg. bg\<lparr>bg_inode_table := Some p\<rparr>))
             (queue_data_block p (aux_inode_table_blocks aux * info_block_size info) block)))))"

definition get_inode :: "u32 \<Rightarrow> ptr wprog" where
  "get_inode inode =
     bind (gets w_info) (\<lambda>info.
     sq (guard (\<lambda>_. info_inodes_per_group info \<noteq> 0))
     (let inode = inode - 1;
          bg = unat (inode div info_inodes_per_group info);
          inode = inode mod info_inodes_per_group info
      in sq (allocate_bg_inode_table bg)
         (bind (bg_at bg) (\<lambda>b. bind (from_option (bg_inode_table b)) (\<lambda>table.
          ret (ptr_add table (unat (inode * info_inode_size info))))))))"

definition get_free_inodes :: "u32 \<Rightarrow> u32 wprog" where
  "get_free_inodes bg = bind (bg_at (unat bg)) (\<lambda>b. ret (bg_free_inodes b))"

definition reserve_inodes :: "u32 \<Rightarrow> u32 \<Rightarrow> u32 wprog" where
  "reserve_inodes bg num =
     bind (get_free_inodes bg) (\<lambda>free.
     if free < num then ret EXT4_ALLOCATE_FAILED
     else bind (bg_at (unat bg)) (\<lambda>b.
       sq (for_all (upto_u32 num) (\<lambda>i.
             let inode = bg_first_free_inode b + i - 1
             in modify_u8 (ptr_add (bg_inode_bitmap b) (unat (inode div 8)))
                  (\<lambda>x. x OR push_bit (unat (inode mod 8)) 1)))
       (sq (set_bg (unat bg) (\<lambda>b. b\<lparr>bg_first_free_inode := bg_first_free_inode b + num,
                                    bg_free_inodes := bg_free_inodes b - num\<rparr>))
       (ret (bg_first_free_inode b)))))"

definition allocate_inode :: "u32 wprog" where
  "allocate_inode =
     bind (gets (\<lambda>s. aux_groups (w_aux s))) (\<lambda>groups.
     bind (for_each (upto_u32 groups) (\<lambda>bg (_ :: unit).
       bind (reserve_inodes bg 1) (\<lambda>inode.
         if inode \<noteq> EXT4_ALLOCATE_FAILED
         then bind (gets (\<lambda>s. info_inodes_per_group (w_info s))) (\<lambda>ipg. ret (Inl (bg * ipg + inode)))
         else ret (Inr ()))) ())
     (\<lambda>r. case r of Inl x \<Rightarrow> ret x | Inr _ \<Rightarrow> ret EXT4_ALLOCATE_FAILED))"

definition add_directory :: "u32 \<Rightarrow> unit wprog" where
  "add_directory inode =
     bind (gets (\<lambda>s. info_inodes_per_group (w_info s))) (\<lambda>ipg.
     sq (guard (\<lambda>_. ipg \<noteq> 0))
     (set_bg (unat ((inode - 1) div ipg)) (\<lambda>b. b\<lparr>bg_used_dirs := bg_used_dirs b + 1\<rparr>)))"

definition get_directories :: "u32 \<Rightarrow> u16 wprog" where
  "get_directories bg = bind (bg_at (unat bg)) (\<lambda>b. ret (bg_used_dirs b))"

end
