(* ===== verification/Region_List.thy ===== *)
theory Region_List
  imports Block_Group
begin

text \<open>
  Block allocations (\<open>allocate.c\<close>): a \<open>block_allocation\<close> is a main and an out-of-band list of regions,
  doubly linked in the heap \<open>w_reg\<close>, each with an iterator.  The struct is passed and returned by
  value, its regions by address.  A walk along \<open>next\<close> pointers has the number of addresses
  handed out so far as its fuel: only a cyclic list outlasts it.
\<close>

record region_list =
  rl_first :: "nat option"
  rl_last :: "nat option"
  rl_iter :: "nat option"
  rl_partial_iter :: u32

record block_allocation =
  ba_list :: region_list
  ba_oob_list :: region_list

definition empty_region_list :: region_list where
  "empty_region_list = \<lparr>rl_first = None, rl_last = None, rl_iter = None, rl_partial_iter = 0\<rparr>"

definition create_allocation :: block_allocation where
  "create_allocation = \<lparr>ba_list = empty_region_list, ba_oob_list = empty_region_list\<rparr>"

section \<open>Linking regions\<close>

definition region_list_remove :: "region_list \<Rightarrow> nat \<Rightarrow> region_list wprog" where
  "region_list_remove list reg =
     bind (region_at reg) (\<lambda>r.
     sq (case reg_prev r of None \<Rightarrow> ret ()
           | Some p \<Rightarrow> set_region p (\<lambda>x. x\<lparr>reg_next := reg_next r\<rparr>))
     (bind (region_at reg) (\<lambda>r.
     sq (case reg_next r of None \<Rightarrow> ret ()
           | Some n \<Rightarrow> set_region n (\<lambda>x. x\<lparr>reg_prev := reg_prev r\<rparr>))
     (bind (region_at reg) (\<lambda>r.
      let list = (if rl_first list = Some reg then list\<lparr>rl_first := reg_next r\<rparr> else list);
          list = (if rl_last list = Some reg then list\<lparr>rl_last := reg_prev r\<rparr> else list)
      in sq (set_region reg (\<lambda>x. x\<lparr>reg_next := None, reg_prev := None\<rparr>)) (ret list))))))"

definition region_list_append :: "region_list \<Rightarrow> nat \<Rightarrow> region_list wprog" where
  "region_list_append list reg =
     (if rl_first list = None
      then sq (set_region reg (\<lambda>x. x\<lparr>reg_prev := None\<rparr>))
          (sq (set_region reg (\<lambda>x. x\<lparr>reg_next := None\<rparr>))
          (ret (list\<lparr>rl_first := Some reg, rl_last := Some reg, rl_iter := Some reg, rl_partial_iter := 0\<rparr>)))
      else bind (from_option (rl_last list)) (\<lambda>last.
          sq (set_region last (\<lambda>x. x\<lparr>reg_next := Some reg\<rparr>))
          (sq (set_region reg (\<lambda>x. x\<lparr>reg_prev := Some last\<rparr>))
          (sq (set_region reg (\<lambda>x. x\<lparr>reg_next := None\<rparr>))
          (ret (list\<lparr>rl_last := Some reg\<rparr>))))))"

definition append_region :: "block_allocation \<Rightarrow> u32 \<Rightarrow> u32 \<Rightarrow> u32 \<Rightarrow> block_allocation wprog" where
  "append_region alloc block len bg_num =
     bind (new_region \<lparr>reg_block = block, reg_len = len, reg_bg = bg_num, reg_next = None, reg_prev = None\<rparr>) (\<lambda>reg.
     bind (region_list_append (ba_list alloc) reg) (\<lambda>list.
     ret (alloc\<lparr>ba_list := list\<rparr>)))"

text \<open>\<open>reduce_allocation\<close>: \<open>list.last\<close> is only reset when the list becomes empty.\<close>

definition reduce_step :: "block_allocation \<times> u32 \<Rightarrow> (block_allocation + block_allocation \<times> u32) wprog" where
  "reduce_step = (\<lambda>(alloc, len).
     if len = 0 then ret (Inl alloc)
     else bind (from_option (rl_last (ba_list alloc))) (\<lambda>last_reg.
       bind (region_at last_reg) (\<lambda>r.
       if len < reg_len r
       then sq (free_blocks (unat (reg_bg r)) len)
           (sq (set_region last_reg (\<lambda>x. x\<lparr>reg_len := reg_len x - len\<rparr>))
           (ret (Inr (alloc, 0))))
       else sq (free_blocks (unat (reg_bg r)) (reg_len r))
           (bind (case reg_prev r of
                Some reg \<Rightarrow> sq (set_region reg (\<lambda>x. x\<lparr>reg_next := None\<rparr>)) (ret alloc)
              | None \<Rightarrow> ret (alloc\<lparr>ba_list := empty_region_list\<rparr>)) (\<lambda>alloc.
            sq (free_region last_reg) (ret (Inr (alloc, len - reg_len r))))))))"

definition reduce_allocation :: "block_allocation \<Rightarrow> u32 \<Rightarrow> block_allocation wprog" where
  "reduce_allocation alloc len = loop (unat len + 2) reduce_step (alloc, len)"

section \<open>Allocating\<close>

definition ext4_allocate_contiguous_blocks :: "u32 \<Rightarrow> nat option wprog" where
  "ext4_allocate_contiguous_blocks len =
     bind (first_group len) (\<lambda>r. case r of
       Some (i, block) \<Rightarrow>
         bind (new_region \<lparr>reg_block = block, reg_len = len, reg_bg = i, reg_next = None, reg_prev = None\<rparr>) (\<lambda>reg.
         ret (Some reg))
     | None \<Rightarrow> ret None)"

definition ext4_allocate_partial :: "u32 \<Rightarrow> nat option wprog" where
  "ext4_allocate_partial len =
     bind (gets (\<lambda>s. aux_groups (w_aux s))) (\<lambda>groups.
     bind (for_each (upto_u32 groups) (\<lambda>i (_ :: unit).
       bind (bg_at (unat i)) (\<lambda>bg.
       if bg_data_blocks_used bg = 0
       then let bg_len = bg_free_blocks bg in
         if len \<le> bg_len
         then bind (ext4_allocate_contiguous_blocks len) (\<lambda>reg. ret (Inl reg))
         else bind (ext4_allocate_blocks_from_block_group bg_len i) (\<lambda>block.
           if block = EXT4_ALLOCATE_FAILED then sq error (ret (Inl None))
           else bind (new_region \<lparr>reg_block = block, reg_len = bg_len, reg_bg = i,
                        reg_next = None, reg_prev = None\<rparr>) (\<lambda>reg. ret (Inl (Some reg))))
       else ret (Inr ()))) ())
     (\<lambda>r. case r of Inl reg \<Rightarrow> ret reg | Inr _ \<Rightarrow> ret None))"

definition multiple_step :: "nat option \<times> nat option \<times> u32 \<Rightarrow> (nat option + nat option \<times> nat option \<times> u32) wprog" where
  "multiple_step = (\<lambda>(first_reg, prev_reg, len).
     if len = 0 then ret (Inl first_reg)
     else bind (ext4_allocate_partial len) (\<lambda>r. case r of
       None \<Rightarrow> ret (Inl None)
     | Some reg \<Rightarrow>
         let first_reg = (case first_reg of None \<Rightarrow> Some reg | Some f \<Rightarrow> Some f) in
         sq (case prev_reg of None \<Rightarrow> ret ()
             | Some p \<Rightarrow> sq (set_region p (\<lambda>x. x\<lparr>reg_next := Some reg\<rparr>))
                           (set_region reg (\<lambda>x. x\<lparr>reg_prev := Some p\<rparr>)))
         (bind (region_at reg) (\<lambda>x. ret (Inr (first_reg, Some reg, len - reg_len x))))))"

text \<open>Every round that takes blocks lowers \<open>len\<close>, so \<open>len + 1\<close> rounds are enough; a round that takes
  none repeats for ever.\<close>

definition ext4_allocate_multiple_contiguous_blocks :: "u32 \<Rightarrow> nat option wprog" where
  "ext4_allocate_multiple_contiguous_blocks len = loop (Suc (unat len)) multiple_step (None, None, len)"

definition do_allocate :: "u32 \<Rightarrow> nat option wprog" where
  "do_allocate len =
     bind (ext4_allocate_contiguous_blocks len) (\<lambda>reg.
     if reg = None then ext4_allocate_multiple_contiguous_blocks len else ret reg)"

definition allocate_blocks :: "u32 \<Rightarrow> block_allocation option wprog" where
  "allocate_blocks len =
     bind (do_allocate len) (\<lambda>r. case r of
       None \<Rightarrow> ret None
     | Some reg \<Rightarrow> ret (Some (create_allocation\<lparr>ba_list :=
         \<lparr>rl_first = Some reg, rl_last = Some reg, rl_iter = Some reg, rl_partial_iter = 0\<rparr>\<rparr>)))"

section \<open>Walking an allocation\<close>

definition sum_regions :: "(region \<Rightarrow> u32) \<Rightarrow> nat option \<Rightarrow> u32 wprog" where
  "sum_regions f first =
     bind (gets w_next) (\<lambda>n. loop (Suc (Suc n)) (\<lambda>(reg, i). case reg of
       None \<Rightarrow> ret (Inl i)
     | Some r \<Rightarrow> bind (region_at r) (\<lambda>x. ret (Inr (reg_next x, i + f x)))) (first, 0))"

definition block_allocation_num_regions :: "block_allocation \<Rightarrow> u32 wprog" where
  "block_allocation_num_regions alloc = sum_regions (\<lambda>_. 1) (rl_first (ba_list alloc))"

definition block_allocation_len :: "block_allocation \<Rightarrow> u32 wprog" where
  "block_allocation_len alloc = sum_regions reg_len (rl_first (ba_list alloc))"

text \<open>\<open>get_block\<close> and \<open>get_oob_block\<close> are the same loop on the two lists.\<close>

definition get_list_block :: "region_list \<Rightarrow> u32 \<Rightarrow> u32 wprog" where
  "get_list_block list block =
     bind (gets w_next) (\<lambda>n. loop (Suc (Suc n)) (\<lambda>(reg, block). case reg of
       None \<Rightarrow> ret (Inl EXT4_ALLOCATE_FAILED)
     | Some r \<Rightarrow> bind (region_at r) (\<lambda>x.
         if block < reg_len x then ret (Inl (reg_block x + block))
         else ret (Inr (reg_next x, block - reg_len x))))
       (rl_iter list, block + rl_partial_iter list))"

definition get_block :: "block_allocation \<Rightarrow> u32 \<Rightarrow> u32 wprog" where
  "get_block alloc block = get_list_block (ba_list alloc) block"

definition get_oob_block :: "block_allocation \<Rightarrow> u32 \<Rightarrow> u32 wprog" where
  "get_oob_block alloc block = get_list_block (ba_oob_list alloc) block"

definition get_region :: "block_allocation \<Rightarrow> (u32 \<times> u32) wprog" where
  "get_region alloc =
     bind (from_option (rl_iter (ba_list alloc))) (\<lambda>r. bind (region_at r) (\<lambda>x.
     ret (reg_block x, reg_len x - rl_partial_iter (ba_list alloc))))"

definition get_next_region :: "block_allocation \<Rightarrow> block_allocation wprog" where
  "get_next_region alloc =
     bind (from_option (rl_iter (ba_list alloc))) (\<lambda>r. bind (region_at r) (\<lambda>x.
     ret (alloc\<lparr>ba_list := (ba_list alloc)\<lparr>rl_iter := reg_next x, rl_partial_iter := 0\<rparr>\<rparr>)))"

definition last_region :: "block_allocation \<Rightarrow> bool" where
  "last_region alloc \<longleftrightarrow> rl_iter (ba_list alloc) = None"

definition rewind_alloc :: "block_allocation \<Rightarrow> block_allocation" where
  "rewind_alloc alloc = alloc\<lparr>ba_list := (ba_list alloc)\<lparr>rl_iter := rl_first (ba_list alloc), rl_partial_iter := 0\<rparr>\<rparr>"

section \<open>Splitting off out-of-band blocks\<close>

definition do_split_allocation :: "block_allocation \<Rightarrow> u32 \<Rightarrow> (nat option \<times> block_allocation) wprog" where
  "do_split_allocation alloc len =
     bind (gets w_next) (\<lambda>n.
     bind (loop (Suc (Suc n)) (\<lambda>(reg, len). case reg of
         None \<Rightarrow> ret (Inl (None, len))
       | Some r \<Rightarrow> bind (region_at r) (\<lambda>x.
           if reg_len x \<le> len then ret (Inr (reg_next x, len - reg_len x))
           else ret (Inl (Some r, len)))) (rl_iter (ba_list alloc), len)) (\<lambda>(reg, len).
     if reg = None \<and> len > 0 then ret (None, alloc)
     else if len > 0
     then bind (from_option reg) (\<lambda>r. bind (region_at r) (\<lambda>x.
       bind (new_region \<lparr>reg_block = reg_block x + len, reg_len = reg_len x - len, reg_bg = reg_bg x,
               reg_next = reg_next x, reg_prev = Some r\<rparr>) (\<lambda>new.
       sq (set_region r (\<lambda>y. y\<lparr>reg_next := Some new\<rparr>))
       (sq (set_region r (\<lambda>y. y\<lparr>reg_len := len\<rparr>))
       (ret (rl_iter (ba_list alloc), alloc\<lparr>ba_list := (ba_list alloc)\<lparr>rl_iter := Some new\<rparr>\<rparr>))))))
     else ret (reg, alloc)))"

definition split_allocation :: "block_allocation \<Rightarrow> u32 \<Rightarrow> (nat option \<times> block_allocation) wprog" where
  "split_allocation alloc len =
     bind (do_split_allocation alloc (rl_partial_iter (ba_list alloc))) (\<lambda>(_, alloc).
     bind (do_split_allocation alloc len) (\<lambda>(middle, alloc).
     ret (middle, alloc\<lparr>ba_list := (ba_list alloc)\<lparr>rl_partial_iter := 0\<rparr>\<rparr>)))"

definition reserve_oob_blocks :: "block_allocation \<Rightarrow> u32 \<Rightarrow> (int \<times> block_allocation) wprog" where
  "reserve_oob_blocks alloc blocks =
     bind (split_allocation alloc blocks) (\<lambda>(oob, alloc).
     if oob = None then ret (- 1, alloc)
     else bind (gets w_next) (\<lambda>n.
       loop (Suc (Suc n)) (\<lambda>(oob, alloc). case oob of
         None \<Rightarrow> ret (Inl (0, alloc))
       | Some r \<Rightarrow>
           if oob = rl_iter (ba_list alloc) then ret (Inl (0, alloc))
           else bind (region_at r) (\<lambda>x.
             bind (region_list_remove (ba_list alloc) r) (\<lambda>list.
             bind (region_list_append (ba_oob_list alloc) r) (\<lambda>oob_list.
             ret (Inr (reg_next x, alloc\<lparr>ba_list := list, ba_oob_list := oob_list\<rparr>))))))
       (oob, alloc)))"

section \<open>Moving the iterator\<close>

text \<open>\<open>advance_list_ptr\<close> follows the regions with a local pointer: only \<open>partial_iter\<close> of the list
  changes.\<close>

definition advance_list_ptr :: "region_list \<Rightarrow> u32 \<Rightarrow> (int \<times> region_list) wprog" where
  "advance_list_ptr list blocks =
     bind (gets w_next) (\<lambda>n. loop (Suc (Suc n)) (\<lambda>(reg, blocks, list).
       case (if 0 < sint blocks then reg else None) of
         None \<Rightarrow> ret (Inl (if 0 < sint blocks then (- 1, list) else (0, list)))
       | Some r \<Rightarrow> bind (region_at r) (\<lambda>x.
           if rl_partial_iter list + blocks < reg_len x
           then ret (Inl (0, list\<lparr>rl_partial_iter := rl_partial_iter list + blocks\<rparr>))
           else ret (Inr (reg_next x, blocks - (reg_len x - rl_partial_iter list),
                          list\<lparr>rl_partial_iter := 0\<rparr>))))
       (rl_iter list, blocks, list))"

definition advance_blocks :: "block_allocation \<Rightarrow> u32 \<Rightarrow> (int \<times> block_allocation) wprog" where
  "advance_blocks alloc blocks =
     bind (advance_list_ptr (ba_list alloc) blocks) (\<lambda>(r, list). ret (r, alloc\<lparr>ba_list := list\<rparr>))"

definition advance_oob_blocks :: "block_allocation \<Rightarrow> u32 \<Rightarrow> (int \<times> block_allocation) wprog" where
  "advance_oob_blocks alloc blocks =
     bind (advance_list_ptr (ba_oob_list alloc) blocks) (\<lambda>(r, list). ret (r, alloc\<lparr>ba_oob_list := list\<rparr>))"

definition append_oob_allocation :: "block_allocation \<Rightarrow> u32 \<Rightarrow> (int \<times> block_allocation) wprog" where
  "append_oob_allocation alloc len =
     bind (do_allocate len) (\<lambda>reg. case reg of
       None \<Rightarrow> sq error (ret (- 1, alloc))
     | Some _ \<Rightarrow> bind (gets w_next) (\<lambda>n.
         bind (loop (Suc (Suc n)) (\<lambda>(reg, list). case reg of
             None \<Rightarrow> ret (Inl list)
           | Some r \<Rightarrow> bind (region_list_append list r) (\<lambda>list.
               bind (region_at r) (\<lambda>x. ret (Inr (reg_next x, list))))) (reg, ba_oob_list alloc)) (\<lambda>list.
         ret (0, alloc\<lparr>ba_oob_list := list\<rparr>))))"

section \<open>Freeing\<close>

definition free_regions :: "nat option \<Rightarrow> unit wprog" where
  "free_regions first =
     bind (gets w_next) (\<lambda>n. loop (Suc (Suc n)) (\<lambda>reg. case reg of
       None \<Rightarrow> ret (Inl ())
     | Some r \<Rightarrow> bind (region_at r) (\<lambda>x. sq (free_region r) (ret (Inr (reg_next x))))) first)"

definition free_alloc :: "block_allocation \<Rightarrow> unit wprog" where
  "free_alloc alloc =
     sq (free_regions (rl_first (ba_list alloc))) (free_regions (rl_first (ba_oob_list alloc)))"

end
