(* ===== verification/Extent.thy ===== *)
theory Extent
  imports Region_List
begin

text \<open>
  \<open>extent.c\<close>: allocating the blocks of a file, describing them by extents in the inode or in one
  extent block, and queueing the contents.  An inode is a pointer to its bytes in an inode table;
  the fields are at the offsets of \<open>struct ext4_inode\<close> (\<open>ext4.h\<close>), the extent structures
  at those of \<open>ext4_extents.h\<close>.
\<close>

section \<open>Layout\<close>

definition off_i_mode :: nat where "off_i_mode = 0"
definition off_i_uid :: nat where "off_i_uid = 2"
definition off_i_size_lo :: nat where "off_i_size_lo = 4"
definition off_i_atime :: nat where "off_i_atime = 8"
definition off_i_ctime :: nat where "off_i_ctime = 12"
definition off_i_mtime :: nat where "off_i_mtime = 16"
definition off_i_gid :: nat where "off_i_gid = 24"
definition off_i_links_count :: nat where "off_i_links_count = 26"
definition off_i_blocks_lo :: nat where "off_i_blocks_lo = 28"
definition off_i_flags :: nat where "off_i_flags = 32"
definition off_i_block :: nat where "off_i_block = 40"
definition off_i_size_high :: nat where "off_i_size_high = 108"
definition off_l_i_blocks_high :: nat where "off_l_i_blocks_high = 116"

definition EXT4_NDIR_BLOCKS :: u32 where "EXT4_NDIR_BLOCKS = 12"
definition EXT4_IND_BLOCK :: nat where "EXT4_IND_BLOCK = 12"
definition EXT4_DIND_BLOCK :: nat where "EXT4_DIND_BLOCK = 13"
definition EXT4_TIND_BLOCK :: nat where "EXT4_TIND_BLOCK = 14"
definition EXT4_EXTENTS_FL :: u32 where "EXT4_EXTENTS_FL = 0x00080000"
definition EXT4_EXT_MAGIC :: u16 where "EXT4_EXT_MAGIC = 0xf30a"

definition sizeof_extent :: nat where "sizeof_extent = 12"
definition sizeof_extent_header :: nat where "sizeof_extent_header = 12"

lemmas layout_defs = off_i_mode_def off_i_uid_def off_i_size_lo_def off_i_atime_def off_i_ctime_def
  off_i_mtime_def off_i_gid_def off_i_links_count_def off_i_blocks_lo_def off_i_flags_def off_i_block_def
  off_i_size_high_def off_l_i_blocks_high_def EXT4_NDIR_BLOCKS_def EXT4_IND_BLOCK_def EXT4_DIND_BLOCK_def
  EXT4_TIND_BLOCK_def EXT4_EXTENTS_FL_def EXT4_EXT_MAGIC_def sizeof_extent_def sizeof_extent_header_def

text \<open>\<open>&inode->i_block[k]\<close>\<close>

definition i_block_ptr :: "ptr \<Rightarrow> nat \<Rightarrow> ptr" where
  "i_block_ptr inode k = ptr_add inode (off_i_block + 4 * k)"

definition store_extent_header :: "ptr \<Rightarrow> u16 \<Rightarrow> u16 \<Rightarrow> u16 \<Rightarrow> unit wprog" where
  "store_extent_header hdr entries max_entries depth =
     sq (store_u16 hdr EXT4_EXT_MAGIC)
     (sq (store_u16 (ptr_add hdr 2) entries)
     (sq (store_u16 (ptr_add hdr 4) max_entries)
     (sq (store_u32 (ptr_add hdr 8) 0)
     (store_u16 (ptr_add hdr 6) depth))))"

definition store_extent :: "ptr \<Rightarrow> u32 \<Rightarrow> u16 \<Rightarrow> u32 \<Rightarrow> unit wprog" where
  "store_extent extent ee_block ee_len ee_start_lo =
     sq (store_u32 extent ee_block)
     (sq (store_u16 (ptr_add extent 4) ee_len)
     (sq (store_u16 (ptr_add extent 6) 0)
     (store_u32 (ptr_add extent 8) ee_start_lo)))"

definition store_extent_idx :: "ptr \<Rightarrow> u32 \<Rightarrow> u32 \<Rightarrow> unit wprog" where
  "store_extent_idx idx ei_block ei_leaf_lo =
     sq (store_u32 idx ei_block)
     (sq (store_u32 (ptr_add idx 4) ei_leaf_lo)
     (sq (store_u16 (ptr_add idx 8) 0)
     (store_u16 (ptr_add idx 10) 0)))"

section \<open>Backing\<close>

text \<open>\<open>min(region_len * info.block_size, backing_len)\<close>, a \<open>u32\<close>.\<close>

definition chunk_len :: "u32 \<Rightarrow> u32 \<Rightarrow> u64 \<Rightarrow> u32" where
  "chunk_len region_len block_size backing_len =
     (let l = ucast (region_len * block_size) in if l < backing_len then ucast l else ucast backing_len)"

text \<open>The loop both kinds of backing share: one queued piece per region, at offset \<open>pos\<close>.\<close>

definition backing_loop :: "(nat \<Rightarrow> u32 \<Rightarrow> u32 \<Rightarrow> unit wprog) \<Rightarrow> block_allocation \<Rightarrow> u64 \<Rightarrow> block_allocation wprog" where
  "backing_loop queue alloc backing_len =
     bind (gets w_next) (\<lambda>n. bind (gets (\<lambda>s. info_block_size (w_info s))) (\<lambda>block_size.
     loop (Suc (Suc n)) (\<lambda>(alloc, pos, backing_len).
       if 0 < backing_len
       then bind (get_region alloc) (\<lambda>(region_block, region_len).
         let len = chunk_len region_len block_size backing_len in
         sq (queue pos len region_block)
         (bind (get_next_region alloc) (\<lambda>alloc.
          ret (Inr (alloc, pos + unat len, backing_len - ucast len)))))
       else ret (Inl alloc)) (alloc, 0, backing_len)))"

definition extent_create_backing :: "block_allocation \<Rightarrow> u64 \<Rightarrow> (ptr \<times> block_allocation) wprog" where
  "extent_create_backing alloc backing_len =
     bind (calloc (unat backing_len)) (\<lambda>data.
     bind (backing_loop (\<lambda>pos len block. queue_data_block (ptr_add data pos) len block) alloc backing_len) (\<lambda>alloc.
     ret (data, alloc)))"

definition extent_create_backing_file :: "block_allocation \<Rightarrow> u64 \<Rightarrow> u8 list \<Rightarrow> block_allocation wprog" where
  "extent_create_backing_file alloc backing_len filename =
     backing_loop (\<lambda>pos len block. queue_data_file filename (of_nat pos) len block) alloc backing_len"

section \<open>Extents\<close>

definition write_extents :: "ptr \<Rightarrow> block_allocation \<Rightarrow> block_allocation wprog" where
  "write_extents extent alloc =
     bind (gets w_next) (\<lambda>n.
     loop (Suc (Suc n)) (\<lambda>(alloc, extent, file_block).
       if last_region alloc then ret (Inl alloc)
       else bind (get_region alloc) (\<lambda>(region_block, region_len).
         sq (store_extent extent file_block (ucast region_len) region_block)
         (bind (get_next_region alloc) (\<lambda>alloc.
          ret (Inr (alloc, ptr_add extent sizeof_extent, file_block + region_len))))))
       (alloc, extent, 0))"

definition do_inode_allocate_extents :: "ptr \<Rightarrow> u64 \<Rightarrow> block_allocation option wprog" where
  "do_inode_allocate_extents inode len =
     bind (gets (\<lambda>s. info_block_size (w_info s))) (\<lambda>block_size.
     sq (guard (\<lambda>_. block_size \<noteq> 0))
     (let block_len = ucast (DIV_ROUND_UP len (ucast block_size)) in
      bind (allocate_blocks (block_len + 1)) (\<lambda>r. case r of
        None \<Rightarrow> sq error (ret None)
      | Some alloc \<Rightarrow>
        bind (block_allocation_num_regions alloc) (\<lambda>allocation_len.
        bind (if sint allocation_len \<le> 3
              then bind (reduce_allocation alloc 1) (\<lambda>alloc. ret (alloc, 0))
              else bind (reserve_oob_blocks alloc 1) (\<lambda>(_, alloc).
                   bind (get_oob_block alloc 0) (\<lambda>extent_block. ret (alloc, extent_block))))
          (\<lambda>(alloc, extent_block).
        bind (if extent_block = 0
              then sq (store_extent_header (i_block_ptr inode 0) (ucast allocation_len) 3 0)
                      (ret (Some (i_block_ptr inode 3)))
              else sq (store_extent_header (i_block_ptr inode 0) 1 3 1)
                   (sq (store_extent_idx (i_block_ptr inode 3) 0 extent_block)
                   (bind (calloc (unat block_size)) (\<lambda>data.
                    sq (queue_data_block data block_size extent_block)
                    (if sint (block_size - of_nat (sizeof_extent_header div sizeof_extent)) < sint allocation_len
                     then sq error (ret None)
                     else sq (store_extent_header data (ucast allocation_len)
                               (ucast ((block_size - of_nat sizeof_extent_header) div of_nat sizeof_extent)) 0)
                             (ret (Some (ptr_add data sizeof_extent_header))))))))
          (\<lambda>r. case r of
            None \<Rightarrow> ret None
          | Some extent \<Rightarrow>
            bind (write_extents extent alloc) (\<lambda>alloc.
            let block_len = (if extent_block \<noteq> 0 then block_len + 1 else block_len);
                blocks = (ucast block_len :: u64) * ucast block_size div 512
            in sq (modify_u32 (ptr_add inode off_i_flags) (\<lambda>x. x OR EXT4_EXTENTS_FL))
               (sq (store_u32 (ptr_add inode off_i_size_lo) (ucast len))
               (sq (store_u32 (ptr_add inode off_i_size_high) (ucast (drop_bit 32 len)))
               (sq (store_u32 (ptr_add inode off_i_blocks_lo) (ucast blocks))
               (sq (store_u16 (ptr_add inode off_l_i_blocks_high) (ucast (drop_bit 32 blocks)))
               (ret (Some (rewind_alloc alloc))))))))))))))"

definition inode_allocate_data_extents :: "ptr \<Rightarrow> u64 \<Rightarrow> u64 \<Rightarrow> ptr option wprog" where
  "inode_allocate_data_extents inode len backing_len =
     bind (do_inode_allocate_extents inode len) (\<lambda>r. case r of
       None \<Rightarrow> sq error (ret None)
     | Some alloc \<Rightarrow>
       bind (if backing_len \<noteq> 0
             then bind (extent_create_backing alloc backing_len) (\<lambda>(data, alloc). ret (Some data, alloc))
             else ret (None, alloc)) (\<lambda>(data, alloc).
       sq (free_alloc alloc) (ret data)))"

definition inode_allocate_file_extents :: "ptr \<Rightarrow> u64 \<Rightarrow> u8 list \<Rightarrow> unit wprog" where
  "inode_allocate_file_extents inode len filename =
     bind (do_inode_allocate_extents inode len) (\<lambda>r. case r of
       None \<Rightarrow> error
     | Some alloc \<Rightarrow>
       bind (extent_create_backing_file alloc len filename) (\<lambda>alloc. free_alloc alloc))"

definition inode_allocate_extents :: "ptr \<Rightarrow> u64 \<Rightarrow> unit wprog" where
  "inode_allocate_extents inode len =
     bind (do_inode_allocate_extents inode len) (\<lambda>r. case r of
       None \<Rightarrow> error
     | Some alloc \<Rightarrow> free_alloc alloc)"

end
