(* ===== verification/Indirect.thy ===== *)
theory Indirect
  imports Extent
begin

text \<open>
  \<open>indirect.c\<close>: the block map of an inode with singly, doubly and triply indirect blocks, and the
  resize inode.  \<open>int\<close> lengths are \<open>u32\<close> words compared with \<open>sint\<close>.
\<close>

definition create_backing :: "block_allocation \<Rightarrow> u64 \<Rightarrow> (ptr \<times> block_allocation) wprog" where
  "create_backing alloc backing_len =
     bind (gets (\<lambda>s. info_block_size (w_info s))) (\<lambda>block_size.
     sq (guard (\<lambda>_. block_size \<noteq> 0))
     (if ucast EXT4_NDIR_BLOCKS < DIV_ROUND_UP backing_len (ucast block_size) then critical_error
      else bind (calloc (unat backing_len)) (\<lambda>data.
        bind (backing_loop (\<lambda>pos len block. queue_data_block (ptr_add data pos) len block) alloc backing_len) (\<lambda>alloc.
        ret (data, alloc)))))"

section \<open>Reserving the indirect blocks\<close>

definition smin :: "u32 \<Rightarrow> u32 \<Rightarrow> u32" where
  "smin a b = (if sint a < sint b then a else b)"

definition reserve_indirect_block :: "block_allocation \<Rightarrow> u32 \<Rightarrow> block_allocation wprog" where
  "reserve_indirect_block alloc len =
     bind (reserve_oob_blocks alloc 1) (\<lambda>(r, alloc).
     if r \<noteq> 0 then sq error (ret alloc)
     else bind (advance_blocks alloc len) (\<lambda>(r, alloc).
       if r \<noteq> 0 then sq error (ret alloc) else ret alloc))"

definition reserve_dindirect_block :: "block_allocation \<Rightarrow> u32 \<Rightarrow> block_allocation wprog" where
  "reserve_dindirect_block alloc len =
     bind (reserve_oob_blocks alloc 1) (\<lambda>(r, alloc).
     if r \<noteq> 0 then sq error (ret alloc)
     else bind (gets (\<lambda>s. aux_blocks_per_ind (w_aux s))) (\<lambda>per_ind.
       loop (Suc (unat len)) (\<lambda>(alloc, len).
         if 0 < sint len
         then let ind_block_len = smin per_ind len in
           bind (reserve_indirect_block alloc ind_block_len) (\<lambda>alloc. ret (Inr (alloc, len - ind_block_len)))
         else ret (Inl alloc)) (alloc, len)))"

definition reserve_tindirect_block :: "block_allocation \<Rightarrow> u32 \<Rightarrow> block_allocation wprog" where
  "reserve_tindirect_block alloc len =
     bind (reserve_oob_blocks alloc 1) (\<lambda>(r, alloc).
     if r \<noteq> 0 then sq error (ret alloc)
     else bind (gets (\<lambda>s. aux_blocks_per_dind (w_aux s))) (\<lambda>per_dind.
       loop (Suc (unat len)) (\<lambda>(alloc, len).
         if 0 < sint len
         then let dind_block_len = smin per_dind len in
           bind (reserve_dindirect_block alloc dind_block_len) (\<lambda>alloc. ret (Inr (alloc, len - dind_block_len)))
         else ret (Inl alloc)) (alloc, len)))"

definition reserve_all_indirect_blocks :: "block_allocation \<Rightarrow> u32 \<Rightarrow> block_allocation wprog" where
  "reserve_all_indirect_blocks alloc len =
     (if len \<le> EXT4_NDIR_BLOCKS then ret alloc
      else let len = len - EXT4_NDIR_BLOCKS in
        bind (advance_blocks alloc EXT4_NDIR_BLOCKS) (\<lambda>(_, alloc).
        bind (gets w_aux) (\<lambda>aux.
        let ind_block_len = min (aux_blocks_per_ind aux) len in
        bind (reserve_indirect_block alloc ind_block_len) (\<lambda>alloc.
        let len = len - ind_block_len in
        if len = 0 then ret alloc
        else let dind_block_len = min (aux_blocks_per_dind aux) len in
        bind (reserve_dindirect_block alloc dind_block_len) (\<lambda>alloc.
        let len = len - dind_block_len in
        if len = 0 then ret alloc
        else let tind_block_len = min (aux_blocks_per_tind aux) len in
        bind (reserve_tindirect_block alloc tind_block_len) (\<lambda>alloc.
        let len = len - tind_block_len in
        if len = 0 then ret alloc else sq error (ret alloc)))))))"

text \<open>\<open>indirect_blocks_needed\<close>; a zero divisor is undefined behaviour.\<close>

definition div_round_up_checked :: "u32 \<Rightarrow> u32 \<Rightarrow> u32 wprog" where
  "div_round_up_checked x y = sq (guard (\<lambda>_. y \<noteq> 0)) (ret (DIV_ROUND_UP x y))"

definition indirect_blocks_needed :: "u32 \<Rightarrow> u32 wprog" where
  "indirect_blocks_needed len =
     (if len \<le> EXT4_NDIR_BLOCKS then ret 0
      else bind (gets w_aux) (\<lambda>aux.
        let len = len - EXT4_NDIR_BLOCKS in
        bind (div_round_up_checked len (aux_blocks_per_ind aux)) (\<lambda>ind.
        if len \<le> aux_blocks_per_ind aux then ret ind
        else let len = len - aux_blocks_per_ind aux in
        bind (div_round_up_checked len (aux_blocks_per_dind aux)) (\<lambda>d.
        let ind = ind + d in
        if len \<le> aux_blocks_per_dind aux then ret ind
        else let len = len - aux_blocks_per_dind aux in
        bind (div_round_up_checked len (aux_blocks_per_tind aux)) (\<lambda>t.
        let ind = ind + t in
        if len \<le> aux_blocks_per_tind aux then ret ind
        else critical_error)))))"

section \<open>Filling the indirect blocks\<close>

definition fill_indirect_block :: "ptr \<Rightarrow> u32 \<Rightarrow> block_allocation \<Rightarrow> unit wprog" where
  "fill_indirect_block ind_block len alloc =
     for_all [0..<nat (sint len)] (\<lambda>i.
       bind (get_block alloc (of_nat i)) (\<lambda>b. store_u32 (ptr_add ind_block (4 * i)) b))"

definition fill_dindirect_block :: "ptr \<Rightarrow> u32 \<Rightarrow> block_allocation \<Rightarrow> block_allocation wprog" where
  "fill_dindirect_block dind_block len alloc =
     bind (gets (\<lambda>s. info_block_size (w_info s))) (\<lambda>block_size.
     bind (gets (\<lambda>s. aux_blocks_per_ind (w_aux s))) (\<lambda>per_ind.
     loop (Suc (unat len)) (\<lambda>(i, len, alloc).
       if 0 < sint len
       then bind (get_oob_block alloc 0) (\<lambda>ind_block.
         bind (advance_oob_blocks alloc 1) (\<lambda>(r, alloc).
         if r \<noteq> 0 then sq error (ret (Inl alloc))
         else sq (store_u32 (ptr_add dind_block (4 * i)) ind_block)
           (bind (calloc (unat block_size)) (\<lambda>ind_block_data.
            sq (queue_data_block ind_block_data block_size ind_block)
            (let ind_block_len = smin per_ind len in
             sq (fill_indirect_block ind_block_data ind_block_len alloc)
             (bind (advance_blocks alloc ind_block_len) (\<lambda>(r, alloc).
              if r \<noteq> 0 then sq error (ret (Inl alloc))
              else ret (Inr (Suc i, len - ind_block_len, alloc)))))))))
       else ret (Inl alloc)) (0, len, alloc)))"

definition fill_tindirect_block :: "ptr \<Rightarrow> u32 \<Rightarrow> block_allocation \<Rightarrow> block_allocation wprog" where
  "fill_tindirect_block tind_block len alloc =
     bind (gets (\<lambda>s. info_block_size (w_info s))) (\<lambda>block_size.
     bind (gets (\<lambda>s. aux_blocks_per_dind (w_aux s))) (\<lambda>per_dind.
     loop (Suc (unat len)) (\<lambda>(i, len, alloc).
       if 0 < sint len
       then bind (get_oob_block alloc 0) (\<lambda>dind_block.
         bind (advance_oob_blocks alloc 1) (\<lambda>(r, alloc).
         if r \<noteq> 0 then sq error (ret (Inl alloc))
         else sq (store_u32 (ptr_add tind_block (4 * i)) dind_block)
           (bind (calloc (unat block_size)) (\<lambda>dind_block_data.
            sq (queue_data_block dind_block_data block_size dind_block)
            (let dind_block_len = smin per_dind len in
             bind (fill_dindirect_block dind_block_data dind_block_len alloc) (\<lambda>alloc.
             ret (Inr (Suc i, len - dind_block_len, alloc))))))))
       else ret (Inl alloc)) (0, len, alloc)))"

section \<open>Attaching an allocation to an inode\<close>

definition inode_attach_direct_blocks :: "ptr \<Rightarrow> block_allocation \<Rightarrow> u32 \<Rightarrow> (int \<times> block_allocation \<times> u32) wprog" where
  "inode_attach_direct_blocks inode alloc block_len =
     (let len = min block_len EXT4_NDIR_BLOCKS in
      sq (for_all [0..<unat len] (\<lambda>i. bind (get_block alloc (of_nat i)) (\<lambda>b. store_u32 (i_block_ptr inode i) b)))
      (bind (advance_blocks alloc len) (\<lambda>(r, alloc).
       if r \<noteq> 0 then sq error (ret (- 1, alloc, block_len)) else ret (0, alloc, block_len - len))))"

text \<open>The three indirect attachments differ in the slot of \<open>i_block\<close>, the capacity and the filling.\<close>

definition attach_level :: "nat \<Rightarrow> (fs_aux_info \<Rightarrow> u32) \<Rightarrow> (ptr \<Rightarrow> u32 \<Rightarrow> block_allocation \<Rightarrow> block_allocation wprog) \<Rightarrow>
    ptr \<Rightarrow> block_allocation \<Rightarrow> u32 \<Rightarrow> (int \<times> block_allocation \<times> u32) wprog" where
  "attach_level slot capacity fill inode alloc block_len =
     bind (gets w_aux) (\<lambda>aux. bind (gets (\<lambda>s. info_block_size (w_info s))) (\<lambda>block_size.
     let len = min block_len (capacity aux) in
     bind (get_oob_block alloc 0) (\<lambda>blk.
     sq (store_u32 (i_block_ptr inode slot) blk)
     (bind (advance_oob_blocks alloc 1) (\<lambda>(r, alloc).
      if r \<noteq> 0 then sq error (ret (- 1, alloc, block_len))
      else bind (calloc (unat block_size)) (\<lambda>data.
        sq (queue_data_block data block_size blk)
        (bind (fill data len alloc) (\<lambda>alloc.
         bind (advance_blocks alloc len) (\<lambda>(r, alloc).
         if r \<noteq> 0 then sq error (ret (- 1, alloc, block_len)) else ret (0, alloc, block_len - len)))))))))) "

definition inode_attach_indirect_blocks :: "ptr \<Rightarrow> block_allocation \<Rightarrow> u32 \<Rightarrow> (int \<times> block_allocation \<times> u32) wprog" where
  "inode_attach_indirect_blocks =
     attach_level EXT4_IND_BLOCK aux_blocks_per_ind (\<lambda>data len alloc. sq (fill_indirect_block data len alloc) (ret alloc))"

definition inode_attach_dindirect_blocks :: "ptr \<Rightarrow> block_allocation \<Rightarrow> u32 \<Rightarrow> (int \<times> block_allocation \<times> u32) wprog" where
  "inode_attach_dindirect_blocks = attach_level EXT4_DIND_BLOCK aux_blocks_per_dind fill_dindirect_block"

definition inode_attach_tindirect_blocks :: "ptr \<Rightarrow> block_allocation \<Rightarrow> u32 \<Rightarrow> (int \<times> block_allocation \<times> u32) wprog" where
  "inode_attach_tindirect_blocks = attach_level EXT4_TIND_BLOCK aux_blocks_per_tind fill_tindirect_block"

text \<open>One step of \<open>do_inode_attach_indirect\<close>: attach, or complain and give up.\<close>

definition attach_if :: "bool \<Rightarrow> (ptr \<Rightarrow> block_allocation \<Rightarrow> u32 \<Rightarrow> (int \<times> block_allocation \<times> u32) wprog) \<Rightarrow>
    ptr \<Rightarrow> block_allocation \<Rightarrow> u32 \<Rightarrow> (block_allocation \<Rightarrow> u32 \<Rightarrow> (int \<times> block_allocation) wprog) \<Rightarrow>
    (int \<times> block_allocation) wprog" where
  "attach_if c attach inode alloc cnt k =
     (if c then bind (attach inode alloc cnt) (\<lambda>(r, alloc, cnt).
        if r \<noteq> 0 then sq error (ret (- 1, alloc)) else k alloc cnt)
      else k alloc cnt)"

definition do_inode_attach_indirect :: "ptr \<Rightarrow> block_allocation \<Rightarrow> u32 \<Rightarrow> (int \<times> block_allocation) wprog" where
  "do_inode_attach_indirect inode alloc block_len =
     attach_if True inode_attach_direct_blocks inode alloc block_len (\<lambda>alloc cnt.
     attach_if (0 < cnt) inode_attach_indirect_blocks inode alloc cnt (\<lambda>alloc cnt.
     attach_if (0 < cnt) inode_attach_dindirect_blocks inode alloc cnt (\<lambda>alloc cnt.
     attach_if (0 < cnt) inode_attach_tindirect_blocks inode alloc cnt (\<lambda>alloc cnt.
     if cnt \<noteq> 0 then sq error (ret (- 1, alloc)) else ret (0, rewind_alloc alloc)))))"

definition do_inode_allocate_indirect :: "ptr \<Rightarrow> u32 \<Rightarrow> block_allocation option wprog" where
  "do_inode_allocate_indirect inode block_len =
     bind (indirect_blocks_needed block_len) (\<lambda>indirect_len.
     bind (allocate_blocks (block_len + indirect_len)) (\<lambda>r. case r of
       None \<Rightarrow> sq error (ret None)
     | Some alloc \<Rightarrow> ret (Some alloc)))"

definition inode_allocate_indirect :: "ptr \<Rightarrow> u64 \<Rightarrow> unit wprog" where
  "inode_allocate_indirect inode len =
     bind (gets (\<lambda>s. info_block_size (w_info s))) (\<lambda>block_size.
     sq (guard (\<lambda>_. block_size \<noteq> 0))
     (let block_len = ucast (DIV_ROUND_UP len (ucast block_size)) in
      bind (indirect_blocks_needed block_len) (\<lambda>indirect_len.
      bind (do_inode_allocate_indirect inode block_len) (\<lambda>r. case r of
        None \<Rightarrow> error
      | Some alloc \<Rightarrow>
        bind (reserve_all_indirect_blocks alloc block_len) (\<lambda>alloc.
        bind (do_inode_attach_indirect inode (rewind_alloc alloc) block_len) (\<lambda>(r, alloc).
        sq (only_if (r \<noteq> 0) error)
        (sq (store_u32 (ptr_add inode off_i_flags) 0)
        (sq (store_u32 (ptr_add inode off_i_blocks_lo) ((block_len + indirect_len) * block_size div 512))
        (sq (store_u32 (ptr_add inode off_i_size_lo) (ucast len))
        (free_alloc alloc))))))))))"

text \<open>\<open>inode_attach_resize\<close>: the reserved descriptor blocks of every backup group, mapped by one
  doubly indirect block.\<close>

definition resize_index :: "fs_aux_info \<Rightarrow> u32 \<Rightarrow> u32" where
  "resize_index aux i =
     (let r = (i - aux_bg_desc_blocks aux) mod aux_bg_desc_reserve_blocks aux
      in if sint r < 0 then r + aux_bg_desc_reserve_blocks aux else r)"

definition inode_attach_resize :: "ptr \<Rightarrow> block_allocation \<Rightarrow> block_allocation wprog" where
  "inode_attach_resize inode alloc =
     bind (gets w_aux) (\<lambda>aux. bind (gets (\<lambda>s. info_block_size (w_info s))) (\<lambda>block_size.
     let reserve = aux_bg_desc_reserve_blocks aux in
     bind (block_allocation_len alloc) (\<lambda>block_len.
     sq (guard (\<lambda>_. reserve \<noteq> 0))
     (let superblocks = block_len div reserve in
     if block_len mod reserve \<noteq> 0 then critical_error
     else bind (append_oob_allocation alloc 1) (\<lambda>(_, alloc).
     bind (get_oob_block alloc 0) (\<lambda>dind_block.
     bind (calloc (unat block_size)) (\<lambda>dind_block_data.
     sq (queue_data_block dind_block_data block_size dind_block)
     (bind (calloc (unat block_size * unat reserve)) (\<lambda>ind_block_data.
     bind (get_block alloc 0) (\<lambda>block0.
     sq (queue_data_block ind_block_data (block_size * reserve) block0)
     (sq (for_all (upto_u32 reserve) (\<lambda>i.
       let r = resize_index aux i in
       sq (bind (get_block alloc r) (\<lambda>b. store_u32 (ptr_add dind_block_data (4 * unat i)) b))
       (for_all (drop 1 (upto_u32 superblocks)) (\<lambda>j.
         let b = j * reserve + r in
         bind (get_block alloc b) (\<lambda>x.
         store_u32 (ptr_add ind_block_data (4 * unat (r * aux_blocks_per_ind aux + j - 1))) x)))))
     (let last_block = EXT4_NDIR_BLOCKS + aux_blocks_per_ind aux +
            aux_blocks_per_ind aux * (reserve - 1) + superblocks - 2;
          blocks = ((ucast block_len :: u64) + 1) * ucast block_size div 512;
          size = (ucast last_block :: u64) * ucast block_size
      in sq (store_u32 (i_block_ptr inode EXT4_DIND_BLOCK) dind_block)
         (sq (store_u32 (ptr_add inode off_i_flags) 0)
         (sq (store_u32 (ptr_add inode off_i_blocks_lo) (ucast blocks))
         (sq (store_u16 (ptr_add inode off_l_i_blocks_high) (ucast (drop_bit 32 blocks)))
         (sq (store_u32 (ptr_add inode off_i_size_lo) (ucast size))
         (sq (store_u32 (ptr_add inode off_i_size_high) (ucast (drop_bit 32 size)))
         (ret alloc))))))))))))))))))"

definition inode_allocate_data_indirect :: "ptr \<Rightarrow> u64 \<Rightarrow> u64 \<Rightarrow> ptr option wprog" where
  "inode_allocate_data_indirect inode len backing_len =
     bind (do_inode_allocate_indirect inode (ucast len)) (\<lambda>r. case r of
       None \<Rightarrow> sq error (ret None)
     | Some alloc \<Rightarrow>
       bind (if backing_len \<noteq> 0
             then bind (create_backing alloc backing_len) (\<lambda>(data, alloc). ret (Some data, alloc))
             else ret (None, alloc)) (\<lambda>(data, alloc).
       sq (free_alloc alloc) (ret data)))"

end
