(* ===== verification/Contents.thy ===== *)
theory Contents
  imports Indirect
begin

text \<open>
  \<open>contents.c\<close>: directories, regular files and symbolic links.  A \<open>struct dentry\<close> is a record;
  C strings are their bytes without the terminating zero; \<open>d_inode\<close> is the pointer
  \<open>make_directory\<close> stores (null before), to the inode number inside the directory's data.
\<close>

record dentry =
  d_path :: "u8 list"
  d_full_path :: "u8 list"
  d_filename :: "u8 list"
  d_link :: "u8 list"
  d_size :: u64
  d_file_type :: u8
  d_mode :: u16
  d_uid :: u16
  d_gid :: u16
  d_inode :: "ptr option"
  d_mtime :: u32

definition EXT4_ROOT_INO :: u32 where "EXT4_ROOT_INO = 2"
definition EXT4_RESIZE_INO :: u32 where "EXT4_RESIZE_INO = 7"
definition EXT4_JOURNAL_INO :: u32 where "EXT4_JOURNAL_INO = 8"

definition EXT4_FT_UNKNOWN :: u8 where "EXT4_FT_UNKNOWN = 0"
definition EXT4_FT_REG_FILE :: u8 where "EXT4_FT_REG_FILE = 1"
definition EXT4_FT_DIR :: u8 where "EXT4_FT_DIR = 2"
definition EXT4_FT_CHRDEV :: u8 where "EXT4_FT_CHRDEV = 3"
definition EXT4_FT_BLKDEV :: u8 where "EXT4_FT_BLKDEV = 4"
definition EXT4_FT_FIFO :: u8 where "EXT4_FT_FIFO = 5"
definition EXT4_FT_SOCK :: u8 where "EXT4_FT_SOCK = 6"
definition EXT4_FT_SYMLINK :: u8 where "EXT4_FT_SYMLINK = 7"

definition S_IFDIR :: u16 where "S_IFDIR = 0x4000"
definition S_IFREG :: u16 where "S_IFREG = 0x8000"
definition S_IFLNK :: u16 where "S_IFLNK = 0xA000"

section \<open>Directory entries\<close>

text \<open>\<open>8 + ALIGN(len, 4)\<close>\<close>

definition dentry_space :: "nat \<Rightarrow> nat" where
  "dentry_space l = 8 + 4 * ((l + 3) div 4)"

fun dentry_size_loop :: "u32 \<Rightarrow> u32 \<Rightarrow> dentry list \<Rightarrow> u32" where
  "dentry_size_loop block_size len [] = len"
| "dentry_size_loop block_size len (d # dentries) =
     (let dentry_len = of_nat (dentry_space (length (d_filename d)));
          len = (if block_size < len mod block_size + dentry_len
                 then len + (block_size - len mod block_size) else len)
      in dentry_size_loop block_size (len + dentry_len) dentries)"

definition dentry_size :: "u32 \<Rightarrow> dentry list \<Rightarrow> u32" where
  "dentry_size block_size dentries = dentry_size_loop block_size 24 dentries"

definition store_dentry :: "ptr \<Rightarrow> u32 \<Rightarrow> u16 \<Rightarrow> u8 \<Rightarrow> u8 \<Rightarrow> unit wprog" where
  "store_dentry dentry inode rec_len name_len file_type =
     sq (store_u32 dentry inode)
     (sq (store_u16 (ptr_add dentry 4) rec_len)
     (sq (store_u8 (ptr_add dentry 6) name_len)
     (store_u8 (ptr_add dentry 7) file_type)))"

definition add_dentry :: "ptr \<Rightarrow> u32 \<Rightarrow> ptr option \<Rightarrow> u32 \<Rightarrow> u8 list \<Rightarrow> u8 \<Rightarrow> (ptr \<times> u32) wprog" where
  "add_dentry data offset prev inode name file_type =
     bind (gets (\<lambda>s. info_block_size (w_info s))) (\<lambda>block_size.
     sq (guard (\<lambda>_. block_size \<noteq> 0))
     (let name_len = (of_nat (length name) :: u8);
          rec_len = (of_nat (dentry_space (unat name_len)) :: u16);
          start_block = offset div block_size;
          end_block = (offset + ucast rec_len) div block_size
      in bind (if start_block \<noteq> end_block
               then case prev of
                 None \<Rightarrow> critical_error
               | Some p \<Rightarrow>
                   sq (modify_u16 (ptr_add p 4) (\<lambda>x. x + ucast (end_block * block_size - offset)))
                      (ret (end_block * block_size))
               else ret offset) (\<lambda>offset.
         let dentry = ptr_add data (unat offset) in
         sq (store_dentry dentry inode rec_len name_len file_type)
         (sq (store (ptr_add dentry 8) (take (unat name_len) name))
         (ret (dentry, offset + ucast rec_len))))))"

section \<open>Directories, files, links\<close>

text \<open>The loop of \<open>make_directory\<close> over the entries; the pointers to their inode numbers are
  collected.\<close>

fun add_entries :: "ptr \<Rightarrow> u32 \<Rightarrow> u32 \<Rightarrow> ptr \<Rightarrow> dentry list \<Rightarrow> (dentry list \<times> u32) wprog" where
  "add_entries data len offset prev [] = ret ([], offset)"
| "add_entries data len offset prev (d # dentries) =
     bind (add_dentry data offset (Some prev) 0 (d_filename d) (d_file_type d)) (\<lambda>(dentry, offset).
     if len < offset \<or> (offset = len \<and> dentries \<noteq> []) then critical_error
     else bind (add_entries data len offset dentry dentries) (\<lambda>(ds, offset).
       ret (d\<lparr>d_inode := Some dentry\<rparr> # ds, offset)))"

text \<open>What \<open>make_directory\<close> writes to the directory's data: itself, its parent, the entries, and an unused
  entry up to the end.\<close>

definition fill_directory :: "ptr \<Rightarrow> u32 \<Rightarrow> u32 \<Rightarrow> u32 \<Rightarrow> dentry list \<Rightarrow> dentry list wprog" where
  "fill_directory data len inode_num dir_inode_num dentries =
     bind (add_dentry data 0 None inode_num [46] EXT4_FT_DIR) (\<lambda>(dentry, offset).
     bind (add_dentry data offset (Some dentry) dir_inode_num [46, 46] EXT4_FT_DIR) (\<lambda>(dentry, offset).
     bind (add_entries data len offset dentry dentries) (\<lambda>(dentries, offset).
     sq (store_dentry (ptr_add data (unat offset)) 0 (ucast (len - offset)) 0 EXT4_FT_UNKNOWN)
     (ret dentries))))"

definition make_directory :: "u32 \<Rightarrow> dentry list \<Rightarrow> u32 \<Rightarrow> (u32 \<times> dentry list) wprog" where
  "make_directory dir_inode_num dentries dirs =
     bind (gets (\<lambda>s. info_block_size (w_info s))) (\<lambda>block_size.
     sq (guard (\<lambda>_. block_size \<noteq> 0))
     (let blocks = DIV_ROUND_UP (dentry_size block_size dentries) block_size;
          len = blocks * block_size
      in bind (if dir_inode_num \<noteq> 0
               then bind allocate_inode (\<lambda>n. ret (dir_inode_num, n))
               else ret (EXT4_ROOT_INO, EXT4_ROOT_INO)) (\<lambda>(dir_inode_num, inode_num).
         if inode_num = EXT4_ALLOCATE_FAILED then sq error (ret (EXT4_ALLOCATE_FAILED, dentries))
         else sq (add_directory inode_num)
           (bind (get_inode inode_num) (\<lambda>inode.
            bind (inode_allocate_data_extents inode (ucast len) (ucast len)) (\<lambda>r. case r of
              None \<Rightarrow> sq error (ret (EXT4_ALLOCATE_FAILED, dentries))
            | Some data \<Rightarrow>
              sq (store_u16 (ptr_add inode off_i_mode) S_IFDIR)
              (sq (store_u16 (ptr_add inode off_i_links_count) (ucast (dirs + 2)))
              (bind (gets (\<lambda>s. aux_default_i_flags (w_aux s))) (\<lambda>flags.
               sq (modify_u32 (ptr_add inode off_i_flags) (\<lambda>x. x OR flags))
               (bind (fill_directory data len inode_num dir_inode_num dentries) (\<lambda>dentries.
                ret (inode_num, dentries))))))))))))"

definition make_file :: "u8 list \<Rightarrow> u64 \<Rightarrow> u32 wprog" where
  "make_file filename len =
     bind allocate_inode (\<lambda>inode_num.
     if inode_num = EXT4_ALLOCATE_FAILED then sq error (ret EXT4_ALLOCATE_FAILED)
     else bind (get_inode inode_num) (\<lambda>inode.
       sq (only_if (0 < len) (inode_allocate_file_extents inode len filename))
       (sq (store_u16 (ptr_add inode off_i_mode) S_IFREG)
       (sq (store_u16 (ptr_add inode off_i_links_count) 1)
       (bind (gets (\<lambda>s. aux_default_i_flags (w_aux s))) (\<lambda>flags.
        sq (modify_u32 (ptr_add inode off_i_flags) (\<lambda>x. x OR flags))
        (ret inode_num)))))))"

text \<open>\<open>sizeof(inode->i_block)\<close> is 60.\<close>

definition make_link :: "u8 list \<Rightarrow> u8 list \<Rightarrow> u32 wprog" where
  "make_link filename link =
     (let len = of_nat (length link) in
     bind allocate_inode (\<lambda>inode_num.
     if inode_num = EXT4_ALLOCATE_FAILED then sq error (ret EXT4_ALLOCATE_FAILED)
     else bind (get_inode inode_num) (\<lambda>inode.
       sq (store_u16 (ptr_add inode off_i_mode) S_IFLNK)
       (sq (store_u16 (ptr_add inode off_i_links_count) 1)
       (bind (gets (\<lambda>s. aux_default_i_flags (w_aux s))) (\<lambda>flags.
        sq (modify_u32 (ptr_add inode off_i_flags) (\<lambda>x. x OR flags))
        (sq (store_u32 (ptr_add inode off_i_size_lo) len)
        (sq (if len + 1 \<le> 60 then store (i_block_ptr inode 0) (take (unat len) link)
             else bind (gets (\<lambda>s. info_block_size (w_info s))) (\<lambda>block_size.
               bind (inode_allocate_data_indirect inode (ucast block_size) (ucast block_size)) (\<lambda>r.
               bind (from_option r) (\<lambda>data.
               sq (store data (take (unat len) link))
               (store_u32 (ptr_add inode off_i_blocks_lo) (block_size div 512))))))
        (ret inode_num)))))))))"

definition inode_set_permissions :: "u32 \<Rightarrow> u16 \<Rightarrow> u16 \<Rightarrow> u16 \<Rightarrow> u32 \<Rightarrow> int wprog" where
  "inode_set_permissions inode_num mode uid gid mtime =
     bind (get_inode inode_num) (\<lambda>inode.
     sq (modify_u16 (ptr_add inode off_i_mode) (\<lambda>x. x OR mode))
     (sq (store_u16 (ptr_add inode off_i_uid) uid)
     (sq (store_u16 (ptr_add inode off_i_gid) gid)
     (sq (store_u32 (ptr_add inode off_i_mtime) mtime)
     (sq (store_u32 (ptr_add inode off_i_atime) mtime)
     (sq (store_u32 (ptr_add inode off_i_ctime) mtime)
     (ret 0)))))))"

end
