(* ===== verification/Sha1.thy ===== *)
theory Sha1
  imports Prelude
begin

text \<open>
  \<open>sha1.c\<close>: the SHA-1 implementation behind the file system's UUID.  The compression
  function is modelled with its unrolled rounds, the five working variables rotating
  through the macro arguments and the sixteen-word block overwritten in place; the context
  with its 64-byte buffer and two-word bit count is modelled as the code keeps it.  The
  reference is FIPS 180: message schedule, eighty uniform steps, padding, blocks.
  This theory proves the compression functions equal and that \<open>SHA1Update\<close> keeps a context
  that represents the bytes hashed so far; \<open>Sha1_Stream\<close> concludes for the digest.

  A buffer is the list of its bytes.  The code's \<open>u_int\<close> sums of an index below
  the length and a constant below 64 do not wrap for lengths below \<open>2^32 - 64\<close>, so indices
  are natural numbers here.
\<close>

section \<open>The code\<close>

text \<open>\<open>SHA1_CTX\<close> of \<open>sha1.h\<close>.\<close>

record sha1_ctx =
  sha_state :: "u32 list"
  sha_count0 :: u32
  sha_count1 :: u32
  sha_buffer :: "u8 list"

definition rol :: "u32 \<Rightarrow> nat \<Rightarrow> u32" where
  "rol v n = push_bit n v OR drop_bit (32 - n) v"

text \<open>\<open>blk0\<close> (little-endian variant) and \<open>blk\<close> assign a word of the block and have it as their
  value; here they return the block and the value is read from it.\<close>

definition blk0 :: "u32 list \<Rightarrow> nat \<Rightarrow> u32 list" where
  "blk0 l i = l[i := (rol (l ! i) 24 AND 0xFF00FF00) OR (rol (l ! i) 8 AND 0x00FF00FF)]"

definition blk :: "u32 list \<Rightarrow> nat \<Rightarrow> u32 list" where
  "blk l i = l[i mod 16 := rol (l ! ((i + 13) mod 16) XOR l ! ((i + 8) mod 16)
     XOR l ! ((i + 2) mod 16) XOR l ! (i mod 16)) 1]"

text \<open>The macros \<open>R0\<close> to \<open>R4\<close> of the working variables \<open>v, w, x, y, z\<close>: each adds to \<open>z\<close> and
  rotates \<open>w\<close>; they differ in the boolean function, the constant and how the block word is made.\<close>

datatype reg = Ra | Rb | Rc | Rd | Re

datatype round_macro = R0 | R1 | R2 | R3 | R4

fun round_fun :: "round_macro \<Rightarrow> u32 \<Rightarrow> u32 \<Rightarrow> u32 \<Rightarrow> u32" where
  "round_fun R0 w x y = (w AND (x XOR y)) XOR y"
| "round_fun R1 w x y = (w AND (x XOR y)) XOR y"
| "round_fun R2 w x y = w XOR x XOR y"
| "round_fun R3 w x y = ((w OR x) AND y) OR (w AND x)"
| "round_fun R4 w x y = w XOR x XOR y"

fun round_const :: "round_macro \<Rightarrow> u32" where
  "round_const R0 = 0x5A827999"
| "round_const R1 = 0x5A827999"
| "round_const R2 = 0x6ED9EBA1"
| "round_const R3 = 0x8F1BBCDC"
| "round_const R4 = 0xCA62C1D6"

fun do_round :: "round_macro \<times> reg \<times> reg \<times> reg \<times> reg \<times> reg \<times> nat \<Rightarrow>
    (reg \<Rightarrow> u32) \<times> u32 list \<Rightarrow> (reg \<Rightarrow> u32) \<times> u32 list" where
  "do_round (m, v, w, x, y, z, i) (r, l) =
     (let l' = (if m = R0 then blk0 l i else blk l i);
          r' = r(z := r z + round_fun m (r w) (r x) (r y) + l' ! (i mod 16)
                 + round_const m + rol (r v) 5)
      in (r'(w := rol (r' w) 30), l'))"

text \<open>The eighty macro calls of \<open>SHA1Transform\<close>, in the order of the file.\<close>

definition sha1_rounds :: "(round_macro \<times> reg \<times> reg \<times> reg \<times> reg \<times> reg \<times> nat) list" where
  "sha1_rounds = [
     (R0, Ra, Rb, Rc, Rd, Re, 0), (R0, Re, Ra, Rb, Rc, Rd, 1), (R0, Rd, Re, Ra, Rb, Rc, 2),
     (R0, Rc, Rd, Re, Ra, Rb, 3), (R0, Rb, Rc, Rd, Re, Ra, 4), (R0, Ra, Rb, Rc, Rd, Re, 5),
     (R0, Re, Ra, Rb, Rc, Rd, 6), (R0, Rd, Re, Ra, Rb, Rc, 7), (R0, Rc, Rd, Re, Ra, Rb, 8),
     (R0, Rb, Rc, Rd, Re, Ra, 9), (R0, Ra, Rb, Rc, Rd, Re, 10), (R0, Re, Ra, Rb, Rc, Rd, 11),
     (R0, Rd, Re, Ra, Rb, Rc, 12), (R0, Rc, Rd, Re, Ra, Rb, 13), (R0, Rb, Rc, Rd, Re, Ra, 14),
     (R0, Ra, Rb, Rc, Rd, Re, 15), (R1, Re, Ra, Rb, Rc, Rd, 16), (R1, Rd, Re, Ra, Rb, Rc, 17),
     (R1, Rc, Rd, Re, Ra, Rb, 18), (R1, Rb, Rc, Rd, Re, Ra, 19), (R2, Ra, Rb, Rc, Rd, Re, 20),
     (R2, Re, Ra, Rb, Rc, Rd, 21), (R2, Rd, Re, Ra, Rb, Rc, 22), (R2, Rc, Rd, Re, Ra, Rb, 23),
     (R2, Rb, Rc, Rd, Re, Ra, 24), (R2, Ra, Rb, Rc, Rd, Re, 25), (R2, Re, Ra, Rb, Rc, Rd, 26),
     (R2, Rd, Re, Ra, Rb, Rc, 27), (R2, Rc, Rd, Re, Ra, Rb, 28), (R2, Rb, Rc, Rd, Re, Ra, 29),
     (R2, Ra, Rb, Rc, Rd, Re, 30), (R2, Re, Ra, Rb, Rc, Rd, 31), (R2, Rd, Re, Ra, Rb, Rc, 32),
     (R2, Rc, Rd, Re, Ra, Rb, 33), (R2, Rb, Rc, Rd, Re, Ra, 34), (R2, Ra, Rb, Rc, Rd, Re, 35),
     (R2, Re, Ra, Rb, Rc, Rd, 36), (R2, Rd, Re, Ra, Rb, Rc, 37), (R2, Rc, Rd, Re, Ra, Rb, 38),
     (R2, Rb, Rc, Rd, Re, Ra, 39), (R3, Ra, Rb, Rc, Rd, Re, 40), (R3, Re, Ra, Rb, Rc, Rd, 41),
     (R3, Rd, Re, Ra, Rb, Rc, 42), (R3, Rc, Rd, Re, Ra, Rb, 43), (R3, Rb, Rc, Rd, Re, Ra, 44),
     (R3, Ra, Rb, Rc, Rd, Re, 45), (R3, Re, Ra, Rb, Rc, Rd, 46), (R3, Rd, Re, Ra, Rb, Rc, 47),
     (R3, Rc, Rd, Re, Ra, Rb, 48), (R3, Rb, Rc, Rd, Re, Ra, 49), (R3, Ra, Rb, Rc, Rd, Re, 50),
     (R3, Re, Ra, Rb, Rc, Rd, 51), (R3, Rd, Re, Ra, Rb, Rc, 52), (R3, Rc, Rd, Re, Ra, Rb, 53),
     (R3, Rb, Rc, Rd, Re, Ra, 54), (R3, Ra, Rb, Rc, Rd, Re, 55), (R3, Re, Ra, Rb, Rc, Rd, 56),
     (R3, Rd, Re, Ra, Rb, Rc, 57), (R3, Rc, Rd, Re, Ra, Rb, 58), (R3, Rb, Rc, Rd, Re, Ra, 59),
     (R4, Ra, Rb, Rc, Rd, Re, 60), (R4, Re, Ra, Rb, Rc, Rd, 61), (R4, Rd, Re, Ra, Rb, Rc, 62),
     (R4, Rc, Rd, Re, Ra, Rb, 63), (R4, Rb, Rc, Rd, Re, Ra, 64), (R4, Ra, Rb, Rc, Rd, Re, 65),
     (R4, Re, Ra, Rb, Rc, Rd, 66), (R4, Rd, Re, Ra, Rb, Rc, 67), (R4, Rc, Rd, Re, Ra, Rb, 68),
     (R4, Rb, Rc, Rd, Re, Ra, 69), (R4, Ra, Rb, Rc, Rd, Re, 70), (R4, Re, Ra, Rb, Rc, Rd, 71),
     (R4, Rd, Re, Ra, Rb, Rc, 72), (R4, Rc, Rd, Re, Ra, Rb, 73), (R4, Rb, Rc, Rd, Re, Ra, 74),
     (R4, Ra, Rb, Rc, Rd, Re, 75), (R4, Re, Ra, Rb, Rc, Rd, 76), (R4, Rd, Re, Ra, Rb, Rc, 77),
     (R4, Rc, Rd, Re, Ra, Rb, 78), (R4, Rb, Rc, Rd, Re, Ra, 79)]"

text \<open>The buffer is copied into the union \<open>CHAR64LONG16\<close>, whose words are read little-endian.\<close>

definition SHA1Transform :: "u32 list \<Rightarrow> u8 list \<Rightarrow> u32 list" where
  "SHA1Transform st buf =
     (let block = map (\<lambda>i. le_word32 (get_bytes buf (4 * i) 4)) [0..<16];
          regs = (\<lambda>r. case r of Ra \<Rightarrow> st ! 0 | Rb \<Rightarrow> st ! 1 | Rc \<Rightarrow> st ! 2 | Rd \<Rightarrow> st ! 3 | Re \<Rightarrow> st ! 4);
          (regs', block') = fold do_round sha1_rounds (regs, block)
      in [st ! 0 + regs' Ra, st ! 1 + regs' Rb, st ! 2 + regs' Rc, st ! 3 + regs' Rd,
          st ! 4 + regs' Re])"

section \<open>The standard\<close>

text \<open>Message schedule, round functions, constants and the compression function of FIPS 180-4
  (sections 4.1.1, 4.2.1 and 6.1.2).\<close>

function sched :: "(nat \<Rightarrow> u32) \<Rightarrow> nat \<Rightarrow> u32" where
  "sched m t = (if t < 16 then m t
     else word_rotl 1 (sched m (t - 3) XOR sched m (t - 8) XOR sched m (t - 14) XOR sched m (t - 16)))"
  by pat_completeness auto
termination
  by (relation "measure snd") auto

declare sched.simps [simp del]

definition fips_f :: "nat \<Rightarrow> u32 \<Rightarrow> u32 \<Rightarrow> u32 \<Rightarrow> u32" where
  "fips_f t x y z =
     (if t < 20 then (x AND y) XOR (NOT x AND z)
      else if t < 40 then x XOR y XOR z
      else if t < 60 then (x AND y) XOR (x AND z) XOR (y AND z)
      else x XOR y XOR z)"

definition fips_K :: "nat \<Rightarrow> u32" where
  "fips_K t = (if t < 20 then 0x5a827999 else if t < 40 then 0x6ed9eba1
     else if t < 60 then 0x8f1bbcdc else 0xca62c1d6)"

fun fips_step :: "(nat \<Rightarrow> u32) \<Rightarrow> nat \<Rightarrow> u32 \<times> u32 \<times> u32 \<times> u32 \<times> u32 \<Rightarrow> u32 \<times> u32 \<times> u32 \<times> u32 \<times> u32" where
  "fips_step m t (a, b, c, d, e) =
     (word_rotl 5 a + fips_f t b c d + e + fips_K t + sched m t, a, word_rotl 30 b, c, d)"

definition fips_compress :: "u32 list \<Rightarrow> u8 list \<Rightarrow> u32 list" where
  "fips_compress h bytes =
     (let m = (\<lambda>t. be_word32 (get_bytes bytes (4 * t) 4));
          (a, b, c, d, e) = fold (fips_step m) [0..<80] (h ! 0, h ! 1, h ! 2, h ! 3, h ! 4)
      in [a + h ! 0, b + h ! 1, c + h ! 2, d + h ! 3, e + h ! 4])"

section \<open>Rounds\<close>

lemma rol_rotl: "0 < n \<Longrightarrow> n < 32 \<Longrightarrow> rol v n = word_rotl n v"
  by (rule bit_word_eqI)
    (auto simp: rol_def bit_simps bit_word_rotl_iff mod_if not_less add.commute [of 32])

lemma round_fun_fips:
  "t < 20 \<Longrightarrow> round_fun R0 x y z = fips_f t x y z"
  "t < 20 \<Longrightarrow> round_fun R1 x y z = fips_f t x y z"
  "20 \<le> t \<Longrightarrow> t < 40 \<Longrightarrow> round_fun R2 x y z = fips_f t x y z"
  "40 \<le> t \<Longrightarrow> t < 60 \<Longrightarrow> round_fun R3 x y z = fips_f t x y z"
  "60 \<le> t \<Longrightarrow> round_fun R4 x y z = fips_f t x y z"
  by (auto simp: fips_f_def bit_simps intro!: bit_word_eqI)

lemma blk0_bswap: "length bs = 4 \<Longrightarrow>
   (rol (le_word32 bs) 24 AND 0xFF00FF00) OR (rol (le_word32 bs) 8 AND 0x00FF00FF) = be_word32 bs"
proof -
  have m: "(0xFF00FF00 :: u32) = push_bit 24 (mask 8) OR push_bit 8 (mask 8)"
    "(0x00FF00FF :: u32) = push_bit 16 (mask 8) OR mask 8"
    by (simp_all add: mask_eq_decr_exp)
  show ?thesis
    unfolding m
  proof (rule bit_word_eqI)
    fix n :: nat assume "n < LENGTH(32)"
    then consider "n < 8" | k where "k < 8" "n = 8 + k" | k where "k < 8" "n = 16 + k"
      | k where "k < 8" "n = 24 + k" using byte_of_bit [of n] by auto
    then show "bit (rol (le_word32 bs) 24 AND (push_bit 24 (mask 8) OR push_bit 8 (mask 8)) OR
        rol (le_word32 bs) 8 AND (push_bit 16 (mask 8) OR mask 8)) n = bit (be_word32 bs) n"
      by cases (simp_all add: rol_def bit_simps le_word32_def be_word32_def)
  qed
qed
definition regn :: "nat \<Rightarrow> reg" where
  "regn k = [Ra, Rb, Rc, Rd, Re] ! (k mod 5)"

definition rg :: "nat \<Rightarrow> nat \<Rightarrow> reg" where
  "rg t j = regn (4 * t + j)"

definition macro_of :: "nat \<Rightarrow> round_macro" where
  "macro_of t = (if t < 16 then R0 else if t < 20 then R1 else if t < 40 then R2 else if t < 60 then R3 else R4)"

definition round_at :: "nat \<Rightarrow> round_macro \<times> reg \<times> reg \<times> reg \<times> reg \<times> reg \<times> nat" where
  "round_at t = (macro_of t, rg t 0, rg t 1, rg t 2, rg t 3, rg t 4, t)"

lemma sha1_rounds_eq: "sha1_rounds = map round_at [0..<80]"
  by (simp add: sha1_rounds_def round_at_def macro_of_def rg_def regn_def upt_rec_numeral upt_conv_Cons)


lemma regn_add5 [simp]: "regn (k + 5) = regn k"
  by (simp add: regn_def)

lemma regn_eq_iff: "regn i = regn j \<longleftrightarrow> i mod 5 = j mod 5"
proof -
  have "distinct [Ra, Rb, Rc, Rd, Re]" by simp
  then show ?thesis unfolding regn_def by (subst nth_eq_iff_index_eq) auto
qed

text \<open>The invariant of the unrolled rounds: before step \<open>t\<close> the working variables, read in the
  rotated order, are the standard's \<open>a\<close> to \<open>e\<close>, and the block holds the last sixteen words of the
  schedule, or input words not reached yet.\<close>

definition tracks :: "(nat \<Rightarrow> u32) \<Rightarrow> (nat \<Rightarrow> u32) \<Rightarrow> nat \<Rightarrow> (reg \<Rightarrow> u32) \<times> u32 list \<Rightarrow> u32 \<times> u32 \<times> u32 \<times> u32 \<times> u32 \<Rightarrow> bool" where
  "tracks raw m t rl v \<longleftrightarrow> (case rl of (r, l) \<Rightarrow>
     v = (r (rg t 0), r (rg t 1), r (rg t 2), r (rg t 3), r (rg t 4))
     \<and> length l = 16
     \<and> (\<forall>k<t. t \<le> k + 16 \<longrightarrow> l ! (k mod 16) = sched m k)
     \<and> (\<forall>j<16. t \<le> j \<longrightarrow> l ! j = raw j))"

lemma window_step:
  assumes "length l = 16" "\<forall>k<t. t \<le> k + 16 \<longrightarrow> l ! (k mod 16) = sched m k"
    and "\<forall>j<16. t \<le> j \<longrightarrow> l ! j = raw j"
    and raw: "\<And>j. j < 16 \<Longrightarrow> (rol (raw j) 24 AND 0xFF00FF00) OR (rol (raw j) 8 AND 0x00FF00FF) = m j"
  defines "l' \<equiv> if t < 16 then blk0 l t else blk l t"
  shows "l' ! (t mod 16) = sched m t" "length l' = 16"
    "\<forall>k<Suc t. Suc t \<le> k + 16 \<longrightarrow> l' ! (k mod 16) = sched m k"
    "\<forall>j<16. Suc t \<le> j \<longrightarrow> l' ! j = raw j"
proof -
  have at: "l ! ((t + d) mod 16) = sched m (t - (16 - d))" if "16 \<le> t" "d < 16" for d
  proof -
    obtain s where "t = s + 16" using \<open>16 \<le> t\<close> le_Suc_ex add.commute by blast
    then have "t - (16 - d) = s + d" "(t + d) mod 16 = (s + d) mod 16"
      using that mod_add_self2 [of "s + d" 16] by (simp_all add: ac_simps)
    then have "(t - (16 - d)) mod 16 = (t + d) mod 16" by simp
    moreover have "t - (16 - d) < t" "t \<le> t - (16 - d) + 16" using that by auto
    ultimately show ?thesis using assms(2) [rule_format, of "t - (16 - d)"] by simp
  qed
  show new: "l' ! (t mod 16) = sched m t"
  proof (cases "t < 16")
    case True
    then show ?thesis using assms(1,3) raw [of t] by (simp add: l'_def blk0_def sched.simps [of m t])
  next
    case False
    then show ?thesis using assms(1) at [of 13] at [of 8] at [of 2] at [of 0]
      by (simp add: l'_def blk_def sched.simps [of m t] rol_rotl)
  qed
  show "length l' = 16" using assms(1) by (simp add: l'_def blk0_def blk_def)
  have other: "l' ! j = l ! j" if "j \<noteq> t mod 16" for j
    using that by (auto simp: l'_def blk0_def blk_def)
  show "\<forall>k<Suc t. Suc t \<le> k + 16 \<longrightarrow> l' ! (k mod 16) = sched m k"
  proof (intro allI impI)
    fix k assume k: "k < Suc t" "Suc t \<le> k + 16"
    show "l' ! (k mod 16) = sched m k"
    proof (cases "k = t")
      case False
      have "k mod 16 \<noteq> t mod 16"
      proof
        assume "k mod 16 = t mod 16"
        with k False have "16 dvd t - k" by (metis mod_eq_dvd_iff_nat less_Suc_eq_le)
        with k False show False by (auto dest!: dvd_imp_le)
      qed
      then show ?thesis using other assms(2) k False by simp
    qed (simp add: new)
  qed
  show "\<forall>j<16. Suc t \<le> j \<longrightarrow> l' ! j = raw j"
    using other assms(3) by auto
qed

lemma macro_const: "t < 80 \<Longrightarrow> round_const (macro_of t) = fips_K t"
  by (simp add: macro_of_def fips_K_def)

lemma macro_fun: "t < 80 \<Longrightarrow> round_fun (macro_of t) x y z = fips_f t x y z"
  by (simp add: macro_of_def round_fun_fips del: round_fun.simps)

lemma macro_R0: "macro_of t = R0 \<longleftrightarrow> t < 16"
  by (simp add: macro_of_def)

lemma round_tracks:
  assumes t: "t < 80" and tr: "tracks raw m t (r, l) v"
    and raw: "\<And>j. j < 16 \<Longrightarrow> (rol (raw j) 24 AND 0xFF00FF00) OR (rol (raw j) 8 AND 0x00FF00FF) = m j"
  shows "tracks raw m (Suc t) (do_round (round_at t) (r, l)) (fips_step m t v)"
proof -
  have regs: "rg (Suc t) 0 = rg t 4" "rg (Suc t) 1 = rg t 0"
    "rg (Suc t) 2 = rg t 1" "rg (Suc t) 3 = rg t 2"
    "rg (Suc t) 4 = rg t 3"
    unfolding rg_def regn_eq_iff by presburger+
  have ne: "rg t 4 \<noteq> rg t 1" "rg t 4 \<noteq> rg t 0"
     "rg t 4 \<noteq> rg t 2" "rg t 4 \<noteq> rg t 3"
     "rg t 1 \<noteq> rg t 0" "rg t 1 \<noteq> rg t 2" "rg t 1 \<noteq> rg t 3"
    unfolding rg_def regn_eq_iff by presburger+
  define l' where "l' = (if t < 16 then blk0 l t else blk l t)"
  have l: "length l = 16" "\<forall>k<t. t \<le> k + 16 \<longrightarrow> l ! (k mod 16) = sched m k"
    "\<forall>j<16. t \<le> j \<longrightarrow> l ! j = raw j"
    and v: "v = (r (rg t 0), r (rg t 1), r (rg t 2), r (rg t 3), r (rg t 4))"
    using tr by (auto simp: tracks_def)
  note w = window_step [OF l raw, folded l'_def]
  have step: "do_round (round_at t) (r, l) =
      ((r(rg t 4 := r (rg t 4) + fips_f t (r (rg t 1)) (r (rg t 2)) (r (rg t 3))
           + sched m t + fips_K t + word_rotl 5 (r (rg t 0))))
        (rg t 1 := word_rotl 30 (r (rg t 1))), l')"
    using t w(1) by (simp add: round_at_def Let_def macro_R0 macro_const macro_fun rol_rotl ne ne [symmetric] flip: l'_def del: One_nat_def)
  show ?thesis
    unfolding tracks_def step v regs using w ne by (simp add: add.commute add.left_commute)
qed

lemma rounds_track:
  assumes raw: "\<And>j. j < 16 \<Longrightarrow> (rol (raw j) 24 AND 0xFF00FF00) OR (rol (raw j) 8 AND 0x00FF00FF) = m j"
    and start: "tracks raw m 0 rl v"
  shows "t \<le> 80 \<Longrightarrow> tracks raw m t (fold do_round (map round_at [0..<t]) rl) (fold (fips_step m) [0..<t] v)"
proof (induction t)
  case (Suc t)
  then have "tracks raw m t (fold do_round (map round_at [0..<t]) rl) (fold (fips_step m) [0..<t] v)"
    by simp
  moreover obtain r l where "fold do_round (map round_at [0..<t]) rl = (r, l)" by fastforce
  ultimately show ?case using Suc.prems round_tracks [where raw = raw and m = m and t = t and r = r and l = l, OF _ _ raw] by simp
qed (use start in simp)

lemma SHA1Transform_fips:
  assumes "length buf = 64"
  shows "SHA1Transform st buf = fips_compress st buf"
proof -
  define m where "m = (\<lambda>t. be_word32 (get_bytes buf (4 * t) 4))"
  define raw where "raw = (\<lambda>i. le_word32 (get_bytes buf (4 * i) 4))"
  define regs where "regs = (\<lambda>r. case r of Ra \<Rightarrow> st ! 0 | Rb \<Rightarrow> st ! 1 | Rc \<Rightarrow> st ! 2 | Rd \<Rightarrow> st ! 3 | Re \<Rightarrow> st ! 4)"
  let ?v = "(st ! 0, st ! 1, st ! 2, st ! 3, st ! 4)"
  obtain r l where rl: "fold do_round sha1_rounds (regs, map raw [0..<16]) = (r, l)" by fastforce
  have "regs = case_reg (st ! 0) (st ! 1) (st ! 2) (st ! 3) (st ! 4)"
    unfolding regs_def by (rule ext) (simp split: reg.split)
  note rl' = rl [unfolded this raw_def]
  have "tracks raw m 0 (regs, map raw [0..<16]) ?v"
    by (simp add: tracks_def rg_def regn_def regs_def)
  moreover have "(rol (raw j) 24 AND 0xFF00FF00) OR (rol (raw j) 8 AND 0x00FF00FF) = m j" if "j < 16" for j
    unfolding raw_def m_def using that assms by (intro blk0_bswap) simp
  ultimately have "tracks raw m 80 (r, l) (fold (fips_step m) [0..<80] ?v)"
    using rounds_track [of raw m "(regs, map raw [0..<16])" ?v 80] by (simp add: rl flip: sha1_rounds_eq)
  then have "fold (fips_step m) [0..<80] ?v = (r Ra, r Rb, r Rc, r Rd, r Re)"
    by (simp add: tracks_def rg_def regn_def)
  then show ?thesis
    using rl' by (simp add: SHA1Transform_def fips_compress_def Let_def m_def add.commute)
qed


section \<open>Streaming\<close>

definition SHA1Init :: sha1_ctx where
  "SHA1Init = \<lparr>sha_state = [0x67452301, 0xEFCDAB89, 0x98BADCFE, 0x10325476, 0xC3D2E1F0],
     sha_count0 = 0, sha_count1 = 0, sha_buffer = replicate 64 0\<rparr>"

text \<open>\<open>for ( ; i + 63 < len; i += 64) SHA1Transform(context->state, &data[i])\<close>\<close>

function update_blocks :: "u32 list \<Rightarrow> u8 list \<Rightarrow> nat \<Rightarrow> u32 list \<times> nat" where
  "update_blocks st data i =
     (if i + 63 < length data then update_blocks (SHA1Transform st (get_bytes data i 64)) data (i + 64)
      else (st, i))"
  by pat_completeness auto
termination
  by (relation "measure (\<lambda>(st, data, i). length data - i)") auto

declare update_blocks.simps [simp del]

definition SHA1Update :: "sha1_ctx \<Rightarrow> u8 list \<Rightarrow> sha1_ctx" where
  "SHA1Update ctx data =
     (let len = word_of_nat (length data) :: u32;
          j0 = sha_count0 ctx;
          c0 = sha_count0 ctx + push_bit 3 len;
          c1 = (if c0 < j0 then sha_count1 ctx + drop_bit 29 len + 1 else sha_count1 ctx);
          j = unat (drop_bit 3 j0 AND 63)
      in if j + length data > 63 then
           let i = 64 - j;
               buf = put_bytes (sha_buffer ctx) j (take i data);
               (st, i) = update_blocks (SHA1Transform (sha_state ctx) buf) data i
           in \<lparr>sha_state = st, sha_count0 = c0, sha_count1 = c1,
               sha_buffer = put_bytes buf 0 (drop i data)\<rparr>
         else
           \<lparr>sha_state = sha_state ctx, sha_count0 = c0, sha_count1 = c1,
            sha_buffer = put_bytes (sha_buffer ctx) j data\<rparr>)"

text \<open>The padding loop \<open>while ((context->count[0] & 504) != 448)\<close> adds one zero byte, that is
  8 to \<open>count[0]\<close>, per turn; what shrinks is the distance of the byte count to 56 modulo 64.\<close>

lemma sha_count0_update: "sha_count0 (SHA1Update ctx data) = sha_count0 ctx + push_bit 3 (word_of_nat (length data))"
  by (simp add: SHA1Update_def Let_def split: prod.split)

lemma count_field: "unat (drop_bit 3 (c :: u32) AND 63) = unat c div 8 mod 64"
  using unat_and_mask [of "drop_bit 3 c" 6] by (simp add: mask_eq_decr_exp unat_drop_bit_div)

lemma pad_guard: "(c :: u32) AND 504 \<noteq> 448 \<longleftrightarrow> unat c div 8 mod 64 \<noteq> 56"
proof -
  have m: "(504 :: u32) = push_bit 3 (mask 6)" "(63 :: u32) = mask 6" "(448 :: u32) = push_bit 3 56"
    by (simp_all add: mask_eq_decr_exp)
  have "c AND 504 = push_bit 3 (drop_bit 3 c AND 63)"
    unfolding m by (rule bit_word_eqI) (auto simp: bit_simps)
  moreover have "push_bit 3 (drop_bit 3 c AND 63) = 448 \<longleftrightarrow> drop_bit 3 c AND 63 = 56"
  proof
    assume "push_bit 3 (drop_bit 3 c AND 63) = 448"
    then have "drop_bit 3 (push_bit 3 (drop_bit 3 c AND 63)) = 56" by simp
    moreover have "drop_bit 3 (push_bit 3 (drop_bit 3 c AND 63)) = drop_bit 3 c AND 63"
      unfolding m by (rule bit_word_eqI) (auto simp: bit_simps)
    ultimately show "drop_bit 3 c AND 63 = 56" by simp
  qed simp
  ultimately show ?thesis using count_field [of c] by (auto simp: word_eq_unat)
qed

lemma count_step: "unat ((c :: u32) + 8) div 8 mod 64 = (unat c div 8 + 1) mod 64"
proof -
  have "unat (c + 8) = (unat c + 8) mod 2 ^ 32" by (simp add: unat_word_ariths)
  moreover have "((x + 8) mod 2 ^ 32) div 8 mod 64 = (x div 8 + 1) mod 64" for x :: nat
  proof -
    have "(x + 8) mod (8 * (64 * 8388608)) div 8 = (x + 8) div 8 mod (64 * 8388608)"
      by (subst mod_mult2_eq) simp
    then show ?thesis by (simp add: mod_mod_cancel div_add_self2)
  qed
  ultimately show ?thesis by simp
qed

lemma pad_mod: "r < 64 \<Longrightarrow> (120 - r) mod 64 = (if r \<le> 56 then 56 - r else 120 - (r :: nat))"
  by (subst nat_mod_wrap) auto

lemma pad_length:
  "(120 - n mod 64) mod 64 = (0 :: nat) \<longleftrightarrow> n mod 64 = 56"
  "n mod 64 \<noteq> 56 \<Longrightarrow> (120 - n mod 64) mod 64 = Suc ((120 - Suc n mod 64) mod (64 :: nat))"
proof -
  have "(120 - r) mod 64 = 0 \<longleftrightarrow> r = 56" if "r < 64" for r :: nat
    using that by (auto simp: pad_mod)
  then show "(120 - n mod 64) mod 64 = (0 :: nat) \<longleftrightarrow> n mod 64 = 56" by simp
  have "(120 - r) mod 64 = Suc ((120 - (if Suc r = 64 then 0 else Suc r)) mod 64)"
    if "r < 64" "r \<noteq> 56" for r :: nat
    using that by (auto simp: pad_mod)
  then show "n mod 64 \<noteq> 56 \<Longrightarrow> (120 - n mod 64) mod 64 = Suc ((120 - Suc n mod 64) mod (64 :: nat))"
    unfolding mod_Suc by simp
qed

function sha1_pad :: "sha1_ctx \<Rightarrow> sha1_ctx" where
  "sha1_pad ctx =
     (if sha_count0 ctx AND 504 \<noteq> 448 then sha1_pad (SHA1Update ctx [0]) else ctx)"
  by pat_completeness auto
termination
proof (relation "measure (\<lambda>ctx. (120 - unat (sha_count0 ctx) div 8 mod 64) mod 64)", simp)
  fix ctx :: sha1_ctx
  let ?c = "sha_count0 ctx"
  assume "?c AND 504 \<noteq> 448"
  then have ne: "unat ?c div 8 mod 64 \<noteq> 56" by (simp add: pad_guard)
  have "(120 - (x + 1) mod 64) mod 64 < (120 - x mod 64) mod 64" if "x mod 64 \<noteq> 56" for x :: nat
    using pad_length(2) [OF that] by simp
  from this [OF ne]
  show "(SHA1Update ctx [0], ctx) \<in> measure (\<lambda>ctx. (120 - unat (sha_count0 ctx) div 8 mod 64) mod 64)"
    by (simp add: sha_count0_update count_step)
qed

declare sha1_pad.simps [simp del]

definition SHA1Final :: "sha1_ctx \<Rightarrow> u8 list \<times> sha1_ctx" where
  "SHA1Final ctx =
     (let finalcount = map (\<lambda>i. ucast (drop_bit ((3 - i mod 4) * 8)
             (if i \<ge> 4 then sha_count0 ctx else sha_count1 ctx) AND 255)) [0..<8];
          ctx = SHA1Update ctx [0x80];
          ctx = sha1_pad ctx;
          ctx = SHA1Update ctx finalcount
      in (map (\<lambda>i. ucast (drop_bit ((3 - i mod 4) * 8) (sha_state ctx ! (i div 4)) AND 255)) [0..<20],
          ctx))"

function fips_blocks :: "u32 list \<Rightarrow> u8 list \<Rightarrow> u32 list" where
  "fips_blocks h bs = (if length bs < 64 then h else fips_blocks (fips_compress h (take 64 bs)) (drop 64 bs))"
  by pat_completeness auto
termination
  by (relation "measure (\<lambda>(h, bs). length bs)") auto

declare fips_blocks.simps [simp del]

definition fips_pad :: "u8 list \<Rightarrow> u8 list" where
  "fips_pad m = m @ 0x80 # replicate ((119 - length m mod 64) mod 64) 0
     @ map (\<lambda>i. word_of_nat (8 * length m div 256 ^ (7 - i))) [0..<8]"

definition fips_sha1 :: "u8 list \<Rightarrow> u8 list" where
  "fips_sha1 m = concat (map be_bytes32
     (fips_blocks [0x67452301, 0xefcdab89, 0x98badcfe, 0x10325476, 0xc3d2e1f0] (fips_pad m)))"

lemma fips_blocks_append:
  "64 dvd length xs \<Longrightarrow> fips_blocks h (xs @ ys) = fips_blocks (fips_blocks h xs) ys"
proof (induction h xs rule: fips_blocks.induct)
  case (1 h xs)
  show ?case
  proof (cases "length xs < 64")
    case True
    with "1.prems" have "xs = []" by (auto dest: dvd_imp_le)
    then show ?thesis by (simp add: fips_blocks.simps [of h "[]"])
  next
    case False
    with 1 show ?thesis by (simp add: fips_blocks.simps [of h xs] fips_blocks.simps [of h "xs @ ys"])
  qed
qed

lemma fips_blocks_short: "length ys < 64 \<Longrightarrow> fips_blocks h ys = h"
  by (simp add: fips_blocks.simps)

lemma update_blocks_eq:
  "i \<le> length data \<Longrightarrow> update_blocks st data i =
     (fips_blocks st (drop i data), i + 64 * ((length data - i) div 64))"
proof (induction st data i rule: update_blocks.induct)
  case (1 st data i)
  show ?case
  proof (cases "i + 63 < length data")
    case True
    then have "take 64 (drop i data) = get_bytes data i 64" "\<not> length data - i < 64"
      by (simp_all add: get_bytes_def)
    moreover from True have "(length data - i) div 64 = Suc ((length data - (i + 64)) div 64)"
      by (simp add: div_if)
    ultimately show ?thesis using 1 True
      by (simp add: update_blocks.simps [of st data i] fips_blocks.simps [of st "drop i data"]
          SHA1Transform_fips add.commute)
  next
    case False
    then show ?thesis using 1
      by (simp add: update_blocks.simps [of st data i] fips_blocks_short)
  qed
qed

text \<open>A context represents a message: the state is the compression of its full blocks, the count
  its length in bits, the start of the buffer its unprocessed tail.\<close>

definition represents :: "sha1_ctx \<Rightarrow> u8 list \<Rightarrow> bool" where
  "represents ctx m \<longleftrightarrow>
     sha_state ctx = fips_blocks (sha_state SHA1Init) m
     \<and> unat (sha_count1 ctx) * 2 ^ 32 + unat (sha_count0 ctx) = 8 * length m
     \<and> length (sha_buffer ctx) = 64
     \<and> take (length m mod 64) (sha_buffer ctx) = drop (64 * (length m div 64)) m"

lemma represents_init: "represents SHA1Init []"
  by (simp add: represents_def SHA1Init_def fips_blocks_short)


lemma count_add:
  assumes "unat (c1 :: u32) * 2 ^ 32 + unat (c0 :: u32) = 8 * n" "k < 2 ^ 29" "n + k < 2 ^ 61"
    and c0'_def: "c0' = c0 + push_bit 3 (word_of_nat k)"
    and c1'_def: "c1' = (if c0' < c0 then c1 + drop_bit 29 (word_of_nat k) + 1 else c1)"
  shows "unat c1' * 2 ^ 32 + unat c0' = 8 * (n + k)"
proof -
  have k: "unat (word_of_nat k :: u32) = k" using assms(2) by (simp add: unat_of_nat)
  have "drop_bit 29 (word_of_nat k :: u32) = 0"
    using assms(2) by (simp add: word_eq_unat unat_drop_bit_div k)
  moreover have push: "unat (push_bit 3 (word_of_nat k :: u32)) = 8 * k"
    using assms(2) unat_mult_u32 [of 8 "word_of_nat k"] by (simp add: push_bit_eq_mult k mult.commute)
  then have c0': "unat c0' = (unat c0 + 8 * k) mod 4294967296"
    by (simp add: c0'_def unat_word_ariths)
  have wrap: "(unat c0 + 8 * k) mod 4294967296 =
      (if 4294967296 \<le> unat c0 + 8 * k then unat c0 + 8 * k - 4294967296 else unat c0 + 8 * k)"
    by (rule nat_mod_wrap) (use assms(2) unat_lt_u32 [of c0] in simp)
  have carry: "c0' < c0 \<longleftrightarrow> 2 ^ 32 \<le> unat c0 + 8 * k"
    using assms(2) unat_lt_u32 [of c0] by (auto simp: word_less_nat_alt c0' wrap)
  have "unat c1 + 1 < 2 ^ 32" if "2 ^ 32 \<le> unat c0 + 8 * k"
  proof -
    have "unat c1 * 2 ^ 32 + unat c0 + 8 * k < 2 ^ 64" using assms(1,3) by simp
    with that show ?thesis by simp
  qed
  ultimately show ?thesis
    using assms(1,2) carry c0' wrap by (auto simp: c1'_def unat_add_u32)
qed

lemma count_index:
  assumes "unat (c1 :: u32) * 2 ^ 32 + unat (c0 :: u32) = 8 * n"
  shows "unat (drop_bit 3 c0 AND 63) = n mod 64"
proof -
  have "unat c0 div 8 = n - unat c1 * 2 ^ 29" using assms by simp
  also have "\<dots> mod 64 = n mod 64"
  proof -
    have "n = (n - unat c1 * 2 ^ 29) + 64 * (unat c1 * 8388608)" using assms by simp
    then show ?thesis by (metis mod_mult_self2)
  qed
  finally show ?thesis by (simp only: count_field)
qed

lemma represents_update:
  assumes rep: "represents ctx m" and small: "length data < 2 ^ 29" "length m + length data < 2 ^ 61"
  shows "represents (SHA1Update ctx data) (m @ data)"
proof -
  let ?q = "64 * (length m div 64)" and ?j = "length m mod 64" and ?full = "length m mod 64 + length data > 63"
  have st: "sha_state ctx = fips_blocks (sha_state SHA1Init) m"
    and cnt: "unat (sha_count1 ctx) * 2 ^ 32 + unat (sha_count0 ctx) = 8 * length m"
    and len: "length (sha_buffer ctx) = 64" and part: "take ?j (sha_buffer ctx) = drop ?q m"
    using rep by (auto simp: represents_def)
  note idx = count_index [OF cnt]
  let ?c0 = "sha_count0 ctx + push_bit 3 (word_of_nat (length data))"
  let ?c1 = "if ?c0 < sha_count0 ctx then sha_count1 ctx + drop_bit 29 (word_of_nat (length data)) + 1 else sha_count1 ctx"
  have cnt': "unat ?c1 * 2 ^ 32 + unat ?c0 = 8 * (length m + length data)"
    by (rule count_add [OF cnt small refl refl])
  let ?i = "64 - ?j"
  let ?buf = "put_bytes (sha_buffer ctx) ?j (take ?i data)"
  have q: "length m = ?q + ?j" by simp
  have st_q: "st' = fips_blocks (sha_state SHA1Init) (take ?q m)" if "st' = sha_state ctx" for st'
    using that st fips_blocks_append [of "take ?q m" _ "drop ?q m"] by (simp add: fips_blocks_short)
  have st_app: "fips_blocks (sha_state SHA1Init) (m @ data) = fips_blocks (sha_state ctx) (drop ?q m @ data)"
  proof -
    have "fips_blocks (sha_state SHA1Init) (take ?q m @ (drop ?q m @ data)) =
        fips_blocks (fips_blocks (sha_state SHA1Init) (take ?q m)) (drop ?q m @ data)"
      by (rule fips_blocks_append) simp
    then show ?thesis unfolding st_q [OF refl] by (simp flip: append_assoc)
  qed
  show ?thesis
  proof (cases ?full)
    case True
    define b where "b = (length data - ?i) div 64"
    have i: "?i \<le> length data" using True by arith
    have buf: "?buf = drop ?q m @ take ?i data"
      using len part i by (simp add: put_bytes_def)
    then have lbuf: "length ?buf = 64" using i by simp
    have app: "drop ?q m @ data = ?buf @ drop ?i data" by (simp add: buf)
    have state: "fips_blocks (fips_compress (sha_state ctx) ?buf) (drop ?i data) = fips_blocks (sha_state SHA1Init) (m @ data)"
      unfolding st_app app using lbuf fips_blocks_append [of ?buf "sha_state ctx"]
      by (simp add: fips_blocks.simps [of _ ?buf] fips_blocks_short)
    have total: "length m + length data = 64 * (length m div 64 + 1 + b) + (length data - ?i) mod 64"
      using i q unfolding b_def by (simp add: distrib_left flip: add.assoc) 
    have r: "(length m + length data) mod 64 = (length data - ?i) mod 64"
      "(length m + length data) div 64 = length m div 64 + 1 + b"
      unfolding total mod_mult_self4 by simp_all
    have upd: "SHA1Update ctx data = \<lparr>sha_state = fips_blocks (fips_compress (sha_state ctx) ?buf) (drop ?i data),
        sha_count0 = ?c0, sha_count1 = ?c1, sha_buffer = put_bytes ?buf 0 (drop (?i + 64 * b) data)\<rparr>"
      using True i lbuf unfolding SHA1Update_def Let_def idx
      by (simp add: update_blocks_eq b_def SHA1Transform_fips)
    define rest where "rest = drop (?i + 64 * b) data"
    have lrest: "length rest = (length m + length data) mod 64"
      using i unfolding rest_def r b_def by (simp add: minus_div_mult_eq_mod [symmetric] mult.commute)
    have "64 * (x + 1 + b) - (64 * x + y) = 64 - y + 64 * b" "64 * x + y \<le> 64 * (x + 1 + b)"
      if "y < 64" for x y :: nat using that by simp_all
    from this [of ?j "length m div 64"] have "64 * (length m div 64 + 1 + b) - length m = ?i + 64 * b"
      "length m \<le> 64 * (length m div 64 + 1 + b)" using q by simp_all
    then have dr: "drop (64 * ((length m + length data) div 64)) (m @ data) = rest"
      unfolding r rest_def by simp
    have part': "take ((length m + length data) mod 64) (put_bytes ?buf 0 rest)
        = drop (64 * ((length m + length data) div 64)) (m @ data)"
      unfolding dr by (rule take_put_bytes_0 [OF lrest])
    have "length rest \<le> 64" unfolding lrest by (simp add: less_imp_le)
    then have lb: "length (put_bytes ?buf 0 rest) = 64"
      using length_put_bytes [of 0 rest ?buf] lbuf by linarith
    note upd = upd [folded rest_def]
    show ?thesis
      unfolding represents_def upd sha1_ctx.simps length_append using cnt' state part' lb by blast
  next
    case False
    have "(64 * x + y) mod 64 = y" "(64 * x + y) div 64 = x" if "y < 64" for x y :: nat
      using that by simp_all
    from this [of "?j + length data" "length m div 64"] False
    have r: "(length m + length data) mod 64 = ?j + length data"
      "(length m + length data) div 64 = length m div 64"
      by (simp_all flip: add.assoc)
    have upd: "SHA1Update ctx data = \<lparr>sha_state = sha_state ctx, sha_count0 = ?c0, sha_count1 = ?c1,
        sha_buffer = put_bytes (sha_buffer ctx) ?j data\<rparr>"
      using False unfolding SHA1Update_def Let_def idx by simp
    have lq: "length (drop ?q m) = ?j" by (simp add: minus_mult_div_eq_mod)
    have "fips_blocks (sha_state ctx) (drop ?q m @ data) = sha_state ctx"
    proof (rule fips_blocks_short)
      show "length (drop ?q m @ data) < 64" using False unfolding length_append lq by linarith
    qed
    with st_app have state: "sha_state ctx = fips_blocks (sha_state SHA1Init) (m @ data)" by simp
    have "take (?j + length data) (put_bytes (sha_buffer ctx) ?j data) = take ?j (sha_buffer ctx) @ data"
      using len mod_less_divisor [of 64 "length m"] unfolding put_bytes_def by simp
    moreover have "?q \<le> length m" by (simp add: times_div_less_eq_dividend)
    then have "drop ?q (m @ data) = drop ?q m @ data" by simp
    ultimately have buf: "take ((length m + length data) mod 64) (put_bytes (sha_buffer ctx) ?j data)
        = drop (64 * ((length m + length data) div 64)) (m @ data)"
      unfolding r part by simp
    have lb: "length (put_bytes (sha_buffer ctx) ?j data) = 64"
      using length_put_bytes [of ?j data "sha_buffer ctx"] len False by linarith
    show ?thesis
      unfolding represents_def upd sha1_ctx.simps length_append using cnt' state buf lb by blast
  qed
qed

lemma pad_guard_represents:
  assumes "represents ctx m"
  shows "sha_count0 ctx AND 504 \<noteq> 448 \<longleftrightarrow> length m mod 64 \<noteq> 56"
proof -
  have "unat (sha_count1 ctx) * 2 ^ 32 + unat (sha_count0 ctx) = 8 * length m"
    using assms by (simp add: represents_def)
  from count_index [OF this] show ?thesis by (simp only: pad_guard count_field)
qed

lemma represents_pad:
  "represents ctx m \<Longrightarrow> length m + k < 2 ^ 61 \<Longrightarrow> k = (120 - length m mod 64) mod 64 \<Longrightarrow>
     represents (sha1_pad ctx) (m @ replicate k 0)"
proof (induction k arbitrary: ctx m)
  case 0
  then show ?case
    using pad_guard_represents [OF "0.prems"(1)] pad_length(1) [of "length m"]
    by (simp add: sha1_pad.simps [of ctx])
next
  case (Suc k)
  then have ne: "length m mod 64 \<noteq> 56" using pad_length(1) [of "length m"] by auto
  have "represents (SHA1Update ctx [0]) (m @ [0])"
    using Suc.prems by (intro represents_update) simp_all
  then have "represents (sha1_pad (SHA1Update ctx [0])) ((m @ [0]) @ replicate k 0)"
    by (rule Suc.IH) (use Suc.prems pad_length(2) [OF ne] in simp_all)
  moreover have "sha1_pad ctx = sha1_pad (SHA1Update ctx [0])"
    by (simp only: sha1_pad.simps [of ctx] pad_guard_represents [OF Suc.prems(1)] ne not_False_eq_True if_True)
  ultimately show ?case by simp
qed


end
