(* ===== verification/Sha1_Stream.thy ===== *)
theory Sha1_Stream
  imports Sha1
begin

text \<open>
  The digest of \<open>sha1.c\<close>: a message hashed in any pieces gives the FIPS 180 digest of the
  whole message.  The lemmas here are the byte encodings of the length and of the digest.
\<close>

lemma byte_of_word: "(ucast (drop_bit n c AND 255) :: u8) = word_of_nat (unat (c :: u32) div 2 ^ n)"
proof -
  have "unat (drop_bit n c AND 255) = unat c div 2 ^ n mod 256"
    using unat_and_mask [of "drop_bit n c" 8] by (simp add: mask_eq_decr_exp unat_drop_bit_div)
  then show ?thesis
    by (simp add: word_eq_unat unat_of_nat unsigned_ucast_eq take_bit_eq_mod)
qed

lemma length_bytes_bits:
  assumes "unat (c1 :: u32) * 2 ^ 32 + unat (c0 :: u32) = n"
  shows "map (\<lambda>i. ucast (drop_bit ((3 - i mod 4) * 8) (if i \<ge> 4 then c0 else c1) AND 255)) [0..<8]
     = (map (\<lambda>i. word_of_nat (n div 256 ^ (7 - i))) [0..<8] :: u8 list)"
proof -
  have "n div 2 ^ 32 = unat c1"
    unfolding assms [symmetric] using unat_lt_u32 [of c0] by simp
  then have hi: "n div 2 ^ (32 + j) = unat c1 div 2 ^ j" for j
    by (simp only: power_add div_mult2_eq)
  have lo: "(word_of_nat (n div 2 ^ j) :: u8) = word_of_nat (unat c0 div 2 ^ j)" if "j \<le> 24" for j
  proof -
    have "n = unat c0 + 2 ^ j * (256 * (2 ^ (24 - j) * unat c1))"
    proof -
      have "(2 :: nat) ^ 32 = 2 ^ j * (256 * 2 ^ (24 - j))"
        using that power_add [of "2 :: nat" j "24 - j"] by simp
      then show ?thesis using assms by (metis add.commute mult.assoc mult.commute)
    qed
    then have "n div 2 ^ j = unat c0 div 2 ^ j + 256 * (2 ^ (24 - j) * unat c1)"
      by simp
    then show ?thesis by (simp only: word_eq_unat unat_of_nat) simp
  qed
  show ?thesis
    using hi [of 0] hi [of 8] hi [of 16] hi [of 24] lo [of 0] lo [of 8] lo [of 16] lo [of 24]
    by (simp add: upt_rec_numeral upt_conv_Cons byte_of_word)
qed


lemma length_fips_compress [simp]: "length (fips_compress h bs) = 5"
  by (simp add: fips_compress_def Let_def split: prod.split)

lemma length_fips_blocks: "length h = 5 \<Longrightarrow> length (fips_blocks h bs) = 5"
  by (induction h bs rule: fips_blocks.induct) (simp add: fips_blocks.simps)

lemma digest_bytes:
  "length st = 5 \<Longrightarrow> map (\<lambda>i. ucast (drop_bit ((3 - i mod 4) * 8) (st ! (i div 4)) AND 255)) [0..<20]
     = concat (map be_bytes32 st)"
proof -
  assume "length st = 5"
  then obtain a b c d e where st: "st = [a, b, c, d, e]"
    by (auto simp: length_Suc_conv eval_nat_numeral)
  have m: "(255 :: u32) = mask 8" by (simp add: mask_eq_decr_exp)
  have "(ucast (x AND 255 :: u32) :: u8) = ucast x" for x
    unfolding m by (rule bit_word_eqI) (auto simp: bit_simps)
  then show ?thesis
    by (simp add: st upt_rec_numeral upt_conv_Cons be_bytes32_def le_bytes32_def)
qed

lemma sha1_stream:
  assumes "\<forall>c \<in> set chunks. length c < 2 ^ 29" "length (concat chunks) + 128 < 2 ^ 61"
  shows "fst (SHA1Final (foldl SHA1Update SHA1Init chunks)) = fips_sha1 (concat chunks)"
proof -
  have rep: "represents ctx m \<Longrightarrow> \<forall>c \<in> set cs. length c < 2 ^ 29 \<Longrightarrow> length m + length (concat cs) < 2 ^ 61
      \<Longrightarrow> represents (foldl SHA1Update ctx cs) (m @ concat cs)" for ctx m cs
  proof (induction cs arbitrary: ctx m)
    case (Cons c cs)
    then have "represents (SHA1Update ctx c) (m @ c)" by (intro represents_update) auto
    with Cons show ?case using Cons.IH [of "SHA1Update ctx c" "m @ c"] by simp
  qed simp
  let ?m = "concat chunks" and ?ctx = "foldl SHA1Update SHA1Init chunks"
  let ?k = "(120 - length (?m @ [0x80]) mod 64) mod 64"
  let ?p = "(?m @ [0x80]) @ replicate ?k 0"
  let ?fc = "map (\<lambda>i. word_of_nat (8 * length ?m div 256 ^ (7 - i))) [0..<8] :: u8 list"
  have r0: "represents ?ctx ?m" using rep [OF represents_init, of chunks] assms by simp
  then have r1: "represents (SHA1Update ?ctx [0x80]) (?m @ [0x80])"
    by (rule represents_update) (use assms in simp_all)
  have r2: "represents (sha1_pad (SHA1Update ?ctx [0x80])) ?p"
    by (rule represents_pad [OF r1 _ refl]) (use assms mod_less_divisor [of 64 "120 - length (?m @ [0x80]) mod 64"] in simp)
  have r3: "represents (SHA1Update (sha1_pad (SHA1Update ?ctx [0x80])) ?fc) (?p @ ?fc)"
    by (rule represents_update [OF r2]) (use assms mod_less_divisor [of 64 "120 - length (?m @ [0x80]) mod 64"] in simp_all)
  have "(120 - (if Suc r = 64 then 0 else Suc r)) mod 64 = (119 - r) mod 64" if "r < 64" for r :: nat
    using that by (auto simp: nat_mod_wrap)
  from this [of "length ?m mod 64"] have "?k = (119 - length ?m mod 64) mod 64"
    by (simp add: mod_Suc)
  then have pad: "?p @ ?fc = fips_pad ?m"
    by (simp add: fips_pad_def)
  have "unat (sha_count1 ?ctx) * 2 ^ 32 + unat (sha_count0 ?ctx) = 8 * length ?m"
    using r0 by (simp add: represents_def)
  note fc = length_bytes_bits [OF this]
  have "sha_state (SHA1Update (sha1_pad (SHA1Update ?ctx [0x80])) ?fc) = fips_blocks (sha_state SHA1Init) (fips_pad ?m)"
    using r3 pad by (simp add: represents_def)
  then show ?thesis
    unfolding SHA1Final_def Let_def fips_sha1_def fc
    using digest_bytes [OF length_fips_blocks] by (simp add: SHA1Init_def)
qed

text \<open>C11. For every way of cutting a message into calls of \<open>SHA1Update\<close> (each call below
  \<open>2^29\<close> bytes, the total within the 64-bit bit count), \<open>SHA1Final\<close> returns the FIPS 180 digest
  of the concatenated message: the buffering, the two-word count with its carry, the padding loop,
  the unrolled rounds and the byte order are all as the standard has them.\<close>

theorem sha1_streaming:
  assumes "\<forall>c \<in> set chunks. length c < 2 ^ 29" "length (concat chunks) + 128 < 2 ^ 61"
  shows "fst (SHA1Final (foldl SHA1Update SHA1Init chunks)) = fips_sha1 (concat chunks)"
  using assms by (rule sha1_stream)

theorem sha1_streaming_witness:
  "fst (SHA1Final (foldl SHA1Update SHA1Init [[97], [98, 99]])) = fips_sha1 [97, 98, 99]"
  using sha1_streaming [of "[[97], [98, 99]]"] by simp

end
