(* ===== verification/Uuid.thy ===== *)
theory Uuid
  imports Sha1_Stream
begin

text \<open>
  \<open>uuid.c\<close>: the name-based UUID of the file system.  \<open>struct uuid\<close> is laid out as the compiler
  does: \<open>time_low\<close> at 0, \<open>time_mid\<close> (declared \<open>u32\<close>) at 4, \<open>time_hi_and_version\<close> at 8,
  \<open>clk_seq_hi_res\<close> and \<open>clk_seq_low\<close> at 10 and 11, \<open>node0_1\<close> at 12, two bytes of padding,
  \<open>node2_5\<close> at 16: twenty bytes in all.  A C string is the list of its bytes without the
  terminating zero.
\<close>

definition sizeof_uuid :: nat where
  "sizeof_uuid = 20"

definition sha1_hash :: "u8 list \<Rightarrow> u8 list \<Rightarrow> u8 list" where
  "sha1_hash namespace name =
     (let ctx = SHA1Init;
          ctx = SHA1Update ctx namespace;
          ctx = SHA1Update ctx name
      in fst (SHA1Final ctx))"

text \<open>The bytes \<open>generate_uuid\<close> leaves at \<open>result\<close>: as many as \<open>memcpy\<close> is told to copy.\<close>

definition generate_uuid :: "u8 list \<Rightarrow> u8 list \<Rightarrow> u8 list" where
  "generate_uuid namespace name =
     (let uuid = take sizeof_uuid (sha1_hash namespace name);
          uuid = upd_u32 uuid 0 swap32;
          uuid = upd_u32 uuid 4 (\<lambda>x. ucast (swap16 (ucast x)));
          uuid = upd_u16 uuid 8 swap16;
          uuid = upd_u16 uuid 8 (\<lambda>x. x AND 0x0FFF);
          uuid = upd_u16 uuid 8 (\<lambda>x. x OR push_bit 12 5);
          uuid = upd_u8 uuid 10 (\<lambda>x. x AND NOT (push_bit 6 1));
          uuid = upd_u8 uuid 10 (\<lambda>x. x OR push_bit 7 1)
      in uuid)"

lemma sha1_hash_fips:
  assumes "length namespace < 2 ^ 29" "length name < 2 ^ 29"
  shows "sha1_hash namespace name = fips_sha1 (namespace @ name)"
  using sha1_stream [of "[namespace, name]"] assms by (simp add: sha1_hash_def Let_def)

lemma length_fips_sha1: "length (fips_sha1 m) = 20"
proof -
  have "length (concat (map be_bytes32 ws)) = 4 * length ws" for ws
    by (induction ws) simp_all
  then show ?thesis by (simp add: fips_sha1_def length_fips_blocks)
qed

definition uuid_of_hash :: "u8 list \<Rightarrow> u8 list" where
  "uuid_of_hash h = [h ! 3, h ! 2, h ! 1, h ! 0, h ! 5, h ! 4, 0, 0, h ! 9, (h ! 8 AND 0x0F) OR 0x50,
     (h ! 10 AND 0xBF) OR 0x80, h ! 11, h ! 12, h ! 13, h ! 14, h ! 15, h ! 16, h ! 17, h ! 18, h ! 19]"

lemma u16_halves:
  "(ucast (le_word32 [a, b, c, d]) :: u16) = le_word16 [a, b]"
  "le_bytes32 (ucast (w :: u16)) = le_bytes16 w @ [0, 0]"
  "le_word16 [a, b] AND 0x0FFF = le_word16 [a, b AND 0x0F]"
  "le_word16 [a, b] OR 0x5000 = le_word16 [a, b OR 0x50]"
proof -
  have m: "(0x0FFF :: u16) = mask 12" "(0x0F :: u8) = mask 4" "(0x50 :: u8) = push_bit 4 5"
    by (simp_all add: mask_eq_decr_exp)
  show "(ucast (le_word32 [a, b, c, d]) :: u16) = le_word16 [a, b]"
    by (rule bit_word_eqI) (auto simp: le_word32_def le_word16_def bit_simps)
  show "le_bytes32 (ucast w) = le_bytes16 w @ [0, 0]"
    by (auto simp: le_bytes32_def le_bytes16_def bit_simps intro!: bit_word_eqI dest: bit_imp_le_length)
  show "le_word16 [a, b] AND 0x0FFF = le_word16 [a, b AND 0x0F]"
    unfolding m by (rule bit_word_eqI) (auto simp: le_word16_def bit_simps)
  have i: "(20480 :: int) = push_bit 12 1 OR push_bit 14 1" "(80 :: int) = push_bit 4 1 OR push_bit 6 1"
    by simp_all
  have b: "bit (20480 :: int) n \<longleftrightarrow> n = 12 \<or> n = 14" "bit (80 :: int) n \<longleftrightarrow> n = 4 \<or> n = 6" for n
    by (simp_all only: i bit_or_iff bit_push_bit_iff bit_1_iff) auto
  show "le_word16 [a, b] OR 0x5000 = le_word16 [a, b OR 0x50]"
    by (rule bit_word_eqI) (auto simp: le_word16_def bit_simps b)
qed

lemma upd_append:
  "length a = 4 \<Longrightarrow> upd_u32 (xs @ a @ ys) (length xs) f = xs @ le_bytes32 (f (le_word32 a)) @ ys"
  "length c = 2 \<Longrightarrow> upd_u16 (xs @ c @ ys) (length xs) g = xs @ le_bytes16 (g (le_word16 c)) @ ys"
  "upd_u8 (xs @ d # ys) (length xs) h = xs @ h d # ys"
  by (simp_all add: upd_u32_def put_u32_def get_u32_def upd_u16_def put_u16_def get_u16_def upd_u8_def
      put_u8_def put_bytes_def get_bytes_def)

lemma generate_uuid_of_hash:
  assumes "sha1_hash namespace name = h" "length h = 20"
  shows "generate_uuid namespace name = uuid_of_hash h"
proof -
  obtain h0 h1 h2 h3 h4 h5 h6 h7 h8 h9 h10 ys where h:
    "h = [h0, h1, h2, h3] @ [h4, h5, h6, h7] @ [h8, h9] @ h10 # ys" and ys: "length ys = 9"
    using assms(2) by (auto simp: length_Suc_conv eval_nat_numeral)
  have sw: "le_bytes32 (swap32 (le_word32 [a, b, c, d])) = [d, c, b, a]"
    "swap16 (le_word16 [a, b]) = le_word16 [b, a]" for a b c d
    by (simp_all add: le_bytes_swap le_bytes32_word swap16_def le_bytes16_word)
  have mid: "le_bytes32 (ucast (swap16 (ucast (le_word32 [h4, h5, h6, h7])))) = [h5, h4, 0, 0]"
    by (simp add: u16_halves sw le_bytes16_word)
  define a where "a = [h3, h2, h1, h0] @ [h5, h4, 0, 0]"
  have la: "length a = 8" by (simp add: a_def)
  have s1: "upd_u32 h 0 swap32 = [h3, h2, h1, h0] @ [h4, h5, h6, h7] @ [h8, h9] @ h10 # ys"
    using upd_append(1) [of "[h0, h1, h2, h3]" "[]" "[h4, h5, h6, h7] @ [h8, h9] @ h10 # ys" swap32]
    unfolding h by (simp add: sw)
  have s2: "upd_u32 ([h3, h2, h1, h0] @ [h4, h5, h6, h7] @ [h8, h9] @ h10 # ys) 4
      (\<lambda>x. ucast (swap16 (ucast x))) = a @ [h8, h9] @ h10 # ys"
    using upd_append(1) [of "[h4, h5, h6, h7]" "[h3, h2, h1, h0]" "[h8, h9] @ h10 # ys"
        "\<lambda>x. ucast (swap16 (ucast x))"]
    by (simp add: mid a_def numeral_eq_Suc)
  have s3: "upd_u16 (a @ [x, y] @ zs) 8 f = a @ le_bytes16 (f (le_word16 [x, y])) @ zs" for x y zs f
    using upd_append(2) [of "[x, y]" a zs f] la by simp
  have s3': "upd_u16 (a @ x # y # zs) 8 f = a @ le_bytes16 (f (le_word16 [x, y])) @ zs" for x y zs f
    using s3 [of x y zs f] by simp
  have s4: "upd_u8 (a @ x # y # z # zs) 10 f = a @ x # y # f z # zs" for x y z zs f
    using upd_append(3) [of "a @ [x, y]" z zs f] la by simp
  have m: "(- 65 :: u8) = 0xBF" by simp
  have t: "take 20 h = h" using assms(2) by simp
  obtain y0 y1 y2 y3 y4 y5 y6 y7 y8 where ys': "ys = [y0, y1, y2, y3, y4, y5, y6, y7, y8]"
    using ys by (auto simp: length_Suc_conv eval_nat_numeral)
  have "generate_uuid namespace name = a @ [h9, (h8 AND 0x0F) OR 0x50, (h10 AND 0xBF) OR 0x80] @ ys"
    unfolding generate_uuid_def assms(1) sizeof_uuid_def Let_def t s1 s2
    by (simp add: s3' s4 sw u16_halves le_bytes16_word m)
  then show ?thesis unfolding uuid_of_hash_def h a_def ys' by simp
qed

text \<open> The UUID \<open>generate_uuid\<close> leaves at \<open>result\<close> is, byte for byte, a function of the SHA-1
  digest \<open>h\<close> of the namespace followed by the name.  It is not the RFC 4122 layout: because
  \<open>time_mid\<close> is declared \<open>u32\<close>, twenty bytes are written to a \<open>u8 result[16]\<close> parameter, the
  version nibble 5 is put in byte 9, the variant bits in byte 10, and bytes 6 and 7, where a
  UUID has its version, are always zero.\<close>
theorem generate_uuid_layout:
  assumes "length namespace < 2 ^ 29" and "length name < 2 ^ 29"
    and h: "h = fips_sha1 (namespace @ name)"
  shows "generate_uuid namespace name =
     [h ! 3, h ! 2, h ! 1, h ! 0, h ! 5, h ! 4, 0, 0, h ! 9, (h ! 8 AND 0x0F) OR 0x50,
      (h ! 10 AND 0xBF) OR 0x80, h ! 11, h ! 12, h ! 13, h ! 14, h ! 15, h ! 16, h ! 17, h ! 18, h ! 19]"
  using generate_uuid_of_hash [OF sha1_hash_fips [OF assms(1,2)] length_fips_sha1]
  unfolding uuid_of_hash_def h .

theorem generate_uuid_layout_witness:
  "length (generate_uuid [101, 120, 116] [97]) = 20 \<and> generate_uuid [101, 120, 116] [97] ! 6 = 0"
  using generate_uuid_layout [of "[101, 120, 116]" "[97]", OF _ _ refl] by simp

end
