(* ===== verification/Superblock.thy ===== *)
theory Superblock
  imports Contents Uuid
begin

text \<open>
  The superblock, the group descriptors and the reserved inodes (\<open>ext4_utils.c\<close>).  The fields of
  \<open>struct ext4_super_block\<close> (\<open>ext4.h\<close>), \<open>struct ext2_group_desc\<close> (\<open>ext4_utils.h\<close>) and
  \<open>journal_superblock_t\<close> (\<open>jbd2.h\<close>) are written at their offsets.
\<close>

datatype field = F8 nat u8 | F16 nat u16 | F32 nat u32 | F64 nat u64

definition store_field :: "ptr \<Rightarrow> field \<Rightarrow> unit wprog" where
  "store_field p f = (case f of
     F8 off w \<Rightarrow> store_u8 (ptr_add p off) w
   | F16 off w \<Rightarrow> store_u16 (ptr_add p off) w
   | F32 off w \<Rightarrow> store_u32 (ptr_add p off) w
   | F64 off w \<Rightarrow> sq (store_u32 (ptr_add p off) (ucast w)) (store_u32 (ptr_add p (off + 4)) (ucast (drop_bit 32 w))))"

definition EXT4_FEATURE_COMPAT_HAS_JOURNAL :: u16 where "EXT4_FEATURE_COMPAT_HAS_JOURNAL = 0x0004"
definition EXT4_FEATURE_COMPAT_RESIZE_INODE :: u16 where "EXT4_FEATURE_COMPAT_RESIZE_INODE = 0x0010"
definition EXT4_FEATURE_RO_COMPAT_LARGE_FILE :: u16 where "EXT4_FEATURE_RO_COMPAT_LARGE_FILE = 0x0002"
definition EXT4_FEATURE_INCOMPAT_FILETYPE :: u16 where "EXT4_FEATURE_INCOMPAT_FILETYPE = 0x0002"
definition EXT4_FEATURE_INCOMPAT_EXTENTS :: u16 where "EXT4_FEATURE_INCOMPAT_EXTENTS = 0x0040"

definition sizeof_inode :: nat where "sizeof_inode = 156"
definition off_s_free_blocks_count_lo :: nat where "off_s_free_blocks_count_lo = 12"
definition off_s_free_inodes_count :: nat where "off_s_free_inodes_count = 16"
definition off_s_blocks_per_group :: nat where "off_s_blocks_per_group = 32"
definition off_s_inodes_per_group :: nat where "off_s_inodes_per_group = 40"
definition off_s_uuid :: nat where "off_s_uuid = 104"
definition off_s_volume_name :: nat where "off_s_volume_name = 120"
definition off_s_last_mounted :: nat where "off_s_last_mounted = 136"
definition off_s_jnl_blocks :: nat where "off_s_jnl_blocks = 268"

text \<open>The assignments of \<open>ext4_fill_in_sb\<close> before and after the UUID and the strings.\<close>

definition sb_fields_1 :: "fs_info \<Rightarrow> fs_aux_info \<Rightarrow> field list" where
  "sb_fields_1 info aux =
    [F32 0 (info_inodes_per_group info * aux_groups aux), F32 4 (ucast (aux_len_blocks aux)), F32 8 0,
     F32 12 0, F32 16 0, F32 20 (aux_first_data_block aux),
     F32 24 (of_int (log_2 (uint (info_block_size info div 1024)))),
     F32 28 (of_int (log_2 (uint (info_block_size info div 1024)))),
     F32 32 (info_blocks_per_group info), F32 36 (info_blocks_per_group info),
     F32 40 (info_inodes_per_group info), F32 44 0, F32 48 0, F16 52 0, F16 54 0xFFFF, F16 56 0xEF53,
     F16 58 1, F16 60 2, F16 62 0, F32 64 0, F32 68 0, F32 72 0, F32 76 1, F16 80 0, F16 82 0,
     F32 84 11, F16 88 (ucast (info_inode_size info)), F16 90 0,
     F32 92 (ucast (info_feat_compat info)), F32 96 (ucast (info_feat_incompat info)),
     F32 100 (ucast (info_feat_ro_compat info))]"

definition sb_fields_2 :: "fs_info \<Rightarrow> fs_aux_info \<Rightarrow> field list" where
  "sb_fields_2 info aux =
    [F32 200 0, F16 206 (ucast (aux_bg_desc_reserve_blocks aux)), F8 204 0, F8 205 0] @
    (if info_feat_compat info AND EXT4_FEATURE_COMPAT_HAS_JOURNAL \<noteq> 0 then [F32 224 EXT4_JOURNAL_INO] else []) @
    [F32 228 0, F32 232 0, F32 236 0, F8 252 2, F8 253 1, F16 254 (ucast sizeof_group_desc), F32 256 0,
     F32 260 0, F32 264 0, F32 336 (ucast (drop_bit 32 (aux_len_blocks aux))), F32 340 0, F32 344 0,
     F16 348 (of_nat sizeof_inode - 128), F16 350 (of_nat sizeof_inode - 128), F32 352 0, F16 356 0,
     F16 358 0, F64 360 0, F32 368 0, F8 372 0, F64 376 0]"

text \<open>\<open>strncpy(dst, src, n)\<close>: at most \<open>n\<close> bytes, filled up with zeros.\<close>

definition strncpy_bytes :: "u8 list \<Rightarrow> nat \<Rightarrow> u8 list" where
  "strncpy_bytes src n = take n (src @ replicate n 0)"

definition uuid_namespace :: "u8 list" where
  "uuid_namespace = map of_char ''extandroid/make_ext4fs''"

definition group_desc_ptr :: "fs_aux_info \<Rightarrow> u32 \<Rightarrow> ptr" where
  "group_desc_ptr aux i = ptr_add (aux_bg_desc aux) (32 * unat i)"

definition fill_in_group :: "u32 \<Rightarrow> unit wprog" where
  "fill_in_group i =
     bind (gets w_info) (\<lambda>info. bind (gets w_aux) (\<lambda>aux.
     let group_start_block = (ucast (aux_first_data_block aux + i * info_blocks_per_group info) :: u64);
         super = ext4_bg_has_super_block info i;
         header_size = (if super then 1 + aux_bg_desc_blocks aux + aux_bg_desc_reserve_blocks aux else 0);
         desc = group_desc_ptr aux i
     in sq (only_if (super \<and> i \<noteq> 0)
              (sq (queue_data_block (aux_sb aux) (info_block_size info) (ucast group_start_block))
                  (queue_data_block (aux_bg_desc aux) (aux_bg_desc_blocks aux * info_block_size info)
                     (ucast (group_start_block + 1)))))
        (sq (store_u32 desc (ucast (group_start_block + ucast header_size)))
        (sq (store_u32 (ptr_add desc 4) (ucast (group_start_block + ucast header_size + 1)))
        (sq (store_u32 (ptr_add desc 8) (ucast (group_start_block + ucast header_size + 2)))
        (bind (load_u32 (ptr_add (aux_sb aux) off_s_blocks_per_group)) (\<lambda>blocks_per_group.
         sq (store_u16 (ptr_add desc 12) (ucast blocks_per_group))
         (bind (load_u32 (ptr_add (aux_sb aux) off_s_inodes_per_group)) (\<lambda>inodes_per_group.
          sq (store_u16 (ptr_add desc 14) (ucast inodes_per_group))
          (store_u16 (ptr_add desc 16) 0)))))))))) "

definition ext4_fill_in_sb :: "unit wprog" where
  "ext4_fill_in_sb =
     bind (gets w_info) (\<lambda>info. bind (gets w_aux) (\<lambda>aux.
     let sb = aux_sb aux in
     sq (for_all (sb_fields_1 info aux) (store_field sb))
     (bind (from_option (info_label info)) (\<lambda>label.
     sq (store (ptr_add sb off_s_uuid) (generate_uuid uuid_namespace label))
     (sq (store (ptr_add sb off_s_volume_name) (replicate 16 0))
     (sq (store (ptr_add sb off_s_volume_name) (strncpy_bytes label 16))
     (sq (store (ptr_add sb off_s_last_mounted) (replicate 64 0))
     (sq (for_all (sb_fields_2 info aux) (store_field sb))
     (for_all (upto_u32 (aux_groups aux)) fill_in_group)))))))))"

section \<open>The resize and journal inodes\<close>

definition reserve_regions :: "block_allocation \<Rightarrow> block_allocation wprog" where
  "reserve_regions alloc =
     bind (gets w_info) (\<lambda>info. bind (gets w_aux) (\<lambda>aux.
     bind (for_each (upto_u32 (aux_groups aux)) (\<lambda>i alloc.
       if ext4_bg_has_super_block info i
       then let group_start_block = (ucast (aux_first_data_block aux + i * info_blocks_per_group info) :: u64);
                reserved_block_start = ucast (group_start_block + 1 + ucast (aux_bg_desc_blocks aux))
            in bind (append_region alloc reserved_block_start (aux_bg_desc_reserve_blocks aux) i) (\<lambda>alloc.
               ret (Inr alloc))
       else ret (Inr alloc)) alloc)
     (\<lambda>r. case r of Inl a \<Rightarrow> ret a | Inr a \<Rightarrow> ret a)))"

definition ext4_create_resize_inode :: "unit wprog" where
  "ext4_create_resize_inode =
     bind (get_inode EXT4_RESIZE_INO) (\<lambda>inode.
     bind (reserve_regions create_allocation) (\<lambda>alloc.
     bind (inode_attach_resize inode alloc) (\<lambda>alloc.
     sq (store_u16 (ptr_add inode off_i_mode) (S_IFREG OR 0x100 OR 0x80))
     (sq (store_u16 (ptr_add inode off_i_links_count) 1)
     (free_alloc alloc)))))"

definition ext4_create_journal_inode :: "unit wprog" where
  "ext4_create_journal_inode =
     bind (get_inode EXT4_JOURNAL_INO) (\<lambda>inode.
     bind (gets w_info) (\<lambda>info.
     let bytes = ucast (info_journal_blocks info * info_block_size info) in
     bind (inode_allocate_data_extents inode bytes bytes) (\<lambda>r. case r of
       None \<Rightarrow> error
     | Some jsb \<Rightarrow>
       sq (store_u16 (ptr_add inode off_i_mode) (S_IFREG OR 0x100 OR 0x80))
       (sq (store_u16 (ptr_add inode off_i_links_count) 1)
       (sq (store_u32 jsb (swap32 0xc03b3998))
       (sq (store_u32 (ptr_add jsb 4) (swap32 4))
       (sq (store_u32 (ptr_add jsb 12) (swap32 (info_block_size info)))
       (sq (store_u32 (ptr_add jsb 16) (swap32 (info_journal_blocks info)))
       (sq (store_u32 (ptr_add jsb 64) (swap32 1))
       (sq (store_u32 (ptr_add jsb 20) (swap32 1))
       (sq (store_u32 (ptr_add jsb 24) (swap32 1))
       (bind (gets (\<lambda>s. aux_sb (w_aux s))) (\<lambda>sb.
        bind (load (i_block_ptr inode 0) 60) (\<lambda>blocks.
        store (ptr_add sb off_s_jnl_blocks) blocks))))))))))))))"

definition update_free_group :: "u32 \<Rightarrow> unit wprog" where
  "update_free_group i =
     bind (gets w_aux) (\<lambda>aux.
     bind (get_free_blocks i) (\<lambda>bg_free_blocks.
     bind (get_free_inodes i) (\<lambda>bg_free_inodes.
     sq (store_u16 (ptr_add (group_desc_ptr aux i) 12) (ucast bg_free_blocks))
     (sq (modify_u32 (ptr_add (aux_sb aux) off_s_free_blocks_count_lo) (\<lambda>x. x + bg_free_blocks))
     (sq (store_u16 (ptr_add (group_desc_ptr aux i) 14) (ucast bg_free_inodes))
     (sq (modify_u32 (ptr_add (aux_sb aux) off_s_free_inodes_count) (\<lambda>x. x + bg_free_inodes))
     (bind (get_directories i) (\<lambda>dirs.
      modify_u16 (ptr_add (group_desc_ptr aux i) 16) (\<lambda>x. x + dirs)))))))))"

definition ext4_update_free :: "unit wprog" where
  "ext4_update_free = bind (gets (\<lambda>s. aux_groups (w_aux s))) (\<lambda>groups. for_all (upto_u32 groups) update_free_group)"

end
