(* ===== verification/Output_File.thy ===== *)
theory Output_File
  imports Backed_Block Crc32
begin

text \<open>
  \<open>output_file.c\<close>: writing the image, raw or in the sparse format, to a file or a gzip stream.
  The device under a file descriptor is its bytes, the file position and a capacity: \<open>write\<close>
  stores what still fits and fails when nothing does.  A gzip stream is its uncompressed bytes;
  \<open>gzseek\<close> on a stream being written only moves forward.  \<open>zero_buf\<close> holds \<open>block_size\<close> zeros
  from \<open>open_output_file\<close> on.
\<close>

section \<open>Files\<close>

definition file_put :: "u8 list \<Rightarrow> nat \<Rightarrow> u8 list \<Rightarrow> u8 list" where
  "file_put old pos new =
     take pos old @ replicate (pos - length old) 0 @ new @ drop (pos + length new) old"

definition sys_write :: "u8 list \<Rightarrow> output_file \<Rightarrow> int \<times> output_file" where
  "sys_write data out =
     (let n = min (length data) (out_capacity out - out_pos out)
      in if data \<noteq> [] \<and> n = 0 then (- 1, out)
         else (int n, out\<lparr>out_bytes := (if n = 0 then out_bytes out
                           else file_put (out_bytes out) (out_pos out) (take n data)),
                         out_pos := out_pos out + n\<rparr>))"

definition sys_lseek64 :: "u64 \<Rightarrow> output_file \<Rightarrow> int \<times> output_file" where
  "sys_lseek64 off out = (if sint off < 0 then (- 1, out) else (sint off, out\<lparr>out_pos := unat off\<rparr>))"

definition sys_gzseek :: "u64 \<Rightarrow> output_file \<Rightarrow> int \<times> output_file" where
  "sys_gzseek off out =
     (if sint off < int (out_pos out) then (- 1, out)
      else (sint off, out\<lparr>out_bytes := out_bytes out @ replicate (unat off - length (out_bytes out)) 0,
                          out_pos := unat off\<rparr>))"

section \<open>The two sets of operations\<close>

text \<open>\<open>file_seek\<close> and \<open>gz_file_seek\<close>, \<open>file_write\<close> and \<open>gz_file_write\<close> handle the results of
  their library calls alike.\<close>

definition seek_with :: "(u64 \<Rightarrow> output_file \<Rightarrow> int \<times> output_file) \<Rightarrow> u64 \<Rightarrow> int wprog" where
  "seek_with sys off =
     bind (gets w_out) (\<lambda>out. case sys off out of (r, out') \<Rightarrow>
     if r < 0 then sq error (ret (- 1))
     else sq (modify (\<lambda>s. s\<lparr>w_out := out'\<rparr>)) (ret 0))"

definition write_with :: "(u8 list \<Rightarrow> output_file \<Rightarrow> int \<times> output_file) \<Rightarrow> u8 list \<Rightarrow> int wprog" where
  "write_with sys data =
     bind (gets w_out) (\<lambda>out. case sys data out of (r, out') \<Rightarrow>
     sq (modify (\<lambda>s. s\<lparr>w_out := out'\<rparr>))
     (if r < 0 then sq error (ret (- 1))
      else if r < int (length data) then sq error (ret (- 1))
      else ret 0))"

definition file_seek :: "u64 \<Rightarrow> int wprog" where "file_seek = seek_with sys_lseek64"
definition file_write :: "u8 list \<Rightarrow> int wprog" where "file_write = write_with sys_write"
definition gz_file_seek :: "u64 \<Rightarrow> int wprog" where "gz_file_seek = seek_with sys_gzseek"
definition gz_file_write :: "u8 list \<Rightarrow> int wprog" where "gz_file_write = write_with sys_write"

definition file_close :: "unit wprog" where
  "file_close = modify (\<lambda>s. s\<lparr>w_out := (w_out s)\<lparr>out_closed := True\<rparr>\<rparr>)"

definition ops_seek :: "u64 \<Rightarrow> int wprog" where
  "ops_seek off = bind (gets (\<lambda>s. out_gz (w_out s))) (\<lambda>gz. if gz then gz_file_seek off else file_seek off)"

definition ops_write :: "u8 list \<Rightarrow> int wprog" where
  "ops_write data = bind (gets (\<lambda>s. out_gz (w_out s))) (\<lambda>gz. if gz then gz_file_write data else file_write data)"

section \<open>The sparse format\<close>

definition SPARSE_HEADER_MAGIC :: u32 where "SPARSE_HEADER_MAGIC = 0xed26ff3a"
definition CHUNK_TYPE_RAW :: u16 where "CHUNK_TYPE_RAW = 0xCAC1"
definition CHUNK_TYPE_FILL :: u16 where "CHUNK_TYPE_FILL = 0xCAC2"
definition CHUNK_TYPE_DONT_CARE :: u16 where "CHUNK_TYPE_DONT_CARE = 0xCAC3"
definition SPARSE_HEADER_LEN :: nat where "SPARSE_HEADER_LEN = 28"
definition CHUNK_HEADER_LEN :: nat where "CHUNK_HEADER_LEN = 12"

definition sparse_header_init :: sparse_header where
  "sparse_header_init = \<lparr>sh_magic = SPARSE_HEADER_MAGIC, sh_major_version = 1, sh_minor_version = 0,
     sh_file_hdr_sz = of_nat SPARSE_HEADER_LEN, sh_chunk_hdr_sz = of_nat CHUNK_HEADER_LEN, sh_blk_sz = 0,
     sh_total_blks = 0, sh_total_chunks = 0, sh_image_checksum = 0\<rparr>"

definition sparse_header_bytes :: "sparse_header \<Rightarrow> u8 list" where
  "sparse_header_bytes h =
     le_bytes32 (sh_magic h) @ le_bytes16 (sh_major_version h) @ le_bytes16 (sh_minor_version h) @
     le_bytes16 (sh_file_hdr_sz h) @ le_bytes16 (sh_chunk_hdr_sz h) @ le_bytes32 (sh_blk_sz h) @
     le_bytes32 (sh_total_blks h) @ le_bytes32 (sh_total_chunks h) @ le_bytes32 (sh_image_checksum h)"

definition chunk_header_bytes :: "u16 \<Rightarrow> u32 \<Rightarrow> u32 \<Rightarrow> u8 list" where
  "chunk_header_bytes chunk_type chunk_sz total_sz =
     le_bytes16 chunk_type @ le_bytes16 0 @ le_bytes32 chunk_sz @ le_bytes32 total_sz"

text \<open>The checksum of the skipped zeros, a block at a time.\<close>

function crc_zeros :: "u32 \<Rightarrow> nat \<Rightarrow> nat \<Rightarrow> u32" where
  "crc_zeros crc block_size skip_len =
     (if skip_len = 0 \<or> block_size = 0 then crc
      else let chunk = (if block_size < skip_len then block_size else skip_len)
           in crc_zeros (sparse_crc32 crc (replicate chunk 0)) block_size (skip_len - chunk))"
  by auto
termination
  by (relation "measure (\<lambda>(crc, bs, n). n)") auto

declare crc_zeros.simps [simp del]

definition upd_out :: "(output_file \<Rightarrow> output_file) \<Rightarrow> unit wprog" where
  "upd_out f = modify (\<lambda>s. s\<lparr>w_out := f (w_out s)\<rparr>)"

definition emit_skip_chunk :: "u64 \<Rightarrow> int wprog" where
  "emit_skip_chunk skip_len =
     bind (gets (\<lambda>s. info_block_size (w_info s))) (\<lambda>block_size.
     sq (guard (\<lambda>_. block_size \<noteq> 0))
     (if skip_len mod ucast block_size \<noteq> 0 then sq error (ret (- 1))
      else bind (ops_write (chunk_header_bytes CHUNK_TYPE_DONT_CARE (ucast (skip_len div ucast block_size))
                   (of_nat CHUNK_HEADER_LEN))) (\<lambda>r.
        if r < 0 then ret (- 1)
        else sq (upd_out (\<lambda>out. out\<lparr>out_cur_out_ptr := out_cur_out_ptr out + skip_len,
                                     out_chunk_cnt := out_chunk_cnt out + 1\<rparr>))
             (sq (upd_out (\<lambda>out. out\<lparr>out_crc32 := crc_zeros (out_crc32 out) (unat block_size) (unat skip_len)\<rparr>))
             (ret 0)))))"

definition write_chunk_raw :: "u64 \<Rightarrow> u8 list \<Rightarrow> int wprog" where
  "write_chunk_raw off data =
     bind (gets (\<lambda>s. info_block_size (w_info s))) (\<lambda>block_size.
     bind (gets (\<lambda>s. out_cur_out_ptr (w_out s))) (\<lambda>cur.
     if off < cur then sq error (ret (- 1))
     else sq (if cur < off then bind (emit_skip_chunk (off - cur)) (\<lambda>_. ret ()) else ret ())
       (sq (guard (\<lambda>_. block_size \<noteq> 0))
       (if off mod ucast block_size \<noteq> 0 then sq error (ret (- 1))
        else bind (gets (\<lambda>s. out_cur_out_ptr (w_out s))) (\<lambda>cur.
          if off \<noteq> cur then sq error (ret (- 1))
          else let len = of_nat (length data);
                   rnd_up_len = (len + (block_size - 1)) AND NOT (block_size - 1);
                   zero_len = rnd_up_len - len
               in bind (ops_write (chunk_header_bytes CHUNK_TYPE_RAW (rnd_up_len div block_size)
                     (of_nat CHUNK_HEADER_LEN + rnd_up_len))) (\<lambda>r.
                  if r < 0 then ret (- 1)
                  else bind (ops_write data) (\<lambda>r.
                  if r < 0 then ret (- 1)
                  else sq (guard (\<lambda>_. zero_len \<le> block_size))
                    (bind (if zero_len \<noteq> 0 then ops_write (replicate (unat zero_len) 0) else ret 0) (\<lambda>r.
                     if r < 0 then ret (- 1)
                     else sq (upd_out (\<lambda>out. out\<lparr>out_crc32 := sparse_crc32 (out_crc32 out) data\<rparr>))
                       (sq (only_if (zero_len \<noteq> 0) (upd_out (\<lambda>out.
                              out\<lparr>out_crc32 := sparse_crc32 (out_crc32 out) (replicate (unat zero_len) 0)\<rparr>)))
                       (sq (upd_out (\<lambda>out. out\<lparr>out_cur_out_ptr := out_cur_out_ptr out + scast rnd_up_len,
                              out_chunk_cnt := out_chunk_cnt out + 1\<rparr>))
                       (ret 0))))))))))))"

section \<open>Opening and closing\<close>

definition upd_sparse_header :: "(sparse_header \<Rightarrow> sparse_header) \<Rightarrow> unit wprog" where
  "upd_sparse_header f = modify (\<lambda>s. s\<lparr>w_sparse_header := f (w_sparse_header s)\<rparr>)"

definition close_output_file :: "unit wprog" where
  "close_output_file =
     bind (gets w_out) (\<lambda>out.
     sq (only_if (out_sparse out)
          (sq (upd_sparse_header (\<lambda>h. h\<lparr>sh_total_chunks := out_chunk_cnt out, sh_image_checksum := out_crc32 out\<rparr>))
          (bind (ops_seek 0) (\<lambda>r.
           sq (only_if (r < 0) error)
           (bind (gets w_sparse_header) (\<lambda>h.
            bind (ops_write (sparse_header_bytes h)) (\<lambda>r.
            only_if (r < 0) error)))))))
     file_close)"

text \<open>\<open>open_output_file\<close>; \<open>dev\<close> is what \<open>open\<close> gives: nothing, or a truncated file that can hold so
  many bytes.\<close>

definition open_output_file :: "nat option \<Rightarrow> bool \<Rightarrow> bool \<Rightarrow> bool wprog" where
  "open_output_file dev gz sparse = (case dev of
     None \<Rightarrow> sq error (ret False)
   | Some capacity \<Rightarrow>
     sq (upd_out (\<lambda>_. \<lparr>out_bytes = [], out_pos = 0, out_capacity = capacity, out_gz = gz, out_sparse = sparse,
           out_cur_out_ptr = 0, out_chunk_cnt = 0, out_crc32 = 0, out_closed = False\<rparr>))
     (if sparse
      then bind (gets w_info) (\<lambda>info.
        sq (guard (\<lambda>_. info_block_size info \<noteq> 0))
        (sq (upd_sparse_header (\<lambda>h. h\<lparr>sh_blk_sz := info_block_size info,
               sh_total_blks := ucast (info_len info div ucast (info_block_size info))\<rparr>))
        (bind (gets w_sparse_header) (\<lambda>h.
         bind (ops_write (sparse_header_bytes h)) (\<lambda>r. ret (0 \<le> r))))))
      else ret True))"

definition pad_output_file :: "u64 \<Rightarrow> unit wprog" where
  "pad_output_file len =
     bind (gets (\<lambda>s. info_len (w_info s))) (\<lambda>total. bind (gets w_out) (\<lambda>out.
     if total < len then error
     else if out_sparse out
     then if len < out_cur_out_ptr out then error
       else if out_cur_out_ptr out < len
       then bind (emit_skip_chunk (len - out_cur_out_ptr out)) (\<lambda>_. ret ())
       else ret ()
     else bind (ops_seek (len - 1)) (\<lambda>r.
       if r < 0 then ret () else bind (ops_write [0]) (\<lambda>_. ret ()))))"

section \<open>Writing data\<close>

definition write_data_bytes :: "u64 \<Rightarrow> u8 list \<Rightarrow> unit wprog" where
  "write_data_bytes off data =
     bind (gets (\<lambda>s. out_sparse (w_out s))) (\<lambda>sparse.
     if sparse then bind (write_chunk_raw off data) (\<lambda>_. ret ())
     else bind (ops_seek off) (\<lambda>r.
       if r < 0 then ret () else bind (ops_write data) (\<lambda>_. ret ())))"

definition write_data_block :: "u64 \<Rightarrow> ptr \<Rightarrow> u32 \<Rightarrow> unit wprog" where
  "write_data_block off data len =
     bind (gets (\<lambda>s. info_len (w_info s))) (\<lambda>total.
     if total < off + scast len then error
     else bind (load data (unat len)) (write_data_bytes off))"

text \<open>\<open>mmap\<close> of a host file: it refuses an empty or unaligned piece; past the last page of the file
  an access is an error, and within it the bytes after the end read as zero.\<close>

datatype mapping = Map_Failed | Map_Short | Mapped "u8 list"

definition sys_mmap :: "u8 list \<Rightarrow> nat \<Rightarrow> nat \<Rightarrow> mapping" where
  "sys_mmap content offset len =
     (if len = 0 \<or> offset mod 4096 \<noteq> 0 then Map_Failed
      else if 4096 * ((length content + 4095) div 4096) < offset + len then Map_Short
      else let bs = take len (drop offset content) in Mapped (bs @ replicate (len - length bs) 0))"

definition write_data_file :: "(u8 list \<Rightarrow> u8 list option) \<Rightarrow> u64 \<Rightarrow> u8 list \<Rightarrow> u64 \<Rightarrow> u32 \<Rightarrow> unit wprog" where
  "write_data_file files off file offset len =
     bind (gets (\<lambda>s. info_len (w_info s))) (\<lambda>total.
     if total \<le> off + scast len then error
     else case files file of
       None \<Rightarrow> error
     | Some content \<Rightarrow> (case sys_mmap content (unat offset) (unat len) of
         Map_Failed \<Rightarrow> error
       | Map_Short \<Rightarrow> fail Undefined
       | Mapped data \<Rightarrow> write_data_bytes off data))"

end
