(* ===== verification/Image.thy ===== *)
theory Image
  imports Superblock Output_File
begin

text \<open>
  Writing the whole image: \<open>write_ext4_image\<close> of \<open>ext4_utils.c\<close>.  The 4096-byte stack buffer for the
  first block is a buffer of the heap here.
\<close>

definition write_first_block :: "unit wprog" where
  "write_first_block =
     bind (gets w_info) (\<lambda>info. bind (gets (\<lambda>s. aux_sb (w_aux s))) (\<lambda>sb.
     if info_block_size info > 1024
     then bind (calloc 4096) (\<lambda>b.
       bind (load sb 1024) (\<lambda>bytes.
       sq (store (ptr_add b 1024) bytes)
       (write_data_block 0 b (info_block_size info))))
     else write_data_block 1024 sb 1024))"

definition write_ext4_image :: "(u8 list \<Rightarrow> u8 list option) \<Rightarrow> nat option \<Rightarrow> bool \<Rightarrow> bool \<Rightarrow> unit wprog" where
  "write_ext4_image files dev gz sparse =
     bind (open_output_file dev gz sparse) (\<lambda>opened.
     if \<not> opened then ret ()
     else bind (gets w_info) (\<lambda>info. bind (gets w_aux) (\<lambda>aux.
       sq write_first_block
       (sq (write_data_block (ucast (aux_first_data_block aux + 1) * ucast (info_block_size info)) (aux_bg_desc aux)
              (aux_bg_desc_blocks aux * info_block_size info))
       (sq (for_each_data_block write_data_block (write_data_file files))
       (sq (pad_output_file (info_len info))
       close_output_file))))))"

end
