(* ===== verification/Make_Ext4fs.thy ===== *)
theory Make_Ext4fs
  imports Image "HOL-Library.List_Lexorder"
begin

text \<open>
  \<open>make_ext4fs.c\<close>: building the file system from a directory of the host, and the whole run.  The
  host's files are the record \<open>host\<close>: what \<open>readdir\<close>, \<open>lstat\<close>, \<open>readlink\<close>, \<open>stat\<close> and reading
  a file give.  \<open>alphasort\<close> compares as \<open>strcmp\<close> does (the program keeps the C locale).  The
  recursion of \<open>build_directory_structure\<close> has the depth of the directory tree as fuel.
\<close>

record file_stat =
  st_mode :: u32
  st_size :: u64
  st_mtime :: u32
  st_uid :: u32
  st_gid :: u32

record host =
  h_readdir :: "u8 list \<Rightarrow> u8 list list option"
  h_lstat :: "u8 list \<Rightarrow> file_stat option"
  h_readlink :: "u8 list \<Rightarrow> u8 list option"
  h_stat :: "u8 list \<Rightarrow> file_stat option"
  h_device_size :: "u8 list \<Rightarrow> u64 option"
  h_content :: "u8 list \<Rightarrow> u8 list option"
  h_open_output :: "u8 list \<Rightarrow> nat option"

definition S_IFMT :: u32 where "S_IFMT = 0xF000"

definition is_mode :: "u32 \<Rightarrow> u32 \<Rightarrow> bool" where
  "is_mode m t \<longleftrightarrow> m AND S_IFMT = t"

section \<open>Sizes of files (\<open>ext4_utils.c\<close>)\<close>

definition get_block_device_size :: "host \<Rightarrow> u8 list \<Rightarrow> u64" where
  "get_block_device_size h filename = (case h_device_size h filename of None \<Rightarrow> 0 | Some bytes \<Rightarrow> bytes)"

definition get_file_size :: "host \<Rightarrow> u8 list \<Rightarrow> u64" where
  "get_file_size h filename = (case h_stat h filename of
     None \<Rightarrow> 0
   | Some st \<Rightarrow>
       if is_mode (st_mode st) 0x8000 then st_size st
       else if is_mode (st_mode st) 0x6000 then get_block_device_size h filename
       else 0)"

section \<open>Directory trees\<close>

definition filter_dot :: "u8 list \<Rightarrow> bool" where
  "filter_dot name \<longleftrightarrow> name \<noteq> [46, 46] \<and> name \<noteq> [46]"

definition scandir :: "host \<Rightarrow> u8 list \<Rightarrow> u8 list list option" where
  "scandir h path = (case h_readdir h path of None \<Rightarrow> None | Some names \<Rightarrow> Some (sort (filter filter_dot names)))"

definition empty_dentry :: dentry where
  "empty_dentry = \<lparr>d_path = [], d_full_path = [], d_filename = [], d_link = [], d_size = 0, d_file_type = 0,
     d_mode = 0, d_uid = 0, d_gid = 0, d_inode = None, d_mtime = 0\<rparr>"

definition join_path :: "u8 list \<Rightarrow> u8 list \<Rightarrow> u8 list" where
  "join_path dir name = dir @ [47] @ name"

text \<open>The file type of an entry and, for a link, its target; \<open>None\<close> for an unknown type.\<close>

definition set_file_type :: "host \<Rightarrow> u32 \<Rightarrow> file_stat \<Rightarrow> dentry \<Rightarrow> dentry option" where
  "set_file_type h block_size st d =
     (let is = is_mode (st_mode st) in
      if is 0x8000 then Some (d\<lparr>d_file_type := EXT4_FT_REG_FILE\<rparr>)
      else if is 0x4000 then Some (d\<lparr>d_file_type := EXT4_FT_DIR\<rparr>)
      else if is 0x2000 then Some (d\<lparr>d_file_type := EXT4_FT_CHRDEV\<rparr>)
      else if is 0x6000 then Some (d\<lparr>d_file_type := EXT4_FT_BLKDEV\<rparr>)
      else if is 0x1000 then Some (d\<lparr>d_file_type := EXT4_FT_FIFO\<rparr>)
      else if is 0xC000 then Some (d\<lparr>d_file_type := EXT4_FT_SOCK\<rparr>)
      else if is 0xA000 then Some (d\<lparr>d_file_type := EXT4_FT_SYMLINK,
        d_link := (case h_readlink h (d_full_path d) of None \<Rightarrow> [] | Some l \<Rightarrow> take (unat (block_size - 1)) l)\<rparr>)
      else None)"

text \<open>The loop over the names.  After an entry that cannot be used (possible only with \<open>force\<close>) the
  code steps back to the name it has just freed: unless the entry was the last one, it reads freed
  memory.\<close>

fun read_entries :: "host \<Rightarrow> u8 list \<Rightarrow> u8 list \<Rightarrow> bool \<Rightarrow> u8 list list \<Rightarrow> u32 \<Rightarrow> (dentry list \<times> u32) wprog" where
  "read_entries h full_path dir_path android [] dirs = ret ([], dirs)"
| "read_entries h full_path dir_path android (name # names) dirs =
     bind (gets (\<lambda>s. info_block_size (w_info s))) (\<lambda>block_size.
     let d = empty_dentry\<lparr>d_filename := name, d_path := join_path dir_path name,
               d_full_path := join_path full_path name\<rparr>;
         give_up = sq error (if names = [] then ret ([], dirs) else fail Undefined)
     in case h_lstat h (d_full_path d) of
       None \<Rightarrow> give_up
     | Some st \<Rightarrow>
         let d = d\<lparr>d_size := st_size st, d_mode := ucast (st_mode st AND 0xFFF), d_mtime := st_mtime st\<rparr>;
             d = (if android then d\<lparr>d_mode := ucast (st_mode st), d_uid := ucast (st_uid st),
                    d_gid := ucast (st_gid st)\<rparr> else d)
         in case set_file_type h block_size st d of
           None \<Rightarrow> give_up
         | Some d \<Rightarrow>
             let dirs = (if d_file_type d = EXT4_FT_DIR then dirs + 1 else dirs) in
             bind (read_entries h full_path dir_path android names dirs) (\<lambda>(ds, dirs).
             ret (d # ds, dirs)))"

fun build_directory_structure :: "nat \<Rightarrow> host \<Rightarrow> u8 list \<Rightarrow> u8 list \<Rightarrow> u32 \<Rightarrow> bool \<Rightarrow> u32 wprog" where
  "build_directory_structure 0 h full_path dir_path dir_inode android = fail Diverge"
| "build_directory_structure (Suc depth) h full_path dir_path dir_inode android =
     (case scandir h full_path of
       None \<Rightarrow> sq error (ret EXT4_ALLOCATE_FAILED)
     | Some names \<Rightarrow>
       bind (read_entries h full_path dir_path android names 0) (\<lambda>(dentries, dirs).
       bind (make_directory dir_inode dentries dirs) (\<lambda>(inode, dentries).
       sq (for_all dentries (\<lambda>d.
         bind (if d_file_type d = EXT4_FT_REG_FILE then make_file (d_full_path d) (d_size d)
               else if d_file_type d = EXT4_FT_DIR
                 then build_directory_structure depth h (d_full_path d) (d_path d) inode android
               else if d_file_type d = EXT4_FT_SYMLINK then make_link (d_full_path d) (d_link d)
               else sq error (ret 0)) (\<lambda>entry_inode.
         bind (from_option (d_inode d)) (\<lambda>p.
         sq (store_u32 p entry_inode)
         (bind (inode_set_permissions entry_inode (d_mode d) (d_uid d) (d_gid d) (d_mtime d)) (\<lambda>r.
          only_if (r \<noteq> 0) error))))))
       (ret inode))))"

definition lost_and_found :: dentry where
  "lost_and_found = empty_dentry\<lparr>d_filename := map of_char ''lost+found'', d_file_type := EXT4_FT_DIR,
     d_mode := 0x1C0\<rparr>"

definition build_default_directory_structure :: "u32 wprog" where
  "build_default_directory_structure =
     bind (make_directory 0 [lost_and_found] 1) (\<lambda>(root_inode, dentries).
     bind (make_directory root_inode [] 0) (\<lambda>(inode, _).
     bind (from_option (d_inode (hd dentries))) (\<lambda>p.
     sq (store_u32 p inode)
     (bind (inode_set_permissions inode (d_mode (hd dentries)) (d_uid (hd dentries)) (d_gid (hd dentries))
              (d_mtime (hd dentries))) (\<lambda>_.
     ret root_inode)))))"

section \<open>The run\<close>

definition upd_info :: "(fs_info \<Rightarrow> fs_info) \<Rightarrow> unit wprog" where
  "upd_info f = modify (\<lambda>s. s\<lparr>w_info := f (w_info s)\<rparr>)"

definition info_zero :: fs_info where
  "info_zero = \<lparr>info_len = 0, info_block_size = 0, info_blocks_per_group = 0, info_inodes_per_group = 0,
     info_inode_size = 0, info_inodes = 0, info_journal_blocks = 0, info_feat_ro_compat = 0, info_feat_compat = 0,
     info_feat_incompat = 0, info_label = None, info_no_journal = 0\<rparr>"

definition aux_zero :: fs_aux_info where
  "aux_zero = \<lparr>aux_sb = (0, 0), aux_bg_desc = (0, 0), aux_first_data_block = 0, aux_len_blocks = 0,
     aux_inode_table_blocks = 0, aux_groups = 0, aux_bg_desc_blocks = 0, aux_bg_desc_reserve_blocks = 0,
     aux_default_i_flags = 0, aux_blocks_per_ind = 0, aux_blocks_per_dind = 0, aux_blocks_per_tind = 0\<rparr>"

definition reset_ext4fs_info :: "unit wprog" where
  "reset_ext4fs_info =
     sq (modify (\<lambda>s. s\<lparr>w_info := info_zero, w_aux := aux_zero\<rparr>)) free_data_blocks"

text \<open>The defaults \<open>make_ext4fs\<close> fills in, in the order of the code.\<close>

definition default_info_1 :: "fs_info \<Rightarrow> fs_info" where
  "default_info_1 info =
     (let info = (if info_block_size info = 0 then info\<lparr>info_block_size := compute_block_size\<rparr> else info);
          info = (if info_journal_blocks info = 0 then info\<lparr>info_journal_blocks := compute_journal_blocks info\<rparr>
            else info);
          info = (if info_no_journal info = 0 then info\<lparr>info_feat_compat := EXT4_FEATURE_COMPAT_HAS_JOURNAL\<rparr>
            else info\<lparr>info_journal_blocks := 0\<rparr>);
          info = (if info_blocks_per_group info = 0 then info\<lparr>info_blocks_per_group := compute_blocks_per_group info\<rparr>
            else info);
          info = (if info_inodes info = 0 then info\<lparr>info_inodes := compute_inodes info\<rparr> else info);
          info = (if info_inode_size info = 0 then info\<lparr>info_inode_size := 256\<rparr> else info)
      in if info_label info = None then info\<lparr>info_label := Some []\<rparr> else info)"

definition default_info_2 :: "fs_info \<Rightarrow> fs_info" where
  "default_info_2 info =
     (let info = info\<lparr>info_inodes_per_group := compute_inodes_per_group info\<rparr>;
          info = info\<lparr>info_feat_compat := info_feat_compat info OR EXT4_FEATURE_COMPAT_RESIZE_INODE\<rparr>;
          info = info\<lparr>info_feat_ro_compat := info_feat_ro_compat info OR
                   (EXT4_FEATURE_RO_COMPAT_SPARSE_SUPER OR EXT4_FEATURE_RO_COMPAT_LARGE_FILE)\<rparr>
      in info\<lparr>info_feat_incompat := info_feat_incompat info OR
                (EXT4_FEATURE_INCOMPAT_EXTENTS OR EXT4_FEATURE_INCOMPAT_FILETYPE)\<rparr>)"

text \<open>The number of block groups \<open>compute_inodes_per_group\<close> divides by; both divisors must not be
  zero.\<close>

definition inodes_divisor_ok :: "fs_info \<Rightarrow> bool" where
  "inodes_divisor_ok info \<longleftrightarrow> info_blocks_per_group info \<noteq> 0 \<and>
     DIV_ROUND_UP (ucast (size_in_blocks info)) (info_blocks_per_group info) \<noteq> 0"

definition make_ext4fs :: "nat \<Rightarrow> host \<Rightarrow> u8 list \<Rightarrow> u8 list option \<Rightarrow> u8 list \<Rightarrow> bool \<Rightarrow> bool \<Rightarrow> bool \<Rightarrow> int wprog" where
  "make_ext4fs depth h filename directory mountpoint android gzip sparse =
     sq (upd_info (\<lambda>info. if info_len info = 0 then info\<lparr>info_len := get_file_size h filename\<rparr> else info))
     (bind (gets (\<lambda>s. info_len (w_info s))) (\<lambda>len.
      if len = 0 then ret 1
      else sq (upd_info default_info_1)
      (sq (guard (\<lambda>s. inodes_divisor_ok (w_info s)))
      (sq (upd_info default_info_2)
      (sq ext4_create_fs_aux_info
      (sq block_allocator_init
      (sq ext4_fill_in_sb
      (sq (bind (reserve_inodes 0 10) (\<lambda>r. only_if (r = EXT4_ALLOCATE_FAILED) error))
      (bind (gets (\<lambda>s. info_feat_compat (w_info s))) (\<lambda>compat.
       sq (only_if (compat AND EXT4_FEATURE_COMPAT_HAS_JOURNAL \<noteq> 0) ext4_create_journal_inode)
       (sq (only_if (compat AND EXT4_FEATURE_COMPAT_RESIZE_INODE \<noteq> 0) ext4_create_resize_inode)
       (bind (case directory of
                Some dir \<Rightarrow> build_directory_structure depth h dir mountpoint 0 android
              | None \<Rightarrow> build_default_directory_structure) (\<lambda>root_inode_num.
        sq (bind (inode_set_permissions root_inode_num 0x1ED 0 0 0) (\<lambda>_. ret ()))
        (sq ext4_update_free
        (sq (write_ext4_image (h_content h) (h_open_output h filename) gzip sparse)
        (ret 0))))))))))))))))"

end
