(* ===== verification/Getopt.thy ===== *)
theory Getopt
  imports Prelude
begin

text \<open>
  The C library's \<open>getopt\<close> on the arguments of a program, for options that take an argument (\<open>wa\<close>)
  and flags (\<open>fl\<close>): clusters of flags, option arguments attached or separate, \<open>--\<close>, and the
  arguments that are not options moved behind the options.
\<close>

text \<open>What one call of \<open>getopt\<close> returns: an option with its argument, or the question mark.\<close>

datatype opt_event = Opt u8 "u8 list" | Opt_Bad

text \<open>One argument \<open>-abc\<close>: its flags, and for an option with an argument the rest of the word or the
  next word.\<close>

fun getopt_cluster :: "u8 list \<Rightarrow> u8 list \<Rightarrow> u8 list \<Rightarrow> u8 list list \<Rightarrow> opt_event list \<times> u8 list list" where
  "getopt_cluster wa fl [] args = ([], args)"
| "getopt_cluster wa fl (c # cs) args =
     (if c \<in> set wa
      then if cs \<noteq> [] then ([Opt c cs], args)
        else (case args of [] \<Rightarrow> ([Opt_Bad], []) | a # rest \<Rightarrow> ([Opt c a], rest))
      else let (evs, rest) = getopt_cluster wa fl cs args
        in ((if c \<in> set fl then Opt c [] else Opt_Bad) # evs, rest))"

lemma getopt_cluster_shorter: "length (snd (getopt_cluster wa fl cs args)) \<le> length args"
  by (induction wa fl cs args rule: getopt_cluster.induct) (auto split: list.splits prod.splits)

function getopt :: "u8 list \<Rightarrow> u8 list \<Rightarrow> u8 list list \<Rightarrow> opt_event list \<times> u8 list list" where
  "getopt wa fl [] = ([], [])"
| "getopt wa fl (arg # args) =
     (if arg = [45, 45] then ([], args)
      else if length arg > 1 \<and> hd arg = 45
      then let (evs, rest) = getopt_cluster wa fl (tl arg) args; (evs', operands) = getopt wa fl rest
        in (evs @ evs', operands)
      else let (evs, operands) = getopt wa fl args in (evs, arg # operands))"
  by pat_completeness auto
termination
proof (relation "measure (\<lambda>(_, _, args). length args)", goal_cases)
  case (2 wa fl arg args p evs rest)
  then show ?case
    using getopt_cluster_shorter [of wa fl "tl arg" args] by (cases "getopt_cluster wa fl (tl arg) args") auto
qed auto

end
