(* ===== verification/Make_Ext4fs_Main.thy ===== *)
theory Make_Ext4fs_Main
  imports Make_Ext4fs Getopt
begin

text \<open>
  \<open>make_ext4fs_main.c\<close>: the command line, on the C library's \<open>getopt\<close> of theory \<open>Getopt\<close>.
\<close>

definition opts_with_arg :: "u8 list" where
  "opts_with_arg = map of_char ''ljbgiILa''"

definition opts_flag :: "u8 list" where
  "opts_flag = map of_char ''fzJs''"

record main_opts =
  mo_android :: bool
  mo_gzip :: bool
  mo_sparse :: bool
  mo_mountpoint :: "u8 list"

definition num_u32 :: "u8 list \<Rightarrow> u32" where
  "num_u32 arg = ucast (parse_num arg)"

definition handle_opt :: "opt_event \<Rightarrow> main_opts \<Rightarrow> main_opts wprog" where
  "handle_opt ev mo = (case ev of
     Opt_Bad \<Rightarrow> fail Exit_Failure
   | Opt c arg \<Rightarrow>
       if c = 108 then sq (upd_info (\<lambda>i. i\<lparr>info_len := parse_num arg\<rparr>)) (ret mo)
       else if c = 106 then sq (upd_info (\<lambda>i. i\<lparr>info_journal_blocks := num_u32 arg\<rparr>)) (ret mo)
       else if c = 98 then sq (upd_info (\<lambda>i. i\<lparr>info_block_size := num_u32 arg\<rparr>)) (ret mo)
       else if c = 103 then sq (upd_info (\<lambda>i. i\<lparr>info_blocks_per_group := num_u32 arg\<rparr>)) (ret mo)
       else if c = 105 then sq (upd_info (\<lambda>i. i\<lparr>info_inodes := num_u32 arg\<rparr>)) (ret mo)
       else if c = 73 then sq (upd_info (\<lambda>i. i\<lparr>info_inode_size := num_u32 arg\<rparr>)) (ret mo)
       else if c = 76 then sq (upd_info (\<lambda>i. i\<lparr>info_label := Some arg\<rparr>)) (ret mo)
       else if c = 102 then sq (modify (\<lambda>s. s\<lparr>w_force := True\<rparr>)) (ret mo)
       else if c = 97 then ret (mo\<lparr>mo_android := True, mo_mountpoint := arg\<rparr>)
       else if c = 122 then ret (mo\<lparr>mo_gzip := True\<rparr>)
       else if c = 74 then sq (upd_info (\<lambda>i. i\<lparr>info_no_journal := 1\<rparr>)) (ret mo)
       else if c = 115 then ret (mo\<lparr>mo_sparse := True\<rparr>)
       else fail Exit_Failure)"

fun handle_opts :: "opt_event list \<Rightarrow> main_opts \<Rightarrow> main_opts wprog" where
  "handle_opts [] mo = ret mo"
| "handle_opts (ev # evs) mo = bind (handle_opt ev mo) (handle_opts evs)"

text \<open>\<open>main\<close>; \<open>args\<close> are the arguments after the program's name.\<close>

definition make_ext4fs_main :: "nat \<Rightarrow> host \<Rightarrow> u8 list list \<Rightarrow> int wprog" where
  "make_ext4fs_main depth h args =
     (case getopt opts_with_arg opts_flag args of (evs, operands) \<Rightarrow>
      bind (handle_opts evs \<lparr>mo_android = False, mo_gzip = False, mo_sparse = False, mo_mountpoint = []\<rparr>) (\<lambda>mo.
      if mo_gzip mo \<and> mo_sparse mo then fail Exit_Failure
      else case operands of
        [] \<Rightarrow> fail Exit_Failure
      | [filename] \<Rightarrow> make_ext4fs depth h filename None (mo_mountpoint mo) (mo_android mo) (mo_gzip mo) (mo_sparse mo)
      | [filename, directory] \<Rightarrow>
          make_ext4fs depth h filename (Some directory) (mo_mountpoint mo) (mo_android mo) (mo_gzip mo) (mo_sparse mo)
      | _ \<Rightarrow> fail Exit_Failure))"

end
