(* ===== verification/Simg2img.thy ===== *)
theory Simg2img
  imports Output_File
begin

text \<open>
  \<open>simg2img.c\<close>: unpacking a sparse image.  The input file is the bytes still to be read; the output
  file its bytes and position (writing past the end fills the gap with zeros, \<open>ftruncate\<close> cuts or
  extends).  \<open>zerobuf\<close> is fresh from \<open>malloc\<close> and never cleared, so its contents are a parameter.
  Every way to stop early is an \<open>Exit_Failure\<close>.
\<close>

record unsparse =
  us_in :: "u8 list"
  us_out :: "u8 list"
  us_pos :: nat
  us_crc32 :: u32

type_synonym 'a uprog = "(unsparse, 'a) prog"

definition COPY_BUF_SIZE :: nat where "COPY_BUF_SIZE = 1024 * 1024"

text \<open>\<open>fread(buf, n, 1, in) != 1\<close> stops the program.\<close>

definition fread_exact :: "nat \<Rightarrow> u8 list uprog" where
  "fread_exact n = bind (gets us_in) (\<lambda>bs.
     if n \<noteq> 0 \<and> n \<le> length bs
     then sq (modify (\<lambda>s. s\<lparr>us_in := drop n bs\<rparr>)) (ret (take n bs))
     else fail Exit_Failure)"

definition fseek_in :: "nat \<Rightarrow> unit uprog" where
  "fseek_in n = modify (\<lambda>s. s\<lparr>us_in := drop n (us_in s)\<rparr>)"

definition fwrite_out :: "u8 list \<Rightarrow> unit uprog" where
  "fwrite_out data = modify (\<lambda>s. s\<lparr>us_out := file_put (us_out s) (us_pos s) data, us_pos := us_pos s + length data\<rparr>)"

definition fseek_out :: "nat \<Rightarrow> unit uprog" where
  "fseek_out n = modify (\<lambda>s. s\<lparr>us_pos := us_pos s + n\<rparr>)"

definition add_crc :: "u8 list \<Rightarrow> unit uprog" where
  "add_crc data = modify (\<lambda>s. s\<lparr>us_crc32 := sparse_crc32 (us_crc32 s) data\<rparr>)"

definition chunk_bytes :: "u32 \<Rightarrow> u32 \<Rightarrow> u64" where
  "chunk_bytes blocks blk_sz = ucast blocks * ucast blk_sz"

definition process_raw_chunk :: "u32 \<Rightarrow> u32 \<Rightarrow> u32 uprog" where
  "process_raw_chunk blocks blk_sz =
     (let len = unat (chunk_bytes blocks blk_sz) in
      loop (Suc len) (\<lambda>len.
        if len = 0 then ret (Inl blocks)
        else let chunk = (if COPY_BUF_SIZE < len then COPY_BUF_SIZE else len) in
          bind (fread_exact chunk) (\<lambda>data.
          sq (add_crc data) (sq (fwrite_out data) (ret (Inr (len - chunk)))))) len)"

text \<open>\<open>process_skip_chunk\<close>: the first loop seeks, its last step is what \<open>skip_chunk\<close> still holds when
  the second loop starts.\<close>

definition seek_loop :: "u64 \<Rightarrow> u64 uprog" where
  "seek_loop len =
     loop (Suc (unat len)) (\<lambda>(len, skip_chunk).
       if len = 0 then ret (Inl skip_chunk)
       else let skip_chunk = (if 0x80000000 < len then 0x80000000 else len) in
         sq (fseek_out (unat skip_chunk)) (ret (Inr (len - skip_chunk, skip_chunk)))) (len, 0)"

definition crc_loop :: "u8 list \<Rightarrow> u32 \<Rightarrow> u64 \<Rightarrow> u64 \<Rightarrow> unit uprog" where
  "crc_loop zerobuf blk_sz len skip_chunk =
     loop (Suc (unat len)) (\<lambda>(len, skip_chunk).
       if len = 0 then ret (Inl ())
       else let skip_chunk = (if ucast blk_sz < skip_chunk then ucast blk_sz else skip_chunk) in
         sq (add_crc (take (unat skip_chunk) zerobuf)) (ret (Inr (len - skip_chunk, skip_chunk))))
       (len, skip_chunk)"

definition process_skip_chunk :: "u8 list \<Rightarrow> u32 \<Rightarrow> u32 \<Rightarrow> u32 uprog" where
  "process_skip_chunk zerobuf blocks blk_sz =
     (let len = chunk_bytes blocks blk_sz in
      bind (seek_loop len) (\<lambda>skip_chunk.
      sq (crc_loop zerobuf blk_sz len skip_chunk) (ret blocks)))"

text \<open>The file header, decoded from its bytes.\<close>

definition parse_sparse_header :: "u8 list \<Rightarrow> sparse_header" where
  "parse_sparse_header b = \<lparr>sh_magic = get_u32 b 0, sh_major_version = get_u16 b 4, sh_minor_version = get_u16 b 6,
     sh_file_hdr_sz = get_u16 b 8, sh_chunk_hdr_sz = get_u16 b 10, sh_blk_sz = get_u32 b 12,
     sh_total_blks = get_u32 b 16, sh_total_chunks = get_u32 b 20, sh_image_checksum = get_u32 b 24\<rparr>"

definition process_chunk :: "u8 list \<Rightarrow> sparse_header \<Rightarrow> u32 uprog" where
  "process_chunk zerobuf sh =
     bind (fread_exact CHUNK_HEADER_LEN) (\<lambda>b.
     let chunk_type = get_u16 b 0; chunk_sz = get_u32 b 4; total_sz = get_u32 b 8 in
     sq (only_if (CHUNK_HEADER_LEN < unat (sh_chunk_hdr_sz sh))
          (fseek_in (unat (sh_chunk_hdr_sz sh) - CHUNK_HEADER_LEN)))
     (if chunk_type = CHUNK_TYPE_RAW
      then if total_sz \<noteq> ucast (sh_chunk_hdr_sz sh) + chunk_sz * sh_blk_sz sh then fail Exit_Failure
        else process_raw_chunk chunk_sz (sh_blk_sz sh)
      else if chunk_type = CHUNK_TYPE_DONT_CARE
      then if total_sz \<noteq> ucast (sh_chunk_hdr_sz sh) then fail Exit_Failure
        else process_skip_chunk zerobuf chunk_sz (sh_blk_sz sh)
      else fail Exit_Failure))"

definition ftruncate_out :: "nat \<Rightarrow> unit uprog" where
  "ftruncate_out n = modify (\<lambda>s. s\<lparr>us_out := take n (us_out s) @ replicate (n - length (us_out s)) 0\<rparr>)"

text \<open>\<open>main\<close>, with both files opened; \<open>malloc\<close> gives the contents of \<open>zerobuf\<close>, \<open>blk_sz\<close> bytes.\<close>

definition simg2img :: "(nat \<Rightarrow> u8 list) \<Rightarrow> unit uprog" where
  "simg2img malloc =
     bind (fread_exact SPARSE_HEADER_LEN) (\<lambda>b.
     let sh = parse_sparse_header b in
     if sh_magic sh \<noteq> SPARSE_HEADER_MAGIC then fail Exit_Failure
     else if sh_major_version sh \<noteq> 1 then fail Exit_Failure
     else sq (only_if (SPARSE_HEADER_LEN < unat (sh_file_hdr_sz sh))
               (fseek_in (unat (sh_file_hdr_sz sh) - SPARSE_HEADER_LEN)))
       (let zerobuf = malloc (unat (sh_blk_sz sh)) in
        bind (loop (Suc (unat (sh_total_chunks sh))) (\<lambda>(i, total_blocks).
                if i < unat (sh_total_chunks sh)
                then bind (process_chunk zerobuf sh) (\<lambda>n. ret (Inr (Suc i, total_blocks + n)))
                else ret (Inl total_blocks)) (0, 0)) (\<lambda>total_blocks.
        sq (ftruncate_out (unat (chunk_bytes total_blocks (sh_blk_sz sh))))
        (if sh_total_blks sh \<noteq> total_blocks then fail Exit_Failure
         else bind (gets us_crc32) (\<lambda>crc.
           if sh_image_checksum sh \<noteq> crc then fail Exit_Failure else ret ())))))"

definition run_simg2img :: "(nat \<Rightarrow> u8 list) \<Rightarrow> u8 list \<Rightarrow> fault + unit \<times> unsparse" where
  "run_simg2img malloc img = simg2img malloc \<lparr>us_in = img, us_out = [], us_pos = 0, us_crc32 = 0\<rparr>"

text \<open>The start of \<open>main\<close>: two arguments, the input readable, the output writable.\<close>

definition simg2img_main :: "(nat \<Rightarrow> u8 list) \<Rightarrow> (u8 list \<Rightarrow> u8 list option) \<Rightarrow> (u8 list \<Rightarrow> bool) \<Rightarrow>
    u8 list list \<Rightarrow> fault + unit \<times> unsparse" where
  "simg2img_main malloc files writable args = (case args of
     [sparse_file, raw_file] \<Rightarrow> (case files sparse_file of
       None \<Rightarrow> Inl Exit_Failure
     | Some img \<Rightarrow> if writable raw_file then run_simg2img malloc img else Inl Exit_Failure)
   | _ \<Rightarrow> Inl Exit_Failure)"

end
