(* ===== verification/Checksum.thy ===== *)
theory Checksum
  imports Prelude
begin

text \<open>
  \<open>linux/checksum/main.c\<close>: \<open>gCRCCheckSum\<close>, meant as a bitwise CRC-16 over a buffer whose last two
  bytes receive the checksum.  \<open>None\<close> is an access outside the buffer.
\<close>

definition CRC_16 :: u16 where
  "CRC_16 = 0xC005"

text \<open>The body of the inner loop, statement by statement: \<open>crc <= 1\<close> compares and discards the
  result.\<close>

definition checksum_bit :: "u8 \<Rightarrow> nat \<Rightarrow> u16 \<Rightarrow> u16" where
  "checksum_bit byte j crc =
     (let crc = (if crc AND 0x8000 \<noteq> 0 then crc XOR CRC_16 else crc);
          _ = (crc \<le> 1)
      in crc OR ucast (drop_bit j byte AND 0x01))"

definition checksum_byte :: "u16 \<Rightarrow> u8 \<Rightarrow> u16" where
  "checksum_byte crc byte = foldl (\<lambda>crc j. checksum_bit byte j crc) crc [7, 6, 5, 4, 3, 2, 1, 0]"

definition gCRCCheckSum :: "u8 list \<Rightarrow> nat \<Rightarrow> u8 list option" where
  "gCRCCheckSum pBuf cnt =
     (if length pBuf < cnt + 2 \<or> length pBuf < 2 then None
      else let crc = (if pBuf ! 0 < 8 then 1 else 0) OR ucast (pBuf ! 1);
               crc = foldl checksum_byte crc (map (\<lambda>i. pBuf ! i) [2..<cnt + 2])
           in Some (pBuf[cnt := ucast (drop_bit 8 crc), cnt + 1 := ucast crc]))"

lemma small_no_high_bit: "unat (crc :: u16) < 256 \<Longrightarrow> crc AND 0x8000 = 0"
proof (rule bit_word_eqI)
  fix n
  assume "unat crc < 256"
  then have lt: "take_bit 8 (unat crc) = unat crc" by (simp add: take_bit_nat_eq_self)
  have "\<not> bit crc 15"
  proof
    assume "bit crc 15"
    then have "bit (unat crc) 15" by (simp add: bit_unsigned_iff)
    then have "bit (take_bit 8 (unat crc)) 15" using lt by simp
    then show False by (simp add: bit_take_bit_iff)
  qed
  then have "\<not> bit (crc AND push_bit 15 1) n"
    by (cases "n = 15") (auto simp only: bit_and_iff bit_push_bit_iff bit_1_iff diff_is_0_eq dest: le_antisym)
  then show "bit (crc AND 0x8000) n = bit (0 :: u16) n" by simp
qed

lemma or_one_small: "unat (crc :: u16) < 256 \<Longrightarrow> unat (crc OR ucast (b AND 1 :: u8)) < 256"
proof -
  assume a: "unat crc < 256"
  have "take_bit 8 crc = crc"
    using a by (simp add: word_unat_eq_iff unsigned_take_bit_eq take_bit_nat_eq_self)
  moreover have "take_bit 8 (ucast (b AND 1) :: u16) = ucast (b AND 1)"
    by (rule bit_word_eqI) (auto simp: bit_simps)
  ultimately have "take_bit 8 (crc OR ucast (b AND 1)) = crc OR ucast (b AND 1)"
    by (simp only: take_bit_or)
  then have "unat (crc OR ucast (b AND 1)) = take_bit 8 (unat (crc OR ucast (b AND 1)))"
    by (metis unsigned_take_bit_eq)
  then show ?thesis using take_bit_nat_less_exp [of 8 "unat (crc OR ucast (b AND 1))"] by simp
qed

lemma checksum_bit_small:
  "unat crc < 256 \<Longrightarrow> checksum_bit byte j crc = crc OR ucast (drop_bit j byte AND 1)"
  by (simp add: checksum_bit_def small_no_high_bit)

definition any_bit :: "u8 \<Rightarrow> u16" where
  "any_bit byte = (if byte = 0 then 0 else 1)"

lemma byte_bits_or:
  "(ucast (drop_bit 7 byte AND 1) OR ucast (drop_bit 6 byte AND 1) OR ucast (drop_bit 5 byte AND 1) OR
    ucast (drop_bit 4 byte AND 1) OR ucast (drop_bit 3 byte AND 1) OR ucast (drop_bit 2 byte AND 1) OR
    ucast (drop_bit 1 byte AND 1) OR ucast (byte AND 1) :: u16) = any_bit (byte :: u8)"
proof (rule bit_word_eqI)
  fix n
  have z: "byte = 0 \<longleftrightarrow> \<not> (bit byte 7 \<or> bit byte 6 \<or> bit byte 5 \<or> bit byte 4 \<or> bit byte 3 \<or> bit byte 2 \<or>
      bit byte 1 \<or> bit byte 0)"
  proof
    assume no: "\<not> (bit byte 7 \<or> bit byte 6 \<or> bit byte 5 \<or> bit byte 4 \<or> bit byte 3 \<or> bit byte 2 \<or>
      bit byte 1 \<or> bit byte 0)"
    show "byte = 0"
    proof (rule bit_word_eqI)
      fix k :: nat
      assume "k < LENGTH(8)"
      then have "k = 0 \<or> k = 1 \<or> k = 2 \<or> k = 3 \<or> k = 4 \<or> k = 5 \<or> k = 6 \<or> k = 7" by auto
      then show "bit byte k = bit 0 k" using no by auto
    qed
  qed simp
  show "bit (ucast (drop_bit 7 byte AND 1) OR ucast (drop_bit 6 byte AND 1) OR ucast (drop_bit 5 byte AND 1) OR
    ucast (drop_bit 4 byte AND 1) OR ucast (drop_bit 3 byte AND 1) OR ucast (drop_bit 2 byte AND 1) OR
    ucast (drop_bit 1 byte AND 1) OR ucast (byte AND 1) :: u16) n = bit (any_bit byte) n"
    unfolding any_bit_def
    by (cases "n = 0") (simp_all add: bit_or_iff bit_and_iff bit_unsigned_iff bit_drop_bit_eq bit_1_iff z)
qed

lemma checksum_byte_small:
  assumes "unat crc < 256"
  shows "checksum_byte crc byte = crc OR any_bit byte" and "unat (checksum_byte crc byte) < 256"
proof -
  note s = checksum_bit_small or_one_small
  let ?b = "\<lambda>j. ucast (drop_bit j byte AND 1) :: u16"
  have e: "checksum_byte crc byte = (((((((crc OR ?b 7) OR ?b 6) OR ?b 5) OR ?b 4) OR ?b 3) OR ?b 2) OR ?b 1) OR ?b 0"
    unfolding checksum_byte_def by (simp only: foldl_Cons foldl_Nil s assms)
  then show "checksum_byte crc byte = crc OR any_bit byte"
    by (simp only: byte_bits_or [symmetric] or.assoc drop_bit_0 id_apply)
  show "unat (checksum_byte crc byte) < 256"
    unfolding e by (intro or_one_small assms)
qed

lemma checksum_bytes_small:
  "unat crc < 256 \<Longrightarrow>
   foldl checksum_byte crc bytes = crc OR (if \<exists>b\<in>set bytes. b \<noteq> 0 then 1 else 0)"
proof (induction bytes arbitrary: crc)
  case (Cons b bytes)
  have "foldl checksum_byte crc (b # bytes) =
      (crc OR any_bit b) OR (if \<exists>b\<in>set bytes. b \<noteq> 0 then 1 else 0)"
    using Cons.IH [OF checksum_byte_small(2) [OF Cons.prems]] checksum_byte_small(1) [OF Cons.prems] by simp
  then show ?case by (auto simp: any_bit_def or.assoc)
qed simp

text \<open> \<open>gCRCCheckSum\<close> is not a CRC: the shifts \<open><<\<close> and \<open><<=\<close> are written as the comparisons
  \<open><\<close> and \<open><=\<close>, so the result is the second byte, with its lowest bit also set when the first byte is
  below 8 or any later byte is not zero.\<close>
theorem gCRCCheckSum_value:
  assumes "cnt + 2 \<le> length pBuf"
  shows "gCRCCheckSum pBuf cnt =
    (let low = pBuf ! 1 OR (if pBuf ! 0 < 8 \<or> (\<exists>i\<in>{2..<cnt + 2}. pBuf ! i \<noteq> 0) then 1 else 0)
     in Some (pBuf[cnt := 0, cnt + 1 := low]))"
proof -
  define start :: u16 where "start = (if pBuf ! 0 < 8 then 1 else 0) OR ucast (pBuf ! 1)"
  define low :: u8 where "low = pBuf ! 1 OR (if pBuf ! 0 < 8 \<or> (\<exists>i\<in>{2..<cnt + 2}. pBuf ! i \<noteq> 0) then 1 else 0)"
  have one: "(1 :: u16) = ucast (1 :: u8)" by simp
  have start: "start = ucast ((if pBuf ! 0 < 8 then 1 else 0) OR pBuf ! 1 :: u8)"
    unfolding start_def by (rule bit_word_eqI) (auto simp: bit_simps)
  have "unat start < 256"
    unfolding start by (simp add: unat_ucast_up unat_lt_u8)
  then have crc: "foldl checksum_byte start (map (\<lambda>i. pBuf ! i) [2..<cnt + 2]) =
      start OR (if \<exists>i\<in>{2..<cnt + 2}. pBuf ! i \<noteq> 0 then 1 else 0)"
    by (simp only: checksum_bytes_small set_map set_upt bex_simps)
  also have "\<dots> = ucast low"
    unfolding start low_def by (rule bit_word_eqI) (auto simp: bit_simps)
  finally have e: "foldl checksum_byte start (map (\<lambda>i. pBuf ! i) [2..<cnt + 2]) = ucast low" .
  have h: "(ucast (drop_bit 8 (ucast low :: u16)) :: u8) = 0"
    by (rule bit_word_eqI) (auto simp: bit_simps)
  have l: "(ucast (ucast low :: u16) :: u8) = low"
    by (rule bit_word_eqI) (auto simp: bit_simps)
  show ?thesis
    using assms unfolding gCRCCheckSum_def Let_def start_def [symmetric] e h l low_def [symmetric] by simp
qed

theorem gCRCCheckSum_value_witness:
  "gCRCCheckSum [9, 10, 85, 0, 0] 3 = Some [9, 10, 85, 0, 11] \<and>
   gCRCCheckSum [9, 10, 170, 0, 0] 3 = Some [9, 10, 170, 0, 11]"
proof -
  have "\<exists>i\<in>{2..<5}. [9, 10, b, 0, 0 :: u8] ! i \<noteq> 0" if "b \<noteq> 0" for b
    using that by (intro bexI [of _ 2]) auto
  from this [of 85] this [of 170] show ?thesis
    using gCRCCheckSum_value [of 3 "[9, 10, 85, 0, 0]"] gCRCCheckSum_value [of 3 "[9, 10, 170, 0, 0]"]
    by simp
qed

end
