(* ===== verification/Bitmap.thy ===== *)
theory Bitmap
  imports Prelude
begin

text \<open>
  Bitmaps as sets: the bits a byte buffer has set, and the reference operations on them that the
  word-at-a-time code of \<open>allocate.c\<close> is compared with: setting and clearing one bit, a range
  of bits one after the other, and a whole byte.
\<close>

definition bits :: "u8 list \<Rightarrow> nat set" where
  "bits b = {i. i < 8 * length b \<and> bit (b ! (i div 8)) (i mod 8)}"

definition set_bit1 :: "nat \<Rightarrow> u8 list \<Rightarrow> u8 list" where
  "set_bit1 i b = b[i div 8 := b ! (i div 8) OR push_bit (i mod 8) 1]"

definition clear_bit1 :: "nat \<Rightarrow> u8 list \<Rightarrow> u8 list" where
  "clear_bit1 i b = b[i div 8 := b ! (i div 8) AND NOT (push_bit (i mod 8) 1)]"

definition mark_range :: "nat \<Rightarrow> nat \<Rightarrow> u8 list \<Rightarrow> u8 list" where
  "mark_range start n b = fold set_bit1 [start..<start + n] b"

definition clear_range :: "nat \<Rightarrow> nat \<Rightarrow> u8 list \<Rightarrow> u8 list" where
  "clear_range start n b = fold clear_bit1 [start..<start + n] b"

named_theorems bitmap_simps

lemma length_bit1 [simp]:
  "length (set_bit1 i b) = length b" "length (clear_bit1 i b) = length b"
  by (simp_all add: set_bit1_def clear_bit1_def)

lemma length_mark_range [simp]:
  "length (mark_range start n b) = length b" "length (clear_range start n b) = length b"
proof -
  have "length (fold set_bit1 is b) = length b" "length (fold clear_bit1 is b) = length b" for "is"
    by (induction "is" arbitrary: b) simp_all
  then show "length (mark_range start n b) = length b" "length (clear_range start n b) = length b"
    by (simp_all add: mark_range_def clear_range_def)
qed

lemma bits_less: "i \<in> bits b \<Longrightarrow> i < 8 * length b"
  by (simp add: bits_def)

lemma bits_finite [simp]: "finite (bits b)"
  by (rule finite_subset [of _ "{..<8 * length b}"]) (auto dest: bits_less)

lemma bits_zero [simp]: "bits (replicate n 0) = {}"
  by (auto simp: bits_def)

lemma bits_iff: "i < 8 * length b \<Longrightarrow> i \<in> bits b \<longleftrightarrow> bit (b ! (i div 8)) (i mod 8)"
  by (simp add: bits_def)

text \<open>A buffer is known by its length and its bits.\<close>

lemma bits_ext:
  assumes "length b = length b'" and "bits b = bits b'"
  shows "b = b'"
proof (rule nth_equalityI)
  show "length b = length b'" by fact
  fix k
  assume k: "k < length b"
  show "b ! k = b' ! k"
  proof (rule bit_word_eqI)
    fix n :: nat
    assume n: "n < LENGTH(8)"
    then have d: "(8 * k + n) div 8 = k" "(8 * k + n) mod 8 = n" "8 * k + n < 8 * length b" using k by auto
    then have "(8 * k + n \<in> bits b) = bit (b ! k) n" "(8 * k + n \<in> bits b') = bit (b' ! k) n"
      using assms(1) by (simp_all add: bits_def)
    then show "bit (b ! k) n = bit (b' ! k) n" using assms(2) by simp
  qed
qed

lemma bit_exp_u8 [simp]: "bit (2 ^ m :: u8) n \<longleftrightarrow> n = m \<and> n < 8"
  by (auto simp: bit_exp_iff)

lemma atLeastLessThan_Suc_end: "{start..<start + Suc n} = insert (start + n) {start..<start + n}"
  by auto

lemma div_mod_8_eq: "i div 8 = j div 8 \<Longrightarrow> i mod 8 = j mod 8 \<Longrightarrow> i = (j :: nat)"
  by (metis div_mult_mod_eq)

lemma bits_set_bit1 [bitmap_simps]: "i < 8 * length b \<Longrightarrow> bits (set_bit1 i b) = insert i (bits b)"
proof -
  assume i: "i < 8 * length b"
  then have k: "i div 8 < length b" by auto
  have "j \<in> bits (set_bit1 i b) \<longleftrightarrow> j \<in> insert i (bits b)" for j
  proof (cases "j div 8 = i div 8")
    case True
    then show ?thesis using i k div_mod_8_eq [of i j]
      by (auto simp: bits_def set_bit1_def bit_or_iff bit_push_bit_iff bit_1_iff)
  next
    case False
    then show ?thesis by (auto simp: bits_def set_bit1_def)
  qed
  then show ?thesis by blast
qed

lemma bits_clear_bit1 [bitmap_simps]: "i < 8 * length b \<Longrightarrow> bits (clear_bit1 i b) = bits b - {i}"
proof -
  assume i: "i < 8 * length b"
  then have k: "i div 8 < length b" by auto
  have "j \<in> bits (clear_bit1 i b) \<longleftrightarrow> j \<in> bits b - {i}" for j
  proof (cases "j div 8 = i div 8")
    case True
    then show ?thesis using i k div_mod_8_eq [of i j]
      by (auto simp: bits_def clear_bit1_def bit_and_iff bit_not_iff bit_push_bit_iff bit_1_iff)
  next
    case False
    then show ?thesis by (auto simp: bits_def clear_bit1_def)
  qed
  then show ?thesis by blast
qed

lemma mark_range_0 [simp]: "mark_range start 0 b = b" "clear_range start 0 b = b"
  by (simp_all add: mark_range_def clear_range_def)

lemma mark_range_Suc: "mark_range start (Suc n) b = set_bit1 (start + n) (mark_range start n b)"
  by (simp add: mark_range_def)

lemma bits_mark_range [bitmap_simps]:
  "start + n \<le> 8 * length b \<Longrightarrow> bits (mark_range start n b) = bits b \<union> {start..<start + n}"
proof (induction n)
  case (Suc n)
  then show ?case unfolding atLeastLessThan_Suc_end mark_range_Suc by (simp add: bits_set_bit1)
qed simp

lemma clear_range_Suc: "clear_range start (Suc n) b = clear_bit1 (start + n) (clear_range start n b)"
  by (simp add: clear_range_def)

lemma bits_clear_range [bitmap_simps]:
  "start + n \<le> 8 * length b \<Longrightarrow> bits (clear_range start n b) = bits b - {start..<start + n}"
proof (induction n)
  case (Suc n)
  then have "bits (clear_range start (Suc n) b) = bits b - {start..<start + n} - {start + n}"
    unfolding clear_range_Suc by (simp add: bits_clear_bit1)
  then show ?case unfolding atLeastLessThan_Suc_end by blast
qed simp

text \<open>Setting a whole byte is setting its eight bits.\<close>

lemma bits_set_byte:
  assumes "k < length b"
  shows "bits (b[k := 0xFF]) = bits b \<union> {8 * k..<8 * k + 8}"
proof -
  have ff: "bit (0xFF :: u8) n" if "n < 8" for n
  proof -
    have "(0xFF :: u8) = mask 8" by (simp add: mask_eq_decr_exp)
    then show ?thesis using that by (simp only: bit_mask_iff) simp
  qed
  have "j \<in> bits (b[k := 0xFF]) \<longleftrightarrow> j \<in> bits b \<union> {8 * k..<8 * k + 8}" for j
  proof (cases "j div 8 = k")
    case True
    then have "8 * k \<le> j" "j < 8 * k + 8" by auto
    then show ?thesis using True assms ff by (auto simp: bits_def)
  next
    case False
    then have "\<not> (8 * k \<le> j \<and> j < 8 * k + 8)" by auto
    then show ?thesis using False by (auto simp: bits_def)
  qed
  then show ?thesis by blast
qed

lemma set_byte_is_mark_range:
  assumes "k < length b"
  shows "b[k := 0xFF] = mark_range (8 * k) 8 b"
  using assms by (intro bits_ext) (simp_all add: bits_set_byte bits_mark_range)

lemma byte_zero_iff:
  assumes "k < length b"
  shows "b ! k = 0 \<longleftrightarrow> {8 * k..<8 * k + 8} \<inter> bits b = {}"
proof
  assume z: "b ! k = 0"
  have "j \<notin> bits b" if "8 * k \<le> j" "j < 8 * k + 8" for j
  proof -
    have "j div 8 = k" using that by auto
    then show ?thesis using z by (auto simp: bits_def)
  qed
  then show "{8 * k..<8 * k + 8} \<inter> bits b = {}" by fastforce
next
  assume e: "{8 * k..<8 * k + 8} \<inter> bits b = {}"
  show "b ! k = 0"
  proof (rule bit_word_eqI)
    fix n :: nat
    assume n: "n < LENGTH(8)"
    then have "8 * k + n \<in> {8 * k..<8 * k + 8}" by simp
    then have "8 * k + n \<notin> bits b" using e by blast
    then show "bit (b ! k) n = bit 0 n" using n assms by (auto simp: bits_def)
  qed
qed

lemma mark_range_add: "mark_range start (m + n) b = mark_range (start + m) n (mark_range start m b)"
proof -
  have "[start..<start + (m + n)] = [start..<start + m] @ [start + m..<start + m + n]"
    by (metis add.assoc le_add1 upt_add_eq_append)
  then show ?thesis by (simp add: mark_range_def)
qed

lemma clear_marked:
  assumes "start + n \<le> 8 * length b" and "{start..<start + n} \<inter> bits b = {}"
  shows "clear_range start n (mark_range start n b) = b"
proof (rule bits_ext)
  have "bits (clear_range start n (mark_range start n b)) = (bits b \<union> {start..<start + n}) - {start..<start + n}"
    using assms(1) by (simp add: bits_clear_range bits_mark_range)
  then show "bits (clear_range start n (mark_range start n b)) = bits b" using assms(2) by blast
qed simp

end
