(* ===== verification/Group_Correct.thy ===== *)
theory Group_Correct
  imports Block_Group Bitmap
begin

text \<open>
  Correctness of the block groups: \<open>reserve_blocks\<close>, which marks a byte at a time where it can,
  equals marking the bits one by one; the set of used blocks of a group has the shape the
  allocator relies on, and every operation keeps it.
\<close>

section \<open>Memory\<close>

lemma upd_buf_simps [simp]:
  "w_mem (upd_buf i b s) i = Some b"
  "i \<noteq> j \<Longrightarrow> w_mem (upd_buf i b s) j = w_mem s j"
  "upd_buf i c (upd_buf i b s) = upd_buf i c s"
  "w_bgs (upd_buf i b s) = w_bgs s" "w_info (upd_buf i b s) = w_info s" "w_aux (upd_buf i b s) = w_aux s"
  "w_force (upd_buf i b s) = w_force s" "w_reg (upd_buf i b s) = w_reg s" "w_next (upd_buf i b s) = w_next s"
  "w_queue (upd_buf i b s) = w_queue s" "w_out (upd_buf i b s) = w_out s"
  "w_last_used (upd_buf i b s) = w_last_used s" "w_sparse_header (upd_buf i b s) = w_sparse_header s"
  by (simp_all add: upd_buf_def)

lemma upd_buf_same: "w_mem s i = Some b \<Longrightarrow> upd_buf i b s = s"
proof -
  assume "w_mem s i = Some b"
  then have "(w_mem s)(i := Some b) = w_mem s" by (simp add: fun_upd_idem)
  then show ?thesis by (simp add: upd_buf_def)
qed

lemma upd_bg_simps [simp]:
  "w_mem (upd_bg g f s) = w_mem s" "w_info (upd_bg g f s) = w_info s" "w_aux (upd_bg g f s) = w_aux s"
  "w_force (upd_bg g f s) = w_force s" "w_reg (upd_bg g f s) = w_reg s" "w_next (upd_bg g f s) = w_next s"
  "w_queue (upd_bg g f s) = w_queue s" "length (w_bgs (upd_bg g f s)) = length (w_bgs s)"
  "w_out (upd_bg g f s) = w_out s" "w_last_used (upd_bg g f s) = w_last_used s"
  "g < length (w_bgs s) \<Longrightarrow> w_bgs (upd_bg g f s) ! g = f (w_bgs s ! g)"
  "g \<noteq> h \<Longrightarrow> w_bgs (upd_bg g f s) ! h = w_bgs s ! h"
  by (simp_all add: upd_bg_def)

lemma upd_bg_upd_bg [simp]: "g < length (w_bgs s) \<Longrightarrow> upd_bg g h (upd_bg g f s) = upd_bg g (\<lambda>b. h (f b)) s"
  by (simp add: upd_bg_def)

lemma upd_buf_upd_bg: "upd_buf i b (upd_bg g f s) = upd_bg g f (upd_buf i b s)"
  by (simp add: upd_bg_def upd_buf_def)

lemma upd_bg_cong: "f (w_bgs s ! g) = h (w_bgs s ! g) \<Longrightarrow> upd_bg g f s = upd_bg g h s"
  by (simp add: upd_bg_def)

lemma put_bytes_single: "off < length b \<Longrightarrow> put_bytes b off [w] = b[off := w]"
  by (simp add: put_bytes_def upd_conv_take_nth_drop)

lemma get_bytes_single: "off < length b \<Longrightarrow> get_bytes b off (Suc 0) = [b ! off]"
  by (simp add: get_bytes_def take_Suc hd_drop_conv_nth)

lemma load_u8_run:
  "w_mem s i = Some b \<Longrightarrow> off < length b \<Longrightarrow> load_u8 (i, off) s = Inr (b ! off, s)"
  by (simp add: load_u8_def load_def bind_def ret_def get_bytes_single)

lemma store_u8_run:
  "w_mem s i = Some b \<Longrightarrow> off < length b \<Longrightarrow> store_u8 (i, off) w s = Inr ((), upd_buf i (b[off := w]) s)"
  by (simp add: store_u8_def store_def put_bytes_single)

lemma modify_u8_run:
  "w_mem s i = Some b \<Longrightarrow> off < length b \<Longrightarrow>
   modify_u8 (i, off) f s = Inr ((), upd_buf i (b[off := f (b ! off)]) s)"
  by (simp add: modify_u8_def bind_def load_u8_run store_u8_run)

section \<open>Bits of a bitmap\<close>

lemma unat_div_mod_8 [simp]: "unat (w div 8 :: u32) = unat w div 8" "unat (w mod 8 :: u32) = unat w mod 8"
  by (simp_all add: unat_div unat_mod)

lemma bitmap_set_bit_run:
  assumes "w_mem s i = Some b" and "unat n < 8 * length b"
  shows "bitmap_set_bit (i, 0) n s =
    (if unat n \<in> bits b then Inr (True, s) else Inr (False, upd_buf i (set_bit1 (unat n) b) s))"
proof -
  have k: "unat n div 8 < length b" using assms(2) by auto
  have t: "(b ! (unat n div 8) AND push_bit (unat n mod 8) 1 \<noteq> 0) = (unat n \<in> bits b)"
    using assms(2) by (simp add: bits_def bit_iff_and_push_bit_not_eq_0 del: push_bit_of_1)
  show ?thesis
    using assms(1) k
    by (simp add: bitmap_set_bit_def ptr_add_def Let_def bind_def load_u8_run t sq_def modify_u8_run ret_def set_bit1_def
        del: push_bit_of_1)
qed

lemma bitmap_set_8_bits_run:
  assumes "w_mem s i = Some b" and "unat n < 8 * length b"
  shows "bitmap_set_8_bits (i, 0) n s = Inr (b ! (unat n div 8), upd_buf i (b[unat n div 8 := 0xFF]) s)"
proof -
  have k: "unat n div 8 < length b" using assms(2) by auto
  show ?thesis
    using assms(1) k
    by (simp add: bitmap_set_8_bits_def ptr_add_def Let_def bind_def load_u8_run sq_def store_u8_run ret_def)
qed

section \<open>The loops of reserve_blocks\<close>

text \<open>A phase of the reservation: \<open>m\<close> steps of \<open>k\<close> bits from position \<open>i0\<close> of the range at \<open>a\<close>.\<close>

lemma reserve_phase:
  assumes go: "\<And>j. j < m \<Longrightarrow> cond (of_nat (i0 + k * j)) (of_nat (a + i0 + k * j))"
    and mark: "\<And>j. j < m \<Longrightarrow> mark (of_nat (a + i0 + k * j)) (upd_buf i (mark_range a (i0 + k * j) b) s) =
        Inr (False, upd_buf i (mark_range a (i0 + k * j + k) b) s)"
    and stop: "\<not> cond (of_nat (i0 + k * m)) (of_nat (a + i0 + k * m))"
    and fuel: "m < n" and kw: "kw = of_nat k"
  shows "loop n (reserve_step cond kw mark) (of_nat i0, of_nat (a + i0)) (upd_buf i (mark_range a i0 b) s) =
    Inr (Some (of_nat (i0 + k * m), of_nat (a + i0 + k * m)), upd_buf i (mark_range a (i0 + k * m) b) s)"
proof -
  let ?x = "\<lambda>j. (of_nat (i0 + k * j), of_nat (a + i0 + k * j)) :: u32 \<times> u32"
  let ?st = "\<lambda>j. upd_buf i (mark_range a (i0 + k * j) b) s"
  have "reserve_step cond kw mark (?x j) (?st j) = Inr (Inr (?x (Suc j)), ?st (Suc j))" if "j < m" for j
    using go [OF that] mark [OF that]
    by (simp add: reserve_step_def bind_def ret_def kw algebra_simps)
  moreover have "reserve_step cond kw mark (?x m) (?st m) = Inr (Inl (Some (?x m)), ?st m)"
    using stop by (simp add: reserve_step_def ret_def)
  ultimately have "loop n (reserve_step cond kw mark) (?x 0) (?st 0) = Inr (Some (?x m), ?st m)"
    using fuel by (rule loop_iterate)
  then show ?thesis by simp
qed

lemma reserve_phase_taken:
  assumes go: "\<And>j. j \<le> m \<Longrightarrow> cond (of_nat (i0 + k * j)) (of_nat (a + i0 + k * j))"
    and mark: "\<And>j. j < m \<Longrightarrow> mark (of_nat (a + i0 + k * j)) (upd_buf i (mark_range a (i0 + k * j) b) s) =
        Inr (False, upd_buf i (mark_range a (i0 + k * j + k) b) s)"
    and taken: "mark (of_nat (a + i0 + k * m)) (upd_buf i (mark_range a (i0 + k * m) b) s) = Inr (True, s')"
    and force: "\<not> w_force s'" and fuel: "m < n" and kw: "kw = of_nat k"
  shows "loop n (reserve_step cond kw mark) (of_nat i0, of_nat (a + i0)) (upd_buf i (mark_range a i0 b) s) =
    Inl Exit_Failure"
proof -
  let ?x = "\<lambda>j. (of_nat (i0 + k * j), of_nat (a + i0 + k * j)) :: u32 \<times> u32"
  let ?st = "\<lambda>j. upd_buf i (mark_range a (i0 + k * j) b) s"
  have "reserve_step cond kw mark (?x j) (?st j) = Inr (Inr (?x (Suc j)), ?st (Suc j))" if "j < m" for j
    using go [of j] mark [OF that] that
    by (simp add: reserve_step_def bind_def ret_def kw algebra_simps)
  moreover have "reserve_step cond kw mark (?x m) (?st m) = Inl Exit_Failure"
    using go [of m] taken force by (simp add: reserve_step_def bind_def sq_def error_run)
  ultimately have "loop n (reserve_step cond kw mark) (?x 0) (?st 0) = Inl Exit_Failure"
    using fuel by (rule loop_fault)
  then show ?thesis by simp
qed

lemma unat_and_not_7: "unat (w AND NOT 7 :: u32) = 8 * (unat w div 8)"
proof -
  have "NOT 7 = NOT (mask 3 :: u32)" by (simp add: mask_eq_decr_exp)
  moreover have "w AND NOT (mask 3) = push_bit 3 (drop_bit 3 w)"
    by (rule bit_word_eqI) (auto simp: bit_and_iff bit_not_iff bit_mask_iff bit_push_bit_iff bit_drop_bit_eq)
  ultimately have "w AND NOT 7 = push_bit 3 (drop_bit 3 w)" by simp
  then have e: "w AND NOT 7 = drop_bit 3 w * 8" by (simp add: push_bit_eq_mult)
  have d: "unat (drop_bit 3 w) = unat w div 8" by (simp add: unat_drop_bit_div)
  have "unat (drop_bit 3 w * 8) = unat (drop_bit 3 w) * unat (8 :: u32)"
    by (rule unat_mult_u32) (use unat_lt_u32 [of w] in \<open>simp add: d\<close>)
  then show ?thesis unfolding e d by simp
qed

text \<open>The three phases for a range of \<open>N\<close> bits at \<open>a\<close>: \<open>first_part\<close> bits up to the next byte,
  then \<open>whole_bytes\<close> bytes, then the rest.\<close>

definition first_part :: "nat \<Rightarrow> nat \<Rightarrow> nat" where
  "first_part a N = min N ((8 - a mod 8) mod 8)"

definition whole_bytes :: "nat \<Rightarrow> nat \<Rightarrow> nat" where
  "whole_bytes a N = (8 * (N div 8) - first_part a N) div 8"

lemma mod_8_facts:
  "(a + (8 - a mod 8) mod 8) mod 8 = (0 :: nat)"
  "j < (8 - a mod 8) mod 8 \<Longrightarrow> (a + j) mod 8 \<noteq> (0 :: nat)"
proof -
  have r: "a mod 8 < 8" by simp
  have l: "(a + x) mod 8 = (a mod 8 + x) mod 8" for x by (simp add: mod_add_left_eq)
  show "(a + (8 - a mod 8) mod 8) mod 8 = 0"
    using r unfolding l by (cases "a mod 8 = 0") simp_all
  show "(a + j) mod 8 \<noteq> 0" if "j < (8 - a mod 8) mod 8"
    using r that unfolding l by (cases "a mod 8 = 0") simp_all
qed

lemma phases:
  "first_part a N \<le> N" "first_part a N + 8 * whole_bytes a N \<le> N"
  "first_part a N < N \<Longrightarrow> (a + first_part a N) mod 8 = 0"
  "j < first_part a N \<Longrightarrow> (a + j) mod 8 \<noteq> 0"
  "0 < whole_bytes a N \<Longrightarrow> first_part a N < N"
proof -
  show "first_part a N \<le> N" by (simp add: first_part_def)
  have "8 * (N div 8) \<le> N" by simp
  show le: "first_part a N + 8 * whole_bytes a N \<le> N"
  proof (cases "first_part a N \<le> 8 * (N div 8)")
    case True
    have "8 * whole_bytes a N \<le> 8 * (N div 8) - first_part a N" by (simp add: whole_bytes_def)
    then show ?thesis using True \<open>8 * (N div 8) \<le> N\<close> by linarith
  next
    case False
    then show ?thesis using \<open>first_part a N \<le> N\<close> by (simp add: whole_bytes_def)
  qed
  show "(a + first_part a N) mod 8 = 0" if "first_part a N < N"
  proof -
    have "min N x < N \<Longrightarrow> min N x = x" for x by arith
    then have "first_part a N = (8 - a mod 8) mod 8" using that unfolding first_part_def .
    then show ?thesis using mod_8_facts(1) [of a] by (simp only:)
  qed
  show "(a + j) mod 8 \<noteq> 0" if "j < first_part a N"
  proof -
    have "j < (8 - a mod 8) mod 8" using that by (simp add: first_part_def)
    then show ?thesis by (rule mod_8_facts)
  qed
  show "first_part a N < N" if "0 < whole_bytes a N"
    using le that by linarith
qed

lemma whole_bytes_step:
  "j < whole_bytes a N \<longleftrightarrow> first_part a N + 8 * j + 8 \<le> 8 * (N div 8)"
proof -
  have a: "j < n div 8 \<longleftrightarrow> 8 * j + 8 \<le> n" for n :: nat by arith
  have b: "c \<le> x - f \<longleftrightarrow> f + c \<le> x" if "0 < c" for c x f :: nat using that by arith
  show ?thesis unfolding whole_bytes_def a by (subst b) (simp_all add: add.assoc)
qed

lemma word_mod_8: "(w mod 8 = 0) = (unat (w :: u32) mod 8 = 0)"
  by (metis unat_div_mod_8(2) unat_eq_zero)

lemma of_nat_plus_8_le:
  "q + 8 < 4294967296 \<Longrightarrow> (of_nat q + 8 \<le> num AND NOT 7) = (q + 8 \<le> 8 * (unat (num :: u32) div 8))"
proof -
  assume q: "q + 8 < 4294967296"
  have "(of_nat q + 8 :: u32) = of_nat (q + 8)" by simp
  then show ?thesis using unat_of_nat_u32 [OF q] by (simp only: word_le_nat_alt unat_and_not_7)
qed

lemma mark_single:
  assumes "w_mem s i = Some b" and "a + q < 8 * length b" and "8 * length b < 4294967296"
  shows "bitmap_set_bit (i, 0) (of_nat (a + q)) (upd_buf i (mark_range a q b) s) =
    (if a + q \<in> bits b then Inr (True, upd_buf i (mark_range a q b) s)
     else Inr (False, upd_buf i (mark_range a (q + 1) b) s))"
proof -
  have u: "unat (of_nat (a + q) :: u32) = a + q" using assms by (intro unat_of_nat_u32) linarith
  have b: "a + q \<in> bits (mark_range a q b) \<longleftrightarrow> a + q \<in> bits b" using assms(2) by (simp add: bits_mark_range)
  show ?thesis
    using bitmap_set_bit_run [of "upd_buf i (mark_range a q b) s" i "mark_range a q b" "of_nat (a + q)"] assms(2)
    unfolding u by (simp add: b mark_range_Suc)
qed

lemma mark_byte:
  assumes "w_mem s i = Some b" and "a + q + 8 \<le> 8 * length b" and "8 * length b < 4294967296"
    and "(a + q) mod 8 = 0"
  shows "bind (bitmap_set_8_bits (i, 0) (of_nat (a + q))) (\<lambda>old. ret (old \<noteq> 0)) (upd_buf i (mark_range a q b) s) =
    Inr ({a + q..<a + q + 8} \<inter> bits b \<noteq> {}, upd_buf i (mark_range a (q + 8) b) s)"
proof -
  let ?k = "(a + q) div 8"
  have u: "unat (of_nat (a + q) :: u32) = a + q" using assms by (intro unat_of_nat_u32) linarith
  have k: "8 * ?k = a + q" using assms(4) by auto
  then have kl: "?k < length b" using assms(2) by linarith
  have new: "(mark_range a q b)[?k := 0xFF] = mark_range a (q + 8) b"
    using set_byte_is_mark_range [of ?k "mark_range a q b"] kl unfolding k by (simp add: mark_range_add)
  have "(mark_range a q b) ! ?k = 0 \<longleftrightarrow> {a + q..<a + q + 8} \<inter> bits b = {}"
    using byte_zero_iff [of ?k "mark_range a q b"] kl assms(2) unfolding k
    by (auto simp: bits_mark_range)
  then show ?thesis
    using bitmap_set_8_bits_run [of "upd_buf i (mark_range a q b) s" i "mark_range a q b" "of_nat (a + q)"] assms(2)
    unfolding u by (simp add: bind_def ret_def new)
qed

text \<open>What \<open>reserve_blocks\<close> does to the record of the group.\<close>

definition after_reserve :: "u32 \<Rightarrow> u32 \<Rightarrow> block_group_info \<Rightarrow> block_group_info" where
  "after_reserve start num bg =
     (if start = bg_first_free_block bg
      then bg\<lparr>bg_free_blocks := bg_free_blocks bg - num, bg_first_free_block := start + num\<rparr>
      else bg\<lparr>bg_free_blocks := bg_free_blocks bg - num\<rparr>)"

definition group_bitmap :: "world \<Rightarrow> nat \<Rightarrow> nat \<Rightarrow> u8 list \<Rightarrow> bool" where
  "group_bitmap s g i b \<longleftrightarrow> g < length (w_bgs s) \<and> bg_block_bitmap (w_bgs s ! g) = (i, 0) \<and>
     w_mem s i = Some b \<and> 8 * length b + 8 < 4294967296"

lemma reserve_loops:
  assumes b: "w_mem s i = Some b" "8 * length b + 8 < 4294967296"
    and range: "unat start + unat num \<le> 8 * length b"
    and free: "{unat start..<unat start + F} \<inter> bits b = {}" and F: "F \<le> unat num"
  defines "fp \<equiv> first_part (unat start) (unat num)" and "wb \<equiv> whole_bytes (unat start) (unat num)"
  shows "fp \<le> F \<Longrightarrow> loop (Suc (unat num)) (reserve_step (\<lambda>i block. i < num \<and> block mod 8 \<noteq> 0) 1 (bitmap_set_bit (i, 0)))
      (0, start) s = Inr (Some (of_nat fp, of_nat (unat start + fp)), upd_buf i (mark_range (unat start) fp b) s)"
    and "fp + 8 * wb \<le> F \<Longrightarrow> loop (Suc (unat num)) (reserve_step (\<lambda>i block. i + 8 \<le> num AND NOT 7) 8
      (\<lambda>block. bind (bitmap_set_8_bits (i, 0) block) (\<lambda>old. ret (old \<noteq> 0))))
      (of_nat fp, of_nat (unat start + fp)) (upd_buf i (mark_range (unat start) fp b) s) =
      Inr (Some (of_nat (fp + 8 * wb), of_nat (unat start + fp + 8 * wb)),
        upd_buf i (mark_range (unat start) (fp + 8 * wb) b) s)"
    and "unat num \<le> F \<Longrightarrow> loop (Suc (unat num)) (reserve_step (\<lambda>i block. i < num) 1 (bitmap_set_bit (i, 0)))
      (of_nat (fp + 8 * wb), of_nat (unat start + fp + 8 * wb)) (upd_buf i (mark_range (unat start) (fp + 8 * wb) b) s) =
      Inr (Some (num, start + num), upd_buf i (mark_range (unat start) (unat num) b) s)"
proof -
  let ?a = "unat start" and ?N = "unat num"
  have w: "unat (of_nat x :: u32) = x" if "x \<le> 8 * length b" for x
    using that b(2) by (intro unat_of_nat_u32) linarith
  have sg: "bitmap_set_bit (i, 0) (of_nat (?a + q)) (upd_buf i (mark_range ?a q b) s) =
      Inr (False, upd_buf i (mark_range ?a (q + 1) b) s)" if "q < F" for q
  proof -
    have "?a + q \<in> {?a..<?a + F}" using that by simp
    then have "?a + q \<notin> bits b" using free by blast
    then show ?thesis using mark_single [OF b(1), of ?a q] that F range b(2) by (simp del: of_nat_add)
  qed
  have lt: "(of_nat q < num) = (q < ?N)" if "q \<le> ?N" for q
    using that range w [of q] by (simp add: word_less_nat_alt)
  have m8: "((of_nat (?a + q) :: u32) mod 8 = 0) = ((?a + q) mod 8 = 0)" if "q \<le> ?N" for q
    using that range w [of "?a + q"] by (simp only: word_mod_8)
  note ph = phases [where a = ?a and N = ?N, folded fp_def wb_def]
  show "loop (Suc ?N) (reserve_step (\<lambda>i block. i < num \<and> block mod 8 \<noteq> 0) 1 (bitmap_set_bit (i, 0)))
      (0, start) s = Inr (Some (of_nat fp, of_nat (?a + fp)), upd_buf i (mark_range ?a fp b) s)" if f: "fp \<le> F"
  proof -
    have "loop (Suc ?N) (reserve_step (\<lambda>i block. i < num \<and> block mod 8 \<noteq> 0) 1 (bitmap_set_bit (i, 0)))
      (of_nat 0, of_nat (?a + 0)) (upd_buf i (mark_range ?a 0 b) s) =
      Inr (Some (of_nat (0 + 1 * fp), of_nat (?a + 0 + 1 * fp)), upd_buf i (mark_range ?a (0 + 1 * fp) b) s)"
      using ph sg lt m8 f by (intro reserve_phase) (auto simp del: of_nat_add)
    then show ?thesis by (simp add: upd_buf_same [OF b(1)])
  qed
  show "loop (Suc ?N) (reserve_step (\<lambda>i block. i + 8 \<le> num AND NOT 7) 8
      (\<lambda>block. bind (bitmap_set_8_bits (i, 0) block) (\<lambda>old. ret (old \<noteq> 0))))
      (of_nat fp, of_nat (?a + fp)) (upd_buf i (mark_range ?a fp b) s) =
      Inr (Some (of_nat (fp + 8 * wb), of_nat (?a + fp + 8 * wb)), upd_buf i (mark_range ?a (fp + 8 * wb) b) s)"
    if f: "fp + 8 * wb \<le> F"
  proof (rule reserve_phase)
    have le: "fp + 8 * j \<le> ?N" if "j \<le> wb" for j using that ph(2) by linarith
    have c: "(of_nat (fp + 8 * j) + 8 \<le> num AND NOT 7) = (j < wb)" if "j \<le> wb" for j
      using of_nat_plus_8_le [of "fp + 8 * j" num] le [OF that] range b(2)
      by (simp only: wb_def fp_def whole_bytes_step)
    show "of_nat (fp + 8 * j) + 8 \<le> num AND NOT 7" if "j < wb" for j
      using c [of j] that by simp
    show "\<not> of_nat (fp + 8 * wb) + 8 \<le> num AND NOT 7" using c [of wb] by simp
    show "bind (bitmap_set_8_bits (i, 0) (of_nat (?a + fp + 8 * j))) (\<lambda>old. ret (old \<noteq> 0))
        (upd_buf i (mark_range ?a (fp + 8 * j) b) s) = Inr (False, upd_buf i (mark_range ?a (fp + 8 * j + 8) b) s)"
      if j: "j < wb" for j
    proof -
      have "fp + 8 * Suc j \<le> ?N" using le [of "Suc j"] j by simp
      moreover have "(?a + (fp + 8 * j)) mod 8 = 0"
        using ph(3) ph(5) j by (metis add.assoc gr_zeroI mod_mult_self2 not_less_zero)
      moreover have "{?a + (fp + 8 * j)..<?a + (fp + 8 * j) + 8} \<inter> bits b = {}"
      proof -
        have "{?a + (fp + 8 * j)..<?a + (fp + 8 * j) + 8} \<subseteq> {?a..<?a + F}" using f j by auto
        then show ?thesis using free by blast
      qed
      ultimately show ?thesis
        using mark_byte [OF b(1), of ?a "fp + 8 * j"] range b(2) by (simp add: add.assoc del: of_nat_add)
    qed
    show "wb < Suc ?N" using le [of wb] by linarith
  qed simp
  show "loop (Suc ?N) (reserve_step (\<lambda>i block. i < num) 1 (bitmap_set_bit (i, 0)))
      (of_nat (fp + 8 * wb), of_nat (?a + fp + 8 * wb)) (upd_buf i (mark_range ?a (fp + 8 * wb) b) s) =
      Inr (Some (num, start + num), upd_buf i (mark_range ?a ?N b) s)" if f: "?N \<le> F"
  proof -
    let ?i0 = "fp + 8 * wb"
    have le: "?i0 \<le> ?N" by (rule ph(2))
    have "loop (Suc ?N) (reserve_step (\<lambda>i block. i < num) 1 (bitmap_set_bit (i, 0)))
      (of_nat ?i0, of_nat (?a + ?i0)) (upd_buf i (mark_range ?a ?i0 b) s) =
      Inr (Some (of_nat (?i0 + 1 * (?N - ?i0)), of_nat (?a + ?i0 + 1 * (?N - ?i0))),
        upd_buf i (mark_range ?a (?i0 + 1 * (?N - ?i0)) b) s)"
      using sg lt le f by (intro reserve_phase) (auto simp add: add.assoc simp del: of_nat_add)
    then show ?thesis using le by (simp add: add.assoc)
  qed
qed

lemma reserve_blocks_run:
  assumes "group_bitmap s g i b" and "num \<le> bg_free_blocks (w_bgs s ! g)"
    and "unat start + unat num \<le> 8 * length b"
    and "{unat start..<unat start + unat num} \<inter> bits b = {}"
  shows "reserve_blocks g start num s =
    Inr (0, upd_bg g (after_reserve start num) (upd_buf i (mark_range (unat start) (unat num) b) s))"
proof -
  have b: "w_mem s i = Some b" "8 * length b + 8 < 4294967296" and g: "g < length (w_bgs s)"
    and p: "bg_block_bitmap (w_bgs s ! g) = (i, 0)"
    using assms(1) by (auto simp: group_bitmap_def)
  note l = reserve_loops [OF b assms(3,4) order_refl]
    phases(1,2) [of "unat start" "unat num"]
  show ?thesis
    unfolding reserve_blocks_def
    using g p assms(2) l
    by (simp add: bg_run Let_def bind_def sq_def ret_def upd_bg_def after_reserve_def not_less del: of_nat_add)
qed

text \<open>A block of the range that is already used is noticed by whichever loop meets it.\<close>

lemma reserve_blocks_taken:
  assumes "group_bitmap s g i b" and "num \<le> bg_free_blocks (w_bgs s ! g)"
    and range: "unat start + unat num \<le> 8 * length b"
    and "{unat start..<unat start + unat num} \<inter> bits b \<noteq> {}" and force: "\<not> w_force s"
  shows "reserve_blocks g start num s = Inl Exit_Failure"
proof -
  let ?a = "unat start" and ?N = "unat num"
  define fp where "fp = first_part ?a ?N"
  define wb where "wb = whole_bytes ?a ?N"
  define F where "F = (LEAST q. ?a + q \<in> bits b)"
  have b: "w_mem s i = Some b" "8 * length b + 8 < 4294967296" and g: "g < length (w_bgs s)"
    and p: "bg_block_bitmap (w_bgs s ! g) = (i, 0)"
    using assms(1) by (auto simp: group_bitmap_def)
  obtain q where q: "q < ?N" "?a + q \<in> bits b"
    using assms(4) by (auto dest!: le_Suc_ex)
  have Fb: "?a + F \<in> bits b" unfolding F_def using q(2) by (rule LeastI)
  have "F \<le> q" unfolding F_def using q(2) by (rule Least_le)
  then have FN: "F < ?N" using q(1) by linarith
  have free: "{?a..<?a + F} \<inter> bits b = {}"
    using not_less_Least [of _ "\<lambda>q. ?a + q \<in> bits b", folded F_def] by (fastforce dest: le_Suc_ex)
  note l = reserve_loops [OF b range free less_imp_le [OF FN], folded fp_def wb_def]
  note ph = phases [where a = ?a and N = ?N, folded fp_def wb_def]
  have w: "unat (of_nat x :: u32) = x" if "x \<le> 8 * length b" for x
    using that b(2) by (intro unat_of_nat_u32) linarith
  have sg: "bitmap_set_bit (i, 0) (of_nat (?a + q)) (upd_buf i (mark_range ?a q b) s) =
      Inr (False, upd_buf i (mark_range ?a (q + 1) b) s)" if "q < F" for q
  proof -
    have "?a + q \<in> {?a..<?a + F}" using that by simp
    then have "?a + q \<notin> bits b" using free by blast
    then show ?thesis using mark_single [OF b(1), of ?a q] that FN range b(2) by (simp del: of_nat_add)
  qed
  have sgF: "bitmap_set_bit (i, 0) (of_nat (?a + F)) (upd_buf i (mark_range ?a F b) s) =
      Inr (True, upd_buf i (mark_range ?a F b) s)"
    using mark_single [OF b(1), of ?a F] Fb FN range b(2) by (simp del: of_nat_add)
  have lt: "(of_nat q < num) = (q < ?N)" if "q \<le> ?N" for q
    using that range w [of q] by (simp add: word_less_nat_alt)
  have m8: "((of_nat (?a + q) :: u32) mod 8 = 0) = ((?a + q) mod 8 = 0)" if "q \<le> ?N" for q
    using that range w [of "?a + q"] by (simp only: word_mod_8)
  let ?l1 = "loop (Suc ?N) (reserve_step (\<lambda>i block. i < num \<and> block mod 8 \<noteq> 0) 1 (bitmap_set_bit (i, 0)))"
  let ?l2 = "loop (Suc ?N) (reserve_step (\<lambda>i block. i + 8 \<le> num AND NOT 7) 8
      (\<lambda>block. bind (bitmap_set_8_bits (i, 0) block) (\<lambda>old. ret (old \<noteq> 0))))"
  let ?l3 = "loop (Suc ?N) (reserve_step (\<lambda>i block. i < num) 1 (bitmap_set_bit (i, 0)))"
  have run: "reserve_blocks g start num s = Inl Exit_Failure"
    if "?l1 (0, start) s = Inl Exit_Failure \<or> (\<exists>x s1. ?l1 (0, start) s = Inr (Some x, s1) \<and>
      (?l2 x s1 = Inl Exit_Failure \<or> (\<exists>y s2. ?l2 x s1 = Inr (Some y, s2) \<and> ?l3 y s2 = Inl Exit_Failure)))"
    using that g p assms(2)
    by (auto simp: reserve_blocks_def bg_run bind_def Let_def)
  consider "F < fp" | "fp \<le> F" "F < fp + 8 * wb" | "fp + 8 * wb \<le> F" by linarith
  then show ?thesis
  proof cases
    case 1
    have "?l1 (of_nat 0, of_nat (?a + 0)) (upd_buf i (mark_range ?a 0 b) s) = Inl Exit_Failure"
    proof (rule reserve_phase_taken [where m = F and k = 1])
      show "of_nat (0 + 1 * j) < num \<and> (of_nat (?a + 0 + 1 * j) :: u32) mod 8 \<noteq> 0" if "j \<le> F" for j
        using that 1 ph(1,4) lt m8 FN by (auto simp del: of_nat_add)
      show "bitmap_set_bit (i, 0) (of_nat (?a + 0 + 1 * F)) (upd_buf i (mark_range ?a (0 + 1 * F) b) s) =
          Inr (True, upd_buf i (mark_range ?a F b) s)"
        using sgF by (simp del: of_nat_add)
    qed (use sg sgF force FN in \<open>auto simp del: of_nat_add\<close>)
    then have "?l1 (0, start) s = Inl Exit_Failure" by (simp add: upd_buf_same [OF b(1)])
    then show ?thesis by (intro run) blast
  next
    case 2
    define m where "m = (F - fp) div 8"
    have m: "fp + 8 * m \<le> F" "F < fp + 8 * m + 8" "m < wb" using 2 unfolding m_def by auto
    have le: "fp + 8 * j \<le> ?N" if "j \<le> wb" for j using that ph(2) by linarith
    have c: "of_nat (fp + 8 * j) + 8 \<le> num AND NOT 7" if "j < wb" for j
      using of_nat_plus_8_le [of "fp + 8 * j" num] le [of j] that range b(2)
      by (simp only: wb_def fp_def whole_bytes_step)
    have al: "(?a + (fp + 8 * j)) mod 8 = 0" if "j < wb" for j
      using ph(3) ph(5) that by (metis add.assoc gr_zeroI mod_mult_self2 not_less_zero)
    have by8: "bind (bitmap_set_8_bits (i, 0) (of_nat (?a + fp + 8 * j))) (\<lambda>old. ret (old \<noteq> 0))
        (upd_buf i (mark_range ?a (fp + 8 * j) b) s) =
        Inr (j = m, upd_buf i (mark_range ?a (fp + 8 * j + 8) b) s)" if "j \<le> m" for j
    proof -
      have j: "j < wb" and "fp + 8 * Suc j \<le> ?N" using le [of "Suc j"] that m(3) by simp_all
      moreover have "({?a + (fp + 8 * j)..<?a + (fp + 8 * j) + 8} \<inter> bits b \<noteq> {}) = (j = m)"
      proof (cases "j = m")
        case True
        then have "?a + F \<in> {?a + (fp + 8 * j)..<?a + (fp + 8 * j) + 8}" using m by simp
        then show ?thesis using Fb True by blast
      next
        case False
        then have "Suc j \<le> m" using that by simp
        then have "8 * Suc j \<le> 8 * m" by (rule mult_le_mono2)
        then have "{?a + (fp + 8 * j)..<?a + (fp + 8 * j) + 8} \<subseteq> {?a..<?a + F}" using m(1) by auto
        then show ?thesis using free False by blast
      qed
      ultimately show ?thesis
        using mark_byte [OF b(1), of ?a "fp + 8 * j", OF _ _ al [OF j]] range b(2) by (simp add: add.assoc del: of_nat_add)
    qed
    have "?l2 (of_nat fp, of_nat (?a + fp)) (upd_buf i (mark_range ?a fp b) s) = Inl Exit_Failure"
    proof (rule reserve_phase_taken [where m = m and k = 8])
      show "bind (bitmap_set_8_bits (i, 0) (of_nat (?a + fp + 8 * m))) (\<lambda>old. ret (old \<noteq> 0))
          (upd_buf i (mark_range ?a (fp + 8 * m) b) s) = Inr (True, upd_buf i (mark_range ?a (fp + 8 * m + 8) b) s)"
        using by8 [of m] by simp
    qed (use by8 c m force le [of wb] in auto)
    then show ?thesis using l(1) [OF 2(1)] by (intro run) blast
  next
    case 3
    let ?i0 = "fp + 8 * wb"
    have "?l3 (of_nat ?i0, of_nat (?a + ?i0)) (upd_buf i (mark_range ?a ?i0 b) s) = Inl Exit_Failure"
    proof (rule reserve_phase_taken [where m = "F - ?i0" and k = 1])
      show "of_nat (?i0 + 1 * j) < num" if "j \<le> F - ?i0" for j
        using that 3 lt [of "?i0 + j"] FN by simp
      show "bitmap_set_bit (i, 0) (of_nat (?a + ?i0 + 1 * (F - ?i0))) (upd_buf i (mark_range ?a (?i0 + 1 * (F - ?i0)) b) s) =
          Inr (True, upd_buf i (mark_range ?a F b) s)"
        using sgF 3 by (simp add: add.assoc del: of_nat_add)
    qed (use sg sgF 3 force FN in \<open>auto simp add: add.assoc simp del: of_nat_add\<close>)
    then show ?thesis using l(1) l(2) 3 by (intro run) (auto simp: add.assoc simp del: of_nat_add)
  qed
qed

lemma reserve_blocks_too_many:
  "g < length (w_bgs s) \<Longrightarrow> bg_free_blocks (w_bgs s ! g) < num \<Longrightarrow> reserve_blocks g start num s = Inr (- 1, s)"
  by (simp add: reserve_blocks_def bg_run ret_def)

end
