(* ===== verification/Group_Inv.thy ===== *)
theory Group_Inv
  imports Group_Correct
begin

text \<open>
  The invariant of the block groups: the used blocks of a group are its first \<open>first_free_block\<close>
  ones and whatever lies beyond the end of the file system, the \<open>free_blocks\<close> between them are
  free.  Setting up a group establishes it, allocating from a group and giving blocks back keep it.
\<close>

section \<open>The shape of one group\<close>

definition group_shape :: "nat \<Rightarrow> block_group_info \<Rightarrow> u8 list \<Rightarrow> bool" where
  "group_shape B bg b \<longleftrightarrow>
     unat (bg_first_free_block bg) + unat (bg_free_blocks bg) \<le> B \<and> B \<le> 8 * length b \<and>
     bits b \<inter> {..<B} = {..<unat (bg_first_free_block bg)} \<union>
       {unat (bg_first_free_block bg) + unat (bg_free_blocks bg)..<B}"

lemma group_shape_free:
  "group_shape B bg b \<Longrightarrow> n \<le> unat (bg_free_blocks bg) \<Longrightarrow>
   {unat (bg_first_free_block bg)..<unat (bg_first_free_block bg) + n} \<inter> bits b = {}"
proof -
  assume s: "group_shape B bg b" and n: "n \<le> unat (bg_free_blocks bg)"
  have "j \<notin> bits b" if "unat (bg_first_free_block bg) \<le> j" "j < unat (bg_first_free_block bg) + n" for j
  proof
    assume "j \<in> bits b"
    moreover have "j < B" using s n that by (auto simp: group_shape_def)
    ultimately have "j \<in> bits b \<inter> {..<B}" by simp
    then have "j \<in> {..<unat (bg_first_free_block bg)} \<union>
       {unat (bg_first_free_block bg) + unat (bg_free_blocks bg)..<B}"
      using s by (simp only: group_shape_def)
    then show False using that n by auto
  qed
  then show ?thesis by fastforce
qed

lemma group_shape_bits:
  "group_shape B bg b \<Longrightarrow> bits b \<inter> {..<B} = {..<unat (bg_first_free_block bg)} \<union>
     {unat (bg_first_free_block bg) + unat (bg_free_blocks bg)..<B}"
  by (simp add: group_shape_def)

lemma group_shape_reserve:
  assumes s: "group_shape B bg b" and n: "num \<le> bg_free_blocks bg" and B: "B < 4294967296"
  shows "group_shape B (after_reserve (bg_first_free_block bg) num bg)
    (mark_range (unat (bg_first_free_block bg)) (unat num) b)"
proof -
  let ?ff = "unat (bg_first_free_block bg)" and ?fr = "unat (bg_free_blocks bg)" and ?n = "unat num"
  have le: "?ff + ?fr \<le> B" "B \<le> 8 * length b" and nn: "?n \<le> ?fr"
    using s n by (auto simp: group_shape_def word_le_nat_alt)
  have u: "unat (bg_free_blocks bg - num) = ?fr - ?n" "unat (bg_first_free_block bg + num) = ?ff + ?n"
    using n le nn B by (simp_all add: unat_sub_le unat_add_u32)
  have "bits (mark_range ?ff ?n b) \<inter> {..<B} = (bits b \<inter> {..<B}) \<union> ({?ff..<?ff + ?n} \<inter> {..<B})"
    using le nn by (subst bits_mark_range) auto
  also have "\<dots> = {..<?ff + ?n} \<union> {?ff + ?fr..<B}"
    unfolding group_shape_bits [OF s] using le nn by auto
  finally show ?thesis
    using le nn u by (simp add: group_shape_def after_reserve_def)
qed

lemma group_shape_overrun:
  assumes s: "group_shape B bg b" and full: "unat (bg_first_free_block bg) + unat (bg_free_blocks bg) = B"
    and n: "num \<le> bg_free_blocks bg" and start: "unat start + unat num = B" and B: "B < 4294967296"
  shows "group_shape B (after_reserve start num bg) (mark_range (unat start) (unat num) b)"
proof -
  let ?ff = "unat (bg_first_free_block bg)" and ?fr = "unat (bg_free_blocks bg)" and ?n = "unat num"
  have le: "B \<le> 8 * length b" and nn: "?n \<le> ?fr"
    using s n by (auto simp: group_shape_def word_le_nat_alt)
  have u: "unat (bg_free_blocks bg - num) = ?fr - ?n" using n by (simp add: unat_sub_le)
  have e: "bits (mark_range (unat start) ?n b) \<inter> {..<B} = {..<?ff} \<union> {unat start..<B}"
  proof -
    have "bits (mark_range (unat start) ?n b) \<inter> {..<B} = (bits b \<inter> {..<B}) \<union> ({unat start..<unat start + ?n} \<inter> {..<B})"
      using le start by (simp only: bits_mark_range Int_Un_distrib2)
    also have "\<dots> = {..<?ff} \<union> {unat start..<B}"
      unfolding group_shape_bits [OF s] full start by auto
    finally show ?thesis .
  qed
  show ?thesis
  proof (cases "start = bg_first_free_block bg")
    case True
    then have "?n = ?fr" using start full by simp
    then have "num = bg_free_blocks bg" by (rule word_unat_eq_iff [THEN iffD2])
    moreover have "unat (start + num) = B" using start B by (simp add: unat_add_u32)
    moreover have "{..<?ff} \<union> {unat start..<B} = {..<B}" using True full by auto
    ultimately show ?thesis
      using True e le by (simp add: group_shape_def after_reserve_def)
  next
    case False
    have "?ff + (?fr - ?n) = unat start" using start full nn by linarith
    then show ?thesis using False e le u start by (simp add: group_shape_def after_reserve_def)
  qed
qed

lemma group_shape_free_blocks:
  assumes s: "group_shape B bg b" and n: "n \<le> bg_first_free_block bg" and B: "B < 4294967296"
  shows "group_shape B (bg\<lparr>bg_free_blocks := bg_free_blocks bg + n, bg_first_free_block := bg_first_free_block bg - n\<rparr>)
    (clear_range (unat (bg_first_free_block bg) - unat n) (unat n) b)"
proof -
  let ?ff = "unat (bg_first_free_block bg)" and ?fr = "unat (bg_free_blocks bg)" and ?n = "unat n"
  have le: "?ff + ?fr \<le> B" "B \<le> 8 * length b" and nn: "?n \<le> ?ff"
    using s n by (auto simp: group_shape_def word_le_nat_alt)
  have u: "unat (bg_first_free_block bg - n) = ?ff - ?n" "unat (bg_free_blocks bg + n) = ?fr + ?n"
    using n le nn B by (simp_all add: unat_sub_le unat_add_u32)
  have "bits (clear_range (?ff - ?n) ?n b) \<inter> {..<B} = (bits b \<inter> {..<B}) - {?ff - ?n..<?ff}"
    using le nn by (subst bits_clear_range) auto
  also have "\<dots> = {..<?ff - ?n} \<union> {?ff + ?fr..<B}"
    unfolding group_shape_bits [OF s] using le nn by auto
  finally show ?thesis
    using le nn u by (simp add: group_shape_def)
qed

section \<open>Giving blocks back\<close>

lemma free_blocks_run:
  assumes "group_bitmap s g i b" and n: "n \<le> bg_first_free_block (w_bgs s ! g)"
    and ff: "unat (bg_first_free_block (w_bgs s ! g)) \<le> 8 * length b"
  shows "free_blocks g n s = Inr ((), upd_bg g (\<lambda>bg. bg\<lparr>bg_free_blocks := bg_free_blocks bg + n,
      bg_first_free_block := bg_first_free_block bg - n\<rparr>)
      (upd_buf i (clear_range (unat (bg_first_free_block (w_bgs s ! g)) - unat n) (unat n) b) s))"
proof -
  let ?f = "bg_first_free_block (w_bgs s ! g)"
  have b: "w_mem s i = Some b" "8 * length b + 8 < 4294967296" and g: "g < length (w_bgs s)"
    and p: "bg_block_bitmap (w_bgs s ! g) = (i, 0)"
    using assms(1) by (auto simp: group_bitmap_def)
  have nn: "unat n \<le> unat ?f" using n by (simp add: word_le_nat_alt)
  let ?body = "\<lambda>k. let block = ?f - 1 - of_nat k in
    modify_u8 (ptr_add (i, 0) (unat (block div 8))) (\<lambda>x. x AND NOT (push_bit (unat (block mod 8)) 1))"
  let ?st = "\<lambda>j. upd_buf i (clear_range (unat ?f - j) j b) s"
  have step: "?body ([0..<unat n] ! j) (?st j) = Inr ((), ?st (Suc j))" if "j < length [0..<unat n]" for j
  proof -
    have j: "j < unat n" using that by simp
    have fp: "unat ?f - 1 - j < 8 * length b" "unat ?f - 1 - j + Suc j = unat ?f" using j nn ff by linarith+
    have u: "unat (?f - 1 - of_nat j) = unat ?f - 1 - j"
    proof -
      have "?f - 1 - of_nat j = of_nat (unat ?f - 1 - j)"
        using j nn by (simp add: of_nat_diff)
      then show ?thesis using unat_lt_u32 [of ?f] by (simp add: unat_of_nat_u32 del: of_nat_diff)
    qed
    have "clear_bit1 (unat ?f - 1 - j) (clear_range (unat ?f - j) j b) = clear_range (unat ?f - Suc j) (Suc j) b"
    proof (rule bits_ext)
      have "bits (clear_range (unat ?f - j) j b) = bits b - {unat ?f - j..<unat ?f}"
        using j nn ff by (subst bits_clear_range) auto
      moreover have "bits (clear_range (unat ?f - Suc j) (Suc j) b) = bits b - {unat ?f - Suc j..<unat ?f}"
        using j nn ff by (subst bits_clear_range) auto
      ultimately show "bits (clear_bit1 (unat ?f - 1 - j) (clear_range (unat ?f - j) j b)) =
          bits (clear_range (unat ?f - Suc j) (Suc j) b)"
        using fp j nn by (auto simp: bits_clear_bit1)
    qed simp
    moreover have "(unat ?f - 1 - j) div 8 < length b" using fp by auto
    ultimately show ?thesis
      using j by (simp add: Let_def ptr_add_def u modify_u8_run clear_bit1_def del: push_bit_of_1)
  qed
  have "for_all [0..<unat n] ?body (?st 0) = Inr ((), ?st (unat n))"
    using for_all_iterate [of "[0..<unat n]" ?body ?st, OF step] by simp
  then have "for_all [0..<unat n] ?body s = Inr ((), ?st (unat n))" by (simp add: upd_buf_same [OF b(1)])
  then show ?thesis
    unfolding free_blocks_def using g p by (simp add: bg_run bind_def sq_def)
qed

section \<open>Allocating from a group\<close>

definition after_alloc :: "u32 \<Rightarrow> block_group_info \<Rightarrow> block_group_info" where
  "after_alloc len bg = (after_reserve (bg_first_free_block bg) len bg)
     \<lparr>bg_data_blocks_used := bg_data_blocks_used bg + len\<rparr>"

definition mark_alloc :: "u32 \<Rightarrow> block_group_info \<Rightarrow> u8 list \<Rightarrow> u8 list" where
  "mark_alloc len bg b = mark_range (unat (bg_first_free_block bg)) (unat len) b"

lemma allocate_from_group_run:
  assumes gb: "group_bitmap s (unat g) i b" and sh: "group_shape B (w_bgs s ! unat g) b"
    and len: "len \<le> bg_free_blocks (w_bgs s ! unat g)"
  shows "ext4_allocate_blocks_from_block_group len g s =
    Inr (bg_first_block (w_bgs s ! unat g) + bg_first_free_block (w_bgs s ! unat g),
      upd_bg (unat g) (after_alloc len) (upd_buf i (mark_alloc len (w_bgs s ! unat g) b) s))"
proof -
  let ?bg = "w_bgs s ! unat g"
  have g: "unat g < length (w_bgs s)" using gb by (simp add: group_bitmap_def)
  have nl: "\<not> bg_free_blocks ?bg < len" using len by (simp add: not_less)
  have le: "unat (bg_first_free_block ?bg) + unat len \<le> 8 * length b"
    using sh len by (auto simp: group_shape_def word_le_nat_alt)
  have run: "reserve_blocks (unat g) (bg_first_free_block ?bg) len s =
      Inr (0, upd_bg (unat g) (after_reserve (bg_first_free_block ?bg) len) (upd_buf i (mark_alloc len ?bg b) s))"
    unfolding mark_alloc_def
    by (rule reserve_blocks_run [OF gb len le]) (use group_shape_free [OF sh] len in \<open>simp add: word_le_nat_alt\<close>)
  show ?thesis
    unfolding ext4_allocate_blocks_from_block_group_def get_free_blocks_def
    using g nl run
    by (simp add: bg_run bind_def sq_def ret_def Let_def after_alloc_def after_reserve_def cong: upd_bg_cong)
qed

lemma allocate_from_group_full:
  assumes "unat g < length (w_bgs s)" and "bg_free_blocks (w_bgs s ! unat g) < len"
  shows "ext4_allocate_blocks_from_block_group len g s = Inr (EXT4_ALLOCATE_FAILED, s)"
  using assms by (simp add: ext4_allocate_blocks_from_block_group_def get_free_blocks_def prog_simps bg_run bind_def ret_def)

section \<open>Setting up a group\<close>

text \<open>The header of group \<open>i\<close> and its size in blocks.\<close>

definition header_len :: "fs_info \<Rightarrow> fs_aux_info \<Rightarrow> u32 \<Rightarrow> u32" where
  "header_len info aux i = (if ext4_bg_has_super_block info i
     then 2 + aux_inode_table_blocks aux + (1 + aux_bg_desc_blocks aux + aux_bg_desc_reserve_blocks aux)
     else 2 + aux_inode_table_blocks aux)"

definition group_start :: "fs_info \<Rightarrow> fs_aux_info \<Rightarrow> u32 \<Rightarrow> u32" where
  "group_start info aux i = aux_first_data_block aux + i * info_blocks_per_group info"

definition group_size :: "fs_info \<Rightarrow> fs_aux_info \<Rightarrow> u32 \<Rightarrow> nat" where
  "group_size info aux i =
     min (unat (info_blocks_per_group info)) (unat (aux_len_blocks aux) - unat (group_start info aux i))"

lemma queue_data_block_run:
  "queue_data_block p len block s =
     Inr ((), s\<lparr>w_queue := fst (queue_db \<lparr>db_id = w_next s, db_block = block, db_len = len, db_source = Db_Data p\<rparr>
                  (w_queue s, w_last_used s)),
               w_last_used := snd (queue_db \<lparr>db_id = w_next s, db_block = block, db_len = len, db_source = Db_Data p\<rparr>
                  (w_queue s, w_last_used s)),
               w_next := Suc (w_next s)\<rparr>)"
  by (simp add: queue_data_block_def queue_new_def modify_def Let_def split: prod.splits)

text \<open>A state with the group's record and bitmap in place, from which the blocks are reserved.\<close>

definition group_record :: "fs_info \<Rightarrow> fs_aux_info \<Rightarrow> u32 \<Rightarrow> nat \<Rightarrow> block_group_info \<Rightarrow> block_group_info" where
  "group_record info aux i m bg =
     bg\<lparr>bg_has_superblock := ext4_bg_has_super_block info i,
        bg_block_bitmap := (m, 0), bg_inode_bitmap := (m, unat (info_block_size info)),
        bg_header_blocks := header_len info aux i, bg_first_block := group_start info aux i,
        bg_data_blocks_used := 0, bg_free_blocks := info_blocks_per_group info, bg_first_free_block := 0,
        bg_free_inodes := info_inodes_per_group info, bg_first_free_inode := 1\<rparr>"

definition overrun :: "fs_info \<Rightarrow> fs_aux_info \<Rightarrow> u32 \<Rightarrow> u32" where
  "overrun info aux i =
     ucast (ucast (group_start info aux i + info_blocks_per_group info) - aux_len_blocks aux :: u64)"

definition queue_of_group :: "world \<Rightarrow> u32 \<Rightarrow> data_block list \<times> data_block option" where
  "queue_of_group s i =
     queue_db \<lparr>db_id = Suc (w_next s),
       db_block = group_start (w_info s) (w_aux s) i +
         (if ext4_bg_has_super_block (w_info s) i
          then 1 + aux_bg_desc_blocks (w_aux s) + aux_bg_desc_reserve_blocks (w_aux s) else 0),
       db_len = 2 * info_block_size (w_info s), db_source = Db_Data (w_next s, 0)\<rparr> (w_queue s, w_last_used s)"

definition fresh_group :: "world \<Rightarrow> u32 \<Rightarrow> world" where
  "fresh_group s i = upd_bg (unat i) (group_record (w_info s) (w_aux s) i (w_next s))
     (s\<lparr>w_mem := (w_mem s)(w_next s := Some (replicate (unat (info_block_size (w_info s)) * 2) 0)),
        w_queue := fst (queue_of_group s i), w_last_used := snd (queue_of_group s i),
        w_next := Suc (Suc (w_next s))\<rparr>)"

lemma sq_set_bg_run: "g < length (w_bgs s) \<Longrightarrow> sq (set_bg g f) n s = n (upd_bg g f s)"
  by (simp add: bg_run sq_ok)

lemma sq_queue_data_block_run:
  "sq (queue_data_block p len block) n s =
     n (s\<lparr>w_queue := fst (queue_db \<lparr>db_id = w_next s, db_block = block, db_len = len, db_source = Db_Data p\<rparr>
                  (w_queue s, w_last_used s)),
          w_last_used := snd (queue_db \<lparr>db_id = w_next s, db_block = block, db_len = len, db_source = Db_Data p\<rparr>
                  (w_queue s, w_last_used s)),
          w_next := Suc (w_next s)\<rparr>)"
  by (rule sq_ok) (rule queue_data_block_run)

lemma bind_calloc_run:
  "bind (calloc n) f s = f (w_next s, 0) (s\<lparr>w_mem := (w_mem s)(w_next s := Some (replicate n 0)), w_next := Suc (w_next s)\<rparr>)"
  by (simp add: bind_def calloc_def Let_def)

lemma init_bg_unfold:
  assumes "unat i < length (w_bgs s)"
  shows "init_bg i s =
    bind (reserve_blocks (unat i) 0 (header_len (w_info s) (w_aux s) i)) (\<lambda>r.
      sq (only_if (r < 0) error)
      (if 0 < overrun (w_info s) (w_aux s) i
       then bind (reserve_blocks (unat i) (info_blocks_per_group (w_info s) - overrun (w_info s) (w_aux s) i)
              (overrun (w_info s) (w_aux s) i)) (\<lambda>_. ret ())
       else ret ())) (fresh_group s i)"
proof -
  have q: "queue_db \<lparr>db_id = Suc (w_next s), db_block = (if c then x + y else x), db_len = l, db_source = d\<rparr> =
      queue_db \<lparr>db_id = Suc (w_next s), db_block = x + (if c then y else 0), db_len = l, db_source = d\<rparr>" for c x y l d
    by simp
  show ?thesis
    using assms unfolding init_bg_def
    by (cases "ext4_bg_has_super_block (w_info s) i") (simp_all add: bind_run(2) bind_calloc_run sq_set_bg_run sq_queue_data_block_run Let_def q
        ptr_add_def fresh_group_def queue_of_group_def group_record_def header_len_def group_start_def overrun_def
        upd_bg_def
        split del: if_split cong del: if_weak_cong)
qed

end
