(* ===== verification/Group_Init.thy ===== *)
theory Group_Init
  imports Group_Inv
begin

text \<open>
  \<open>init_bg\<close> and \<open>block_allocator_init\<close> establish the invariant of the groups: the header of each
  group is reserved, and so are the blocks the last group has beyond the end of the file system.
\<close>

section \<open>One group\<close>

text \<open>The geometry one group needs: its blocks are numbered within 32 bits and fit the bitmap, and its
  header fits the part of it that exists.\<close>

definition group_geometry :: "fs_info \<Rightarrow> fs_aux_info \<Rightarrow> u32 \<Rightarrow> bool" where
  "group_geometry info aux i \<longleftrightarrow>
     unat (aux_first_data_block aux) + unat i * unat (info_blocks_per_group info)
       + unat (info_blocks_per_group info) < 4294967295 \<and>
     unat (info_blocks_per_group info) \<le> 8 * unat (info_block_size info) \<and>
     16 * unat (info_block_size info) + 8 < 4294967296 \<and>
     unat (aux_len_blocks aux) < 4294967296 \<and>
     unat (group_start info aux i) < unat (aux_len_blocks aux) \<and>
     unat (header_len info aux i) \<le> group_size info aux i"

lemma unat_group_start:
  assumes "unat (aux_first_data_block aux) + unat i * unat (info_blocks_per_group info)
       + unat (info_blocks_per_group info) < 4294967295"
  shows "unat (group_start info aux i) = unat (aux_first_data_block aux) + unat i * unat (info_blocks_per_group info)"
proof -
  have m: "unat (i * info_blocks_per_group info) = unat i * unat (info_blocks_per_group info)"
    by (rule unat_mult_u32) (use assms in simp)
  show ?thesis unfolding group_start_def
    by (subst unat_add_u32) (use assms m in simp_all)
qed

text \<open>The overrun: for the last group the blocks beyond the end; for any other group the subtraction
  wraps to a number larger than what is free, and nothing is reserved.\<close>

lemma overrun_value:
  assumes g: "group_geometry info aux i"
  shows "unat (overrun info aux i) =
    (if unat (aux_len_blocks aux) \<le> unat (group_start info aux i) + unat (info_blocks_per_group info)
     then unat (info_blocks_per_group info) - group_size info aux i
     else 4294967296 - (unat (aux_len_blocks aux) - unat (group_start info aux i) - unat (info_blocks_per_group info)))"
proof -
  let ?e = "group_start info aux i + info_blocks_per_group info" and ?L = "aux_len_blocks aux"
  have e: "unat ?e = unat (group_start info aux i) + unat (info_blocks_per_group info)"
    by (rule unat_add_u32) (use g unat_group_start in \<open>simp add: group_geometry_def\<close>)
  have ue: "unat (ucast ?e :: u64) = unat ?e" by simp
  have L: "unat ?L < 4294967296" and st: "unat (group_start info aux i) < unat ?L"
    using g by (simp_all add: group_geometry_def)
  have o: "unat (overrun info aux i) = unat (ucast ?e - ?L :: u64) mod 4294967296"
    unfolding overrun_def by (simp add: unsigned_ucast_eq take_bit_eq_mod)
  show ?thesis
  proof (cases "unat ?L \<le> unat ?e")
    case True
    then have "?L \<le> ucast ?e" by (simp add: word_le_nat_alt)
    then have "unat (ucast ?e - ?L :: u64) = unat ?e - unat ?L" by (simp add: unat_sub_le)
    moreover have "unat ?e - unat ?L < 4294967296" using unat_lt_u32 [of ?e] by linarith
    ultimately have "unat (overrun info aux i) = unat ?e - unat ?L" using o by simp
    then show ?thesis using True e st by (simp add: group_size_def min_def add.commute)
  next
    case False
    then have lt: "unat ?e < unat ?L" by simp
    then have "unat (ucast ?e - ?L :: u64) = 18446744073709551616 - (unat ?L - unat ?e)"
      by (subst unat_sub_if') (simp add: word_le_nat_alt)
    moreover have "(18446744073709551616 - d) mod 4294967296 = 4294967296 - d" if "0 < d" "d < 4294967296" for d :: nat
    proof -
      have "18446744073709551616 - d = (4294967296 - d) + 4294967296 * 4294967295" using that by simp
      then have "(18446744073709551616 - d) mod 4294967296 = (4294967296 - d) mod 4294967296"
        by (simp only: mod_mult_self2)
      then show ?thesis using that by simp
    qed
    moreover have "0 < unat ?L - unat ?e" "unat ?L - unat ?e < 4294967296" using lt L by simp_all
    ultimately have "unat (overrun info aux i) = 4294967296 - (unat ?L - unat ?e)" unfolding o by (simp only:)
    then show ?thesis using False e by simp
  qed
qed

lemma group_size_le: "group_size info aux i \<le> unat (info_blocks_per_group info)"
  by (simp add: group_size_def)

lemma group_size_full:
  "group_geometry info aux i \<Longrightarrow>
   \<not> unat (aux_len_blocks aux) \<le> unat (group_start info aux i) + unat (info_blocks_per_group info) \<Longrightarrow>
   group_size info aux i = unat (info_blocks_per_group info)"
  by (simp add: group_size_def min_def)

text \<open>What the group's record says once it is set up.\<close>

definition initial_group :: "fs_info \<Rightarrow> fs_aux_info \<Rightarrow> u32 \<Rightarrow> nat \<Rightarrow> block_group_info \<Rightarrow> bool" where
  "initial_group info aux i m bg \<longleftrightarrow>
     bg_block_bitmap bg = (m, 0) \<and> bg_inode_bitmap bg = (m, unat (info_block_size info)) \<and>
     bg_first_block bg = group_start info aux i \<and>
     bg_has_superblock bg = ext4_bg_has_super_block info i \<and>
     bg_header_blocks bg = header_len info aux i \<and> bg_data_blocks_used bg = 0 \<and>
     unat (bg_first_free_block bg) = (if unat (header_len info aux i) = group_size info aux i
        then unat (info_blocks_per_group info) else unat (header_len info aux i)) \<and>
     unat (bg_free_blocks bg) = group_size info aux i - unat (header_len info aux i) \<and>
     bg_free_inodes bg = info_inodes_per_group info \<and> bg_first_free_inode bg = 1"

lemma initial_group_reserved:
  "bg_block_bitmap (after_reserve st n bg) = bg_block_bitmap bg"
  "bg_inode_bitmap (after_reserve st n bg) = bg_inode_bitmap bg"
  "bg_first_block (after_reserve st n bg) = bg_first_block bg"
  "bg_has_superblock (after_reserve st n bg) = bg_has_superblock bg"
  "bg_header_blocks (after_reserve st n bg) = bg_header_blocks bg"
  "bg_data_blocks_used (after_reserve st n bg) = bg_data_blocks_used bg"
  "bg_free_inodes (after_reserve st n bg) = bg_free_inodes bg"
  "bg_first_free_inode (after_reserve st n bg) = bg_first_free_inode bg"
  "bg_free_blocks (after_reserve st n bg) = bg_free_blocks bg - n"
  "bg_first_free_block (after_reserve st n bg) =
     (if st = bg_first_free_block bg then st + n else bg_first_free_block bg)"
  by (simp_all add: after_reserve_def)

lemma init_bg_run:
  assumes geo: "group_geometry (w_info s) (w_aux s) i" and i: "unat i < length (w_bgs s)"
  defines "B \<equiv> unat (info_blocks_per_group (w_info s))"
  shows "\<exists>bg b. init_bg i s = Inr ((), upd_bg (unat i) (\<lambda>_. bg) (upd_buf (w_next s) b (fresh_group s i))) \<and>
    group_shape B bg b \<and> length b = 2 * unat (info_block_size (w_info s)) \<and>
    initial_group (w_info s) (w_aux s) i (w_next s) bg"
proof -
  let ?info = "w_info s" and ?aux = "w_aux s" and ?g = "unat i" and ?m = "w_next s"
  let ?h = "header_len ?info ?aux i" and ?o = "overrun ?info ?aux i" and ?size = "group_size ?info ?aux i"
  let ?z = "replicate (unat (info_block_size ?info) * 2) (0 :: u8)"
  let ?r = "group_record ?info ?aux i ?m (w_bgs s ! ?g)"
  let ?b1 = "mark_range 0 (unat ?h) ?z" and ?r1 = "after_reserve 0 ?h ?r"
  let ?s1 = "upd_bg ?g (after_reserve 0 ?h) (upd_buf ?m ?b1 (fresh_group s i))"
  have hB: "unat ?h \<le> ?size" "?size \<le> B" "B \<le> 8 * unat (info_block_size ?info)" "B < 4294967295"
      "16 * unat (info_block_size ?info) + 8 < 4294967296"
    using geo by (simp_all add: group_geometry_def group_size_le B_def)
  have gr: "w_bgs (fresh_group s i) ! ?g = ?r" "?g < length (w_bgs (fresh_group s i))"
    using i by (simp_all add: fresh_group_def upd_bg_def)
  have gb: "group_bitmap (fresh_group s i) ?g ?m ?z"
    using i hB by (simp add: group_bitmap_def gr) (simp add: fresh_group_def group_record_def upd_bg_def)
  have sh0: "group_shape B ?r ?z"
    using hB by (simp add: group_shape_def group_record_def B_def)
  have hle: "?h \<le> bg_free_blocks ?r" using hB by (simp add: group_record_def word_le_nat_alt B_def)
  have ff: "bg_first_free_block ?r = 0" by (simp add: group_record_def)
  have run1: "reserve_blocks ?g 0 ?h (fresh_group s i) = Inr (0, ?s1)"
    using reserve_blocks_run [OF gb, of ?h 0] hle hB gr by simp
  have sh1: "group_shape B ?r1 ?b1"
    using group_shape_reserve [OF sh0 hle] hB by (simp add: ff)
  have s1: "w_bgs ?s1 ! ?g = ?r1" "?g < length (w_bgs ?s1)" using gr by simp_all
  have gb1: "group_bitmap ?s1 ?g ?m ?b1"
    using gb by (simp add: group_bitmap_def initial_group_reserved)
  have fr1: "unat (bg_free_blocks ?r1) = B - unat ?h" "bg_first_free_block ?r1 = ?h"
    using hle by (simp_all add: initial_group_reserved unat_sub_le ff) (simp_all add: group_record_def B_def)
  have rec1: "initial_group ?info ?aux i ?m ?r1" if "?size = B"
    using that fr1 B_def by (simp add: initial_group_def initial_group_reserved group_record_def)
  note unf = init_bg_unfold [OF i]
  show ?thesis
  proof (cases "unat (aux_len_blocks ?aux) \<le> unat (group_start ?info ?aux i) + unat (info_blocks_per_group ?info)")
    case True
    then have o: "unat ?o = B - ?size" using overrun_value [OF geo] by (simp add: B_def)
    show ?thesis
    proof (cases "?o = 0")
      case True
      then have "?size = B" using o hB by simp
      moreover have "init_bg i s = Inr ((), ?s1)" using unf run1 True by (simp add: prog_simps bind_def)
      moreover have "?s1 = upd_bg ?g (\<lambda>_. ?r1) (upd_buf ?m ?b1 (fresh_group s i))"
        using gr by (intro upd_bg_cong) simp
      ultimately show ?thesis using sh1 rec1 by (intro exI [of _ ?r1] exI [of _ ?b1]) simp
    next
      case False
      let ?st = "info_blocks_per_group ?info - ?o"
      let ?b2 = "mark_range (unat ?st) (unat ?o) ?b1" and ?r2 = "after_reserve ?st ?o ?r1"
      have st: "unat ?st = ?size" using o hB by (simp add: unat_sub_le word_le_nat_alt B_def)
      have ole: "?o \<le> bg_free_blocks ?r1" using o fr1 hB by (simp add: word_le_nat_alt)
      have disj: "{?size..<B} \<inter> bits ?b1 = {}"
        using hB by (auto simp: bits_mark_range)
      have run2: "reserve_blocks ?g ?st ?o ?s1 = Inr (0, upd_bg ?g (after_reserve ?st ?o) (upd_buf ?m ?b2 ?s1))"
        using reserve_blocks_run [OF gb1, of ?o ?st] s1 ole disj o st hB by simp
      have "group_shape B ?r2 ?b2"
        by (rule group_shape_overrun [OF sh1 _ ole]) (use fr1 hB o st in simp_all)
      moreover have "upd_bg ?g (after_reserve ?st ?o) (upd_buf ?m ?b2 ?s1) =
          upd_bg ?g (\<lambda>_. ?r2) (upd_buf ?m ?b2 (fresh_group s i))"
        using gr by (simp add: upd_bg_def upd_buf_def)
      moreover have "init_bg i s = Inr ((), upd_bg ?g (after_reserve ?st ?o) (upd_buf ?m ?b2 ?s1))"
        using unf run1 run2 False by (simp add: prog_simps bind_def word_gt_0)
      moreover have "initial_group ?info ?aux i ?m ?r2"
      proof -
        have "unat (bg_free_blocks ?r2) = ?size - unat ?h"
          using fr1 ole o hB by (simp add: initial_group_reserved(9) [of ?st ?o ?r1] unat_sub_le)
        moreover have "?st = ?h \<longleftrightarrow> unat ?h = ?size" using st by (auto simp: word_eq_unat)
        moreover have "unat (?st + ?o) = B"
          using st o hB unat_add_u32 [of ?st ?o] by simp
        ultimately show ?thesis
          using fr1 B_def by (simp add: initial_group_def initial_group_reserved group_record_def)
      qed
      ultimately show ?thesis by (intro exI [of _ ?r2] exI [of _ ?b2]) simp
    qed
  next
    case False
    have size: "?size = B" using group_size_full [OF geo False] by (simp add: B_def)
    have "unat ?o = 4294967296 - (unat (aux_len_blocks ?aux) - unat (group_start ?info ?aux i) - B)"
      using overrun_value [OF geo] False by (simp add: B_def)
    moreover have "unat (aux_len_blocks ?aux) < 4294967296" using geo by (simp add: group_geometry_def)
    ultimately have big: "B - unat ?h < unat ?o" using hB by linarith
    then have "bg_free_blocks (w_bgs ?s1 ! ?g) < ?o" using fr1 s1 by (simp add: word_less_nat_alt)
    then have run2: "reserve_blocks ?g (info_blocks_per_group ?info - ?o) ?o ?s1 = Inr (- 1, ?s1)"
      using s1 by (intro reserve_blocks_too_many)
    have "init_bg i s = Inr ((), ?s1)" using unf run1 run2 by (simp add: prog_simps bind_def)
    moreover have "?s1 = upd_bg ?g (\<lambda>_. ?r1) (upd_buf ?m ?b1 (fresh_group s i))"
      using gr by (intro upd_bg_cong) simp
    ultimately show ?thesis using sh1 rec1 [OF size] by (intro exI [of _ ?r1] exI [of _ ?b1]) simp
  qed
qed

section \<open>All groups\<close>

text \<open>Group \<open>g\<close> is in order: its bitmap is a buffer of its own that has the shape its record says.\<close>

definition group_ok :: "world \<Rightarrow> nat \<Rightarrow> bool" where
  "group_ok s g \<longleftrightarrow> (\<exists>b. group_bitmap s g (fst (bg_block_bitmap (w_bgs s ! g))) b \<and>
     group_shape (unat (info_blocks_per_group (w_info s))) (w_bgs s ! g) b) \<and>
     unat (bg_first_block (w_bgs s ! g)) =
       unat (aux_first_data_block (w_aux s)) + g * unat (info_blocks_per_group (w_info s)) \<and>
     unat (bg_first_block (w_bgs s ! g)) + unat (info_blocks_per_group (w_info s)) < 4294967295"

definition bitmap_id :: "world \<Rightarrow> nat \<Rightarrow> nat" where
  "bitmap_id s g = fst (bg_block_bitmap (w_bgs s ! g))"

definition groups_ok :: "world \<Rightarrow> nat \<Rightarrow> bool" where
  "groups_ok s n \<longleftrightarrow> n \<le> length (w_bgs s) \<and> (\<forall>g<n. group_ok s g \<and> bitmap_id s g < w_next s) \<and>
     inj_on (bitmap_id s) {..<n}"

text \<open>The invariant of the allocator.\<close>

definition alloc_inv :: "world \<Rightarrow> bool" where
  "alloc_inv s \<longleftrightarrow> unat (aux_groups (w_aux s)) = length (w_bgs s) \<and> groups_ok s (length (w_bgs s))"

text \<open>A step that changes the record and the bitmap of one group only.\<close>

lemma group_ok_other:
  assumes "group_ok s g" and "g \<noteq> h" and "bitmap_id s g \<noteq> i"
  shows "group_ok (upd_bg h f (upd_buf i b s)) g"
  using assms by (simp add: group_ok_def group_bitmap_def bitmap_id_def)

lemma bitmap_id_upd:
  "bitmap_id (upd_bg h f (upd_buf i b s)) g = (if g = h \<and> h < length (w_bgs s)
     then fst (bg_block_bitmap (f (w_bgs s ! h))) else bitmap_id s g)"
  by (cases "h < length (w_bgs s)") (auto simp: bitmap_id_def upd_bg_def nth_list_update list_update_beyond not_less)

lemma groups_ok_update:
  assumes ok: "groups_ok s n" and g: "g < n" and bm: "group_bitmap s g i b"
    and sh: "group_shape (unat (info_blocks_per_group (w_info s))) (f (w_bgs s ! g)) b'"
    and same: "bg_block_bitmap (f (w_bgs s ! g)) = bg_block_bitmap (w_bgs s ! g)"
      "bg_first_block (f (w_bgs s ! g)) = bg_first_block (w_bgs s ! g)" and len: "length b' = length b"
  shows "groups_ok (upd_bg g f (upd_buf i b' s)) n"
proof -
  have n: "n \<le> length (w_bgs s)" and all: "\<And>h. h < n \<Longrightarrow> group_ok s h \<and> bitmap_id s h < w_next s"
    and inj: "inj_on (bitmap_id s) {..<n}"
    using ok by (auto simp: groups_ok_def)
  have id: "bitmap_id s g = i" using bm by (simp add: group_bitmap_def bitmap_id_def)
  have ids: "bitmap_id (upd_bg g f (upd_buf i b' s)) h = bitmap_id s h" for h
    using same n g by (simp add: bitmap_id_upd) (simp add: bitmap_id_def)
  have "group_ok (upd_bg g f (upd_buf i b' s)) h" if h: "h < n" for h
  proof (cases "h = g")
    case True
    then show ?thesis using all [OF g] bm sh same len n g by (auto simp: group_ok_def group_bitmap_def)
  next
    case False
    then have "bitmap_id s h \<noteq> i" using inj h g id by (auto simp: inj_on_def)
    then show ?thesis using False all [OF h] by (intro group_ok_other) auto
  qed
  moreover have "inj_on (bitmap_id (upd_bg g f (upd_buf i b' s))) {..<n}" using inj by (simp add: inj_on_def ids)
  ultimately show ?thesis using n all by (simp add: groups_ok_def ids)
qed

lemma groups_ok_bitmap:
  assumes "groups_ok s n" and "g < n"
  obtains b where "group_bitmap s g (bitmap_id s g) b"
    and "group_shape (unat (info_blocks_per_group (w_info s))) (w_bgs s ! g) b"
    and "unat (bg_first_block (w_bgs s ! g)) =
       unat (aux_first_data_block (w_aux s)) + g * unat (info_blocks_per_group (w_info s))"
    and "unat (bg_first_block (w_bgs s ! g)) + unat (info_blocks_per_group (w_info s)) < 4294967295"
  using assms by (auto simp: groups_ok_def group_ok_def bitmap_id_def)

end
