(* ===== verification/Allocator.thy ===== *)
theory Allocator
  imports Group_Init
begin

text \<open>
  The allocator as its clients see it: \<open>block_allocator_init\<close> establishes the invariant of all
  groups, a search takes the first group that fits, and every allocation hands out blocks that
  nobody had before.  The contract is a locale; the block groups are its instance.
\<close>

section \<open>Setting up all groups\<close>

lemma for_all_append: "for_all (is @ js) body s = bind (for_all is body) (\<lambda>_. for_all js body) s"
  by (induction "is" arbitrary: s) (simp_all add: prog_simps bind_def sq_def split: sum.splits prod.splits)

lemma upto_u32_simps: "length (upto_u32 n) = unat n" "i < unat n \<Longrightarrow> upto_u32 n ! i = of_nat i"
  by (simp_all add: upto_u32_def)

lemma groups_ok_init:
  assumes ok: "groups_ok s n" and n: "n < length (w_bgs s)" and i: "unat i = n"
    and geo: "group_geometry (w_info s) (w_aux s) i"
  shows "\<exists>s'. init_bg i s = Inr ((), s') \<and> groups_ok s' (Suc n) \<and> w_info s' = w_info s \<and> w_aux s' = w_aux s \<and>
    length (w_bgs s') = length (w_bgs s) \<and> (\<forall>h. h \<noteq> n \<longrightarrow> w_bgs s' ! h = w_bgs s ! h) \<and>
    initial_group (w_info s) (w_aux s) i (w_next s) (w_bgs s' ! n)"
proof -
  let ?B = "unat (info_blocks_per_group (w_info s))" and ?m = "w_next s"
  obtain bg b where run: "init_bg i s = Inr ((), upd_bg n (\<lambda>_. bg) (upd_buf ?m b (fresh_group s i)))"
    and sh: "group_shape ?B bg b" and len: "length b = 2 * unat (info_block_size (w_info s))"
    and ini: "initial_group (w_info s) (w_aux s) i ?m bg"
    using init_bg_run [OF geo] n i by auto
  let ?s = "upd_bg n (\<lambda>_. bg) (upd_buf ?m b (fresh_group s i))"
  have f: "w_info ?s = w_info s" "w_aux ?s = w_aux s" "length (w_bgs ?s) = length (w_bgs s)"
      "w_next ?s = Suc (Suc ?m)" "w_bgs ?s ! n = bg" "w_mem ?s ?m = Some b"
    using n i by (simp_all add: fresh_group_def upd_bg_def upd_buf_def)
  have other: "w_bgs ?s ! h = w_bgs s ! h" if "h \<noteq> n" for h
    using that i by (simp add: fresh_group_def upd_bg_def upd_buf_def)
  have mem: "w_mem ?s j = w_mem s j" if "j \<noteq> ?m" for j
    using that by (simp add: fresh_group_def upd_bg_def upd_buf_def)
  have ids: "bitmap_id ?s n = ?m" "h \<noteq> n \<Longrightarrow> bitmap_id ?s h = bitmap_id s h" for h
    using ini other [of h] by (simp_all add: bitmap_id_def f initial_group_def)
  have old: "group_ok ?s h \<and> bitmap_id ?s h < ?m" if h: "h < n" for h
  proof -
    have "group_ok s h" "bitmap_id s h < ?m" using ok h by (simp_all add: groups_ok_def)
    then show ?thesis
      using h other [of h] ids(2) [of h] mem [of "bitmap_id s h"] f
      by (simp add: group_ok_def group_bitmap_def bitmap_id_def)
  qed
  have start: "unat (group_start (w_info s) (w_aux s) i) = unat (aux_first_data_block (w_aux s)) + n * ?B"
    using unat_group_start geo i by (simp add: group_geometry_def)
  have new: "group_ok ?s n"
    unfolding group_ok_def f(1,2,5)
  proof (intro conjI exI)
    show "group_bitmap ?s n (fst (bg_block_bitmap bg)) b"
      using n ini len geo f by (simp add: group_bitmap_def initial_group_def group_geometry_def)
    show "unat (bg_first_block bg) = unat (aux_first_data_block (w_aux s)) + n * ?B"
      using ini start by (simp add: initial_group_def)
    show "unat (bg_first_block bg) + ?B < 4294967295"
      using ini start geo i by (simp add: initial_group_def group_geometry_def)
  qed (rule sh)
  have "inj_on (bitmap_id ?s) {..<Suc n}"
  proof -
    have "inj_on (bitmap_id ?s) {..<n}" using ok ids(2) by (auto simp: groups_ok_def inj_on_def)
    moreover have "bitmap_id ?s n \<notin> bitmap_id ?s ` {..<n}" using old ids(1) by (fastforce simp del: ids)
    ultimately show ?thesis by (simp add: lessThan_Suc)
  qed
  moreover have "group_ok ?s h \<and> bitmap_id ?s h < w_next ?s" if "h < Suc n" for h
    using that old [of h] new ids(1) f(4) by (cases "h = n") auto
  ultimately have "groups_ok ?s (Suc n)" using n f(3) by (simp add: groups_ok_def)
  then show ?thesis using run f other ini by (intro exI [of _ ?s]) simp
qed

lemma init_groups_run:
  assumes "length (w_bgs s) = N" and "N < 4294967296" and "n \<le> N"
    and geo: "\<And>i. i < N \<Longrightarrow> group_geometry (w_info s) (w_aux s) (of_nat i)"
  shows "\<exists>s'. for_all (map of_nat [0..<n]) init_bg s = Inr ((), s') \<and> groups_ok s' n \<and> w_info s' = w_info s \<and>
    w_aux s' = w_aux s \<and> length (w_bgs s') = N \<and>
    (\<forall>i<n. initial_group (w_info s) (w_aux s) (of_nat i) (bitmap_id s' i) (w_bgs s' ! i))"
  using assms(3)
proof (induction n)
  case 0
  then show ?case using assms(1) by (simp add: ret_def groups_ok_def)
next
  case (Suc n)
  then obtain s1 where s1: "for_all (map of_nat [0..<n]) init_bg s = Inr ((), s1)" "groups_ok s1 n"
    "w_info s1 = w_info s" "w_aux s1 = w_aux s" "length (w_bgs s1) = N"
    and ini: "\<And>i. i < n \<Longrightarrow> initial_group (w_info s) (w_aux s) (of_nat i) (bitmap_id s1 i) (w_bgs s1 ! i)"
    by auto
  have u: "unat (of_nat n :: u32) = n" using Suc.prems assms(2) by (intro unat_of_nat_u32) linarith
  obtain s2 where s2: "init_bg (of_nat n) s1 = Inr ((), s2)" "groups_ok s2 (Suc n)"
    "w_info s2 = w_info s" "w_aux s2 = w_aux s" "length (w_bgs s2) = N"
    "\<And>h. h \<noteq> n \<Longrightarrow> w_bgs s2 ! h = w_bgs s1 ! h"
    "initial_group (w_info s) (w_aux s) (of_nat n) (w_next s1) (w_bgs s2 ! n)"
    using groups_ok_init [OF s1(2) _ u] s1 geo [of n] Suc.prems by auto
  have "initial_group (w_info s) (w_aux s) (of_nat i) (bitmap_id s2 i) (w_bgs s2 ! i)" if "i < Suc n" for i
    using that ini [of i] s2(6) [of i] s2(7) by (cases "i = n") (auto simp: bitmap_id_def initial_group_def)
  then show ?case
    using s1 s2 by (intro exI [of _ s2]) (simp add: for_all_append bind_def sq_def ret_def)
qed

lemma block_allocator_init_run:
  assumes geo: "\<And>i. i < unat (aux_groups (w_aux s)) \<Longrightarrow> group_geometry (w_info s) (w_aux s) (of_nat i)"
  shows "\<exists>s'. block_allocator_init s = Inr ((), s') \<and> alloc_inv s' \<and> w_info s' = w_info s \<and> w_aux s' = w_aux s \<and>
    (\<forall>i<unat (aux_groups (w_aux s)). initial_group (w_info s) (w_aux s) (of_nat i) (bitmap_id s' i) (w_bgs s' ! i))"
proof -
  let ?N = "unat (aux_groups (w_aux s))" and ?s = "s\<lparr>w_bgs := replicate (unat (aux_groups (w_aux s))) bg_zero\<rparr>"
  have "block_allocator_init s = for_all (map of_nat [0..<?N]) init_bg ?s"
    by (simp add: block_allocator_init_def prog_simps upto_u32_def)
  moreover have "?N < 4294967296" by (rule unat_lt_u32)
  ultimately show ?thesis
    using init_groups_run [of ?s ?N ?N] geo by (auto simp: alloc_inv_def)
qed

section \<open>The blocks in use\<close>

text \<open>The abstract state of the allocator: the numbers of the disk blocks that some group's bitmap
  marks as used.\<close>

definition group_used :: "world \<Rightarrow> nat \<Rightarrow> nat set" where
  "group_used s g = bits (buf s (bg_block_bitmap (w_bgs s ! g))) \<inter> {..<unat (info_blocks_per_group (w_info s))}"

definition used_blocks :: "world \<Rightarrow> nat set" where
  "used_blocks s = (\<Union>g<length (w_bgs s). (\<lambda>j. unat (bg_first_block (w_bgs s ! g)) + j) ` group_used s g)"

lemma group_used_bitmap:
  "group_bitmap s g i b \<Longrightarrow> group_used s g = bits b \<inter> {..<unat (info_blocks_per_group (w_info s))}"
  by (simp add: group_used_def group_bitmap_def buf_def)

lemma group_of_block:
  assumes "(f :: nat) + g * B + j = f + h * B + k" and "j < B" and "k < B"
  shows "g = h"
proof -
  have "(g * B + j) div B = g" "(h * B + k) div B = h" using assms(2,3) by simp_all
  then show ?thesis using assms(1) by (metis add.assoc add_left_cancel)
qed

lemma UN_except: "g < (n :: nat) \<Longrightarrow> (\<Union>h<n. F h) = (\<Union>h\<in>{..<n} - {g}. F h) \<union> F g"
  by auto

text \<open>A step that changes the record and bitmap of one group changes the blocks of that group.\<close>

lemma used_blocks_update:
  assumes ok: "groups_ok s (length (w_bgs s))" and g: "g < length (w_bgs s)" and bm: "group_bitmap s g i b"
    and same: "bg_block_bitmap (f (w_bgs s ! g)) = bg_block_bitmap (w_bgs s ! g)"
      "bg_first_block (f (w_bgs s ! g)) = bg_first_block (w_bgs s ! g)"
  shows "used_blocks (upd_bg g f (upd_buf i b' s)) =
    (\<Union>h\<in>{..<length (w_bgs s)} - {g}. (\<lambda>j. unat (bg_first_block (w_bgs s ! h)) + j) ` group_used s h) \<union>
    (\<lambda>j. unat (bg_first_block (w_bgs s ! g)) + j) ` (bits b' \<inter> {..<unat (info_blocks_per_group (w_info s))})"
proof -
  let ?s = "upd_bg g f (upd_buf i b' s)" and ?B = "unat (info_blocks_per_group (w_info s))"
  have id: "bg_block_bitmap (w_bgs s ! g) = (i, 0)" using bm by (simp add: group_bitmap_def)
  have length_upd: "length (w_bgs ?s) = length (w_bgs s)" by simp
  have at: "group_used ?s g = bits b' \<inter> {..<?B}"
    using g same id by (simp add: group_used_def buf_def)
  have other: "group_used ?s h = group_used s h" if "h < length (w_bgs s)" "h \<noteq> g" for h
  proof -
    have "bitmap_id s h \<noteq> bitmap_id s g" using ok that g by (auto simp: groups_ok_def inj_on_def)
    then have "fst (bg_block_bitmap (w_bgs s ! h)) \<noteq> i" using id by (simp add: bitmap_id_def)
    then show ?thesis using that by (simp add: group_used_def buf_def)
  qed
  have "used_blocks ?s = (\<Union>h\<in>{..<length (w_bgs s)} - {g}.
      (\<lambda>j. unat (bg_first_block (w_bgs ?s ! h)) + j) ` group_used ?s h) \<union>
      (\<lambda>j. unat (bg_first_block (w_bgs ?s ! g)) + j) ` group_used ?s g"
    by (simp only: used_blocks_def length_upd UN_except [OF g])
  also have "(\<Union>h\<in>{..<length (w_bgs s)} - {g}. (\<lambda>j. unat (bg_first_block (w_bgs ?s ! h)) + j) ` group_used ?s h) =
      (\<Union>h\<in>{..<length (w_bgs s)} - {g}. (\<lambda>j. unat (bg_first_block (w_bgs s ! h)) + j) ` group_used s h)"
    using other by (intro SUP_cong) auto
  finally show ?thesis using g same at by simp
qed

lemma used_blocks_split:
  assumes "g < length (w_bgs s)" and "group_bitmap s g i b"
  shows "used_blocks s =
    (\<Union>h\<in>{..<length (w_bgs s)} - {g}. (\<lambda>j. unat (bg_first_block (w_bgs s ! h)) + j) ` group_used s h) \<union>
    (\<lambda>j. unat (bg_first_block (w_bgs s ! g)) + j) ` (bits b \<inter> {..<unat (info_blocks_per_group (w_info s))})"
  by (simp only: used_blocks_def UN_except [OF assms(1)] group_used_bitmap [OF assms(2)])

text \<open>A free position of a group is no used block of any group.\<close>

lemma free_position_unused:
  assumes ok: "groups_ok s (length (w_bgs s))" and g: "g < length (w_bgs s)" and bm: "group_bitmap s g i b"
    and j: "j < unat (info_blocks_per_group (w_info s))" "j \<notin> bits b"
  shows "unat (bg_first_block (w_bgs s ! g)) + j \<notin> used_blocks s"
proof
  let ?B = "unat (info_blocks_per_group (w_info s))"
  have st: "unat (bg_first_block (w_bgs s ! h)) = unat (aux_first_data_block (w_aux s)) + h * ?B"
    if "h < length (w_bgs s)" for h
    using ok that by (simp add: groups_ok_def group_ok_def)
  assume "unat (bg_first_block (w_bgs s ! g)) + j \<in> used_blocks s"
  then obtain h k where h: "h < length (w_bgs s)" "k \<in> group_used s h"
    and e: "unat (bg_first_block (w_bgs s ! g)) + j = unat (bg_first_block (w_bgs s ! h)) + k"
    by (auto simp: used_blocks_def)
  have k: "k < ?B" using h(2) by (simp add: group_used_def)
  have "g = h" by (rule group_of_block [OF _ j(1) k]) (use e st g h in simp)
  then have "k \<in> bits b" "j = k" using h(2) e group_used_bitmap [OF bm] by auto
  then show False using j by simp
qed

section \<open>Allocating\<close>

text \<open>The first group with enough free blocks, and what the search does.\<close>

definition first_fit :: "world \<Rightarrow> u32 \<Rightarrow> nat option" where
  "first_fit s len = find (\<lambda>g. len \<le> bg_free_blocks (w_bgs s ! g)) [0..<length (w_bgs s)]"

definition extent :: "u32 \<Rightarrow> u32 \<Rightarrow> nat set" where
  "extent block len = {unat block..<unat block + unat len}"

lemma allocate_from_group:
  assumes inv: "alloc_inv s" and g: "unat g < length (w_bgs s)"
    and len: "len \<le> bg_free_blocks (w_bgs s ! unat g)"
  defines "block \<equiv> bg_first_block (w_bgs s ! unat g) + bg_first_free_block (w_bgs s ! unat g)"
  shows "\<exists>s'. ext4_allocate_blocks_from_block_group len g s = Inr (block, s') \<and> alloc_inv s' \<and>
    block \<noteq> EXT4_ALLOCATE_FAILED \<and> extent block len \<inter> used_blocks s = {} \<and>
    used_blocks s' = used_blocks s \<union> extent block len \<and>
    w_reg s' = w_reg s \<and> w_next s' = w_next s \<and> w_aux s' = w_aux s \<and> w_info s' = w_info s \<and>
    w_bgs s' = (w_bgs s)[unat g := after_alloc len (w_bgs s ! unat g)]"
proof -
  let ?g = "unat g" and ?bg = "w_bgs s ! unat g" and ?B = "unat (info_blocks_per_group (w_info s))"
  let ?ff = "unat (bg_first_free_block (w_bgs s ! unat g))" and ?first = "unat (bg_first_block (w_bgs s ! unat g))"
  have ok: "groups_ok s (length (w_bgs s))" using inv by (simp add: alloc_inv_def)
  obtain b where bm: "group_bitmap s ?g (bitmap_id s ?g) b" and sh: "group_shape ?B ?bg b"
    and lim: "?first + ?B < 4294967295"
    using groups_ok_bitmap [OF ok g] by metis
  let ?s = "upd_bg ?g (after_alloc len) (upd_buf (bitmap_id s ?g) (mark_alloc len ?bg b) s)"
  have fit: "?ff + unat len \<le> ?B" "?B \<le> 8 * length b"
    using sh len by (auto simp: group_shape_def word_le_nat_alt)
  have ub: "unat block = ?first + ?ff" unfolding block_def using fit lim by (simp add: unat_add_u32)
  have same: "bg_block_bitmap (after_alloc len ?bg) = bg_block_bitmap ?bg"
    "bg_first_block (after_alloc len ?bg) = bg_first_block ?bg"
    by (simp_all add: after_alloc_def initial_group_reserved)
  have sh': "group_shape ?B (after_alloc len ?bg) (mark_alloc len ?bg b)"
    using group_shape_reserve [OF sh len] lim by (simp add: after_alloc_def mark_alloc_def group_shape_def)
  have inv': "alloc_inv ?s"
    using groups_ok_update [where f = "after_alloc len", OF ok g bm sh' same] inv by (simp add: alloc_inv_def mark_alloc_def)
  have run: "ext4_allocate_blocks_from_block_group len g s = Inr (block, ?s)"
    unfolding block_def by (rule allocate_from_group_run [OF bm sh len])
  have disj: "extent block len \<inter> used_blocks s = {}"
  proof -
    have f: "{?ff..<?ff + unat len} \<inter> bits b = {}"
      by (rule group_shape_free [OF sh]) (use len in \<open>simp add: word_le_nat_alt\<close>)
    have "?first + (?ff + k) \<notin> used_blocks s" if k: "k < unat len" for k
    proof (rule free_position_unused [OF ok g bm])
      have "?ff + k \<in> {?ff..<?ff + unat len}" using k by simp
      then show "?ff + k \<notin> bits b" using f by blast
    qed (use k fit in linarith)
    then show ?thesis unfolding extent_def ub by (fastforce simp: add.assoc dest: le_Suc_ex)
  qed
  have used: "used_blocks ?s = used_blocks s \<union> extent block len"
  proof -
    have m: "bits (mark_alloc len ?bg b) \<inter> {..<?B} = (bits b \<inter> {..<?B}) \<union> {?ff..<?ff + unat len}"
      unfolding mark_alloc_def using fit by (subst bits_mark_range) auto
    have "extent block len = (\<lambda>j. ?first + j) ` {?ff..<?ff + unat len}"
      unfolding extent_def ub by (simp add: ac_simps)
    then show ?thesis
      unfolding used_blocks_update [where f = "after_alloc len", OF ok g bm same] used_blocks_split [OF g bm] m image_Un
      by (simp only: Un_assoc)
  qed
  have "unat block \<noteq> unat EXT4_ALLOCATE_FAILED" using ub fit lim by (simp add: EXT4_ALLOCATE_FAILED_def unsigned_minus_1_eq_mask mask_eq_exp_minus_1)
  then have "block \<noteq> EXT4_ALLOCATE_FAILED" by auto
  then show ?thesis
    using run inv' disj used by (intro exI [of _ ?s]) (simp add: upd_bg_def upd_buf_def)
qed

lemma for_each_find:
  assumes "\<And>i. i \<in> set is \<Longrightarrow> \<not> P i \<Longrightarrow> body i x s = Inr (Inr x, s)"
    and "\<And>i. i \<in> set is \<Longrightarrow> P i \<Longrightarrow> \<exists>v s'. body i x s = Inr (Inl v, s')"
  shows "for_each is body x s = (case find P is of None \<Rightarrow> Inr (Inr x, s) | Some i \<Rightarrow> body i x s)"
  using assms
proof (induction "is")
  case Nil
  then show ?case by (simp add: ret_def)
next
  case (Cons i js)
  show ?case
  proof (cases "P i")
    case True
    then obtain v s' where "body i x s = Inr (Inl v, s')" using Cons.prems(2) [of i] by auto
    then show ?thesis using True by (simp add: bind_def ret_def)
  next
    case False
    then show ?thesis using Cons by (simp add: bind_def)
  qed
qed

lemma find_map: "find P (map f xs) = map_option f (find (\<lambda>x. P (f x)) xs)"
  by (induction xs) simp_all

lemma find_cong_set: "(\<And>x. x \<in> set xs \<Longrightarrow> P x = Q x) \<Longrightarrow> find P xs = find Q xs"
  by (induction xs) simp_all

lemma first_fit_Some:
  "first_fit s len = Some g \<Longrightarrow> g < length (w_bgs s) \<and> len \<le> bg_free_blocks (w_bgs s ! g) \<and>
    (\<forall>h<g. bg_free_blocks (w_bgs s ! h) < len)"
proof -
  assume "first_fit s len = Some g"
  then obtain i where "i < length [0..<length (w_bgs s)]" "len \<le> bg_free_blocks (w_bgs s ! ([0..<length (w_bgs s)] ! i))"
    "g = [0..<length (w_bgs s)] ! i" "\<forall>j<i. \<not> len \<le> bg_free_blocks (w_bgs s ! ([0..<length (w_bgs s)] ! j))"
    unfolding first_fit_def find_Some_iff by blast
  then show ?thesis by (simp add: not_le)
qed

lemma first_fit_None:
  "first_fit s len = None \<Longrightarrow> g < length (w_bgs s) \<Longrightarrow> bg_free_blocks (w_bgs s ! g) < len"
  by (auto simp: first_fit_def find_None_iff not_le)

lemma first_group_run:
  assumes inv: "alloc_inv s"
  shows "first_group len s = (case first_fit s len of
      None \<Rightarrow> Inr (None, s)
    | Some g \<Rightarrow> bind (ext4_allocate_blocks_from_block_group len (of_nat g)) (\<lambda>block. ret (Some (of_nat g, block))) s)"
proof -
  let ?N = "length (w_bgs s)"
  let ?body = "\<lambda>i (_ :: unit). bind (ext4_allocate_blocks_from_block_group len i) (\<lambda>block.
      if block \<noteq> EXT4_ALLOCATE_FAILED then ret (Inl (i, block)) else ret (Inr ()))"
  let ?P = "\<lambda>i. len \<le> bg_free_blocks (w_bgs s ! unat (i :: u32))"
  have N: "unat (aux_groups (w_aux s)) = ?N" "?N < 4294967296"
    using inv unat_lt_u32 [of "aux_groups (w_aux s)"] by (simp_all add: alloc_inv_def)
  have lt: "unat i < ?N" if "i \<in> set (upto_u32 (aux_groups (w_aux s)))" for i
    using that N by (auto simp: upto_u32_def unat_of_nat_u32)
  have run: "for_each (upto_u32 (aux_groups (w_aux s))) ?body () s =
      (case find ?P (upto_u32 (aux_groups (w_aux s))) of None \<Rightarrow> Inr (Inr (), s) | Some i \<Rightarrow> ?body i () s)"
  proof (rule for_each_find)
    show "?body i () s = Inr (Inr (), s)" if "i \<in> set (upto_u32 (aux_groups (w_aux s)))" "\<not> ?P i" for i
      using allocate_from_group_full [of i s len] that lt [of i] by (simp add: bind_def ret_def not_le)
    show "\<exists>v s'. ?body i () s = Inr (Inl v, s')" if "i \<in> set (upto_u32 (aux_groups (w_aux s)))" "?P i" for i
      using allocate_from_group [OF inv lt [OF that(1)] that(2)] by (auto simp: bind_def ret_def)
  qed
  have fnd: "find ?P (upto_u32 (aux_groups (w_aux s))) = map_option of_nat (first_fit s len)"
    unfolding upto_u32_def find_map first_fit_def N(1)
    using N(2) by (intro arg_cong [where f = "map_option of_nat"] find_cong_set) (simp add: unat_of_nat_u32)
  show ?thesis
  proof (cases "first_fit s len")
    case None
    then show ?thesis using run unfolding fnd by (simp add: first_group_def prog_simps bind_def ret_def)
  next
    case (Some g)
    then have g: "g < ?N" "len \<le> bg_free_blocks (w_bgs s ! g)" by (auto dest: first_fit_Some)
    then have u: "unat (of_nat g :: u32) = g" using N(2) by (simp add: unat_of_nat_u32)
    obtain b s' where "ext4_allocate_blocks_from_block_group len (of_nat g) s = Inr (b, s')" "b \<noteq> EXT4_ALLOCATE_FAILED"
      using allocate_from_group [OF inv, of "of_nat g" len] g u by auto
    then show ?thesis using run Some unfolding fnd by (simp add: first_group_def prog_simps bind_def ret_def)
  qed
qed

section \<open>The contract of an allocator\<close>

text \<open>An allocator keeps its invariant and never fails; when it hands out blocks, they were unused
  and are used from then on.\<close>

locale disjoint_allocator =
  fixes alloc :: "'l \<Rightarrow> ('s, 'r option) prog"
    and inv :: "'s \<Rightarrow> bool"
    and used :: "'s \<Rightarrow> nat set"
    and blocks :: "'l \<Rightarrow> 'r \<Rightarrow> nat set"
  assumes alloc_ok: "inv s \<Longrightarrow> \<exists>r s'. alloc l s = Inr (r, s') \<and> inv s' \<and>
    (case r of None \<Rightarrow> s' = s | Some x \<Rightarrow> blocks l x \<inter> used s = {} \<and> used s' = used s \<union> blocks l x)"
begin

definition taken :: "'l \<Rightarrow> 'r option \<Rightarrow> nat set" where
  "taken l r = (case r of None \<Rightarrow> {} | Some x \<Rightarrow> blocks l x)"

lemma alloc_step:
  assumes "inv s"
  obtains r s' where "alloc l s = Inr (r, s')" "inv s'" "taken l r \<inter> used s = {}" "used s' = used s \<union> taken l r"
proof -
  obtain r s' where run: "alloc l s = Inr (r, s')" "inv s'" and
    r: "case r of None \<Rightarrow> s' = s | Some x \<Rightarrow> blocks l x \<inter> used s = {} \<and> used s' = used s \<union> blocks l x"
    using alloc_ok [OF assms, of l] by blast
  from r have "taken l r \<inter> used s = {}" "used s' = used s \<union> taken l r"
    by (cases r; simp add: taken_def)+
  with run show thesis by (rule that)
qed

text \<open>Whatever a client asks for, one after the other, it gets disjoint blocks.\<close>

lemma run_all_disjoint:
  assumes "inv s"
  shows "\<exists>rs s'. run_all alloc ls s = Inr (rs, s') \<and> inv s' \<and> length rs = length ls \<and>
    (\<forall>i<length ls. taken (ls ! i) (rs ! i) \<inter> used s = {}) \<and>
    (\<forall>i<length ls. \<forall>j<i. taken (ls ! i) (rs ! i) \<inter> taken (ls ! j) (rs ! j) = {}) \<and>
    used s' = used s \<union> (\<Union>i<length ls. taken (ls ! i) (rs ! i))"
  using assms
proof (induction ls arbitrary: s)
  case Nil
  then show ?case by (simp add: ret_def)
next
  case (Cons l ls)
  obtain r s1 where s1: "alloc l s = Inr (r, s1)" "inv s1" "taken l r \<inter> used s = {}" "used s1 = used s \<union> taken l r"
    by (rule alloc_step [OF Cons.prems])
  obtain rs s2 where ih: "run_all alloc ls s1 = Inr (rs, s2) \<and> inv s2 \<and> length rs = length ls \<and>
    (\<forall>i<length ls. taken (ls ! i) (rs ! i) \<inter> used s1 = {}) \<and>
    (\<forall>i<length ls. \<forall>j<i. taken (ls ! i) (rs ! i) \<inter> taken (ls ! j) (rs ! j) = {}) \<and>
    used s2 = used s1 \<union> (\<Union>i<length ls. taken (ls ! i) (rs ! i))"
    using Cons.IH [OF s1(2)] by (elim exE) (rule that)
  then have s2: "run_all alloc ls s1 = Inr (rs, s2)" "inv s2" "length rs = length ls"
    "used s2 = used s1 \<union> (\<Union>i<length ls. taken (ls ! i) (rs ! i))"
    and old: "\<And>i. i < length ls \<Longrightarrow> taken (ls ! i) (rs ! i) \<inter> used s1 = {}"
    and pw: "\<And>i j. i < length ls \<Longrightarrow> j < i \<Longrightarrow> taken (ls ! i) (rs ! i) \<inter> taken (ls ! j) (rs ! j) = {}"
    by simp_all
  have "taken ((l # ls) ! i) ((r # rs) ! i) \<inter> used s = {}" if "i < Suc (length ls)" for i
    using that s1(3,4) old [of "i - 1"] by (cases i) auto
  moreover have "taken ((l # ls) ! i) ((r # rs) ! i) \<inter> taken ((l # ls) ! j) ((r # rs) ! j) = {}"
    if ij: "i < Suc (length ls)" "j < i" for i j
  proof (cases j)
    case 0
    then obtain k where "i = Suc k" "k < length ls" using ij by (cases i) auto
    then show ?thesis using old [of k] s1(4) 0 by auto
  next
    case (Suc j')
    then obtain k where "i = Suc k" "k < length ls" "j' < k" using ij Suc by (cases i) auto
    then show ?thesis using pw [of k j'] Suc by simp
  qed
  moreover have "(\<Union>i<Suc (length ls). taken ((l # ls) ! i) ((r # rs) ! i)) =
      taken l r \<union> (\<Union>i<length ls. taken (ls ! i) (rs ! i))"
    by (simp add: lessThan_Suc_eq_insert_0)
  ultimately show ?case
    using s1 s2 by (intro exI [of _ "r # rs"] exI [of _ s2]) (simp add: bind_def ret_def Un_assoc)
qed

end

lemma first_group_contract:
  assumes inv: "alloc_inv s"
  shows "\<exists>r s'. first_group len s = Inr (r, s') \<and> alloc_inv s' \<and>
    (case r of None \<Rightarrow> s' = s
     | Some x \<Rightarrow> extent (snd x) len \<inter> used_blocks s = {} \<and> used_blocks s' = used_blocks s \<union> extent (snd x) len)"
proof (cases "first_fit s len")
  case None
  then show ?thesis using inv by (simp add: first_group_run [OF inv])
next
  case (Some g)
  have "length (w_bgs s) < 4294967296"
    using inv unat_lt_u32 [of "aux_groups (w_aux s)"] by (simp add: alloc_inv_def)
  then have "unat (of_nat g :: u32) = g" "g < length (w_bgs s)" "len \<le> bg_free_blocks (w_bgs s ! g)"
    using Some by (auto dest!: first_fit_Some simp: unat_of_nat_u32)
  then show ?thesis
    using allocate_from_group [OF inv, of "of_nat g" len] Some
    by (auto simp: first_group_run [OF inv] bind_def ret_def)
qed

interpretation groups: disjoint_allocator first_group alloc_inv used_blocks "\<lambda>len x. extent (snd x) len"
  by unfold_locales (rule first_group_contract)

text \<open>\<open>allocate_block\<close> is the allocator for requests of one block.\<close>

definition one_block :: "unit \<Rightarrow> u32 option wprog" where
  "one_block _ = bind allocate_block (\<lambda>b. ret (if b = EXT4_ALLOCATE_FAILED then None else Some b))"

lemma one_block_contract:
  assumes inv: "alloc_inv s"
  shows "\<exists>r s'. one_block l s = Inr (r, s') \<and> alloc_inv s' \<and>
    (case r of None \<Rightarrow> s' = s
     | Some block \<Rightarrow> {unat block} \<inter> used_blocks s = {} \<and> used_blocks s' = used_blocks s \<union> {unat block})"
proof -
  obtain r s' where run: "first_group 1 s = Inr (r, s')" "alloc_inv s'" and
    r: "case r of None \<Rightarrow> s' = s | Some x \<Rightarrow> extent (snd x) 1 \<inter> used_blocks s = {} \<and>
       used_blocks s' = used_blocks s \<union> extent (snd x) 1"
    using first_group_contract [OF inv, of 1] by blast
  have "block \<noteq> EXT4_ALLOCATE_FAILED" if rs: "r = Some (g, block)" for g block
  proof -
    obtain h where h: "first_fit s 1 = Some h" 
      using run rs by (cases "first_fit s 1") (simp_all add: first_group_run [OF inv])
    have "length (w_bgs s) < 4294967296"
      using inv unat_lt_u32 [of "aux_groups (w_aux s)"] by (simp add: alloc_inv_def)
    then have "unat (of_nat h :: u32) = h" "h < length (w_bgs s)" "1 \<le> bg_free_blocks (w_bgs s ! h)"
      using h by (auto dest!: first_fit_Some simp: unat_of_nat_u32)
    then show ?thesis
      using allocate_from_group [OF inv, of "of_nat h" 1] h run rs
      by (auto simp: first_group_run [OF inv] bind_def ret_def)
  qed
  then show ?thesis
    using run r by (auto simp: one_block_def allocate_block_def bind_def ret_def extent_def split: option.splits)
qed

interpretation single: disjoint_allocator one_block alloc_inv used_blocks "\<lambda>_ block. {unat block}"
  by unfold_locales (rule one_block_contract)

end
