(* ===== verification/Alloc_Theorems.thy ===== *)
theory Alloc_Theorems
  imports Allocator
begin

text \<open>
  The theorems about the block groups, each with an instance on a small file system: two groups
  of 24 and 16 blocks of 4 bytes, both with a superblock, so a header of 6 blocks.
\<close>

section \<open>A small file system\<close>

definition small_info :: fs_info where
  "small_info = \<lparr>info_len = 160, info_block_size = 4, info_blocks_per_group = 24,
     info_inodes_per_group = 8, info_inode_size = 1, info_inodes = 16, info_journal_blocks = 0,
     info_feat_ro_compat = 1, info_feat_compat = 0, info_feat_incompat = 0, info_label = None,
     info_no_journal = 1\<rparr>"

definition small_aux :: fs_aux_info where
  "small_aux = \<lparr>aux_sb = (0, 0), aux_bg_desc = (0, 0), aux_first_data_block = 0, aux_len_blocks = 40,
     aux_inode_table_blocks = 2, aux_groups = 2, aux_bg_desc_blocks = 1, aux_bg_desc_reserve_blocks = 0,
     aux_default_i_flags = 0, aux_blocks_per_ind = 1, aux_blocks_per_dind = 1, aux_blocks_per_tind = 1\<rparr>"

definition empty_output :: output_file where
  "empty_output = \<lparr>out_bytes = [], out_pos = 0, out_capacity = 160, out_gz = False, out_sparse = False,
     out_cur_out_ptr = 0, out_chunk_cnt = 0, out_crc32 = 0, out_closed = False\<rparr>"

definition empty_sparse_header :: sparse_header where
  "empty_sparse_header = \<lparr>sh_magic = 0, sh_major_version = 0, sh_minor_version = 0, sh_file_hdr_sz = 0,
     sh_chunk_hdr_sz = 0, sh_blk_sz = 0, sh_total_blks = 0, sh_total_chunks = 0, sh_image_checksum = 0\<rparr>"

text \<open>Before \<open>block_allocator_init\<close>, and after it.\<close>

definition small_start :: world where
  "small_start = \<lparr>w_force = False, w_info = small_info, w_aux = small_aux, w_bgs = [],
     w_mem = (\<lambda>_. None), w_reg = (\<lambda>_. None), w_next = 0, w_queue = [], w_last_used = None,
     w_sparse_header = empty_sparse_header, w_out = empty_output\<rparr>"

definition small_group :: "u32 \<Rightarrow> nat \<Rightarrow> u32 \<Rightarrow> block_group_info" where
  "small_group first m free = \<lparr>bg_first_block = first, bg_header_blocks = 6, bg_data_blocks_used = 0,
     bg_has_superblock = True, bg_block_bitmap = (m, 0), bg_inode_bitmap = (m, 4), bg_inode_table = None,
     bg_free_blocks = free, bg_first_free_block = 6, bg_free_inodes = 8, bg_first_free_inode = 1, bg_used_dirs = 0\<rparr>"

definition small_world :: world where
  "small_world = small_start\<lparr>w_bgs := [small_group 0 0 18, small_group 24 2 10],
     w_mem := (\<lambda>_. None)(0 := Some [0x3F, 0, 0, 0, 0, 0, 0, 0], 2 := Some [0x3F, 0, 0xFF, 0, 0, 0, 0, 0]),
     w_next := 4\<rparr>"

lemma bits_code: "bits b = set (filter (\<lambda>i. bit (b ! (i div 8)) (i mod 8)) [0..<8 * length b])"
  by (auto simp: bits_def)

lemma small_bits:
  "bits [0x3F, 0, 0, 0, 0, 0, 0, 0] = {..<6}"
  "bits [0x3F, 0, 0xFF, 0, 0, 0, 0, 0] = {..<6} \<union> {16..<24}"
  unfolding bits_code by (simp_all add: upt_rec bit_simps) (auto)

lemma small_geometry:
  assumes "i < 2"
  shows "group_geometry small_info small_aux (of_nat i)"
proof -
  consider "i = 0" | "i = 1" using assms by linarith
  then show ?thesis
    by cases (simp_all add: group_geometry_def small_info_def small_aux_def group_start_def header_len_def
      group_size_def ext4_bg_has_super_block_def EXT4_FEATURE_RO_COMPAT_SPARSE_SUPER_def)
qed

lemma small_inv: "alloc_inv small_world"
proof -
  have "group_ok small_world 0 \<and> group_ok small_world 1"
    by (simp add: group_ok_def group_bitmap_def group_shape_def small_world_def small_start_def small_group_def
        small_info_def small_aux_def small_bits) auto
  moreover have "inj_on (bitmap_id small_world) {..<2}"
    by (auto simp: inj_on_def bitmap_id_def small_world_def small_group_def less_2_cases_iff)
  moreover have "bitmap_id small_world 0 < 4" "bitmap_id small_world 1 < 4"
    by (simp_all add: bitmap_id_def small_world_def small_group_def)
  ultimately have "groups_ok small_world 2"
    by (auto simp: groups_ok_def less_2_cases_iff small_world_def)
  moreover have "length (w_bgs small_world) = 2" "unat (aux_groups (w_aux small_world)) = 2"
    by (simp_all add: small_world_def small_start_def small_aux_def)
  ultimately show ?thesis by (simp add: alloc_inv_def)
qed

section \<open>Setting up\<close>

lemma used_block_iff:
  assumes ok: "groups_ok s (length (w_bgs s))" and g: "g < length (w_bgs s)"
    and j: "j < unat (info_blocks_per_group (w_info s))"
  shows "unat (bg_first_block (w_bgs s ! g)) + j \<in> used_blocks s \<longleftrightarrow> j \<in> group_used s g"
proof
  assume a: "unat (bg_first_block (w_bgs s ! g)) + j \<in> used_blocks s"
  obtain b where bm: "group_bitmap s g (bitmap_id s g) b" using groups_ok_bitmap [OF ok g] by metis
  have "j \<in> bits b" using free_position_unused [OF ok g bm j] a by blast
  then show "j \<in> group_used s g" using j by (simp add: group_used_bitmap [OF bm])
next
  assume "j \<in> group_used s g"
  then show "unat (bg_first_block (w_bgs s ! g)) + j \<in> used_blocks s" using g by (auto simp: used_blocks_def)
qed

text \<open>C4.  After \<open>block_allocator_init\<close> the invariant of the allocator holds, and the used blocks of
  each group are its header (superblock and descriptors where it has a backup, bitmaps, inode table)
  and the blocks beyond the end of the file system, no others; the free count says so.\<close>

theorem block_allocator_init_correct:
  assumes "\<And>i. i < unat (aux_groups (w_aux s)) \<Longrightarrow> group_geometry (w_info s) (w_aux s) (of_nat i)"
  shows "\<exists>s'. block_allocator_init s = Inr ((), s') \<and> alloc_inv s' \<and>
    (\<forall>g<unat (aux_groups (w_aux s)).
       let size = group_size (w_info s) (w_aux s) (of_nat g); header = unat (header_len (w_info s) (w_aux s) (of_nat g))
       in unat (bg_free_blocks (w_bgs s' ! g)) = size - header \<and>
          (\<forall>j<unat (info_blocks_per_group (w_info s)).
             unat (bg_first_block (w_bgs s' ! g)) + j \<in> used_blocks s' \<longleftrightarrow> j < header \<or> size \<le> j))"
proof -
  obtain s' where s': "block_allocator_init s = Inr ((), s')" "alloc_inv s'" "w_info s' = w_info s" "w_aux s' = w_aux s"
    and ini: "\<And>i. i < unat (aux_groups (w_aux s)) \<Longrightarrow>
      initial_group (w_info s) (w_aux s) (of_nat i) (bitmap_id s' i) (w_bgs s' ! i)"
    using block_allocator_init_run [OF assms] by auto
  let ?B = "unat (info_blocks_per_group (w_info s))"
  have "unat (bg_first_block (w_bgs s' ! g)) + j \<in> used_blocks s' \<longleftrightarrow>
      j < unat (header_len (w_info s) (w_aux s) (of_nat g)) \<or> group_size (w_info s) (w_aux s) (of_nat g) \<le> j"
    if g: "g < unat (aux_groups (w_aux s))" and j: "j < ?B" for g j
  proof -
    have ok: "groups_ok s' (length (w_bgs s'))" and gl: "g < length (w_bgs s')"
      using s' g by (simp_all add: alloc_inv_def)
    obtain b where bm: "group_bitmap s' g (bitmap_id s' g) b" and sh: "group_shape ?B (w_bgs s' ! g) b"
      using groups_ok_bitmap [OF ok gl] s'(3) by metis
    have "j \<in> group_used s' g \<longleftrightarrow> j < unat (bg_first_free_block (w_bgs s' ! g)) \<or>
        unat (bg_first_free_block (w_bgs s' ! g)) + unat (bg_free_blocks (w_bgs s' ! g)) \<le> j"
      unfolding group_used_bitmap [OF bm] s'(3) group_shape_bits [OF sh] using j by auto
    moreover have "unat (header_len (w_info s) (w_aux s) (of_nat g)) \<le> group_size (w_info s) (w_aux s) (of_nat g)"
      using assms [OF g] by (simp add: group_geometry_def)
    ultimately show ?thesis
      using used_block_iff [OF ok gl, of j] j ini [OF g] s'(3)
      by (auto simp: initial_group_def split: if_splits)
  qed
  then show ?thesis
    using s' ini by (intro exI [of _ s']) (simp add: Let_def initial_group_def)
qed

theorem block_allocator_init_correct_witness:
  "\<exists>s'. block_allocator_init small_start = Inr ((), s') \<and> alloc_inv s' \<and>
     unat (bg_free_blocks (w_bgs s' ! 1)) = 10 \<and> unat (bg_first_block (w_bgs s' ! 1)) + 15 \<notin> used_blocks s' \<and>
     unat (bg_first_block (w_bgs s' ! 1)) + 16 \<in> used_blocks s'"
proof -
  have "w_info small_start = small_info" "w_aux small_start = small_aux" "unat (aux_groups small_aux) = 2"
    by (simp_all add: small_start_def small_aux_def)
  moreover have one: "group_size small_info small_aux 1 = 16" "unat (header_len small_info small_aux 1) = 6"
    and "unat (info_blocks_per_group small_info) = 24"
    by (simp_all add: group_size_def group_start_def header_len_def small_info_def small_aux_def
      ext4_bg_has_super_block_def EXT4_FEATURE_RO_COMPAT_SPARSE_SUPER_def)
  ultimately obtain s' where s': "block_allocator_init small_start = Inr ((), s')" "alloc_inv s'" and
    g: "\<forall>g<2. let size = group_size small_info small_aux (of_nat g); header = unat (header_len small_info small_aux (of_nat g))
       in unat (bg_free_blocks (w_bgs s' ! g)) = size - header \<and>
          (\<forall>j<24. unat (bg_first_block (w_bgs s' ! g)) + j \<in> used_blocks s' \<longleftrightarrow> j < header \<or> size \<le> j)"
    using block_allocator_init_correct [of small_start] small_geometry by auto
  have "unat (bg_free_blocks (w_bgs s' ! 1)) = 10 \<and>
      (\<forall>j<24. unat (bg_first_block (w_bgs s' ! 1)) + j \<in> used_blocks s' \<longleftrightarrow> j < 6 \<or> 16 \<le> j)"
    using g [rule_format, of 1] one by (simp add: Let_def)
  then show ?thesis
    using s' by (intro exI [of _ s'] conjI) (simp_all del: One_nat_def)
qed

section \<open>Reserving\<close>

text \<open>C14.  \<open>reserve_blocks\<close>, with its three loops over bits, bytes and bits again, marks exactly the bits
  \<open>start .. start + num - 1\<close>, as setting them one by one does, and updates the free count; the start
  of the free space moves only when the range began there.\<close>

theorem reserve_blocks_marks_range:
  assumes "group_bitmap s g i b" and "num \<le> bg_free_blocks (w_bgs s ! g)"
    and "unat start + unat num \<le> 8 * length b" and "{unat start..<unat start + unat num} \<inter> bits b = {}"
  shows "reserve_blocks g start num s =
      Inr (0, upd_bg g (after_reserve start num) (upd_buf i (mark_range (unat start) (unat num) b) s)) \<and>
    bits (mark_range (unat start) (unat num) b) = bits b \<union> {unat start..<unat start + unat num}"
  using reserve_blocks_run [OF assms] bits_mark_range [OF assms(3)] by simp

lemma small_bitmap: "group_bitmap small_world 0 0 [0x3F, 0, 0, 0, 0, 0, 0, 0]"
  by (simp add: group_bitmap_def small_world_def small_group_def)

lemma small_group_fields [simp]:
  "bg_free_blocks (small_group f m n) = n" "bg_first_free_block (small_group f m n) = 6"
  "bg_first_block (small_group f m n) = f" "bg_block_bitmap (small_group f m n) = (m, 0)"
  by (simp_all add: small_group_def)

lemma small_free: "bg_free_blocks (w_bgs small_world ! 0) = 18" "w_bgs small_world ! 0 = small_group 0 0 18"
  by (simp_all add: small_world_def small_group_def)

theorem reserve_blocks_marks_range_witness:
  "\<exists>b. reserve_blocks 0 6 13 small_world = Inr (0, upd_bg 0 (after_reserve 6 13) (upd_buf 0 b small_world)) \<and>
     bits b = {..<6} \<union> {6..<19}"
proof -
  have "{6..<19} \<inter> {..<6} = ({} :: nat set)" by auto
  then show ?thesis
    using reserve_blocks_marks_range [OF small_bitmap, of 13 6]
    by (intro exI [of _ "mark_range 6 13 [0x3F, 0, 0, 0, 0, 0, 0, 0]"]) (simp add: small_free small_bits)
qed

text \<open> A range that contains a used block is refused: without \<open>-f\<close> the program exits, whichever
  of the three loops meets the block.\<close>

theorem reserve_blocks_refuses_used:
  assumes "group_bitmap s g i b" and "num \<le> bg_free_blocks (w_bgs s ! g)"
    and "unat start + unat num \<le> 8 * length b"
    and "{unat start..<unat start + unat num} \<inter> bits b \<noteq> {}" and "\<not> w_force s"
  shows "reserve_blocks g start num s = Inl Exit_Failure"
  using assms by (rule reserve_blocks_taken)

theorem reserve_blocks_refuses_used_witness:
  "reserve_blocks 0 5 13 small_world = Inl Exit_Failure"
proof -
  have "5 \<in> {5..<18} \<inter> {..<6 :: nat}" by simp
  then have "{5..<18} \<inter> {..<6 :: nat} \<noteq> {}" by blast
  moreover have "\<not> w_force small_world" by (simp add: small_world_def small_start_def)
  ultimately show ?thesis
    using reserve_blocks_refuses_used [OF small_bitmap, of 13 5] by (simp add: small_free small_bits)
qed

section \<open>Allocating\<close>

text \<open>C22.  The search behind \<open>allocate_block\<close> and \<open>ext4_allocate_contiguous_blocks\<close> is first fit: it takes
  the blocks at the start of the free space of the first group with enough of them, and of no other;
  when no group has enough, nothing changes.\<close>

theorem first_group_is_first_fit:
  assumes inv: "alloc_inv s"
  shows "case first_fit s len of
      None \<Rightarrow> (\<forall>g<length (w_bgs s). bg_free_blocks (w_bgs s ! g) < len) \<and> first_group len s = Inr (None, s)
    | Some g \<Rightarrow> len \<le> bg_free_blocks (w_bgs s ! g) \<and> (\<forall>h<g. bg_free_blocks (w_bgs s ! h) < len) \<and>
        (\<exists>s'. first_group len s =
            Inr (Some (of_nat g, bg_first_block (w_bgs s ! g) + bg_first_free_block (w_bgs s ! g)), s') \<and>
          w_bgs s' = (w_bgs s)[g := after_alloc len (w_bgs s ! g)])"
proof (cases "first_fit s len")
  case None
  then show ?thesis by (simp add: first_group_run [OF inv] first_fit_None)
next
  case (Some g)
  have "length (w_bgs s) < 4294967296"
    using inv unat_lt_u32 [of "aux_groups (w_aux s)"] by (simp add: alloc_inv_def)
  then have "unat (of_nat g :: u32) = g" "g < length (w_bgs s)"
    using Some by (auto dest!: first_fit_Some simp: unat_of_nat_u32)
  then show ?thesis
    using allocate_from_group [OF inv, of "of_nat g" len] first_fit_Some [OF Some]
    by (auto simp: first_group_run [OF inv] Some bind_def ret_def)
qed

theorem first_group_is_first_fit_witness:
  "first_group 19 small_world = Inr (None, small_world) \<and>
   (\<exists>s'. first_group 12 small_world = Inr (Some (0, 6), s'))"
proof -
  have n: "length (w_bgs small_world) = 2" "w_bgs small_world ! 1 = small_group 24 2 10"
    by (simp_all add: small_world_def)
  have "first_fit small_world 19 = None" "first_fit small_world 12 = Some 0"
    using n(2) by (simp_all add: first_fit_def n(1) small_free upt_rec)
  then show ?thesis
    using first_group_is_first_fit [OF small_inv, of 19] first_group_is_first_fit [OF small_inv, of 12]
    by (auto simp: small_free)
qed

definition granted :: "u32 \<Rightarrow> (u32 \<times> u32) option \<Rightarrow> nat set" where
  "granted len r = (case r of None \<Rightarrow> {} | Some x \<Rightarrow> extent (snd x) len)"

text \<open>C2.  Whatever lengths are asked for one after the other, the blocks handed out are disjoint from
  each other and from everything used before (headers, bitmaps, inode tables, earlier data), and
  the bitmaps then mark exactly the old and the new blocks.\<close>

theorem allocations_disjoint:
  assumes "alloc_inv s"
  shows "\<exists>rs s'. run_all first_group lens s = Inr (rs, s') \<and> alloc_inv s' \<and> length rs = length lens \<and>
    (\<forall>i<length lens. granted (lens ! i) (rs ! i) \<inter> used_blocks s = {}) \<and>
    (\<forall>i<length lens. \<forall>j<i. granted (lens ! i) (rs ! i) \<inter> granted (lens ! j) (rs ! j) = {}) \<and>
    used_blocks s' = used_blocks s \<union> (\<Union>i<length lens. granted (lens ! i) (rs ! i))"
  using groups.run_all_disjoint [OF assms, of lens] by (simp add: groups.taken_def granted_def)

theorem allocations_disjoint_witness:
  "\<exists>rs s'. run_all first_group [5, 12, 12] small_world = Inr (rs, s') \<and> alloc_inv s' \<and>
     granted 12 (rs ! 1) \<inter> granted 5 (rs ! 0) = {}"
proof -
  obtain rs s' where "run_all first_group [5, 12, 12] small_world = Inr (rs, s')" "alloc_inv s'"
    and d: "\<forall>i<length [5, 12, 12 :: u32]. \<forall>j<i. granted ([5, 12, 12] ! i) (rs ! i) \<inter> granted ([5, 12, 12] ! j) (rs ! j) = {}"
    using allocations_disjoint [OF small_inv, of "[5, 12, 12]"] by auto
  then show ?thesis using d [rule_format, of 1 0] by auto
qed

section \<open>Giving blocks back\<close>

lemma free_undoes_allocate:
  assumes bm: "group_bitmap s g i b" and sh: "group_shape B (w_bgs s ! g) b" and B: "B < 4294967296"
    and len: "len \<le> bg_free_blocks (w_bgs s ! g)"
  shows "free_blocks g len (upd_bg g (after_alloc len) (upd_buf i (mark_alloc len (w_bgs s ! g) b) s)) =
    Inr ((), upd_bg g (\<lambda>bg. bg\<lparr>bg_data_blocks_used := bg_data_blocks_used bg + len\<rparr>) s)"
proof -
  let ?bg = "w_bgs s ! g" and ?b = "mark_alloc len (w_bgs s ! g) b"
  let ?ff = "unat (bg_first_free_block ?bg)" and ?s = "upd_bg g (after_alloc len) (upd_buf i ?b s)"
  let ?f = "\<lambda>bg. bg\<lparr>bg_free_blocks := bg_free_blocks bg + len, bg_first_free_block := bg_first_free_block bg - len\<rparr>"
  have g: "g < length (w_bgs s)" and mem: "w_mem s i = Some b" using bm by (simp_all add: group_bitmap_def)
  have fit: "?ff + unat len \<le> B" "B \<le> 8 * length b"
    using sh len by (auto simp: group_shape_def word_le_nat_alt)
  have ff: "bg_first_free_block (w_bgs ?s ! g) = bg_first_free_block ?bg + len"
    using g by (simp add: after_alloc_def initial_group_reserved)
  have uff: "unat (bg_first_free_block ?bg + len) = ?ff + unat len" using fit B by (simp add: unat_add_u32)
  have bm': "group_bitmap ?s g i ?b"
    using bm by (simp add: group_bitmap_def after_alloc_def initial_group_reserved mark_alloc_def)
  have undo: "clear_range ?ff (unat len) ?b = b"
    unfolding mark_alloc_def
    by (rule clear_marked) (use fit group_shape_free [OF sh] len in \<open>auto simp: word_le_nat_alt\<close>)
  have "free_blocks g len ?s = Inr ((), upd_bg g ?f (upd_buf i b ?s))"
    using free_blocks_run [OF bm', of len] fit unfolding ff uff
    by (simp add: undo word_le_nat_alt uff) (simp add: mark_alloc_def)
  also have "upd_buf i b ?s = upd_bg g (after_alloc len) s"
    by (simp add: upd_buf_upd_bg upd_buf_same [OF mem])
  also have "upd_bg g ?f (upd_bg g (after_alloc len) s) =
      upd_bg g (\<lambda>bg. bg\<lparr>bg_data_blocks_used := bg_data_blocks_used bg + len\<rparr>) s"
    using g by (simp only: upd_bg_upd_bg) (rule upd_bg_cong, simp add: after_alloc_def after_reserve_def)
  finally show ?thesis .
qed

text \<open>C23.  Blocks given back right after they were allocated leave the bitmap, the free count and the
  start of the free space as they were; \<open>data_blocks_used\<close> is not lowered again, so the group no
  longer counts as empty.\<close>

theorem free_after_allocate:
  assumes inv: "alloc_inv s" and g: "unat g < length (w_bgs s)" and len: "len \<le> bg_free_blocks (w_bgs s ! unat g)"
  shows "bind (ext4_allocate_blocks_from_block_group len g) (\<lambda>_. free_blocks (unat g) len) s =
    Inr ((), upd_bg (unat g) (\<lambda>bg. bg\<lparr>bg_data_blocks_used := bg_data_blocks_used bg + len\<rparr>) s)"
proof -
  have ok: "groups_ok s (length (w_bgs s))" using inv by (simp add: alloc_inv_def)
  obtain b where bm: "group_bitmap s (unat g) (bitmap_id s (unat g)) b"
    and sh: "group_shape (unat (info_blocks_per_group (w_info s))) (w_bgs s ! unat g) b"
    by (rule groups_ok_bitmap [OF ok g])
  show ?thesis
    unfolding bind_ok [where m = "ext4_allocate_blocks_from_block_group len g", OF allocate_from_group_run [OF bm sh len]]
    by (rule free_undoes_allocate [OF bm sh unat_lt_u32 len])
qed

theorem free_after_allocate_witness:
  "bind (ext4_allocate_blocks_from_block_group 13 0) (\<lambda>_. free_blocks 0 13) small_world =
    Inr ((), upd_bg 0 (\<lambda>bg. bg\<lparr>bg_data_blocks_used := bg_data_blocks_used bg + 13\<rparr>) small_world)"
  using free_after_allocate [OF small_inv, of 0 13] by (simp add: small_world_def)

end
