(* ===== verification/Region_Correct.thy ===== *)
theory Region_Correct
  imports Region_List Alloc_Theorems
begin

text \<open>
  Correctness of block allocations: \<open>allocate_blocks\<close> returns a well-formed doubly linked list of
  regions that holds the requested number of blocks, all distinct and none of them used before;
  \<open>get_block\<close> reads the list as the sequence of its blocks.
\<close>

section \<open>Region lists in the heap\<close>

fun dchain :: "(nat \<Rightarrow> region option) \<Rightarrow> nat option \<Rightarrow> nat option \<Rightarrow> nat list \<Rightarrow> bool" where
  "dchain h prev p [] \<longleftrightarrow> p = None"
| "dchain h prev p (r # rs) \<longleftrightarrow> p = Some r \<and>
     (case h r of None \<Rightarrow> False | Some x \<Rightarrow> reg_prev x = prev \<and> dchain h (Some r) (reg_next x) rs)"

definition region_blocks :: "region \<Rightarrow> nat list" where
  "region_blocks x = [unat (reg_block x)..<unat (reg_block x) + unat (reg_len x)]"

definition node_blocks :: "(nat \<Rightarrow> region option) \<Rightarrow> nat \<Rightarrow> nat list" where
  "node_blocks h r = (case h r of None \<Rightarrow> [] | Some x \<Rightarrow> region_blocks x)"

definition chain_blocks :: "(nat \<Rightarrow> region option) \<Rightarrow> nat list \<Rightarrow> nat list" where
  "chain_blocks h rs = concat (map (node_blocks h) rs)"

lemma length_region_blocks [simp]: "length (region_blocks x) = unat (reg_len x)"
  by (simp add: region_blocks_def)

lemma set_region_blocks: "set (region_blocks x) = extent (reg_block x) (reg_len x)"
  by (simp add: region_blocks_def extent_def)

lemma distinct_region_blocks [simp]: "distinct (region_blocks x)"
  by (simp add: region_blocks_def)

lemma chain_blocks_simps [simp]:
  "chain_blocks h [] = []" "chain_blocks h (r # rs) = node_blocks h r @ chain_blocks h rs"
  "chain_blocks h (rs @ ss) = chain_blocks h rs @ chain_blocks h ss"
  by (simp_all add: chain_blocks_def)

lemma dchain_cong: "(\<And>r. r \<in> set rs \<Longrightarrow> h r = h' r) \<Longrightarrow> dchain h q p rs = dchain h' q p rs"
proof (induction rs arbitrary: q p)
  case (Cons r rs)
  then show ?case by (auto split: option.splits)
qed simp

lemma chain_blocks_cong: "(\<And>r. r \<in> set rs \<Longrightarrow> node_blocks h r = node_blocks h' r) \<Longrightarrow> chain_blocks h rs = chain_blocks h' rs"
  by (induction rs) simp_all

lemma dchain_nodes: "dchain h q p rs \<Longrightarrow> r \<in> set rs \<Longrightarrow> \<exists>x. h r = Some x"
  by (induction rs arbitrary: q p) (auto split: option.splits)

text \<open>A node linked behind the last one.\<close>

lemma dchain_snoc:
  assumes "dchain h q p (rs @ [l])" and "h l = Some x" and "r \<notin> set (rs @ [l])" and "distinct (rs @ [l])"
    and "reg_prev y = Some l" and "reg_next y = None"
  shows "dchain (h(l := Some (x\<lparr>reg_next := Some r\<rparr>), r := Some y)) q p (rs @ [l, r])"
  using assms
proof (induction rs arbitrary: q p)
  case Nil
  then show ?case by auto
next
  case (Cons a rs)
  then show ?case by (auto split: option.splits)
qed

lemma node_blocks_upd: "node_blocks (h(l := v)) r = (if r = l then (case v of None \<Rightarrow> [] | Some x \<Rightarrow> region_blocks x) else node_blocks h r)"
  by (simp add: node_blocks_def)

lemma region_blocks_link [simp]:
  "region_blocks (x\<lparr>reg_next := n\<rparr>) = region_blocks x" "region_blocks (x\<lparr>reg_prev := n\<rparr>) = region_blocks x"
  by (simp_all add: region_blocks_def)

section \<open>Allocating one region\<close>

lemma group_ok_frame [simp]:
  "group_ok (s\<lparr>w_reg := h\<rparr>) g = group_ok s g" "group_ok (s\<lparr>w_next := n\<rparr>) g = group_ok s g"
  by (simp_all add: group_ok_def group_bitmap_def)

lemma bitmap_id_frame [simp]:
  "bitmap_id (s\<lparr>w_reg := h\<rparr>) = bitmap_id s" "bitmap_id (s\<lparr>w_next := n\<rparr>) = bitmap_id s"
  by (simp_all add: bitmap_id_def fun_eq_iff)

lemma alloc_inv_frame [simp]:
  "alloc_inv (s\<lparr>w_reg := h\<rparr>) = alloc_inv s"
  "alloc_inv s \<Longrightarrow> w_next s \<le> n \<Longrightarrow> alloc_inv (s\<lparr>w_next := n\<rparr>)"
  by (fastforce simp: alloc_inv_def groups_ok_def)+

lemma used_blocks_frame [simp]:
  "used_blocks (s\<lparr>w_reg := h\<rparr>) = used_blocks s" "used_blocks (s\<lparr>w_next := n\<rparr>) = used_blocks s"
  by (simp_all add: used_blocks_def group_used_def buf_def)

text \<open>State \<open>s'\<close> differs from \<open>s\<close> by a new region \<open>x\<close> of \<open>len\<close> fresh blocks of group \<open>g\<close>.\<close>

definition new_node :: "world \<Rightarrow> nat \<Rightarrow> u32 \<Rightarrow> region \<Rightarrow> world \<Rightarrow> bool" where
  "new_node s g len x s' \<longleftrightarrow> alloc_inv s' \<and> w_reg s' = (w_reg s)(w_next s := Some x) \<and>
     w_next s' = Suc (w_next s) \<and> reg_len x = len \<and> reg_next x = None \<and> reg_prev x = None \<and>
     set (region_blocks x) \<inter> used_blocks s = {} \<and> used_blocks s' = used_blocks s \<union> set (region_blocks x) \<and>
     w_bgs s' = (w_bgs s)[g := after_alloc len (w_bgs s ! g)] \<and> w_aux s' = w_aux s"

lemma groups_lt: "alloc_inv s \<Longrightarrow> g < length (w_bgs s) \<Longrightarrow> unat (of_nat g :: u32) = g"
proof -
  assume inv: "alloc_inv s" and g: "g < length (w_bgs s)"
  have "length (w_bgs s) < 4294967296"
    using inv unat_lt_u32 [of "aux_groups (w_aux s)"] by (simp add: alloc_inv_def)
  then show ?thesis using g by (intro unat_of_nat_u32) linarith
qed

lemma node_from_group:
  assumes inv: "alloc_inv s" and g: "g < length (w_bgs s)" and len: "len \<le> bg_free_blocks (w_bgs s ! g)"
  shows "\<exists>block s1. ext4_allocate_blocks_from_block_group len (of_nat g) s = Inr (block, s1) \<and>
    block \<noteq> EXT4_ALLOCATE_FAILED \<and>
    (\<exists>s'. new_region \<lparr>reg_block = block, reg_len = len, reg_bg = of_nat g, reg_next = None, reg_prev = None\<rparr> s1 =
        Inr (w_next s, s') \<and>
      new_node s g len \<lparr>reg_block = block, reg_len = len, reg_bg = of_nat g, reg_next = None, reg_prev = None\<rparr> s')"
proof -
  have u: "unat (of_nat g :: u32) = g" by (rule groups_lt [OF inv g])
  obtain block s1 where a: "ext4_allocate_blocks_from_block_group len (of_nat g) s = Inr (block, s1)" "alloc_inv s1"
    "block \<noteq> EXT4_ALLOCATE_FAILED" "extent block len \<inter> used_blocks s = {}"
    "used_blocks s1 = used_blocks s \<union> extent block len" "w_reg s1 = w_reg s" "w_next s1 = w_next s"
    "w_aux s1 = w_aux s" "w_bgs s1 = (w_bgs s)[g := after_alloc len (w_bgs s ! g)]"
    using allocate_from_group [OF inv, of "of_nat g" len] g len u by auto
  then show ?thesis by (simp add: new_region_def Let_def new_node_def set_region_blocks)
qed

lemma contiguous_run:
  assumes inv: "alloc_inv s"
  shows "case first_fit s len of
      None \<Rightarrow> ext4_allocate_contiguous_blocks len s = Inr (None, s)
    | Some g \<Rightarrow> \<exists>x s'. ext4_allocate_contiguous_blocks len s = Inr (Some (w_next s), s') \<and> new_node s g len x s'"
proof (cases "first_fit s len")
  case None
  then show ?thesis
    by (simp add: ext4_allocate_contiguous_blocks_def first_group_run [OF inv] bind_def ret_def)
next
  case (Some g)
  then have g: "g < length (w_bgs s)" "len \<le> bg_free_blocks (w_bgs s ! g)" by (auto dest: first_fit_Some)
  show ?thesis
    using node_from_group [OF inv g] Some
    by (auto simp: ext4_allocate_contiguous_blocks_def first_group_run [OF inv] bind_def ret_def)
qed

text \<open>The first group nothing has been allocated from.\<close>

definition first_empty :: "world \<Rightarrow> nat option" where
  "first_empty s = find (\<lambda>g. bg_data_blocks_used (w_bgs s ! g) = 0) [0..<length (w_bgs s)]"

lemma first_empty_Some:
  "first_empty s = Some g \<Longrightarrow> g < length (w_bgs s) \<and> bg_data_blocks_used (w_bgs s ! g) = 0"
  by (auto simp: first_empty_def find_Some_iff)

lemma first_fit_exists:
  assumes "g < length (w_bgs s)" and "len \<le> bg_free_blocks (w_bgs s ! g)"
  shows "\<exists>h. first_fit s len = Some h"
  using assms first_fit_None [of s len g] by (cases "first_fit s len") (auto simp: not_le [symmetric])

lemma partial_run:
  assumes inv: "alloc_inv s"
  shows "case first_empty s of
      None \<Rightarrow> ext4_allocate_partial len s = Inr (None, s)
    | Some g \<Rightarrow> \<exists>x s'. ext4_allocate_partial len s = Inr (Some (w_next s), s') \<and>
        (if len \<le> bg_free_blocks (w_bgs s ! g) then \<exists>h. new_node s h len x s'
         else new_node s g (bg_free_blocks (w_bgs s ! g)) x s')"
proof -
  let ?N = "length (w_bgs s)" and ?is = "upto_u32 (aux_groups (w_aux s))"
  let ?body = "\<lambda>i (_ :: unit). bind (bg_at (unat i)) (\<lambda>bg.
       if bg_data_blocks_used bg = 0
       then let bg_len = bg_free_blocks bg in
         if len \<le> bg_len
         then bind (ext4_allocate_contiguous_blocks len) (\<lambda>reg. ret (Inl reg))
         else bind (ext4_allocate_blocks_from_block_group bg_len i) (\<lambda>block.
           if block = EXT4_ALLOCATE_FAILED then sq error (ret (Inl None))
           else bind (new_region \<lparr>reg_block = block, reg_len = bg_len, reg_bg = i,
                        reg_next = None, reg_prev = None\<rparr>) (\<lambda>reg. ret (Inl (Some reg))))
       else ret (Inr ()))"
  let ?P = "\<lambda>i. bg_data_blocks_used (w_bgs s ! unat (i :: u32)) = 0"
  have N: "unat (aux_groups (w_aux s)) = ?N" "?N < 4294967296"
    using inv unat_lt_u32 [of "aux_groups (w_aux s)"] by (simp_all add: alloc_inv_def)
  have lt: "unat i < ?N" if "i \<in> set ?is" for i
    using that N by (auto simp: upto_u32_def unat_of_nat_u32)
  have hit: "\<exists>x s'. ?body (of_nat g) () s = Inr (Inl (Some (w_next s)), s') \<and>
        (if len \<le> bg_free_blocks (w_bgs s ! g) then \<exists>h. new_node s h len x s'
         else new_node s g (bg_free_blocks (w_bgs s ! g)) x s')"
    if g: "g < ?N" "bg_data_blocks_used (w_bgs s ! g) = 0" for g
  proof (cases "len \<le> bg_free_blocks (w_bgs s ! g)")
    case True
    then obtain h where "first_fit s len = Some h" using first_fit_exists g(1) by blast
    then obtain x s' where "ext4_allocate_contiguous_blocks len s = Inr (Some (w_next s), s')" "new_node s h len x s'"
      using contiguous_run [OF inv, of len] by auto
    then show ?thesis
      using groups_lt [OF inv g(1)] g True
      by (intro exI [of _ x] exI [of _ s']) (auto simp: bg_run bind_def ret_def Let_def)
  next
    case False
    show ?thesis
      using node_from_group [OF inv g(1) order_refl] groups_lt [OF inv g(1)] g False
      by (auto simp: bg_run bind_def ret_def Let_def)
  qed
  have run: "for_each ?is ?body () s =
      (case find ?P ?is of None \<Rightarrow> Inr (Inr (), s) | Some i \<Rightarrow> ?body i () s)"
  proof (rule for_each_find)
    show "?body i () s = Inr (Inr (), s)" if "i \<in> set ?is" "\<not> ?P i" for i
      using that lt [of i] by (simp add: bg_run ret_def)
    show "\<exists>v s'. ?body i () s = Inr (Inl v, s')" if "i \<in> set ?is" "?P i" for i
      using hit [OF lt [OF that(1)] that(2)] unfolding of_nat_unat_u32 by blast
  qed
  have fnd: "find ?P ?is = map_option of_nat (first_empty s)"
    unfolding upto_u32_def find_map first_empty_def N(1)
    using N(2) by (intro arg_cong [where f = "map_option of_nat"] find_cong_set) (simp add: unat_of_nat_u32)
  show ?thesis
  proof (cases "first_empty s")
    case None
    then show ?thesis using run unfolding fnd by (simp add: ext4_allocate_partial_def prog_simps bind_def ret_def)
  next
    case (Some g)
    note h = first_empty_Some [OF Some]
    have run': "ext4_allocate_partial len s = (case ?body (of_nat g) () s of Inl e \<Rightarrow> Inl e
        | Inr (r, s') \<Rightarrow> (case r of Inl reg \<Rightarrow> ret reg | Inr _ \<Rightarrow> ret None) s')"
      using run Some unfolding fnd ext4_allocate_partial_def by (simp only: bind_run(2)) (simp add: bind_def)
    obtain x s' where b: "?body (of_nat g) () s = Inr (Inl (Some (w_next s)), s')"
      and n: "if len \<le> bg_free_blocks (w_bgs s ! g) then \<exists>h. new_node s h len x s'
         else new_node s g (bg_free_blocks (w_bgs s ! g)) x s'"
      using hit [of g] h by blast
    have "ext4_allocate_partial len s = Inr (Some (w_next s), s')" unfolding run' b by (simp add: ret_def)
    then show ?thesis using n Some by auto
  qed
qed

section \<open>Allocating several regions\<close>

text \<open>Since state \<open>s\<close> the list \<open>rs\<close> of regions with \<open>n\<close> blocks has been allocated.\<close>

definition grown :: "world \<Rightarrow> world \<Rightarrow> nat option \<Rightarrow> nat list \<Rightarrow> nat \<Rightarrow> bool" where
  "grown s t first rs n \<longleftrightarrow> alloc_inv t \<and> dchain (w_reg t) None first rs \<and> distinct rs \<and>
     (\<forall>r\<in>set rs. r < w_next t) \<and> distinct (chain_blocks (w_reg t) rs) \<and> length (chain_blocks (w_reg t) rs) = n \<and>
     set (chain_blocks (w_reg t) rs) \<inter> used_blocks s = {} \<and>
     used_blocks t = used_blocks s \<union> set (chain_blocks (w_reg t) rs)"

lemma grown_start: "alloc_inv s \<Longrightarrow> grown s s None [] 0"
  by (simp add: grown_def)

lemma link_run:
  assumes "w_reg t p = Some x" and "w_reg t r = Some y" and "p \<noteq> r"
  shows "sq (set_region p (\<lambda>x. x\<lparr>reg_next := Some r\<rparr>)) (set_region r (\<lambda>x. x\<lparr>reg_prev := Some p\<rparr>)) t =
    Inr ((), t\<lparr>w_reg := (w_reg t)(p := Some (x\<lparr>reg_next := Some r\<rparr>), r := Some (y\<lparr>reg_prev := Some p\<rparr>))\<rparr>)"
  using assms by (simp add: sq_def region_run bind_def)

lemma grown_first:
  assumes "alloc_inv s" and "new_node s g len x t"
  shows "grown s t (Some (w_next s)) [w_next s] (unat len)"
  using assms by (simp add: grown_def new_node_def node_blocks_def)

lemma grown_snoc:
  assumes gr: "grown s t first (rs @ [l]) n" and nn: "new_node t g len y u"
  defines "r \<equiv> w_next t"
  shows "\<exists>v. sq (set_region l (\<lambda>x. x\<lparr>reg_next := Some r\<rparr>)) (set_region r (\<lambda>x. x\<lparr>reg_prev := Some l\<rparr>)) u = Inr ((), v) \<and>
    grown s v first (rs @ [l, r]) (n + unat len) \<and> w_reg v r = Some (y\<lparr>reg_prev := Some l\<rparr>) \<and> w_bgs v = w_bgs u"
proof -
  have dc: "dchain (w_reg t) None first (rs @ [l])" and dist: "distinct (rs @ [l])"
    and fresh: "\<And>q. q \<in> set (rs @ [l]) \<Longrightarrow> q < r"
    using gr by (auto simp: grown_def r_def)
  have new: "r \<notin> set (rs @ [l])" using fresh by blast
  obtain x where x: "w_reg t l = Some x" using dchain_nodes [OF dc, of l] by auto
  let ?h = "(w_reg t)(l := Some (x\<lparr>reg_next := Some r\<rparr>), r := Some (y\<lparr>reg_prev := Some l\<rparr>))"
  let ?v = "u\<lparr>w_reg := ?h\<rparr>"
  have u: "w_reg u = (w_reg t)(r := Some y)" "w_next u = Suc r" "reg_len y = len" "reg_next y = None" "alloc_inv u"
    "set (region_blocks y) \<inter> used_blocks t = {}" "used_blocks u = used_blocks t \<union> set (region_blocks y)"
    using nn by (simp_all add: new_node_def r_def)
  have lr: "l \<noteq> r" using new by auto
  have "(w_reg u)(l := Some (x\<lparr>reg_next := Some r\<rparr>), r := Some (y\<lparr>reg_prev := Some l\<rparr>)) = ?h"
    unfolding u(1) using lr by auto
  then have run: "sq (set_region l (\<lambda>x. x\<lparr>reg_next := Some r\<rparr>)) (set_region r (\<lambda>x. x\<lparr>reg_prev := Some l\<rparr>)) u = Inr ((), ?v)"
    using link_run [of u l x r y] u(1) x lr by simp
  have cb: "chain_blocks ?h (rs @ [l, r]) = chain_blocks (w_reg t) (rs @ [l]) @ region_blocks y"
  proof -
    have "chain_blocks ?h rs = chain_blocks (w_reg t) rs"
      by (rule chain_blocks_cong) (use new dist in \<open>auto simp: node_blocks_upd\<close>)
    then show ?thesis using lr x by (simp add: node_blocks_upd) (simp add: node_blocks_def)
  qed
  have "dchain ?h None first (rs @ [l, r])"
    by (rule dchain_snoc [OF dc x new dist]) (simp_all add: u)
  moreover have "distinct (rs @ [l, r])" using dist new by auto
  moreover have "\<forall>q\<in>set (rs @ [l, r]). q < w_next ?v" using fresh by (auto simp: u less_SucI)
  moreover have "used_blocks t = used_blocks s \<union> set (chain_blocks (w_reg t) (rs @ [l]))"
    "distinct (chain_blocks (w_reg t) (rs @ [l]))" "length (chain_blocks (w_reg t) (rs @ [l])) = n"
    "set (chain_blocks (w_reg t) (rs @ [l])) \<inter> used_blocks s = {}"
    using gr by (simp_all only: grown_def)
  ultimately have "grown s ?v first (rs @ [l, r]) (n + unat len)"
    unfolding grown_def using u(3,5,6,7) cb by (simp add: Int_Un_distrib Int_Un_distrib2 Un_assoc) blast
  then show ?thesis using run by (intro exI [of _ ?v]) simp
qed

text \<open>Every group nothing was allocated from has a free block: what the loop needs to end.\<close>

definition no_empty_groups :: "world \<Rightarrow> bool" where
  "no_empty_groups s \<longleftrightarrow>
     (\<forall>g<length (w_bgs s). bg_data_blocks_used (w_bgs s ! g) = 0 \<longrightarrow> 0 < bg_free_blocks (w_bgs s ! g))"

text \<open>The blocks in those groups: what several regions can hold.\<close>

definition room :: "world \<Rightarrow> nat" where
  "room s = (\<Sum>g | g < length (w_bgs s) \<and> bg_data_blocks_used (w_bgs s ! g) = 0. unat (bg_free_blocks (w_bgs s ! g)))"

definition multiple_inv :: "world \<Rightarrow> u32 \<Rightarrow> nat option \<times> nat option \<times> u32 \<Rightarrow> world \<Rightarrow> bool" where
  "multiple_inv s L = (\<lambda>(first, prev, l) t. \<exists>rs n. grown s t first rs n \<and> n + unat l = unat L \<and>
     prev = (if rs = [] then None else Some (last rs)) \<and> 
     (l \<noteq> 0 \<longrightarrow> no_empty_groups t \<and> room s \<le> room t + n))"

lemma no_empty_groups_step:
  assumes "no_empty_groups t" and "first_empty t = Some g"
    and "w_bgs u = (w_bgs t)[g := after_alloc (bg_free_blocks (w_bgs t ! g)) (w_bgs t ! g)]"
  shows "no_empty_groups u"
proof -
  note g = first_empty_Some [OF assms(2)]
  then have "bg_free_blocks (w_bgs t ! g) \<noteq> 0" using assms(1) by (auto simp: no_empty_groups_def)
  then show ?thesis
    using assms(1,3) g by (auto simp: no_empty_groups_def nth_list_update after_alloc_def initial_group_reserved)
qed

lemma room_step:
  assumes "first_empty t = Some g" and "bg_free_blocks (w_bgs t ! g) \<noteq> 0"
    and "w_bgs u = (w_bgs t)[g := after_alloc (bg_free_blocks (w_bgs t ! g)) (w_bgs t ! g)]"
  shows "room t = room u + unat (bg_free_blocks (w_bgs t ! g))"
proof -
  let ?E = "\<lambda>t. {g. g < length (w_bgs t) \<and> bg_data_blocks_used (w_bgs t ! g) = 0}"
  note g = first_empty_Some [OF assms(1)]
  have "?E u = ?E t - {g}"
    using g assms(2,3) by (auto simp: nth_list_update after_alloc_def initial_group_reserved split: if_splits)
  moreover have "unat (bg_free_blocks (w_bgs u ! h)) = unat (bg_free_blocks (w_bgs t ! h))" if "h \<in> ?E t - {g}" for h
    using that assms(3) by simp
  ultimately have "room u = (\<Sum>h\<in>?E t - {g}. unat (bg_free_blocks (w_bgs t ! h)))"
    unfolding room_def by (intro sum.cong) auto
  moreover have "finite (?E t)" "g \<in> ?E t" using g by simp_all
  ultimately show ?thesis unfolding room_def by (subst sum.remove [of _ g]) simp_all
qed

lemma room_empty: "first_empty t = None \<Longrightarrow> room t = 0"
  by (auto simp: first_empty_def find_None_iff room_def)

text \<open>Linking a new region behind the list allocated so far.\<close>

lemma multiple_link:
  assumes gr: "grown s t first rs n" and prev: "prev = (if rs = [] then None else Some (last rs))"
    and nn: "new_node t g len y u" and inv: "alloc_inv s" and start: "rs = [] \<Longrightarrow> used_blocks t = used_blocks s"
  defines "r \<equiv> w_next t"
  shows "\<exists>v z. (case prev of None \<Rightarrow> ret ()
        | Some p \<Rightarrow> sq (set_region p (\<lambda>x. x\<lparr>reg_next := Some r\<rparr>)) (set_region r (\<lambda>x. x\<lparr>reg_prev := Some p\<rparr>))) u = Inr ((), v) \<and>
    grown s v (case first of None \<Rightarrow> Some r | Some f \<Rightarrow> Some f) (rs @ [r]) (n + unat len) \<and>
    w_reg v r = Some z \<and> reg_len z = len \<and> w_bgs v = w_bgs u"
proof (cases rs rule: rev_cases)
  case Nil
  then have "first = None" "n = 0" using gr by (simp_all add: grown_def)
  then show ?thesis
    using nn start Nil prev by (intro exI [of _ u] exI [of _ y]) (simp add: ret_def grown_def new_node_def node_blocks_def r_def)
next
  case (snoc qs l)
  have "first \<noteq> None" using gr snoc by (cases qs) (auto simp: grown_def)
  then show ?thesis
    using grown_snoc [OF gr [unfolded snoc] nn] prev snoc nn by (auto simp: r_def new_node_def)
qed

lemma multiple_step_wp:
  assumes inv: "alloc_inv s" and I: "multiple_inv s L x t"
  shows "wp (multiple_step x) (\<lambda>r t'. case r of
      Inl v \<Rightarrow> alloc_inv t' \<and> used_blocks s \<subseteq> used_blocks t' \<and>
        (case v of None \<Rightarrow> L = 0 \<or> room s < unat L | Some f \<Rightarrow> \<exists>rs. grown s t' (Some f) rs (unat L))
    | Inr z \<Rightarrow> multiple_inv s L z t' \<and> unat (snd (snd z)) < unat (snd (snd x))) t"
proof -
  obtain first prev l where x: "x = (first, prev, l)" by (cases x)
  obtain rs n where gr: "grown s t first rs n" and n: "n + unat l = unat L"
    and prev: "prev = (if rs = [] then None else Some (last rs))" and ne: "l \<noteq> 0 \<Longrightarrow> no_empty_groups t"
    and room: "l \<noteq> 0 \<Longrightarrow> room s \<le> room t + n"
    using I by (auto simp: multiple_inv_def x)
  have t: "alloc_inv t" "used_blocks s \<subseteq> used_blocks t" using gr by (auto simp: grown_def)
  show ?thesis
  proof (cases "l = 0")
    case True
    have "L = 0" if "first = None"
    proof -
      have "rs = []" using gr that by (cases rs) (auto simp: grown_def)
      then show ?thesis using gr n True by (simp add: grown_def unat_eq_zero)
    qed
    then show ?thesis
      using True t gr n by (auto simp: x multiple_step_def wp_simps split: option.splits)
  next
    case l0: False
    show ?thesis
    proof (cases "first_empty t")
      case None
      then have "ext4_allocate_partial l t = Inr (None, t)" using partial_run [OF t(1), of l] by simp
      moreover have "room s < unat L" using room [OF l0] room_empty [OF None] n l0 by (simp add: unat_gt_0 [symmetric])
      ultimately show ?thesis using l0 t by (simp add: x multiple_step_def wp_simps wp_exact)
    next
      case (Some g)
      let ?f = "bg_free_blocks (w_bgs t ! g)" and ?r = "w_next t"
      obtain y u where run: "ext4_allocate_partial l t = Inr (Some ?r, u)" and
        y: "if l \<le> ?f then \<exists>h. new_node t h l y u else new_node t g ?f y u"
        using partial_run [OF t(1), of l] Some by auto
      have f0: "0 < ?f" using ne [OF l0] first_empty_Some [OF Some] by (auto simp: no_empty_groups_def)
      obtain h len where nn: "new_node t h len y u" and len: "len = (if l \<le> ?f then l else ?f)"
        and h: "\<not> l \<le> ?f \<Longrightarrow> h = g"
        using y by (auto split: if_splits)
      have st: "used_blocks t = used_blocks s" if "rs = []" using gr that by (simp add: grown_def)
      obtain v z where lk: "(case prev of None \<Rightarrow> ret ()
          | Some p \<Rightarrow> sq (set_region p (\<lambda>x. x\<lparr>reg_next := Some ?r\<rparr>)) (set_region ?r (\<lambda>x. x\<lparr>reg_prev := Some p\<rparr>))) u = Inr ((), v)"
        and gv: "grown s v (case first of None \<Rightarrow> Some ?r | Some f \<Rightarrow> Some f) (rs @ [?r]) (n + unat len)"
        and z: "w_reg v ?r = Some z" "reg_len z = len" and bgs: "w_bgs v = w_bgs u"
        using multiple_link [OF gr prev nn inv st] by blast
      have le: "len \<le> l" "len \<noteq> 0" using len f0 l0 by (auto simp: not_le)
      have d: "unat (l - len) = unat l - unat len" by (rule unat_sub_le) (rule le)
      have "0 < unat len" "unat len \<le> unat l" using le by (simp_all add: word_le_nat_alt unat_gt_0)
      then have m: "unat (l - len) < unat l" "n + unat len + unat (l - len) = unat L" using d n by linarith+
      have "no_empty_groups v \<and> room s \<le> room v + (n + unat len)" if "l - len \<noteq> 0"
      proof -
        have nl: "\<not> l \<le> ?f" using that len by auto
        then have "w_bgs u = (w_bgs t)[g := after_alloc ?f (w_bgs t ! g)]"
          using nn len h by (simp add: new_node_def)
        then have "no_empty_groups u" "room t = room u + unat len"
          using no_empty_groups_step [OF ne [OF l0] Some] room_step [OF Some] f0 nl len by auto
        then show ?thesis using bgs room [OF l0] by (simp add: no_empty_groups_def room_def)
      qed
      then have "multiple_inv s L (case first of None \<Rightarrow> Some ?r | Some f \<Rightarrow> Some f, Some ?r, l - len) v"
        unfolding multiple_inv_def using gv m(2)
        by (simp only: prod.case) (rule exI [of _ "rs @ [?r]"], rule exI [of _ "n + unat len"], simp)
      moreover have "multiple_step x t =
          Inr (Inr (case first of None \<Rightarrow> Some ?r | Some f \<Rightarrow> Some f, Some ?r, l - len), v)"
        using l0 run lk z by (simp add: x multiple_step_def bind_ok sq_ok region_run ret_def Let_def)
      ultimately show ?thesis using m(1) by (simp add: wp_exact x)
    qed
  qed
qed

lemma multiple_correct:
  assumes inv: "alloc_inv s" and ne: "no_empty_groups s"
  shows "wp (ext4_allocate_multiple_contiguous_blocks len) (\<lambda>v t. alloc_inv t \<and> used_blocks s \<subseteq> used_blocks t \<and>
    (case v of None \<Rightarrow> len = 0 \<or> room s < unat len | Some f \<Rightarrow> \<exists>rs. grown s t (Some f) rs (unat len))) s"
  unfolding ext4_allocate_multiple_contiguous_blocks_def
proof (rule wp_loop [where I = "multiple_inv s len" and m = "\<lambda>x. unat (snd (snd x))"])
  show "multiple_inv s len (None, None, len) s"
    using grown_start [OF inv] ne by (auto simp: multiple_inv_def)
qed (use multiple_step_wp [OF inv] in auto)

lemma do_allocate_correct:
  assumes inv: "alloc_inv s" and ne: "no_empty_groups s"
  shows "wp (do_allocate len) (\<lambda>v t. alloc_inv t \<and> used_blocks s \<subseteq> used_blocks t \<and>
    (case v of None \<Rightarrow> len = 0 \<or> room s < unat len | Some f \<Rightarrow> \<exists>rs. grown s t (Some f) rs (unat len))) s"
proof (cases "first_fit s len")
  case None
  then have "ext4_allocate_contiguous_blocks len s = Inr (None, s)" using contiguous_run [OF inv, of len] by simp
  then show ?thesis using multiple_correct [OF assms, of len] by (simp add: do_allocate_def wp_simps wp_exact)
next
  case (Some g)
  then obtain x s' where run: "ext4_allocate_contiguous_blocks len s = Inr (Some (w_next s), s')" and nn: "new_node s g len x s'"
    using contiguous_run [OF inv, of len] by auto
  have "grown s s' (Some (w_next s)) [w_next s] (unat len)" by (rule grown_first [OF inv nn])
  then show ?thesis using run nn by (auto simp: do_allocate_def wp_simps wp_exact new_node_def)
qed

section \<open>The allocation as a whole\<close>

text \<open>C3.  \<open>allocate_blocks\<close> returns: either with nothing, and then the groups that nothing was allocated
  from have too little room, or with a doubly linked list of regions with exactly \<open>len\<close> blocks, no block twice, none of them used
  before; the used blocks grow by exactly these.  The groups are first fit for one region and are
  taken one after the other otherwise, which ends because each round takes a block.\<close>

theorem allocate_blocks_correct:
  assumes "alloc_inv s" and "no_empty_groups s"
  shows "\<exists>r s'. allocate_blocks len s = Inr (r, s') \<and> alloc_inv s' \<and> used_blocks s \<subseteq> used_blocks s' \<and>
    (case r of None \<Rightarrow> len = 0 \<or> room s < unat len
     | Some alloc \<Rightarrow> \<exists>rs. dchain (w_reg s') None (rl_first (ba_list alloc)) rs \<and>
         (let blocks = chain_blocks (w_reg s') rs in distinct blocks \<and> length blocks = unat len \<and>
           set blocks \<inter> used_blocks s = {} \<and> used_blocks s' = used_blocks s \<union> set blocks))"
proof -
  obtain v t where run: "do_allocate len s = Inr (v, t)" and t: "alloc_inv t" "used_blocks s \<subseteq> used_blocks t"
    and v: "case v of None \<Rightarrow> len = 0 \<or> room s < unat len | Some f \<Rightarrow> \<exists>rs. grown s t (Some f) rs (unat len)"
    using wp_run [OF do_allocate_correct [OF assms, of len]] by auto
  show ?thesis
  proof (cases v)
    case None
    then show ?thesis using run t v by (simp add: allocate_blocks_def bind_ok ret_def)
  next
    case (Some f)
    then obtain rs where "grown s t (Some f) rs (unat len)" using v by auto
    then show ?thesis
      using run t Some by (auto simp: allocate_blocks_def bind_ok ret_def grown_def Let_def create_allocation_def)
  qed
qed

lemma small_groups: "length (w_bgs small_world) = 2" "w_bgs small_world ! 0 = small_group 0 0 18"
  "w_bgs small_world ! 1 = small_group 24 2 10"
  by (simp_all add: small_world_def)

lemma small_no_empty: "no_empty_groups small_world"
  using small_groups by (auto simp: no_empty_groups_def less_2_cases_iff)

lemma small_room: "room small_world = 28"
proof -
  note small_groups
  moreover from this have "{g. g < length (w_bgs small_world) \<and> bg_data_blocks_used (w_bgs small_world ! g) = 0} = {0, 1}"
    by (auto simp: less_2_cases_iff small_group_def)
  ultimately show ?thesis by (simp add: room_def)
qed

theorem allocate_blocks_correct_witness:
  "\<exists>alloc rs s'. allocate_blocks 25 small_world = Inr (Some alloc, s') \<and> alloc_inv s' \<and>
     length (chain_blocks (w_reg s') rs) = 25 \<and> set (chain_blocks (w_reg s') rs) \<inter> used_blocks small_world = {}"
proof -
  obtain r s' where run: "allocate_blocks 25 small_world = Inr (r, s')" "alloc_inv s'" and
    r: "case r of None \<Rightarrow> (25 :: u32) = 0 \<or> room small_world < unat (25 :: u32)
     | Some alloc \<Rightarrow> \<exists>rs. dchain (w_reg s') None (rl_first (ba_list alloc)) rs \<and>
         (let blocks = chain_blocks (w_reg s') rs in distinct blocks \<and> length blocks = unat (25 :: u32) \<and>
           set blocks \<inter> used_blocks small_world = {} \<and> used_blocks s' = used_blocks small_world \<union> set blocks)"
    using allocate_blocks_correct [OF small_inv small_no_empty, of 25] by blast
  obtain alloc where "r = Some alloc" using r by (cases r) (simp_all add: small_room)
  then show ?thesis using run r by (auto simp: Let_def)
qed

section \<open>A request that never ends\<close>

lemma after_alloc_zero: "after_alloc 0 bg = bg"
  by (simp add: after_alloc_def after_reserve_def)

lemma multiple_step_stuck:
  assumes inv: "alloc_inv t" and e: "first_empty t = Some g" and f: "bg_free_blocks (w_bgs t ! g) = 0" and l: "l \<noteq> 0"
    and prev: "\<And>p. prev = Some p \<Longrightarrow> p < w_next t \<and> w_reg t p \<noteq> None"
  shows "\<exists>first' u. multiple_step (first, prev, l) t = Inr (Inr (first', Some (w_next t), l), u) \<and>
    alloc_inv u \<and> w_bgs u = w_bgs t \<and> w_next t < w_next u \<and> w_reg u (w_next t) \<noteq> None"
proof -
  let ?r = "w_next t"
  have nl: "\<not> l \<le> bg_free_blocks (w_bgs t ! g)" using l f by (simp add: not_le word_gt_0)
  obtain y u where run: "ext4_allocate_partial l t = Inr (Some ?r, u)" and nn: "new_node t g 0 y u"
    using partial_run [OF inv, of l] e nl f by auto
  have u: "w_reg u = (w_reg t)(?r := Some y)" "w_next u = Suc ?r" "reg_len y = 0" "alloc_inv u" "w_bgs u = w_bgs t"
    using nn by (simp_all add: new_node_def after_alloc_zero)
  show ?thesis
  proof (cases prev)
    case None
    then show ?thesis using run u l by (simp add: multiple_step_def bind_ok sq_ok ret_def region_run Let_def)
  next
    case (Some p)
    then obtain x where x: "w_reg t p = Some x" "p \<noteq> ?r" using prev by auto
    have lk: "sq (set_region p (\<lambda>x. x\<lparr>reg_next := Some ?r\<rparr>)) (set_region ?r (\<lambda>x. x\<lparr>reg_prev := Some p\<rparr>)) u =
      Inr ((), u\<lparr>w_reg := (w_reg u)(p := Some (x\<lparr>reg_next := Some ?r\<rparr>), ?r := Some (y\<lparr>reg_prev := Some p\<rparr>))\<rparr>)"
      by (rule link_run) (use x u in simp_all)
    then show ?thesis using run u l Some by (simp add: multiple_step_def bind_ok sq_ok ret_def region_run Let_def)
  qed
qed

lemma first_empty_cong: "w_bgs u = w_bgs t \<Longrightarrow> first_empty u = first_empty t"
  by (simp add: first_empty_def)

lemma multiple_stuck:
  assumes "alloc_inv t" and "first_empty t = Some g" and "bg_free_blocks (w_bgs t ! g) = 0" and "l \<noteq> 0"
    and "\<And>p. prev = Some p \<Longrightarrow> p < w_next t \<and> w_reg t p \<noteq> None"
  shows "loop n multiple_step (first, prev, l) t = Inl Diverge"
  using assms
proof (induction n arbitrary: t first prev)
  case 0
  then show ?case by (simp add: fail_def)
next
  case (Suc n)
  obtain first' u where step: "multiple_step (first, prev, l) t = Inr (Inr (first', Some (w_next t), l), u)"
    and u: "alloc_inv u" "w_bgs u = w_bgs t" "w_next t < w_next u" "w_reg u (w_next t) \<noteq> None"
    using multiple_step_stuck [OF Suc.prems] by blast
  have "loop n multiple_step (first', Some (w_next t), l) u = Inl Diverge"
    by (rule Suc.IH) (use u Suc.prems first_empty_cong [OF u(2)] in auto)
  then show ?case by (simp add: bind_def step)
qed

text \<open>C24.  When some group has no free block although nothing was allocated from it (its header fills
  it), and no other such group comes first, a request that does not fit in one group never ends:
  the loop of \<open>ext4_allocate_multiple_contiguous_blocks\<close> takes regions of length zero from that
  group for ever, whatever number of rounds it is given.\<close>

theorem multiple_allocation_never_ends:
  assumes "alloc_inv s" and "first_empty s = Some g" and "bg_free_blocks (w_bgs s ! g) = 0" and "len \<noteq> 0"
    and "first_fit s len = None"
  shows "do_allocate len s = Inl Diverge \<and> loop n multiple_step (None, None, len) s = Inl Diverge"
proof -
  have "loop n multiple_step (None, None, len) s = Inl Diverge" for n
    by (rule multiple_stuck [OF assms(1-4)]) simp
  moreover have "ext4_allocate_contiguous_blocks len s = Inr (None, s)"
    using contiguous_run [OF assms(1), of len] assms(5) by simp
  ultimately show ?thesis
    by (simp add: do_allocate_def bind_ok ext4_allocate_multiple_contiguous_blocks_def del: loop.simps)
qed

definition full_world :: world where
  "full_world = small_start\<lparr>w_aux := small_aux\<lparr>aux_groups := 1\<rparr>, w_bgs := [small_group 0 0 0],
     w_mem := (\<lambda>_. None)(0 := Some [0xFF, 0xFF, 0xFF, 0, 0, 0, 0, 0]), w_next := 2\<rparr>"

lemma full_bits: "bits [0xFF, 0xFF, 0xFF, 0, 0, 0, 0, 0] = {..<24}"
proof -
  have "{..<24} = set [0..<24 :: nat]" by auto
  then show ?thesis unfolding bits_code by (simp add: upt_rec bit_simps)
qed

lemma full_inv: "alloc_inv full_world"
proof -
  have "group_ok full_world 0"
    by (simp add: group_ok_def group_bitmap_def group_shape_def full_world_def small_start_def small_group_def
        small_info_def small_aux_def full_bits) auto
  moreover have "inj_on (bitmap_id full_world) {..<1}" "bitmap_id full_world 0 < 2"
    by (simp_all add: inj_on_def bitmap_id_def full_world_def)
  ultimately have "groups_ok full_world 1" by (simp add: groups_ok_def full_world_def)
  moreover have "length (w_bgs full_world) = 1" "unat (aux_groups (w_aux full_world)) = 1"
    by (simp_all add: full_world_def)
  ultimately show ?thesis by (simp add: alloc_inv_def)
qed

theorem multiple_allocation_never_ends_witness:
  "do_allocate 1 full_world = Inl Diverge \<and> loop 1000 multiple_step (None, None, 1) full_world = Inl Diverge"
proof -
  have "first_empty full_world = Some 0" "first_fit full_world 1 = None"
    "bg_free_blocks (w_bgs full_world ! 0) = 0"
    by (simp_all add: first_empty_def first_fit_def full_world_def small_group_def)
  then show ?thesis
    using multiple_allocation_never_ends [OF full_inv, of 0 1 1000] by simp
qed

end
