(* ===== verification/Region_Walk.thy ===== *)
theory Region_Walk
  imports Region_Correct
begin

text \<open>
  Reading and editing region lists: an allocation read block by block is the sequence of its
  blocks; linking and unlinking a region is appending to and removing from the list the pointers
  stand for; the places where the code leaves a list with a stale end.
\<close>

section \<open>Walks\<close>

lemma nodes_below: "distinct rs \<Longrightarrow> (\<And>r. r \<in> set rs \<Longrightarrow> r < n) \<Longrightarrow> length rs \<le> n"
proof -
  assume d: "distinct rs" and l: "\<And>r. r \<in> set rs \<Longrightarrow> r < n"
  then have "card (set rs) \<le> card {..<n}" by (intro card_mono) auto
  then show ?thesis using d by (simp add: distinct_card)
qed

lemma get_loop:
  assumes "dchain (w_reg s) q p rs" and "length rs < n"
  shows "loop n (\<lambda>(reg, block). case reg of
       None \<Rightarrow> ret (Inl EXT4_ALLOCATE_FAILED)
     | Some r \<Rightarrow> bind (region_at r) (\<lambda>x.
         if block < reg_len x then ret (Inl (reg_block x + block))
         else ret (Inr (reg_next x, block - reg_len x)))) (p, k) s =
    Inr (if unat k < length (chain_blocks (w_reg s) rs) then of_nat (chain_blocks (w_reg s) rs ! unat k)
         else EXT4_ALLOCATE_FAILED, s)"
  using assms
proof (induction rs arbitrary: q p n k)
  case Nil
  then obtain n' where "n = Suc n'" by (cases n) auto
  then show ?case using Nil by (simp add: bind_def ret_def)
next
  case (Cons r rs)
  then obtain n' x where n: "n = Suc n'" "length rs < n'" and x: "w_reg s r = Some x" and p: "p = Some r"
    and dc: "dchain (w_reg s) (Some r) (reg_next x) rs"
    by (cases n) (auto split: option.splits)
  show ?case
  proof (cases "k < reg_len x")
    case True
    then have "unat k < unat (reg_len x)" by (simp add: word_less_nat_alt)
    then have "chain_blocks (w_reg s) (r # rs) ! unat k = unat (reg_block x) + unat k"
      and "unat k < length (chain_blocks (w_reg s) (r # rs))"
      using x by (simp_all add: node_blocks_def nth_append) (simp add: region_blocks_def)
    then show ?thesis using True n x p by (simp add: bind_def region_run ret_def)
  next
    case False
    then have le: "unat (reg_len x) \<le> unat k" "unat (k - reg_len x) = unat k - unat (reg_len x)"
      by (simp_all add: not_less word_le_nat_alt unat_sub_le)
    show ?thesis
      using Cons.IH [OF dc n(2), of "k - reg_len x"] False n x p le
      by (simp add: bind_def region_run ret_def node_blocks_def nth_append less_diff_conv2)
  qed
qed

text \<open> \<open>get_block\<close> reads an allocation as one array: from the iterator on, block number \<open>block\<close> of
  the allocation is the \<open>block\<close>-th of the concatenated regions, and past the end it is
  \<open>EXT4_ALLOCATE_FAILED\<close>; the walk ends and changes nothing.\<close>

theorem get_block_reads_list:
  assumes "dchain (w_reg s) q (rl_iter (ba_list alloc)) rs" and "distinct rs"
    and "\<forall>r\<in>set rs. r < w_next s" and "unat block + unat (rl_partial_iter (ba_list alloc)) < 4294967296"
  shows "get_block alloc block s =
    Inr (let i = unat block + unat (rl_partial_iter (ba_list alloc)); blocks = chain_blocks (w_reg s) rs
         in if i < length blocks then of_nat (blocks ! i) else EXT4_ALLOCATE_FAILED, s)"
proof -
  have "length rs \<le> w_next s" using assms(2,3) by (intro nodes_below) auto
  then have "length rs < Suc (Suc (w_next s))" by simp
  moreover have "unat (block + rl_partial_iter (ba_list alloc)) = unat block + unat (rl_partial_iter (ba_list alloc))"
    using assms(4) by (simp add: unat_add_u32)
  ultimately show ?thesis
    unfolding get_block_def get_list_block_def bind_run(2) get_loop [OF assms(1) \<open>length rs < Suc (Suc (w_next s))\<close>]
    by (simp add: Let_def)
qed

definition two_regions :: world where
  "two_regions = small_world\<lparr>w_reg := (\<lambda>_. None)(4 := Some \<lparr>reg_block = 6, reg_len = 2, reg_bg = 0, reg_next = Some 5, reg_prev = None\<rparr>,
     5 := Some \<lparr>reg_block = 30, reg_len = 3, reg_bg = 1, reg_next = None, reg_prev = Some 4\<rparr>), w_next := 6\<rparr>"

definition two_list :: region_list where
  "two_list = \<lparr>rl_first = Some 4, rl_last = Some 5, rl_iter = Some 4, rl_partial_iter = 0\<rparr>"

definition two_alloc :: block_allocation where
  "two_alloc = \<lparr>ba_list = two_list, ba_oob_list = empty_region_list\<rparr>"

lemma two_chain: "dchain (w_reg two_regions) None (Some 4) [4, 5]"
  "node_blocks (w_reg two_regions) 4 = [6, 7]" "node_blocks (w_reg two_regions) 5 = [30, 31, 32]"
  by (simp_all add: two_regions_def node_blocks_def region_blocks_def upt_rec)

theorem get_block_reads_list_witness:
  "get_block two_alloc 3 two_regions = Inr (31, two_regions) \<and>
   get_block two_alloc 5 two_regions = Inr (EXT4_ALLOCATE_FAILED, two_regions)"
proof -
  have d: "dchain (w_reg two_regions) None (rl_iter (ba_list two_alloc)) [4, 5]" "\<forall>r\<in>set [4, 5]. r < w_next two_regions"
    "rl_partial_iter (ba_list two_alloc) = 0"
    using two_chain by (simp_all add: two_alloc_def two_list_def) (simp add: two_regions_def)
  show ?thesis
    using get_block_reads_list [OF d(1) _ d(2), of 3] get_block_reads_list [OF d(1) _ d(2), of 5]
    by (simp add: d(3) two_chain(2,3) Let_def nth_Cons')
qed

lemma sum_loop:
  assumes "dchain (w_reg s) q p rs" and "length rs < n"
  shows "loop n (\<lambda>(reg, i). case reg of
       None \<Rightarrow> ret (Inl i)
     | Some r \<Rightarrow> bind (region_at r) (\<lambda>x. ret (Inr (reg_next x, i + f x)))) (p, k) s =
    Inr (k + sum_list (map (\<lambda>r. f (the (w_reg s r))) rs), s)"
  using assms
proof (induction rs arbitrary: q p n k)
  case Nil
  then obtain n' where "n = Suc n'" by (cases n) auto
  then show ?case using Nil by (simp add: bind_def ret_def)
next
  case (Cons r rs)
  then obtain n' x where n: "n = Suc n'" "length rs < n'" and x: "w_reg s r = Some x" and p: "p = Some r"
    and dc: "dchain (w_reg s) (Some r) (reg_next x) rs"
    by (cases n) (auto split: option.splits)
  show ?case
    using Cons.IH [OF dc n(2), of "k + f x"] n x p by (simp add: bind_def region_run ret_def add.assoc)
qed

lemma sum_regions_run:
  assumes "dchain (w_reg s) q p rs" and "distinct rs" and "\<forall>r\<in>set rs. r < w_next s"
  shows "sum_regions f p s = Inr (sum_list (map (\<lambda>r. f (the (w_reg s r))) rs), s)"
proof -
  have "length rs < Suc (Suc (w_next s))" using nodes_below [of rs "w_next s"] assms(2,3) by auto
  then show ?thesis unfolding sum_regions_def bind_run(2) sum_loop [OF assms(1) \<open>length rs < _\<close>] by simp
qed

lemma length_chain_blocks:
  "dchain h q p rs \<Longrightarrow> of_nat (length (chain_blocks h rs)) = (sum_list (map (\<lambda>r. reg_len (the (h r))) rs) :: u32)"
  by (induction rs arbitrary: q p) (auto simp: node_blocks_def split: option.splits)

text \<open> \<open>block_allocation_num_regions\<close> and \<open>block_allocation_len\<close> count the regions and the blocks of
  an allocation (as 32-bit numbers).\<close>

theorem block_allocation_counts:
  assumes "dchain (w_reg s) q (rl_first (ba_list alloc)) rs" and "distinct rs" and "\<forall>r\<in>set rs. r < w_next s"
  shows "block_allocation_num_regions alloc s = Inr (of_nat (length rs), s) \<and>
    block_allocation_len alloc s = Inr (of_nat (length (chain_blocks (w_reg s) rs)), s)"
  unfolding block_allocation_num_regions_def block_allocation_len_def sum_regions_run [OF assms]
    length_chain_blocks [OF assms(1)]
  by (simp add: sum_list_triv)

theorem block_allocation_counts_witness:
  "block_allocation_num_regions two_alloc two_regions = Inr (2, two_regions) \<and>
   block_allocation_len two_alloc two_regions = Inr (5, two_regions)"
proof -
  have d: "dchain (w_reg two_regions) None (rl_first (ba_list two_alloc)) [4, 5]" "\<forall>r\<in>set [4, 5]. r < w_next two_regions"
    using two_chain by (simp_all add: two_alloc_def two_list_def) (simp add: two_regions_def)
  show ?thesis using block_allocation_counts [OF d(1) _ d(2)] by (simp add: two_chain(2,3))
qed

section \<open>Linking and unlinking\<close>

definition list_ok :: "(nat \<Rightarrow> region option) \<Rightarrow> region_list \<Rightarrow> nat list \<Rightarrow> bool" where
  "list_ok h l rs \<longleftrightarrow> dchain h None (rl_first l) rs \<and> distinct rs \<and>
     rl_last l = (if rs = [] then None else Some (last rs))"

lemma dchain_upd: "r \<notin> set rs \<Longrightarrow> dchain (h(r := v)) q p rs = dchain h q p rs"
  by (rule dchain_cong) auto

lemma dchain_first: "dchain h q p rs \<Longrightarrow> p = (if rs = [] then None else Some (hd rs))"
  by (cases rs) auto

text \<open> \<open>region_list_append\<close> links a region behind the last one: the list gets the region's blocks at
  its end, and no region outside the list and its new member changes.\<close>

theorem region_list_append_correct:
  assumes ok: "list_ok (w_reg s) l rs" and r: "w_reg s r = Some x" and new: "r \<notin> set rs"
  shows "\<exists>h l'. region_list_append l r s = Inr (l', s\<lparr>w_reg := h\<rparr>) \<and> list_ok h l' (rs @ [r]) \<and>
    chain_blocks h (rs @ [r]) = chain_blocks (w_reg s) rs @ region_blocks x \<and>
    (\<forall>q. q \<notin> set (rs @ [r]) \<longrightarrow> h q = w_reg s q)"
proof (cases rs rule: rev_cases)
  case Nil
  let ?h = "(w_reg s)(r := Some (x\<lparr>reg_prev := None, reg_next := None\<rparr>))"
  have first: "rl_first l = None" using ok Nil by (simp add: list_ok_def)
  have cb: "node_blocks ?h r = region_blocks x" by (simp add: node_blocks_def)
  show ?thesis
    using r first Nil cb
    by (intro exI [of _ ?h] exI [of _ "l\<lparr>rl_first := Some r, rl_last := Some r, rl_iter := Some r, rl_partial_iter := 0\<rparr>"])
      (simp add: region_list_append_def region_run sq_def ret_def bind_def list_ok_def)
next
  case (snoc qs t)
  have dc: "dchain (w_reg s) None (rl_first l) (qs @ [t])" and d: "distinct (qs @ [t])" and last: "rl_last l = Some t"
    using ok snoc by (auto simp: list_ok_def)
  obtain y where y: "w_reg s t = Some y" using dchain_nodes [OF dc, of t] by auto
  have tr: "t \<noteq> r" and new': "r \<notin> set (qs @ [t])" using new snoc by auto
  obtain f where first: "rl_first l = Some f" using dchain_first [OF dc] by simp
  let ?z = "x\<lparr>reg_prev := Some t, reg_next := None\<rparr>"
  let ?h = "(w_reg s)(t := Some (y\<lparr>reg_next := Some r\<rparr>), r := Some ?z)"
  have "dchain ?h None (rl_first l) (qs @ [t, r])"
    by (rule dchain_snoc [OF dc y new' d]) simp_all
  moreover have "chain_blocks ?h (qs @ [t, r]) = chain_blocks (w_reg s) (qs @ [t]) @ region_blocks x"
  proof -
    have "chain_blocks ?h qs = chain_blocks (w_reg s) qs"
      by (rule chain_blocks_cong) (use new' d in \<open>auto simp: node_blocks_upd\<close>)
    then show ?thesis using tr y by (simp add: node_blocks_upd) (simp add: node_blocks_def)
  qed
  moreover have "region_list_append l r s = Inr (l\<lparr>rl_last := Some r\<rparr>, s\<lparr>w_reg := ?h\<rparr>)"
    using r y first last tr
    by (simp add: region_list_append_def region_run sq_def ret_def bind_def from_option_def fun_upd_twist)
  moreover have "distinct (qs @ [t, r])" using d new' by auto
  ultimately show ?thesis
    using snoc by (intro exI [of _ ?h] exI [of _ "l\<lparr>rl_last := Some r\<rparr>"]) (simp add: list_ok_def)
qed

lemma two_ok: "list_ok (w_reg two_regions) two_list [4, 5]"
  using two_chain by (simp add: list_ok_def two_list_def)

definition three_regions :: world where
  "three_regions = two_regions\<lparr>w_reg := (w_reg two_regions)(6 := Some \<lparr>reg_block = 40, reg_len = 1, reg_bg = 1,
     reg_next = None, reg_prev = None\<rparr>), w_next := 7\<rparr>"

theorem region_list_append_correct_witness:
  "\<exists>h l'. region_list_append two_list 6 three_regions = Inr (l', three_regions\<lparr>w_reg := h\<rparr>) \<and> list_ok h l' [4, 5, 6] \<and>
     chain_blocks h [4, 5, 6] = [6, 7, 30, 31, 32, 40]"
proof -
  have "dchain (w_reg three_regions) None (Some 4) [4, 5]"
    by (simp add: three_regions_def two_regions_def)
  then have ok: "list_ok (w_reg three_regions) two_list [4, 5]" by (simp add: list_ok_def two_list_def)
  have r: "w_reg three_regions 6 = Some \<lparr>reg_block = 40, reg_len = 1, reg_bg = 1, reg_next = None, reg_prev = None\<rparr>"
    by (simp add: three_regions_def)
  have "node_blocks (w_reg three_regions) 4 = [6, 7]" "node_blocks (w_reg three_regions) 5 = [30, 31, 32]"
    using two_chain(2,3) by (simp_all add: node_blocks_def three_regions_def)
  moreover have "region_blocks \<lparr>reg_block = 40, reg_len = 1, reg_bg = 1, reg_next = None, reg_prev = None\<rparr> = [40]"
    by (simp add: region_blocks_def)
  ultimately show ?thesis using region_list_append_correct [OF ok r] by fastforce
qed

text \<open>A list cut in two: the part up to a node, and the rest.\<close>

fun dseg :: "(nat \<Rightarrow> region option) \<Rightarrow> nat option \<Rightarrow> nat option \<Rightarrow> nat list \<Rightarrow> nat option \<Rightarrow> bool" where
  "dseg h prev p [] m \<longleftrightarrow> p = m"
| "dseg h prev p (r # rs) m \<longleftrightarrow> p = Some r \<and>
     (case h r of None \<Rightarrow> False | Some x \<Rightarrow> reg_prev x = prev \<and> dseg h (Some r) (reg_next x) rs m)"

definition seg_end :: "nat option \<Rightarrow> nat list \<Rightarrow> nat option" where
  "seg_end q rs = (if rs = [] then q else Some (last rs))"

lemma dchain_append: "dchain h q p (as @ bs) \<longleftrightarrow> (\<exists>m. dseg h q p as m \<and> dchain h (seg_end q as) m bs)"
  by (induction as arbitrary: q p) (auto simp: seg_end_def split: option.splits)

lemma dseg_cong: "(\<And>r. r \<in> set rs \<Longrightarrow> h r = h' r) \<Longrightarrow> dseg h q p rs m = dseg h' q p rs m"
proof (induction rs arbitrary: q p)
  case (Cons r rs)
  then show ?case by (auto split: option.splits)
qed simp

lemma dseg_snoc: "dseg h q p (as @ [l]) m \<longleftrightarrow>
   dseg h q p as (Some l) \<and> (case h l of None \<Rightarrow> False | Some x \<Rightarrow> reg_prev x = seg_end q as \<and> reg_next x = m)"
  by (induction as arbitrary: q p) (auto simp: seg_end_def split: option.splits)

lemma dchain_prev_upd:
  assumes "dchain h q p rs" and "distinct rs"
  shows "dchain (case p of None \<Rightarrow> h | Some n \<Rightarrow> h(n := map_option (\<lambda>x. x\<lparr>reg_prev := q'\<rparr>) (h n))) q' p rs"
proof (cases rs)
  case Nil
  then show ?thesis using assms by simp
next
  case (Cons r rs')
  then obtain x where x: "h r = Some x" "p = Some r" "dchain h (Some r) (reg_next x) rs'"
    using assms by (auto split: option.splits)
  have "dchain (h(r := Some (x\<lparr>reg_prev := q'\<rparr>))) (Some r) (reg_next x) rs' = dchain h (Some r) (reg_next x) rs'"
    by (rule dchain_cong) (use assms Cons in auto)
  then show ?thesis using x Cons by simp
qed

lemma dseg_next_upd:
  assumes "dseg h q p as m" and "distinct as" and "seg_end q as = Some l" and "as \<noteq> []"
  shows "dseg (h(l := map_option (\<lambda>x. x\<lparr>reg_next := m'\<rparr>) (h l))) q p as m'"
proof (cases as rule: rev_cases)
  case Nil
  then show ?thesis using assms by simp
next
  case (snoc bs b)
  then have b: "b = l" using assms(3) by (simp add: seg_end_def)
  have "dseg (h(l := map_option (\<lambda>x. x\<lparr>reg_next := m'\<rparr>) (h l))) q p bs (Some l) = dseg h q p bs (Some l)"
    by (rule dseg_cong) (use assms(2) snoc b in auto)
  then show ?thesis using assms(1) unfolding snoc b dseg_snoc by (auto split: option.splits)
qed

text \<open>The heap after the neighbours of region \<open>x\<close> have been linked past it.\<close>

definition unlink_prev :: "(nat \<Rightarrow> region option) \<Rightarrow> region \<Rightarrow> nat \<Rightarrow> region option" where
  "unlink_prev h x = (case reg_prev x of None \<Rightarrow> h
     | Some l \<Rightarrow> h(l := map_option (\<lambda>y. y\<lparr>reg_next := reg_next x\<rparr>) (h l)))"

definition unlink :: "(nat \<Rightarrow> region option) \<Rightarrow> region \<Rightarrow> nat \<Rightarrow> region option" where
  "unlink h x = (case reg_next x of None \<Rightarrow> unlink_prev h x
     | Some n \<Rightarrow> (unlink_prev h x)(n := map_option (\<lambda>y. y\<lparr>reg_prev := reg_prev x\<rparr>) (unlink_prev h x n)))"

lemma node_blocks_unlink: "node_blocks (unlink h x) t = node_blocks h t"
proof -
  have "node_blocks (unlink_prev h x) t = node_blocks h t"
    by (auto simp: unlink_prev_def node_blocks_def split: option.splits)
  moreover have "node_blocks (unlink h x) t = node_blocks (unlink_prev h x) t"
    by (auto simp: unlink_def node_blocks_def split: option.splits)
  ultimately show ?thesis by simp
qed

lemma unlink_ends:
  assumes dc: "dchain h None p (as @ r # bs)" and x: "h r = Some x"
  shows "reg_prev x = (if as = [] then None else Some (last as))"
    and "reg_next x = (if bs = [] then None else Some (hd bs))"
    and "\<exists>m. dseg h None p as m" and "dchain h (Some r) (reg_next x) bs"
proof -
  obtain m where m: "dseg h None p as m" "dchain h (seg_end None as) m (r # bs)" using dc by (auto simp: dchain_append)
  show "\<exists>m. dseg h None p as m" using m(1) by blast
  show bs: "dchain h (Some r) (reg_next x) bs" using m(2) x by auto
  show "reg_prev x = (if as = [] then None else Some (last as))" using m(2) x by (simp add: seg_end_def)
  show "reg_next x = (if bs = [] then None else Some (hd bs))" using dchain_first [OF bs] .
qed

lemma unlink_elsewhere:
  assumes "reg_prev x = (if as = [] then None else Some (last as))"
    and "reg_next x = (if bs = [] then None else Some (hd bs))"
  shows "t \<notin> set as \<Longrightarrow> unlink_prev h x t = h t" and "t \<notin> set bs \<Longrightarrow> unlink h x t = unlink_prev h x t"
proof -
  show "t \<notin> set as \<Longrightarrow> unlink_prev h x t = h t"
    using assms(1) by (auto simp: unlink_prev_def split: if_splits)
  show "t \<notin> set bs \<Longrightarrow> unlink h x t = unlink_prev h x t"
    using assms(2) by (cases bs) (auto simp: unlink_def)
qed

lemma dchain_unlink:
  assumes dc: "dchain h None p (as @ r # bs)" and d: "distinct (as @ r # bs)" and x: "h r = Some x"
  shows "dchain (unlink h x) None (if as = [] then reg_next x else p) (as @ bs)"
proof -
  note e = unlink_ends [OF dc x]
  note el = unlink_elsewhere [OF e(1,2)]
  have off: "t \<notin> set as" if "t \<in> set bs" for t using that d by auto
  have "dchain (unlink_prev h x) (Some r) (reg_next x) bs = dchain h (Some r) (reg_next x) bs"
    by (rule dchain_cong) (rule el(1), rule off)
  then have bs: "dchain (unlink h x) (reg_prev x) (reg_next x) bs"
    using dchain_prev_upd [of "unlink_prev h x" "Some r" "reg_next x" bs "reg_prev x"] d e(4) unfolding unlink_def by simp
  show ?thesis
  proof (cases "as = []")
    case True
    then show ?thesis using bs e(1) by simp
  next
    case False
    obtain m where "dseg h None p as m" using e(3) by blast
    then have "dseg (unlink_prev h x) None p as (reg_next x)"
      using dseg_next_upd [of h None p as m "last as" "reg_next x"] d e(1) False by (simp add: unlink_prev_def seg_end_def)
    moreover have "dseg (unlink h x) None p as (reg_next x) = dseg (unlink_prev h x) None p as (reg_next x)"
      by (rule dseg_cong) (use el(2) d in auto)
    ultimately show ?thesis using False bs e(1) by (auto simp: dchain_append seg_end_def)
  qed
qed

lemma region_list_remove_run:
  assumes x: "w_reg s r = Some x" "unlink_prev (w_reg s) x r = Some x" "unlink (w_reg s) x r = Some x"
    and p: "\<And>p. reg_prev x = Some p \<Longrightarrow> w_reg s p \<noteq> None"
    and n: "\<And>n. reg_next x = Some n \<Longrightarrow> unlink_prev (w_reg s) x n \<noteq> None"
  shows "region_list_remove l r s =
    Inr (l\<lparr>rl_first := if rl_first l = Some r then reg_next x else rl_first l,
        rl_last := if rl_last l = Some r then reg_prev x else rl_last l\<rparr>,
      s\<lparr>w_reg := (unlink (w_reg s) x)(r := Some (x\<lparr>reg_next := None, reg_prev := None\<rparr>))\<rparr>)"
proof -
  have prev: "(case reg_prev x of None \<Rightarrow> ret () | Some p \<Rightarrow> set_region p (\<lambda>y. y\<lparr>reg_next := reg_next x\<rparr>)) s =
      Inr ((), s\<lparr>w_reg := unlink_prev (w_reg s) x\<rparr>)"
    using p by (cases "reg_prev x") (auto simp: ret_def unlink_prev_def region_run)
  have "next": "(case reg_next x of None \<Rightarrow> ret () | Some n \<Rightarrow> set_region n (\<lambda>y. y\<lparr>reg_prev := reg_prev x\<rparr>))
      (s\<lparr>w_reg := unlink_prev (w_reg s) x\<rparr>) = Inr ((), s\<lparr>w_reg := unlink (w_reg s) x\<rparr>)"
    using n by (cases "reg_next x") (auto simp: ret_def unlink_def region_run)
  show ?thesis
    using x prev "next"
    by (simp add: region_list_remove_def region_run bind_def sq_def ret_def Let_def)
qed

text \<open> \<open>region_list_remove\<close> unlinks a member of a list wherever it stands: what remains is the list
  without it, in order; the removed region stands alone.\<close>

theorem region_list_remove_correct:
  assumes ok: "list_ok (w_reg s) l (as @ r # bs)"
  shows "\<exists>h l'. region_list_remove l r s = Inr (l', s\<lparr>w_reg := h\<rparr>) \<and> list_ok h l' (as @ bs) \<and>
    chain_blocks h (as @ bs) = chain_blocks (w_reg s) (as @ bs) \<and>
    (\<exists>x. h r = Some x \<and> reg_next x = None \<and> reg_prev x = None) \<and> (\<forall>t. t \<notin> set (as @ r # bs) \<longrightarrow> h t = w_reg s t)"
proof -
  have dc: "dchain (w_reg s) None (rl_first l) (as @ r # bs)" and d: "distinct (as @ r # bs)"
    and last: "rl_last l = Some (last (as @ r # bs))"
    using ok by (auto simp: list_ok_def)
  obtain x where x: "w_reg s r = Some x" using dchain_nodes [OF dc, of r] by auto
  note e = unlink_ends [OF dc x]
  note el = unlink_elsewhere [OF e(1,2)]
  let ?h = "(unlink (w_reg s) x)(r := Some (x\<lparr>reg_next := None, reg_prev := None\<rparr>))"
  let ?l = "l\<lparr>rl_first := if rl_first l = Some r then reg_next x else rl_first l,
      rl_last := if rl_last l = Some r then reg_prev x else rl_last l\<rparr>"
  have run: "region_list_remove l r s = Inr (?l, s\<lparr>w_reg := ?h\<rparr>)"
  proof (rule region_list_remove_run [OF x])
    show "w_reg s p \<noteq> None" if "reg_prev x = Some p" for p
      using dchain_nodes [OF dc, of p] e(1) that by (auto split: if_splits)
    show "unlink_prev (w_reg s) x n \<noteq> None" if "reg_next x = Some n" for n
    proof -
      have n: "n \<in> set bs" using that e(2) by (auto split: if_splits)
      then have "n \<notin> set as" using d by auto
      then show ?thesis using dchain_nodes [OF dc, of n] el(1) [of n "w_reg s"] n by simp
    qed
  qed (use x el [of r] d in auto)
  have "list_ok ?h ?l (as @ bs)"
  proof -
    have "dchain ?h None (if as = [] then reg_next x else rl_first l) (as @ bs)"
      using dchain_unlink [OF dc d x] d by (simp add: dchain_upd split del: if_split)
    moreover have "rl_first l = Some r \<longleftrightarrow> as = []" "rl_last l = Some r \<longleftrightarrow> bs = []"
      using dchain_first [OF dc] last d by (cases as; auto)+
    ultimately show ?thesis unfolding list_ok_def using d last e(1) by auto
  qed
  moreover have "chain_blocks ?h (as @ bs) = chain_blocks (w_reg s) (as @ bs)"
    by (rule chain_blocks_cong) (use d in \<open>auto simp: node_blocks_upd node_blocks_unlink\<close>)
  moreover have "\<forall>t. t \<notin> set (as @ r # bs) \<longrightarrow> ?h t = w_reg s t" using el by simp
  ultimately show ?thesis using run by (intro exI [of _ ?h] exI [of _ ?l]) simp
qed

theorem region_list_remove_correct_witness:
  "\<exists>h l'. region_list_remove two_list 4 two_regions = Inr (l', two_regions\<lparr>w_reg := h\<rparr>) \<and> list_ok h l' [5] \<and>
     chain_blocks h [5] = [30, 31, 32]"
  using region_list_remove_correct [of two_regions two_list "[]" 4 "[5]"] two_ok two_chain(3) by auto

end
