(* ===== verification/Region_Reduce.thy ===== *)
theory Region_Reduce
  imports Region_Walk
begin

text \<open>
  Giving blocks of an allocation back: \<open>reduce_allocation\<close> on the region the list's end points to,
  and what happens when that pointer is stale.
\<close>

section \<open>Freeing the last blocks of a group\<close>

lemma free_blocks_inv:
  assumes inv: "alloc_inv s" and g: "g < length (w_bgs s)" and n: "n \<le> bg_first_free_block (w_bgs s ! g)"
  shows "\<exists>s'. free_blocks g n s = Inr ((), s') \<and> alloc_inv s' \<and> w_reg s' = w_reg s \<and> w_next s' = w_next s \<and>
    w_aux s' = w_aux s \<and> w_info s' = w_info s \<and>
    (let stop = unat (bg_first_block (w_bgs s ! g)) + unat (bg_first_free_block (w_bgs s ! g))
     in used_blocks s' = used_blocks s - {stop - unat n..<stop})"
proof -
  let ?bg = "w_bgs s ! g" and ?B = "unat (info_blocks_per_group (w_info s))"
  let ?ff = "unat (bg_first_free_block (w_bgs s ! g))" and ?first = "unat (bg_first_block (w_bgs s ! g))"
  let ?f = "\<lambda>bg. bg\<lparr>bg_free_blocks := bg_free_blocks bg + n, bg_first_free_block := bg_first_free_block bg - n\<rparr>"
  have ok: "groups_ok s (length (w_bgs s))" using inv by (simp add: alloc_inv_def)
  obtain b where bm: "group_bitmap s g (bitmap_id s g) b" and sh: "group_shape ?B ?bg b"
    and lim: "?first + ?B < 4294967295"
    using groups_ok_bitmap [OF ok g] by metis
  let ?b = "clear_range (?ff - unat n) (unat n) b"
  let ?s = "upd_bg g ?f (upd_buf (bitmap_id s g) ?b s)"
  have fit: "?ff \<le> ?B" "?B \<le> 8 * length b" "unat n \<le> ?ff"
    using sh n by (auto simp: group_shape_def word_le_nat_alt)
  have run: "free_blocks g n s = Inr ((), ?s)"
    using free_blocks_run [OF bm n] fit by simp
  have same: "bg_block_bitmap (?f ?bg) = bg_block_bitmap ?bg" "bg_first_block (?f ?bg) = bg_first_block ?bg" by simp_all
  have sh': "group_shape ?B (?f ?bg) ?b" using group_shape_free_blocks [OF sh n] lim by simp
  have inv': "alloc_inv ?s"
    using groups_ok_update [where f = ?f, OF ok g bm sh' same] inv by (simp add: alloc_inv_def)
  have cut: "bits ?b \<inter> {..<?B} = (bits b \<inter> {..<?B}) - {?ff - unat n..<?ff}"
    using fit by (subst bits_clear_range) auto
  have inj: "(\<lambda>j. ?first + j) ` (A - C) = (\<lambda>j. ?first + j) ` A - (\<lambda>j. ?first + j) ` C" for A C
    by (rule image_set_diff) (simp add: inj_on_def)
  have rng: "(\<lambda>j. ?first + j) ` {?ff - unat n..<?ff} = {?first + ?ff - unat n..<?first + ?ff}"
    using fit by (simp add: ac_simps)
  have others: "(\<Union>h\<in>{..<length (w_bgs s)} - {g}. (\<lambda>j. unat (bg_first_block (w_bgs s ! h)) + j) ` group_used s h) \<inter>
      {?first + ?ff - unat n..<?first + ?ff} = {}"
  proof -
    have "unat (bg_first_block (w_bgs s ! h)) + j \<notin> {?first + ?ff - unat n..<?first + ?ff}"
      if h: "h < length (w_bgs s)" "h \<noteq> g" "j \<in> group_used s h" for h j
    proof
      assume m: "unat (bg_first_block (w_bgs s ! h)) + j \<in> {?first + ?ff - unat n..<?first + ?ff}"
      have jB: "j < ?B" using h(3) by (simp add: group_used_def)
      have st: "unat (bg_first_block (w_bgs s ! k)) = unat (aux_first_data_block (w_aux s)) + k * ?B"
        if "k < length (w_bgs s)" for k
        using ok that by (simp add: groups_ok_def group_ok_def)
      obtain i where i: "i < ?ff" "unat (bg_first_block (w_bgs s ! h)) + j = ?first + i"
        using m fit by (auto intro: that [of "unat (bg_first_block (w_bgs s ! h)) + j - ?first"])
      have "g = h" by (rule group_of_block [of "unat (aux_first_data_block (w_aux s))" g ?B i h j])
          (use i st g h jB fit in simp_all)
      then show False using h by simp
    qed
    then show ?thesis by blast
  qed
  have "used_blocks ?s = used_blocks s - {?first + ?ff - unat n..<?first + ?ff}"
    unfolding used_blocks_update [where f = ?f, OF ok g bm same] used_blocks_split [OF g bm] cut inj rng
    using others by blast
  then show ?thesis
    using run inv' by (intro exI [of _ ?s]) (simp add: Let_def)
qed

section \<open>Reducing an allocation\<close>

lemma reduce_step_done: "reduce_step (alloc, 0) s = Inr (Inl alloc, s)"
  by (simp add: reduce_step_def ret_def)

text \<open>C25.  Blocks taken off the region at the end of an allocation, when they are the last ones taken
  from their group, go back to the free pool: the region is shorter by \<open>len\<close>, the used blocks are
  those before without its last \<open>len\<close> blocks, and the allocator's invariant holds.\<close>

theorem reduce_allocation_correct:
  assumes inv: "alloc_inv s" and last: "rl_last (ba_list alloc) = Some r" and x: "w_reg s r = Some x"
    and len: "0 < len" "len < reg_len x" and g: "unat (reg_bg x) < length (w_bgs s)"
    and lastly: "unat (reg_block x) + unat (reg_len x) =
      unat (bg_first_block (w_bgs s ! unat (reg_bg x))) + unat (bg_first_free_block (w_bgs s ! unat (reg_bg x)))"
    and inside: "bg_first_block (w_bgs s ! unat (reg_bg x)) \<le> reg_block x"
  shows "\<exists>s'. reduce_allocation alloc len s = Inr (alloc, s') \<and> alloc_inv s' \<and>
    w_reg s' = (w_reg s)(r := Some (x\<lparr>reg_len := reg_len x - len\<rparr>)) \<and>
    used_blocks s' = used_blocks s -
      {unat (reg_block x) + unat (reg_len x) - unat len..<unat (reg_block x) + unat (reg_len x)}"
proof -
  have "len \<le> bg_first_free_block (w_bgs s ! unat (reg_bg x))"
    using len lastly inside by (simp add: word_le_nat_alt word_less_nat_alt)
  then obtain s' where run: "free_blocks (unat (reg_bg x)) len s = Inr ((), s')" and s': "alloc_inv s'" "w_reg s' = w_reg s"
    and used: "used_blocks s' = used_blocks s -
      {unat (reg_block x) + unat (reg_len x) - unat len..<unat (reg_block x) + unat (reg_len x)}"
    using free_blocks_inv [OF inv g] lastly by (fastforce simp: Let_def)
  let ?s = "s'\<lparr>w_reg := (w_reg s)(r := Some (x\<lparr>reg_len := reg_len x - len\<rparr>))\<rparr>"
  have "reduce_step (alloc, len) s = Inr (Inr (alloc, 0), ?s)"
    using last x len run s'(2)
    by (simp add: reduce_step_def from_option_run region_run bind_ok sq_ok ret_def word_gt_0)
  then have "reduce_allocation alloc len s = Inr (alloc, ?s)"
    by (simp add: reduce_allocation_def bind_def reduce_step_done ret_def)
  then show ?thesis using s' used by (intro exI [of _ ?s]) simp
qed

definition used_world :: world where
  "used_world = small_start\<lparr>w_bgs := [(small_group 0 0 16)\<lparr>bg_first_free_block := 8\<rparr>, small_group 24 2 10],
     w_mem := (\<lambda>_. None)(0 := Some [0xFF, 0, 0, 0, 0, 0, 0, 0], 2 := Some [0x3F, 0, 0xFF, 0, 0, 0, 0, 0]),
     w_reg := (\<lambda>_. None)(4 := Some \<lparr>reg_block = 6, reg_len = 2, reg_bg = 0, reg_next = None, reg_prev = None\<rparr>),
     w_next := 5\<rparr>"

lemma used_bits: "bits [0xFF, 0, 0, 0, 0, 0, 0, 0] = {..<8}"
proof -
  have "{..<8} = set [0..<8 :: nat]" by auto
  then show ?thesis unfolding bits_code by (simp add: upt_rec bit_simps)
qed

lemma used_inv: "alloc_inv used_world"
proof -
  have "group_ok used_world 0 \<and> group_ok used_world 1"
    by (simp add: group_ok_def group_bitmap_def group_shape_def used_world_def small_start_def small_group_def
        small_info_def small_aux_def small_bits used_bits) auto
  moreover have "inj_on (bitmap_id used_world) {..<2}"
    by (auto simp: inj_on_def bitmap_id_def used_world_def less_2_cases_iff)
  moreover have "bitmap_id used_world 0 < 5" "bitmap_id used_world 1 < 5"
    by (simp_all add: bitmap_id_def used_world_def)
  ultimately have "groups_ok used_world 2"
    by (auto simp: groups_ok_def less_2_cases_iff used_world_def)
  moreover have "length (w_bgs used_world) = 2" "unat (aux_groups (w_aux used_world)) = 2"
    by (simp_all add: used_world_def small_start_def small_aux_def)
  ultimately show ?thesis by (simp add: alloc_inv_def)
qed

definition one_alloc :: block_allocation where
  "one_alloc = \<lparr>ba_list = \<lparr>rl_first = Some 4, rl_last = Some 4, rl_iter = Some 4, rl_partial_iter = 0\<rparr>,
     ba_oob_list = empty_region_list\<rparr>"

theorem reduce_allocation_correct_witness:
  "\<exists>s'. reduce_allocation one_alloc 1 used_world = Inr (one_alloc, s') \<and> alloc_inv s' \<and>
     used_blocks s' = used_blocks used_world - {7..<8}"
  using reduce_allocation_correct [OF used_inv, of one_alloc 4 "\<lparr>reg_block = 6, reg_len = 2, reg_bg = 0, reg_next = None, reg_prev = None\<rparr>" 1]
  by (auto simp: one_alloc_def used_world_def)

section \<open>The stale end\<close>

text \<open> \<open>allocate_blocks\<close> sets the end of the list to its first region whatever the number of
  regions, so the end is right exactly for an allocation of one region.\<close>

theorem allocate_blocks_end:
  assumes "alloc_inv s" and "no_empty_groups s" and "len \<noteq> 0" and "unat len \<le> room s"
  shows "\<exists>alloc s' rs. allocate_blocks len s = Inr (Some alloc, s') \<and>
    dchain (w_reg s') None (rl_first (ba_list alloc)) rs \<and> rl_last (ba_list alloc) = rl_first (ba_list alloc) \<and>
    (rl_last (ba_list alloc) = Some (last rs) \<longleftrightarrow> length rs = 1)"
proof -
  obtain v t where run: "do_allocate len s = Inr (v, t)"
    and v: "case v of None \<Rightarrow> len = 0 \<or> room s < unat len | Some f \<Rightarrow> \<exists>rs. grown s t (Some f) rs (unat len)"
    using wp_run [OF do_allocate_correct [OF assms(1,2), of len]] by auto
  then obtain f where f: "v = Some f" using assms(3,4) by (cases v) auto
  then obtain rs where gr: "grown s t (Some f) rs (unat len)" using v by auto
  then have dc: "dchain (w_reg t) None (Some f) rs" and d: "distinct rs" by (simp_all add: grown_def)
  have "rs = f # tl rs" using dchain_first [OF dc] by (cases rs) auto
  then obtain qs where rs: "rs = f # qs" by blast
  have "(f = last rs) \<longleftrightarrow> qs = []" using d rs by (cases qs) auto
  then have e: "(Some f = Some (last rs)) = (length rs = 1)" using rs by simp
  let ?a = "create_allocation\<lparr>ba_list := \<lparr>rl_first = Some f, rl_last = Some f, rl_iter = Some f, rl_partial_iter = 0\<rparr>\<rparr>"
  have "allocate_blocks len s = Inr (Some ?a, t)"
    using run f by (simp add: allocate_blocks_def bind_ok ret_def)
  then show ?thesis using dc e by (intro exI [of _ ?a] exI [of _ t] exI [of _ rs]) simp
qed

theorem allocate_blocks_end_witness:
  "\<exists>alloc s'. allocate_blocks 25 small_world = Inr (Some alloc, s') \<and> rl_last (ba_list alloc) = rl_first (ba_list alloc)"
  using allocate_blocks_end [OF small_inv small_no_empty, of 25] by (auto simp: small_room)

text \<open>C26.  With such a stale end, giving back one block of an allocation whose first region has one
  block empties the whole list: the blocks of the other regions stay used, and no list leads to
  them any more.\<close>

theorem reduce_allocation_drops_rest:
  assumes inv: "alloc_inv s" and last: "rl_last (ba_list alloc) = Some r" and x: "w_reg s r = Some x"
    and one: "reg_len x = 1" "reg_prev x = None" and g: "unat (reg_bg x) < length (w_bgs s)"
    and free: "1 \<le> bg_first_free_block (w_bgs s ! unat (reg_bg x))"
  shows "\<exists>s'. reduce_allocation alloc 1 s = Inr (alloc\<lparr>ba_list := empty_region_list\<rparr>, s') \<and>
    w_reg s' = (w_reg s)(r := None) \<and> card (used_blocks s - used_blocks s') \<le> 1"
proof -
  obtain s' where run: "free_blocks (unat (reg_bg x)) 1 s = Inr ((), s')" and s': "w_reg s' = w_reg s"
    and used: "let stop = unat (bg_first_block (w_bgs s ! unat (reg_bg x))) + unat (bg_first_free_block (w_bgs s ! unat (reg_bg x)))
     in used_blocks s' = used_blocks s - {stop - unat (1 :: u32)..<stop}"
    using free_blocks_inv [OF inv g free] by blast
  let ?s = "s'\<lparr>w_reg := (w_reg s)(r := None)\<rparr>"
  have "reduce_step (alloc, 1) s = Inr (Inr (alloc\<lparr>ba_list := empty_region_list\<rparr>, 0), ?s)"
    using last x run s' one
    by (simp add: reduce_step_def from_option_run region_run bind_ok sq_ok ret_def)
  then have "reduce_allocation alloc 1 s = Inr (alloc\<lparr>ba_list := empty_region_list\<rparr>, ?s)"
    by (simp add: reduce_allocation_def bind_def reduce_step_done ret_def numeral_eq_Suc)
  moreover have "card (used_blocks s - used_blocks s') \<le> 1"
  proof -
    obtain stop where "used_blocks s' = used_blocks s - {stop - 1..<stop}" using used by (auto simp: Let_def)
    then have "used_blocks s - used_blocks s' \<subseteq> {stop - 1..<stop}" by auto
    then have "card (used_blocks s - used_blocks s') \<le> card {stop - 1..<stop}" by (intro card_mono) simp_all
    then show ?thesis by simp
  qed
  ultimately show ?thesis by (intro exI [of _ ?s]) simp
qed

definition stale_world :: world where
  "stale_world = used_world\<lparr>w_reg := (\<lambda>_. None)(4 := Some \<lparr>reg_block = 7, reg_len = 1, reg_bg = 0, reg_next = Some 3, reg_prev = None\<rparr>,
     3 := Some \<lparr>reg_block = 6, reg_len = 1, reg_bg = 0, reg_next = None, reg_prev = Some 4\<rparr>)\<rparr>"

lemma stale_inv: "alloc_inv stale_world"
  using used_inv by (simp add: stale_world_def)

theorem reduce_allocation_drops_rest_witness:
  "\<exists>s'. dchain (w_reg stale_world) None (rl_first (ba_list one_alloc)) [4, 3] \<and>
     reduce_allocation one_alloc 1 stale_world = Inr (one_alloc\<lparr>ba_list := empty_region_list\<rparr>, s')"
  using reduce_allocation_drops_rest [OF stale_inv, of one_alloc 4
      "\<lparr>reg_block = 7, reg_len = 1, reg_bg = 0, reg_next = Some 3, reg_prev = None\<rparr>"]
  by (auto simp: one_alloc_def stale_world_def used_world_def)

end
