(* ===== verification/Geometry_Correct.thy ===== *)
theory Geometry_Correct
  imports Alloc_Theorems
begin

text \<open>
  The parameters \<open>ext4_create_fs_aux_info\<close> derives from the size of the image, as numbers; they
  have the geometry the block allocator needs, so setting up an image leads to its invariant.
\<close>

section \<open>The derived parameters as numbers\<close>

lemma DIV_ROUND_UP_u64:
  assumes "unat (x :: u64) + unat y < 18446744073709551616" and "y \<noteq> 0"
  shows "unat (DIV_ROUND_UP x y) = (unat x + unat y - 1) div unat y"
proof -
  have "unat (x + y) = unat x + unat y" using assms by (simp add: unat_add_u64)
  moreover have y: "0 < unat y" using assms(2) by (simp add: unat_gt_0)
  then have "1 \<le> x + y" using calculation by (simp add: word_le_nat_alt)
  ultimately show ?thesis by (simp add: DIV_ROUND_UP_def unat_div unat_sub_le)
qed

lemma ceil_div:
  assumes "0 < (b :: nat)"
  shows "(a + b - 1) div b = a div b + (if a mod b = 0 then 0 else 1)"
proof (cases "a mod b = 0")
  case True
  then obtain k where k: "a = b * k" by (auto elim: dvdE simp: mod_eq_0_iff_dvd)
  then have "a + b - 1 = (b - 1) + b * k" using assms by simp
  then have "(a + b - 1) div b = (b - 1) div b + k" using assms by (simp only: div_mult_self2)
  then show ?thesis using True k assms by simp
next
  case False
  have "a = a mod b + b * (a div b)" by simp
  then have "a + b - 1 = (a mod b - 1) + (b * (a div b) + b)" using False by linarith
  then have "a + b - 1 = (a mod b - 1) + b * (a div b + 1)" by simp
  then have "(a + b - 1) div b = (a div b + 1) + (a mod b - 1) div b" using assms by (simp only: div_mult_self2)
  moreover have "(a mod b - 1) div b = 0" using assms by (simp add: less_imp_diff_less)
  ultimately show ?thesis using False by simp
qed

text \<open>The size of the image in blocks, before trimming, and the size of the last group's rest.\<close>

definition image_blocks :: "fs_info \<Rightarrow> nat" where
  "image_blocks info = unat (info_len info) div unat (info_block_size info)"

definition rest_blocks :: "fs_info \<Rightarrow> nat" where
  "rest_blocks info = image_blocks info mod unat (info_blocks_per_group info)"


definition sane_info :: "fs_info \<Rightarrow> bool" where
  "sane_info info \<longleftrightarrow> 1024 < info_block_size info \<and> 16 * unat (info_block_size info) + 8 < 4294967296 \<and>
     0 < unat (info_blocks_per_group info) \<and>
     unat (info_blocks_per_group info) \<le> 8 * unat (info_block_size info) \<and>
     image_blocks info + unat (info_blocks_per_group info) < 4294967295"

text \<open>The header of the last group before trimming.\<close>

definition last_header :: "fs_info \<Rightarrow> fs_aux_info \<Rightarrow> nat" where
  "last_header info aux = unat (header_len info (aux_parameters info aux)
     (of_nat ((image_blocks info + unat (info_blocks_per_group info) - 1) div unat (info_blocks_per_group info)) - 1))"

definition trimmed :: "fs_info \<Rightarrow> fs_aux_info \<Rightarrow> bool" where
  "trimmed info aux \<longleftrightarrow> 0 < rest_blocks info \<and> rest_blocks info < last_header info aux"

text \<open>The groups before trimming and the size of the last one, as the code computes them.\<close>

definition image_groups :: "fs_info \<Rightarrow> u32" where
  "image_groups info = ucast (DIV_ROUND_UP (info_len info div ucast (info_block_size info) -
     ucast (if 1024 < info_block_size info then 0 else 1 :: u32)) (ucast (info_blocks_per_group info)))"

definition image_rest :: "fs_info \<Rightarrow> u32" where
  "image_rest info = ucast (info_len info div ucast (info_block_size info) mod ucast (info_blocks_per_group info))"

definition trims :: "fs_info \<Rightarrow> fs_aux_info \<Rightarrow> bool" where
  "trims info aux \<longleftrightarrow> 0 < image_rest info \<and>
     image_rest info < header_len info (aux_parameters info aux) (image_groups info - 1)"

lemma aux_parameters_trim:
  "aux_len_blocks (aux_parameters info aux) = (if trims info aux
     then info_len info div ucast (info_block_size info) - ucast (image_rest info)
     else info_len info div ucast (info_block_size info))"
  "aux_groups (aux_parameters info aux) = (if trims info aux then image_groups info - 1 else image_groups info)"
  unfolding trims_def image_rest_def image_groups_def
  by (cases aux; simp only: aux_parameters_def Let_def header_len_def fs_aux_info.select_convs fs_aux_info.update_convs
      cong del: if_weak_cong)+

lemma image_rest_number:
  assumes "image_blocks info < 4294967296"
  shows "unat (image_rest info) = rest_blocks info"
proof -
  have "unat (info_len info div ucast (info_block_size info) mod ucast (info_blocks_per_group info)) = rest_blocks info"
    by (simp add: unat_mod unat_div rest_blocks_def image_blocks_def)
  moreover have "rest_blocks info < 4294967296"
    using assms mod_less_eq_dividend [of "image_blocks info" "unat (info_blocks_per_group info)"]
    unfolding rest_blocks_def by linarith
  ultimately show ?thesis by (simp add: image_rest_def unsigned_ucast_eq take_bit_eq_mod)
qed

lemma image_groups_number:
  assumes B: "0 < unat (info_blocks_per_group info)" and lim: "image_blocks info + unat (info_blocks_per_group info) < 4294967296"
    and first: "first = (if 1024 < info_block_size info then 0 else 1)" "first \<le> image_blocks info"
  shows "unat (image_groups info) =
    (image_blocks info - first + unat (info_blocks_per_group info) - 1) div unat (info_blocks_per_group info)"
proof -
  let ?B = "unat (info_blocks_per_group info)" and ?len = "info_len info div ucast (info_block_size info)"
  let ?f = "ucast (if 1024 < info_block_size info then 0 else 1 :: u32) :: u64"
  have len: "unat ?len = image_blocks info" by (simp add: unat_div image_blocks_def)
  have f: "unat ?f = first" using first(1) by simp
  then have d: "unat (?len - ?f) = image_blocks info - first"
    using first(2) len by (simp add: unat_sub_le word_le_nat_alt)
  have ub: "unat (ucast (info_blocks_per_group info) :: u64) = ?B" by simp
  then have bz: "(ucast (info_blocks_per_group info) :: u64) \<noteq> 0" using B by (metis unat_0 less_numeral_extra(3))
  have "unat (DIV_ROUND_UP (?len - ?f) (ucast (info_blocks_per_group info))) = (image_blocks info - first + ?B - 1) div ?B"
    using DIV_ROUND_UP_u64 [of "?len - ?f" "ucast (info_blocks_per_group info)"] d bz lim unfolding ub by simp
  moreover have "(image_blocks info - first + ?B - 1) div ?B < 4294967296"
    using lim div_le_dividend [of "image_blocks info - first + ?B - 1" ?B] by linarith
  ultimately show ?thesis unfolding image_groups_def by (simp add: unsigned_ucast_eq take_bit_eq_mod)
qed

lemma aux_parameters_numbers:
  fixes aux :: fs_aux_info
  assumes ok: "sane_info info"
  defines "B \<equiv> unat (info_blocks_per_group info)" and "L \<equiv> image_blocks info" and "aux' \<equiv> aux_parameters info aux"
  shows "aux_first_data_block aux' = 0"
    and "unat (aux_len_blocks aux') = (if trimmed info aux then L - rest_blocks info else L)"
    and "unat (aux_groups aux') = (if trimmed info aux then L div B else (L + B - 1) div B)"
proof -
  have bs: "info_block_size info > 1024" and B: "0 < B" and lim: "L + B < 4294967295"
    using ok by (simp_all add: sane_info_def B_def L_def)
  have groups: "unat (image_groups info) = (L + B - 1) div B"
    using image_groups_number [of info 0] bs B lim by (simp add: B_def L_def)
  moreover have "(L + B - 1) div B < 4294967296"
    using lim div_le_dividend [of "L + B - 1" B] by linarith
  ultimately have gw: "image_groups info = of_nat ((L + B - 1) div B)"
    by (simp add: word_eq_unat unat_of_nat_u32)
  have rest: "unat (image_rest info) = rest_blocks info"
    using image_rest_number lim by (simp add: L_def)
  show "aux_first_data_block aux' = 0" using bs by (simp add: aux'_def aux_parameters_def Let_def)
  have hd: "unat (header_len info aux' (image_groups info - 1)) = last_header info aux"
    unfolding gw by (simp add: last_header_def aux'_def L_def B_def)
  have tr: "trims info aux = trimmed info aux"
    unfolding trims_def trimmed_def hd [symmetric] rest [symmetric] aux'_def by (simp only: word_less_nat_alt unat_0)
  note fields = aux_parameters_trim [of info aux, folded aux'_def]
  have len: "unat (info_len info div ucast (info_block_size info)) = L" by (simp add: unat_div L_def image_blocks_def)
  have restL: "rest_blocks info \<le> L" by (simp add: rest_blocks_def L_def)
  then have "ucast (image_rest info) \<le> info_len info div ucast (info_block_size info)"
    using rest len by (simp add: word_le_nat_alt)
  then show "unat (aux_len_blocks aux') = (if trimmed info aux then L - rest_blocks info else L)"
    using rest len by (simp add: fields tr unat_sub_le)
  show "unat (aux_groups aux') = (if trimmed info aux then L div B else (L + B - 1) div B)"
  proof (cases "trimmed info aux")
    case True
    then have "L mod B \<noteq> 0" by (simp add: trimmed_def rest_blocks_def L_def B_def)
    then have g: "unat (image_groups info) = L div B + 1" using groups ceil_div [OF B, of L] by simp
    then have "1 \<le> image_groups info" by (simp add: word_le_nat_alt)
    then show ?thesis using True g by (simp add: fields tr unat_sub_le)
  next
    case False
    then show ?thesis using groups by (simp add: fields tr)
  qed
qed

section \<open>The geometry of the groups\<close>

lemma aux_parameters_geometry:
  assumes ok: "sane_info info"
    and header: "\<And>i. i < unat (aux_groups (aux_parameters info aux)) \<Longrightarrow>
      unat (header_len info (aux_parameters info aux) (of_nat i)) \<le> unat (info_blocks_per_group info)"
    and i: "i < unat (aux_groups (aux_parameters info aux))"
  shows "group_geometry info (aux_parameters info aux) (of_nat i)"
proof -
  define B where "B = unat (info_blocks_per_group info)"
  define L where "L = image_blocks info"
  define aux' where "aux' = aux_parameters info aux"
  note num = aux_parameters_numbers [OF ok, of aux, folded aux'_def B_def L_def]
  have B: "0 < B" and lim: "L + B < 4294967295" and Bb: "B \<le> 8 * unat (info_block_size info)"
    using ok by (simp_all add: sane_info_def B_def L_def)
  let ?N = "unat (aux_groups aux')" and ?L' = "unat (aux_len_blocks aux')"
  have q: "L = B * (L div B) + L mod B" by simp
  have ceil: "(L + B - 1) div B = L div B + (if L mod B = 0 then 0 else 1)" by (rule ceil_div [OF B])
  have iN: "i < ?N" and h: "unat (header_len info aux' (of_nat i)) \<le> B"
    using i header [OF i] by (simp_all add: aux'_def B_def)
  have u: "unat (of_nat i :: u32) = i"
    using iN unat_lt_u32 [of "aux_groups aux'"] by (intro unat_of_nat_u32) linarith
  have restL: "rest_blocks info = L mod B" by (simp add: rest_blocks_def L_def B_def)
  have L': "?L' = (if trimmed info aux then B * (L div B) else L)"
    using num(2) restL by (simp add: minus_mod_eq_mult_div)
  have N: "?N = (if trimmed info aux then L div B else L div B + (if L mod B = 0 then 0 else 1))"
    using num(3) ceil by simp
  have iq: "i \<le> L div B" using iN N by (simp split: if_splits)
  then have iB: "i * B \<le> B * (L div B)" by (simp add: mult.commute)
  have first: "unat (aux_first_data_block aux') = 0" using num(1) by simp
  have "i * B + B < 4294967295" using iB q lim by linarith
  then have st0: "unat (aux_first_data_block aux') + unat (of_nat i :: u32) * unat (info_blocks_per_group info)
       + unat (info_blocks_per_group info) < 4294967295"
    using \<open>i * B + B < 4294967295\<close> by (simp add: first u B_def [symmetric])
  have st: "unat (group_start info aux' (of_nat i)) = i * B"
    using unat_group_start [OF st0] by (simp add: first u B_def)
  have size: "unat (header_len info aux' (of_nat i)) \<le> ?L' - i * B \<and> i * B < ?L'"
  proof (cases "i < L div B")
    case True
    then have "i * B + B \<le> B * (L div B)"
      by (metis Suc_leI add.commute mult.commute mult_Suc mult_le_mono2)
    moreover have "B * (L div B) \<le> ?L'" using L' q by simp
    ultimately show ?thesis using h B by linarith
  next
    case False
    then have il: "i = L div B" and nt: "\<not> trimmed info aux" and r: "L mod B \<noteq> 0"
      using iq iN N by (auto split: if_splits)
    have "(of_nat ((L + B - 1) div B) :: u32) - 1 = of_nat i"
      using ceil r il by simp
    then have "unat (header_len info aux' (of_nat i)) = last_header info aux"
      by (simp add: last_header_def aux'_def B_def L_def)
    then have "unat (header_len info aux' (of_nat i)) \<le> L mod B" using nt r restL by (simp add: trimmed_def)
    moreover have "?L' = i * B + L mod B" using L' nt il q by (simp add: mult.commute)
    ultimately show ?thesis using r by simp
  qed
  have "B * (L div B) < 4294967296" using q lim by linarith
  then have "?L' < 4294967296" using L' lim by (simp split: if_splits)
  then show ?thesis
    unfolding aux'_def [symmetric] group_geometry_def
    using st0 Bb ok size h by (simp add: group_size_def st B_def [symmetric] sane_info_def)
qed

lemma group_geometry_pointers:
  "group_geometry info (aux\<lparr>aux_sb := p, aux_bg_desc := q\<rparr>) i = group_geometry info aux i"
  by (simp add: group_geometry_def group_size_def group_start_def header_len_def)

text \<open>C13.  From the parameters of the image to a ready allocator: with the parameters
  \<open>ext4_create_fs_aux_info\<close> derives (for block sizes above 1024 and headers that fit a group), the last
  group is kept only if its header fits in it, and \<open>block_allocator_init\<close> then succeeds and
  establishes the invariant of all groups.\<close>

theorem create_fs_then_init:
  assumes "sane_info (w_info s)"
    and "\<And>i. i < unat (aux_groups (aux_parameters (w_info s) (w_aux s))) \<Longrightarrow>
      unat (header_len (w_info s) (aux_parameters (w_info s) (w_aux s)) (of_nat i)) \<le>
        unat (info_blocks_per_group (w_info s))"
  shows "\<exists>s'. sq ext4_create_fs_aux_info block_allocator_init s = Inr ((), s') \<and> alloc_inv s' \<and>
    unat (aux_len_blocks (w_aux s')) \<le> image_blocks (w_info s) \<and>
    image_blocks (w_info s) < unat (aux_len_blocks (w_aux s')) + unat (info_blocks_per_group (w_info s))"
proof -
  let ?info = "w_info s" and ?aux = "aux_parameters (w_info s) (w_aux s)"
  have nz: "info_block_size ?info \<noteq> 0" "info_blocks_per_group ?info \<noteq> 0"
    using assms(1) by (auto simp: sane_info_def)
  obtain s1 where run: "ext4_create_fs_aux_info s = Inr ((), s1)" and info: "w_info s1 = ?info"
    and aux: "\<exists>p q. w_aux s1 = ?aux\<lparr>aux_sb := p, aux_bg_desc := q\<rparr>"
    using nz by (simp add: ext4_create_fs_aux_info_def prog_simps bind_calloc_run) auto
  then obtain p q where a: "w_aux s1 = ?aux\<lparr>aux_sb := p, aux_bg_desc := q\<rparr>" by blast
  have geo: "group_geometry (w_info s1) (w_aux s1) (of_nat i)" if "i < unat (aux_groups (w_aux s1))" for i
    using aux_parameters_geometry [OF assms] that by (simp add: info a group_geometry_pointers)
  obtain s' where s': "block_allocator_init s1 = Inr ((), s')" "alloc_inv s'" "w_aux s' = w_aux s1"
    using block_allocator_init_run [OF geo] by auto
  have cut: "(if c then a - r else a) \<le> a \<and> a < (if c then a - r else a) + b" if "r < b" "r \<le> a"
    for a b r :: nat and c using that by auto
  have "unat (aux_len_blocks (w_aux s')) = (if trimmed ?info (w_aux s)
      then image_blocks ?info - rest_blocks ?info else image_blocks ?info)"
    using aux_parameters_numbers(2) [OF assms(1), of "w_aux s"] s'(3) a by simp
  moreover have "rest_blocks ?info < unat (info_blocks_per_group ?info)" "rest_blocks ?info \<le> image_blocks ?info"
    using assms(1) by (simp_all add: rest_blocks_def sane_info_def)
  ultimately have "unat (aux_len_blocks (w_aux s')) \<le> image_blocks ?info \<and>
      image_blocks ?info < unat (aux_len_blocks (w_aux s')) + unat (info_blocks_per_group ?info)"
    using cut by (simp only:)
  then show ?thesis using run s' by (intro exI [of _ s']) (simp add: sq_ok)
qed

definition sample_start :: world where
  "sample_start = small_start\<lparr>w_info := sample_info\<rparr>"

lemma sample_sane: "sane_info sample_info"
  by (simp add: sane_info_def sample_info_def image_blocks_def)

lemma sample_aux: "aux_groups (aux_parameters sample_info small_aux) = 2"
  "aux_inode_table_blocks (aux_parameters sample_info small_aux) = 512"
  "aux_bg_desc_blocks (aux_parameters sample_info small_aux) = 1"
  "aux_bg_desc_reserve_blocks (aux_parameters sample_info small_aux) = 15"
  by (simp_all add: aux_parameters_def sample_info_def Let_def DIV_ROUND_UP_def sizeof_group_desc_def)

theorem create_fs_then_init_witness:
  "\<exists>s'. sq ext4_create_fs_aux_info block_allocator_init sample_start = Inr ((), s') \<and> alloc_inv s' \<and>
    unat (aux_len_blocks (w_aux s')) \<le> 65536"
proof -
  have e: "w_info sample_start = sample_info" "w_aux sample_start = small_aux"
    by (simp_all add: sample_start_def small_start_def)
  have "unat (header_len sample_info (aux_parameters sample_info small_aux) i) \<le> unat (info_blocks_per_group sample_info)" for i
    by (simp add: header_len_def sample_aux) (simp add: sample_info_def)
  then show ?thesis
    using create_fs_then_init [of sample_start] sample_sane unfolding e
    by (auto simp: image_blocks_def sample_info_def)
qed

section \<open>Block size 1024\<close>

text \<open>C27.  For blocks of 1 KiB the groups start at block 1, but the size of the last group is computed
  as if they started at block 0.  When one block remains by that count, the last group is full and
  ends at the end of the image, and it is dropped all the same: the image loses a whole group.\<close>

theorem small_blocks_lose_a_group:
  assumes bs: "info_block_size info \<le> 1024" and B: "0 < unat (info_blocks_per_group info)"
    and lim: "image_blocks info + unat (info_blocks_per_group info) < 4294967296"
    and one: "image_blocks info = 1 + k * unat (info_blocks_per_group info)" "0 < k" "1 < unat (info_blocks_per_group info)"
    and header: "1 < header_len info (aux_parameters info aux) (image_groups info - 1)"
  shows "aux_first_data_block (aux_parameters info aux) = 1 \<and> unat (aux_groups (aux_parameters info aux)) = k - 1 \<and>
    1 + (k - 1) * unat (info_blocks_per_group info) + unat (info_blocks_per_group info) = image_blocks info"
proof -
  let ?B = "unat (info_blocks_per_group info)"
  have nb: "\<not> 1024 < info_block_size info" using bs by (simp add: not_less)
  have "(1 + k * ?B) mod ?B = 1 mod ?B" by (rule mod_mult_self1)
  then have "rest_blocks info = 1" using one(3) by (simp only: rest_blocks_def one(1) mod_less)
  then have "unat (image_rest info) = 1" using image_rest_number [of info] lim by simp
  then have "image_rest info = 1" by (simp add: word_eq_unat)
  then have tr: "trims info aux" using header by (simp add: trims_def)
  have "unat (image_groups info) = (k * ?B + ?B - 1) div ?B"
    using image_groups_number [OF B lim, of 1] nb one(1) by simp
  also have "\<dots> = k" using ceil_div [OF B, of "k * ?B"] B by simp
  finally have g: "unat (image_groups info) = k" .
  then have "1 \<le> image_groups info" using one(2) by (simp add: word_le_nat_alt)
  then have "unat (aux_groups (aux_parameters info aux)) = k - 1"
    using tr g by (simp add: aux_parameters_trim unat_sub_le)
  moreover have "aux_first_data_block (aux_parameters info aux) = 1"
    using nb by (simp add: aux_parameters_def Let_def)
  moreover have "1 + (k - 1) * ?B + ?B = image_blocks info"
    using one(1,2) by (cases k) simp_all
  ultimately show ?thesis by simp
qed

definition kilo_info :: fs_info where
  "kilo_info = sample_info\<lparr>info_len := 1024 * 16385, info_block_size := 1024, info_blocks_per_group := 8192,
     info_inodes_per_group := 2048\<rparr>"

theorem small_blocks_lose_a_group_witness:
  "unat (aux_groups (aux_parameters kilo_info small_aux)) = 1 \<and> image_blocks kilo_info = 1 + 8192 + 8192"
proof -
  have h: "1 < header_len kilo_info (aux_parameters kilo_info small_aux) i" for i
    by (simp add: header_len_def aux_parameters_def kilo_info_def sample_info_def Let_def DIV_ROUND_UP_def sizeof_group_desc_def)
  have l: "image_blocks kilo_info = 16385" by (simp add: image_blocks_def kilo_info_def)
  show ?thesis
    using small_blocks_lose_a_group [of kilo_info 2 small_aux] h l by (simp add: kilo_info_def)
qed

end
