(* ===== verification/Indirect_Correct.thy ===== *)
theory Indirect_Correct
  imports Indirect Geometry_Correct
begin

text \<open>
  The size of block maps: \<open>indirect_blocks_needed\<close> against a recursive count of the index blocks, and
  the third level, whose capacity the code computes as zero.
\<close>

section \<open>Counting index blocks\<close>

text \<open>The index blocks of a tree of height \<open>h\<close> over \<open>n\<close> data blocks, with \<open>P\<close> entries per block.\<close>

fun tree_index :: "nat \<Rightarrow> nat \<Rightarrow> nat \<Rightarrow> nat" where
  "tree_index P 0 n = 0"
| "tree_index P (Suc h) n =
     (if n = 0 then 0 else 1 + (n div P ^ h) * tree_index P h (P ^ h) + tree_index P h (n mod P ^ h))"

text \<open>The index blocks of a block map with 12 direct entries, a single and a double indirect tree.\<close>

definition map_index :: "nat \<Rightarrow> nat \<Rightarrow> nat" where
  "map_index P n = (let n = n - 12 in tree_index P 1 (min n P) + tree_index P 2 (n - P))"

lemma tree_index_1: "tree_index P 1 n = (if n = 0 then 0 else 1)"
  by simp

lemma tree_index_2: "0 < P \<Longrightarrow> tree_index P 2 n = (if n = 0 then 0 else 1 + (n + P - 1) div P)"
  using ceil_div [of P n] by (simp add: numeral_2_eq_2)

lemma DIV_ROUND_UP_u32:
  assumes "unat (x :: u32) + unat y < 4294967296" and "y \<noteq> 0"
  shows "unat (DIV_ROUND_UP x y) = (unat x + unat y - 1) div unat y"
proof -
  have "unat (x + y) = unat x + unat y" using assms by (simp add: unat_add_u32)
  moreover have y: "0 < unat y" using assms(2) by (simp add: unat_gt_0)
  then have "1 \<le> x + y" using calculation by (simp add: word_le_nat_alt)
  ultimately show ?thesis by (simp add: DIV_ROUND_UP_def unat_div unat_sub_le)
qed

lemma ceil_one: "0 < n \<Longrightarrow> n \<le> b \<Longrightarrow> (n + b - 1) div b = (1 :: nat)"
proof -
  assume "0 < n" "n \<le> b"
  then have "n + b - 1 = (n - 1) + b * 1" "n - 1 < b" by simp_all
  then show ?thesis using \<open>n \<le> b\<close> by (metis add.commute add_0 div_less div_mult_self2 less_nat_zero_code not_less_zero)
qed

lemma ceil_shift: "0 < (b :: nat) \<Longrightarrow> b \<le> n \<Longrightarrow> (n + b - 1) div b = 1 + (n - b + b - 1) div b"
proof -
  assume "0 < b" "b \<le> n"
  then have "n + b - 1 = (n - b + b - 1) + b * 1" by simp
  then show ?thesis using \<open>0 < b\<close> by (simp only: div_mult_self2)
qed

text \<open>The code's sum, level by level, for \<open>len\<close> above the direct blocks.\<close>

lemma needed_single:
  assumes "aux_blocks_per_ind (w_aux s) \<noteq> 0" and "\<not> len \<le> 12" and "len - 12 \<le> aux_blocks_per_ind (w_aux s)"
  shows "indirect_blocks_needed len s = Inr (DIV_ROUND_UP (len - 12) (aux_blocks_per_ind (w_aux s)), s)"
  using assms by (simp add: indirect_blocks_needed_def EXT4_NDIR_BLOCKS_def prog_simps div_round_up_checked_def Let_def)

lemma needed_double:
  assumes "aux_blocks_per_ind (w_aux s) \<noteq> 0" and "aux_blocks_per_dind (w_aux s) \<noteq> 0" and "\<not> len \<le> 12"
    and "\<not> len - 12 \<le> aux_blocks_per_ind (w_aux s)"
    and "len - 12 - aux_blocks_per_ind (w_aux s) \<le> aux_blocks_per_dind (w_aux s)"
  shows "indirect_blocks_needed len s = Inr (DIV_ROUND_UP (len - 12) (aux_blocks_per_ind (w_aux s)) +
    DIV_ROUND_UP (len - 12 - aux_blocks_per_ind (w_aux s)) (aux_blocks_per_dind (w_aux s)), s)"
  using assms by (simp add: indirect_blocks_needed_def EXT4_NDIR_BLOCKS_def prog_simps div_round_up_checked_def Let_def)

lemma div_round_up_number:
  assumes "unat (x :: u32) + unat y < 4294967296" and "y \<noteq> 0"
  shows "DIV_ROUND_UP x y = of_nat ((unat x + unat y - 1) div unat y)"
  using DIV_ROUND_UP_u32 [OF assms] by (metis of_nat_unat_u32)

text \<open>C28.  Up to the capacity of the direct, single and double indirect entries,
  \<open>indirect_blocks_needed\<close> is the number of index blocks of the block map, counted over its trees.\<close>

theorem indirect_blocks_needed_count:
  assumes p: "unat (aux_blocks_per_ind (w_aux s)) = P" and P: "0 < P" "P \<le> 16384"
    and d: "unat (aux_blocks_per_dind (w_aux s)) = P * P" and len: "unat len \<le> 12 + P + P * P"
  shows "indirect_blocks_needed len s = Inr (of_nat (map_index P (unat len)), s)"
proof (cases "unat len \<le> 12")
  case True
  then show ?thesis
    by (simp add: indirect_blocks_needed_def EXT4_NDIR_BLOCKS_def word_le_nat_alt map_index_def tree_index_2 P ret_def)
next
  case False
  let ?p = "aux_blocks_per_ind (w_aux s)" and ?d = "aux_blocks_per_dind (w_aux s)"
  define n where "n = unat len - 12"
  have PP: "P * P \<le> 16384 * 16384" using P(2) by (intro mult_le_mono)
  have "unat ?p \<noteq> unat 0" "unat ?d \<noteq> unat 0" using P p d by simp_all
  then have nz: "?p \<noteq> 0" "?d \<noteq> 0" by auto
  have n: "unat (len - 12) = n" "0 < n" "n \<le> P + P * P" and big: "\<not> len \<le> 12"
    using False len by (simp_all add: unat_sub_le word_le_nat_alt n_def)
  have i: "DIV_ROUND_UP (len - 12) ?p = of_nat ((n + P - 1) div P)"
    using div_round_up_number [of "len - 12" ?p] nz n P PP p by simp
  show ?thesis
  proof (cases "n \<le> P")
    case True
    then have "indirect_blocks_needed len s = Inr (1, s)"
      using needed_single [OF nz(1) big] n p i ceil_one [OF n(2) True] by (simp add: word_le_nat_alt)
    then show ?thesis using True n P by (simp add: map_index_def tree_index_2 n_def Let_def)
  next
    case nP: False
    have m: "unat (len - 12 - ?p) = n - P" using nP n p by (simp add: unat_sub_le word_le_nat_alt)
    have "DIV_ROUND_UP (len - 12 - ?p) ?d = of_nat ((n - P + P * P - 1) div (P * P))"
      using div_round_up_number [of "len - 12 - ?p" ?d] nz m n d PP by simp
    then have "DIV_ROUND_UP (len - 12 - ?p) ?d = 1" using ceil_one [of "n - P" "P * P"] nP n by simp
    then have "indirect_blocks_needed len s = Inr (of_nat ((n + P - 1) div P) + 1, s)"
      using needed_double [OF nz big] n m p d i nP by (simp add: word_le_nat_alt)
    then show ?thesis
      using ceil_shift [of P n] nP n P by (simp add: map_index_def tree_index_2 n_def [symmetric] Let_def)
  qed
qed

definition map_world :: world where
  "map_world = small_start\<lparr>w_info := sample_info, w_aux := aux_parameters sample_info small_aux\<rparr>"

lemma map_world_fields: "unat (aux_blocks_per_ind (w_aux map_world)) = 1024" "unat (aux_blocks_per_dind (w_aux map_world)) = 1024 * 1024"
  by (simp_all add: map_world_def aux_parameters_def sample_info_def Let_def)

theorem indirect_blocks_needed_count_witness:
  "indirect_blocks_needed 5000 map_world = Inr (6, map_world)"
proof -
  have "map_index 1024 5000 = 6" by (simp add: map_index_def Let_def tree_index_2)
  then show ?thesis using indirect_blocks_needed_count [of map_world 1024 5000] map_world_fields by simp
qed

section \<open>The third level\<close>

lemma aux_ind_fields:
  "aux_blocks_per_ind (aux_parameters info aux) = info_block_size info div 4"
  "aux_blocks_per_dind (aux_parameters info aux) = (info_block_size info div 4) * (info_block_size info div 4)"
  "aux_blocks_per_tind (aux_parameters info aux) =
     (info_block_size info div 4) * (info_block_size info div 4) * ((info_block_size info div 4) * (info_block_size info div 4))"
  by (simp_all add: aux_parameters_def Let_def)

lemma tind_zero:
  assumes "info_block_size info = 2 ^ k" and "10 \<le> k" and "k \<le> 16"
  shows "aux_blocks_per_tind (aux_parameters info aux) = 0"
    and "unat (aux_blocks_per_ind (aux_parameters info aux)) = 2 ^ k div 4"
    and "unat (aux_blocks_per_dind (aux_parameters info aux)) = (2 ^ k div 4) * (2 ^ k div 4)"
proof -
  have "k \<in> {10, 11, 12, 13, 14, 15, 16}" using assms(2,3) by auto
  then show "aux_blocks_per_tind (aux_parameters info aux) = 0"
    "unat (aux_blocks_per_ind (aux_parameters info aux)) = 2 ^ k div 4"
    "unat (aux_blocks_per_dind (aux_parameters info aux)) = (2 ^ k div 4) * (2 ^ k div 4)"
    using assms(1) by (auto simp: aux_ind_fields)
qed

text \<open> \<open>blocks_per_tind\<close> is computed as \<open>blocks_per_dind * blocks_per_dind\<close>, which is zero in 32
  bits for every block size from 1 KiB to 64 KiB; so the size of a block map that needs its
  triple indirect entry is a division by zero.\<close>

theorem triple_indirect_divides_by_zero:
  assumes bs: "info_block_size (w_info s) = 2 ^ k" "10 \<le> k" "k \<le> 16"
    and aux: "w_aux s = aux_parameters (w_info s) aux"
    and len: "12 + 2 ^ k div 4 + (2 ^ k div 4) * (2 ^ k div 4) < unat len"
  shows "indirect_blocks_needed len s = Inl Undefined"
proof -
  let ?p = "aux_blocks_per_ind (w_aux s)" and ?d = "aux_blocks_per_dind (w_aux s)"
  have t: "aux_blocks_per_tind (w_aux s) = 0" and p: "unat ?p = 2 ^ k div 4"
    and d: "unat ?d = (2 ^ k div 4) * (2 ^ k div 4)"
    using tind_zero [OF bs, of aux] aux by simp_all
  obtain j where "k = 2 + j" using bs(2) le_Suc_ex [of 2 k] by auto
  then have "(2 :: nat) ^ k = 4 * 2 ^ j" by (simp add: power_add)
  then have pos: "0 < (2 :: nat) ^ k div 4" by simp
  then have "unat ?p \<noteq> unat 0" "unat ?d \<noteq> unat 0" using p d by simp_all
  then have nz: "?p \<noteq> 0" "?d \<noteq> 0" by auto
  have gt: "\<not> len \<le> 12" using len by (simp add: word_le_nat_alt)
  then have l1: "unat (len - 12) = unat len - 12" by (simp add: unat_sub_le not_le less_imp_le)
  then have g1: "\<not> len - 12 \<le> ?p" using len p by (simp add: word_le_nat_alt)
  then have l2: "unat (len - 12 - ?p) = unat len - 12 - unat ?p" using l1 by (simp add: unat_sub_le not_le less_imp_le)
  have "unat ?d < unat (len - 12 - ?p)" unfolding l2 p d using len by linarith
  then have "\<not> len - 12 - ?p \<le> ?d" by (simp add: word_le_nat_alt)
  then show ?thesis
    using gt g1 nz t
    by (simp add: indirect_blocks_needed_def EXT4_NDIR_BLOCKS_def prog_simps div_round_up_checked_def Let_def)
qed

theorem triple_indirect_divides_by_zero_witness:
  "indirect_blocks_needed 1049613 map_world = Inl Undefined"
  using triple_indirect_divides_by_zero [of map_world 12 small_aux 1049613]
  by (simp add: map_world_def sample_info_def)

end
