(* ===== verification/Sparse_Write.thy ===== *)
theory Sparse_Write
  imports Output_File
begin

text \<open>
  The sparse writer: what \<open>write_chunk_raw\<close>, \<open>emit_skip_chunk\<close>, \<open>pad_output_file\<close> and
  \<open>close_output_file\<close> leave in the output file, as a list of chunks and the image they stand for.
\<close>

section \<open>Writing at the end of the file\<close>

lemma file_put_end: "file_put old (length old) new = old @ new"
  by (simp add: file_put_def)

lemma sys_write_end:
  assumes "out_pos out = length (out_bytes out)" and "out_pos out + length d \<le> out_capacity out"
  shows "sys_write d out =
    (int (length d), out\<lparr>out_bytes := out_bytes out @ d, out_pos := out_pos out + length d\<rparr>)"
  using assms by (cases "d = []") (simp_all add: sys_write_def Let_def file_put_end min_def)

definition at_end :: "world \<Rightarrow> bool" where
  "at_end s \<longleftrightarrow> out_pos (w_out s) = length (out_bytes (w_out s)) \<and> \<not> out_gz (w_out s)"

definition append_out :: "u8 list \<Rightarrow> output_file \<Rightarrow> output_file" where
  "append_out d out = out\<lparr>out_bytes := out_bytes out @ d, out_pos := out_pos out + length d\<rparr>"

lemma append_out_simps [simp]:
  "out_bytes (append_out d out) = out_bytes out @ d" "out_pos (append_out d out) = out_pos out + length d"
  "out_capacity (append_out d out) = out_capacity out" "out_gz (append_out d out) = out_gz out"
  "out_sparse (append_out d out) = out_sparse out" "out_cur_out_ptr (append_out d out) = out_cur_out_ptr out"
  "out_chunk_cnt (append_out d out) = out_chunk_cnt out" "out_crc32 (append_out d out) = out_crc32 out"
  by (simp_all add: append_out_def)

lemma ops_write_end:
  assumes "at_end s" and "out_pos (w_out s) + length d \<le> out_capacity (w_out s)"
  shows "ops_write d s = Inr (0, s\<lparr>w_out := append_out d (w_out s)\<rparr>)"
  using assms
  by (simp add: at_end_def ops_write_def file_write_def write_with_def prog_simps bind_def sys_write_end append_out_def)

section \<open>Chunks\<close>

datatype chunk = Raw "u8 list" | Skip nat

fun chunk_code :: "nat \<Rightarrow> chunk \<Rightarrow> u8 list" where
  "chunk_code bs (Raw d) = chunk_header_bytes CHUNK_TYPE_RAW (of_nat (length d div bs)) (of_nat (CHUNK_HEADER_LEN + length d)) @ d"
| "chunk_code bs (Skip n) = chunk_header_bytes CHUNK_TYPE_DONT_CARE (of_nat n) (of_nat CHUNK_HEADER_LEN)"

fun chunk_data :: "nat \<Rightarrow> chunk \<Rightarrow> u8 list" where
  "chunk_data bs (Raw d) = d"
| "chunk_data bs (Skip n) = replicate (n * bs) 0"

definition chunks_code :: "nat \<Rightarrow> chunk list \<Rightarrow> u8 list" where
  "chunks_code bs cs = concat (map (chunk_code bs) cs)"

definition chunks_data :: "nat \<Rightarrow> chunk list \<Rightarrow> u8 list" where
  "chunks_data bs cs = concat (map (chunk_data bs) cs)"

lemma chunks_append [simp]:
  "chunks_code bs (cs @ ds) = chunks_code bs cs @ chunks_code bs ds"
  "chunks_data bs (cs @ ds) = chunks_data bs cs @ chunks_data bs ds"
  "chunks_code bs [] = []" "chunks_data bs [] = []"
  "chunks_code bs (c # cs) = chunk_code bs c @ chunks_code bs cs"
  "chunks_data bs (c # cs) = chunk_data bs c @ chunks_data bs cs"
  by (simp_all add: chunks_code_def chunks_data_def)

text \<open>The writer has written the file header and the chunks \<open>cs\<close>.\<close>

definition sparse_state :: "world \<Rightarrow> chunk list \<Rightarrow> bool" where
  "sparse_state s cs \<longleftrightarrow> at_end s \<and> out_sparse (w_out s) \<and>
     (let bs = unat (info_block_size (w_info s)) in
      (\<exists>h. length h = SPARSE_HEADER_LEN \<and> out_bytes (w_out s) = h @ chunks_code bs cs) \<and>
      out_cur_out_ptr (w_out s) = of_nat (length (chunks_data bs cs)) \<and>
      length (chunks_data bs cs) < 9223372036854775808 \<and>
      out_chunk_cnt (w_out s) = of_nat (length cs) \<and>
      out_crc32 (w_out s) = sparse_crc32 0 (chunks_data bs cs) \<and>
      length (chunks_data bs cs) mod bs = 0)"

lemma crc_zeros_eq: "block_size \<noteq> 0 \<Longrightarrow> crc_zeros crc block_size n = sparse_crc32 crc (replicate n 0)"
proof (induction n arbitrary: crc rule: less_induct)
  case (less n)
  show ?case
  proof (cases "n = 0")
    case True
    then show ?thesis by (simp add: crc_zeros.simps sparse_crc32_def)
  next
    case False
    let ?c = "if block_size < n then block_size else n"
    have "crc_zeros crc block_size n = crc_zeros (sparse_crc32 crc (replicate ?c 0)) block_size (n - ?c)"
      using False less.prems by (subst crc_zeros.simps) (simp add: Let_def)
    also have "\<dots> = sparse_crc32 (sparse_crc32 crc (replicate ?c 0)) (replicate (n - ?c) 0)"
      using False less by (intro less.IH) auto
    also have "\<dots> = sparse_crc32 crc (replicate ?c 0 @ replicate (n - ?c) 0)"
      by (rule crc.upd_append)
    also have "replicate ?c 0 @ replicate (n - ?c) 0 = replicate n (0 :: u8)"
      by (simp add: replicate_add [symmetric])
    finally show ?thesis .
  qed
qed

section \<open>One step of the writer\<close>

lemma unat_of_nat_u64: "n < 18446744073709551616 \<Longrightarrow> unat (of_nat n :: u64) = n"
  by (simp add: unat_of_nat)

lemma ucast_u32_of_nat: "ucast (of_nat n :: u64) = (of_nat n :: u32)"
  by (rule bit_word_eqI) (simp add: bit_simps bit_of_nat_iff)

lemma u64_multiple:
  assumes "0 < unat (b :: u32)" and "n * unat b < 18446744073709551616"
  shows "(of_nat (n * unat b) :: u64) mod ucast b = 0" and "(of_nat (n * unat b) :: u64) div ucast b = of_nat n"
proof -
  have u: "unat (of_nat (n * unat b) :: u64) = n * unat b" using assms(2) by (rule unat_of_nat_u64)
  have "unat ((of_nat (n * unat b) :: u64) mod ucast b) = 0" unfolding unat_mod u by simp
  then show "(of_nat (n * unat b) :: u64) mod ucast b = 0" by (simp add: unat_eq_zero)
  have "unat ((of_nat (n * unat b) :: u64) div ucast b) = n" unfolding unat_div u using assms(1) by simp
  moreover have "n < 18446744073709551616"
  proof -
    have "n * 1 \<le> n * unat b" using assms(1) by (intro mult_le_mono2) simp
    then show ?thesis using assms(2) by linarith
  qed
  ultimately show "(of_nat (n * unat b) :: u64) div ucast b = of_nat n"
    unfolding word_eq_unat by (simp only: unat_of_nat_u64)
qed

text \<open>What a step may change: only the output file, which grows by at most \<open>k\<close> bytes.\<close>

definition only_out :: "nat \<Rightarrow> world \<Rightarrow> world \<Rightarrow> bool" where
  "only_out k s s' \<longleftrightarrow> s' = s\<lparr>w_out := w_out s'\<rparr> \<and> out_capacity (w_out s') = out_capacity (w_out s) \<and>
     out_pos (w_out s') \<le> out_pos (w_out s) + k"

lemma only_out_trans: "only_out k s t \<Longrightarrow> only_out l t u \<Longrightarrow> only_out (k + l) s u"
  unfolding only_out_def by (metis (no_types, lifting) add.assoc add_le_mono1 order_trans world.update_convs(11) world.surjective)

lemma only_out_frame:
  assumes "only_out k s s'"
  shows "w_info s' = w_info s" and "w_sparse_header s' = w_sparse_header s"
    and "out_capacity (w_out s') = out_capacity (w_out s)" and "out_pos (w_out s') \<le> out_pos (w_out s) + k"
proof -
  have e: "s' = s\<lparr>w_out := w_out s'\<rparr>" using assms by (simp add: only_out_def)
  show "w_info s' = w_info s" by (subst e) simp
  show "w_sparse_header s' = w_sparse_header s" by (subst e) simp
qed (use assms in \<open>simp_all add: only_out_def\<close>)

lemma write_chunk_raw_gap:
  assumes "out_cur_out_ptr (w_out s) < off" and "emit_skip_chunk (off - out_cur_out_ptr (w_out s)) s = Inr (r, s1)"
    and "out_cur_out_ptr (w_out s1) = off" and "w_info s1 = w_info s"
  shows "write_chunk_raw off d s = write_chunk_raw off d s1"
proof -
  have "\<not> off < out_cur_out_ptr (w_out s)" using assms(1) by simp
  then show ?thesis
    unfolding write_chunk_raw_def Let_def using assms by (simp add: bind_def sq_def gets_def ret_def)
qed

lemma emit_skip_run:
  assumes st: "sparse_state s cs" and bs: "bs = unat (info_block_size (w_info s))" "0 < bs"
    and total: "length (chunks_data bs cs) + n * bs < 9223372036854775808"
    and room: "out_pos (w_out s) + 12 \<le> out_capacity (w_out s)"
  shows "\<exists>s'. emit_skip_chunk (of_nat (n * bs)) s = Inr (0, s') \<and> sparse_state s' (cs @ [Skip n]) \<and> only_out 12 s s'"
proof -
  let ?b = "info_block_size (w_info s)"
  let ?h = "chunk_header_bytes CHUNK_TYPE_DONT_CARE (of_nat n) (of_nat CHUNK_HEADER_LEN)"
  have lh: "length ?h = 12" by (simp add: chunk_header_bytes_def)
  have ae: "at_end s" using st by (simp add: sparse_state_def)
  have w: "ops_write ?h s = Inr (0, s\<lparr>w_out := append_out ?h (w_out s)\<rparr>)"
    using ops_write_end [OF ae, of ?h] room lh by simp
  let ?o = "(append_out ?h (w_out s))\<lparr>out_cur_out_ptr := out_cur_out_ptr (w_out s) + of_nat (n * bs),
     out_chunk_cnt := out_chunk_cnt (w_out s) + 1, out_crc32 := crc_zeros (out_crc32 (w_out s)) bs (n * bs)\<rparr>"
  have m: "(of_nat (n * bs) :: u64) mod ucast ?b = 0" "(of_nat (n * bs) :: u64) div ucast ?b = of_nat n"
    using u64_multiple [of ?b n] bs total by simp_all
  have u: "unat (of_nat (n * bs) :: u64) = n * bs" using total by (intro unat_of_nat_u64) linarith
  have nz: "?b \<noteq> 0" using bs by auto
  have run: "emit_skip_chunk (of_nat (n * bs)) s = Inr (0, s\<lparr>w_out := ?o\<rparr>)"
    using m nz w u bs(1)
    by (simp add: emit_skip_chunk_def prog_simps bind_def upd_out_def ucast_u32_of_nat del: of_nat_mult)
  have "sparse_state (s\<lparr>w_out := ?o\<rparr>) (cs @ [Skip n])"
    using st bs total
    by (auto simp: sparse_state_def at_end_def Let_def crc_zeros_eq crc.upd_append mod_add_eq)
  moreover have "only_out 12 s (s\<lparr>w_out := ?o\<rparr>)" using lh by (simp add: only_out_def)
  ultimately show ?thesis using run by blast
qed

text \<open>Rounding a length up to whole blocks, with the mask of a power of two.\<close>

lemma unat_and_not_mask: "unat (w AND NOT (mask k) :: u32) = 2 ^ k * (unat w div 2 ^ k)"
proof -
  have e: "w AND NOT (mask k) = push_bit k (drop_bit k w)"
    by (rule bit_word_eqI) (auto simp: bit_simps)
  have "2 ^ k * (unat w div 2 ^ k) \<le> unat w" by simp
  then have "2 ^ k * (unat w div 2 ^ k) < 4294967296" using unat_lt_u32 [of w] by linarith
  then have "(2 ^ k * (unat w div 2 ^ k)) mod 4294967296 = 2 ^ k * (unat w div 2 ^ k)" by simp
  then show ?thesis
    unfolding e unsigned_push_bit_eq unat_drop_bit_div by (simp add: push_bit_eq_mult take_bit_eq_mod mult.commute)
qed

lemma unat_two_power: "k < 32 \<Longrightarrow> unat (2 ^ k :: u32) = 2 ^ k"
proof -
  assume "k < 32"
  then have "(2 :: nat) ^ k < 4294967296" using power_strict_increasing [of k 32 "2 :: nat"] by simp
  then have "unat (of_nat (2 ^ k) :: u32) = 2 ^ k" by (rule unat_of_nat_u32)
  then show ?thesis by simp
qed

definition round_up :: "nat \<Rightarrow> nat \<Rightarrow> nat" where
  "round_up bs n = bs * ((n + bs - 1) div bs)"

lemma round_up_bounds: "0 < bs \<Longrightarrow> n \<le> round_up bs n \<and> round_up bs n < n + bs"
proof -
  assume b: "0 < bs"
  have "bs * ((n + bs - 1) div bs) + (n + bs - 1) mod bs = n + bs - 1" by simp
  moreover have "(n + bs - 1) mod bs < bs" using b by simp
  ultimately show ?thesis using b unfolding round_up_def by linarith
qed

lemma round_up_code:
  assumes b: "b = 2 ^ k" "k < 31" and n: "n + 2 ^ k < 4294967296"
  shows "((of_nat n :: u32) + (b - 1)) AND NOT (b - 1) = of_nat (round_up (2 ^ k) n)"
proof -
  have m: "b - 1 = mask k" using b by (simp add: mask_eq_exp_minus_1)
  have um: "unat (mask k :: u32) = 2 ^ k - 1"
    using b(2) unat_sub_le [of 1 "2 ^ k :: u32"] by (simp add: mask_eq_exp_minus_1 unat_two_power word_le_nat_alt)
  have un: "unat (of_nat n :: u32) = n" using n by (intro unat_of_nat_u32) simp
  have "unat ((of_nat n :: u32) + mask k) = n + (2 ^ k - 1)"
    using n by (subst unat_add_u32) (simp_all add: um un)
  also have "\<dots> = n + 2 ^ k - 1" by simp
  finally have "unat (((of_nat n :: u32) + mask k) AND NOT (mask k)) = round_up (2 ^ k) n"
    by (simp only: unat_and_not_mask round_up_def)
  then show ?thesis unfolding m by (metis of_nat_unat_u32)
qed

text \<open>The padded data of a raw chunk.\<close>

definition padded :: "nat \<Rightarrow> u8 list \<Rightarrow> u8 list" where
  "padded bs d = d @ replicate (round_up bs (length d) - length d) 0"

lemma padded_length: "0 < bs \<Longrightarrow> length (padded bs d) = round_up bs (length d)"
  using round_up_bounds [of bs "length d"] by (simp add: padded_def)

lemma append_out_twice: "append_out e (append_out d out) = append_out (d @ e) out"
  by (simp add: append_out_def)

text \<open>The words of a raw chunk.\<close>

lemma raw_words:
  assumes b: "b = 2 ^ k" "k < 31" and small: "n + 2 ^ k < 2147483648"
  defines "r \<equiv> ((of_nat n :: u32) + (b - 1)) AND NOT (b - 1)"
  shows "r = of_nat (round_up (2 ^ k) n)" and "r - of_nat n = of_nat (round_up (2 ^ k) n - n)"
    and "unat (r - of_nat n) = round_up (2 ^ k) n - n" and "r - of_nat n \<le> b"
    and "r div b = of_nat (round_up (2 ^ k) n div 2 ^ k)" and "scast r = (of_nat (round_up (2 ^ k) n) :: u64)"
proof -
  let ?R = "round_up (2 ^ k) n"
  have R: "n \<le> ?R" "?R < n + 2 ^ k" using round_up_bounds [of "2 ^ k" n] by simp_all
  show r: "r = of_nat ?R" unfolding r_def using small by (intro round_up_code [OF b]) simp
  then show d: "r - of_nat n = of_nat (?R - n)" using R by (simp add: of_nat_diff)
  show u: "unat (r - of_nat n) = ?R - n" unfolding d by (rule unat_of_nat_u32) (use R small in linarith)
  have ub: "unat b = 2 ^ k" using b by (simp add: unat_two_power)
  show "r - of_nat n \<le> b" using u R ub by (simp add: word_le_nat_alt)
  have ur: "unat r = ?R" unfolding r by (rule unat_of_nat_u32) (use R small in linarith)
  have "?R div 2 ^ k \<le> ?R" by simp
  then have "unat (of_nat (?R div 2 ^ k) :: u32) = ?R div 2 ^ k" using R small by (intro unat_of_nat_u32) linarith
  then show "r div b = of_nat (?R div 2 ^ k)" by (simp add: word_eq_unat unat_div ur ub)
  have "sint r = int ?R" using ur R small by (subst sint_u32) simp_all
  then have "scast r = (of_int (int ?R) :: u64)" by (simp only: scast_eq)
  then show "scast r = (of_nat ?R :: u64)" by simp
qed

lemma at_end_append [simp]: "at_end s \<Longrightarrow> at_end (s\<lparr>w_out := append_out d (w_out s)\<rparr>)"
  by (simp add: at_end_def)

lemma ops_write_two:
  assumes "at_end s" and "out_pos (w_out s) + length d + length e \<le> out_capacity (w_out s)"
  shows "ops_write e (s\<lparr>w_out := append_out d (w_out s)\<rparr>) = Inr (0, s\<lparr>w_out := append_out (d @ e) (w_out s)\<rparr>)"
  using assms by (subst ops_write_end) (simp_all add: append_out_twice)

definition raw_header :: "nat \<Rightarrow> nat \<Rightarrow> u8 list" where
  "raw_header bs n = chunk_header_bytes CHUNK_TYPE_RAW (of_nat (n div bs)) (of_nat (CHUNK_HEADER_LEN + n))"

text \<open>\<open>write_chunk_raw\<close> at the current position: header, data and padding, then the counters.\<close>

lemma write_chunk_raw_here:
  assumes ae: "at_end s" and b: "info_block_size (w_info s) = 2 ^ k" "k < 31"
    and off: "off = out_cur_out_ptr (w_out s)" "off mod ucast (info_block_size (w_info s)) = 0"
    and small: "length d + 2 ^ k < 2147483648"
    and room: "out_pos (w_out s) + 12 + round_up (2 ^ k) (length d) \<le> out_capacity (w_out s)"
  shows "write_chunk_raw off d s = Inr (0, s\<lparr>w_out :=
    (append_out (raw_header (2 ^ k) (round_up (2 ^ k) (length d)) @ padded (2 ^ k) d) (w_out s))
      \<lparr>out_crc32 := sparse_crc32 (out_crc32 (w_out s)) (padded (2 ^ k) d),
       out_cur_out_ptr := off + of_nat (round_up (2 ^ k) (length d)), out_chunk_cnt := out_chunk_cnt (w_out s) + 1\<rparr>\<rparr>)"
proof -
  let ?b = "info_block_size (w_info s)" and ?n = "length d" and ?R = "round_up (2 ^ k) (length d)"
  define r where "r = ((of_nat ?n :: u32) + (?b - 1)) AND NOT (?b - 1)"
  note w = raw_words [OF b small, folded r_def]
  define h where "h = raw_header (2 ^ k) ?R"
  define z where "z = replicate (?R - ?n) (0 :: u8)"
  have R: "?n \<le> ?R" using round_up_bounds [of "2 ^ k" ?n] by simp
  have hd: "chunk_header_bytes CHUNK_TYPE_RAW (r div ?b) (of_nat CHUNK_HEADER_LEN + r) = h"
    by (simp only: h_def raw_header_def w(5)) (simp add: w(1))
  have lh: "length h = 12" by (simp add: h_def raw_header_def chunk_header_bytes_def)
  have lz: "length z = ?R - ?n" by (simp add: z_def)
  have "unat ?b = 2 ^ k" using b by (simp add: unat_two_power)
  then have "unat ?b \<noteq> unat 0" by simp
  then have nz: "?b \<noteq> 0" by auto
  have w1: "ops_write h s = Inr (0, s\<lparr>w_out := append_out h (w_out s)\<rparr>)"
    using ops_write_end [OF ae, of h] room lh by simp
  have w2: "ops_write d (s\<lparr>w_out := append_out h (w_out s)\<rparr>) = Inr (0, s\<lparr>w_out := append_out (h @ d) (w_out s)\<rparr>)"
    using ops_write_two [OF ae, of h d] room lh R by simp
  have w3: "ops_write z (s\<lparr>w_out := append_out (h @ d) (w_out s)\<rparr>) =
      Inr (0, s\<lparr>w_out := append_out (h @ d @ z) (w_out s)\<rparr>)"
    using ops_write_two [OF ae, of "h @ d" z] room lh lz R by simp
  have p: "padded (2 ^ k) d = d @ z" by (simp add: padded_def z_def)
  have zz: "r - of_nat ?n = 0 \<longleftrightarrow> z = []"
    using w(3) lz by (metis length_0_conv unat_0 unat_eq_zero)
  show ?thesis
    unfolding write_chunk_raw_def Let_def
    using off nz w1 w2 w3 w(4) zz
    by (auto simp add: prog_simps bind_def upd_out_def r_def [symmetric] hd w(3) w(6) z_def [symmetric] p crc.upd_append
        h_def [symmetric])
qed

lemma round_up_div: "0 < bs \<Longrightarrow> round_up bs n div bs * bs = round_up bs n" "0 < bs \<Longrightarrow> round_up bs n mod bs = 0"
  by (simp_all add: round_up_def mult.commute)

lemma raw_chunk_run:
  assumes st: "sparse_state s cs" and b: "info_block_size (w_info s) = 2 ^ k" "k < 31"
    and off: "off = of_nat (length (chunks_data (2 ^ k) cs))"
    and small: "length d + 2 ^ k < 2147483648"
    and total: "length (chunks_data (2 ^ k) cs) + round_up (2 ^ k) (length d) < 9223372036854775808"
    and room: "out_pos (w_out s) + 12 + round_up (2 ^ k) (length d) \<le> out_capacity (w_out s)"
  shows "\<exists>s'. write_chunk_raw off d s = Inr (0, s') \<and> sparse_state s' (cs @ [Raw (padded (2 ^ k) d)]) \<and>
    only_out (12 + round_up (2 ^ k) (length d)) s s'"
proof -
  let ?bs = "2 ^ k" and ?R = "round_up (2 ^ k) (length d)" and ?L = "length (chunks_data (2 ^ k) cs)"
  have ub: "unat (info_block_size (w_info s)) = ?bs" using b by (simp add: unat_two_power)
  have ae: "at_end s" and cur: "out_cur_out_ptr (w_out s) = of_nat ?L" and m: "?L mod ?bs = 0"
    using st by (simp_all add: sparse_state_def Let_def ub)
  obtain q where q: "?L = q * ?bs" using m by (metis div_mult_self_is_m dvd_div_mult_self mod_0_imp_dvd)
  have "off mod ucast (info_block_size (w_info s)) = 0"
    using u64_multiple(1) [of "info_block_size (w_info s)" q] total off unfolding ub q by simp
  note run = write_chunk_raw_here [OF ae b _ this small room]
  have lp: "length (padded ?bs d) = ?R" by (simp add: padded_length)
  have rh: "chunk_code ?bs (Raw (padded ?bs d)) = raw_header ?bs ?R @ padded ?bs d"
    by (simp add: raw_header_def lp)
  have lr: "length (raw_header ?bs ?R) = 12" by (simp add: raw_header_def chunk_header_bytes_def)
  let ?o = "(append_out (raw_header ?bs ?R @ padded ?bs d) (w_out s))
      \<lparr>out_crc32 := sparse_crc32 (out_crc32 (w_out s)) (padded ?bs d),
       out_cur_out_ptr := off + of_nat ?R, out_chunk_cnt := out_chunk_cnt (w_out s) + 1\<rparr>"
  have "sparse_state (s\<lparr>w_out := ?o\<rparr>) (cs @ [Raw (padded ?bs d)])"
    using st total off m
    by (auto simp: sparse_state_def at_end_def Let_def ub lp crc.upd_append rh round_up_div simp del: chunk_code.simps)
  moreover have "only_out (12 + ?R) s (s\<lparr>w_out := ?o\<rparr>)" using lr lp by (simp add: only_out_def)
  ultimately show ?thesis using run cur off by (intro exI [of _ "s\<lparr>w_out := ?o\<rparr>"]) simp
qed

text \<open>A block-aligned write at or after the current position: a skip over the gap, then the data.\<close>

definition gap_chunks :: "nat \<Rightarrow> nat \<Rightarrow> nat \<Rightarrow> chunk list" where
  "gap_chunks bs cur off = (if cur < off then [Skip ((off - cur) div bs)] else [])"

lemma write_chunk_run:
  assumes st: "sparse_state s cs" and b: "info_block_size (w_info s) = 2 ^ k" "k < 31"
    and off: "length (chunks_data (2 ^ k) cs) \<le> off" "off mod 2 ^ k = 0"
    and small: "length d + 2 ^ k < 2147483648"
    and total: "off + round_up (2 ^ k) (length d) < 9223372036854775808"
    and room: "out_pos (w_out s) + 24 + round_up (2 ^ k) (length d) \<le> out_capacity (w_out s)"
  defines "cs' \<equiv> cs @ gap_chunks (2 ^ k) (length (chunks_data (2 ^ k) cs)) off @ [Raw (padded (2 ^ k) d)]"
  shows "\<exists>s'. write_chunk_raw (of_nat off) d s = Inr (0, s') \<and> sparse_state s' cs' \<and>
    length (chunks_data (2 ^ k) cs') = off + round_up (2 ^ k) (length d) \<and>
    only_out (24 + round_up (2 ^ k) (length d)) s s'"
proof -
  let ?bs = "(2 :: nat) ^ k" and ?R = "round_up (2 ^ k) (length d)" and ?L = "length (chunks_data (2 ^ k) cs)"
  let ?n = "(off - ?L) div ?bs"
  have ub: "unat (info_block_size (w_info s)) = ?bs" using b by (simp add: unat_two_power)
  have m: "?L mod ?bs = 0" and cur: "out_cur_out_ptr (w_out s) = of_nat ?L"
    using st by (simp_all add: sparse_state_def Let_def ub)
  have "(off - ?L) mod ?bs = 0"
    using m off(2) by (metis dvd_diff_nat dvd_imp_mod_0 mod_0_imp_dvd)
  then have n: "?n * ?bs = off - ?L" by (metis add.right_neutral div_mult_mod_eq)
  have lp: "length (padded ?bs d) = ?R" by (simp add: padded_length)
  show ?thesis
  proof (cases "?L < off")
    case False
    then have e: "off = ?L" using off(1) by simp
    then show ?thesis
      using raw_chunk_run [OF st b _ small, of "of_nat off"] total room lp
      by (auto simp: cs'_def gap_chunks_def only_out_def)
  next
    case True
    obtain s1 where s1: "emit_skip_chunk (of_nat (?n * ?bs)) s = Inr (0, s1)" "sparse_state s1 (cs @ [Skip ?n])" "only_out 12 s s1"
      using emit_skip_run [OF st ub [symmetric], of ?n] n off total room by auto
    have L1: "length (chunks_data ?bs (cs @ [Skip ?n])) = off" using n off(1) by simp
    have i1: "w_info s1 = w_info s" and c1: "out_capacity (w_out s1) = out_capacity (w_out s)"
      and p1: "out_pos (w_out s1) \<le> out_pos (w_out s) + 12"
      using only_out_frame [OF s1(3)] by simp_all
    have b1: "info_block_size (w_info s1) = 2 ^ k" using b i1 by simp
    have "out_cur_out_ptr (w_out s1) = of_nat (length (chunks_data ?bs (cs @ [Skip ?n])))"
      using s1(2) ub i1 by (simp only: sparse_state_def Let_def)
    then have cur1: "out_cur_out_ptr (w_out s1) = of_nat off" by (simp only: L1)
    have gap: "of_nat (?n * ?bs) = (of_nat off :: u64) - out_cur_out_ptr (w_out s)"
      unfolding n cur using off(1) by (simp add: of_nat_diff)
    have lt: "out_cur_out_ptr (w_out s) < of_nat off"
      using True total by (simp add: cur word_less_nat_alt unat_of_nat_u64)
    have "write_chunk_raw (of_nat off) d s = write_chunk_raw (of_nat off) d s1"
      by (rule write_chunk_raw_gap [OF lt s1(1) [unfolded gap] cur1 i1])
    moreover have o1: "of_nat off = of_nat (length (chunks_data ?bs (cs @ [Skip ?n])))" by (simp only: L1)
    have t1: "length (chunks_data ?bs (cs @ [Skip ?n])) + ?R < 9223372036854775808" unfolding L1 by (rule total)
    have r1: "out_pos (w_out s1) + 12 + ?R \<le> out_capacity (w_out s1)" using room c1 p1 by linarith
    obtain s2 where s2: "write_chunk_raw (of_nat off) d s1 = Inr (0, s2)"
      "sparse_state s2 ((cs @ [Skip ?n]) @ [Raw (padded ?bs d)])" "only_out (12 + ?R) s1 s2"
      using raw_chunk_run [OF s1(2) b1 b(2) o1 small t1 r1] by blast
    moreover have "only_out (24 + ?R) s s2" using only_out_trans [OF s1(3) s2(3)] by simp
    ultimately show ?thesis
      using True lp L1 by (intro exI [of _ s2]) (simp add: cs'_def gap_chunks_def)
  qed
qed

end
