(* ===== verification/Sparse_Read.thy ===== *)
theory Sparse_Read
  imports Sparse_Write Simg2img
begin

text \<open>
  The decoder: what the chunk handlers of \<open>simg2img\<close> make of the chunks the sparse writer emits.
\<close>

section \<open>Headers\<close>

lemma chunk_header_fields:
  "get_u16 (chunk_header_bytes t n z) 0 = t" "get_u32 (chunk_header_bytes t n z) 4 = n"
  "get_u32 (chunk_header_bytes t n z) 8 = z" "length (chunk_header_bytes t n z) = 12"
  by (simp_all add: chunk_header_bytes_def get_u16_def get_u32_def get_bytes_def)

lemma sparse_header_parse: "parse_sparse_header (sparse_header_bytes h) = h"
  by (simp add: parse_sparse_header_def sparse_header_bytes_def get_u16_def get_u32_def get_bytes_def)

lemma sparse_header_length: "length (sparse_header_bytes h) = 28"
  by (simp add: sparse_header_bytes_def)

section \<open>The output so far\<close>

text \<open>\<open>decoded us d c\<close>: what the reader has produced stands for the bytes \<open>d\<close>; the tail that was only
  seeked over is not in the file yet.  Its checksum is that of the bytes \<open>c\<close>, which differ from \<open>d\<close> where it
  took the contents of \<open>zerobuf\<close> for skipped blocks.\<close>

definition decoded :: "unsparse \<Rightarrow> u8 list \<Rightarrow> u8 list \<Rightarrow> bool" where
  "decoded us d c \<longleftrightarrow> us_pos us = length d \<and> length (us_out us) \<le> length d \<and>
     us_out us @ replicate (length d - length (us_out us)) 0 = d \<and> us_crc32 us = sparse_crc32 0 c"

lemma decoded_write:
  assumes "decoded us d c"
  shows "decoded (us\<lparr>us_in := rest, us_out := file_put (us_out us) (us_pos us) e, us_pos := us_pos us + length e,
    us_crc32 := sparse_crc32 (us_crc32 us) e\<rparr>) (d @ e) (c @ e)"
proof -
  have "file_put (us_out us) (us_pos us) e = d @ e" using assms by (simp add: decoded_def file_put_def)
  then show ?thesis using assms by (simp add: decoded_def crc.upd_append)
qed

lemma decoded_seek:
  assumes "decoded us d c"
  shows "decoded (us\<lparr>us_in := rest, us_pos := us_pos us + n, us_crc32 := sparse_crc32 (us_crc32 us) e\<rparr>)
    (d @ replicate n 0) (c @ e)"
proof -
  let ?o = "us_out us"
  have l: "length ?o \<le> length d" and e: "?o @ replicate (length d - length ?o) 0 = d"
    using assms by (simp_all add: decoded_def)
  have "length d + n - length ?o = (length d - length ?o) + n" using l by simp
  then have "?o @ replicate (length d + n - length ?o) 0 = (?o @ replicate (length d - length ?o) 0) @ replicate n 0"
    by (simp only: replicate_add append_assoc)
  then have "?o @ replicate (length d + n - length ?o) 0 = d @ replicate n 0" by (simp only: e)
  then show ?thesis using assms by (simp add: decoded_def crc.upd_append)
qed

section \<open>Raw chunks\<close>

lemma fread_exact_run:
  "d \<noteq> [] \<Longrightarrow> us_in us = d @ rest \<Longrightarrow> n = length d \<Longrightarrow> fread_exact n us = Inr (d, us\<lparr>us_in := rest\<rparr>)"
  by (simp add: fread_exact_def prog_simps)

lemma raw_piece:
  assumes "d \<noteq> []" and "us_in us = d @ rest"
  shows "bind (fread_exact (length d)) (\<lambda>data. sq (add_crc data) (sq (fwrite_out data) (ret x))) us =
    Inr (x, us\<lparr>us_in := rest, us_out := file_put (us_out us) (us_pos us) d, us_pos := us_pos us + length d,
      us_crc32 := sparse_crc32 (us_crc32 us) d\<rparr>)"
  using fread_exact_run [OF assms refl]
  by (cases us) (simp add: prog_simps bind_ok add_crc_def fwrite_out_def)

lemma raw_loop_run:
  fixes blocks :: u32
  defines "step \<equiv> \<lambda>len. if len = 0 then ret (Inl blocks)
        else let chunk = (if COPY_BUF_SIZE < len then COPY_BUF_SIZE else len) in
          bind (fread_exact chunk) (\<lambda>data. sq (add_crc data) (sq (fwrite_out data) (ret (Inr (len - chunk)))))"
  shows "length d < fuel \<Longrightarrow> us_in us = d @ rest \<Longrightarrow> decoded us e c \<Longrightarrow>
    \<exists>us'. loop fuel step (length d) us = Inr (blocks, us') \<and> us_in us' = rest \<and> decoded us' (e @ d) (c @ d)"
proof (induction fuel arbitrary: us d e c)
  case 0
  then show ?case by simp
next
  case (Suc fuel)
  show ?case
  proof (cases "d = []")
    case True
    then show ?thesis using Suc.prems by (simp add: step_def prog_simps)
  next
    case False
    define k where "k = (if COPY_BUF_SIZE < length d then COPY_BUF_SIZE else length d)"
    define us1 where "us1 = us\<lparr>us_in := drop k d @ rest, us_out := file_put (us_out us) (us_pos us) (take k d),
      us_pos := us_pos us + length (take k d), us_crc32 := sparse_crc32 (us_crc32 us) (take k d)\<rparr>"
    have k: "0 < k" "k \<le> length d" using False by (auto simp: k_def COPY_BUF_SIZE_def)
    have "us_in us = take k d @ drop k d @ rest" using Suc.prems by simp
    then have "step (length d) us = Inr (Inr (length d - k), us1)"
      using raw_piece [of "take k d" us "drop k d @ rest" "Inr (length d - k)" ] k False
      by (simp add: step_def us1_def k_def [symmetric] Let_def min_absorb2)
    then have "loop (Suc fuel) step (length d) us = loop fuel step (length (drop k d)) us1"
      by (simp add: bind_ok)
    moreover have "us_in us1 = drop k d @ rest" by (simp add: us1_def)
    moreover have "decoded us1 (e @ take k d) (c @ take k d)" using decoded_write [OF Suc.prems(3)] by (simp only: us1_def)
    moreover have "length (drop k d) < fuel" using Suc.prems(1) k by simp
    ultimately show ?thesis using Suc.IH [of "drop k d" us1 "e @ take k d" "c @ take k d"] by simp
  qed
qed

lemma process_raw_chunk_run:
  assumes "unat (chunk_bytes blocks blk_sz) = length d" and "us_in us = d @ rest" and "decoded us e c"
  shows "\<exists>us'. process_raw_chunk blocks blk_sz us = Inr (blocks, us') \<and> us_in us' = rest \<and> decoded us' (e @ d) (c @ d)"
  using raw_loop_run [of d "Suc (length d)" us rest e c blocks] assms by (simp add: process_raw_chunk_def Let_def)

section \<open>Skip chunks\<close>

lemma fseek_out_run: "fseek_out n us = Inr ((), us\<lparr>us_pos := us_pos us + n\<rparr>)"
  by (simp add: fseek_out_def prog_simps)

lemma seek_loop_run:
  fixes len :: u64
  defines "step \<equiv> \<lambda>(len :: u64, skip_chunk :: u64). if len = 0 then ret (Inl skip_chunk)
       else let skip_chunk = (if 0x80000000 < len then 0x80000000 else len) in
         sq (fseek_out (unat skip_chunk)) (ret (Inr (len - skip_chunk, skip_chunk)))"
  assumes "bs dvd (2147483648 :: nat)"
  shows "unat len < fuel \<Longrightarrow> bs dvd unat len \<Longrightarrow>
    \<exists>m'. loop fuel step (len, m) us = Inr (m', us\<lparr>us_pos := us_pos us + unat len\<rparr>) \<and>
      (len \<noteq> 0 \<or> bs \<le> unat m \<longrightarrow> bs \<le> unat m')"
proof (induction fuel arbitrary: us len m)
  case 0
  then show ?case by simp
next
  case (Suc fuel)
  show ?case
  proof (cases "len = 0")
    case True
    then show ?thesis using Suc.prems by (simp add: step_def prog_simps)
  next
    case False
    define c :: u64 where "c = (if 0x80000000 < len then 0x80000000 else len)"
    have cl: "c \<le> len" "c \<noteq> 0" using False by (auto simp: c_def)
    have cu: "unat c \<le> unat len" using cl(1) by (simp only: word_le_nat_alt)
    have cp: "0 < unat c" using cl(2) by (simp add: unat_gt_0)
    have cd: "bs dvd unat c" using Suc.prems(2) assms(2) by (simp add: c_def)
    have ul: "unat (len - c) = unat len - unat c" using cl(1) by (rule unat_sub_le)
    have "loop (Suc fuel) step (len, m) us = loop fuel step (len - c, c) (us\<lparr>us_pos := us_pos us + unat c\<rparr>)"
      using False by (simp add: step_def c_def [symmetric] bind_ok [OF fseek_out_run] prog_simps Let_def)
    moreover have "bs dvd unat (len - c)" unfolding ul using Suc.prems(2) cd by (rule dvd_diff_nat)
    moreover have "unat (len - c) < fuel" unfolding ul using Suc.prems(1) cp cu by linarith
    moreover have "bs \<le> unat c" using cd cp by (rule dvd_imp_le)
    moreover have "unat c + unat (len - c) = unat len" unfolding ul using cu by simp
    ultimately show ?thesis
      using Suc.IH [of "len - c" c "us\<lparr>us_pos := us_pos us + unat c\<rparr>"] by (auto simp: add.assoc)
  qed
qed

lemma crc_loop_run:
  fixes blk_sz :: u32 and z :: "u8 list"
  defines "step \<equiv> \<lambda>(len :: u64, skip_chunk :: u64).
       if len = 0 then ret (Inl ())
       else let skip_chunk = (if ucast blk_sz < skip_chunk then ucast blk_sz else skip_chunk) in
         sq (add_crc (take (unat skip_chunk) z)) (ret (Inr (len - skip_chunk, skip_chunk)))"
  assumes "0 < unat blk_sz" and z: "length z = unat blk_sz"
  shows "n < fuel \<Longrightarrow> unat len = n * unat blk_sz \<Longrightarrow> n = 0 \<or> unat blk_sz \<le> unat m \<Longrightarrow>
    loop fuel step (len, m) us = Inr ((), us\<lparr>us_crc32 := sparse_crc32 (us_crc32 us) (concat (replicate n z))\<rparr>)"
proof (induction fuel arbitrary: n us len m)
  case 0
  then show ?case by simp
next
  case (Suc fuel)
  show ?case
  proof (cases n)
    case 0
    then have "len = 0" using Suc.prems(2) by (simp add: unat_eq_zero)
    then show ?thesis using 0 by (cases us) (simp add: step_def prog_simps sparse_crc32_def)
  next
    case (Suc k)
    let ?b = "ucast blk_sz :: u64"
    have ub: "unat ?b = unat blk_sz" by simp
    have nz: "len \<noteq> 0" using Suc.prems(2) Suc assms(2) by auto
    have pick: "(if ?b < m then ?b else m) = ?b"
      using Suc.prems(3) Suc by (auto simp: word_less_nat_alt word_eq_unat)
    have le: "?b \<le> len" using Suc.prems(2) Suc by (simp add: word_le_nat_alt)
    have ul: "unat (len - ?b) = k * unat blk_sz"
      using unat_sub_le [OF le] Suc.prems(2) Suc by simp
    let ?us = "us\<lparr>us_crc32 := sparse_crc32 (us_crc32 us) z\<rparr>"
    have "loop (Suc fuel) step (len, m) us = loop fuel step (len - ?b, ?b) ?us"
      using nz by (simp add: step_def pick ub z prog_simps bind_def add_crc_def Let_def)
    also have "\<dots> = Inr ((), ?us\<lparr>us_crc32 := sparse_crc32 (us_crc32 ?us) (concat (replicate k z))\<rparr>)"
      using Suc.prems(1) Suc ul by (intro Suc.IH) simp_all
    finally show ?thesis using Suc by (simp add: crc.upd_append [symmetric])
  qed
qed

lemma process_skip_chunk_run:
  assumes "unat (chunk_bytes blocks blk_sz) = n * unat blk_sz" and "0 < unat blk_sz" and "unat blk_sz dvd 2147483648"
    and "decoded us e c" and "length z = unat blk_sz"
  shows "\<exists>us'. process_skip_chunk z blocks blk_sz us = Inr (blocks, us') \<and>
    us_in us' = us_in us \<and> decoded us' (e @ replicate (n * unat blk_sz) 0) (c @ concat (replicate n z))"
proof -
  let ?len = "chunk_bytes blocks blk_sz"
  obtain m where m: "seek_loop ?len us = Inr (m, us\<lparr>us_pos := us_pos us + unat ?len\<rparr>)"
      "?len \<noteq> 0 \<longrightarrow> unat blk_sz \<le> unat m"
    using seek_loop_run [OF assms(3), of ?len "Suc (unat ?len)" 0 us] assms(1) by (auto simp: seek_loop_def)
  let ?us = "us\<lparr>us_pos := us_pos us + n * unat blk_sz\<rparr>"
  have z: "?len \<noteq> 0 \<or> n = 0" using assms(1,2) by auto
  have "n \<le> n * unat blk_sz" using assms(2) by simp
  then have "n < Suc (unat ?len)" unfolding assms(1) by (rule le_imp_less_Suc)
  then have "crc_loop z blk_sz ?len m ?us =
      Inr ((), ?us\<lparr>us_crc32 := sparse_crc32 (us_crc32 ?us) (concat (replicate n z))\<rparr>)"
    using m(2) z assms(1) unfolding crc_loop_def by (intro crc_loop_run [OF assms(2,5)]) auto
  then have "process_skip_chunk z blocks blk_sz us =
      Inr (blocks, ?us\<lparr>us_crc32 := sparse_crc32 (us_crc32 ?us) (concat (replicate n z))\<rparr>)"
    using m(1) by (simp add: process_skip_chunk_def Let_def bind_ok sq_ok assms(1) prog_simps)
  then show ?thesis using decoded_seek [OF assms(4), where rest = "us_in us" and n = "n * unat blk_sz" and e = "concat (replicate n z)"] by simp
qed

section \<open>A chunk\<close>

text \<open>What the checksum of the reader is about: the data of a raw chunk, \<open>zerobuf\<close> once for every skipped
  block.\<close>

fun chunk_seen :: "u8 list \<Rightarrow> chunk \<Rightarrow> u8 list" where
  "chunk_seen z (Raw d) = d"
| "chunk_seen z (Skip n) = concat (replicate n z)"

definition chunks_seen :: "u8 list \<Rightarrow> chunk list \<Rightarrow> u8 list" where
  "chunks_seen z cs = concat (map (chunk_seen z) cs)"

lemma chunks_seen_simps [simp]: "chunks_seen z [] = []" "chunks_seen z (c # cs) = chunk_seen z c @ chunks_seen z cs"
    "chunks_seen z (cs @ cs') = chunks_seen z cs @ chunks_seen z cs'"
  by (simp_all add: chunks_seen_def)

text \<open>The chunks whose sizes fit the fields of the chunk header.\<close>

fun chunk_ok :: "nat \<Rightarrow> chunk \<Rightarrow> bool" where
  "chunk_ok bs (Raw d) \<longleftrightarrow> length d mod bs = 0 \<and> length d + 12 < 4294967296"
| "chunk_ok bs (Skip n) \<longleftrightarrow> n < 4294967296"

fun chunk_blocks :: "nat \<Rightarrow> chunk \<Rightarrow> nat" where
  "chunk_blocks bs (Raw d) = length d div bs"
| "chunk_blocks bs (Skip n) = n"

lemma chunk_bytes_nat:
  assumes "n < 4294967296"
  shows "unat (chunk_bytes (of_nat n) b) = n * unat b"
proof -
  have "unat (of_nat n :: u32) = n" using assms by (rule unat_of_nat_u32)
  then have u: "unat (ucast (of_nat n :: u32) :: u64) = n" by simp
  have "n * unat b \<le> 4294967295 * 4294967295"
    using assms unat_lt_u32 [of b] by (intro mult_le_mono) simp_all
  then show ?thesis unfolding chunk_bytes_def by (subst unat_mult_u64) (simp_all add: u)
qed

lemma process_chunk_run:
  assumes "chunk_ok (unat b) c" and "0 < unat b" and "unat b dvd 2147483648"
    and "sh_chunk_hdr_sz sh = 12" and "sh_blk_sz sh = b" and "us_in us = chunk_code (unat b) c @ rest" and "decoded us e ck" and "length z = unat b"
  shows "\<exists>us'. process_chunk z sh us = Inr (of_nat (chunk_blocks (unat b) c), us') \<and>
    us_in us' = rest \<and> decoded us' (e @ chunk_data (unat b) c) (ck @ chunk_seen z c)"
proof (cases c)
  case (Raw d)
  let ?bs = "unat b"
  let ?n = "length d div ?bs"
  let ?us = "us\<lparr>us_in := d @ rest\<rparr>"
  have "length d mod ?bs = 0" and l2: "length d + 12 < 4294967296" using assms(1) Raw by simp_all
  then have l1: "length d = ?n * ?bs" using div_mult_mod_eq [of "length d" ?bs] by linarith
  have "?n \<le> length d" by simp
  then have n: "?n < 4294967296" using l2 by linarith
  have "(of_nat (length d) :: u32) = of_nat (?n * ?bs)" using l1 by (rule arg_cong)
  then have sz: "(of_nat (CHUNK_HEADER_LEN + length d) :: u32) = 12 + of_nat ?n * b" by (simp add: CHUNK_HEADER_LEN_def)
  have h: "fread_exact CHUNK_HEADER_LEN us =
      Inr (chunk_header_bytes CHUNK_TYPE_RAW (of_nat ?n) (of_nat (CHUNK_HEADER_LEN + length d)), ?us)"
    by (rule fread_exact_run) (use assms(6) Raw in \<open>auto simp: chunk_header_bytes_def le_bytes16_def CHUNK_HEADER_LEN_def\<close>)
  have "process_chunk z sh us = process_raw_chunk (of_nat ?n) b ?us"
    unfolding process_chunk_def bind_ok [where m = "fread_exact CHUNK_HEADER_LEN" and s = us, OF h] Let_def chunk_header_fields sz
    by (simp add: prog_simps assms(4,5) CHUNK_HEADER_LEN_def)
  moreover have "unat (chunk_bytes (of_nat ?n) b) = length d" using chunk_bytes_nat [OF n] l1 by metis
  moreover have "decoded ?us e ck" using assms(7) by (simp add: decoded_def)
  ultimately show ?thesis
    using process_raw_chunk_run [of "of_nat ?n" b d ?us rest e ck] Raw by simp
next
  case (Skip n)
  let ?us = "us\<lparr>us_in := rest\<rparr>"
  have h: "fread_exact CHUNK_HEADER_LEN us =
      Inr (chunk_header_bytes CHUNK_TYPE_DONT_CARE (of_nat n) (of_nat CHUNK_HEADER_LEN), ?us)"
    by (rule fread_exact_run) (use assms(6) Skip in \<open>auto simp: chunk_header_bytes_def le_bytes16_def CHUNK_HEADER_LEN_def\<close>)
  have "process_chunk z sh us = process_skip_chunk z (of_nat n) b ?us"
    unfolding process_chunk_def bind_ok [where m = "fread_exact CHUNK_HEADER_LEN" and s = us, OF h] Let_def chunk_header_fields
    by (simp add: prog_simps assms(4,5) CHUNK_HEADER_LEN_def CHUNK_TYPE_RAW_def CHUNK_TYPE_DONT_CARE_def)
  moreover have "unat (chunk_bytes (of_nat n) b) = n * unat b" using assms(1) Skip by (intro chunk_bytes_nat) simp
  moreover have "decoded ?us e ck" using assms(7) by (simp add: decoded_def)
  ultimately show ?thesis
    using process_skip_chunk_run [OF _ assms(2,3) _ assms(8), of "of_nat n" n ?us e ck] Skip by simp
qed

section \<open>The whole file\<close>

definition total_blocks :: "nat \<Rightarrow> chunk list \<Rightarrow> nat" where
  "total_blocks bs cs = sum_list (map (chunk_blocks bs) cs)"

lemma process_chunks_run:
  fixes b :: u32
  assumes b: "0 < unat b" "unat b dvd 2147483648" and sh: "sh_chunk_hdr_sz sh = 12" "sh_blk_sz sh = b" and z: "length z = unat b"
  shows "\<forall>c \<in> set cs. chunk_ok (unat b) c \<Longrightarrow> n = i + length cs \<Longrightarrow> length cs < fuel \<Longrightarrow>
    us_in us = chunks_code (unat b) cs \<Longrightarrow> decoded us e ck \<Longrightarrow>
    \<exists>us'. loop fuel (\<lambda>(i, total_blocks).
                if i < n
                then bind (process_chunk z sh) (\<lambda>n. ret (Inr (Suc i, total_blocks + n)))
                else ret (Inl total_blocks)) (i, t) us = Inr (t + of_nat (total_blocks (unat b) cs), us') \<and>
      decoded us' (e @ chunks_data (unat b) cs) (ck @ chunks_seen z cs)"
proof (induction cs arbitrary: i t us e ck fuel)
  case Nil
  then show ?case by (cases fuel) (simp_all add: prog_simps total_blocks_def)
next
  case (Cons c cs)
  obtain f where f: "fuel = Suc f" using Cons.prems(3) by (cases fuel) simp_all
  obtain us1 where us1: "process_chunk z sh us = Inr (of_nat (chunk_blocks (unat b) c), us1)"
      "us_in us1 = chunks_code (unat b) cs" "decoded us1 (e @ chunk_data (unat b) c) (ck @ chunk_seen z c)"
    using process_chunk_run [OF _ b sh _ _ z, of c us "chunks_code (unat b) cs" e ck] Cons.prems by auto
  let ?t = "t + of_nat (chunk_blocks (unat b) c)"
  have "bind (process_chunk z sh) (\<lambda>n. ret (Inr (Suc i, t + n))) us = Inr (Inr (Suc i, ?t), us1)"
    by (simp add: bind_def us1(1) prog_simps)
  then have step: "loop fuel (\<lambda>(i, total_blocks).
                if i < n
                then bind (process_chunk z sh) (\<lambda>n. ret (Inr (Suc i, total_blocks + n)))
                else ret (Inl total_blocks)) (i, t) us =
      loop f (\<lambda>(i, total_blocks).
                if i < n
                then bind (process_chunk z sh) (\<lambda>n. ret (Inr (Suc i, total_blocks + n)))
                else ret (Inl total_blocks)) (Suc i, ?t) us1"
    using Cons.prems(2) by (simp add: f bind_def us1(1) ret_def)
  have "total_blocks (unat b) (c # cs) = chunk_blocks (unat b) c + total_blocks (unat b) cs"
    by (simp add: total_blocks_def)
  then show ?case
    unfolding step
    using Cons.IH [of "Suc i" f us1 "e @ chunk_data (unat b) c" "ck @ chunk_seen z c" ?t] Cons.prems us1 f by (simp add: add.assoc)
qed

lemma total_blocks_length:
  "0 < bs \<Longrightarrow> \<forall>c \<in> set cs. chunk_ok bs c \<Longrightarrow> total_blocks bs cs * bs = length (chunks_data bs cs)"
proof (induction cs)
  case (Cons c cs)
  then show ?case by (cases c) (simp_all add: total_blocks_def add_mult_distrib mod_eq_0_iff_dvd)
qed (simp add: total_blocks_def)

lemma simg2img_run:
  assumes b: "0 < unat b" "unat b dvd 2147483648" and ok: "\<forall>c \<in> set cs. chunk_ok (unat b) c"
    and n: "length cs < 4294967296" "length (chunks_data (unat b) cs) < 4294967296 * unat b"
    and h: "h = \<lparr>sh_magic = SPARSE_HEADER_MAGIC, sh_major_version = 1, sh_minor_version = v, sh_file_hdr_sz = 28,
      sh_chunk_hdr_sz = 12, sh_blk_sz = b, sh_total_blks = of_nat (length (chunks_data (unat b) cs) div unat b),
      sh_total_chunks = of_nat (length cs), sh_image_checksum = sparse_crc32 0 (chunks_data (unat b) cs)\<rparr>"
    and z: "length (malloc (unat b)) = unat b"
  shows "\<exists>us. us_out us = chunks_data (unat b) cs \<and>
    run_simg2img malloc (sparse_header_bytes h @ chunks_code (unat b) cs) =
      (if sparse_crc32 0 (chunks_seen (malloc (unat b)) cs) = sparse_crc32 0 (chunks_data (unat b) cs) then Inr ((), us) else Inl Exit_Failure)"
proof -
  let ?bs = "unat b" and ?D = "chunks_data (unat b) cs"
  let ?t = "total_blocks ?bs cs"
  let ?us0 = "\<lparr>us_in = chunks_code ?bs cs, us_out = [], us_pos = 0, us_crc32 = 0\<rparr>"
  have t: "?t * ?bs = length ?D" using total_blocks_length [OF b(1) ok] .
  then have td: "length ?D div ?bs = ?t" using b(1) by (metis div_mult_self_is_m)
  have tl: "?t < 4294967296" using n(2) t b(1) by (metis mult_less_cancel2)
  have r: "fread_exact SPARSE_HEADER_LEN \<lparr>us_in = sparse_header_bytes h @ chunks_code ?bs cs, us_out = [], us_pos = 0, us_crc32 = 0\<rparr>
      = Inr (sparse_header_bytes h, ?us0)"
    by (simp add: fread_exact_def prog_simps sparse_header_length SPARSE_HEADER_LEN_def)
  have un: "unat (sh_total_chunks h) = length cs" using n(1) by (simp add: h unat_of_nat_u32)
  have "decoded ?us0 [] []" by (simp add: decoded_def sparse_crc32_def)
  then obtain us where us: "loop (Suc (unat (sh_total_chunks h))) (\<lambda>(i, total_blocks).
                if i < unat (sh_total_chunks h)
                then bind (process_chunk (malloc ?bs) h) (\<lambda>n. ret (Inr (Suc i, total_blocks + n)))
                else ret (Inl total_blocks)) (0, 0) ?us0 = Inr (of_nat ?t, us)" "decoded us ?D (chunks_seen (malloc ?bs) cs)"
    using process_chunks_run [OF b _ _ z, of h cs "unat (sh_total_chunks h)" 0 "Suc (unat (sh_total_chunks h))" ?us0 "[]" "[]" 0] ok un
    by (auto simp: h)
  have cb: "unat (chunk_bytes (of_nat ?t) b) = length ?D" using chunk_bytes_nat [OF tl] t by simp
  have f: "sh_magic h = SPARSE_HEADER_MAGIC" "sh_major_version h = 1" "sh_file_hdr_sz h = 28" "sh_blk_sz h = b"
      "sh_total_blks h = of_nat ?t" "sh_image_checksum h = sparse_crc32 0 ?D"
    by (simp_all add: h td)
  let ?us = "us\<lparr>us_out := take (length ?D) (us_out us) @ replicate (length ?D - length (us_out us)) 0\<rparr>"
  have "us_out ?us = ?D" "us_crc32 us = sparse_crc32 0 (chunks_seen (malloc ?bs) cs)" using us(2) by (simp_all add: decoded_def)
  moreover have "run_simg2img malloc (sparse_header_bytes h @ chunks_code ?bs cs) =
      (if us_crc32 us = sparse_crc32 0 ?D then Inr ((), ?us) else Inl Exit_Failure)"
    unfolding run_simg2img_def simg2img_def bind_ok [where m = "fread_exact SPARSE_HEADER_LEN", OF r] sparse_header_parse Let_def f
    using us(1) cb
    by (simp add: prog_simps SPARSE_HEADER_LEN_def bind_def ftruncate_out_def del: loop.simps)
  ultimately show ?thesis by (intro exI [of _ ?us]) simp
qed

end
