(* ===== verification/Image_Writer.thy ===== *)
theory Image_Writer
  imports Sparse_Write Image
begin

text \<open>
  What \<open>write_ext4_image\<close> writes: the pieces of an image (the first block, the group descriptors, the
  queued blocks), and the contract between the part of the code that finds the pieces and the part
  that puts a piece into the output file, the locale \<open>image_writer\<close>.
\<close>

section \<open>The image of a list of pieces\<close>

text \<open>A piece is an offset and the bytes there; what no piece covers is zero.\<close>

definition image_of :: "nat \<Rightarrow> (nat \<times> u8 list) list \<Rightarrow> u8 list" where
  "image_of len ps = foldl (\<lambda>im (off, d). put_bytes im off d) (replicate len 0) ps"

text \<open>The pieces start at block boundaries from \<open>cur\<close> on, in order, without sharing a block.\<close>

fun pieces_ok :: "nat \<Rightarrow> nat \<Rightarrow> nat \<Rightarrow> (nat \<times> u8 list) list \<Rightarrow> bool" where
  "pieces_ok bs len cur [] \<longleftrightarrow> cur \<le> len"
| "pieces_ok bs len cur ((off, d) # ps) \<longleftrightarrow> cur \<le> off \<and> off mod bs = 0 \<and> length d + bs < 2147483648 \<and>
     pieces_ok bs len (off + round_up bs (length d)) ps"

fun pieces_end :: "nat \<Rightarrow> nat \<Rightarrow> (nat \<times> u8 list) list \<Rightarrow> nat" where
  "pieces_end bs cur [] = cur"
| "pieces_end bs cur ((off, d) # ps) = pieces_end bs (off + round_up bs (length d)) ps"

lemma pieces_ok_le: "pieces_ok bs len cur ps \<Longrightarrow> cur \<le> len"
proof (induction ps arbitrary: cur)
  case (Cons p ps)
  obtain off d where p: "p = (off, d)" by fastforce
  have "off + round_up bs (length d) \<le> len" using Cons by (simp add: p)
  then show ?case using Cons.prems by (simp add: p)
qed simp

lemma pieces_end_le: "pieces_ok bs len cur ps \<Longrightarrow> pieces_end bs cur ps \<le> len"
  by (induction bs cur ps rule: pieces_end.induct) simp_all

lemma put_piece:
  assumes "length im \<le> off" "off + r \<le> len" "length d \<le> r"
  shows "put_bytes (im @ replicate (len - length im) 0) off d =
    (im @ replicate (off - length im) 0 @ d @ replicate (r - length d) 0) @ replicate (len - (off + r)) 0"
proof -
  have "min (off - length im) (len - length im) = off - length im" using assms by simp
  moreover have "len - length im - (off + length d - length im) = (r - length d) + (len - (off + r))"
    using assms by simp
  ultimately show ?thesis using assms(1) by (simp add: put_bytes_def replicate_add)
qed

lemma pieces_end_append [simp]: "pieces_end bs cur (ps @ [(off, d)]) = off + round_up bs (length d)"
  by (induction bs cur ps rule: pieces_end.induct) simp_all

lemma image_of_append [simp]: "image_of len (ps @ [(off, d)]) = put_bytes (image_of len ps) off d"
  by (simp add: image_of_def)

section \<open>The pieces of the queue\<close>

text \<open>What the queue holds for one data block: its offset in the image and its bytes.\<close>

definition db_piece :: "(u8 list \<Rightarrow> u8 list option) \<Rightarrow> world \<Rightarrow> data_block \<Rightarrow> (nat \<times> u8 list) option" where
  "db_piece files s db =
     (let off = unat (db_block db) * unat (info_block_size (w_info s)); len = unat (db_len db) in
      case db_source db of
        Db_Data p \<Rightarrow> (case load p len s of Inl _ \<Rightarrow> None | Inr (d, _) \<Rightarrow> Some (off, d))
      | Db_File fn offset \<Rightarrow> (case files fn of None \<Rightarrow> None
          | Some content \<Rightarrow> (case sys_mmap content (unat offset) len of
              Mapped d \<Rightarrow> if off + len < unat (info_len (w_info s)) then Some (off, d) else None
            | _ \<Rightarrow> None)))"

lemma load_run: "load p n s = Inr (d, s') \<Longrightarrow> s' = s \<and> length d = n"
  by (auto simp: load_def split: option.splits if_splits)

text \<open>Writing changes the output file only.\<close>

definition same_but_out :: "world \<Rightarrow> world \<Rightarrow> bool" where
  "same_but_out s s' \<longleftrightarrow> s' = s\<lparr>w_out := w_out s'\<rparr>"

lemma same_but_out_frame:
  assumes "same_but_out s s'"
  shows "w_info s' = w_info s" "w_mem s' = w_mem s" "w_aux s' = w_aux s" "w_queue s' = w_queue s"
    "w_sparse_header s' = w_sparse_header s"
proof -
  have e: "s' = s\<lparr>w_out := w_out s'\<rparr>" using assms by (simp only: same_but_out_def)
  show "w_info s' = w_info s" by (subst e) simp
  show "w_mem s' = w_mem s" by (subst e) simp
  show "w_aux s' = w_aux s" by (subst e) simp
  show "w_queue s' = w_queue s" by (subst e) simp
  show "w_sparse_header s' = w_sparse_header s" by (subst e) simp
qed

lemma same_but_out_refl [simp]: "same_but_out s s"
  by (simp add: same_but_out_def)

lemma same_but_out_trans [trans]: "same_but_out s t \<Longrightarrow> same_but_out t u \<Longrightarrow> same_but_out s u"
  unfolding same_but_out_def by (metis world.update_convs(11) world.surjective)

lemma only_out_same: "only_out n s s' \<Longrightarrow> same_but_out s s'"
  by (simp add: only_out_def same_but_out_def)

lemma load_frame: "w_mem s' = w_mem s \<Longrightarrow> load p n s = Inr (d, s) \<Longrightarrow> load p n s' = Inr (d, s')"
  by (auto simp: load_def split: option.splits if_splits)

lemma db_piece_frame:
  assumes "w_info s' = w_info s" and "w_mem s' = w_mem s"
  shows "db_piece files s' db = db_piece files s db"
  unfolding db_piece_def load_def Let_def assms by (simp split: db_source.split option.split)

lemma mmap_length: "sys_mmap content off len = Mapped d \<Longrightarrow> length d = len"
  by (auto simp: sys_mmap_def Let_def split: if_splits)

lemma db_piece_length: "db_piece files s db = Some (off, d) \<Longrightarrow>
    length d = unat (db_len db) \<and> off = unat (db_block db) * unat (info_block_size (w_info s))"
  by (auto simp: db_piece_def Let_def split: db_source.splits sum.splits option.splits mapping.splits if_splits
      dest: load_run mmap_length)

section \<open>One piece\<close>

lemma scast_len_u64: "unat (len :: u32) < 2147483648 \<Longrightarrow> (scast len :: u64) = of_nat (unat len)"
  using sint_u32 [of len] by (simp add: scast_eq del: of_nat_unat)

lemma unat_lt_u64: "unat (a :: u64) < 18446744073709551616"
  using unsigned_less [of a] by simp

lemma sint_u64: "unat w < 9223372036854775808 \<Longrightarrow> sint (w :: u64) = int (unat w)"
proof -
  assume "unat w < 9223372036854775808"
  then have "int (unat w) < 9223372036854775808" by linarith
  then have "uint w < 2 ^ 63" by simp
  moreover have "- (2 ^ 63) \<le> uint w" by (rule order_trans [of _ 0]) simp_all
  ultimately show ?thesis using signed_take_bit_int_eq_self [of 63 "uint w"] by (simp add: sint_uint)
qed

lemma write_data_block_bytes:
  assumes "load p (unat len) s = Inr (d, s)" and "unat len < 2147483648"
    and "off + unat len \<le> unat (info_len (w_info s))"
  shows "write_data_block (of_nat off) p len s = write_data_bytes (of_nat off) d s"
proof -
  have "off + unat len < 18446744073709551616"
    using assms(3) unat_lt_u64 [of "info_len (w_info s)"] by linarith
  then have "unat ((of_nat off :: u64) + scast len) = off + unat len"
    unfolding scast_len_u64 [OF assms(2)] of_nat_add [symmetric] by (rule unat_of_nat_u64)
  then have "\<not> info_len (w_info s) < of_nat off + scast len" using assms(3) by (simp add: word_less_nat_alt)
  then show ?thesis by (simp add: write_data_block_def prog_simps bind_def assms(1))
qed

lemma write_data_file_bytes:
  assumes "files fn = Some content" "sys_mmap content (unat offset) (unat len) = Mapped d" and "unat len < 2147483648"
    and "off + unat len < unat (info_len (w_info s))"
  shows "write_data_file files (of_nat off) fn offset len s = write_data_bytes (of_nat off) d s"
proof -
  have "off + unat len < 18446744073709551616"
    using assms(4) unat_lt_u64 [of "info_len (w_info s)"] by linarith
  then have "unat ((of_nat off :: u64) + scast len) = off + unat len"
    unfolding scast_len_u64 [OF assms(3)] of_nat_add [symmetric] by (rule unat_of_nat_u64)
  then have "\<not> info_len (w_info s) \<le> of_nat off + scast len" using assms(4) by (simp add: word_le_nat_alt)
  then show ?thesis by (simp add: write_data_file_def prog_simps bind_def assms(1,2))
qed

text \<open>One queued block: the callback writes its piece.\<close>

lemma write_db:
  assumes "db_piece files s db = Some (off, d)" and "unat (db_len db) < 2147483648"
    and "off + unat (db_len db) \<le> unat (info_len (w_info s))"
  shows "(case db_source db of
                Db_File fn offset \<Rightarrow> write_data_file files (ucast (db_block db) * ucast (info_block_size (w_info s))) fn offset (db_len db)
              | Db_Data data \<Rightarrow> write_data_block (ucast (db_block db) * ucast (info_block_size (w_info s))) data (db_len db)) s =
    write_data_bytes (of_nat off) d s"
proof -
  have off: "off = unat (db_block db) * unat (info_block_size (w_info s))" using db_piece_length [OF assms(1)] by simp
  have o: "ucast (db_block db) * ucast (info_block_size (w_info s)) = (of_nat off :: u64)"
    unfolding off by (simp add: unsigned_of_nat)
  show ?thesis
  proof (cases "db_source db")
    case (Db_Data p)
    then have "load p (unat (db_len db)) s = Inr (d, s)"
      using assms(1) load_run [of p "unat (db_len db)" s] by (auto simp: db_piece_def Let_def split: sum.splits)
    then show ?thesis unfolding o Db_Data using write_data_block_bytes [OF _ assms(2,3)] by simp
  next
    case (Db_File f offset)
    then obtain content where "files f = Some content" "sys_mmap content (unat offset) (unat (db_len db)) = Mapped d"
        "off + unat (db_len db) < unat (info_len (w_info s))"
      using assms(1) by (auto simp: db_piece_def Let_def split: option.splits mapping.splits if_splits)
    then show ?thesis unfolding o Db_File using write_data_file_bytes [OF _ _ assms(2)] by simp
  qed
qed

lemma db_rounded:
  assumes b: "b = (2 :: u32) ^ k" "k < 31" and l: "0 < unat len" "unat len + 2 ^ k < 2147483648"
    and nb: "unat nb * 2 ^ k + round_up (2 ^ k) (unat len) \<le> bound" "bound < 4294967296 * 2 ^ k"
  shows "unat (nb + DIV_ROUND_UP len b - 1) * 2 ^ k \<le> unat nb * 2 ^ k + round_up (2 ^ k) (unat len)"
proof -
  have ub: "unat b = 2 ^ k" using b by (simp add: unat_two_power)
  let ?n = "(unat len + 2 ^ k - 1) div 2 ^ k"
  have R: "round_up (2 ^ k) (unat len) = ?n * 2 ^ k" by (simp add: round_up_def mult.commute)
  have "unat (len + b) = unat len + 2 ^ k" using unat_add_u32 [of len b] l ub by simp
  moreover have "unat (len + b - 1) = unat (len + b) - 1"
    using unat_sub_le [of 1 "len + b"] calculation l(1) by (simp add: word_le_nat_alt)
  ultimately have n: "unat (DIV_ROUND_UP len b) = ?n" by (simp add: DIV_ROUND_UP_def unat_div ub)
  have "(unat nb + ?n) * 2 ^ k < 4294967296 * 2 ^ k" unfolding add_mult_distrib using nb R by linarith
  then have s: "unat nb + ?n < 4294967296" by (metis mult_less_cancel2)
  then have u: "unat (nb + DIV_ROUND_UP len b) = unat nb + ?n" using unat_add_u32 [of nb "DIV_ROUND_UP len b"] by (simp add: n)
  have "2 ^ k \<le> unat len + 2 ^ k - 1" using l(1) by simp
  then have "2 ^ k div 2 ^ k \<le> ?n" by (rule div_le_mono)
  then have "1 \<le> ?n" by simp
  then have "unat (nb + DIV_ROUND_UP len b - 1) = unat nb + ?n - 1"
    using unat_sub_le [of 1 "nb + DIV_ROUND_UP len b"] u by (simp add: word_le_nat_alt)
  then show ?thesis unfolding R by (simp add: add_mult_distrib [symmetric])
qed

section \<open>The first block\<close>

text \<open>The first block holds the superblock at byte 1024.\<close>

definition first_piece :: "nat \<Rightarrow> u8 list \<Rightarrow> nat \<times> u8 list" where
  "first_piece bs sb = (if 1024 < bs then (0, take bs (replicate 1024 0 @ sb @ replicate 2048 0)) else (1024, sb))"

definition desc_offset :: "world \<Rightarrow> u64" where
  "desc_offset s = ucast (aux_first_data_block (w_aux s) + 1) * ucast (info_block_size (w_info s))"

definition image_pieces :: "(u8 list \<Rightarrow> u8 list option) \<Rightarrow> world \<Rightarrow> (nat \<times> u8 list) list option" where
  "image_pieces files s =
     (case load (aux_sb (w_aux s)) 1024 s of Inl _ \<Rightarrow> None | Inr (sb, _) \<Rightarrow>
     (case load (aux_bg_desc (w_aux s)) (unat (aux_bg_desc_blocks (w_aux s) * info_block_size (w_info s))) s of
        Inl _ \<Rightarrow> None | Inr (desc, _) \<Rightarrow>
     map_option (\<lambda>ps. first_piece (unat (info_block_size (w_info s))) sb # (unat (desc_offset s), desc) # ps)
       (those (map (db_piece files s) (w_queue s)))))"

lemma those_map: "those xs = Some ys \<longleftrightarrow> xs = map Some ys"
  by (induction xs arbitrary: ys) (auto split: option.splits)

lemma load_cases:
  obtains e where "load p n s = Inl e" | d where "load p n s = Inr (d, s)"
  using load_run [of p n s] by (cases "load p n s") auto

lemma image_pieces_iff:
  "image_pieces files s = Some ps \<longleftrightarrow> (\<exists>sb desc qs.
     load (aux_sb (w_aux s)) 1024 s = Inr (sb, s) \<and>
     load (aux_bg_desc (w_aux s)) (unat (aux_bg_desc_blocks (w_aux s) * info_block_size (w_info s))) s = Inr (desc, s) \<and>
     map (db_piece files s) (w_queue s) = map Some qs \<and>
     ps = first_piece (unat (info_block_size (w_info s))) sb # (unat (desc_offset s), desc) # qs)"
  by (rule load_cases [of "aux_sb (w_aux s)" 1024 s];
      rule load_cases [of "aux_bg_desc (w_aux s)" "unat (aux_bg_desc_blocks (w_aux s) * info_block_size (w_info s))" s])
    (auto simp: image_pieces_def those_map)

text \<open>The stack buffer of the first block takes a fresh number and changes no other buffer.\<close>

definition with_buffer :: "world \<Rightarrow> u8 list option \<Rightarrow> nat \<Rightarrow> world" where
  "with_buffer s m n = s\<lparr>w_mem := (w_mem s)(w_next s := m), w_next := n\<rparr>"

lemma with_buffer_simps [simp]:
  "w_info (with_buffer s m n) = w_info s" "w_aux (with_buffer s m n) = w_aux s" "w_out (with_buffer s m n) = w_out s"
  "w_queue (with_buffer s m n) = w_queue s" "w_sparse_header (with_buffer s m n) = w_sparse_header s"
  by (simp_all add: with_buffer_def)

lemma load_with_buffer:
  "w_mem s (w_next s) = None \<Longrightarrow> load p l s = Inr (d, s) \<Longrightarrow> load p l (with_buffer s m n) = Inr (d, with_buffer s m n)"
  by (auto simp: load_def with_buffer_def split: option.splits if_splits)

lemma db_piece_with_buffer:
  assumes "w_mem s (w_next s) = None" and "db_piece files s db = Some x"
  shows "db_piece files (with_buffer s m n) db = Some x"
proof (cases "db_source db")
  case (Db_Data p)
  then obtain d where "load p (unat (db_len db)) s = Inr (d, s)" "x = (unat (db_block db) * unat (info_block_size (w_info s)), d)"
    using assms(2) by (cases rule: load_cases [of p "unat (db_len db)" s]) (auto simp: db_piece_def Let_def)
  then show ?thesis using load_with_buffer [OF assms(1), of p _ d m n] Db_Data by (simp add: db_piece_def)
next
  case (Db_File f offset)
  then show ?thesis using assms(2) unfolding db_piece_def Let_def with_buffer_simps by simp
qed

lemma write_first_run:
  assumes b: "info_block_size (w_info s) = 2 ^ k" "10 \<le> k" "k \<le> 12" and fresh: "w_mem s (w_next s) = None"
    and sb: "load (aux_sb (w_aux s)) 1024 s = Inr (sb, s)"
    and len: "fst (first_piece (2 ^ k) sb) + 2 ^ k \<le> unat (info_len (w_info s))"
  shows "\<exists>m n. write_first_block s =
    write_data_bytes (of_nat (fst (first_piece (2 ^ k) sb))) (snd (first_piece (2 ^ k) sb)) (with_buffer s m n)"
proof (cases "k = 10")
  case True
  have "write_first_block s = write_data_block (of_nat 1024) (aux_sb (w_aux s)) 1024 s"
    using b True by (simp add: write_first_block_def prog_simps)
  also have "\<dots> = write_data_bytes (of_nat 1024) sb s"
    using sb len True by (intro write_data_block_bytes) (simp_all add: first_piece_def)
  also have "write_data_bytes (of_nat 1024) sb s = write_data_bytes (of_nat 1024) sb (with_buffer s None (w_next s))"
    using fresh by (simp add: with_buffer_def fun_upd_idem)
  finally show ?thesis using True by (intro exI [of _ None] exI [of _ "w_next s"]) (simp add: first_piece_def)
next
  case False
  then have k: "k = 11 \<or> k = 12" using b by auto
  let ?d = "replicate 1024 0 @ sb @ replicate 2048 0" and ?p = "(w_next s, 0)"
  let ?t = "with_buffer s (Some ?d) (Suc (w_next s))"
  have lsb: "length sb = 1024" using load_run [OF sb] by simp
  have ub: "unat (info_block_size (w_info s)) = 2 ^ k" using k b by auto
  have c: "calloc 4096 s = Inr (?p, with_buffer s (Some (replicate 4096 0)) (Suc (w_next s)))"
    by (simp add: calloc_def with_buffer_def Let_def)
  have st: "store (ptr_add ?p 1024) sb (with_buffer s (Some (replicate 4096 0)) (Suc (w_next s))) = Inr ((), ?t)"
    using lsb by (simp add: store_def ptr_add_def with_buffer_def upd_buf_def put_bytes_def)
  have "write_first_block s = write_data_block 0 ?p (info_block_size (w_info s)) ?t"
    using b k st load_with_buffer [OF fresh sb]
    by (auto simp: write_first_block_def prog_simps bind_def c)
  also have "\<dots> = write_data_bytes (of_nat 0) (take (2 ^ k) ?d) ?t"
    using write_data_block_bytes [of ?p "info_block_size (w_info s)" ?t "take (2 ^ k) ?d" 0] len k ub lsb
    by (auto simp: first_piece_def load_def with_buffer_def get_bytes_def)
  finally show ?thesis using k by (intro exI) (auto simp: first_piece_def)
qed

lemma sq_assoc: "sq (sq m n) k = sq m (sq n k)"
  by (rule ext) (simp add: sq_def bind_def split: sum.splits prod.splits)

section \<open>An image ready to be written\<close>

text \<open>The pieces are known, whole blocks apart and in order, inside the file system; the next buffer
  number is free.\<close>

definition image_ready :: "(u8 list \<Rightarrow> u8 list option) \<Rightarrow> nat \<Rightarrow> world \<Rightarrow> (nat \<times> u8 list) list \<Rightarrow> bool" where
  "image_ready files k s ps \<longleftrightarrow>
     (let len = unat (info_len (w_info s)) in
      info_block_size (w_info s) = 2 ^ k \<and> 10 \<le> k \<and> k \<le> 12 \<and> len mod 2 ^ k = 0 \<and> len < 4294967296 * 2 ^ k \<and>
      w_mem s (w_next s) = None \<and> image_pieces files s = Some ps \<and> pieces_ok (2 ^ k) len 0 ps \<and>
      list_all (\<lambda>db. 0 < db_len db) (w_queue s))"

lemma image_readyD:
  assumes "image_ready files k s ps"
  shows "info_block_size (w_info s) = 2 ^ k" "10 \<le> k" "k \<le> 12" "k < 31" "unat (info_block_size (w_info s)) = 2 ^ k"
    "unat (info_len (w_info s)) mod 2 ^ k = 0" "unat (info_len (w_info s)) < 4294967296 * 2 ^ k"
    "pieces_ok (2 ^ k) (unat (info_len (w_info s))) 0 ps"
  using assms by (simp_all add: image_ready_def Let_def unat_two_power)

text \<open>Opening the output file leaves the pieces where they are.\<close>

lemma image_ready_pieces:
  assumes "image_ready files k s ps"
    and "w_info s' = w_info s" "w_aux s' = w_aux s" "w_mem s' = w_mem s" "w_next s' = w_next s" "w_queue s' = w_queue s"
  shows "\<exists>sb desc qs. load (aux_sb (w_aux s')) 1024 s' = Inr (sb, s') \<and>
    load (aux_bg_desc (w_aux s')) (unat (aux_bg_desc_blocks (w_aux s') * info_block_size (w_info s'))) s' = Inr (desc, s') \<and>
    map (db_piece files s') (w_queue s') = map Some qs \<and> (\<forall>db \<in> set (w_queue s'). 0 < db_len db) \<and>
    ps = first_piece (2 ^ k) sb # (unat (desc_offset s'), desc) # qs \<and> w_mem s' (w_next s') = None"
proof -
  have pc: "image_pieces files s = Some ps" and m: "w_mem s (w_next s) = None" "\<forall>db \<in> set (w_queue s). 0 < db_len db"
    using assms(1) by (simp_all add: image_ready_def Let_def list_all_iff)
  have e: "db_piece files s' = db_piece files s" by (rule ext) (rule db_piece_frame [OF assms(2,4)])
  have d: "desc_offset s' = desc_offset s" by (simp only: desc_offset_def assms)
  show ?thesis
    using pc [unfolded image_pieces_iff] load_frame [OF assms(4)] m
    unfolding assms(2-) e d image_readyD(5) [OF assms(1)] by blast
qed

lemma image_ready_pos:
  assumes "image_ready files k s ps"
  shows "0 < unat (info_len (w_info s))"
proof -
  note b = image_readyD [OF assms]
  obtain sb desc qs where sb: "load (aux_sb (w_aux s)) 1024 s = Inr (sb, s)"
      and ps: "ps = first_piece (2 ^ k) sb # (unat (desc_offset s), desc) # qs"
    using image_ready_pieces [OF assms] by blast
  obtain off d where p: "first_piece (2 ^ k) sb = (off, d)" by fastforce
  have "0 < length d" using load_run [OF sb] p b(2) by (auto simp: first_piece_def split: if_splits)
  moreover have "off + round_up (2 ^ k) (length d) \<le> unat (info_len (w_info s))"
    using b(8) pieces_ok_le [of "2 ^ k" _ _ "(unat (desc_offset s), desc) # qs"] by (simp add: ps p)
  moreover have "length d \<le> round_up (2 ^ k) (length d)" using round_up_bounds [of "2 ^ k" "length d"] by simp
  ultimately show ?thesis by linarith
qed

lemma small_len: "k \<le> 12 \<Longrightarrow> len < 4294967296 * 2 ^ k \<Longrightarrow> (len :: nat) < 9223372036854775808"
proof -
  assume "k \<le> 12" and l: "len < 4294967296 * 2 ^ k"
  then have "(2 :: nat) ^ k \<le> 2 ^ 12" by (intro power_increasing) simp_all
  then show ?thesis using l by simp
qed

section \<open>The contract of a writer\<close>

text \<open>\<open>at_piece cur n ps s\<close>: the pieces \<open>ps\<close> are in the file, the next piece may start at \<open>cur\<close>, and
  there is room for \<open>n\<close> more.\<close>

locale image_writer =
  fixes k len :: nat and at_piece :: "nat \<Rightarrow> nat \<Rightarrow> (nat \<times> u8 list) list \<Rightarrow> world \<Rightarrow> bool"
  assumes frame: "w_out s' = w_out s \<Longrightarrow> w_info s' = w_info s \<Longrightarrow> at_piece cur n ps s' = at_piece cur n ps s"
    and info: "at_piece cur n ps s \<Longrightarrow> info_block_size (w_info s) = 2 ^ k \<and> 10 \<le> k \<and> k \<le> 12 \<and>
      unat (info_len (w_info s)) = len \<and> len < 4294967296 * 2 ^ k"
    and piece: "at_piece cur (Suc n) ps s \<Longrightarrow> cur \<le> off \<Longrightarrow> off mod 2 ^ k = 0 \<Longrightarrow> length d + 2 ^ k < 2147483648 \<Longrightarrow>
      off + round_up (2 ^ k) (length d) \<le> len \<Longrightarrow>
      \<exists>s'. write_data_bytes (of_nat off) d s = Inr ((), s') \<and>
        at_piece (off + round_up (2 ^ k) (length d)) n (ps @ [(off, d)]) s' \<and> same_but_out s s'"
begin

lemma visit_run:
  "map (db_piece files s) q = map Some qs \<Longrightarrow> \<forall>db \<in> set q. 0 < db_len db \<Longrightarrow>
    at_piece cur (length qs + m) ps s \<Longrightarrow> pieces_ok (2 ^ k) len cur qs \<Longrightarrow> unat last_block * 2 ^ k \<le> cur \<Longrightarrow>
    \<exists>s'. visit_data_blocks write_data_block (write_data_file files) last_block q s = Inr ((), s') \<and>
      at_piece (pieces_end (2 ^ k) cur qs) m (ps @ qs) s' \<and> same_but_out s s'"
proof (induction q arbitrary: s qs ps cur last_block)
  case Nil
  then show ?case by (intro exI [of _ s]) (auto simp: prog_simps)
next
  case (Cons db q)
  let ?bs = "(2 :: nat) ^ k"
  have b: "info_block_size (w_info s) = 2 ^ k" "k < 31" and len: "unat (info_len (w_info s)) = len" "len < 4294967296 * ?bs"
    using info [OF Cons.prems(3)] by simp_all
  obtain off d qs' where qs: "qs = (off, d) # qs'" "db_piece files s db = Some (off, d)" "map (db_piece files s) q = map Some qs'"
    using Cons.prems(1) by (cases qs) auto
  let ?R = "round_up ?bs (length d)"
  have ub: "unat (info_block_size (w_info s)) = ?bs" using b by (simp add: unat_two_power)
  then have nz: "info_block_size (w_info s) \<noteq> 0" by (metis power_not_zero unat_0 zero_neq_numeral)
  have dl: "length d = unat (db_len db)" "off = unat (db_block db) * ?bs" using db_piece_length [OF qs(2)] ub by simp_all
  have ok: "cur \<le> off" "off mod ?bs = 0" "length d + ?bs < 2147483648" "pieces_ok ?bs len (off + ?R) qs'"
    using Cons.prems(4) by (simp_all add: qs)
  note le = pieces_ok_le [OF ok(4)]
  have at: "at_piece cur (Suc (length qs' + m)) ps s" using Cons.prems(3) by (simp add: qs)
  obtain s1 where s1: "write_data_bytes (of_nat off) d s = Inr ((), s1)"
      "at_piece (off + ?R) (length qs' + m) (ps @ [(off, d)]) s1" "same_but_out s s1"
    using piece [OF at ok(1-3) le] by blast
  let ?last = "db_block db + DIV_ROUND_UP (db_len db) (info_block_size (w_info s)) - 1"
  have "unat last_block * ?bs \<le> off" using Cons.prems(5) ok(1) by linarith
  then have "unat last_block \<le> unat (db_block db)" unfolding dl by simp
  then have order: "\<not> db_block db < last_block" by (simp add: word_less_nat_alt)
  have last: "unat ?last * ?bs \<le> off + ?R"
    using db_rounded [OF b, of "db_len db" "db_block db" len] Cons.prems(2) ok(3) le dl len(2)
    by (simp add: word_less_nat_alt)
  have "off + unat (db_len db) \<le> unat (info_len (w_info s))"
    using le round_up_bounds [of ?bs "length d"] dl len(1) by simp
  then have wr: "(case db_source db of
                Db_File fn offset \<Rightarrow> write_data_file files (ucast (db_block db) * ucast (info_block_size (w_info s))) fn offset (db_len db)
              | Db_Data data \<Rightarrow> write_data_block (ucast (db_block db) * ucast (info_block_size (w_info s))) data (db_len db)) s =
      Inr ((), s1)"
    using write_db [OF qs(2)] ok(3) dl s1(1) by simp
  have run: "visit_data_blocks write_data_block (write_data_file files) last_block (db # q) s =
      visit_data_blocks write_data_block (write_data_file files) ?last q s1"
    using order nz wr by (simp add: prog_simps bind_def Let_def)
  have "db_piece files s1 = db_piece files s"
    by (rule ext) (intro db_piece_frame same_but_out_frame [OF s1(3)])
  then show ?case
    using Cons.IH [OF _ _ s1(2) ok(4) last] qs(3) Cons.prems(2) same_but_out_trans [OF s1(3)]
    unfolding run by (auto simp: qs)
qed

text \<open>The first two pieces, written by their own calls, then the queue.\<close>

lemma body_run:
  assumes at: "at_piece 0 (Suc (Suc (length qs + m))) [] s" and fresh: "w_mem s (w_next s) = None"
    and sb: "load (aux_sb (w_aux s)) 1024 s = Inr (sb, s)"
    and desc: "load (aux_bg_desc (w_aux s)) (unat (aux_bg_desc_blocks (w_aux s) * info_block_size (w_info s))) s = Inr (desc, s)"
    and q: "map (db_piece files s) (w_queue s) = map Some qs" "\<forall>db \<in> set (w_queue s). 0 < db_len db"
    and ps: "ps = first_piece (2 ^ k) sb # (unat (desc_offset s), desc) # qs"
    and ok: "pieces_ok (2 ^ k) len 0 ps"
  shows "\<exists>b n t. sq write_first_block (sq (write_data_block (desc_offset s) (aux_bg_desc (w_aux s))
      (aux_bg_desc_blocks (w_aux s) * info_block_size (w_info s)))
      (for_each_data_block write_data_block (write_data_file files))) s = Inr ((), t) \<and>
    at_piece (pieces_end (2 ^ k) 0 ps) m ps t \<and> same_but_out (with_buffer s b n) t"
proof -
  let ?bs = "(2 :: nat) ^ k" and ?D = "unat (desc_offset s)"
  obtain off d where p: "first_piece ?bs sb = (off, d)" by fastforce
  let ?R = "round_up ?bs (length d)" and ?R2 = "round_up ?bs (length desc)"
  have b: "info_block_size (w_info s) = 2 ^ k" "10 \<le> k" "k \<le> 12" and len: "unat (info_len (w_info s)) = len"
    using info [OF at] by simp_all
  have o1: "off mod ?bs = 0" "length d + ?bs < 2147483648" and r1: "pieces_ok ?bs len (off + ?R) ((?D, desc) # qs)"
    using ok by (simp_all add: ps p)
  have o2: "off + ?R \<le> ?D" "?D mod ?bs = 0" "length desc + ?bs < 2147483648" and r2: "pieces_ok ?bs len (?D + ?R2) qs"
    using r1 by simp_all
  note le1 = pieces_ok_le [OF r1] and le2 = pieces_ok_le [OF r2]
  have "k = 10 \<or> k = 11 \<or> k = 12" using b by auto
  then have "length d = ?bs" using load_run [OF sb] p by (auto simp: first_piece_def split: if_splits)
  then have fl: "off + ?bs \<le> unat (info_len (w_info s))"
    using le1 round_up_bounds [of ?bs "length d"] len(1) by auto
  obtain m' n where mn: "write_first_block s = write_data_bytes (of_nat off) d (with_buffer s m' n)"
    using write_first_run [OF b fresh sb] fl p by auto
  let ?s = "with_buffer s m' n"
  have at': "at_piece 0 (Suc (Suc (length qs + m))) [] ?s" using at by (simp add: frame [of ?s s])
  obtain s1 where s1: "write_data_bytes (of_nat off) d ?s = Inr ((), s1)"
      "at_piece (off + ?R) (Suc (length qs + m)) [(off, d)] s1" "same_but_out ?s s1"
    using piece [OF at' _ o1 le1] by auto
  obtain s2 where s2: "write_data_bytes (of_nat ?D) desc s1 = Inr ((), s2)"
      "at_piece (?D + ?R2) (length qs + m) [(off, d), (?D, desc)] s2" "same_but_out s1 s2"
    using piece [OF s1(2) o2 le2] by auto
  have w2: "same_but_out ?s s2" by (rule same_but_out_trans [OF s1(3) s2(3)])
  let ?dl = "aux_bg_desc_blocks (w_aux s) * info_block_size (w_info s)"
  have "load (aux_bg_desc (w_aux s)) (unat ?dl) s1 = Inr (desc, s1)"
    by (rule load_frame [OF same_but_out_frame(2) [OF s1(3)] load_with_buffer [OF fresh desc]])
  then have "write_data_block (of_nat ?D) (aux_bg_desc (w_aux s)) ?dl s1 = write_data_bytes (of_nat ?D) desc s1"
    using load_run [OF desc] o2(3) le2 round_up_bounds [of ?bs "length desc"] len same_but_out_frame(1) [OF s1(3)]
    by (intro write_data_block_bytes) auto
  then have r: "sq write_first_block (sq (write_data_block (desc_offset s) (aux_bg_desc (w_aux s)) ?dl) X) s = X s2" for X :: "unit wprog"
    using s2(1) mn s1(1) by (simp add: sq_def bind_def)
  have "map (db_piece files s2) (w_queue s) = map Some qs"
    using q(1) db_piece_with_buffer [of s files _ _ m' n] fresh db_piece_frame [OF same_but_out_frame(1,2) [OF w2], of files]
    by (auto simp: list_eq_iff_nth_eq)
  then obtain t where t: "visit_data_blocks write_data_block (write_data_file files) 0 (w_queue s) s2 = Inr ((), t)"
      "at_piece (pieces_end ?bs (?D + ?R2) qs) m ([(off, d), (?D, desc)] @ qs) t" "same_but_out s2 t"
    using visit_run [OF _ q(2) s2(2) r2, of files 0] by auto
  have "for_each_data_block write_data_block (write_data_file files) s2 = Inr ((), t)"
    using t(1) same_but_out_frame(4) [OF w2] by (simp add: for_each_data_block_def bind_def gets_def)
  then show ?thesis unfolding r using t(2) same_but_out_trans [OF w2 t(3)] by (auto simp: ps p)
qed

text \<open>The image as far as padding and closing.\<close>

lemma image_run:
  assumes open_run: "open_output_file dev gz sp s = Inr (True, s0)" and at: "at_piece 0 (length ps) [] s0"
    and ready: "image_ready files k s ps"
    and f: "w_info s0 = w_info s" "w_aux s0 = w_aux s" "w_mem s0 = w_mem s" "w_next s0 = w_next s" "w_queue s0 = w_queue s"
    and ok: "pieces_ok (2 ^ k) len 0 ps"
  shows "\<exists>t m n. write_ext4_image files dev gz sp s = sq (pad_output_file (info_len (w_info s0))) close_output_file t \<and>
    at_piece (pieces_end (2 ^ k) 0 ps) 0 ps t \<and> same_but_out (with_buffer s0 m n) t"
proof -
  obtain sb desc qs where pcs: "load (aux_sb (w_aux s0)) 1024 s0 = Inr (sb, s0)"
      "load (aux_bg_desc (w_aux s0)) (unat (aux_bg_desc_blocks (w_aux s0) * info_block_size (w_info s0))) s0 = Inr (desc, s0)"
      "map (db_piece files s0) (w_queue s0) = map Some qs" "\<forall>db \<in> set (w_queue s0). 0 < db_len db"
      "ps = first_piece (2 ^ k) sb # (unat (desc_offset s0), desc) # qs" "w_mem s0 (w_next s0) = None"
    using image_ready_pieces [OF ready f] by blast
  have at0: "at_piece 0 (Suc (Suc (length qs + 0))) [] s0" using at pcs(5) by simp
  obtain m n t where t: "sq write_first_block (sq (write_data_block (desc_offset s0) (aux_bg_desc (w_aux s0))
      (aux_bg_desc_blocks (w_aux s0) * info_block_size (w_info s0)))
      (for_each_data_block write_data_block (write_data_file files))) s0 = Inr ((), t)"
    "at_piece (pieces_end (2 ^ k) 0 ps) 0 ps t" "same_but_out (with_buffer s0 m n) t"
    using body_run [OF at0 pcs(6,1-5) ok] by blast
  have "write_ext4_image files dev gz sp s =
      sq (sq write_first_block (sq (write_data_block (desc_offset s0) (aux_bg_desc (w_aux s0))
          (aux_bg_desc_blocks (w_aux s0) * info_block_size (w_info s0)))
        (for_each_data_block write_data_block (write_data_file files))))
          (sq (pad_output_file (info_len (w_info s0))) close_output_file) s0"
    unfolding write_ext4_image_def desc_offset_def sq_assoc
    by (simp only: bind_ok [where m = "open_output_file dev gz sp", OF open_run] bind_run(2) not_True_eq_False if_False)
  also have "\<dots> = sq (pad_output_file (info_len (w_info s0))) close_output_file t"
    by (rule sq_ok) (rule t(1))
  finally show ?thesis using t(2,3) by blast
qed

end
section \<open>A small image\<close>

text \<open>Eight blocks of 4096 bytes: the superblock, one block of descriptors, one block of memory at 3 and
  ten bytes of a host file at 5.\<close>

definition demo_info :: fs_info where
  "demo_info = \<lparr>info_len = 32768, info_block_size = 4096, info_blocks_per_group = 8, info_inodes_per_group = 8,
     info_inode_size = 256, info_inodes = 8, info_journal_blocks = 0, info_feat_ro_compat = 0, info_feat_compat = 0,
     info_feat_incompat = 0, info_label = None, info_no_journal = 1\<rparr>"

definition demo_aux :: fs_aux_info where
  "demo_aux = \<lparr>aux_sb = (0, 0), aux_bg_desc = (1, 0), aux_first_data_block = 0, aux_len_blocks = 8,
     aux_inode_table_blocks = 1, aux_groups = 1, aux_bg_desc_blocks = 1, aux_bg_desc_reserve_blocks = 0,
     aux_default_i_flags = 0, aux_blocks_per_ind = 1024, aux_blocks_per_dind = 0, aux_blocks_per_tind = 0\<rparr>"

definition demo_image :: world where
  "demo_image = \<lparr>w_force = False, w_info = demo_info, w_aux = demo_aux, w_bgs = [],
     w_mem = (\<lambda>_. None)(0 := Some (replicate 1024 7), 1 := Some (replicate 4096 8), 2 := Some (replicate 4096 9)),
     w_reg = (\<lambda>_. None), w_next = 5,
     w_queue = [\<lparr>db_id = 3, db_block = 3, db_len = 4096, db_source = Db_Data (2, 0)\<rparr>,
                \<lparr>db_id = 4, db_block = 5, db_len = 10, db_source = Db_File [0x61] 0\<rparr>],
     w_last_used = None, w_sparse_header = sparse_header_init,
     w_out = \<lparr>out_bytes = [], out_pos = 0, out_capacity = 0, out_gz = False, out_sparse = False,
       out_cur_out_ptr = 0, out_chunk_cnt = 0, out_crc32 = 0, out_closed = True\<rparr>\<rparr>"

definition demo_files :: "u8 list \<Rightarrow> u8 list option" where
  "demo_files name = (if name = [0x61] then Some (replicate 10 1) else None)"

definition demo_pieces :: "(nat \<times> u8 list) list" where
  "demo_pieces = [(0, replicate 1024 0 @ replicate 1024 7 @ replicate 2048 0), (4096, replicate 4096 8),
     (12288, replicate 4096 9), (20480, replicate 10 1)]"

lemma demo_ready: "image_ready demo_files 12 demo_image demo_pieces"
proof -
  have pieces: "image_pieces demo_files demo_image = Some demo_pieces"
    by (simp add: image_pieces_def demo_image_def demo_info_def demo_aux_def load_def get_bytes_def first_piece_def
        desc_offset_def db_piece_def sys_mmap_def demo_files_def demo_pieces_def Let_def)
  have ok: "pieces_ok (2 ^ 12) 32768 0 demo_pieces"
    by (simp add: demo_pieces_def round_up_def)
  have i: "w_info demo_image = demo_info" "w_mem demo_image (w_next demo_image) = None"
      "list_all (\<lambda>db. 0 < db_len db) (w_queue demo_image)"
    by (simp_all add: demo_image_def)
  have "unat (info_len demo_info) = 32768" "info_block_size demo_info = 2 ^ 12" by (simp_all add: demo_info_def)
  then show ?thesis using pieces ok i by (simp add: image_ready_def Let_def)
qed

text \<open>The same pieces side by side, and one block behind them.\<close>

definition packed_image :: world where
  "packed_image = demo_image\<lparr>w_info := demo_info\<lparr>info_len := 20480\<rparr>,
     w_queue := [\<lparr>db_id = 3, db_block = 2, db_len = 4096, db_source = Db_Data (2, 0)\<rparr>,
                 \<lparr>db_id = 4, db_block = 3, db_len = 10, db_source = Db_File [0x61] 0\<rparr>]\<rparr>"

definition packed_pieces :: "(nat \<times> u8 list) list" where
  "packed_pieces = [(0, replicate 1024 0 @ replicate 1024 7 @ replicate 2048 0), (4096, replicate 4096 8),
     (8192, replicate 4096 9), (12288, replicate 10 1)]"

lemma packed_ready: "image_ready demo_files 12 packed_image packed_pieces"
proof -
  have pieces: "image_pieces demo_files packed_image = Some packed_pieces"
    by (simp add: image_pieces_def packed_image_def demo_image_def demo_info_def demo_aux_def load_def get_bytes_def first_piece_def
        desc_offset_def db_piece_def sys_mmap_def demo_files_def packed_pieces_def Let_def)
  have ok: "pieces_ok (2 ^ 12) 20480 0 packed_pieces"
    by (simp add: packed_pieces_def round_up_def)
  have i: "w_info packed_image = demo_info\<lparr>info_len := 20480\<rparr>" "w_mem packed_image (w_next packed_image) = None"
      "list_all (\<lambda>db. 0 < db_len db) (w_queue packed_image)"
    by (simp_all add: packed_image_def demo_image_def)
  have "unat (info_len (demo_info\<lparr>info_len := 20480\<rparr>)) = 20480" "info_block_size (demo_info\<lparr>info_len := 20480\<rparr>) = 2 ^ 12" by (simp_all add: demo_info_def)
  then show ?thesis using pieces ok i by (simp add: image_ready_def Let_def)
qed

end
