(* ===== verification/Sparse_Round.thy ===== *)
theory Sparse_Round
  imports Sparse_Read Image_Writer
begin

text \<open>
  A whole image in the sparse format: the sparse writer keeps the contract of \<open>image_writer\<close>, and what
  \<open>simg2img\<close> makes of its file is the image.
\<close>

section \<open>The chunks of a list of pieces\<close>

fun piece_chunks :: "nat \<Rightarrow> nat \<Rightarrow> (nat \<times> u8 list) list \<Rightarrow> chunk list" where
  "piece_chunks bs cur [] = []"
| "piece_chunks bs cur ((off, d) # ps) =
     gap_chunks bs cur off @ Raw (padded bs d) # piece_chunks bs (off + round_up bs (length d)) ps"

lemma gap_data:
  assumes "cur \<le> off" "cur mod bs = 0" "off mod bs = 0"
  shows "chunks_data bs (gap_chunks bs cur off) = replicate (off - cur) 0"
proof -
  have "(off - cur) mod bs = 0" using assms by (metis dvd_diff_nat dvd_imp_mod_0 mod_0_imp_dvd)
  then have "(off - cur) div bs * bs = off - cur" by auto
  then show ?thesis using assms(1) by (simp add: gap_chunks_def)
qed

lemma image_chunks:
  assumes "0 < bs"
  shows "pieces_ok bs len (length im) ps \<Longrightarrow> length im mod bs = 0 \<Longrightarrow>
    foldl (\<lambda>im (off, d). put_bytes im off d) (im @ replicate (len - length im) 0) ps =
      (im @ chunks_data bs (piece_chunks bs (length im) ps)) @ replicate (len - pieces_end bs (length im) ps) 0 \<and>
    length (im @ chunks_data bs (piece_chunks bs (length im) ps)) = pieces_end bs (length im) ps \<and>
    pieces_end bs (length im) ps mod bs = 0"
proof (induction ps arbitrary: im)
  case (Cons p ps)
  obtain off d where p: "p = (off, d)" by fastforce
  let ?R = "round_up bs (length d)"
  let ?im = "im @ replicate (off - length im) 0 @ padded bs d"
  have off: "length im \<le> off" "off mod bs = 0" and ok: "pieces_ok bs len (off + ?R) ps"
    using Cons.prems(1) by (simp_all add: p)
  have R: "length d \<le> ?R" using round_up_bounds [OF assms] by simp
  have l: "length ?im = off + ?R" using off(1) by (simp add: padded_length assms)
  have m: "length ?im mod bs = 0" unfolding l using off(2) round_up_div(2) [OF assms, of "length d"] by (simp add: mod_add_eq [symmetric])
  have e: "put_bytes (im @ replicate (len - length im) 0) off d = ?im @ replicate (len - (off + ?R)) 0"
    unfolding padded_def by (rule put_piece [OF off(1) pieces_ok_le [OF ok] R])
  show ?case
    using Cons.IH [of ?im] ok m unfolding l
    by (simp add: p e gap_data [OF off(1) Cons.prems(2) off(2)])
qed simp

lemma image_of_chunks:
  assumes "0 < bs" "pieces_ok bs len 0 ps" "len mod bs = 0"
  defines "cs \<equiv> piece_chunks bs 0 ps @ gap_chunks bs (pieces_end bs 0 ps) len"
  shows "chunks_data bs cs = image_of len ps" and "length (chunks_data bs (piece_chunks bs 0 ps)) = pieces_end bs 0 ps"
  using image_chunks [OF assms(1), of len "[]" ps] assms(2,3) pieces_end_le [OF assms(2)]
  by (simp_all add: cs_def image_of_def gap_data)

lemma image_of_length: "pieces_ok bs len 0 ps \<Longrightarrow> 0 < bs \<Longrightarrow> length (image_of len ps) = len"
  using image_chunks [of bs len "[]" ps] pieces_end_le [of bs len 0 ps] by (simp add: image_of_def)

text \<open>The image as the checksum of \<open>simg2img\<close> sees it: every block that no piece covers holds \<open>z\<close>.\<close>

definition filler :: "u8 list \<Rightarrow> nat \<Rightarrow> u8 list" where
  "filler z n = concat (replicate n z)"

definition image_seen :: "u8 list \<Rightarrow> nat \<Rightarrow> nat \<Rightarrow> (nat \<times> u8 list) list \<Rightarrow> u8 list" where
  "image_seen z bs len ps = foldl (\<lambda>im (off, d). put_bytes im off (padded bs d)) (filler z (len div bs)) ps"

lemma length_filler [simp]: "length (filler z n) = n * length z"
  by (simp add: filler_def length_concat sum_list_replicate)

lemma filler_add: "filler z (m + n) = filler z m @ filler z n"
  by (simp add: filler_def replicate_add)


lemma put_in_filler:
  assumes "length z = bs" "length d = r * bs"
  shows "put_bytes (im @ filler z (g + r + t)) (length im + g * bs) d = (im @ filler z g @ d) @ filler z t"
  using assms by (simp add: put_bytes_def filler_add algebra_simps)

lemma gap_seen: "length z = bs \<Longrightarrow> cur \<le> off \<Longrightarrow> chunks_seen z (gap_chunks bs cur off) = filler z ((off - cur) div bs)"
  by (simp add: gap_chunks_def filler_def)

lemma seen_chunks:
  assumes bs: "0 < bs" and z: "length z = bs" and len: "len mod bs = 0"
  shows "pieces_ok bs len (length im) ps \<Longrightarrow> length im mod bs = 0 \<Longrightarrow>
    foldl (\<lambda>im (off, d). put_bytes im off (padded bs d)) (im @ filler z ((len - length im) div bs)) ps =
      (im @ chunks_seen z (piece_chunks bs (length im) ps)) @ filler z ((len - pieces_end bs (length im) ps) div bs)"
proof (induction ps arbitrary: im)
  case (Cons p ps)
  obtain off d where p: "p = (off, d)" by fastforce
  let ?R = "round_up bs (length d)" let ?g = "(off - length im) div bs" and ?r = "?R div bs" and ?t = "(len - (off + ?R)) div bs"
  have off: "length im \<le> off" "off mod bs = 0" and ok: "pieces_ok bs len (off + ?R) ps"
    using Cons.prems(1) by (simp_all add: p)
  have le: "off + ?R \<le> len" by (rule pieces_ok_le [OF ok])
  have R: "?r * bs = ?R" "?R mod bs = 0" using round_up_div [OF bs] by simp_all
  have g: "?g * bs = off - length im"
    using off Cons.prems(2) by (metis dvd_diff_nat dvd_div_mult_self mod_0_imp_dvd)
  have t: "?t * bs = len - (off + ?R)"
    using len off(2) R(2) by (metis dvd_add dvd_diff_nat dvd_div_mult_self mod_0_imp_dvd)
  have "(?g + ?r + ?t) * bs = len - length im" using g R(1) t off(1) le by (simp add: add_mult_distrib)
  then have n: "(len - length im) div bs = ?g + ?r + ?t" using bs by (metis div_mult_self_is_m)
  let ?im = "im @ filler z ?g @ padded bs d"
  have l: "length ?im = off + ?R" using g z off(1) by (simp add: padded_length bs)
  have m: "length ?im mod bs = 0" unfolding l using off(2) R(2) by (simp add: mod_add_eq [symmetric])
  have "put_bytes (im @ filler z (?g + ?r + ?t)) off (padded bs d) = ?im @ filler z ?t"
    using put_in_filler [OF z, of "padded bs d" ?r im ?g ?t] R(1) g off(1) by (simp add: padded_length bs)
  then show ?case using Cons.IH [of ?im] ok m n unfolding l by (simp add: p gap_seen [OF z off(1)])
qed simp

lemma image_seen_chunks:
  assumes "0 < bs" "length z = bs" "len mod bs = 0" "pieces_ok bs len 0 ps"
  shows "chunks_seen z (piece_chunks bs 0 ps @ gap_chunks bs (pieces_end bs 0 ps) len) = image_seen z bs len ps"
  using seen_chunks [OF assms(1-3), of "[]" ps] assms(4) pieces_end_le [OF assms(4)]
  by (simp add: image_seen_def gap_seen [OF assms(2)])



text \<open>The chunks fit their headers.\<close>

lemma gap_chunks_ok: "off \<le> len \<Longrightarrow> len < 4294967296 * bs \<Longrightarrow> \<forall>c \<in> set (gap_chunks bs cur off). chunk_ok bs c"
  by (auto simp: gap_chunks_def div_less_iff_less_mult)

lemma piece_chunks_ok:
  assumes bs: "0 < bs" "bs < 2147483648" and len: "len < 4294967296 * bs"
  shows "pieces_ok bs len cur ps \<Longrightarrow> \<forall>c \<in> set (piece_chunks bs cur ps). chunk_ok bs c"
proof (induction ps arbitrary: cur)
  case (Cons p ps)
  obtain off d where p: "p = (off, d)" by fastforce
  have ok: "pieces_ok bs len (off + round_up bs (length d)) ps" and small: "length d + bs < 2147483648"
    using Cons.prems by (simp_all add: p)
  have "round_up bs (length d) < 4294967296 - 12" using round_up_bounds [OF bs(1), of "length d"] small by linarith
  then have "chunk_ok bs (Raw (padded bs d))" using round_up_div [OF bs(1)] by (simp add: padded_length bs)
  moreover have "\<forall>c \<in> set (gap_chunks bs cur off). chunk_ok bs c"
    using pieces_ok_le [OF ok] by (intro gap_chunks_ok [OF _ len]) simp
  ultimately show ?case using Cons.IH [OF ok] by (auto simp: p)
qed simp

lemma piece_chunks_count: "length (piece_chunks bs cur ps) \<le> 2 * length ps"
  by (induction bs cur ps rule: piece_chunks.induct) (auto simp: gap_chunks_def)

lemma piece_chunks_append [simp]: "piece_chunks bs cur (ps @ [(off, d)]) =
    piece_chunks bs cur ps @ gap_chunks bs (pieces_end bs cur ps) off @ [Raw (padded bs d)]"
  by (induction bs cur ps rule: piece_chunks.induct) simp_all

lemma chunks_count: "length (piece_chunks bs 0 ps @ gap_chunks bs cur len) \<le> 2 * length ps + 1"
  using piece_chunks_count [of bs 0 ps] by (simp add: gap_chunks_def)

section \<open>One piece\<close>

lemma write_piece:
  assumes st: "sparse_state s cs" and b: "info_block_size (w_info s) = 2 ^ k" "k < 31"
    and cur: "length (chunks_data (2 ^ k) cs) \<le> off" "off mod 2 ^ k = 0"
    and small: "length d + 2 ^ k < 2147483648"
    and total: "off + round_up (2 ^ k) (length d) \<le> len" "len < 9223372036854775808"
    and room: "out_pos (w_out s) + 24 + round_up (2 ^ k) (length d) \<le> out_capacity (w_out s)"
  defines "cs' \<equiv> cs @ gap_chunks (2 ^ k) (length (chunks_data (2 ^ k) cs)) off @ [Raw (padded (2 ^ k) d)]"
  shows "\<exists>s'. write_data_bytes (of_nat off) d s = Inr ((), s') \<and> sparse_state s' cs' \<and>
    length (chunks_data (2 ^ k) cs') = off + round_up (2 ^ k) (length d) \<and>
    only_out (24 + round_up (2 ^ k) (length d)) s s'"
proof -
  have t: "off + round_up (2 ^ k) (length d) < 9223372036854775808" using total by linarith
  obtain s' where "write_chunk_raw (of_nat off) d s = Inr (0, s')" "sparse_state s' cs'"
      "length (chunks_data (2 ^ k) cs') = off + round_up (2 ^ k) (length d)"
      "only_out (24 + round_up (2 ^ k) (length d)) s s'"
    using write_chunk_run [OF st b cur small t room] unfolding cs'_def by blast
  moreover have "out_sparse (w_out s)" using st by (simp add: sparse_state_def)
  ultimately show ?thesis by (simp add: write_data_bytes_def prog_simps bind_def)
qed

section \<open>The sparse writer keeps the contract\<close>

definition piece_room :: "nat \<Rightarrow> nat \<Rightarrow> nat \<Rightarrow> world \<Rightarrow> bool" where
  "piece_room len cur n s \<longleftrightarrow> out_pos (w_out s) + 24 * n + (len - cur) + 12 \<le> out_capacity (w_out s)"

lemma piece_room_now: "piece_room len cur (Suc n) s \<Longrightarrow> cur \<le> off \<Longrightarrow> off + r \<le> len \<Longrightarrow>
    out_pos (w_out s) + 24 + r \<le> out_capacity (w_out s)"
  by (simp add: piece_room_def)

lemma piece_room_step:
  assumes "piece_room len cur (Suc n) s" "cur \<le> off" "off + r \<le> len" "only_out (24 + r) s s'"
  shows "piece_room len (off + r) n s'"
  using assms only_out_frame(3,4) [OF assms(4)] by (simp add: piece_room_def)

lemma sparse_state_frame: "w_out s' = w_out s \<Longrightarrow> w_info s' = w_info s \<Longrightarrow> sparse_state s' cs = sparse_state s cs"
  by (simp add: sparse_state_def at_end_def)

lemma sparse_state_pos: "sparse_state s cs \<Longrightarrow> 28 \<le> out_pos (w_out s)"
  by (auto simp: sparse_state_def at_end_def Let_def SPARSE_HEADER_LEN_def)

text \<open>The writer stands behind the pieces written so far; the device has room for those to come.\<close>

definition at_sparse :: "nat \<Rightarrow> nat \<Rightarrow> nat \<Rightarrow> nat \<Rightarrow> (nat \<times> u8 list) list \<Rightarrow> world \<Rightarrow> bool" where
  "at_sparse k len cur n ps s \<longleftrightarrow>
     sparse_state s (piece_chunks (2 ^ k) 0 ps) \<and> cur = pieces_end (2 ^ k) 0 ps \<and>
     length (chunks_data (2 ^ k) (piece_chunks (2 ^ k) 0 ps)) = cur \<and> piece_room len cur n s \<and>
     info_block_size (w_info s) = 2 ^ k \<and> 10 \<le> k \<and> k \<le> 12 \<and> unat (info_len (w_info s)) = len \<and> len < 4294967296 * 2 ^ k"

interpretation sparse: image_writer k len "at_sparse k len" for k len
proof unfold_locales
  fix s s' :: world and cur n ps
  assume "w_out s' = w_out s" "w_info s' = w_info s"
  then show "at_sparse k len cur n ps s' = at_sparse k len cur n ps s"
    by (simp add: at_sparse_def piece_room_def sparse_state_frame [of s' s])
next
  fix cur n ps and s :: world
  assume "at_sparse k len cur n ps s"
  then show "info_block_size (w_info s) = 2 ^ k \<and> 10 \<le> k \<and> k \<le> 12 \<and> unat (info_len (w_info s)) = len \<and>
      len < 4294967296 * 2 ^ k"
    by (simp add: at_sparse_def)
next
  fix cur n ps and s :: world and off and d :: "u8 list"
  let ?R = "round_up (2 ^ k) (length d)"
  assume at: "at_sparse k len cur (Suc n) ps s" and off: "cur \<le> off" "off mod 2 ^ k = 0" "length d + 2 ^ k < 2147483648" "off + ?R \<le> len"
  have st: "sparse_state s (piece_chunks (2 ^ k) 0 ps)" and cur: "length (chunks_data (2 ^ k) (piece_chunks (2 ^ k) 0 ps)) = cur"
      "pieces_end (2 ^ k) 0 ps = cur"
    and b: "info_block_size (w_info s) = 2 ^ k" "k < 31" and room: "piece_room len cur (Suc n) s" and l: "len < 9223372036854775808"
    using at small_len [of k len] by (auto simp: at_sparse_def)
  obtain s' where s': "write_data_bytes (of_nat off) d s = Inr ((), s')"
      "sparse_state s' (piece_chunks (2 ^ k) 0 ps @ gap_chunks (2 ^ k) cur off @ [Raw (padded (2 ^ k) d)])"
      "length (chunks_data (2 ^ k) (piece_chunks (2 ^ k) 0 ps @ gap_chunks (2 ^ k) cur off @ [Raw (padded (2 ^ k) d)])) = off + ?R"
      "only_out (24 + ?R) s s'"
    using write_piece [OF st b _ off(2,3) off(4) l, unfolded cur(1), OF off(1) piece_room_now [OF room off(1,4)]] by blast
  have "at_sparse k len (off + ?R) n (ps @ [(off, d)]) s'"
    using s'(2,3) at piece_room_step [OF room off(1,4) s'(4)] only_out_frame(1) [OF s'(4)]
    by (simp add: at_sparse_def cur(2))
  then show "\<exists>s'. write_data_bytes (of_nat off) d s = Inr ((), s') \<and> at_sparse k len (off + ?R) n (ps @ [(off, d)]) s' \<and> same_but_out s s'"
    using s'(1) only_out_same [OF s'(4)] by blast
qed

section \<open>Opening, padding and closing\<close>

lemma open_run:
  assumes "info_block_size (w_info s) = 2 ^ k" "k < 31" and "28 \<le> cap"
  defines "h \<equiv> (w_sparse_header s)\<lparr>sh_blk_sz := info_block_size (w_info s),
      sh_total_blks := ucast (info_len (w_info s) div ucast (info_block_size (w_info s)))\<rparr>"
  shows "\<exists>s'. open_output_file (Some cap) False True s = Inr (True, s') \<and> sparse_state s' [] \<and>
    s' = s\<lparr>w_sparse_header := h, w_out := w_out s'\<rparr> \<and> out_pos (w_out s') = 28 \<and> out_capacity (w_out s') = cap"
proof -
  let ?o = "\<lparr>out_bytes = [], out_pos = 0, out_capacity = cap, out_gz = False, out_sparse = True,
           out_cur_out_ptr = 0, out_chunk_cnt = 0, out_crc32 = 0, out_closed = False\<rparr>"
  let ?s = "s\<lparr>w_out := ?o, w_sparse_header := h\<rparr>"
  have "unat (info_block_size (w_info s)) \<noteq> unat (0 :: u32)" using assms(1,2) by (simp add: unat_two_power)
  then have nz: "info_block_size (w_info s) \<noteq> 0" by auto
  have "at_end ?s" by (simp add: at_end_def)
  then have w: "ops_write (sparse_header_bytes h) ?s = Inr (0, ?s\<lparr>w_out := append_out (sparse_header_bytes h) ?o\<rparr>)"
    using ops_write_end [of ?s "sparse_header_bytes h"] assms(3) by (simp add: sparse_header_length)
  have "open_output_file (Some cap) False True s = Inr (True, ?s\<lparr>w_out := append_out (sparse_header_bytes h) ?o\<rparr>)"
    using nz w unfolding h_def by (simp add: open_output_file_def prog_simps upd_out_def upd_sparse_header_def bind_def)
  then show ?thesis
    by (cases s, intro exI) (auto simp: sparse_state_def at_end_def Let_def sparse_header_length SPARSE_HEADER_LEN_def sparse_crc32_def)
qed

lemma pad_run:
  assumes st: "sparse_state s cs" and b: "info_block_size (w_info s) = 2 ^ k" "k < 31"
    and len: "len = unat (info_len (w_info s))" "len mod 2 ^ k = 0" "len < 9223372036854775808"
    and cur: "length (chunks_data (2 ^ k) cs) \<le> len"
    and room: "out_pos (w_out s) + 12 \<le> out_capacity (w_out s)"
  shows "\<exists>s'. pad_output_file (info_len (w_info s)) s = Inr ((), s') \<and>
    sparse_state s' (cs @ gap_chunks (2 ^ k) (length (chunks_data (2 ^ k) cs)) len) \<and> only_out 12 s s'"
proof -
  let ?bs = "(2 :: nat) ^ k" and ?cur = "length (chunks_data (2 ^ k) cs)"
  have ub: "unat (info_block_size (w_info s)) = ?bs" using b by (simp add: unat_two_power)
  have out: "out_sparse (w_out s)" "out_cur_out_ptr (w_out s) = of_nat ?cur" "?cur mod ?bs = 0"
    using st by (simp_all add: sparse_state_def Let_def ub)
  have il: "info_len (w_info s) = of_nat len" using len(1) by simp
  show ?thesis
  proof (cases "?cur = len")
    case True
    then have "pad_output_file (info_len (w_info s)) s = Inr ((), s)"
      using out il by (simp add: pad_output_file_def prog_simps)
    then show ?thesis using st True by (intro exI [of _ s]) (simp add: gap_chunks_def only_out_def)
  next
    case False
    let ?n = "(len - ?cur) div ?bs"
    have "(len - ?cur) mod ?bs = 0" using len(2) out(3) by (metis dvd_diff_nat dvd_imp_mod_0 mod_0_imp_dvd)
    then have n: "?n * ?bs = len - ?cur" by auto
    have lt: "(of_nat ?cur :: u64) < of_nat len" using cur False len(3) by (simp add: word_less_nat_alt unat_of_nat_u64)
    have d: "of_nat len - of_nat ?cur = (of_nat (?n * ?bs) :: u64)" unfolding n using cur by (simp add: of_nat_diff)
    obtain s' where s': "emit_skip_chunk (of_nat (?n * ?bs)) s = Inr (0, s')" "sparse_state s' (cs @ [Skip ?n])" "only_out 12 s s'"
      using emit_skip_run [OF st ub [symmetric], of ?n] n cur len(3) room by auto
    have "pad_output_file (of_nat len) s = Inr ((), s')"
      using out lt less_not_sym [OF lt] s'(1) unfolding d [symmetric] by (simp add: pad_output_file_def prog_simps il bind_def)
    then show ?thesis using s' cur False by (simp add: il gap_chunks_def)
  qed
qed

lemma close_run:
  assumes st: "sparse_state s cs" and room: "28 \<le> out_capacity (w_out s)"
  defines "h \<equiv> (w_sparse_header s)\<lparr>sh_total_chunks := of_nat (length cs),
      sh_image_checksum := sparse_crc32 0 (chunks_data (unat (info_block_size (w_info s))) cs)\<rparr>"
  shows "\<exists>s'. close_output_file s = Inr ((), s') \<and>
    out_bytes (w_out s') = sparse_header_bytes h @ chunks_code (unat (info_block_size (w_info s))) cs"
proof -
  let ?bs = "unat (info_block_size (w_info s))" and ?o = "(w_out s)\<lparr>out_pos := 0\<rparr>"
  obtain h0 where h0: "length h0 = 28" "out_bytes (w_out s) = h0 @ chunks_code ?bs cs"
    using st by (auto simp: sparse_state_def Let_def SPARSE_HEADER_LEN_def)
  have o: "out_sparse (w_out s)" "\<not> out_gz (w_out s)" "out_chunk_cnt (w_out s) = of_nat (length cs)"
      "out_crc32 (w_out s) = sparse_crc32 0 (chunks_data ?bs cs)"
    using st by (simp_all add: sparse_state_def Let_def at_end_def)
  let ?b = "sparse_header_bytes h @ chunks_code ?bs cs"
  have w: "sys_write (sparse_header_bytes h) ?o = (28, ?o\<lparr>out_bytes := ?b, out_pos := 28\<rparr>)"
    using room h0 sparse_header_length [of h] by (auto simp: sys_write_def Let_def file_put_def min_def)
  let ?s = "s\<lparr>w_sparse_header := h\<rparr>"
  have "ops_seek 0 ?s = Inr (0, ?s\<lparr>w_out := ?o\<rparr>)"
    using o by (simp add: ops_seek_def file_seek_def seek_with_def sys_lseek64_def prog_simps)
  moreover have "ops_write (sparse_header_bytes h) (?s\<lparr>w_out := ?o\<rparr>) = Inr (0, ?s\<lparr>w_out := ?o\<lparr>out_bytes := ?b, out_pos := 28\<rparr>\<rparr>)"
    using o w sparse_header_length [of h] by (simp add: ops_write_def file_write_def write_with_def prog_simps)
  ultimately have "close_output_file s = Inr ((), ?s\<lparr>w_out := ?o\<lparr>out_bytes := ?b, out_pos := 28, out_closed := True\<rparr>\<rparr>)"
    using o unfolding h_def
    by (simp add: close_output_file_def upd_sparse_header_def file_close_def prog_simps bind_def)
  then show ?thesis by simp
qed

section \<open>The whole image\<close>

text \<open>The device can hold the sparse file, and its header is in its initial state.\<close>

definition sparse_image :: "(u8 list \<Rightarrow> u8 list option) \<Rightarrow> nat \<Rightarrow> world \<Rightarrow> nat \<Rightarrow> (nat \<times> u8 list) list \<Rightarrow> bool" where
  "sparse_image files cap s k ps \<longleftrightarrow>
     image_ready files k s ps \<and> w_sparse_header s = sparse_header_init \<and> length ps < 2147483648 \<and>
     24 * length ps + unat (info_len (w_info s)) + 40 \<le> cap"

lemma open_image_run:
  assumes im: "sparse_image files cap s k ps"
  defines "len \<equiv> unat (info_len (w_info s))"
  shows "\<exists>s0. open_output_file (Some cap) False True s = Inr (True, s0) \<and> at_sparse k len 0 (length ps) [] s0 \<and>
    w_info s0 = w_info s \<and> w_aux s0 = w_aux s \<and> w_mem s0 = w_mem s \<and> w_next s0 = w_next s \<and> w_queue s0 = w_queue s \<and>
    w_sparse_header s0 = sparse_header_init\<lparr>sh_blk_sz := 2 ^ k, sh_total_blks := of_nat (len div 2 ^ k)\<rparr>"
proof -
  let ?bs = "(2 :: nat) ^ k"
  have r: "image_ready files k s ps" and h: "w_sparse_header s = sparse_header_init" and cap: "24 * length ps + len + 40 \<le> cap"
    using im by (simp_all add: sparse_image_def len_def)
  note b = image_readyD [OF r]
  obtain s0 where s0: "open_output_file (Some cap) False True s = Inr (True, s0)" "sparse_state s0 []"
      "s0 = s\<lparr>w_sparse_header := (w_sparse_header s)\<lparr>sh_blk_sz := info_block_size (w_info s),
        sh_total_blks := ucast (info_len (w_info s) div ucast (info_block_size (w_info s)))\<rparr>, w_out := w_out s0\<rparr>"
      "out_pos (w_out s0) = 28" "out_capacity (w_out s0) = cap"
    using open_run [OF b(1,4), of cap] cap by auto
  have "of_nat (unat (info_len (w_info s) div ucast (info_block_size (w_info s)))) = (of_nat (len div ?bs) :: u64)"
    by (simp only: unat_div len_def) (simp add: b(5))
  then have "info_len (w_info s) div ucast (info_block_size (w_info s)) = (of_nat (len div ?bs) :: u64)" by simp
  then have tb: "ucast (info_len (w_info s) div ucast (info_block_size (w_info s))) = (of_nat (len div ?bs) :: u32)"
    by (simp only: ucast_u32_of_nat)
  have f: "w_info s0 = w_info s" "w_aux s0 = w_aux s" "w_mem s0 = w_mem s" "w_next s0 = w_next s" "w_queue s0 = w_queue s"
      "w_sparse_header s0 = sparse_header_init\<lparr>sh_blk_sz := 2 ^ k, sh_total_blks := of_nat (len div ?bs)\<rparr>"
    by (subst s0(3), simp add: h b(1) tb [unfolded b(1)])+
  have "at_sparse k len 0 (length ps) [] s0"
    using s0(2,4,5) b f(1) cap by (simp add: at_sparse_def piece_room_def len_def)
  then show ?thesis using s0(1) f by blast
qed

text \<open>Padding and closing complete the file.\<close>

lemma finish_run:
  assumes at: "at_sparse k len (pieces_end (2 ^ k) 0 ps) 0 ps t" and ok: "pieces_ok (2 ^ k) len 0 ps" "len mod 2 ^ k = 0"
  defines "cs \<equiv> piece_chunks (2 ^ k) 0 ps @ gap_chunks (2 ^ k) (pieces_end (2 ^ k) 0 ps) len"
  shows "\<exists>s'. sq (pad_output_file (info_len (w_info t))) close_output_file t = Inr ((), s') \<and>
    out_bytes (w_out s') = sparse_header_bytes ((w_sparse_header t)\<lparr>sh_total_chunks := of_nat (length cs),
        sh_image_checksum := sparse_crc32 0 (image_of len ps)\<rparr>) @ chunks_code (2 ^ k) cs"
proof -
  let ?bs = "(2 :: nat) ^ k"
  have b: "info_block_size (w_info t) = 2 ^ k" "k < 31" "len = unat (info_len (w_info t))" "len < 9223372036854775808"
    and st: "sparse_state t (piece_chunks ?bs 0 ps)" and l: "length (chunks_data ?bs (piece_chunks ?bs 0 ps)) = pieces_end ?bs 0 ps"
    and room: "out_pos (w_out t) + 12 \<le> out_capacity (w_out t)"
    using at small_len [of k len] by (simp_all add: at_sparse_def piece_room_def)
  have ub: "unat (info_block_size (w_info t)) = ?bs" using b by (simp add: unat_two_power)
  obtain t3 where t3: "pad_output_file (info_len (w_info t)) t = Inr ((), t3)" "sparse_state t3 cs" "only_out 12 t t3"
    using pad_run [OF st b(1-3) ok(2) b(4) _ room] pieces_end_le [OF ok(1)] unfolding l cs_def by blast
  have f3: "w_info t3 = w_info t" "w_sparse_header t3 = w_sparse_header t" "28 \<le> out_capacity (w_out t3)"
    using only_out_frame [OF t3(3)] room sparse_state_pos [OF st] by auto
  obtain t4 where t4: "close_output_file t3 = Inr ((), t4)"
      "out_bytes (w_out t4) = sparse_header_bytes ((w_sparse_header t)\<lparr>sh_total_chunks := of_nat (length cs),
        sh_image_checksum := sparse_crc32 0 (chunks_data ?bs cs)\<rparr>) @ chunks_code ?bs cs"
    using close_run [OF t3(2) f3(3)] by (auto simp: f3 ub)
  have "chunks_data ?bs cs = image_of len ps" unfolding cs_def by (rule image_of_chunks(1) [OF _ ok]) simp
  then show ?thesis using t3(1) t4 by (simp add: sq_def bind_def)
qed

lemma write_sparse_run:
  assumes im: "sparse_image files cap s k ps"
  defines "len \<equiv> unat (info_len (w_info s))"
  defines "cs \<equiv> piece_chunks (2 ^ k) 0 ps @ gap_chunks (2 ^ k) (pieces_end (2 ^ k) 0 ps) len"
  shows "\<exists>s'. write_ext4_image files (Some cap) False True s = Inr ((), s') \<and>
    out_bytes (w_out s') = sparse_header_bytes (sparse_header_init\<lparr>sh_blk_sz := 2 ^ k,
      sh_total_blks := of_nat (len div 2 ^ k), sh_total_chunks := of_nat (length cs),
      sh_image_checksum := sparse_crc32 0 (image_of len ps)\<rparr>) @ chunks_code (2 ^ k) cs"
proof -
  have r: "image_ready files k s ps" using im by (simp add: sparse_image_def)
  note b = image_readyD [OF r]
  obtain s0 where s0: "open_output_file (Some cap) False True s = Inr (True, s0)" "at_sparse k len 0 (length ps) [] s0"
    and f0: "w_info s0 = w_info s" "w_aux s0 = w_aux s" "w_mem s0 = w_mem s" "w_next s0 = w_next s" "w_queue s0 = w_queue s"
      "w_sparse_header s0 = sparse_header_init\<lparr>sh_blk_sz := 2 ^ k, sh_total_blks := of_nat (len div 2 ^ k)\<rparr>"
    using open_image_run [OF im] unfolding len_def by blast
  obtain t m n where t: "write_ext4_image files (Some cap) False True s =
        sq (pad_output_file (info_len (w_info s0))) close_output_file t"
      "at_sparse k len (pieces_end (2 ^ k) 0 ps) 0 ps t" "same_but_out (with_buffer s0 m n) t"
    using sparse.image_run [OF s0 r f0(1-5)] b(8) unfolding len_def by blast
  have "w_info t = w_info s0" "w_sparse_header t = w_sparse_header s0" using same_but_out_frame [OF t(3)] by simp_all
  then show ?thesis
    using finish_run [OF t(2)] t(1) b(6,8) f0(6) unfolding cs_def len_def by simp
qed

lemma sparse_image_unpacked:
  assumes "sparse_image files cap s k ps" "length (malloc (2 ^ k)) = 2 ^ k"
  shows "\<exists>s' us. write_ext4_image files (Some cap) False True s = Inr ((), s') \<and>
    us_out us = image_of (unat (info_len (w_info s))) ps \<and>
    run_simg2img malloc (out_bytes (w_out s')) =
      (if sparse_crc32 0 (image_seen (malloc (2 ^ k)) (2 ^ k) (unat (info_len (w_info s))) ps) =
          sparse_crc32 0 (image_of (unat (info_len (w_info s))) ps)
       then Inr ((), us) else Inl Exit_Failure)"
proof -
  let ?bs = "(2 :: nat) ^ k" and ?len = "unat (info_len (w_info s))"
  let ?cs = "piece_chunks ?bs 0 ps @ gap_chunks ?bs (pieces_end ?bs 0 ps) ?len"
  have k: "10 \<le> k" "k \<le> 12" and m: "?len mod ?bs = 0" "?len < 4294967296 * ?bs" and ok: "pieces_ok ?bs ?len 0 ps"
    and n: "length ps < 2147483648" using assms(1) image_readyD [of files k s ps] by (simp_all add: sparse_image_def)
  have bs: "0 < ?bs" "?bs < 2147483648" using power_increasing [of k 12 "2 :: nat"] k by simp_all
  have u: "unat (2 ^ k :: u32) = ?bs" using k by (intro unat_two_power) simp
  note z = assms(2)
  have D: "chunks_data ?bs ?cs = image_of ?len ps" by (rule image_of_chunks(1) [OF bs(1) ok m(1)])
  have S: "chunks_seen (malloc ?bs) ?cs = image_seen (malloc ?bs) ?bs ?len ps" by (rule image_seen_chunks [OF bs(1) z m(1) ok])
  have "\<forall>c \<in> set ?cs. chunk_ok ?bs c"
    using piece_chunks_ok [OF bs m(2) ok] gap_chunks_ok [OF order_refl m(2)] by auto
  moreover have "length ?cs < 4294967296" using chunks_count [of ?bs ps "pieces_end ?bs 0 ps" ?len] n by linarith
  moreover have "?bs dvd 2147483648" using le_imp_power_dvd [of k 31 "2 :: nat"] k by simp
  ultimately show ?thesis
    using simg2img_run [of "2 ^ k" ?cs _ 0 malloc, unfolded u D S, OF bs(1)] write_sparse_run [OF assms(1)] m(2) z
    by (fastforce simp: image_of_length [OF ok bs(1)] sparse_header_init_def SPARSE_HEADER_LEN_def CHUNK_HEADER_LEN_def)
qed



text \<open>The pieces follow each other without a free block.\<close>

fun side_by_side :: "nat \<Rightarrow> nat \<Rightarrow> (nat \<times> u8 list) list \<Rightarrow> bool" where
  "side_by_side bs cur [] \<longleftrightarrow> True"
| "side_by_side bs cur ((off, d) # ps) \<longleftrightarrow> off = cur \<and> side_by_side bs (off + round_up bs (length d)) ps"

lemma side_by_side_seen: "side_by_side bs cur ps \<Longrightarrow> chunks_seen z (piece_chunks bs cur ps) = chunks_data bs (piece_chunks bs cur ps)"
  by (induction bs cur ps rule: side_by_side.induct) (simp_all add: gap_chunks_def)

lemma one_dirty_byte:
  assumes "side_by_side bs 0 ps" "pieces_end bs 0 ps + bs = len" "pieces_ok bs len 0 ps" "0 < bs" "len mod bs = 0"
    and z: "z = replicate m 0 @ a # replicate n 0" "length z = bs" "a \<noteq> 0"
  shows "sparse_crc32 0 (image_seen z bs len ps) \<noteq> sparse_crc32 0 (image_of len ps)"
proof -
  let ?D = "chunks_data bs (piece_chunks bs 0 ps)"
  have gap: "gap_chunks bs (pieces_end bs 0 ps) len = [Skip 1]" using assms(2,4) by (auto simp: gap_chunks_def)
  have seen: "image_seen z bs len ps = ?D @ z"
    using image_seen_chunks [OF assms(4) z(2) assms(5,3)] side_by_side_seen [OF assms(1), of z] by (simp add: gap)
  have "image_of len ps = ?D @ replicate bs 0"
    using image_of_chunks(1) [OF assms(4,3,5)] by (simp add: gap)
  moreover have "replicate bs (0 :: u8) = replicate m 0 @ 0 # replicate n 0"
    using z(1,2) by (simp add: replicate_add [symmetric] replicate_app_Cons_same flip: replicate_Suc)
  ultimately have "image_of len ps = (?D @ replicate m 0) @ 0 # replicate n 0" by simp
  moreover have "image_seen z bs len ps = (?D @ replicate m 0) @ a # replicate n 0" unfolding seen by (simp add: z(1))
  moreover have "sparse_crc32 0 ((?D @ replicate m 0) @ a # replicate n 0) \<noteq> sparse_crc32 0 ((?D @ replicate m 0) @ 0 # replicate n 0)"
    using z(3) crc32_loop_byte [of _ a _ 0] by (auto simp: sparse_crc32_def crc32_loop_append simp del: crc32_loop.simps)
  ultimately show ?thesis by simp
qed

text \<open>C36. \<open>simg2img\<close> refuses a correct file for what \<open>malloc\<close> left in \<open>zerobuf\<close>: when the last block of the image is
  the only one without data and a single byte of \<open>zerobuf\<close> is not zero, the checksums differ.\<close>

theorem dirty_zerobuf_refused:
  assumes "sparse_image files cap s k ps" "\<forall>n. length (malloc n) = n"
    and "side_by_side (2 ^ k) 0 ps" "pieces_end (2 ^ k) 0 ps + 2 ^ k = unat (info_len (w_info s))"
    and "malloc (2 ^ k) = replicate m 0 @ a # replicate n 0" "a \<noteq> 0"
  shows "\<exists>s'. write_ext4_image files (Some cap) False True s = Inr ((), s') \<and>
    run_simg2img malloc (out_bytes (w_out s')) = Inl Exit_Failure"
proof -
  have "0 < (2 :: nat) ^ k" "unat (info_len (w_info s)) mod 2 ^ k = 0" "pieces_ok (2 ^ k) (unat (info_len (w_info s))) 0 ps"
    using assms(1) image_readyD [of files k s ps] by (simp_all add: sparse_image_def)
  then have "sparse_crc32 0 (image_seen (malloc (2 ^ k)) (2 ^ k) (unat (info_len (w_info s))) ps) \<noteq> sparse_crc32 0 (image_of (unat (info_len (w_info s))) ps)"
    using one_dirty_byte [OF assms(3,4) _ _ _ assms(5) _ assms(6)] assms(2) by simp
  then show ?thesis using sparse_image_unpacked [OF assms(1), of malloc] assms(2) by fastforce
qed

theorem dirty_zerobuf_refused_witness:
  "\<exists>s'. write_ext4_image demo_files (Some 40000) False True packed_image = Inr ((), s') \<and>
    run_simg2img (\<lambda>n. take n (replicate 100 0 @ 1 # replicate n 0)) (out_bytes (w_out s')) = Inl Exit_Failure"
proof -
  let ?malloc = "\<lambda>n. take n (replicate 100 0 @ 1 # replicate n 0) :: u8 list"
  have f: "w_info packed_image = demo_info\<lparr>info_len := 20480\<rparr>" "unat (info_len (w_info packed_image)) = 20480"
      "w_sparse_header packed_image = sparse_header_init" "length packed_pieces = 4"
    by (simp_all add: packed_image_def demo_image_def demo_info_def packed_pieces_def)
  then have "sparse_image demo_files 40000 packed_image 12 packed_pieces"
    using packed_ready by (simp add: sparse_image_def)
  moreover have "\<forall>n. length (?malloc n) = n" by auto
  moreover have "side_by_side (2 ^ 12) 0 packed_pieces" "pieces_end (2 ^ 12) 0 packed_pieces + 2 ^ 12 = unat (info_len (w_info packed_image))"
    using f by (simp_all add: packed_pieces_def round_up_def)
  moreover have "?malloc (2 ^ 12) = replicate 100 0 @ 1 # replicate 3995 0" by simp
  ultimately show ?thesis by (rule dirty_zerobuf_refused) simp
qed

end
