(* ===== verification/Plain_Image.thy ===== *)
theory Plain_Image
  imports Image_Writer
begin

text \<open>
  A whole image in a plain file: seeking and writing keep the contract of \<open>image_writer\<close>; the file is
  the image, except for the last byte, which padding sets to zero.
\<close>

lemma put_past_end:
  assumes "length b \<le> len" "off + length d \<le> len"
  shows "file_put b off d @ replicate (len - length (file_put b off d)) 0 = put_bytes (b @ replicate (len - length b) 0) off d"
proof (rule nth_equalityI)
  have l: "length (file_put b off d) = max (length b) (off + length d)" by (auto simp: file_put_def)
  show "length (file_put b off d @ replicate (len - length (file_put b off d)) 0) =
      length (put_bytes (b @ replicate (len - length b) 0) off d)"
    using assms l by (simp add: length_put_bytes)
  fix i assume "i < length (file_put b off d @ replicate (len - length (file_put b off d)) 0)"
  then have "i < len" using assms l by simp
  then show "(file_put b off d @ replicate (len - length (file_put b off d)) 0) ! i =
      put_bytes (b @ replicate (len - length b) 0) off d ! i"
    using assms by (auto simp: file_put_def put_bytes_def nth_append min_def)
qed

text \<open>Seeking and writing inside the device.\<close>

lemma seek_write_run:
  assumes "\<not> out_sparse (w_out s)" "\<not> out_gz (w_out s)" and "off < 9223372036854775808"
    and "off + length d \<le> out_capacity (w_out s)" "d \<noteq> []"
  shows "ops_seek (of_nat off) s = Inr (0, s\<lparr>w_out := (w_out s)\<lparr>out_pos := off\<rparr>\<rparr>)" (is ?S)
    and "ops_write d (s\<lparr>w_out := (w_out s)\<lparr>out_pos := off\<rparr>\<rparr>) = Inr (0, s\<lparr>w_out := (w_out s)\<lparr>out_pos := off + length d,
      out_bytes := file_put (out_bytes (w_out s)) off d\<rparr>\<rparr>)" (is ?W)
proof -
  have u: "unat (of_nat off :: u64) = off" using assms(3) by (intro unat_of_nat_u64) simp
  have "sint (of_nat off :: u64) = int off" using sint_u64 [of "of_nat off"] assms(3) u by simp
  then show ?S using assms(1,2) u
    by (simp add: ops_seek_def file_seek_def seek_with_def sys_lseek64_def prog_simps)
  have "sys_write d ((w_out s)\<lparr>out_pos := off\<rparr>) = (int (length d), (w_out s)\<lparr>out_pos := off + length d,
      out_bytes := file_put (out_bytes (w_out s)) off d\<rparr>)"
    using assms by (cases "w_out s") (simp add: sys_write_def Let_def min_absorb1)
  then show ?W using assms(2)
    by (simp add: ops_write_def file_write_def write_with_def prog_simps)
qed

section \<open>The plain file keeps the contract\<close>

definition at_plain :: "nat \<Rightarrow> nat \<Rightarrow> nat \<Rightarrow> nat \<Rightarrow> (nat \<times> u8 list) list \<Rightarrow> world \<Rightarrow> bool" where
  "at_plain k len cur n ps s \<longleftrightarrow>
     \<not> out_sparse (w_out s) \<and> \<not> out_gz (w_out s) \<and> len \<le> out_capacity (w_out s) \<and> length (out_bytes (w_out s)) \<le> len \<and>
     out_bytes (w_out s) @ replicate (len - length (out_bytes (w_out s))) 0 = image_of len ps \<and>
     info_block_size (w_info s) = 2 ^ k \<and> 10 \<le> k \<and> k \<le> 12 \<and> unat (info_len (w_info s)) = len \<and> len < 4294967296 * 2 ^ k"

lemma seek_only_run:
  assumes "\<not> out_sparse (w_out s)" "\<not> out_gz (w_out s)" and "off < 9223372036854775808"
  shows "write_data_bytes (of_nat off) [] s = Inr ((), s\<lparr>w_out := (w_out s)\<lparr>out_pos := off\<rparr>\<rparr>)"
proof -
  have u: "unat (of_nat off :: u64) = off" using assms(3) by (intro unat_of_nat_u64) simp
  then have "sint (of_nat off :: u64) = int off" using sint_u64 [of "of_nat off"] assms(3) by simp
  then show ?thesis using assms u
    by (simp add: write_data_bytes_def ops_seek_def file_seek_def seek_with_def sys_lseek64_def ops_write_def file_write_def
        write_with_def sys_write_def Let_def prog_simps)
qed

interpretation plain: image_writer k len "at_plain k len" for k len
proof unfold_locales
  fix s s' :: world and cur n ps
  assume "w_out s' = w_out s" "w_info s' = w_info s"
  then show "at_plain k len cur n ps s' = at_plain k len cur n ps s" by (simp add: at_plain_def)
next
  fix cur n ps and s :: world
  assume "at_plain k len cur n ps s"
  then show "info_block_size (w_info s) = 2 ^ k \<and> 10 \<le> k \<and> k \<le> 12 \<and> unat (info_len (w_info s)) = len \<and>
      len < 4294967296 * 2 ^ k"
    by (simp add: at_plain_def)
next
  fix cur n ps and s :: world and off and d :: "u8 list"
  let ?R = "round_up (2 ^ k) (length d)"
  assume at: "at_plain k len cur (Suc n) ps s" and le: "off + ?R \<le> len"
  have p: "\<not> out_sparse (w_out s)" "\<not> out_gz (w_out s)" and cap: "len \<le> out_capacity (w_out s)" "length (out_bytes (w_out s)) \<le> len"
    and im: "out_bytes (w_out s) @ replicate (len - length (out_bytes (w_out s))) 0 = image_of len ps"
    using at by (simp_all add: at_plain_def)
  have l: "off + length d \<le> len" using le round_up_bounds [of "2 ^ k" "length d"] by simp
  have o: "off < 9223372036854775808" using l small_len [of k len] at by (simp add: at_plain_def)
  show "\<exists>s'. write_data_bytes (of_nat off) d s = Inr ((), s') \<and> at_plain k len (off + ?R) n (ps @ [(off, d)]) s' \<and> same_but_out s s'"
  proof (cases "d = []")
    case True
    have "put_bytes b off [] = b" for b :: "u8 list" by (simp add: put_bytes_def)
    then show ?thesis using seek_only_run [OF p o] at True by (intro exI) (auto simp: at_plain_def same_but_out_def)
  next
    case False
    let ?b = "file_put (out_bytes (w_out s)) off d"
    have "write_data_bytes (of_nat off) d s = Inr ((), s\<lparr>w_out := (w_out s)\<lparr>out_pos := off + length d, out_bytes := ?b\<rparr>\<rparr>)"
      using seek_write_run [OF p o _ False] l cap p by (simp add: write_data_bytes_def prog_simps bind_def)
    moreover have "length ?b \<le> len" using l cap by (simp add: file_put_def)
    ultimately show ?thesis
      using at put_past_end [OF cap(2) l] by (intro exI) (auto simp: at_plain_def same_but_out_def im)
  qed
qed

section \<open>The whole image\<close>

lemma finish_plain_run:
  assumes at: "at_plain k len cur n ps t" and pos: "0 < len"
  shows "\<exists>s'. sq (pad_output_file (info_len (w_info t))) close_output_file t = Inr ((), s') \<and>
    out_bytes (w_out s') = (image_of len ps)[len - 1 := 0]"
proof -
  have p: "\<not> out_sparse (w_out t)" "\<not> out_gz (w_out t)" and cap: "len \<le> out_capacity (w_out t)" "length (out_bytes (w_out t)) \<le> len"
    and im: "out_bytes (w_out t) @ replicate (len - length (out_bytes (w_out t))) 0 = image_of len ps"
    and il: "unat (info_len (w_info t)) = len" and o: "len - 1 < 9223372036854775808"
    using at small_len [of k len] by (simp_all add: at_plain_def)
  let ?b = "file_put (out_bytes (w_out t)) (len - 1) [0]"
  have "info_len (w_info t) = of_nat len" using il by auto
  then have e: "info_len (w_info t) - 1 = of_nat (len - 1)" using pos by (simp add: of_nat_diff)
  note run = seek_write_run [OF p o, of "[0]"]
  have "sq (pad_output_file (info_len (w_info t))) close_output_file t =
      Inr ((), t\<lparr>w_out := (w_out t)\<lparr>out_pos := len, out_bytes := ?b, out_closed := True\<rparr>\<rparr>)"
    using run cap(1) pos p
    by (simp add: pad_output_file_def close_output_file_def file_close_def prog_simps bind_def e)
  moreover have "?b = (image_of len ps)[len - 1 := 0]"
  proof -
    have "length ?b = len" using cap(2) pos by (auto simp: file_put_def)
    then have "?b = put_bytes (image_of len ps) (len - 1) [0]"
      using put_past_end [OF cap(2), of "len - 1" "[0]"] pos by (simp add: im)
    moreover have "length (image_of len ps) = len" using cap(2) by (simp add: im [symmetric])
    ultimately show ?thesis using pos by (simp add: put_bytes_def upd_conv_take_nth_drop)
  qed
  ultimately show ?thesis by simp
qed

text \<open>C5.  For the same images, \<open>write_ext4_image\<close> to a plain file returns without an error and the file
  is the image, piece by piece, except that \<open>pad_output_file\<close> sets the last byte to zero whether or not
  a piece covers it.\<close>

theorem plain_image:
  assumes "image_ready files k s ps" and "unat (info_len (w_info s)) \<le> cap"
  shows "\<exists>s'. write_ext4_image files (Some cap) False False s = Inr ((), s') \<and>
    out_bytes (w_out s') = (image_of (unat (info_len (w_info s))) ps)[unat (info_len (w_info s)) - 1 := 0]"
proof -
  let ?len = "unat (info_len (w_info s))"
  note b = image_readyD [OF assms(1)]
  let ?s = "s\<lparr>w_out := \<lparr>out_bytes = [], out_pos = 0, out_capacity = cap, out_gz = False, out_sparse = False,
           out_cur_out_ptr = 0, out_chunk_cnt = 0, out_crc32 = 0, out_closed = False\<rparr>\<rparr>"
  have op: "open_output_file (Some cap) False False s = Inr (True, ?s)"
    by (simp add: open_output_file_def prog_simps upd_out_def)
  have at: "at_plain k ?len 0 (length ps) [] ?s" using assms(2) b by (simp add: at_plain_def image_of_def)
  obtain t m n where t: "write_ext4_image files (Some cap) False False s =
        sq (pad_output_file (info_len (w_info ?s))) close_output_file t"
      "at_plain k ?len (pieces_end (2 ^ k) 0 ps) 0 ps t" "same_but_out (with_buffer ?s m n) t"
    using plain.image_run [OF op at assms(1) _ _ _ _ _ b(8)] by auto
  have "w_info t = w_info s" using same_but_out_frame(1) [OF t(3)] by simp
  moreover have "0 < ?len" by (rule image_ready_pos [OF assms(1)])
  ultimately show ?thesis using finish_plain_run [OF t(2)] t(1) by simp
qed

theorem plain_image_witness:
  "\<exists>s'. write_ext4_image demo_files (Some 40000) False False demo_image = Inr ((), s') \<and>
    out_bytes (w_out s') = (image_of 32768 demo_pieces)[32767 := 0]"
proof -
  have "w_info demo_image = demo_info" "unat (info_len demo_info) = 32768" by (simp_all add: demo_image_def demo_info_def)
  then show ?thesis using plain_image [OF demo_ready, of 40000] by simp
qed

end
