(* ===== verification/Tool_Monad.thy ===== *)
theory Tool_Monad
  imports Prelude
begin

text \<open>
  Command-line tools as state-passing functions: \<open>exit\<close> keeps what has been done to the device and to
  the standard streams, so a program gives its result, or the way it stopped, together with the
  state.  \<open>Crashes\<close> is undefined behaviour, \<open>Hangs\<close> a loop out of fuel.
\<close>

datatype stop = Exits int | Crashes | Hangs

text \<open>The state: the devices behind the kernel, the bytes still on standard input, the bytes written to
  standard output.  Messages on standard error are not part of it.\<close>

record 'd io =
  io_dev :: 'd
  io_in :: "u8 list"
  io_out :: "u8 list"

type_synonym ('d, 'a) tool = "'d io \<Rightarrow> (stop + 'a) \<times> 'd io"

named_theorems tool_simps

definition give :: "'a \<Rightarrow> ('d, 'a) tool" where
  "give x s = (Inr x, s)"

definition stop_with :: "stop \<Rightarrow> ('d, 'a) tool" where
  "stop_with e s = (Inl e, s)"

definition and_then :: "('d, 'a) tool \<Rightarrow> ('a \<Rightarrow> ('d, 'b) tool) \<Rightarrow> ('d, 'b) tool" where
  "and_then m f s = (case m s of (Inl e, t) \<Rightarrow> (Inl e, t) | (Inr x, t) \<Rightarrow> f x t)"

definition before :: "('d, 'a) tool \<Rightarrow> ('d, 'b) tool \<Rightarrow> ('d, 'b) tool" where
  "before m n = and_then m (\<lambda>_. n)"

definition on_dev :: "('d \<Rightarrow> 'a \<times> 'd) \<Rightarrow> ('d, 'a) tool" where
  "on_dev f s = (case f (io_dev s) of (x, d) \<Rightarrow> (Inr x, s\<lparr>io_dev := d\<rparr>))"

definition put_out :: "u8 list \<Rightarrow> ('d, unit) tool" where
  "put_out bs s = (Inr (), s\<lparr>io_out := io_out s @ bs\<rparr>)"

text \<open>\<open>getchar\<close>: \<open>None\<close> is \<open>EOF\<close>.\<close>

definition get_char :: "('d, u8 option) tool" where
  "get_char s = (case io_in s of [] \<Rightarrow> (Inr None, s) | c # cs \<Rightarrow> (Inr (Some c), s\<lparr>io_in := cs\<rparr>))"

text \<open>A loop: the step gives \<open>Inl r\<close> when it is over.\<close>

fun repeat :: "nat \<Rightarrow> ('x \<Rightarrow> ('d, 'r + 'x) tool) \<Rightarrow> 'x \<Rightarrow> ('d, 'r) tool" where
  "repeat 0 step x = stop_with Hangs"
| "repeat (Suc n) step x = and_then (step x) (\<lambda>r. case r of Inl v \<Rightarrow> give v | Inr y \<Rightarrow> repeat n step y)"

lemma tool_run [tool_simps]:
  "give x1 s1 = (Inr x1, s1)"
  "stop_with e2 s2 = (Inl e2, s2)"
  "before m3 n3 s3 = and_then m3 (\<lambda>_. n3) s3"
  "put_out bs4 s4 = (Inr (), s4\<lparr>io_out := io_out s4 @ bs4\<rparr>)"
  "on_dev f5 s5 = (Inr (fst (f5 (io_dev s5))), s5\<lparr>io_dev := snd (f5 (io_dev s5))\<rparr>)"
  by (simp_all add: give_def stop_with_def before_def put_out_def on_dev_def split: prod.split)

lemma and_then_run [tool_simps]:
  "and_then (give x1) f1 s1 = f1 x1 s1"
  "and_then (stop_with e2) f2 s2 = (Inl e2, s2)"
  "and_then (before m3 n3) f3 s3 = and_then m3 (\<lambda>_. and_then n3 f3) s3"
  "and_then (and_then m4 g4) f4 s4 = and_then m4 (\<lambda>x. and_then (g4 x) f4) s4"
  "and_then (put_out bs5) f5 s5 = f5 () (s5\<lparr>io_out := io_out s5 @ bs5\<rparr>)"
  "and_then (on_dev g6) f6 s6 = f6 (fst (g6 (io_dev s6))) (s6\<lparr>io_dev := snd (g6 (io_dev s6))\<rparr>)"
  "and_then (if c then m7 else n7) f7 s7 = (if c then and_then m7 f7 s7 else and_then n7 f7 s7)"
  by (simp_all add: and_then_def give_def stop_with_def before_def put_out_def on_dev_def split: sum.splits prod.splits)

lemma io_dev_inject [simp]: "s\<lparr>io_dev := a\<rparr> = s\<lparr>io_dev := b\<rparr> \<longleftrightarrow> a = b"
  by (metis io.select_convs(1) io.surjective io.update_convs(1))

lemma and_then_ok: "m s = (Inr x, t) \<Longrightarrow> and_then m f s = f x t"
  by (simp add: and_then_def)

lemma and_then_into: "m s = (Inr x, t) \<Longrightarrow> f x t = r \<Longrightarrow> and_then m f s = r"
  by (simp add: and_then_def)

lemma and_then_stop: "m s = (Inl e, t) \<Longrightarrow> and_then m f s = (Inl e, t)"
  by (simp add: and_then_def)

section \<open>Numbers on the command line\<close>

text \<open>The C library's \<open>strtol\<close> and \<open>strtoul\<close> with base 0 on a string given by its bytes: white space,
  a sign, \<open>0x\<close> for hexadecimal, \<open>0\<close> for octal; a \<open>long\<close> has 64 bits.  Without digits the value is 0 and
  the rest is the whole string.\<close>

definition digit_of :: "u8 \<Rightarrow> nat" where
  "digit_of c =
     (if 48 \<le> c \<and> c \<le> 57 then unat c - 48
      else if 97 \<le> c \<and> c \<le> 122 then unat c - 87
      else if 65 \<le> c \<and> c \<le> 90 then unat c - 55 else 99)"

definition blank :: "u8 \<Rightarrow> bool" where
  "blank c \<longleftrightarrow> c = 32 \<or> 9 \<le> c \<and> c \<le> 13"

definition number_body :: "u8 list \<Rightarrow> (nat \<times> u8 list) option" where
  "number_body cs =
     (let (base, cs) =
        (if length cs > 2 \<and> cs ! 0 = 48 \<and> (cs ! 1 = 120 \<or> cs ! 1 = 88) \<and> digit_of (cs ! 2) < 16 then (16, drop 2 cs)
         else if cs \<noteq> [] \<and> hd cs = 48 then (8, cs) else (10 :: nat, cs));
          ds = takeWhile (\<lambda>c. digit_of c < base) cs
      in if ds = [] then None else Some (foldl (\<lambda>v c. base * v + digit_of c) 0 ds, dropWhile (\<lambda>c. digit_of c < base) cs))"

definition number_sign :: "u8 list \<Rightarrow> bool \<times> u8 list" where
  "number_sign cs = (let cs = dropWhile blank cs in
     if cs \<noteq> [] \<and> hd cs = 45 then (True, tl cs) else if cs \<noteq> [] \<and> hd cs = 43 then (False, tl cs) else (False, cs))"

definition strtol :: "u8 list \<Rightarrow> int \<times> u8 list" where
  "strtol arg = (case number_sign arg of (neg, cs) \<Rightarrow> (case number_body cs of
     None \<Rightarrow> (0, arg)
   | Some (v, rest) \<Rightarrow> (if neg then max (- (2 ^ 63)) (- int v) else min (2 ^ 63 - 1) (int v), rest)))"

definition strtoul :: "u8 list \<Rightarrow> nat \<times> u8 list" where
  "strtoul arg = (case number_sign arg of (neg, cs) \<Rightarrow> (case number_body cs of
     None \<Rightarrow> (0, arg)
   | Some (v, rest) \<Rightarrow> (if 2 ^ 64 \<le> v then 2 ^ 64 - 1 else if neg then (2 ^ 64 - v) mod 2 ^ 64 else v, rest)))"

text \<open>Assigning a \<open>long\<close> to an \<open>int\<close> keeps its low 32 bits.\<close>

definition to_int32 :: "int \<Rightarrow> int" where
  "to_int32 v = sint (word_of_int v :: u32)"

text \<open>Hexadecimal output, as \<open>printf\<close> with a minimal number of digits.\<close>

definition hex_char :: "nat \<Rightarrow> u8" where
  "hex_char n = (if n < 10 then of_nat (48 + n) else of_nat (87 + n))"

fun hex_digits :: "nat \<Rightarrow> u8 list" where
  "hex_digits n = (if n < 16 then [hex_char n] else hex_digits (n div 16) @ [hex_char (n mod 16)])"

declare hex_digits.simps [simp del]

definition hex_padded :: "nat \<Rightarrow> nat \<Rightarrow> u8 list" where
  "hex_padded w n = replicate (w - length (hex_digits n)) 48 @ hex_digits n"

text \<open>Decimal output, as \<open>printf\<close>.\<close>

fun dec_digits :: "nat \<Rightarrow> u8 list" where
  "dec_digits n = (if n < 10 then [of_nat (48 + n)] else dec_digits (n div 10) @ [of_nat (48 + n mod 10)])"

declare dec_digits.simps [simp del]

definition dec_int :: "int \<Rightarrow> u8 list" where
  "dec_int n = (if n < 0 then 45 # dec_digits (nat (- n)) else dec_digits (nat n))"

definition bytes_of :: "string \<Rightarrow> u8 list" where
  "bytes_of s = map of_char s"

end
