(* ===== verification/I2c_Dev.thy ===== *)
theory I2c_Dev
  imports Tool_Monad
begin

text \<open>
  \<open>include/linux/i2c-dev.h\<close> of \<open>i2c-tools-3.0.0\<close>: the SMBus transactions, each one \<open>ioctl\<close> on an
  adapter.  The kernel is a parameter: a record of what its system calls do to the devices \<open>'d\<close> behind
  it.  The union of the transaction data is its 34 bytes; one that is not initialised holds whatever
  was on the stack, \<open>k_junk\<close>.
\<close>

text \<open>\<open>struct i2c_smbus_ioctl_data\<close>: direction, command, kind of transaction, and the data (\<open>None\<close> for a
  null pointer).\<close>

record smbus_args =
  sm_read_write :: u8
  sm_command :: u8
  sm_size :: nat
  sm_data :: "u8 list option"

text \<open>\<open>struct i2c_msg\<close>.\<close>

record i2c_msg =
  msg_addr :: u16
  msg_flags :: u16
  msg_buf :: "u8 list"

text \<open>\<open>k_open\<close> takes a name and the flags and gives a descriptor or the error number; \<open>k_funcs\<close> gives the
  functionality or an error number, \<open>k_slave\<close> (its first argument tells \<open>I2C_SLAVE_FORCE\<close> from
  \<open>I2C_SLAVE\<close>) the error number if there is one, \<open>k_pec\<close> whether the call worked; \<open>k_smbus\<close> and
  \<open>k_rdwr\<close> the result of the call and the data as the kernel leaves them; \<open>k_read\<close> the bytes read, fewer
  than asked for at the end of a file, \<open>k_write\<close> the number of bytes written or -1.\<close>

record 'd kernel =
  k_open :: "u8 list \<Rightarrow> nat \<Rightarrow> 'd \<Rightarrow> (int + int) \<times> 'd"
  k_close :: "int \<Rightarrow> 'd \<Rightarrow> 'd"
  k_funcs :: "int \<Rightarrow> 'd \<Rightarrow> (int + u32) \<times> 'd"
  k_slave :: "bool \<Rightarrow> int \<Rightarrow> int \<Rightarrow> 'd \<Rightarrow> int option \<times> 'd"
  k_pec :: "int \<Rightarrow> int \<Rightarrow> 'd \<Rightarrow> bool \<times> 'd"
  k_flush :: "int \<Rightarrow> 'd \<Rightarrow> 'd"
  k_smbus :: "int \<Rightarrow> smbus_args \<Rightarrow> 'd \<Rightarrow> (int \<times> u8 list) \<times> 'd"
  k_rdwr :: "int \<Rightarrow> i2c_msg \<Rightarrow> 'd \<Rightarrow> (int \<times> u8 list) \<times> 'd"
  k_read :: "int \<Rightarrow> nat \<Rightarrow> 'd \<Rightarrow> u8 list option \<times> 'd"
  k_write :: "int \<Rightarrow> u8 list \<Rightarrow> 'd \<Rightarrow> int \<times> 'd"
  k_junk :: "'d \<Rightarrow> u8 list"

section \<open>Constants\<close>

definition I2C_FUNC_I2C :: u32 where "I2C_FUNC_I2C = 0x00000001"
definition I2C_FUNC_SMBUS_PEC :: u32 where "I2C_FUNC_SMBUS_PEC = 0x00000008"
definition I2C_FUNC_SMBUS_BLOCK_PROC_CALL :: u32 where "I2C_FUNC_SMBUS_BLOCK_PROC_CALL = 0x00008000"
definition I2C_FUNC_SMBUS_QUICK :: u32 where "I2C_FUNC_SMBUS_QUICK = 0x00010000"
definition I2C_FUNC_SMBUS_READ_BYTE :: u32 where "I2C_FUNC_SMBUS_READ_BYTE = 0x00020000"
definition I2C_FUNC_SMBUS_WRITE_BYTE :: u32 where "I2C_FUNC_SMBUS_WRITE_BYTE = 0x00040000"
definition I2C_FUNC_SMBUS_READ_BYTE_DATA :: u32 where "I2C_FUNC_SMBUS_READ_BYTE_DATA = 0x00080000"
definition I2C_FUNC_SMBUS_WRITE_BYTE_DATA :: u32 where "I2C_FUNC_SMBUS_WRITE_BYTE_DATA = 0x00100000"
definition I2C_FUNC_SMBUS_READ_WORD_DATA :: u32 where "I2C_FUNC_SMBUS_READ_WORD_DATA = 0x00200000"
definition I2C_FUNC_SMBUS_WRITE_WORD_DATA :: u32 where "I2C_FUNC_SMBUS_WRITE_WORD_DATA = 0x00400000"
definition I2C_FUNC_SMBUS_PROC_CALL :: u32 where "I2C_FUNC_SMBUS_PROC_CALL = 0x00800000"
definition I2C_FUNC_SMBUS_READ_BLOCK_DATA :: u32 where "I2C_FUNC_SMBUS_READ_BLOCK_DATA = 0x01000000"
definition I2C_FUNC_SMBUS_WRITE_BLOCK_DATA :: u32 where "I2C_FUNC_SMBUS_WRITE_BLOCK_DATA = 0x02000000"
definition I2C_FUNC_SMBUS_READ_I2C_BLOCK :: u32 where "I2C_FUNC_SMBUS_READ_I2C_BLOCK = 0x04000000"
definition I2C_FUNC_SMBUS_WRITE_I2C_BLOCK :: u32 where "I2C_FUNC_SMBUS_WRITE_I2C_BLOCK = 0x08000000"

definition I2C_FUNC_SMBUS_BYTE :: u32 where
  "I2C_FUNC_SMBUS_BYTE = I2C_FUNC_SMBUS_READ_BYTE OR I2C_FUNC_SMBUS_WRITE_BYTE"
definition I2C_FUNC_SMBUS_BYTE_DATA :: u32 where
  "I2C_FUNC_SMBUS_BYTE_DATA = I2C_FUNC_SMBUS_READ_BYTE_DATA OR I2C_FUNC_SMBUS_WRITE_BYTE_DATA"
definition I2C_FUNC_SMBUS_WORD_DATA :: u32 where
  "I2C_FUNC_SMBUS_WORD_DATA = I2C_FUNC_SMBUS_READ_WORD_DATA OR I2C_FUNC_SMBUS_WRITE_WORD_DATA"

definition I2C_SMBUS_READ :: u8 where "I2C_SMBUS_READ = 1"
definition I2C_SMBUS_WRITE :: u8 where "I2C_SMBUS_WRITE = 0"
definition I2C_SMBUS_QUICK :: nat where "I2C_SMBUS_QUICK = 0"
definition I2C_SMBUS_BYTE :: nat where "I2C_SMBUS_BYTE = 1"
definition I2C_SMBUS_BYTE_DATA :: nat where "I2C_SMBUS_BYTE_DATA = 2"
definition I2C_SMBUS_WORD_DATA :: nat where "I2C_SMBUS_WORD_DATA = 3"
definition I2C_SMBUS_PROC_CALL :: nat where "I2C_SMBUS_PROC_CALL = 4"
definition I2C_SMBUS_BLOCK_DATA :: nat where "I2C_SMBUS_BLOCK_DATA = 5"
definition I2C_SMBUS_I2C_BLOCK_BROKEN :: nat where "I2C_SMBUS_I2C_BLOCK_BROKEN = 6"
definition I2C_SMBUS_BLOCK_PROC_CALL :: nat where "I2C_SMBUS_BLOCK_PROC_CALL = 7"
definition I2C_SMBUS_I2C_BLOCK_DATA :: nat where "I2C_SMBUS_I2C_BLOCK_DATA = 8"
definition I2C_M_RD :: u16 where "I2C_M_RD = 1"

definition O_RDONLY :: nat where "O_RDONLY = 0"
definition O_WRONLY_CREAT :: nat where "O_WRONLY_CREAT = 65"
definition O_RDWR :: nat where "O_RDWR = 2"
definition ENOENT :: int where "ENOENT = 2"
definition EBUSY :: int where "EBUSY = 16"

section \<open>Transactions\<close>

definition i2c_smbus_access :: "'d kernel \<Rightarrow> int \<Rightarrow> u8 \<Rightarrow> u8 \<Rightarrow> nat \<Rightarrow> u8 list option \<Rightarrow> ('d, int \<times> u8 list) tool" where
  "i2c_smbus_access K file read_write command sz data =
     on_dev (k_smbus K file \<lparr>sm_read_write = read_write, sm_command = command, sm_size = sz, sm_data = data\<rparr>)"

definition junk :: "'d kernel \<Rightarrow> ('d, u8 list) tool" where
  "junk K = on_dev (\<lambda>d. (k_junk K d, d))"

definition i2c_smbus_write_quick :: "'d kernel \<Rightarrow> int \<Rightarrow> u8 \<Rightarrow> ('d, int) tool" where
  "i2c_smbus_write_quick K file val =
     and_then (i2c_smbus_access K file val 0 I2C_SMBUS_QUICK None) (\<lambda>(r, _). give r)"

definition i2c_smbus_read_byte :: "'d kernel \<Rightarrow> int \<Rightarrow> ('d, int) tool" where
  "i2c_smbus_read_byte K file = and_then (junk K) (\<lambda>data.
     and_then (i2c_smbus_access K file I2C_SMBUS_READ 0 I2C_SMBUS_BYTE (Some data)) (\<lambda>(r, data).
     give (if r \<noteq> 0 then - 1 else uint (data ! 0 AND 0xFF))))"

definition i2c_smbus_write_byte :: "'d kernel \<Rightarrow> int \<Rightarrow> u8 \<Rightarrow> ('d, int) tool" where
  "i2c_smbus_write_byte K file val =
     and_then (i2c_smbus_access K file I2C_SMBUS_WRITE val I2C_SMBUS_BYTE None) (\<lambda>(r, _). give r)"

definition i2c_smbus_read_byte_data :: "'d kernel \<Rightarrow> int \<Rightarrow> u8 \<Rightarrow> ('d, int) tool" where
  "i2c_smbus_read_byte_data K file command = and_then (junk K) (\<lambda>data.
     and_then (i2c_smbus_access K file I2C_SMBUS_READ command I2C_SMBUS_BYTE_DATA (Some data)) (\<lambda>(r, data).
     give (if r \<noteq> 0 then - 1 else uint (data ! 0 AND 0xFF))))"

definition i2c_smbus_write_byte_data :: "'d kernel \<Rightarrow> int \<Rightarrow> u8 \<Rightarrow> u8 \<Rightarrow> ('d, int) tool" where
  "i2c_smbus_write_byte_data K file command val = and_then (junk K) (\<lambda>data.
     and_then (i2c_smbus_access K file I2C_SMBUS_WRITE command I2C_SMBUS_BYTE_DATA (Some (put_u8 data 0 val))) (\<lambda>(r, _).
     give r))"

definition i2c_smbus_read_word_data :: "'d kernel \<Rightarrow> int \<Rightarrow> u8 \<Rightarrow> ('d, int) tool" where
  "i2c_smbus_read_word_data K file command = and_then (junk K) (\<lambda>data.
     and_then (i2c_smbus_access K file I2C_SMBUS_READ command I2C_SMBUS_WORD_DATA (Some data)) (\<lambda>(r, data).
     give (if r \<noteq> 0 then - 1 else uint (get_u16 data 0 AND 0xFFFF))))"

definition i2c_smbus_write_word_data :: "'d kernel \<Rightarrow> int \<Rightarrow> u8 \<Rightarrow> u16 \<Rightarrow> ('d, int) tool" where
  "i2c_smbus_write_word_data K file command val = and_then (junk K) (\<lambda>data.
     and_then (i2c_smbus_access K file I2C_SMBUS_WRITE command I2C_SMBUS_WORD_DATA (Some (put_u16 data 0 val))) (\<lambda>(r, _).
     give r))"

definition i2c_smbus_process_call :: "'d kernel \<Rightarrow> int \<Rightarrow> u8 \<Rightarrow> u16 \<Rightarrow> ('d, int) tool" where
  "i2c_smbus_process_call K file command val = and_then (junk K) (\<lambda>data.
     and_then (i2c_smbus_access K file I2C_SMBUS_WRITE command I2C_SMBUS_PROC_CALL (Some (put_u16 data 0 val))) (\<lambda>(r, data).
     give (if r \<noteq> 0 then - 1 else uint (get_u16 data 0 AND 0xFFFF))))"

text \<open>The bytes \<open>data.block[1]\<close> to \<open>data.block[data.block[0]]\<close>; the union ends after 34 bytes.\<close>

definition block_values :: "u8 list \<Rightarrow> ('d, int \<times> u8 list) tool" where
  "block_values data = (let n = unat (data ! 0) in
     if length data \<le> n then stop_with Crashes else give (int n, get_bytes data 1 n))"

text \<open>The first \<open>length\<close> of the values, at most 32, behind their number.\<close>

definition block_of :: "u8 list \<Rightarrow> nat \<Rightarrow> u8 list \<Rightarrow> u8 list" where
  "block_of data len vals = put_bytes (put_bytes data 1 (take (min len 32) vals)) 0 [of_nat (min len 32)]"

definition i2c_smbus_read_block_data :: "'d kernel \<Rightarrow> int \<Rightarrow> u8 \<Rightarrow> ('d, int \<times> u8 list) tool" where
  "i2c_smbus_read_block_data K file command = and_then (junk K) (\<lambda>data.
     and_then (i2c_smbus_access K file I2C_SMBUS_READ command I2C_SMBUS_BLOCK_DATA (Some data)) (\<lambda>(r, data).
     if r \<noteq> 0 then give (- 1, []) else block_values data))"

definition i2c_smbus_write_block_data :: "'d kernel \<Rightarrow> int \<Rightarrow> u8 \<Rightarrow> nat \<Rightarrow> u8 list \<Rightarrow> ('d, int) tool" where
  "i2c_smbus_write_block_data K file command len vals = and_then (junk K) (\<lambda>data.
     and_then (i2c_smbus_access K file I2C_SMBUS_WRITE command I2C_SMBUS_BLOCK_DATA (Some (block_of data len vals))) (\<lambda>(r, _).
     give r))"

definition i2c_smbus_read_i2c_block_data :: "'d kernel \<Rightarrow> int \<Rightarrow> u8 \<Rightarrow> nat \<Rightarrow> ('d, int \<times> u8 list) tool" where
  "i2c_smbus_read_i2c_block_data K file command len = and_then (junk K) (\<lambda>data.
     let len = min len 32 in
     and_then (i2c_smbus_access K file I2C_SMBUS_READ command
         (if len = 32 then I2C_SMBUS_I2C_BLOCK_BROKEN else I2C_SMBUS_I2C_BLOCK_DATA) (Some (put_bytes data 0 [of_nat len]))) (\<lambda>(r, data).
     if r \<noteq> 0 then give (- 1, []) else block_values data))"

definition i2c_smbus_write_i2c_block_data :: "'d kernel \<Rightarrow> int \<Rightarrow> u8 \<Rightarrow> nat \<Rightarrow> u8 list \<Rightarrow> ('d, int) tool" where
  "i2c_smbus_write_i2c_block_data K file command len vals = and_then (junk K) (\<lambda>data.
     and_then (i2c_smbus_access K file I2C_SMBUS_WRITE command I2C_SMBUS_I2C_BLOCK_BROKEN (Some (block_of data len vals))) (\<lambda>(r, _).
     give r))"

definition i2c_smbus_block_process_call :: "'d kernel \<Rightarrow> int \<Rightarrow> u8 \<Rightarrow> nat \<Rightarrow> u8 list \<Rightarrow> ('d, int \<times> u8 list) tool" where
  "i2c_smbus_block_process_call K file command len vals = and_then (junk K) (\<lambda>data.
     and_then (i2c_smbus_access K file I2C_SMBUS_WRITE command I2C_SMBUS_BLOCK_PROC_CALL (Some (block_of data len vals))) (\<lambda>(r, data).
     if r \<noteq> 0 then give (- 1, []) else block_values data))"

end
