(* ===== verification/I2c_Bus.thy ===== *)
theory I2c_Bus
  imports I2c_Dev
begin

text \<open>
  What the four tools of \<open>i2c-tools-3.0.0/tools\<close> share: \<open>i2cbusses.c\<close>, which opens an adapter, sets the
  chip address and lists the installed adapters, and \<open>util.c\<close>, which asks the user.  The files of
  \<open>/proc\<close> and \<open>/sys\<close> are parameters of the listing.
\<close>

section \<open>\<open>util.c\<close>\<close>

text \<open>After the first character the rest of the line is dropped; a line that the end of the input cuts
  off counts as a refusal.\<close>

fun flush_line :: "u8 list \<Rightarrow> bool \<times> u8 list" where
  "flush_line [] = (False, [])"
| "flush_line (c # cs) = (if c = 10 then (True, cs) else flush_line cs)"

definition user_ack :: "bool \<Rightarrow> ('d, bool) tool" where
  "user_ack dflt s =
     (case io_in s of
        [] \<Rightarrow> (Inr False, s)
      | c # cs \<Rightarrow>
          let ret = (if c = 121 \<or> c = 89 then True else if c = 110 \<or> c = 78 then False else dflt);
              (ended, cs') = (if c = 10 then (True, cs) else flush_line cs)
          in (Inr (ret \<and> ended), s\<lparr>io_in := cs'\<rparr>))"

section \<open>Opening an adapter\<close>

text \<open>\<open>open_i2c_dev\<close> tries the name with a directory first and the flat one when there is no such file.
  The caller's buffer has 20 bytes.  The result is the descriptor or the error number, with the name.\<close>

definition dir_name :: "int \<Rightarrow> u8 list" where
  "dir_name i2cbus = bytes_of ''/dev/i2c/'' @ dec_int i2cbus"

definition flat_name :: "int \<Rightarrow> u8 list" where
  "flat_name i2cbus = bytes_of ''/dev/i2c-'' @ dec_int i2cbus"

definition open_i2c_dev :: "'d kernel \<Rightarrow> int \<Rightarrow> ('d, (int + int) \<times> u8 list) tool" where
  "open_i2c_dev K i2cbus =
     (if 20 \<le> length (dir_name i2cbus) then stop_with Crashes
      else and_then (on_dev (k_open K (dir_name i2cbus) O_RDWR)) (\<lambda>r.
        if r = Inl ENOENT
        then and_then (on_dev (k_open K (flat_name i2cbus) O_RDWR)) (\<lambda>r. give (r, flat_name i2cbus))
        else give (r, dir_name i2cbus)))"

definition set_slave_addr :: "'d kernel \<Rightarrow> int \<Rightarrow> int \<Rightarrow> bool \<Rightarrow> ('d, int) tool" where
  "set_slave_addr K file address force =
     and_then (on_dev (k_slave K force file address)) (\<lambda>r. give (case r of Some errno \<Rightarrow> - errno | None \<Rightarrow> 0))"

definition close_dev :: "'d kernel \<Rightarrow> int \<Rightarrow> ('d, unit) tool" where
  "close_dev K file = on_dev (\<lambda>d. ((), k_close K file d))"

section \<open>Listing the adapters\<close>

datatype adt = adt_dummy | adt_isa | adt_i2c | adt_smbus | adt_unknown

text \<open>The table \<open>adap_types\<close>.\<close>

fun adt_funcs :: "adt \<Rightarrow> u8 list" where
  "adt_funcs adt_dummy = bytes_of ''dummy''"
| "adt_funcs adt_isa = bytes_of ''isa''"
| "adt_funcs adt_i2c = bytes_of ''i2c''"
| "adt_funcs adt_smbus = bytes_of ''smbus''"
| "adt_funcs adt_unknown = bytes_of ''unknown''"

fun adt_algo :: "adt \<Rightarrow> u8 list" where
  "adt_algo adt_dummy = bytes_of ''Dummy bus''"
| "adt_algo adt_isa = bytes_of ''ISA bus''"
| "adt_algo adt_i2c = bytes_of ''I2C adapter''"
| "adt_algo adt_smbus = bytes_of ''SMBus adapter''"
| "adt_algo adt_unknown = bytes_of ''N/A''"

definition i2c_get_funcs :: "'d kernel \<Rightarrow> int \<Rightarrow> ('d, adt) tool" where
  "i2c_get_funcs K i2cbus =
     and_then (open_i2c_dev K i2cbus) (\<lambda>(r, filename). case r of
       Inl _ \<Rightarrow> give adt_unknown
     | Inr file \<Rightarrow>
         and_then (on_dev (k_funcs K file)) (\<lambda>r.
         let ret = (case r of
             Inl _ \<Rightarrow> adt_unknown
           | Inr funcs \<Rightarrow>
               if funcs AND I2C_FUNC_I2C \<noteq> 0 then adt_i2c
               else if funcs AND (I2C_FUNC_SMBUS_BYTE OR I2C_FUNC_SMBUS_BYTE_DATA OR I2C_FUNC_SMBUS_WORD_DATA) \<noteq> 0
               then adt_smbus else adt_dummy)
         in before (close_dev K file) (give ret)))"

text \<open>The files of the system: the bytes of a file and the entries of a directory, by name.\<close>

record system_files =
  sf_file :: "u8 list \<Rightarrow> u8 list option"
  sf_dir :: "u8 list \<Rightarrow> u8 list list option"

text \<open>The strings that successive calls of \<open>fgets\<close> with a buffer of \<open>n\<close> bytes give.\<close>

definition fgets_one :: "nat \<Rightarrow> u8 list \<Rightarrow> u8 list \<times> u8 list" where
  "fgets_one n cs =
     (let line = takeWhile (\<lambda>c. c \<noteq> 10) cs;
          line = (if length line < length cs then line @ [10] else line);
          line = take (n - 1) line
      in (line, drop (length line) cs))"

function fgets_all :: "nat \<Rightarrow> u8 list \<Rightarrow> u8 list list" where
  "fgets_all n cs =
     (if n < 2 \<or> cs = [] then []
      else fst (fgets_one n cs) # fgets_all n (snd (fgets_one n cs)))"
  by pat_completeness auto
termination
proof (relation "measure (\<lambda>(n, cs). length cs)", goal_cases)
  case (2 n cs)
  then have "0 < length (fst (fgets_one n cs))" and "snd (fgets_one n cs) = drop (length (fst (fgets_one n cs))) cs"
    by (auto simp: fgets_one_def Let_def neq_Nil_conv)
  with 2 show ?case by auto
qed auto

declare fgets_all.simps [simp del]

text \<open>A C string ends at its first zero byte.\<close>

definition c_str :: "u8 list \<Rightarrow> u8 list" where
  "c_str cs = takeWhile (\<lambda>c. c \<noteq> 0) cs"

text \<open>\<open>sscanf(n, "%[^ ] %[^ ] %[^ ] ...")\<close>: up to three words between white space.\<close>

definition scan_word :: "u8 list \<Rightarrow> (u8 list \<times> u8 list) option" where
  "scan_word cs = (let w = takeWhile (\<lambda>c. c \<noteq> 32) cs in
     if w = [] then None else Some (w, dropWhile blank (drop (length w) cs)))"

text \<open>What the words of one line make of the three buffers; \<open>None\<close> is a buffer not yet written.\<close>

definition scan_mount :: "u8 list \<Rightarrow> u8 list option \<times> u8 list option \<Rightarrow> u8 list option \<times> u8 list option" where
  "scan_mount line = (\<lambda>(sysfs, fstype). case scan_word (c_str line) of
      None \<Rightarrow> (sysfs, fstype)
    | Some (_, cs) \<Rightarrow> (case scan_word cs of
        None \<Rightarrow> (sysfs, fstype)
      | Some (sysfs, cs) \<Rightarrow> (case scan_word cs of
          None \<Rightarrow> (Some sysfs, fstype)
        | Some (fstype, _) \<Rightarrow> (Some sysfs, Some fstype))))"

definition to_lower :: "u8 \<Rightarrow> u8" where
  "to_lower c = (if 65 \<le> c \<and> c \<le> 90 then c + 32 else c)"

text \<open>The loop over \<open>/proc/mounts\<close>: where \<open>sysfs\<close> is mounted; comparing a buffer that was never written
  is undefined.\<close>

fun find_sysfs :: "u8 list list \<Rightarrow> u8 list option \<times> u8 list option \<Rightarrow> stop + u8 list option" where
  "find_sysfs [] st = Inr None"
| "find_sysfs (line # lines) st = (case scan_mount line st of
     (Some sysfs, Some fstype) \<Rightarrow>
       if map to_lower fstype = bytes_of ''sysfs'' then Inr (Some sysfs)
       else find_sysfs lines (Some sysfs, Some fstype)
   | _ \<Rightarrow> Inl Crashes)"

text \<open>\<open>sscanf(name, "i2c-%d", &i2cbus)\<close>: no conversion (0), the end of the input before one (-1), or the
  number.\<close>

datatype scan_bus = No_Match | Input_End | Bus int

definition scan_int :: "u8 list \<Rightarrow> scan_bus" where
  "scan_int cs =
     (let cs = dropWhile blank cs;
          (neg, ds) = (if cs \<noteq> [] \<and> hd cs = 45 then (True, tl cs)
                       else if cs \<noteq> [] \<and> hd cs = 43 then (False, tl cs) else (False, cs));
          ds = takeWhile (\<lambda>c. 48 \<le> c \<and> c \<le> 57) ds;
          v = int (foldl (\<lambda>v c. 10 * v + digit_of c) 0 ds)
      in if cs = [] then Input_End else if ds = [] then No_Match
         else Bus (to_int32 (if neg then max (- (2 ^ 63)) (- v) else min (2 ^ 63 - 1) v)))"

fun scan_literal :: "u8 list \<Rightarrow> u8 list \<Rightarrow> scan_bus" where
  "scan_literal [] cs = scan_int cs"
| "scan_literal (p # ps) [] = Input_End"
| "scan_literal (p # ps) (c # cs) = (if p = c then scan_literal ps cs else No_Match)"

definition pad_right :: "nat \<Rightarrow> u8 list \<Rightarrow> u8 list" where
  "pad_right w cs = cs @ replicate (w - length cs) 32"

text \<open>The name of an adapter: its \<open>name\<close> file, the one of its device, or the first one of the entries
  \<open>i2c-\<close> of its device.  The buffer for a path has 255 bytes.\<close>

definition path_ok :: "u8 list \<Rightarrow> bool" where
  "path_ok p \<longleftrightarrow> length p < 255"

fun first_name :: "system_files \<Rightarrow> u8 list \<Rightarrow> u8 list list \<Rightarrow> stop + u8 list option" where
  "first_name F dir [] = Inr None"
| "first_name F dir (dde # es) =
     (if dde = bytes_of ''.'' \<or> dde = bytes_of ''..'' \<or> take 4 dde \<noteq> bytes_of ''i2c-'' then first_name F dir es
      else let n = dir @ bytes_of ''/'' @ dde @ bytes_of ''/name'' in
        if \<not> path_ok n then Inl Crashes
        else (case sf_file F n of Some x \<Rightarrow> Inr (Some x) | None \<Rightarrow> first_name F dir es))"

definition adapter_file :: "system_files \<Rightarrow> u8 list \<Rightarrow> stop + u8 list option" where
  "adapter_file F dir =
     (if \<not> path_ok (dir @ bytes_of ''/name'') then Inl Crashes
      else case sf_file F (dir @ bytes_of ''/name'') of Some x \<Rightarrow> Inr (Some x) | None \<Rightarrow>
       if \<not> path_ok (dir @ bytes_of ''/device/name'') then Inl Crashes
       else (case sf_file F (dir @ bytes_of ''/device/name'') of Some x \<Rightarrow> Inr (Some x) | None \<Rightarrow>
         (case sf_dir F (dir @ bytes_of ''/device'') of
            None \<Rightarrow> Inr None
          | Some es \<Rightarrow> first_name F (dir @ bytes_of ''/device'') es)))"

definition list_adapter :: "'d kernel \<Rightarrow> system_files \<Rightarrow> bool \<Rightarrow> u8 list \<Rightarrow> u8 list \<Rightarrow> ('d, unit) tool" where
  "list_adapter K F procfmt sysfs name =
     (if name = bytes_of ''.'' \<or> name = bytes_of ''..'' then give ()
      else case adapter_file F (sysfs @ bytes_of ''/'' @ name) of
        Inl e \<Rightarrow> stop_with e
      | Inr None \<Rightarrow> give ()
      | Inr (Some []) \<Rightarrow> give ()
      | Inr (Some cs) \<Rightarrow>
          let x = takeWhile (\<lambda>c. c \<noteq> 10) (c_str (fst (fgets_one 120 cs))) in
          and_then
            (if take 4 x = bytes_of ''ISA '' then give adt_isa
             else case scan_literal (bytes_of ''i2c-'') name of
               No_Match \<Rightarrow> give adt_dummy
             | Input_End \<Rightarrow> stop_with Crashes
             | Bus i2cbus \<Rightarrow> i2c_get_funcs K i2cbus) (\<lambda>type.
          if procfmt
          then put_out (name @ [9] @ pad_right 10 (adt_funcs type) @ [9] @ pad_right 32 x @ [9] @ adt_algo type @ [10])
          else give ()))"

fun list_adapters :: "'d kernel \<Rightarrow> system_files \<Rightarrow> bool \<Rightarrow> u8 list \<Rightarrow> u8 list list \<Rightarrow> ('d, unit) tool" where
  "list_adapters K F procfmt sysfs [] = give ()"
| "list_adapters K F procfmt sysfs (name # names) =
     before (list_adapter K F procfmt sysfs name) (list_adapters K F procfmt sysfs names)"

text \<open>\<open>print_i2c_busses\<close>: with \<open>procfmt\<close> on standard output, else on standard error, which is not
  modelled.\<close>

definition print_i2c_busses :: "'d kernel \<Rightarrow> system_files \<Rightarrow> bool \<Rightarrow> ('d, unit) tool" where
  "print_i2c_busses K F procfmt =
     (case sf_file F (bytes_of ''/proc/bus/i2c'') of
        Some cs \<Rightarrow> if procfmt then put_out (concat (map c_str (fgets_all 100 cs))) else give ()
      | None \<Rightarrow> (case sf_file F (bytes_of ''/proc/mounts'') of
          None \<Rightarrow> give ()
        | Some cs \<Rightarrow> (case find_sysfs (fgets_all 255 cs) (None, None) of
            Inl e \<Rightarrow> stop_with e
          | Inr None \<Rightarrow> give ()
          | Inr (Some sysfs) \<Rightarrow>
              let dir = sysfs @ bytes_of ''/class/i2c-dev'' in
              if \<not> path_ok dir then stop_with Crashes
              else (case sf_dir F dir of None \<Rightarrow> give () | Some names \<Rightarrow> list_adapters K F procfmt dir names))))"

text \<open>\<open>help\<close> of the four tools lists the adapters on standard error; its callers then exit with status 1.\<close>

definition show_help :: "'d kernel \<Rightarrow> system_files \<Rightarrow> ('d, 'a) tool" where
  "show_help K F = before (print_i2c_busses K F False) (stop_with (Exits 1))"

section \<open>The flags of the tools\<close>

text \<open>The character after the dash; the terminating zero byte when there is none.\<close>

definition char_at :: "u8 list \<Rightarrow> nat \<Rightarrow> u8" where
  "char_at cs i = (if i < length cs then cs ! i else 0)"

record flags =
  fl_force :: bool
  fl_yes :: bool
  fl_version :: bool

text \<open>The loop over the flags of \<open>i2cget\<close>, \<open>i2cset\<close> and \<open>i2cdump\<close>: the flags and the arguments behind
  them; only the first letter of an argument is looked at.\<close>

fun read_flags :: "'d kernel \<Rightarrow> system_files \<Rightarrow> flags \<Rightarrow> u8 list list \<Rightarrow> ('d, flags \<times> u8 list list) tool" where
  "read_flags K F fl [] = give (fl, [])"
| "read_flags K F fl (arg # args) =
     (if char_at arg 0 \<noteq> 45 then give (fl, arg # args)
      else if char_at arg 1 = 86 then read_flags K F (fl\<lparr>fl_version := True\<rparr>) args
      else if char_at arg 1 = 102 then read_flags K F (fl\<lparr>fl_force := True\<rparr>) args
      else if char_at arg 1 = 121 then read_flags K F (fl\<lparr>fl_yes := True\<rparr>) args
      else show_help K F)"

definition no_flags :: flags where
  "no_flags = \<lparr>fl_force = False, fl_yes = False, fl_version = False\<rparr>"

text \<open>An \<open>int\<close> argument: \<open>strtol\<close> into an \<open>int\<close>, and nothing may follow the number.\<close>

definition int_arg :: "u8 list \<Rightarrow> int option" where
  "int_arg arg = (case strtol arg of (v, tail) \<Rightarrow> if tail = [] then Some (to_int32 v) else None)"

definition ranged_arg :: "'d kernel \<Rightarrow> system_files \<Rightarrow> u8 list \<Rightarrow> int \<Rightarrow> int \<Rightarrow> ('d, int) tool" where
  "ranged_arg K F arg lo hi = (case int_arg arg of
     Some v \<Rightarrow> if lo \<le> v \<and> v \<le> hi then give v else show_help K F
   | None \<Rightarrow> show_help K F)"

end
