(* ===== verification/I2c_Tools.thy ===== *)
theory I2c_Tools
  imports I2c_Bus
begin

text \<open>
  \<open>i2cget\<close> and \<open>i2cset\<close>: each \<open>main\<close> in phases -- the arguments, the functionality of the adapter, the
  question to the user, the transaction -- composed as the code runs them.  A file that is still open
  when the process exits is closed by the kernel; that is not a step here.
\<close>

section \<open>\<open>i2cget\<close>\<close>

definition get_check_funcs :: "'d kernel \<Rightarrow> int \<Rightarrow> nat \<Rightarrow> int \<Rightarrow> ('d, int) tool" where
  "get_check_funcs K file sz daddress =
     and_then (on_dev (k_funcs K file)) (\<lambda>r. case r of
       Inl _ \<Rightarrow> give (- 1)
     | Inr funcs \<Rightarrow> give (
         if sz = I2C_SMBUS_BYTE then
           (if funcs AND I2C_FUNC_SMBUS_READ_BYTE = 0 then - 1
            else if 0 \<le> daddress \<and> funcs AND I2C_FUNC_SMBUS_WRITE_BYTE = 0 then - 1 else 0)
         else if sz = I2C_SMBUS_BYTE_DATA then (if funcs AND I2C_FUNC_SMBUS_READ_BYTE_DATA = 0 then - 1 else 0)
         else if sz = I2C_SMBUS_WORD_DATA then (if funcs AND I2C_FUNC_SMBUS_READ_WORD_DATA = 0 then - 1 else 0)
         else 0))"

definition get_confirm :: "int \<Rightarrow> nat \<Rightarrow> int \<Rightarrow> bool \<Rightarrow> ('d, bool) tool" where
  "get_confirm address sz daddress pec =
     (if 0x50 \<le> address \<and> address \<le> 0x57 \<and> pec then give False
      else let dont = (sz = I2C_SMBUS_BYTE \<and> 0 \<le> daddress \<and> pec) in user_ack (\<not> dont))"

record get_args =
  ga_bus :: int
  ga_address :: int
  ga_daddress :: int
  ga_size :: nat
  ga_pec :: bool

text \<open>\<open>argv[4]\<close> after the flags is the mode; without a data address a single byte is read.\<close>

definition get_mode :: "'d kernel \<Rightarrow> system_files \<Rightarrow> u8 list \<Rightarrow> ('d, nat \<times> bool) tool" where
  "get_mode K F arg =
     (if char_at arg 0 = 98 then give (I2C_SMBUS_BYTE_DATA, char_at arg 1 = 112)
      else if char_at arg 0 = 119 then give (I2C_SMBUS_WORD_DATA, char_at arg 1 = 112)
      else if char_at arg 0 = 99 then give (I2C_SMBUS_BYTE, char_at arg 1 = 112)
      else show_help K F)"

definition get_parse :: "'d kernel \<Rightarrow> system_files \<Rightarrow> u8 list list \<Rightarrow> ('d, get_args) tool" where
  "get_parse K F args =
     (if length args < 2 then show_help K F
      else and_then (ranged_arg K F (args ! 0) 0 0x3f) (\<lambda>i2cbus.
      and_then (ranged_arg K F (args ! 1) 3 0x77) (\<lambda>address.
      and_then (if length args \<le> 2 then give (I2C_SMBUS_BYTE, - 1)
                else and_then (ranged_arg K F (args ! 2) 0 0xff) (\<lambda>daddress. give (I2C_SMBUS_BYTE_DATA, daddress)))
        (\<lambda>(sz, daddress).
      and_then (if 3 < length args then get_mode K F (args ! 3) else give (sz, False)) (\<lambda>(sz, pec).
      give \<lparr>ga_bus = i2cbus, ga_address = address, ga_daddress = daddress, ga_size = sz, ga_pec = pec\<rparr>)))))"

definition get_read :: "'d kernel \<Rightarrow> int \<Rightarrow> get_args \<Rightarrow> ('d, int) tool" where
  "get_read K file a =
     (if ga_size a = I2C_SMBUS_BYTE
      then before (if 0 \<le> ga_daddress a
                   then and_then (i2c_smbus_write_byte K file (word_of_int (ga_daddress a))) (\<lambda>_. give ()) else give ())
        (i2c_smbus_read_byte K file)
      else if ga_size a = I2C_SMBUS_WORD_DATA then i2c_smbus_read_word_data K file (word_of_int (ga_daddress a))
      else i2c_smbus_read_byte_data K file (word_of_int (ga_daddress a)))"

definition hex_value :: "nat \<Rightarrow> int \<Rightarrow> u8 list" where
  "hex_value sz res = bytes_of ''0x'' @ hex_padded (if sz = I2C_SMBUS_WORD_DATA then 4 else 2) (nat res) @ [10]"

definition get_action :: "'d kernel \<Rightarrow> flags \<Rightarrow> get_args \<Rightarrow> ('d, unit) tool" where
  "get_action K fl a =
     and_then (open_i2c_dev K (ga_bus a)) (\<lambda>(r, filename). case r of
       Inl _ \<Rightarrow> stop_with (Exits 1)
     | Inr file \<Rightarrow>
         and_then (get_check_funcs K file (ga_size a) (ga_daddress a)) (\<lambda>r.
         if r \<noteq> 0 then stop_with (Exits 1)
         else and_then (set_slave_addr K file (ga_address a) (fl_force fl)) (\<lambda>r.
         if r \<noteq> 0 then stop_with (Exits 1)
         else and_then (if fl_yes fl then give True
           else get_confirm (ga_address a) (ga_size a) (ga_daddress a) (ga_pec a)) (\<lambda>ok.
         if \<not> ok then stop_with (Exits 0)
         else and_then (if ga_pec a then on_dev (k_pec K file 1) else give True) (\<lambda>ok.
         if \<not> ok then stop_with (Exits 1)
         else and_then (get_read K file a) (\<lambda>res.
         before (close_dev K file)
         (if res < 0 then stop_with (Exits 2)
          else before (put_out (hex_value (ga_size a) res)) (stop_with (Exits 0)))))))))"

definition i2cget_main :: "'d kernel \<Rightarrow> system_files \<Rightarrow> u8 list list \<Rightarrow> ('d, unit) tool" where
  "i2cget_main K F argv =
     and_then (read_flags K F no_flags argv) (\<lambda>(fl, args).
     if fl_version fl then stop_with (Exits 0)
     else and_then (get_parse K F args) (\<lambda>a. get_action K fl a))"

section \<open>\<open>i2cset\<close>\<close>

record set_args =
  sa_bus :: int
  sa_address :: int
  sa_daddress :: int
  sa_value :: int
  sa_size :: nat
  sa_pec :: bool
  sa_vmask :: int

definition plain_arg :: "'d kernel \<Rightarrow> system_files \<Rightarrow> u8 list \<Rightarrow> ('d, int) tool" where
  "plain_arg K F arg = (case int_arg arg of Some v \<Rightarrow> give v | None \<Rightarrow> show_help K F)"

definition set_mode :: "'d kernel \<Rightarrow> system_files \<Rightarrow> u8 list list \<Rightarrow> ('d, nat \<times> bool) tool" where
  "set_mode K F args =
     (if length args < 5 then give (I2C_SMBUS_BYTE_DATA, False)
      else if char_at (args ! 4) 0 = 98 then give (I2C_SMBUS_BYTE_DATA, char_at (args ! 4) 1 = 112)
      else if char_at (args ! 4) 0 = 119 then give (I2C_SMBUS_WORD_DATA, char_at (args ! 4) 1 = 112)
      else show_help K F)"

definition set_parse :: "'d kernel \<Rightarrow> system_files \<Rightarrow> u8 list list \<Rightarrow> ('d, set_args) tool" where
  "set_parse K F args =
     (if length args < 4 then show_help K F
      else and_then (ranged_arg K F (args ! 0) 0 0x3f) (\<lambda>i2cbus.
      and_then (ranged_arg K F (args ! 1) 0 0x7f) (\<lambda>address.
      and_then (ranged_arg K F (args ! 2) 0 0xff) (\<lambda>daddress.
      and_then (plain_arg K F (args ! 3)) (\<lambda>value.
      and_then (set_mode K F args) (\<lambda>(sz, pec).
      and_then (if 6 \<le> length args
                then and_then (plain_arg K F (args ! 5)) (\<lambda>m. if m = 0 then show_help K F else give m)
                else give 0) (\<lambda>vmask.
      if value < 0 \<or> sz = I2C_SMBUS_BYTE_DATA \<and> 0xff < value \<or> sz = I2C_SMBUS_WORD_DATA \<and> 0xffff < value
      then show_help K F
      else give \<lparr>sa_bus = i2cbus, sa_address = address, sa_daddress = daddress, sa_value = value, sa_size = sz,
             sa_pec = pec, sa_vmask = vmask\<rparr>)))))))"

definition set_read_reg :: "'d kernel \<Rightarrow> int \<Rightarrow> nat \<Rightarrow> int \<Rightarrow> ('d, int) tool" where
  "set_read_reg K file sz daddress =
     (if sz = I2C_SMBUS_WORD_DATA then i2c_smbus_read_word_data K file (word_of_int daddress)
      else i2c_smbus_read_byte_data K file (word_of_int daddress))"

definition set_write_reg :: "'d kernel \<Rightarrow> int \<Rightarrow> nat \<Rightarrow> int \<Rightarrow> int \<Rightarrow> ('d, int) tool" where
  "set_write_reg K file sz daddress value =
     (if sz = I2C_SMBUS_WORD_DATA then i2c_smbus_write_word_data K file (word_of_int daddress) (word_of_int value)
      else i2c_smbus_write_byte_data K file (word_of_int daddress) (word_of_int value))"

definition set_confirm :: "set_args \<Rightarrow> ('d, bool) tool" where
  "set_confirm a = user_ack (\<not> (0x50 \<le> sa_address a \<and> sa_address a \<le> 0x57))"

text \<open>The value to write: with a mask, the bits outside it come from the register.\<close>

definition set_masked :: "'d kernel \<Rightarrow> flags \<Rightarrow> int \<Rightarrow> set_args \<Rightarrow> ('d, int) tool" where
  "set_masked K fl file a =
     (if sa_vmask a = 0 then give (sa_value a)
      else and_then (set_read_reg K file (sa_size a) (sa_daddress a)) (\<lambda>oldvalue.
        if oldvalue < 0 then stop_with (Exits 1)
        else let value = (sa_value a AND sa_vmask a) OR (oldvalue AND NOT (sa_vmask a)) in
          and_then (if fl_yes fl then give True else user_ack True) (\<lambda>ok.
          if ok then give value else stop_with (Exits 0))))"

text \<open>Writing, clearing the packet error checking and reading back; the exit status counts the failures.\<close>

definition set_store :: "'d kernel \<Rightarrow> int \<Rightarrow> set_args \<Rightarrow> int \<Rightarrow> ('d, unit) tool" where
  "set_store K file a value =
     and_then (if sa_pec a then on_dev (k_pec K file 1) else give True) (\<lambda>ok.
     if \<not> ok then stop_with (Exits 1)
     else and_then (set_write_reg K file (sa_size a) (sa_daddress a) value) (\<lambda>res.
     let e1 = (if res < 0 then 1 else 0) in
     and_then (if sa_pec a then on_dev (k_pec K file 0) else give True) (\<lambda>ok.
     if \<not> ok then before (close_dev K file) (stop_with (Exits e1))
     else and_then (set_read_reg K file (sa_size a) (sa_daddress a)) (\<lambda>res.
     before (close_dev K file)
     (stop_with (Exits (if res < 0 \<or> res \<noteq> value then e1 + 1 else e1)))))))"

definition set_action :: "'d kernel \<Rightarrow> flags \<Rightarrow> set_args \<Rightarrow> ('d, unit) tool" where
  "set_action K fl a =
     and_then (open_i2c_dev K (sa_bus a)) (\<lambda>(r, filename). case r of
       Inl _ \<Rightarrow> stop_with (Exits 1)
     | Inr file \<Rightarrow>
         and_then (on_dev (k_funcs K file)) (\<lambda>r. case r of
           Inl _ \<Rightarrow> stop_with (Exits 1)
         | Inr funcs \<Rightarrow>
             if sa_size a = I2C_SMBUS_BYTE_DATA \<and> funcs AND I2C_FUNC_SMBUS_WRITE_BYTE_DATA = 0
               \<or> sa_size a = I2C_SMBUS_WORD_DATA \<and> funcs AND I2C_FUNC_SMBUS_WRITE_WORD_DATA = 0
             then stop_with (Exits 1)
             else and_then (set_slave_addr K file (sa_address a) (fl_force fl)) (\<lambda>r.
             if r < 0 then stop_with (Exits 1)
             else and_then (if fl_yes fl then give True else set_confirm a) (\<lambda>ok.
             if \<not> ok then stop_with (Exits 0)
             else and_then (set_masked K fl file a) (\<lambda>value. set_store K file a value)))))"

definition i2cset_main :: "'d kernel \<Rightarrow> system_files \<Rightarrow> u8 list list \<Rightarrow> ('d, unit) tool" where
  "i2cset_main K F argv =
     and_then (read_flags K F no_flags argv) (\<lambda>(fl, args).
     if fl_version fl then stop_with (Exits 0)
     else and_then (set_parse K F args) (\<lambda>a. set_action K fl a))"

end
