(* ===== verification/I2c_Scan.thy ===== *)
theory I2c_Scan
  imports I2c_Bus
begin

text \<open>
  \<open>i2cdetect\<close>, which probes the addresses of a bus, and \<open>i2cdump\<close>, which prints the registers of a
  chip.  What they print on standard output is part of the state.
\<close>

section \<open>\<open>i2cdetect\<close>\<close>

datatype detect_mode = MODE_AUTO | MODE_QUICK | MODE_READ | MODE_FUNC

definition probe :: "'d kernel \<Rightarrow> int \<Rightarrow> detect_mode \<Rightarrow> int \<Rightarrow> ('d, int) tool" where
  "probe K file mode a =
     (case mode of
        MODE_QUICK \<Rightarrow> i2c_smbus_write_quick K file I2C_SMBUS_WRITE
      | MODE_READ \<Rightarrow> i2c_smbus_read_byte K file
      | _ \<Rightarrow> if 0x30 \<le> a \<and> a \<le> 0x37 \<or> 0x50 \<le> a \<and> a \<le> 0x5F then i2c_smbus_read_byte K file
          else i2c_smbus_write_quick K file I2C_SMBUS_WRITE)"

text \<open>One address of the table; \<open>False\<close> ends the scan with an error.\<close>

definition scan_address :: "'d kernel \<Rightarrow> int \<Rightarrow> detect_mode \<Rightarrow> int \<Rightarrow> int \<Rightarrow> int \<Rightarrow> ('d, bool) tool" where
  "scan_address K file mode fst_addr lst_addr a =
     (if a < fst_addr \<or> lst_addr < a then before (put_out (bytes_of ''   '')) (give True)
      else and_then (on_dev (k_slave K False file a)) (\<lambda>r. case r of
        Some errno \<Rightarrow> if errno = EBUSY then before (put_out (bytes_of ''UU '')) (give True) else give False
      | None \<Rightarrow>
          and_then (probe K file mode a) (\<lambda>res.
          before (put_out (if res < 0 then bytes_of ''-- '' else hex_padded 2 (nat a) @ [32])) (give True))))"

fun scan_row :: "'d kernel \<Rightarrow> int \<Rightarrow> detect_mode \<Rightarrow> int \<Rightarrow> int \<Rightarrow> int list \<Rightarrow> ('d, bool) tool" where
  "scan_row K file mode fst_addr lst_addr [] = give True"
| "scan_row K file mode fst_addr lst_addr (a # as) =
     and_then (scan_address K file mode fst_addr lst_addr a) (\<lambda>ok.
     if ok then scan_row K file mode fst_addr lst_addr as else give False)"

fun scan_rows :: "'d kernel \<Rightarrow> int \<Rightarrow> detect_mode \<Rightarrow> int \<Rightarrow> int \<Rightarrow> int list \<Rightarrow> ('d, int) tool" where
  "scan_rows K file mode fst_addr lst_addr [] = give 0"
| "scan_rows K file mode fst_addr lst_addr (i # is) =
     before (put_out (hex_padded 2 (nat i) @ bytes_of '': ''))
     (and_then (scan_row K file mode fst_addr lst_addr [i..i + 15]) (\<lambda>ok.
      if ok then before (put_out [10]) (scan_rows K file mode fst_addr lst_addr is) else give (- 1)))"

definition row_starts :: "int \<Rightarrow> nat \<Rightarrow> int list" where
  "row_starts step n = map (\<lambda>k. step * int k) [0..<n]"

definition scan_head :: "u8 list" where
  "scan_head = bytes_of ''     0  1  2  3  4  5  6  7  8  9  a  b  c  d  e  f'' @ [10]"

definition scan_i2c_bus :: "'d kernel \<Rightarrow> int \<Rightarrow> detect_mode \<Rightarrow> int \<Rightarrow> int \<Rightarrow> ('d, int) tool" where
  "scan_i2c_bus K file mode fst_addr lst_addr =
     before (put_out scan_head) (scan_rows K file mode fst_addr lst_addr (row_starts 16 8))"

definition all_func :: "(u32 \<times> u8 list) list" where
  "all_func = [
     (I2C_FUNC_I2C, bytes_of ''I2C''),
     (I2C_FUNC_SMBUS_QUICK, bytes_of ''SMBus Quick Command''),
     (I2C_FUNC_SMBUS_WRITE_BYTE, bytes_of ''SMBus Send Byte''),
     (I2C_FUNC_SMBUS_READ_BYTE, bytes_of ''SMBus Receive Byte''),
     (I2C_FUNC_SMBUS_WRITE_BYTE_DATA, bytes_of ''SMBus Write Byte''),
     (I2C_FUNC_SMBUS_READ_BYTE_DATA, bytes_of ''SMBus Read Byte''),
     (I2C_FUNC_SMBUS_WRITE_WORD_DATA, bytes_of ''SMBus Write Word''),
     (I2C_FUNC_SMBUS_READ_WORD_DATA, bytes_of ''SMBus Read Word''),
     (I2C_FUNC_SMBUS_PROC_CALL, bytes_of ''SMBus Process Call''),
     (I2C_FUNC_SMBUS_WRITE_BLOCK_DATA, bytes_of ''SMBus Block Write''),
     (I2C_FUNC_SMBUS_READ_BLOCK_DATA, bytes_of ''SMBus Block Read''),
     (I2C_FUNC_SMBUS_BLOCK_PROC_CALL, bytes_of ''SMBus Block Process Call''),
     (I2C_FUNC_SMBUS_PEC, bytes_of ''SMBus PEC''),
     (I2C_FUNC_SMBUS_WRITE_I2C_BLOCK, bytes_of ''I2C Block Write''),
     (I2C_FUNC_SMBUS_READ_I2C_BLOCK, bytes_of ''I2C Block Read'')]"

definition print_functionality :: "u32 \<Rightarrow> ('d, unit) tool" where
  "print_functionality funcs =
     put_out (concat (map (\<lambda>(value, name). pad_right 32 name @ [32] @
       bytes_of (if funcs AND value \<noteq> 0 then ''yes'' else ''no'') @ [10]) all_func))"

record detect_args =
  da_mode :: detect_mode
  da_first :: int
  da_last :: int
  da_yes :: bool
  da_version :: bool
  da_list :: bool

definition no_detect_args :: detect_args where
  "no_detect_args = \<lparr>da_mode = MODE_AUTO, da_first = 0x03, da_last = 0x77, da_yes = False, da_version = False, da_list = False\<rparr>"

fun detect_flags :: "'d kernel \<Rightarrow> system_files \<Rightarrow> detect_args \<Rightarrow> u8 list list \<Rightarrow> ('d, detect_args \<times> u8 list list) tool" where
  "detect_flags K F a [] = give (a, [])"
| "detect_flags K F a (arg # args) =
     (if char_at arg 0 \<noteq> 45 then give (a, arg # args)
      else if char_at arg 1 = 86 then detect_flags K F (a\<lparr>da_version := True\<rparr>) args
      else if char_at arg 1 = 121 then detect_flags K F (a\<lparr>da_yes := True\<rparr>) args
      else if char_at arg 1 = 108 then detect_flags K F (a\<lparr>da_list := True\<rparr>) args
      else if char_at arg 1 = 70 then
        (if da_mode a \<noteq> MODE_AUTO \<and> da_mode a \<noteq> MODE_FUNC then stop_with (Exits 1)
         else detect_flags K F (a\<lparr>da_mode := MODE_FUNC\<rparr>) args)
      else if char_at arg 1 = 114 then
        (if da_mode a = MODE_QUICK then stop_with (Exits 1) else detect_flags K F (a\<lparr>da_mode := MODE_READ\<rparr>) args)
      else if char_at arg 1 = 113 then
        (if da_mode a = MODE_READ then stop_with (Exits 1) else detect_flags K F (a\<lparr>da_mode := MODE_QUICK\<rparr>) args)
      else if char_at arg 1 = 97 then detect_flags K F (a\<lparr>da_first := 0, da_last := 0x7F\<rparr>) args
      else show_help K F)"

text \<open>The bus and the range of addresses; a range is not accepted with \<open>-F\<close>.\<close>

definition detect_parse :: "'d kernel \<Rightarrow> system_files \<Rightarrow> detect_args \<Rightarrow> u8 list list \<Rightarrow> ('d, int \<times> detect_args) tool" where
  "detect_parse K F a args =
     (if args = [] then show_help K F
      else and_then (ranged_arg K F (args ! 0) 0 0xff) (\<lambda>i2cbus.
        if length args = 3 \<and> da_mode a \<noteq> MODE_FUNC
        then and_then (ranged_arg K F (args ! 1) (da_first a) (da_last a)) (\<lambda>f.
          and_then (ranged_arg K F (args ! 2) f (da_last a)) (\<lambda>l.
          give (i2cbus, a\<lparr>da_first := f, da_last := l\<rparr>)))
        else if length args \<noteq> 1 then show_help K F else give (i2cbus, a)))"

text \<open>One character of the answer: a line feed, \<open>y\<close> or \<open>Y\<close> goes on.\<close>

definition detect_ack :: "('d, bool) tool" where
  "detect_ack = and_then get_char (\<lambda>c. give (c = Some 10 \<or> c = Some 121 \<or> c = Some 89))"

definition detect_action :: "'d kernel \<Rightarrow> int \<Rightarrow> detect_args \<Rightarrow> ('d, unit) tool" where
  "detect_action K i2cbus a =
     and_then (open_i2c_dev K i2cbus) (\<lambda>(r, filename). case r of
       Inl _ \<Rightarrow> stop_with (Exits 1)
     | Inr file \<Rightarrow>
         and_then (on_dev (k_funcs K file)) (\<lambda>r. case r of
           Inl _ \<Rightarrow> before (close_dev K file) (stop_with (Exits 1))
         | Inr funcs \<Rightarrow>
             if da_mode a = MODE_FUNC
             then before (close_dev K file)
               (before (put_out (bytes_of ''Functionalities implemented by '' @ filename @ bytes_of '':'' @ [10]))
               (before (print_functionality funcs) (stop_with (Exits 0))))
             else if da_mode a \<noteq> MODE_READ \<and> funcs AND I2C_FUNC_SMBUS_QUICK = 0
             then before (close_dev K file) (stop_with (Exits 1))
             else if da_mode a \<noteq> MODE_QUICK \<and> funcs AND I2C_FUNC_SMBUS_READ_BYTE = 0
             then before (close_dev K file) (stop_with (Exits 1))
             else and_then (if da_yes a then give True else detect_ack) (\<lambda>ok.
               if \<not> ok then stop_with (Exits 0)
               else and_then (scan_i2c_bus K file (da_mode a) (da_first a) (da_last a)) (\<lambda>res.
                 before (close_dev K file) (stop_with (Exits (if res \<noteq> 0 then 1 else 0)))))))"

definition i2cdetect_main :: "'d kernel \<Rightarrow> system_files \<Rightarrow> u8 list list \<Rightarrow> ('d, unit) tool" where
  "i2cdetect_main K F argv =
     and_then (detect_flags K F no_detect_args argv) (\<lambda>(a, args).
     if da_version a then stop_with (Exits 0)
     else if da_list a then before (print_i2c_busses K F True) (stop_with (Exits 0))
     else and_then (detect_parse K F a args) (\<lambda>(i2cbus, a). detect_action K i2cbus a))"

section \<open>\<open>i2cdump\<close>\<close>

record dump_args =
  du_bus :: int
  du_address :: int
  du_size :: nat
  du_pec :: bool
  du_even :: bool
  du_bank :: int
  du_bankreg :: int

text \<open>The mode: only its first letter counts, except for \<open>i\<close>, which must be the whole argument.\<close>

definition dump_mode :: "'d kernel \<Rightarrow> system_files \<Rightarrow> u8 list list \<Rightarrow> ('d, nat \<times> bool \<times> bool) tool" where
  "dump_mode K F args =
     (if length args < 3 then give (I2C_SMBUS_BYTE_DATA, False, False)
      else let m = args ! 2; pec = (char_at m 1 = 112) in
        if char_at m 0 = 98 then give (I2C_SMBUS_BYTE_DATA, pec, False)
        else if char_at m 0 = 119 then give (I2C_SMBUS_WORD_DATA, pec, False)
        else if char_at m 0 = 87 then give (I2C_SMBUS_WORD_DATA, False, True)
        else if char_at m 0 = 115 then give (I2C_SMBUS_BLOCK_DATA, pec, False)
        else if char_at m 0 = 99 then give (I2C_SMBUS_BYTE, pec, False)
        else if m = [105] then give (I2C_SMBUS_I2C_BLOCK_DATA, False, False)
        else show_help K F)"

text \<open>The bank and its register, \<open>0x4E\<close> by default; a bank for consecutive bytes is not checked.\<close>

definition dump_bank :: "'d kernel \<Rightarrow> system_files \<Rightarrow> nat \<Rightarrow> u8 list list \<Rightarrow> ('d, int \<times> int) tool" where
  "dump_bank K F sz args =
     (if length args < 4 then give (0, 0x4E)
      else case int_arg (args ! 3) of
        None \<Rightarrow> show_help K F
      | Some bank \<Rightarrow>
          if sz = I2C_SMBUS_I2C_BLOCK_DATA then show_help K F
          else if (sz = I2C_SMBUS_BYTE_DATA \<or> sz = I2C_SMBUS_WORD_DATA) \<and> (bank < 0 \<or> 15 < bank) then show_help K F
          else if sz = I2C_SMBUS_BLOCK_DATA \<and> (bank < 0 \<or> 0xff < bank) then show_help K F
          else if length args < 5 then give (bank, 0x4E)
          else (case int_arg (args ! 4) of
            None \<Rightarrow> show_help K F
          | Some bankreg \<Rightarrow>
              if sz = I2C_SMBUS_BLOCK_DATA \<or> bankreg < 0 \<or> 0xff < bankreg then show_help K F
              else give (bank, bankreg)))"

definition dump_parse :: "'d kernel \<Rightarrow> system_files \<Rightarrow> u8 list list \<Rightarrow> ('d, dump_args) tool" where
  "dump_parse K F args =
     (if args = [] then show_help K F
      else and_then (ranged_arg K F (args ! 0) 0 0xff) (\<lambda>i2cbus.
      if length args < 2 then show_help K F
      else and_then (ranged_arg K F (args ! 1) 0 0x7f) (\<lambda>address.
      and_then (dump_mode K F args) (\<lambda>(sz, pec, even).
      and_then (dump_bank K F sz args) (\<lambda>(bank, bankreg).
      give \<lparr>du_bus = i2cbus, du_address = address, du_size = sz, du_pec = pec, du_even = even,
            du_bank = bank, du_bankreg = bankreg\<rparr>)))))"

definition dump_supported :: "u32 \<Rightarrow> nat \<Rightarrow> bool" where
  "dump_supported funcs sz \<longleftrightarrow>
     (if sz = I2C_SMBUS_BYTE then funcs AND I2C_FUNC_SMBUS_BYTE = I2C_FUNC_SMBUS_BYTE
      else if sz = I2C_SMBUS_BYTE_DATA then funcs AND I2C_FUNC_SMBUS_READ_BYTE_DATA \<noteq> 0
      else if sz = I2C_SMBUS_WORD_DATA then funcs AND I2C_FUNC_SMBUS_READ_WORD_DATA \<noteq> 0
      else if sz = I2C_SMBUS_BLOCK_DATA then funcs AND I2C_FUNC_SMBUS_READ_BLOCK_DATA \<noteq> 0
      else if sz = I2C_SMBUS_I2C_BLOCK_DATA then funcs AND I2C_FUNC_SMBUS_READ_I2C_BLOCK \<noteq> 0
      else True)"

text \<open>Switching the bank: the result is the bank that was selected before.\<close>

definition dump_switch :: "'d kernel \<Rightarrow> int \<Rightarrow> dump_args \<Rightarrow> ('d, int) tool" where
  "dump_switch K file a =
     (if du_bank a \<noteq> 0 \<and> du_size a \<noteq> I2C_SMBUS_BLOCK_DATA
      then and_then (i2c_smbus_read_byte_data K file (word_of_int (du_bankreg a))) (\<lambda>res.
        if res < 0 then stop_with (Exits 1)
        else let old_bank = res in
          and_then (i2c_smbus_write_byte_data K file (word_of_int (du_bankreg a))
             (word_of_int (du_bank a OR (old_bank AND 0xf0)))) (\<lambda>res.
          if res < 0 then stop_with (Exits 1) else give old_bank))
      else give 0)"

definition dump_restore :: "'d kernel \<Rightarrow> int \<Rightarrow> dump_args \<Rightarrow> int \<Rightarrow> ('d, unit) tool" where
  "dump_restore K file a old_bank =
     (if du_bank a \<noteq> 0 \<and> du_size a \<noteq> I2C_SMBUS_BLOCK_DATA
      then and_then (i2c_smbus_write_byte_data K file (word_of_int (du_bankreg a)) (word_of_int old_bank)) (\<lambda>_. give ())
      else give ())"

text \<open>The loop of I2C block reads: it ends at 256 bytes or at a read that gives none; each read gives at
  least one byte, so 257 turns are enough.\<close>

definition dump_block_step :: "'d kernel \<Rightarrow> int \<Rightarrow> u8 list \<Rightarrow> ('d, u8 list + u8 list) tool" where
  "dump_block_step K file cblock =
     (if 256 \<le> length cblock then give (Inl cblock)
      else and_then (i2c_smbus_read_i2c_block_data K file (of_nat (length cblock)) 32) (\<lambda>(i, values).
        if i \<le> 0 then give (Inl cblock)
        else if 288 < length cblock + length values then stop_with Crashes
        else give (Inr (cblock @ values))))"

text \<open>The block modes: the cells of the table, \<open>None\<close> where nothing was read, and the length for the
  display.  Cells behind the block of an SMBus block read are never looked at.\<close>

definition dump_blocks :: "'d kernel \<Rightarrow> int \<Rightarrow> dump_args \<Rightarrow> ('d, u8 option list \<times> int) tool" where
  "dump_blocks K file a =
     (if du_size a = I2C_SMBUS_BLOCK_DATA
      then and_then (i2c_smbus_read_block_data K file (word_of_int (du_bank a))) (\<lambda>(res, cblock).
        if res \<le> 0 then stop_with (Exits 1)
        else give (map Some cblock @ replicate (256 - length cblock) None, res))
      else if du_size a = I2C_SMBUS_I2C_BLOCK_DATA
      then and_then (repeat 257 (dump_block_step K file) []) (\<lambda>cblock.
        if cblock = [] then stop_with (Exits 1)
        else give (map Some (take 256 cblock) @ replicate (256 - length cblock) None, 0))
      else give (replicate 256 None, 0))"

text \<open>The start address of consecutive reads.\<close>

definition dump_start :: "'d kernel \<Rightarrow> int \<Rightarrow> dump_args \<Rightarrow> ('d, unit) tool" where
  "dump_start K file a =
     (if du_size a = I2C_SMBUS_BYTE
      then and_then (i2c_smbus_write_byte K file 0) (\<lambda>res. if res \<noteq> 0 then stop_with (Exits 1) else give ())
      else give ())"

text \<open>The cells of one step of the row: one, or two in word mode.\<close>

definition byte_cell :: "int \<Rightarrow> u8 option" where
  "byte_cell res = (if res < 0 then None else Some (word_of_int res))"

definition dump_cells :: "'d kernel \<Rightarrow> int \<Rightarrow> nat \<Rightarrow> u8 option list \<Rightarrow> nat \<Rightarrow> ('d, u8 option list) tool" where
  "dump_cells K file sz block i =
     (if sz = I2C_SMBUS_BYTE_DATA
      then and_then (i2c_smbus_read_byte_data K file (of_nat i)) (\<lambda>res. give [byte_cell res])
      else if sz = I2C_SMBUS_WORD_DATA
      then and_then (i2c_smbus_read_word_data K file (of_nat i)) (\<lambda>res.
        give (if res < 0 then [None, None] else [Some (word_of_int (res AND 0xff)), Some (word_of_int (drop_bit 8 res))]))
      else if sz = I2C_SMBUS_BYTE then and_then (i2c_smbus_read_byte K file) (\<lambda>res. give [byte_cell res])
      else give [block ! i])"

definition show_cell :: "u8 option \<Rightarrow> u8 list" where
  "show_cell c = (case c of None \<Rightarrow> bytes_of ''XX '' | Some b \<Rightarrow> hex_padded 2 (unat b) @ [32])"

definition show_char :: "u8 option \<Rightarrow> u8" where
  "show_char c = (case c of None \<Rightarrow> 88
     | Some b \<Rightarrow> if b = 0 \<or> b = 0xff then 46 else if b < 32 \<or> 127 \<le> b then 63 else b)"

definition in_block :: "nat \<Rightarrow> int \<Rightarrow> nat \<Rightarrow> bool" where
  "in_block sz s_length i \<longleftrightarrow> \<not> (sz = I2C_SMBUS_BLOCK_DATA \<and> s_length \<le> int i)"

text \<open>The cells of a row from the given offsets, as they are read and printed, and then as characters.\<close>

fun dump_row :: "'d kernel \<Rightarrow> int \<Rightarrow> nat \<Rightarrow> int \<Rightarrow> u8 option list \<Rightarrow> nat list \<Rightarrow> ('d, u8 option list) tool" where
  "dump_row K file sz s_length block [] = give []"
| "dump_row K file sz s_length block (i # is) =
     and_then (dump_cells K file sz block i) (\<lambda>cs.
     before (put_out (if in_block sz s_length i then concat (map show_cell cs) else bytes_of ''   ''))
     (and_then (dump_row K file sz s_length block is) (\<lambda>cs'. give (cs @ cs'))))"

definition row_offsets :: "nat \<Rightarrow> nat \<Rightarrow> nat list" where
  "row_offsets sz i = (if sz = I2C_SMBUS_WORD_DATA then map (\<lambda>k. i + 2 * k) [0..<8] else [i..<i + 16])"

definition row_chars :: "nat \<Rightarrow> int \<Rightarrow> nat \<Rightarrow> u8 option list \<Rightarrow> u8 list" where
  "row_chars sz s_length i cs =
     (if sz = I2C_SMBUS_BLOCK_DATA then map show_char (take (nat (s_length - int i)) cs) else map show_char cs)"

fun dump_rows :: "'d kernel \<Rightarrow> int \<Rightarrow> nat \<Rightarrow> int \<Rightarrow> u8 option list \<Rightarrow> nat list \<Rightarrow> ('d, unit) tool" where
  "dump_rows K file sz s_length block [] = give ()"
| "dump_rows K file sz s_length block (i # is) =
     (if \<not> in_block sz s_length i then give ()
      else before (put_out (hex_padded 2 i @ bytes_of '': ''))
        (and_then (dump_row K file sz s_length block (row_offsets sz i)) (\<lambda>cs.
         before (put_out (bytes_of ''   '' @ row_chars sz s_length i cs @ [10]))
         (dump_rows K file sz s_length block is))))"

text \<open>The table of words.\<close>

fun dump_words :: "'d kernel \<Rightarrow> int \<Rightarrow> nat list \<Rightarrow> ('d, unit) tool" where
  "dump_words K file [] = give ()"
| "dump_words K file (i # is) =
     before (put_out (if i mod 8 = 0 then hex_padded 2 i @ bytes_of '': '' else []))
     (and_then (i2c_smbus_read_word_data K file (of_nat i)) (\<lambda>res.
     before (put_out (if res < 0 then bytes_of ''XXXX '' else hex_padded 4 (nat res mod 65536) @ [32]))
     (before (put_out (if i mod 8 = 7 then [10] else []))
     (dump_words K file is))))"

definition dump_head :: "u8 list" where
  "dump_head = bytes_of ''     0  1  2  3  4  5  6  7  8  9  a  b  c  d  e  f    0123456789abcdef'' @ [10]"

definition words_head :: "u8 list" where
  "words_head = bytes_of ''     0,8  1,9  2,a  3,b  4,c  5,d  6,e  7,f'' @ [10]"

definition dump_table :: "'d kernel \<Rightarrow> int \<Rightarrow> dump_args \<Rightarrow> ('d, unit) tool" where
  "dump_table K file a =
     (if du_size a \<noteq> I2C_SMBUS_WORD_DATA \<or> du_even a
      then and_then (dump_blocks K file a) (\<lambda>(block, s_length).
        before (dump_start K file a)
        (before (put_out dump_head)
        (dump_rows K file (du_size a) s_length block (map (\<lambda>k. 16 * k) [0..<16]))))
      else before (put_out words_head) (dump_words K file [0..<256]))"

definition dump_action :: "'d kernel \<Rightarrow> flags \<Rightarrow> dump_args \<Rightarrow> ('d, unit) tool" where
  "dump_action K fl a =
     and_then (open_i2c_dev K (du_bus a)) (\<lambda>(r, filename). case r of
       Inl _ \<Rightarrow> stop_with (Exits 1)
     | Inr file \<Rightarrow>
         and_then (on_dev (k_funcs K file)) (\<lambda>r. case r of
           Inl _ \<Rightarrow> stop_with (Exits 1)
         | Inr funcs \<Rightarrow>
             if \<not> dump_supported funcs (du_size a) then stop_with (Exits 1)
             else and_then (set_slave_addr K file (du_address a) (fl_force fl)) (\<lambda>r.
             if r < 0 then stop_with (Exits 1)
             else and_then (if du_pec a then on_dev (k_pec K file 1) else give True) (\<lambda>ok.
             if \<not> ok then stop_with (Exits 1)
             else and_then (if fl_yes fl then give True else user_ack True) (\<lambda>ok.
             if \<not> ok then stop_with (Exits 0)
             else and_then (dump_switch K file a) (\<lambda>old_bank.
             before (dump_table K file a) (before (dump_restore K file a old_bank) (stop_with (Exits 0)))))))))"

definition i2cdump_main :: "'d kernel \<Rightarrow> system_files \<Rightarrow> u8 list list \<Rightarrow> ('d, unit) tool" where
  "i2cdump_main K F argv =
     and_then (read_flags K F no_flags argv) (\<lambda>(fl, args).
     if fl_version fl then stop_with (Exits 0)
     else and_then (dump_parse K F args) (\<lambda>a. dump_action K fl a))"

end
