(* ===== verification/Eeprom.thy ===== *)
theory Eeprom
  imports I2c_Dev Getopt
begin

text \<open>
  The EEPROM programmer \<open>eeprog\<close>: \<open>eepromer/24cXX.c\<close>, which reads and writes single bytes of a serial
  EEPROM through SMBus transactions, and \<open>eepromer/eeprog.c\<close>, its command line.  Waiting (\<open>usleep\<close>) and
  messages on standard error are left out.
\<close>

section \<open>\<open>24cXX.c\<close>\<close>

definition EEPROM_TYPE_UNKNOWN :: int where "EEPROM_TYPE_UNKNOWN = 0"
definition EEPROM_TYPE_8BIT_ADDR :: int where "EEPROM_TYPE_8BIT_ADDR = 1"
definition EEPROM_TYPE_16BIT_ADDR :: int where "EEPROM_TYPE_16BIT_ADDR = 2"

record eeprom =
  e_dev :: "u8 list option"
  e_addr :: int
  e_fd :: int
  e_type :: int

definition i2c_write_1b :: "'d kernel \<Rightarrow> eeprom \<Rightarrow> u8 \<Rightarrow> ('d, int) tool" where
  "i2c_write_1b K e b = i2c_smbus_write_byte K (e_fd e) b"

definition i2c_write_2b :: "'d kernel \<Rightarrow> eeprom \<Rightarrow> u8 \<Rightarrow> u8 \<Rightarrow> ('d, int) tool" where
  "i2c_write_2b K e b0 b1 = i2c_smbus_write_byte_data K (e_fd e) b0 b1"

definition i2c_write_3b :: "'d kernel \<Rightarrow> eeprom \<Rightarrow> u8 \<Rightarrow> u8 \<Rightarrow> u8 \<Rightarrow> ('d, int) tool" where
  "i2c_write_3b K e b0 b1 b2 = i2c_smbus_write_word_data K (e_fd e) b0 (push_bit 8 (ucast b2) OR ucast b1)"

definition required_funcs :: "u32 list" where
  "required_funcs = [I2C_FUNC_SMBUS_READ_BYTE, I2C_FUNC_SMBUS_WRITE_BYTE, I2C_FUNC_SMBUS_READ_BYTE_DATA,
     I2C_FUNC_SMBUS_WRITE_BYTE_DATA, I2C_FUNC_SMBUS_READ_WORD_DATA, I2C_FUNC_SMBUS_WRITE_WORD_DATA]"

text \<open>\<open>eeprom_open\<close> gives its result and the struct it fills in.  In
  \<open>(r = ioctl(...) < 0)\<close> the comparison binds tighter than the assignment, so \<open>r\<close> is 1 when the call
  fails.\<close>

definition eeprom_open :: "'d kernel \<Rightarrow> u8 list \<Rightarrow> int \<Rightarrow> int \<Rightarrow> eeprom \<Rightarrow> ('d, int \<times> eeprom) tool" where
  "eeprom_open K dev_fqn addr type e =
     (let e = e\<lparr>e_fd := 0, e_addr := 0, e_dev := None\<rparr> in
      and_then (on_dev (k_open K dev_fqn O_RDWR)) (\<lambda>r.
      let fd = (case r of Inl _ \<Rightarrow> - 1 | Inr fd \<Rightarrow> fd) in
      if fd \<le> 0 then give (- 1, e)
      else and_then (on_dev (k_funcs K fd)) (\<lambda>r. case r of
        Inl _ \<Rightarrow> give (1, e)
      | Inr funcs \<Rightarrow>
          if \<exists>f \<in> set required_funcs. funcs AND f = 0 then stop_with (Exits 1)
          else and_then (on_dev (k_slave K False fd addr)) (\<lambda>r.
            if r \<noteq> None then give (- 1, e)
            else give (0, e\<lparr>e_fd := fd, e_addr := addr, e_dev := Some dev_fqn, e_type := type\<rparr>)))))"

definition eeprom_close :: "'d kernel \<Rightarrow> eeprom \<Rightarrow> ('d, eeprom) tool" where
  "eeprom_close K e =
     and_then (on_dev (\<lambda>d. ((), k_close K (e_fd e) d))) (\<lambda>_.
     give (e\<lparr>e_fd := - 1, e_dev := None, e_type := EEPROM_TYPE_UNKNOWN\<rparr>))"

definition flush_buffer :: "'d kernel \<Rightarrow> eeprom \<Rightarrow> ('d, unit) tool" where
  "flush_buffer K e = on_dev (\<lambda>d. ((), k_flush K (e_fd e) d))"

definition eeprom_read_current_byte :: "'d kernel \<Rightarrow> eeprom \<Rightarrow> ('d, int) tool" where
  "eeprom_read_current_byte K e = before (flush_buffer K e) (i2c_smbus_read_byte K (e_fd e))"

definition eeprom_read_byte :: "'d kernel \<Rightarrow> eeprom \<Rightarrow> u16 \<Rightarrow> ('d, int) tool" where
  "eeprom_read_byte K e mem_addr =
     before (flush_buffer K e)
     (if e_type e = EEPROM_TYPE_8BIT_ADDR
      then and_then (i2c_write_1b K e (ucast (mem_addr AND 0xFF))) (\<lambda>r.
        if r < 0 then give r else i2c_smbus_read_byte K (e_fd e))
      else if e_type e = EEPROM_TYPE_16BIT_ADDR
      then and_then (i2c_write_2b K e (ucast (drop_bit 8 mem_addr AND 0xFF)) (ucast (mem_addr AND 0xFF))) (\<lambda>r.
        if r < 0 then give r else i2c_smbus_read_byte K (e_fd e))
      else give (- 1))"

definition eeprom_write_byte :: "'d kernel \<Rightarrow> eeprom \<Rightarrow> u16 \<Rightarrow> u8 \<Rightarrow> ('d, int) tool" where
  "eeprom_write_byte K e mem_addr data =
     (if e_type e = EEPROM_TYPE_8BIT_ADDR
      then i2c_write_2b K e (ucast (mem_addr AND 0xFF)) data
      else if e_type e = EEPROM_TYPE_16BIT_ADDR
      then i2c_write_3b K e (ucast (drop_bit 8 mem_addr AND 0xFF)) (ucast (mem_addr AND 0xFF)) data
      else give (- 1))"

section \<open>\<open>eeprog.c\<close>\<close>

text \<open>\<open>usage_if\<close> and \<open>die_if\<close> print and exit with status 1.\<close>

definition die_if :: "bool \<Rightarrow> ('d, unit) tool" where
  "die_if b = (if b then stop_with (Exits 1) else give ())"

text \<open>\<open>parse_arg\<close> returns the address and, after a colon, the size; without one the size stays as it was.\<close>

definition parse_arg :: "u8 list \<Rightarrow> int \<Rightarrow> int \<times> int" where
  "parse_arg arg sz =
     (case strtoul arg of (a, rest) \<Rightarrow>
      (to_int32 (int a),
       if rest \<noteq> [] \<and> hd rest = 58 then to_int32 (int (fst (strtoul (tl rest)))) else sz))"

definition confirm_action :: "('d, unit) tool" where
  "confirm_action = and_then get_char (\<lambda>_. give ())"

definition show_first :: "bool \<Rightarrow> int \<Rightarrow> int \<Rightarrow> u8 list" where
  "show_first hex addr ch =
     (if hex then bytes_of [CHR 0x0A, CHR 0x20] @ hex_padded 4 (nat (addr mod 4294967296)) @ bytes_of ''|  '' @ hex_padded 2 (nat ch) @ bytes_of '' ''
      else [of_int ch])"

definition show_next :: "bool \<Rightarrow> int \<Rightarrow> int \<Rightarrow> int \<Rightarrow> u8 list" where
  "show_next hex addr i ch =
     (if hex
      then (if i mod 16 = 0 then bytes_of [CHR 0x0A, CHR 0x20] @ hex_padded 4 (nat (addr mod 4294967296)) @ bytes_of ''|  ''
            else if i mod 8 = 0 then bytes_of ''  '' else []) @ hex_padded 2 (nat ch) @ bytes_of '' ''
      else [of_int ch])"

text \<open>One turn of \<open>while(--size)\<close>: counting down below the smallest \<open>int\<close> is undefined, so a size that
  is not positive runs for \<open>2^31\<close> more turns.\<close>

definition read_step :: "'d kernel \<Rightarrow> eeprom \<Rightarrow> bool \<Rightarrow> int \<times> int \<times> int \<Rightarrow> ('d, unit + int \<times> int \<times> int) tool" where
  "read_step K e hex = (\<lambda>(addr, i, sz).
     if sz = - 2147483648 then stop_with Crashes
     else if sz - 1 = 0 then give (Inl ())
     else and_then (eeprom_read_current_byte K e) (\<lambda>ch.
       before (die_if (ch < 0))
       (if hex \<and> (addr = 2147483647 \<or> i = 2147483647) then stop_with Crashes
        else let addr = (if hex then addr + 1 else addr) in
        before (put_out (show_next hex addr i ch)) (give (Inr (addr, if hex then i + 1 else i, sz - 1))))))"

definition read_fuel :: "int \<Rightarrow> nat" where
  "read_fuel sz = (if 0 < sz then nat sz else nat (sz + 2147483648) + 1)"

definition read_from_eeprom :: "'d kernel \<Rightarrow> eeprom \<Rightarrow> int \<Rightarrow> int \<Rightarrow> bool \<Rightarrow> ('d, int) tool" where
  "read_from_eeprom K e addr sz hex =
     and_then (eeprom_read_byte K e (word_of_int addr)) (\<lambda>ch.
     before (die_if (ch < 0))
     (before (put_out (show_first hex addr ch))
     (before (repeat (read_fuel sz) (read_step K e hex) (addr, 1, sz))
     (before (put_out (if hex then bytes_of [CHR 0x0A, CHR 0x0A] else []))
     (give 0)))))"

text \<open>One turn of the loop over standard input; the fuel is the number of bytes there, and one more turn
  to see the end.\<close>

definition write_step :: "'d kernel \<Rightarrow> eeprom \<Rightarrow> int \<Rightarrow> ('d, unit + int) tool" where
  "write_step K e addr =
     and_then get_char (\<lambda>c. case c of
       None \<Rightarrow> give (Inl ())
     | Some c \<Rightarrow>
         if addr = 2147483647 then stop_with Crashes
         else and_then (eeprom_write_byte K e (word_of_int addr) c) (\<lambda>r.
           before (die_if (r \<noteq> 0)) (give (Inr (addr + 1)))))"

definition write_to_eeprom :: "'d kernel \<Rightarrow> eeprom \<Rightarrow> int \<Rightarrow> ('d, int) tool" where
  "write_to_eeprom K e addr = (\<lambda>s.
     before (repeat (Suc (length (io_in s))) (write_step K e) addr) (give 0) s)"

section \<open>The command line of \<open>eeprog\<close>\<close>

record eeprog_opts =
  eo_type :: int
  eo_hex :: bool
  eo_dummy :: bool
  eo_force :: bool
  eo_op :: u8
  eo_arg :: "u8 list"

text \<open>One option; \<open>None\<close> is an exit with status 1.  What \<open>getopt\<close> does not know comes back as a
  question mark without an argument.\<close>

definition eeprog_opt :: "opt_event \<Rightarrow> eeprog_opts \<Rightarrow> eeprog_opts option" where
  "eeprog_opt ev opts =
     (let (c, arg) = (case ev of Opt c arg \<Rightarrow> (c, arg) | Opt_Bad \<Rightarrow> (63, [])) in
      if c = 49 then (if arg \<noteq> [54] \<or> eo_type opts \<noteq> 0 then None else Some (opts\<lparr>eo_type := EEPROM_TYPE_16BIT_ADDR\<rparr>))
      else if c = 120 then Some (opts\<lparr>eo_hex := True\<rparr>)
      else if c = 100 then Some (opts\<lparr>eo_dummy := True\<rparr>)
      else if c = 56 then (if eo_type opts \<noteq> 0 then None else Some (opts\<lparr>eo_type := EEPROM_TYPE_8BIT_ADDR\<rparr>))
      else if c = 102 then Some (opts\<lparr>eo_force := True\<rparr>)
      else if c = 113 then Some opts
      else if c = 104 then None
      else if eo_op opts \<noteq> 0 then None
      else Some (opts\<lparr>eo_op := c, eo_arg := arg\<rparr>))"

fun eeprog_opts_all :: "opt_event list \<Rightarrow> eeprog_opts \<Rightarrow> eeprog_opts option" where
  "eeprog_opts_all [] opts = Some opts"
| "eeprog_opts_all (ev # evs) opts = (case eeprog_opt ev opts of None \<Rightarrow> None | Some opts \<Rightarrow> eeprog_opts_all evs opts)"

text \<open>The device and the address from the operands and the two environment variables; \<open>exists\<close> is
  \<open>stat\<close>.\<close>

definition eeprog_target :: "(u8 list \<Rightarrow> bool) \<Rightarrow> u8 list option \<Rightarrow> u8 list option \<Rightarrow> u8 list list \<Rightarrow>
    (u8 list \<times> u8 list) option" where
  "eeprog_target exists env_dev env_addr operands =
     (let (device, addr) = (case operands of
          [] \<Rightarrow> (env_dev, env_addr)
        | [a] \<Rightarrow> if exists a then (Some a, env_addr) else (env_dev, Some a)
        | [a, b] \<Rightarrow> (Some a, Some b)
        | _ \<Rightarrow> (None, None))
      in case (device, addr) of (Some d, Some a) \<Rightarrow> Some (d, a) | _ \<Rightarrow> None)"

definition eeprog_act :: "'d kernel \<Rightarrow> eeprog_opts \<Rightarrow> eeprom \<Rightarrow> ('d, int) tool" where
  "eeprog_act K opts e =
     (if eo_op opts = 114
      then before (if eo_force opts then give () else confirm_action)
        (case parse_arg (eo_arg opts) 1 of (memaddr, sz) \<Rightarrow>
         before (read_from_eeprom K e memaddr sz (eo_hex opts)) (before (eeprom_close K e) (give 0)))
      else if eo_op opts = 119
      then before (if eo_force opts then give () else confirm_action)
        (before (write_to_eeprom K e (fst (parse_arg (eo_arg opts) 0))) (before (eeprom_close K e) (give 0)))
      else stop_with (Exits 1))"

definition eeprog_main :: "'d kernel \<Rightarrow> (u8 list \<Rightarrow> bool) \<Rightarrow> u8 list option \<Rightarrow> u8 list option \<Rightarrow> eeprom \<Rightarrow>
    u8 list list \<Rightarrow> ('d, int) tool" where
  "eeprog_main K exists env_dev env_addr e0 args =
     (case getopt (bytes_of ''1rw'') (bytes_of ''8fqhxd'') args of (evs, operands) \<Rightarrow>
      (case eeprog_opts_all evs \<lparr>eo_type = 0, eo_hex = False, eo_dummy = False, eo_force = False, eo_op = 0, eo_arg = []\<rparr> of
        None \<Rightarrow> stop_with (Exits 1)
      | Some opts \<Rightarrow>
          let opts = (if eo_type opts = 0 then opts\<lparr>eo_type := EEPROM_TYPE_8BIT_ADDR\<rparr> else opts) in
          if eo_op opts = 0 then stop_with (Exits 1)
          else (case eeprog_target exists env_dev env_addr operands of
            None \<Rightarrow> stop_with (Exits 1)
          | Some (device, i2c_addr_s) \<Rightarrow>
              let i2c_addr = to_int32 (int (fst (strtoul i2c_addr_s))) in
              if eo_dummy opts then give 0
              else and_then (eeprom_open K device i2c_addr (eo_type opts) e0) (\<lambda>(r, e).
                before (die_if (r < 0)) (eeprog_act K opts e)))))"

end
