(* ===== verification/Eeprog_Correct.thy ===== *)
theory Eeprog_Correct
  imports Eeprom
begin

text \<open>
  What \<open>eeprog\<close> does to a serial EEPROM.  The chip is described by what the kernel's SMBus calls do to
  it (\<open>serial_chip\<close>, the protocol of the 24Cxx data sheets): a memory, a read pointer, and addresses of
  one or two bytes.
\<close>

section \<open>The chip\<close>

definition answers :: "'d kernel \<Rightarrow> int \<Rightarrow> smbus_args \<Rightarrow> 'd \<Rightarrow> (u8 list \<Rightarrow> 'd \<Rightarrow> bool) \<Rightarrow> bool" where
  "answers K fd args d P \<longleftrightarrow>
     fst (fst (k_smbus K fd args d)) = 0 \<and> P (snd (fst (k_smbus K fd args d))) (snd (k_smbus K fd args d))"

definition smbus :: "u8 \<Rightarrow> u8 \<Rightarrow> nat \<Rightarrow> u8 list option \<Rightarrow> smbus_args" where
  "smbus rw c kind data = \<lparr>sm_read_write = rw, sm_command = c, sm_size = kind, sm_data = data\<rparr>"

text \<open>\<open>width\<close> is the number of address bytes, \<open>cap\<close> the number of cells; the first data byte of a byte or
  word transaction continues the address when it has two bytes.\<close>

definition serial_chip :: "'d kernel \<Rightarrow> int \<Rightarrow> nat \<Rightarrow> nat \<Rightarrow> ('d \<Rightarrow> nat \<Rightarrow> u8) \<Rightarrow> ('d \<Rightarrow> nat) \<Rightarrow> bool" where
  "serial_chip K fd width cap cells ptr \<longleftrightarrow>
     0 < cap \<and> (width = 1 \<or> width = 2) \<and>
     (\<forall>d. length (k_junk K d) = 34 \<and> cells (k_flush K fd d) = cells d \<and> ptr (k_flush K fd d) = ptr d) \<and>
     (\<forall>d buf. answers K fd (smbus 1 0 1 (Some buf)) d (\<lambda>out d'.
        out ! 0 = cells d (ptr d) \<and> cells d' = cells d \<and> ptr d' = (ptr d + 1) mod cap)) \<and>
     (width = 1 \<longrightarrow>
       (\<forall>d c. answers K fd (smbus 0 c 1 None) d (\<lambda>_ d'. cells d' = cells d \<and> ptr d' = unat c mod cap)) \<and>
       (\<forall>d c buf. answers K fd (smbus 0 c 2 (Some buf)) d (\<lambda>_ d'. cells d' = (cells d)(unat c mod cap := buf ! 0)))) \<and>
     (width = 2 \<longrightarrow>
       (\<forall>d c buf. answers K fd (smbus 0 c 2 (Some buf)) d (\<lambda>_ d'.
          cells d' = cells d \<and> ptr d' = (256 * unat c + unat (buf ! 0)) mod cap)) \<and>
       (\<forall>d c buf. answers K fd (smbus 0 c 3 (Some buf)) d (\<lambda>_ d'.
          cells d' = (cells d)((256 * unat c + unat (buf ! 0)) mod cap := buf ! 1))))"

definition chip_addr :: "nat \<Rightarrow> nat \<Rightarrow> u16 \<Rightarrow> nat" where
  "chip_addr width cap a = (if width = 1 then unat a mod 256 else unat a) mod cap"

lemma answersD: "answers K fd args d P \<Longrightarrow> \<exists>out d'. k_smbus K fd args d = ((0, out), d') \<and> P out d'"
  by (cases "k_smbus K fd args d") (auto simp: answers_def)

lemma addr_low_byte: "unat (ucast ((a :: u16) AND 0xFF) :: u8) = unat a mod 256"
proof -
  have "(0xFF :: u16) = mask 8" by (simp add: mask_eq_exp_minus_1)
  then have "ucast (a AND 0xFF) = (ucast a :: u8)" by (simp only: bit_eq_iff) (auto simp: bit_simps)
  then show ?thesis by (simp add: unsigned_ucast_eq take_bit_eq_mod)
qed

lemma addr_high_byte: "unat (ucast (drop_bit 8 (a :: u16) AND 0xFF) :: u8) = unat a div 256"
proof -
  have "unat (drop_bit 8 a) = unat a div 256" by (simp only: unat_drop_bit_eq) (simp add: drop_bit_eq_div)
  moreover have "unat a div 256 < 256"
    using unsigned_less [of a] by (simp add: div_less_iff_less_mult)
  ultimately show ?thesis unfolding addr_low_byte by simp
qed

lemma two_bytes: "256 * unat (ucast (drop_bit 8 (a :: u16) AND 0xFF) :: u8) + unat (ucast (a AND 0xFF) :: u8) = unat a"
  unfolding addr_low_byte [of a] addr_high_byte by (rule mult_div_mod_eq)

lemma word_data:
  assumes "length buf = 34"
  shows "put_u16 buf 0 (push_bit 8 (ucast (v :: u8)) OR ucast (lo :: u8)) ! 0 = lo"
    and "put_u16 buf 0 (push_bit 8 (ucast v) OR ucast lo) ! 1 = v"
proof -
  have "(push_bit 8 (ucast v) OR ucast lo :: u16) = le_word16 [lo, v]" by (simp add: le_word16_def or.commute)
  then have "put_u16 buf 0 (push_bit 8 (ucast v) OR ucast lo) = [lo, v] @ drop 2 buf"
    by (simp add: put_u16_def put_bytes_def le_bytes16_word numeral_2_eq_2)
  then show "put_u16 buf 0 (push_bit 8 (ucast v) OR ucast lo) ! 0 = lo"
    and "put_u16 buf 0 (push_bit 8 (ucast v) OR ucast lo) ! 1 = v" by simp_all
qed

section \<open>One byte\<close>

lemma access_answers:
  assumes "answers K fd (smbus rw c kind data) (io_dev s) P"
  shows "\<exists>out d. i2c_smbus_access K fd rw c kind data s = (Inr (0, out), s\<lparr>io_dev := d\<rparr>) \<and> P out d"
  using answersD [OF assms] by (auto simp: i2c_smbus_access_def smbus_def tool_simps)

lemma byte_written:
  assumes "answers K fd (smbus 0 c 1 None) (io_dev s) P"
  shows "\<exists>out d. i2c_smbus_write_byte K fd c s = (Inr 0, s\<lparr>io_dev := d\<rparr>) \<and> P out d"
  using access_answers [OF assms]
  by (auto simp: i2c_smbus_write_byte_def I2C_SMBUS_WRITE_def I2C_SMBUS_BYTE_def tool_simps and_then_ok)

lemma byte_data_written:
  assumes "answers K fd (smbus 0 c 2 (Some (put_u8 (k_junk K (io_dev s)) 0 v))) (io_dev s) P"
  shows "\<exists>out d. i2c_smbus_write_byte_data K fd c v s = (Inr 0, s\<lparr>io_dev := d\<rparr>) \<and> P out d"
  using access_answers [OF assms]
  by (auto simp: i2c_smbus_write_byte_data_def I2C_SMBUS_WRITE_def I2C_SMBUS_BYTE_DATA_def junk_def tool_simps and_then_ok)

lemma word_data_written:
  assumes "answers K fd (smbus 0 c 3 (Some (put_u16 (k_junk K (io_dev s)) 0 v))) (io_dev s) P"
  shows "\<exists>out d. i2c_smbus_write_word_data K fd c v s = (Inr 0, s\<lparr>io_dev := d\<rparr>) \<and> P out d"
  using access_answers [OF assms]
  by (auto simp: i2c_smbus_write_word_data_def I2C_SMBUS_WRITE_def I2C_SMBUS_WORD_DATA_def junk_def tool_simps and_then_ok)

lemma byte_was_read:
  assumes "answers K fd (smbus 1 0 1 (Some (k_junk K (io_dev s)))) (io_dev s) P"
  shows "\<exists>out d. i2c_smbus_read_byte K fd s = (Inr (uint (out ! 0)), s\<lparr>io_dev := d\<rparr>) \<and> P out d"
proof -
  have "(0xFF :: u8) = - 1" by simp
  then have "x AND 0xFF = x" for x :: u8 by (simp only: and.right_neutral)
  then show ?thesis using access_answers [OF assms]
    by (auto simp: i2c_smbus_read_byte_def I2C_SMBUS_READ_def I2C_SMBUS_BYTE_def junk_def tool_simps and_then_ok)
qed

lemma byte_at_pointer:
  assumes chip: "serial_chip K fd width cap cells ptr"
  shows "\<exists>d. i2c_smbus_read_byte K fd s = (Inr (uint (cells (io_dev s) (ptr (io_dev s)))), s\<lparr>io_dev := d\<rparr>)
      \<and> cells d = cells (io_dev s) \<and> ptr d = (ptr (io_dev s) + 1) mod cap"
proof -
  have "answers K fd (smbus 1 0 1 (Some (k_junk K (io_dev s)))) (io_dev s) (\<lambda>out d.
    out ! 0 = cells (io_dev s) (ptr (io_dev s)) \<and> cells d = cells (io_dev s) \<and> ptr d = (ptr (io_dev s) + 1) mod cap)"
    using chip by (simp add: serial_chip_def)
  from byte_was_read [OF this] show ?thesis by auto
qed

lemma read_current:
  assumes chip: "serial_chip K (e_fd e) width cap cells ptr"
  shows "\<exists>d. eeprom_read_current_byte K e s = (Inr (uint (cells (io_dev s) (ptr (io_dev s)))), s\<lparr>io_dev := d\<rparr>)
      \<and> cells d = cells (io_dev s) \<and> ptr d = (ptr (io_dev s) + 1) mod cap"
proof -
  let ?s = "s\<lparr>io_dev := k_flush K (e_fd e) (io_dev s)\<rparr>"
  have same: "cells (io_dev ?s) = cells (io_dev s)" "ptr (io_dev ?s) = ptr (io_dev s)"
    using chip by (auto simp: serial_chip_def)
  show ?thesis using byte_at_pointer [OF chip, of ?s] unfolding same
    by (auto simp: eeprom_read_current_byte_def flush_buffer_def tool_simps)
qed

lemma write_byte:
  assumes chip: "serial_chip K (e_fd e) width cap cells ptr" and type: "e_type e = int width"
  shows "\<exists>d. eeprom_write_byte K e a b s = (Inr 0, s\<lparr>io_dev := d\<rparr>)
      \<and> cells d = (cells (io_dev s))(chip_addr width cap a := b)"
proof -
  have len: "length (k_junk K (io_dev s)) = 34" using chip by (auto simp: serial_chip_def)
  consider "width = 1" | "width = 2" using chip by (auto simp: serial_chip_def)
  then show ?thesis
  proof cases
    case 1
    let ?c = "ucast (a AND 0xFF) :: u8" and ?buf = "put_u8 (k_junk K (io_dev s)) 0 b"
    have b: "?buf ! 0 = b" using len by (cases "k_junk K (io_dev s)") (auto simp: put_u8_def put_bytes_def)
    have "answers K (e_fd e) (smbus 0 ?c 2 (Some ?buf)) (io_dev s)
        (\<lambda>_ d. cells d = (cells (io_dev s))(unat ?c mod cap := ?buf ! 0))"
      using chip 1 unfolding serial_chip_def by blast
    from byte_data_written [OF this] show ?thesis
      unfolding b addr_low_byte
      by (auto simp: eeprom_write_byte_def i2c_write_2b_def 1 type chip_addr_def EEPROM_TYPE_8BIT_ADDR_def)
  next
    case 2
    let ?c = "ucast (drop_bit 8 a AND 0xFF) :: u8"
    let ?buf = "put_u16 (k_junk K (io_dev s)) 0 (push_bit 8 (ucast b) OR ucast (ucast (a AND 0xFF) :: u8))"
    have "answers K (e_fd e) (smbus 0 ?c 3 (Some ?buf)) (io_dev s)
        (\<lambda>_ d. cells d = (cells (io_dev s))((256 * unat ?c + unat (?buf ! 0)) mod cap := ?buf ! 1))"
      using chip 2 unfolding serial_chip_def by blast
    from word_data_written [OF this] show ?thesis
      unfolding word_data [OF len] two_bytes
      by (auto simp: eeprom_write_byte_def i2c_write_3b_def 2 type chip_addr_def
          EEPROM_TYPE_8BIT_ADDR_def EEPROM_TYPE_16BIT_ADDR_def)
  qed
qed

lemma pointer_moved:
  assumes chip: "serial_chip K (e_fd e) width cap cells ptr" and type: "e_type e = int width"
  shows "\<exists>d. (if e_type e = EEPROM_TYPE_8BIT_ADDR then i2c_write_1b K e (ucast (a AND 0xFF))
      else i2c_write_2b K e (ucast (drop_bit 8 a AND 0xFF)) (ucast (a AND 0xFF))) s = (Inr 0, s\<lparr>io_dev := d\<rparr>)
      \<and> cells d = cells (io_dev s) \<and> ptr d = chip_addr width cap a"
proof -
  have len: "length (k_junk K (io_dev s)) = 34" using chip by (auto simp: serial_chip_def)
  consider "width = 1" | "width = 2" using chip by (auto simp: serial_chip_def)
  then show ?thesis
  proof cases
    case 1
    let ?c = "ucast (a AND 0xFF) :: u8"
    have "answers K (e_fd e) (smbus 0 ?c 1 None) (io_dev s) (\<lambda>_ d. cells d = cells (io_dev s) \<and> ptr d = unat ?c mod cap)"
      using chip 1 unfolding serial_chip_def by blast
    from byte_written [OF this] show ?thesis
      unfolding addr_low_byte by (auto simp: i2c_write_1b_def 1 type chip_addr_def EEPROM_TYPE_8BIT_ADDR_def)
  next
    case 2
    let ?c = "ucast (drop_bit 8 a AND 0xFF) :: u8" and ?lo = "ucast (a AND 0xFF) :: u8"
    let ?buf = "put_u8 (k_junk K (io_dev s)) 0 ?lo"
    have lo: "?buf ! 0 = ?lo" using len by (cases "k_junk K (io_dev s)") (auto simp: put_u8_def put_bytes_def)
    have "answers K (e_fd e) (smbus 0 ?c 2 (Some ?buf)) (io_dev s)
        (\<lambda>_ d. cells d = cells (io_dev s) \<and> ptr d = (256 * unat ?c + unat (?buf ! 0)) mod cap)"
      using chip 2 unfolding serial_chip_def by blast
    from byte_data_written [OF this] show ?thesis
      unfolding lo two_bytes by (auto simp: i2c_write_2b_def 2 type chip_addr_def EEPROM_TYPE_8BIT_ADDR_def)
  qed
qed

lemma read_byte:
  assumes chip: "serial_chip K (e_fd e) width cap cells ptr" and type: "e_type e = int width"
  shows "\<exists>d. eeprom_read_byte K e a s = (Inr (uint (cells (io_dev s) (chip_addr width cap a))), s\<lparr>io_dev := d\<rparr>)
      \<and> cells d = cells (io_dev s) \<and> ptr d = (chip_addr width cap a + 1) mod cap"
proof -
  let ?s = "s\<lparr>io_dev := k_flush K (e_fd e) (io_dev s)\<rparr>"
  have same: "cells (io_dev ?s) = cells (io_dev s)" using chip by (auto simp: serial_chip_def)
  obtain d where move: "(if e_type e = EEPROM_TYPE_8BIT_ADDR then i2c_write_1b K e (ucast (a AND 0xFF))
      else i2c_write_2b K e (ucast (drop_bit 8 a AND 0xFF)) (ucast (a AND 0xFF))) ?s = (Inr 0, ?s\<lparr>io_dev := d\<rparr>)"
    and d: "cells d = cells (io_dev s)" "ptr d = chip_addr width cap a"
    using pointer_moved [OF chip type, of a ?s] unfolding same by blast
  have types: "e_type e = EEPROM_TYPE_8BIT_ADDR \<or> e_type e = EEPROM_TYPE_16BIT_ADDR"
    using chip type by (auto simp: serial_chip_def EEPROM_TYPE_8BIT_ADDR_def EEPROM_TYPE_16BIT_ADDR_def)
  have "eeprom_read_byte K e a s = i2c_smbus_read_byte K (e_fd e) (s\<lparr>io_dev := d\<rparr>)"
    using move types by (auto simp: eeprom_read_byte_def flush_buffer_def tool_simps and_then_ok split: if_splits)
  with byte_at_pointer [OF chip, of "s\<lparr>io_dev := d\<rparr>"] d show ?thesis by auto
qed

section \<open>Writing\<close>

text \<open>The memory after bytes were stored at consecutive addresses, each one as the chip decodes it.\<close>

fun written :: "nat \<Rightarrow> nat \<Rightarrow> int \<Rightarrow> u8 list \<Rightarrow> (nat \<Rightarrow> u8) \<Rightarrow> nat \<Rightarrow> u8" where
  "written width cap a [] m = m"
| "written width cap a (b # bs) m = written width cap (a + 1) bs (m(chip_addr width cap (word_of_int a) := b))"

lemma die_if_run [tool_simps]:
  "and_then (die_if False) f1 s1 = f1 () s1"
  "and_then (die_if True) f2 s2 = (Inl (Exits 1), s2)"
  by (simp_all add: die_if_def tool_simps)

lemma write_loop:
  assumes chip: "serial_chip K (e_fd e) width cap cells ptr" and type: "e_type e = int width"
  shows "io_in s = bs \<Longrightarrow> a + int (length bs) < 2147483648 \<Longrightarrow>
    \<exists>d. repeat (Suc (length bs)) (write_step K e) a s = (Inr (), s\<lparr>io_dev := d, io_in := []\<rparr>)
      \<and> cells d = written width cap a bs (cells (io_dev s))"
proof (induction bs arbitrary: a s)
  case Nil
  then show ?case
    by (auto simp: write_step_def get_char_def and_then_def give_def intro!: exI [of _ "io_dev s"])
next
  case (Cons b bs)
  let ?s = "s\<lparr>io_in := bs\<rparr>"
  obtain d where w: "eeprom_write_byte K e (word_of_int a) b ?s = (Inr 0, ?s\<lparr>io_dev := d\<rparr>)"
    and d: "cells d = (cells (io_dev s))(chip_addr width cap (word_of_int a) := b)"
    using write_byte [OF chip type, of "word_of_int a" b ?s] by auto
  have get: "get_char s = (Inr (Some b), ?s)" using Cons.prems(1) by (simp add: get_char_def)
  have step: "write_step K e a s = (Inr (Inr (a + 1)), ?s\<lparr>io_dev := d\<rparr>)"
    using Cons.prems w by (simp add: write_step_def and_then_ok get tool_simps)
  obtain d' where "repeat (Suc (length bs)) (write_step K e) (a + 1) (?s\<lparr>io_dev := d\<rparr>) =
      (Inr (), ?s\<lparr>io_dev := d, io_dev := d', io_in := []\<rparr>)"
    and "cells d' = written width cap (a + 1) bs (cells d)"
    using Cons.IH [of "?s\<lparr>io_dev := d\<rparr>" "a + 1"] Cons.prems by auto
  with step d show ?case by (simp add: and_then_ok) blast
qed

lemma write_to_eeprom_run:
  assumes chip: "serial_chip K (e_fd e) width cap cells ptr" and type: "e_type e = int width"
    and addr: "a + int (length (io_in s)) < 2147483648"
  shows "\<exists>d. write_to_eeprom K e a s = (Inr 0, s\<lparr>io_dev := d, io_in := []\<rparr>)
      \<and> cells d = written width cap a (io_in s) (cells (io_dev s))"
  using write_loop [OF chip type refl addr] by (auto simp: write_to_eeprom_def tool_simps and_then_ok simp del: repeat.simps)

section \<open>Reading\<close>

lemma upt_shift: "map f [0..<Suc n] = f 0 # map (\<lambda>k. f (Suc k)) [0..<n]"
  by (simp add: upt_conv_Cons map_Suc_upt [symmetric] del: upt_Suc)

lemma read_loop:
  assumes chip: "serial_chip K (e_fd e) width cap cells ptr"
  shows "n < m \<Longrightarrow> ptr (io_dev s) < cap \<Longrightarrow> n < 2147483647 \<Longrightarrow>
    \<exists>d. repeat m (read_step K e False) (a, i, int (Suc n)) s =
        (Inr (), s\<lparr>io_dev := d, io_out := io_out s @ map (\<lambda>k. cells (io_dev s) ((ptr (io_dev s) + k) mod cap)) [0..<n]\<rparr>)
      \<and> cells d = cells (io_dev s)"
proof (induction n arbitrary: m s)
  case 0
  then show ?case
    by (cases m) (auto simp: read_step_def tool_simps intro!: exI [of _ "io_dev s"])
next
  case (Suc n)
  then obtain m' where m: "m = Suc m'" and m': "n < m'" by (cases m) auto
  let ?c = "cells (io_dev s) (ptr (io_dev s))"
  obtain d where r: "eeprom_read_current_byte K e s = (Inr (uint ?c), s\<lparr>io_dev := d\<rparr>)"
    and d: "cells d = cells (io_dev s)" and p: "ptr d = (ptr (io_dev s) + 1) mod cap"
    using read_current [OF chip, of s] by blast
  let ?t = "s\<lparr>io_dev := d, io_out := io_out s @ [?c]\<rparr>"
  have step: "read_step K e False (a, i, int (Suc (Suc n))) s = (Inr (Inr (a, i, int (Suc n))), ?t)"
    using Suc.prems by (simp add: read_step_def and_then_ok r tool_simps show_next_def)
  have "ptr (io_dev ?t) < cap" using chip p by (simp add: serial_chip_def)
  from Suc.IH [OF m' this] Suc.prems obtain d' where
    l: "repeat m' (read_step K e False) (a, i, int (Suc n)) ?t =
        (Inr (), ?t\<lparr>io_dev := d', io_out := io_out ?t @ map (\<lambda>k. cells (io_dev ?t) ((ptr (io_dev ?t) + k) mod cap)) [0..<n]\<rparr>)"
    and d': "cells d' = cells (io_dev ?t)" by auto
  have "map (\<lambda>k. cells (io_dev ?t) ((ptr (io_dev ?t) + k) mod cap)) [0..<n] =
      map (\<lambda>k. cells (io_dev s) ((ptr (io_dev s) + Suc k) mod cap)) [0..<n]"
    using d p by (simp add: mod_add_left_eq)
  moreover have "?c = cells (io_dev s) ((ptr (io_dev s) + 0) mod cap)" using Suc.prems by simp
  ultimately have out: "[?c] @ map (\<lambda>k. cells (io_dev ?t) ((ptr (io_dev ?t) + k) mod cap)) [0..<n] =
      map (\<lambda>k. cells (io_dev s) ((ptr (io_dev s) + k) mod cap)) [0..<Suc n]"
    unfolding upt_shift by simp
  show ?case
    unfolding m repeat.simps and_then_ok [where m = "read_step K e False (a, i, int (Suc (Suc n)))", OF step]
    using l d' d unfolding out [symmetric] by auto
qed

text \<open>Reading \<open>n\<close> bytes gives the cells from the decoded address on, round the end of the chip.\<close>

lemma read_from_eeprom_run:
  assumes chip: "serial_chip K (e_fd e) width cap cells ptr" and type: "e_type e = int width"
    and n: "0 < n" "n < 2147483648"
  shows "\<exists>d. read_from_eeprom K e a (int n) False s =
        (Inr 0, s\<lparr>io_dev := d, io_out := io_out s @
           map (\<lambda>k. cells (io_dev s) ((chip_addr width cap (word_of_int a) + k) mod cap)) [0..<n]\<rparr>)
      \<and> cells d = cells (io_dev s)"
proof -
  let ?p = "chip_addr width cap (word_of_int a)"
  have cap: "0 < cap" and p: "?p < cap" using chip by (auto simp: serial_chip_def chip_addr_def)
  obtain d where r: "eeprom_read_byte K e (word_of_int a) s = (Inr (uint (cells (io_dev s) ?p)), s\<lparr>io_dev := d\<rparr>)"
    and d: "cells d = cells (io_dev s)" "ptr d = (?p + 1) mod cap"
    using read_byte [OF chip type] by blast
  obtain k where k: "n = Suc k" using n by (cases n) auto
  let ?t = "s\<lparr>io_dev := d, io_out := io_out s @ [cells (io_dev s) ?p]\<rparr>"
  have "k < read_fuel (int n)" "ptr (io_dev ?t) < cap" "k < 2147483647" using n k d cap by (auto simp: read_fuel_def)
  from read_loop [OF chip this, of a 1] obtain d' where
    l: "repeat (read_fuel (int n)) (read_step K e False) (a, 1, int n) ?t =
        (Inr (), ?t\<lparr>io_dev := d', io_out := io_out ?t @ map (\<lambda>k. cells (io_dev ?t) ((ptr (io_dev ?t) + k) mod cap)) [0..<k]\<rparr>)"
    and d': "cells d' = cells (io_dev ?t)" unfolding k by auto
  have "map (\<lambda>j. cells (io_dev ?t) ((ptr (io_dev ?t) + j) mod cap)) [0..<k] =
      map (\<lambda>j. cells (io_dev s) ((?p + Suc j) mod cap)) [0..<k]"
    using d by (simp add: mod_add_left_eq)
  moreover have "cells (io_dev s) ?p = cells (io_dev s) ((?p + 0) mod cap)" using p by simp
  ultimately have out: "cells (io_dev s) ?p # map (\<lambda>j. cells (io_dev ?t) ((ptr (io_dev ?t) + j) mod cap)) [0..<k] =
      map (\<lambda>j. cells (io_dev s) ((?p + j) mod cap)) [0..<n]"
    unfolding k upt_shift by simp
  have "read_from_eeprom K e a (int n) False s = (Inr 0, ?t\<lparr>io_dev := d', io_out := io_out ?t @ map (\<lambda>k. cells (io_dev ?t) ((ptr (io_dev ?t) + k) mod cap)) [0..<k]\<rparr>)"
    by (simp add: read_from_eeprom_def and_then_ok r show_first_def tool_simps l del: repeat.simps)
  then show ?thesis using d' d unfolding out [symmetric] by auto
qed

section \<open>The memory afterwards\<close>

lemma chip_addr_inside:
  assumes "0 \<le> a" "a < int cap" "a < 256 ^ width" "width = 1 \<or> width = 2"
  shows "chip_addr width cap (word_of_int a) = nat a"
proof -
  have "a < 65536" using assms by auto
  then have "unat (word_of_int a :: u16) = nat a"
    using assms(1) by (simp add: unsigned_of_int take_bit_int_eq_self)
  then show ?thesis using assms by (auto simp: chip_addr_def nat_less_iff)
qed

lemma written_inside:
  "0 \<le> a \<Longrightarrow> a + int (length bs) \<le> int cap \<Longrightarrow> a + int (length bs) \<le> 256 ^ width \<Longrightarrow> width = 1 \<or> width = 2 \<Longrightarrow>
   written width cap a bs m x = (if a \<le> int x \<and> int x < a + int (length bs) then bs ! nat (int x - a) else m x)"
proof (induction bs arbitrary: a m)
  case (Cons b bs)
  have addr: "chip_addr width cap (word_of_int a) = nat a"
    using Cons.prems by (intro chip_addr_inside) auto
  have "written width cap a (b # bs) m x =
      (if a + 1 \<le> int x \<and> int x < a + 1 + int (length bs) then bs ! nat (int x - (a + 1)) else (m(nat a := b)) x)"
    unfolding written.simps addr by (rule Cons.IH) (use Cons.prems in auto)
  moreover have "nat (int x - a) = Suc (nat (int x - (a + 1)))" if "a + 1 \<le> int x" using that by auto
  ultimately show ?case using Cons.prems by (auto simp: nth_Cons' simp del: written.simps)
qed auto

text \<open>With one address byte the chip sees the address modulo 256, so a long input starts over.\<close>

lemma chip_addr_page:
  assumes "256 \<le> cap" shows "chip_addr 1 cap (word_of_int a) = nat (a mod 256)"
proof -
  have "unat (word_of_int a :: u16) mod 256 = nat (a mod 65536) mod 256"
    by (simp add: unsigned_of_int take_bit_eq_mod nat_take_bit_eq)
  also have "\<dots> = nat (a mod 65536 mod 256)" by (simp add: nat_mod_distrib)
  also have "a mod 65536 mod 256 = a mod 256" by (simp add: mod_mod_cancel)
  finally have u: "unat (word_of_int a :: u16) mod 256 = nat (a mod 256)" .
  have "a mod 256 < 256" by simp
  then have "nat (a mod 256) < cap" using assms by linarith
  then show ?thesis by (simp add: chip_addr_def u)
qed

lemma written_append: "written width cap a (bs @ cs) m = written width cap (a + int (length bs)) cs (written width cap a bs m)"
  by (induction bs arbitrary: a m) (simp_all add: add.assoc)

lemma written_again:
  assumes cap: "256 \<le> cap" and n: "length cs \<le> 256" "x < length cs" and bs: "length bs = 256"
  shows "written 1 cap 0 (bs @ cs) m x = cs ! x"
proof -
  have shift: "written 1 cap (256 + a) cs m' = written 1 cap a cs m'" for a m' cs
    by (induction cs arbitrary: a m') (simp_all only: written.simps add.assoc chip_addr_page [OF cap] mod_add_self1)
  have "written 1 cap 0 (bs @ cs) m x = written 1 cap 0 cs (written 1 cap 0 bs m) x"
    using shift [of 0] by (simp add: written_append bs)
  also have "\<dots> = cs ! x" using assms by (simp add: written_inside)
  finally show ?thesis .
qed

section \<open>Running to the end\<close>

lemma io_dev_same [simp]: "\<exists>d. s = s\<lparr>io_dev := d\<rparr>"
  by (rule exI [of _ "io_dev s"]) simp

lemma device_calls:
  "\<exists>v d. eeprom_read_current_byte K e s = (Inr v, s\<lparr>io_dev := d\<rparr>)"
  "\<exists>v d. eeprom_read_byte K e a s = (Inr v, s\<lparr>io_dev := d\<rparr>)"
  "\<exists>v d. eeprom_write_byte K e a b s = (Inr v, s\<lparr>io_dev := d\<rparr>)"
  by (auto simp: eeprom_read_current_byte_def eeprom_read_byte_def eeprom_write_byte_def flush_buffer_def
      i2c_write_1b_def i2c_write_2b_def i2c_write_3b_def i2c_smbus_read_byte_def i2c_smbus_write_byte_def
      i2c_smbus_write_byte_data_def i2c_smbus_write_word_data_def i2c_smbus_access_def junk_def tool_simps
      split: prod.split)

lemma read_loop_no_result:
  assumes "sz \<le> 0"
  shows "fst (repeat n (read_step K e hex) (a, i, sz) s) \<noteq> Inr v"
  using assms
proof (induction n arbitrary: a i sz s)
  case (Suc n)
  obtain v d where r: "eeprom_read_current_byte K e s = (Inr v, s\<lparr>io_dev := d\<rparr>)" using device_calls(1) [of K e s] by auto
  show ?case using Suc.IH Suc.prems
    by (auto simp: read_step_def r and_then_ok tool_simps die_if_def Let_def)
qed (simp add: tool_simps)

text \<open>A size that is not positive: the counter runs down to the smallest \<open>int\<close>.\<close>

lemma read_loop_crash:
  assumes chip: "serial_chip K (e_fd e) width cap cells ptr"
  shows "sz \<le> 0 \<Longrightarrow> - 2147483648 \<le> sz \<Longrightarrow> read_fuel sz \<le> n \<Longrightarrow>
    fst (repeat n (read_step K e hex) (a, i, sz) s) = Inl Crashes"
proof (induction n arbitrary: a i sz s)
  case 0
  then show ?case by (simp add: read_fuel_def)
next
  case (Suc n)
  obtain d where r: "eeprom_read_current_byte K e s = (Inr (uint (cells (io_dev s) (ptr (io_dev s)))), s\<lparr>io_dev := d\<rparr>)"
    using read_current [OF chip] by blast
  have fuel: "sz \<noteq> - 2147483648 \<Longrightarrow> - 2147483648 \<le> sz - 1 \<and> read_fuel (sz - 1) \<le> n"
    using Suc.prems by (auto simp: read_fuel_def split: if_splits)
  show ?case using Suc.IH fuel Suc.prems
    by (auto simp: read_step_def r and_then_ok tool_simps Let_def)
qed

text \<open>A program that ends without undefined behaviour: with a result, or by exiting with status 1.\<close>

definition ends_well :: "('d, 'a) tool \<Rightarrow> 'd io \<Rightarrow> bool" where
  "ends_well m s \<longleftrightarrow> (case fst (m s) of Inl e \<Rightarrow> e = Exits 1 | Inr _ \<Rightarrow> True)"

lemma ends_well_simps [simp]: "ends_well (give x) s" "ends_well (stop_with e) s \<longleftrightarrow> e = Exits 1"
    "ends_well (on_dev f) s" "ends_well (put_out bs) s" "ends_well get_char s" "ends_well (die_if c) s" "ends_well confirm_action s"
  by (simp_all add: ends_well_def tool_simps get_char_def die_if_def confirm_action_def and_then_def give_def split: list.split)

lemma ends_well_then:
  "ends_well m s \<Longrightarrow> (\<And>x t. m s = (Inr x, t) \<Longrightarrow> ends_well (f x) t) \<Longrightarrow> ends_well (and_then m f) s"
  by (cases "m s", cases "fst (m s)") (auto simp: ends_well_def and_then_def)

lemma ends_well_before: "ends_well m s \<Longrightarrow> (\<And>x t. m s = (Inr x, t) \<Longrightarrow> ends_well n t) \<Longrightarrow> ends_well (before m n) s"
  unfolding before_def by (rule ends_well_then)

lemma read_loop_ends:
  "0 < sz \<Longrightarrow> nat sz \<le> n \<Longrightarrow> (hex \<longrightarrow> a + sz \<le> 2147483648 \<and> i + sz \<le> 2147483648) \<Longrightarrow>
   ends_well (repeat n (read_step K e hex) (a, i, sz)) s"
proof (induction n arbitrary: a i sz s)
  case (Suc n a i sz s)
  obtain v d where r: "eeprom_read_current_byte K e s = (Inr v, s\<lparr>io_dev := d\<rparr>)" using device_calls(1) [of K e s] by auto
  have more: "sz \<noteq> 1 \<Longrightarrow> ends_well (repeat n (read_step K e hex) (if hex then a + 1 else a, if hex then i + 1 else i, sz - 1)) t" for t
    using Suc.prems by (intro Suc.IH) auto
  show ?case
  proof (cases "sz = 1")
    case True
    then have "read_step K e hex (a, i, sz) s = (Inr (Inl ()), s)" by (simp add: read_step_def give_def)
    then show ?thesis by (simp add: ends_well_def and_then_ok give_def)
  next
    case False
    let ?a = "if hex then a + 1 else a" and ?i = "if hex then i + 1 else i"
    let ?t = "s\<lparr>io_dev := d, io_out := io_out s @ show_next hex ?a i v\<rparr>"
    have "sz \<noteq> - 2147483648" "sz - 1 \<noteq> 0" "\<not> (hex \<and> (a = 2147483647 \<or> i = 2147483647))" using False Suc.prems by auto
    then have "read_step K e hex (a, i, sz) s =
        (if v < 0 then (Inl (Exits 1), s\<lparr>io_dev := d\<rparr>) else (Inr (Inr (?a, ?i, sz - 1)), ?t))"
      by (cases hex) (simp_all add: read_step_def and_then_ok [where m = "eeprom_read_current_byte K e", OF r] tool_simps die_if_def Let_def)
    then show ?thesis using more [of ?t] False by (cases "v < 0") (simp_all add: ends_well_def and_then_ok and_then_stop)
  qed
qed simp

lemma read_ends:
  assumes "0 < sz" "sz < 2147483648" "hex \<longrightarrow> a + sz \<le> 2147483648"
  shows "ends_well (read_from_eeprom K e a sz hex) s"
proof -
  obtain v d where r: "eeprom_read_byte K e (word_of_int a) s = (Inr v, s\<lparr>io_dev := d\<rparr>)" using device_calls(2) [of K e "word_of_int a" s] by auto
  have "ends_well (repeat (read_fuel sz) (read_step K e hex) (a, 1, sz)) t" for t
    using assms by (intro read_loop_ends) (auto simp: read_fuel_def)
  moreover have "ends_well (eeprom_read_byte K e (word_of_int a)) s" by (simp add: ends_well_def r)
  ultimately show ?thesis unfolding read_from_eeprom_def by (intro ends_well_then ends_well_before) simp_all
qed

lemma write_loop_ends:
  "length (io_in s) < n \<Longrightarrow> a + int (length (io_in s)) \<le> 2147483647 \<Longrightarrow> ends_well (repeat n (write_step K e) a) s"
proof (induction n arbitrary: a s)
  case (Suc n)
  show ?case
  proof (cases "io_in s")
    case Nil
    then show ?thesis by (simp add: ends_well_def write_step_def get_char_def and_then_def give_def)
  next
    case (Cons c cs)
    obtain v d where w: "eeprom_write_byte K e (word_of_int a) c (s\<lparr>io_in := cs\<rparr>) = (Inr v, s\<lparr>io_in := cs, io_dev := d\<rparr>)"
      using device_calls(3) [of K e "word_of_int a" c "s\<lparr>io_in := cs\<rparr>"] by auto
    let ?s = "s\<lparr>io_in := cs, io_dev := d\<rparr>"
    have "write_step K e a s = (if v = 0 then Inr (Inr (a + 1)) else Inl (Exits 1), ?s)"
      using Cons Suc.prems(2) by (simp add: write_step_def get_char_def and_then_ok w die_if_def tool_simps)
    moreover have "ends_well (repeat n (write_step K e) (a + 1)) ?s" using Suc.prems Cons by (intro Suc.IH) simp_all
    ultimately show ?thesis by (cases "v = 0") (simp_all add: ends_well_def and_then_ok and_then_stop)
  qed
qed simp

lemma write_ends:
  assumes "a + int (length (io_in s)) \<le> 2147483647" shows "ends_well (write_to_eeprom K e a) s"
proof -
  have "ends_well (before (repeat (Suc (length (io_in s))) (write_step K e) a) (give 0 :: ('a, int) tool)) s"
    using assms by (intro ends_well_before write_loop_ends) simp_all
  then show ?thesis by (simp add: ends_well_def write_to_eeprom_def)
qed

lemma int32_range: "to_int32 v < 2147483648"
  using sint_less [of "word_of_int v :: u32"] by (simp add: to_int32_def)

text \<open>What the options ask for: a positive number of bytes to read, and addresses below \<open>2 ^ 31\<close> where they are
  counted, which reading does in hexadecimal only.  \<open>n\<close> is the length of the input.\<close>

definition counts_fit :: "eeprog_opts \<Rightarrow> nat \<Rightarrow> bool" where
  "counts_fit opts n \<longleftrightarrow>
     (eo_op opts = 114 \<longrightarrow> (case parse_arg (eo_arg opts) 1 of (a, sz) \<Rightarrow> 0 < sz \<and> (eo_hex opts \<longrightarrow> a + sz \<le> 2147483648))) \<and>
     (eo_op opts = 119 \<longrightarrow> fst (parse_arg (eo_arg opts) 0) + int n \<le> 2147483647)"

lemma confirmed: "(if c then give () else confirm_action) s = (Inr (), t) \<Longrightarrow> length (io_in t) \<le> length (io_in s)"
  by (auto simp: confirm_action_def get_char_def and_then_def give_def split: list.splits if_splits)

lemma act_ends:
  assumes "counts_fit opts (length (io_in s))" shows "ends_well (eeprog_act K opts e) s"
proof -
  have close: "ends_well (eeprom_close K e) s" for s by (simp add: eeprom_close_def ends_well_def tool_simps)
  have ask: "ends_well (if eo_force opts then give () else confirm_action) s" by simp
  obtain a sz where p: "parse_arg (eo_arg opts) 1 = (a, sz)" by fastforce
  have "sz < 2147483648" using p by (auto simp: parse_arg_def int32_range split: prod.splits if_splits)
  then have "eo_op opts = 114 \<Longrightarrow> ends_well (read_from_eeprom K e a sz (eo_hex opts)) t" for t
    using assms p by (intro read_ends) (simp_all add: counts_fit_def)
  moreover have "ends_well (write_to_eeprom K e (fst (parse_arg (eo_arg opts) 0))) t"
    if "eo_op opts = 119" "(if eo_force opts then give () else confirm_action) s = (Inr (), t)" for t
    using assms that(1) confirmed [OF that(2)] by (intro write_ends) (simp add: counts_fit_def)
  ultimately show ?thesis using ask close unfolding eeprog_act_def p
    by (auto intro!: ends_well_before)
qed

lemma open_ends: "ends_well (eeprom_open K dev addr type e) s"
  unfolding eeprom_open_def Let_def by (intro ends_well_then) (auto intro!: ends_well_then split: sum.split)

lemma open_input: "eeprom_open K dev addr type e s = (Inr x, t) \<Longrightarrow> io_in t = io_in s"
  by (auto simp: eeprom_open_def tool_simps Let_def split: sum.splits if_splits)

lemma act_zero: "fst (eeprog_act K opts e s) = Inr r \<Longrightarrow> r = 0"
  by (auto simp: eeprog_act_def before_def and_then_def give_def stop_with_def split: prod.splits sum.splits if_splits)

section \<open>A chip in memory\<close>

text \<open>A serial EEPROM of 256 bytes with one address byte, as a kernel.\<close>

definition ram_smbus :: "int \<Rightarrow> smbus_args \<Rightarrow> (nat \<Rightarrow> u8) \<times> nat \<Rightarrow> (int \<times> u8 list) \<times> (nat \<Rightarrow> u8) \<times> nat" where
  "ram_smbus fd args = (\<lambda>(m, p).
     let buf = (case sm_data args of None \<Rightarrow> [] | Some b \<Rightarrow> b); c = unat (sm_command args) in
     if sm_read_write args = 1 then ((0, m p # tl buf), (m, (p + 1) mod 256))
     else if sm_size args = 1 then ((0, buf), (m, c))
     else ((0, buf), (m(c := buf ! 0), p)))"

definition ram_kernel :: "u32 option \<Rightarrow> ((nat \<Rightarrow> u8) \<times> nat) kernel" where
  "ram_kernel funcs = \<lparr>k_open = (\<lambda>name flags d. (Inr 3, d)), k_close = (\<lambda>fd d. d),
     k_funcs = (\<lambda>fd d. (case funcs of None \<Rightarrow> Inl 25 | Some v \<Rightarrow> Inr v, d)), k_slave = (\<lambda>force fd a d. (None, d)),
     k_pec = (\<lambda>fd v d. (True, d)), k_flush = (\<lambda>fd d. d), k_smbus = ram_smbus, k_rdwr = (\<lambda>fd msg d. ((- 1, msg_buf msg), d)),
     k_read = (\<lambda>fd n d. (Some [], d)), k_write = (\<lambda>fd bs d. (- 1, d)), k_junk = (\<lambda>d. replicate 34 0)\<rparr>"

definition ram_eeprom :: eeprom where
  "ram_eeprom = \<lparr>e_dev = None, e_addr = 80, e_fd = 3, e_type = 1\<rparr>"

definition ram_io :: "u8 list \<Rightarrow> ((nat \<Rightarrow> u8) \<times> nat) io" where
  "ram_io bs = \<lparr>io_dev = (\<lambda>_. 0, 0), io_in = bs, io_out = []\<rparr>"

lemma ram_chip: "serial_chip (ram_kernel funcs) (e_fd ram_eeprom) 1 256 fst snd" and ram_type: "e_type ram_eeprom = int 1"
proof -
  have "unat (c :: u8) mod 256 = unat c" for c
  proof -
    have "unat c < 2 ^ LENGTH(8)" by (rule unsigned_less)
    then show ?thesis by simp
  qed
  then show "serial_chip (ram_kernel funcs) (e_fd ram_eeprom) 1 256 fst snd"
    by (simp add: serial_chip_def ram_kernel_def ram_smbus_def answers_def smbus_def split: prod.split)
qed (simp add: ram_eeprom_def)

section \<open>Properties\<close>

text \<open>C15. Writing the standard input to the chip and reading the same number of bytes at the same address
  gives the input back, for chips with one and with two address bytes; nothing outside the range changes
  and the whole input is consumed.\<close>

theorem eeprog_round_trip:
  assumes "serial_chip K (e_fd e) width cap cells ptr" and "e_type e = int width"
    and "0 \<le> a" and "io_in s \<noteq> []" and "a + int (length (io_in s)) \<le> int cap" and "a + int (length (io_in s)) \<le> 256 ^ width"
  shows "\<exists>t u. write_to_eeprom K e a s = (Inr 0, t) \<and> io_in t = [] \<and>
    (\<forall>x. \<not> (a \<le> int x \<and> int x < a + int (length (io_in s))) \<longrightarrow> cells (io_dev t) x = cells (io_dev s) x) \<and>
    read_from_eeprom K e a (int (length (io_in s))) False t = (Inr 0, u) \<and> io_out u = io_out s @ io_in s"
proof -
  let ?n = "length (io_in s)"
  have w: "width = 1 \<or> width = 2" using assms(1) by (auto simp: serial_chip_def)
  then have small: "a + int ?n \<le> 65536" using assms(6) by auto
  obtain d where wr: "write_to_eeprom K e a s = (Inr 0, s\<lparr>io_dev := d, io_in := []\<rparr>)"
    and d: "cells d = written width cap a (io_in s) (cells (io_dev s))"
    using write_to_eeprom_run [OF assms(1,2), of a s] small by auto
  have cells: "cells d x = (if a \<le> int x \<and> int x < a + int ?n then io_in s ! nat (int x - a) else cells (io_dev s) x)" for x
    unfolding d by (rule written_inside) (use assms w in auto)
  let ?t = "s\<lparr>io_dev := d, io_in := []\<rparr>"
  obtain d' where rd: "read_from_eeprom K e a (int ?n) False ?t = (Inr 0, ?t\<lparr>io_dev := d', io_out := io_out s @
      map (\<lambda>k. cells d ((chip_addr width cap (word_of_int a) + k) mod cap)) [0..<?n]\<rparr>)"
    using read_from_eeprom_run [OF assms(1,2), of ?n a ?t] assms(3,4) small by auto
  have "chip_addr width cap (word_of_int a) = nat a"
    using assms(3-6) w by (intro chip_addr_inside) (cases "io_in s"; auto)+
  then have "map (\<lambda>k. cells d ((chip_addr width cap (word_of_int a) + k) mod cap)) [0..<?n] = map (\<lambda>k. io_in s ! k) [0..<?n]"
    using assms(3,5) by (auto simp: cells nat_add_distrib mod_less)
  with wr rd cells show ?thesis by (auto simp: map_nth)
qed

theorem eeprog_round_trip_witness:
  "\<exists>t u. write_to_eeprom (ram_kernel None) ram_eeprom 250
      (ram_io [1, 2, 3]) = (Inr 0, t) \<and>
    read_from_eeprom (ram_kernel None) ram_eeprom 250 3 False t = (Inr 0, u) \<and>
    io_out u = [1, 2, 3]"
  using eeprog_round_trip [OF ram_chip [of None] ram_type, where a = 250 and s = "ram_io [1, 2, 3]"]
  by (auto simp: ram_io_def)

text \<open>With one address byte an input of more than 256 bytes starts over at the first cell: what was
  written there is lost, and the program still reports success.\<close>

theorem eeprog_wraps:
  assumes "serial_chip K (e_fd e) 1 cap cells ptr" and "e_type e = 1" and "256 \<le> cap"
    and "io_in s = bs @ cs" and "length bs = 256" and "length cs \<le> 256"
  shows "\<exists>t. write_to_eeprom K e 0 s = (Inr 0, t) \<and> (\<forall>x < length cs. cells (io_dev t) x = cs ! x)"
proof -
  obtain d where "write_to_eeprom K e 0 s = (Inr 0, s\<lparr>io_dev := d, io_in := []\<rparr>)"
    and "cells d = written 1 cap 0 (bs @ cs) (cells (io_dev s))"
    using write_to_eeprom_run [OF assms(1), of 0 s] assms by auto
  moreover have "written 1 cap 0 (bs @ cs) (cells (io_dev s)) x = cs ! x" if "x < length cs" for x
    using assms(3,6) that assms(5) by (rule written_again)
  ultimately show ?thesis by auto
qed

theorem eeprog_wraps_witness:
  "\<exists>t. write_to_eeprom (ram_kernel None) ram_eeprom 0
      (ram_io (replicate 256 7 @ [9])) = (Inr 0, t) \<and> fst (io_dev t) 0 = 9"
  using eeprog_wraps [OF ram_chip [of None], where s = "ram_io (replicate 256 7 @ [9])" and bs = "replicate 256 7" and cs = "[9]"]
  by (auto simp: ram_io_def ram_eeprom_def)

definition eeprog_asks :: "u8 list list \<Rightarrow> eeprog_opts option" where
  "eeprog_asks args = eeprog_opts_all (fst (getopt (bytes_of ''1rw'') (bytes_of ''8fqhxd'') args))
     \<lparr>eo_type = 0, eo_hex = False, eo_dummy = False, eo_force = False, eo_op = 0, eo_arg = []\<rparr>"

text \<open>C29. \<open>eeprog\<close> ends with status 0 or 1 and without undefined behaviour, whatever the input and the devices do,
  on all arguments but those that ask for no byte or a negative number of them to be read, or for addresses
  counted beyond the largest \<open>int\<close>.\<close>

theorem eeprog_terminates:
  assumes "\<forall>opts. eeprog_asks args = Some opts \<longrightarrow> counts_fit opts (length (io_in s))"
  shows "fst (eeprog_main K exists env_dev env_addr e0 args s) \<in> {Inr 0, Inl (Exits 1)}"
proof -
  obtain evs operands where g: "getopt (bytes_of ''1rw'') (bytes_of ''8fqhxd'') args = (evs, operands)" by fastforce
  let ?asked = "eeprog_opts_all evs \<lparr>eo_type = 0, eo_hex = False, eo_dummy = False, eo_force = False, eo_op = 0, eo_arg = []\<rparr>"
  have "ends_well (eeprog_main K exists env_dev env_addr e0 args) s"
  proof (cases ?asked)
    case None
    then show ?thesis by (simp add: eeprog_main_def g)
  next
    case (Some opts)
    let ?opts = "if eo_type opts = 0 then opts\<lparr>eo_type := EEPROM_TYPE_8BIT_ADDR\<rparr> else opts"
    have fit: "counts_fit ?opts (length (io_in s))" using assms Some by (simp add: eeprog_asks_def g counts_fit_def)
    have "ends_well (and_then (eeprom_open K device i2c_addr (eo_type ?opts) e0) (\<lambda>(r, e). before (die_if (r < 0)) (eeprog_act K ?opts e))) s"
      for device i2c_addr
    proof (intro ends_well_then open_ends)
      fix x t assume "eeprom_open K device i2c_addr (eo_type ?opts) e0 s = (Inr x, t)"
      then have "io_in t = io_in s" by (rule open_input)
      then have "ends_well (before (die_if (fst x < 0)) (eeprog_act K ?opts (snd x))) t"
        using fit by (intro ends_well_before act_ends) (auto simp: die_if_def give_def stop_with_def split: if_splits)
      then show "ends_well (case x of (r, e) \<Rightarrow> before (die_if (r < 0)) (eeprog_act K ?opts e)) t" by (simp add: case_prod_beta)
    qed
    then show ?thesis using Some
      by (cases "eo_type opts = 0") (simp_all add: eeprog_main_def g Let_def split: option.split prod.split)
  qed
  moreover have "fst (eeprog_main K exists env_dev env_addr e0 args s) = Inr r \<Longrightarrow> r = 0" for r
    by (auto simp: eeprog_main_def g Let_def give_def stop_with_def before_def and_then_def dest: act_zero split: option.splits prod.splits sum.splits if_splits)
  ultimately show ?thesis by (cases "fst (eeprog_main K exists env_dev env_addr e0 args s)") (auto simp: ends_well_def)
qed

lemma eeprog_terminates_witness:
  "fst (eeprog_main (ram_kernel None) (\<lambda>_. False) None None ram_eeprom (map bytes_of [''/dev/i2c-0'', ''0x50'', ''-x'', ''-f'', ''-r'', ''0x10:8'']) (ram_io []))
     \<in> {Inr 0, Inl (Exits 1)}"
proof (rule eeprog_terminates)
  have "eeprog_asks (map bytes_of [''/dev/i2c-0'', ''0x50'', ''-x'', ''-f'', ''-r'', ''0x10:8'']) =
      Some \<lparr>eo_type = 0, eo_hex = True, eo_dummy = False, eo_force = True, eo_op = 114, eo_arg = bytes_of ''0x10:8''\<rparr>" by code_simp
  moreover have "number_sign (bytes_of ''0x10:8'') = (False, bytes_of ''0x10:8'')" "number_sign [56] = (False, [56])"
      "number_body (bytes_of ''0x10:8'') = Some (16, [58, 56])" "number_body [56] = Some (8, [])" by code_simp+
  then have "parse_arg (bytes_of ''0x10:8'') 1 = (16, 8)" by (simp add: parse_arg_def strtoul_def to_int32_def)
  ultimately show "\<forall>opts. eeprog_asks (map bytes_of [''/dev/i2c-0'', ''0x50'', ''-x'', ''-f'', ''-r'', ''0x10:8'']) = Some opts \<longrightarrow>
      counts_fit opts (length (io_in (ram_io [])))" by (simp add: counts_fit_def)
qed

text \<open>Asked to read no bytes (\<open>-r addr:0\<close>), or a negative number, \<open>eeprog\<close> does not stop after the first
  byte: on a chip that answers it counts down to the smallest \<open>int\<close>, where the next step is undefined.\<close>

theorem eeprog_read_nothing:
  assumes "serial_chip K (e_fd e) width cap cells ptr" and "e_type e = int width"
    and "sz \<le> 0" and "- 2147483648 \<le> sz"
  shows "fst (read_from_eeprom K e a sz hex s) = Inl Crashes"
proof -
  obtain d where r: "eeprom_read_byte K e (word_of_int a) s =
      (Inr (uint (cells (io_dev s) (chip_addr width cap (word_of_int a)))), s\<lparr>io_dev := d\<rparr>)"
    using read_byte [OF assms(1,2)] by blast
  have stop: "fst (m s) = Inl Crashes \<Longrightarrow> fst (and_then m f s) = Inl Crashes" for m :: "('a, unit) tool" and f :: "unit \<Rightarrow> ('a, int) tool" and s
    by (cases "m s") (auto simp: and_then_stop)
  show ?thesis
    using read_loop_crash [OF assms(1,3,4) order_refl]
    by (auto simp: read_from_eeprom_def r and_then_ok tool_simps stop simp del: repeat.simps)
qed

theorem eeprog_read_nothing_witness:
  "fst (read_from_eeprom (ram_kernel None) ram_eeprom 0 0 False
      (ram_io [])) = Inl Crashes"
  using eeprog_read_nothing [OF ram_chip [of None] ram_type, where sz = 0]
  by simp

text \<open>Without \<open>-f\<close> the question to the user takes the first byte of the data: what is written is the
  input without it.\<close>

theorem eeprog_confirm_takes_data:
  "eeprog_act K (opts\<lparr>eo_op := 119, eo_force := False\<rparr>) e (s\<lparr>io_in := c # bs\<rparr>) =
   eeprog_act K (opts\<lparr>eo_op := 119, eo_force := True\<rparr>) e (s\<lparr>io_in := bs\<rparr>)"
  by (simp add: eeprog_act_def confirm_action_def get_char_def tool_simps and_then_ok)

text \<open>When the adapter cannot tell its functionality, \<open>eeprom_open\<close> returns 1, not an error: its caller
  goes on with the file descriptor 0.\<close>

theorem eeprom_open_funcs_error:
  assumes "k_open K dev O_RDWR (io_dev s) = (Inr fd, d)" and "0 < fd" and "k_funcs K fd d = (Inl errno, d')"
  shows "\<exists>e'. eeprom_open K dev addr type e s = (Inr (1, e'), s\<lparr>io_dev := d'\<rparr>) \<and> e_fd e' = 0 \<and> e_type e' = e_type e"
  using assms by (simp add: eeprom_open_def tool_simps Let_def)

theorem eeprom_open_funcs_error_witness:
  "\<exists>e'. eeprom_open (ram_kernel None) [47] 80 1 \<lparr>e_dev = None, e_addr = 7, e_fd = 9, e_type = 0\<rparr>
      (ram_io []) = (Inr (1, e'), (ram_io [])) \<and> e_fd e' = 0"
  using eeprom_open_funcs_error [where K = "ram_kernel None" and dev = "[47]" and s = "ram_io []"
      and fd = 3 and errno = 25 and addr = 80 and type = 1 and e = "\<lparr>e_dev = None, e_addr = 7, e_fd = 9, e_type = 0\<rparr>"]
  by (auto simp: ram_kernel_def ram_io_def)

end
