(* ===== verification/Decimal.thy ===== *)
theory Decimal
  imports Tool_Monad
begin

text \<open>
  Decimal output and its reading: the digits \<open>dec_digits\<close> writes are the number \<open>number_body\<close> reads.
\<close>

lemma digit_char: "d < 10 \<Longrightarrow> unat (48 + of_nat d :: u8) = 48 + d"
  by (simp add: unat_word_ariths unat_of_nat)

lemma digit_of_char: "d < 10 \<Longrightarrow> digit_of (48 + of_nat d) = d"
  by (simp add: digit_of_def word_le_nat_alt digit_char)

lemma dec_digits_digits: "c \<in> set (dec_digits n) \<Longrightarrow> \<exists>d < 10. c = 48 + of_nat d"
proof (induction n rule: dec_digits.induct)
  case (1 n)
  show ?case
  proof (cases "n < 10")
    case True
    then show ?thesis using 1(2) by (subst (asm) dec_digits.simps) auto
  next
    case False
    have "\<exists>d < 10. 48 + of_nat (n mod 10) = (48 + of_nat d :: u8)" by (rule exI [of _ "n mod 10"]) simp
    then show ?thesis using 1(2) 1(1) [OF False] False by (subst (asm) dec_digits.simps) auto
  qed
qed

lemma dec_digits_value: "foldl (\<lambda>v c. 10 * v + digit_of c) 0 (dec_digits n) = n"
proof (induction n rule: dec_digits.induct)
  case (1 n)
  show ?case
  proof (cases "n < 10")
    case True
    then show ?thesis by (subst dec_digits.simps) (simp add: digit_of_char)
  next
    case False
    have "digit_of (48 + of_nat (n mod 10)) = n mod 10" by (rule digit_of_char) simp
    then show ?thesis using 1 [OF False] False by (subst dec_digits.simps) simp
  qed
qed

lemma dec_digits_head: "n \<noteq> 0 \<Longrightarrow> hd (dec_digits n) \<noteq> 48"
proof (induction n rule: dec_digits.induct)
  case (1 n)
  show ?case
  proof (cases "n < 10")
    case True
    have "unat (48 + of_nat n :: u8) = 48 + n" by (rule digit_char [OF True])
    then have "48 + of_nat n \<noteq> (48 :: u8)" using 1(2) by auto
    with True show ?thesis by (subst dec_digits.simps) simp
  next
    case False
    have ne: "dec_digits m \<noteq> []" for m by (subst dec_digits.simps) simp
    show ?thesis using 1(1) [OF False] False ne [of "n div 10"] by (subst dec_digits.simps) simp
  qed
qed

lemma dec_digits_nonempty [simp]: "dec_digits n \<noteq> []"
  by (subst dec_digits.simps) simp

lemma number_body_dec:
  "number_body (dec_digits n) = Some (n, [])"
proof (cases "n = 0")
  case True
  have "dec_digits 0 = [48]" by (subst dec_digits.simps) simp
  with True show ?thesis by (simp add: number_body_def digit_of_def)
next
  case False
  have "\<forall>c \<in> set (dec_digits n). digit_of c < 10"
    by (auto dest!: dec_digits_digits simp: digit_of_char)
  then have tk: "takeWhile (\<lambda>c. digit_of c < 10) (dec_digits n) = dec_digits n"
    and dr: "dropWhile (\<lambda>c. digit_of c < 10) (dec_digits n) = []" by (simp_all add: takeWhile_eq_all_conv)
  have "dec_digits n ! 0 \<noteq> 48" using dec_digits_head [OF False] by (simp add: hd_conv_nth)
  then show ?thesis
    by (simp add: number_body_def hd_conv_nth Let_def tk dr dec_digits_value)
qed

lemma number_sign_dec: "number_sign (dec_digits n) = (False, dec_digits n)"
proof -
  obtain c cs where c: "dec_digits n = c # cs" by (cases "dec_digits n") auto
  then obtain d where d: "d < 10" "c = 48 + of_nat d" using dec_digits_digits [of c n] by auto
  then have "unat c = 48 + d" by (simp add: digit_char)
  then have "\<not> blank c" "c \<noteq> 45" "c \<noteq> 43" by (auto simp: blank_def word_le_nat_alt)
  with c show ?thesis by (simp add: number_sign_def)
qed

end
