(* ===== verification/I2c_Tools_Correct.thy ===== *)
theory I2c_Tools_Correct
  imports I2c_Tools I2c_Scan Eeprog_Correct Decimal
begin

text \<open>
  What the tools do to a chip with registers, and which addresses they touch.  The chip and the adapter
  are described by what the kernel's calls do (\<open>register_chip\<close>, \<open>adapter\<close>).
\<close>

section \<open>Numbers\<close>

lemma to_int32_same: "- 2147483648 \<le> n \<Longrightarrow> n < 2147483648 \<Longrightarrow> to_int32 n = n"
  by (simp add: to_int32_def signed_of_int signed_take_bit_int_eq_self)

text \<open>A decimal argument of the tools is read back as the number it shows, as long as it fits an
  \<open>int\<close>; a larger one is taken modulo \<open>2^32\<close>, without an error.\<close>

theorem int_arg_decimal:
  assumes "- 9223372036854775808 \<le> n" and "n < 9223372036854775808"
  shows "int_arg (dec_int n) = Some (to_int32 n)
    \<and> (- 2147483648 \<le> n \<and> n < 2147483648 \<longrightarrow> to_int32 n = n)"
proof (cases "n < 0")
  case True
  have "number_sign (dec_int n) = (True, dec_digits (nat (- n)))"
    using True by (simp add: dec_int_def number_sign_def blank_def)
  with True assms show ?thesis by (simp add: int_arg_def strtol_def number_body_dec to_int32_same)
next
  case False
  then have "number_sign (dec_int n) = (False, dec_digits (nat n))" by (simp add: dec_int_def number_sign_dec)
  with False assms show ?thesis by (simp add: int_arg_def strtol_def number_body_dec to_int32_same)
qed

theorem int_arg_decimal_witness:
  "int_arg (dec_int 4294967296) = Some (to_int32 4294967296) \<and> int_arg (dec_int (- 5)) = Some (- 5)"
  using int_arg_decimal [of 4294967296] int_arg_decimal [of "- 5"] by simp

lemma uint_of_unat: "unat (w :: 'a::len word) = n \<Longrightarrow> uint w = int n"
  by (drule arg_cong [of _ _ int]) simp

section \<open>Chips with registers\<close>

text \<open>Byte transactions (\<open>sz = 2\<close>) and word transactions (\<open>sz = 3\<close>) on registers that hold what is written
  to them.\<close>

definition register_chip :: "'d kernel \<Rightarrow> int \<Rightarrow> nat \<Rightarrow> ('d \<Rightarrow> nat \<Rightarrow> nat) \<Rightarrow> bool" where
  "register_chip K fd sz regs \<longleftrightarrow>
     (\<forall>d. length (k_junk K d) = 34) \<and>
     (sz = 2 \<longrightarrow> (\<forall>d c buf. answers K fd (smbus 1 c 2 (Some buf)) d (\<lambda>out d'. unat (out ! 0) = regs d (unat c) \<and> regs d' = regs d)) \<and>
        (\<forall>d c buf. answers K fd (smbus 0 c 2 (Some buf)) d (\<lambda>_ d'. regs d' = (regs d)(unat c := unat (buf ! 0))))) \<and>
     (sz = 3 \<longrightarrow> (\<forall>d c buf. answers K fd (smbus 1 c 3 (Some buf)) d (\<lambda>out d'. unat (get_u16 out 0) = regs d (unat c) \<and> regs d' = regs d)) \<and>
        (\<forall>d c buf. answers K fd (smbus 0 c 3 (Some buf)) d (\<lambda>_ d'. regs d' = (regs d)(unat c := unat (get_u16 buf 0)))))"

definition reg_bits :: "nat \<Rightarrow> nat" where
  "reg_bits sz = (if sz = 3 then 16 else 8)"

lemma byte_data_read:
  assumes "answers K fd (smbus 1 c 2 (Some (k_junk K (io_dev s)))) (io_dev s) P"
  shows "\<exists>out d. i2c_smbus_read_byte_data K fd c s = (Inr (uint (out ! 0)), s\<lparr>io_dev := d\<rparr>) \<and> P out d"
proof -
  have "(0xFF :: u8) = - 1" by simp
  then have "x AND 0xFF = x" for x :: u8 by (simp only: and.right_neutral)
  then show ?thesis using access_answers [OF assms]
    by (auto simp: i2c_smbus_read_byte_data_def I2C_SMBUS_READ_def I2C_SMBUS_BYTE_DATA_def junk_def tool_simps and_then_ok)
qed

lemma word_data_read:
  assumes "answers K fd (smbus 1 c 3 (Some (k_junk K (io_dev s)))) (io_dev s) P"
  shows "\<exists>out d. i2c_smbus_read_word_data K fd c s = (Inr (uint (get_u16 out 0)), s\<lparr>io_dev := d\<rparr>) \<and> P out d"
proof -
  have "(0xFFFF :: u16) = - 1" by simp
  then have "x AND 0xFFFF = x" for x :: u16 by (simp only: and.right_neutral)
  then show ?thesis using access_answers [OF assms]
    by (auto simp: i2c_smbus_read_word_data_def I2C_SMBUS_READ_def I2C_SMBUS_WORD_DATA_def junk_def tool_simps and_then_ok)
qed

lemma reg_read:
  assumes chip: "register_chip K fd sz regs" and sz: "sz = 2 \<or> sz = 3" and a: "0 \<le> a" "a < 256"
  shows "\<exists>d. set_read_reg K fd sz a s = (Inr (int (regs (io_dev s) (nat a))), s\<lparr>io_dev := d\<rparr>) \<and> regs d = regs (io_dev s)"
proof -
  have c: "unat (word_of_int a :: u8) = nat a" using a by (simp add: unsigned_of_int take_bit_int_eq_self)
  from sz show ?thesis
  proof
    assume "sz = 2"
    then have "answers K fd (smbus 1 (word_of_int a) 2 (Some (k_junk K (io_dev s)))) (io_dev s)
        (\<lambda>out d'. unat (out ! 0) = regs (io_dev s) (unat (word_of_int a :: u8)) \<and> regs d' = regs (io_dev s))"
      using chip unfolding register_chip_def by blast
    from byte_data_read [OF this] show ?thesis unfolding c
      using \<open>sz = 2\<close> by (auto simp: set_read_reg_def I2C_SMBUS_WORD_DATA_def dest!: uint_of_unat)
  next
    assume "sz = 3"
    then have "answers K fd (smbus 1 (word_of_int a) 3 (Some (k_junk K (io_dev s)))) (io_dev s)
        (\<lambda>out d'. unat (get_u16 out 0) = regs (io_dev s) (unat (word_of_int a :: u8)) \<and> regs d' = regs (io_dev s))"
      using chip unfolding register_chip_def by blast
    from word_data_read [OF this] show ?thesis unfolding c
      using \<open>sz = 3\<close> by (auto simp: set_read_reg_def I2C_SMBUS_WORD_DATA_def dest!: uint_of_unat)
  qed
qed

lemma reg_write:
  assumes chip: "register_chip K fd sz regs" and sz: "sz = 2 \<or> sz = 3" and a: "0 \<le> a" "a < 256"
    and v: "0 \<le> v" "v < 2 ^ reg_bits sz"
  shows "\<exists>d. set_write_reg K fd sz a v s = (Inr 0, s\<lparr>io_dev := d\<rparr>) \<and> regs d = (regs (io_dev s))(nat a := nat v)"
proof -
  have len: "length (k_junk K (io_dev s)) = 34" using chip by (auto simp: register_chip_def)
  have c: "unat (word_of_int a :: u8) = nat a" using a by (simp add: unsigned_of_int take_bit_int_eq_self)
  from sz show ?thesis
  proof
    assume sz: "sz = 2"
    let ?buf = "put_u8 (k_junk K (io_dev s)) 0 (word_of_int v)"
    have "answers K fd (smbus 0 (word_of_int a) 2 (Some ?buf)) (io_dev s)
        (\<lambda>_ d'. regs d' = (regs (io_dev s))(unat (word_of_int a :: u8) := unat (?buf ! 0)))"
      using chip sz unfolding register_chip_def by blast
    moreover have "?buf ! 0 = word_of_int v" using len by (cases "k_junk K (io_dev s)") (auto simp: put_u8_def put_bytes_def)
    moreover have "unat (word_of_int v :: u8) = nat v"
      using v sz by (simp add: unsigned_of_int take_bit_int_eq_self reg_bits_def)
    ultimately show ?thesis using byte_data_written [where fd = fd and c = "word_of_int a" and v = "word_of_int v" and s = s and K = K]
      by (fastforce simp: set_write_reg_def I2C_SMBUS_WORD_DATA_def sz c)
  next
    assume sz: "sz = 3"
    let ?buf = "put_u16 (k_junk K (io_dev s)) 0 (word_of_int v)"
    have "answers K fd (smbus 0 (word_of_int a) 3 (Some ?buf)) (io_dev s)
        (\<lambda>_ d'. regs d' = (regs (io_dev s))(unat (word_of_int a :: u8) := unat (get_u16 ?buf 0)))"
      using chip sz unfolding register_chip_def by blast
    moreover have "get_u16 ?buf 0 = word_of_int v" using len by (simp add: byte_simps)
    moreover have "unat (word_of_int v :: u16) = nat v"
      using v sz by (simp add: unsigned_of_int take_bit_int_eq_self reg_bits_def)
    ultimately show ?thesis using word_data_written [where fd = fd and c = "word_of_int a" and v = "word_of_int v" and s = s and K = K]
      by (fastforce simp: set_write_reg_def I2C_SMBUS_WORD_DATA_def sz c)
  qed
qed

section \<open>\<open>i2cset\<close>\<close>

text \<open>An adapter that opens, has the given functions and accepts every address; its calls leave the
  registers alone.\<close>

definition adapter :: "'d kernel \<Rightarrow> int \<Rightarrow> u32 \<Rightarrow> ('d \<Rightarrow> 'r) \<Rightarrow> bool" where
  "adapter K fd funcs regs \<longleftrightarrow>
     (\<forall>name flags d. fst (k_open K name flags d) = Inr fd \<and> regs (snd (k_open K name flags d)) = regs d) \<and>
     (\<forall>d. fst (k_funcs K fd d) = Inr funcs \<and> regs (snd (k_funcs K fd d)) = regs d) \<and>
     (\<forall>force a d. fst (k_slave K force fd a d) = None \<and> regs (snd (k_slave K force fd a d)) = regs d) \<and>
     (\<forall>v d. fst (k_pec K fd v d) \<and> regs (snd (k_pec K fd v d)) = regs d) \<and>
     (\<forall>d. regs (k_close K fd d) = regs d)"

lemma show_help_stops: "show_help K F s \<noteq> (Inr x, t)"
  by (auto simp: show_help_def before_def and_then_def stop_with_def split: prod.splits sum.splits)

lemma and_then_gives: "and_then m f s = (Inr y, t) \<longleftrightarrow> (\<exists>x s'. m s = (Inr x, s') \<and> f x s' = (Inr y, t))"
  by (auto simp: and_then_def split: prod.splits sum.splits)

lemma give_gives: "give x s = (Inr y, t) \<longleftrightarrow> x = y \<and> s = t"
  by (auto simp: give_def)

lemma ranged_arg_gives: "ranged_arg K F arg lo hi s = (Inr v, t) \<Longrightarrow> lo \<le> v \<and> v \<le> hi \<and> t = s"
  by (auto simp: ranged_arg_def give_gives show_help_stops split: option.splits if_splits)

lemma plain_arg_gives: "plain_arg K F arg s = (Inr v, t) \<Longrightarrow> t = s"
  by (auto simp: plain_arg_def give_gives show_help_stops split: option.splits)

lemma set_mode_gives: "set_mode K F args s = (Inr r, t) \<Longrightarrow> t = s \<and> (fst r = 2 \<or> fst r = 3)"
  by (auto simp: set_mode_def give_gives show_help_stops I2C_SMBUS_BYTE_DATA_def I2C_SMBUS_WORD_DATA_def split: if_splits)

lemma set_parse_gives:
  assumes "set_parse K F args s = (Inr a, t)"
  shows "t = s \<and> (sa_size a = 2 \<or> sa_size a = 3) \<and> 0 \<le> sa_daddress a \<and> sa_daddress a < 256
    \<and> 0 \<le> sa_value a \<and> sa_value a < 2 ^ reg_bits (sa_size a) \<and> 0 \<le> sa_bus a \<and> sa_bus a < 64"
  using assms
  by (auto simp: set_parse_def and_then_gives give_gives show_help_stops I2C_SMBUS_BYTE_DATA_def I2C_SMBUS_WORD_DATA_def
      reg_bits_def dest!: ranged_arg_gives plain_arg_gives set_mode_gives split: if_splits)

lemma masked_range:
  assumes "0 \<le> v" "v < 2 ^ n" "0 \<le> w" "w < 2 ^ n"
  shows "0 \<le> (v AND m) OR (w AND NOT m)" "(v AND m) OR (w AND NOT m) < (2 :: int) ^ n"
proof -
  have v: "take_bit n v = v" and w: "take_bit n w = w" using assms by (simp_all add: take_bit_int_eq_self)
  have "take_bit n ((v AND m) OR (w AND NOT m)) = (v AND m) OR (w AND NOT m)"
  proof (rule bit_eqI)
    fix i
    have "bit v i \<Longrightarrow> i < n" using bit_take_bit_iff [of n v i] unfolding v by simp
    moreover have "bit w i \<Longrightarrow> i < n" using bit_take_bit_iff [of n w i] unfolding w by simp
    ultimately show "bit (take_bit n ((v AND m) OR (w AND NOT m))) i = bit ((v AND m) OR (w AND NOT m)) i"
      by (auto simp: bit_simps)
  qed
  then show "(v AND m) OR (w AND NOT m) < 2 ^ n" by (metis take_bit_int_less_exp)
  show "0 \<le> (v AND m) OR (w AND NOT m)" using assms by simp
qed

text \<open>The value for a register: with a mask, the bits outside it keep what the register holds.\<close>

definition masked_value :: "set_args \<Rightarrow> nat \<Rightarrow> int" where
  "masked_value a old = (if sa_vmask a = 0 then sa_value a
     else (sa_value a AND sa_vmask a) OR (int old AND NOT (sa_vmask a)))"

lemma dec_digits_length: "n < 256 \<Longrightarrow> length (dec_digits n) \<le> 3"
  by (subst dec_digits.simps, subst dec_digits.simps, subst dec_digits.simps) auto

lemma adapter_run:
  assumes "adapter K fd funcs regs" and "0 \<le> bus" "bus < 256"
  shows "\<exists>d name. open_i2c_dev K bus s = (Inr (Inr fd, name), s\<lparr>io_dev := d\<rparr>) \<and> regs d = regs (io_dev s)"
proof -
  have "length (dir_name bus) < 20"
    using dec_digits_length [of "nat bus"] assms by (simp add: dir_name_def dec_int_def bytes_of_def nat_less_iff)
  with assms show ?thesis by (auto simp: open_i2c_dev_def adapter_def tool_simps)
qed

lemma set_masked_run:
  assumes chip: "register_chip K fd (sa_size a) regs" and sz: "sa_size a = 2 \<or> sa_size a = 3"
    and a: "0 \<le> sa_daddress a" "sa_daddress a < 256" and yes: "fl_yes fl"
  shows "\<exists>d. set_masked K fl fd a s = (Inr (masked_value a (regs (io_dev s) (nat (sa_daddress a)))), s\<lparr>io_dev := d\<rparr>)
      \<and> regs d = regs (io_dev s)"
proof -
  obtain d where "set_read_reg K fd (sa_size a) (sa_daddress a) s =
      (Inr (int (regs (io_dev s) (nat (sa_daddress a)))), s\<lparr>io_dev := d\<rparr>)" and "regs d = regs (io_dev s)"
    using reg_read [OF chip sz a] by blast
  then show ?thesis using yes
    by (cases "sa_vmask a = 0") (auto simp: set_masked_def masked_value_def and_then_ok tool_simps Let_def intro!: exI [of _ "io_dev s"])
qed

lemma regs_range:
  assumes chip: "register_chip K fd sz regs" and sz: "sz = 2 \<or> sz = 3" and a: "0 \<le> a" "a < 256"
  shows "int (regs d (nat a)) < 2 ^ reg_bits sz"
proof -
  have c: "unat (word_of_int a :: u8) = nat a" using a by (simp add: unsigned_of_int take_bit_int_eq_self)
  have b: "unat (x :: u8) < 256" "unat (y :: u16) < 65536" for x y
    using unsigned_less [of x] unsigned_less [of y] by simp_all
  from sz show ?thesis
  proof
    assume "sz = 2"
    then have "answers K fd (smbus 1 (word_of_int a) 2 (Some [])) d (\<lambda>out d'. unat (out ! 0) = regs d (unat (word_of_int a :: u8)) \<and> regs d' = regs d)"
      using chip unfolding register_chip_def by blast
    then show ?thesis using \<open>sz = 2\<close> b(1) by (auto simp: c reg_bits_def dest!: answersD) (metis of_nat_less_iff of_nat_numeral)
  next
    assume "sz = 3"
    then have "answers K fd (smbus 1 (word_of_int a) 3 (Some [])) d (\<lambda>out d'. unat (get_u16 out 0) = regs d (unat (word_of_int a :: u8)) \<and> regs d' = regs d)"
      using chip unfolding register_chip_def by blast
    then show ?thesis using \<open>sz = 3\<close> b(2) by (auto simp: c reg_bits_def dest!: answersD) (metis of_nat_less_iff of_nat_numeral)
  qed
qed

lemma set_store_run:
  assumes ad: "adapter K fd funcs regs" and chip: "register_chip K fd (sa_size a) regs"
    and sz: "sa_size a = 2 \<or> sa_size a = 3" and a: "0 \<le> sa_daddress a" "sa_daddress a < 256"
    and v: "0 \<le> v" "v < 2 ^ reg_bits (sa_size a)"
  shows "\<exists>d. set_store K fd a v s = (Inl (Exits 0), s\<lparr>io_dev := d\<rparr>) \<and> regs d = (regs (io_dev s))(nat (sa_daddress a) := nat v)"
proof -
  have pec: "\<exists>d. (if sa_pec a then on_dev (k_pec K fd x) else give True) s = (Inr True, s\<lparr>io_dev := d\<rparr>) \<and> regs d = regs (io_dev s)" for x s
    using ad by (auto simp: adapter_def tool_simps intro!: exI [of _ "io_dev s"])
  obtain d1 where 1: "(if sa_pec a then on_dev (k_pec K fd 1) else give True) s = (Inr True, s\<lparr>io_dev := d1\<rparr>)" "regs d1 = regs (io_dev s)"
    using pec by blast
  obtain d2 where 2: "set_write_reg K fd (sa_size a) (sa_daddress a) v (s\<lparr>io_dev := d1\<rparr>) = (Inr 0, s\<lparr>io_dev := d2\<rparr>)"
      "regs d2 = (regs (io_dev s))(nat (sa_daddress a) := nat v)"
    using reg_write [OF chip sz a v, of "s\<lparr>io_dev := d1\<rparr>"] 1 by auto
  obtain d3 where 3: "(if sa_pec a then on_dev (k_pec K fd 0) else give True) (s\<lparr>io_dev := d2\<rparr>) = (Inr True, s\<lparr>io_dev := d3\<rparr>)" "regs d3 = regs d2"
    using pec [of 0 "s\<lparr>io_dev := d2\<rparr>"] by auto
  obtain d4 where 4: "set_read_reg K fd (sa_size a) (sa_daddress a) (s\<lparr>io_dev := d3\<rparr>) = (Inr v, s\<lparr>io_dev := d4\<rparr>)" "regs d4 = regs d2"
    using reg_read [OF chip sz a, of "s\<lparr>io_dev := d3\<rparr>"] 3 2 v by auto
  have "set_store K fd a v s = (Inl (Exits 0), s\<lparr>io_dev := k_close K fd d4\<rparr>)"
    unfolding set_store_def Let_def
    by (rule and_then_into, rule 1(1), simp only: not_True_eq_False if_False, rule and_then_into, rule 2(1),
        rule and_then_into, rule 3(1), simp only: not_True_eq_False if_False, rule and_then_into, rule 4(1))
      (use v in \<open>simp add: close_dev_def tool_simps\<close>)
  moreover have "regs (k_close K fd d4) = regs d2" using ad 4(2) by (simp add: adapter_def)
  ultimately show ?thesis using 2(2) by auto
qed

text \<open>C16. \<open>i2cset -y\<close> on a chip that stores what is written to it: the register gets the value, with a mask
  only in the bits of the mask, every other register keeps its contents, and the exit status is 0.\<close>

theorem i2cset_sets_register:
  assumes ad: "adapter K fd funcs regs" and chip: "register_chip K fd (sa_size a) regs"
    and funcs: "funcs AND I2C_FUNC_SMBUS_WRITE_BYTE_DATA \<noteq> 0" "funcs AND I2C_FUNC_SMBUS_WRITE_WORD_DATA \<noteq> 0"
    and args: "args \<noteq> []" "char_at (hd args) 0 \<noteq> 45" "set_parse K F args s = (Inr a, s)"
  shows "\<exists>t. i2cset_main K F ([45, 121] # args) s = (Inl (Exits 0), t) \<and> regs (io_dev t) =
    (regs (io_dev s))(nat (sa_daddress a) := nat (masked_value a (regs (io_dev s) (nat (sa_daddress a)))))"
proof -
  let ?fl = "\<lparr>fl_force = False, fl_yes = True, fl_version = False\<rparr>" and ?r = "nat (sa_daddress a)"
  have sz: "sa_size a = 2 \<or> sa_size a = 3" and da: "0 \<le> sa_daddress a" "sa_daddress a < 256"
    and val: "0 \<le> sa_value a" "sa_value a < 2 ^ reg_bits (sa_size a)" and bus: "0 \<le> sa_bus a" "sa_bus a < 256"
    using set_parse_gives [OF args(3)] by auto
  have flags: "read_flags K F no_flags ([45, 121] # args) s = (Inr (?fl, args), s)"
    using args(1,2) by (cases args) (simp_all add: char_at_def tool_simps no_flags_def)
  obtain d1 name where o: "open_i2c_dev K (sa_bus a) s = (Inr (Inr fd, name), s\<lparr>io_dev := d1\<rparr>)" "regs d1 = regs (io_dev s)"
    using adapter_run [OF ad bus] by blast
  define d2 where "d2 = snd (k_funcs K fd d1)"
  define d3 where "d3 = snd (k_slave K False fd (sa_address a) d2)"
  have d3: "regs d3 = regs (io_dev s)" and f: "k_funcs K fd d1 = (Inr funcs, d2)" and sl: "k_slave K False fd (sa_address a) d2 = (None, d3)"
    using ad o(2) unfolding d3_def d2_def adapter_def by (auto simp: prod_eq_iff)
  let ?v = "masked_value a (regs d3 ?r)"
  obtain d4 where m: "set_masked K ?fl fd a (s\<lparr>io_dev := d3\<rparr>) = (Inr ?v, s\<lparr>io_dev := d4\<rparr>)" "regs d4 = regs d3"
    using set_masked_run [OF chip sz da, of ?fl "s\<lparr>io_dev := d3\<rparr>"] by auto
  have v: "0 \<le> ?v" "?v < 2 ^ reg_bits (sa_size a)"
    using val masked_range [OF val, of "int (regs d3 ?r)"] regs_range [OF chip sz da] by (auto simp: masked_value_def)
  obtain d5 where st: "set_store K fd a ?v (s\<lparr>io_dev := d4\<rparr>) = (Inl (Exits 0), s\<lparr>io_dev := d5\<rparr>)" "regs d5 = (regs d4)(?r := nat ?v)"
    using set_store_run [OF ad chip sz da v, of "s\<lparr>io_dev := d4\<rparr>"] by auto
  have act: "set_action K ?fl a s = (Inl (Exits 0), s\<lparr>io_dev := d5\<rparr>)"
    using funcs by (simp add: set_action_def o f sl m st and_then_ok tool_simps set_slave_addr_def)
  have "i2cset_main K F ([45, 121] # args) s = (Inl (Exits 0), s\<lparr>io_dev := d5\<rparr>)"
    unfolding i2cset_main_def by (rule and_then_into, rule flags) (simp add: and_then_ok args(3) act)
  then show ?thesis using st(2) m(2) d3 by auto
qed

text \<open>A chip with 256 byte registers, as a kernel.\<close>

definition reg_smbus :: "int \<Rightarrow> smbus_args \<Rightarrow> (nat \<Rightarrow> u8) \<Rightarrow> (int \<times> u8 list) \<times> (nat \<Rightarrow> u8)" where
  "reg_smbus fd args m =
     (let buf = (case sm_data args of None \<Rightarrow> [] | Some b \<Rightarrow> b); c = unat (sm_command args) in
      if sm_read_write args = 1 then ((0, m c # tl buf), m) else ((0, buf), m(c := buf ! 0)))"

definition reg_kernel :: "(nat \<Rightarrow> u8) kernel" where
  "reg_kernel = \<lparr>k_open = (\<lambda>name flags d. (Inr 3, d)), k_close = (\<lambda>fd d. d), k_funcs = (\<lambda>fd d. (Inr 0x00780000, d)),
     k_slave = (\<lambda>force fd a d. (None, d)), k_pec = (\<lambda>fd v d. (True, d)), k_flush = (\<lambda>fd d. d), k_smbus = reg_smbus,
     k_rdwr = (\<lambda>fd msg d. ((- 1, msg_buf msg), d)), k_read = (\<lambda>fd n d. (Some [], d)), k_write = (\<lambda>fd bs d. (- 1, d)),
     k_junk = (\<lambda>d. replicate 34 0)\<rparr>"

definition byte_regs :: "(nat \<Rightarrow> u8) \<Rightarrow> nat \<Rightarrow> nat" where
  "byte_regs d n = unat (d n)"

lemma reg_chip: "register_chip reg_kernel fd 2 byte_regs" and reg_adapter: "adapter reg_kernel 3 0x00780000 byte_regs"
  by (auto simp: register_chip_def adapter_def reg_kernel_def reg_smbus_def answers_def smbus_def byte_regs_def fun_eq_iff)

definition no_files :: system_files where
  "no_files = \<lparr>sf_file = (\<lambda>_. None), sf_dir = (\<lambda>_. None)\<rparr>"

definition demo_set :: set_args where
  "demo_set = \<lparr>sa_bus = 0, sa_address = 72, sa_daddress = 3, sa_value = 9, sa_size = 2, sa_pec = False, sa_vmask = 15\<rparr>"

lemma set_parse_example:
  "set_parse reg_kernel no_files [[48], [55, 50], [51], [57], [98], [49, 53]] s = (Inr demo_set, s)"
  by (simp add: demo_set_def set_parse_def ranged_arg_def plain_arg_def set_mode_def int_arg_def strtol_def number_sign_def number_body_def
      blank_def digit_of_def char_at_def tool_simps to_int32_same I2C_SMBUS_BYTE_DATA_def I2C_SMBUS_WORD_DATA_def Let_def)

theorem i2cset_sets_register_witness:
  "\<exists>t. i2cset_main reg_kernel no_files ([45, 121] # [[48], [55, 50], [51], [57], [98], [49, 53]])
      \<lparr>io_dev = (\<lambda>_. 0xA5), io_in = [], io_out = []\<rparr> = (Inl (Exits 0), t)
    \<and> byte_regs (io_dev t) = (byte_regs (\<lambda>_. 0xA5))(3 := 0xA9)"
proof -
  have "\<exists>t. i2cset_main reg_kernel no_files ([45, 121] # [[48], [55, 50], [51], [57], [98], [49, 53]])
      \<lparr>io_dev = (\<lambda>_. 0xA5), io_in = [], io_out = []\<rparr> = (Inl (Exits 0), t)
    \<and> byte_regs (io_dev t) = (byte_regs (\<lambda>_. 0xA5))(nat (sa_daddress demo_set) := nat (masked_value demo_set (byte_regs (\<lambda>_. 0xA5) 3)))"
    using i2cset_sets_register [OF reg_adapter, where a = demo_set and F = no_files
        and args = "[[48], [55, 50], [51], [57], [98], [49, 53]]" and s = "\<lparr>io_dev = (\<lambda>_. 0xA5), io_in = [], io_out = []\<rparr>"]
      reg_chip [of 3] set_parse_example
    by (simp add: demo_set_def char_at_def I2C_FUNC_SMBUS_WRITE_BYTE_DATA_def I2C_FUNC_SMBUS_WRITE_WORD_DATA_def)
  then show ?thesis by (simp add: demo_set_def masked_value_def byte_regs_def)
qed

end
