(* ===== verification/I2c_Scan_Correct.thy ===== *)
theory I2c_Scan_Correct
  imports I2c_Tools_Correct
begin

text \<open>
  What \<open>i2cdetect\<close> does on the bus, and what \<open>i2cdump\<close> prints and leaves behind.
\<close>

section \<open>Invariants of the device\<close>

text \<open>A step that keeps a property of the devices, with the rules for the ways steps are put together.\<close>

definition keeps :: "('d \<Rightarrow> bool) \<Rightarrow> ('d, 'a) tool \<Rightarrow> bool" where
  "keeps I m \<longleftrightarrow> (\<forall>s. I (io_dev s) \<longrightarrow> I (io_dev (snd (m s))))"

named_theorems keeps_intro

lemma keeps_give [keeps_intro]: "keeps I (give x)"
  by (simp add: keeps_def give_def)

lemma keeps_put_out [keeps_intro]: "keeps I (put_out bs)"
  by (simp add: keeps_def put_out_def)

lemma keeps_on_dev [keeps_intro]: "(\<And>d. I d \<Longrightarrow> I (snd (f d))) \<Longrightarrow> keeps I (on_dev f)"
  by (simp add: keeps_def tool_simps)

lemma keeps_and_then [keeps_intro]: "keeps I m \<Longrightarrow> (\<And>x. keeps I (f x)) \<Longrightarrow> keeps I (and_then m f)"
  by (auto simp: keeps_def and_then_def split: prod.split sum.split)

lemma keeps_before [keeps_intro]: "keeps I m \<Longrightarrow> keeps I n \<Longrightarrow> keeps I (before m n)"
  by (simp add: before_def keeps_and_then)

lemma keeps_if [keeps_intro]: "(c \<Longrightarrow> keeps I m) \<Longrightarrow> (\<not> c \<Longrightarrow> keeps I n) \<Longrightarrow> keeps I (if c then m else n)"
  by simp

lemma keeps_option [keeps_intro]: "(opt = None \<Longrightarrow> keeps I m) \<Longrightarrow> (\<And>x. opt = Some x \<Longrightarrow> keeps I (f x)) \<Longrightarrow>
    keeps I (case opt of None \<Rightarrow> m | Some x \<Rightarrow> f x)"
  by (cases opt) simp_all

section \<open>\<open>i2cdetect\<close>\<close>

text \<open>The transactions of a probe: a quick write, or reading a byte.\<close>

definition probe_call :: "smbus_args \<Rightarrow> bool" where
  "probe_call args \<longleftrightarrow> sm_size args = 0 \<and> sm_read_write args = 0 \<or> sm_size args = 1 \<and> sm_read_write args = 1"

lemma keeps_probe:
  assumes "\<And>args d. probe_call args \<Longrightarrow> I d \<Longrightarrow> I (snd (k_smbus K fd args d))"
  shows "keeps I (probe K fd mode a)"
proof -
  have "keeps I (i2c_smbus_write_quick K fd I2C_SMBUS_WRITE)"
    by (auto simp: i2c_smbus_write_quick_def i2c_smbus_access_def I2C_SMBUS_WRITE_def I2C_SMBUS_QUICK_def probe_call_def
        intro!: keeps_intro assms)
  moreover have "keeps I (i2c_smbus_read_byte K fd)"
    by (auto simp: i2c_smbus_read_byte_def i2c_smbus_access_def junk_def I2C_SMBUS_READ_def I2C_SMBUS_BYTE_def probe_call_def
        intro!: keeps_intro assms)
  ultimately show ?thesis by (auto simp: probe_def split: detect_mode.split)
qed

lemma keeps_scan_row:
  assumes "\<And>a d. lo \<le> a \<Longrightarrow> a \<le> hi \<Longrightarrow> I d \<Longrightarrow> I (snd (k_slave K False fd a d))"
    and "\<And>args d. probe_call args \<Longrightarrow> I d \<Longrightarrow> I (snd (k_smbus K fd args d))"
  shows "keeps I (scan_row K fd mode lo hi as)"
proof (induction as)
  case (Cons a as)
  have "keeps I (scan_address K fd mode lo hi a)"
    unfolding scan_address_def
    by (intro keeps_intro keeps_probe assms) auto
  then show ?case using Cons by (auto intro!: keeps_intro)
qed (simp add: keeps_give)

lemma keeps_scan_rows:
  assumes "\<And>a d. lo \<le> a \<Longrightarrow> a \<le> hi \<Longrightarrow> I d \<Longrightarrow> I (snd (k_slave K False fd a d))"
    and "\<And>args d. probe_call args \<Longrightarrow> I d \<Longrightarrow> I (snd (k_smbus K fd args d))"
  shows "keeps I (scan_rows K fd mode lo hi is)"
  by (induction "is") (auto intro!: keeps_intro keeps_scan_row assms)

text \<open>A scan addresses only the chips of its range, and only with quick writes and byte reads: what
  these steps keep of the devices, the whole scan keeps.\<close>

theorem i2cdetect_stays_in_range:
  assumes "\<And>a d. lo \<le> a \<Longrightarrow> a \<le> hi \<Longrightarrow> I d \<Longrightarrow> I (snd (k_slave K False fd a d))"
    and "\<And>args d. probe_call args \<Longrightarrow> I d \<Longrightarrow> I (snd (k_smbus K fd args d))"
    and "I (io_dev s)"
  shows "I (io_dev (snd (scan_i2c_bus K fd mode lo hi s)))"
proof -
  have "keeps I (scan_i2c_bus K fd mode lo hi)"
    unfolding scan_i2c_bus_def by (intro keeps_intro keeps_scan_rows assms)
  with assms(3) show ?thesis by (simp add: keeps_def)
qed

text \<open>An adapter that records the addresses it is given.\<close>

definition log_kernel :: "int list kernel" where
  "log_kernel = \<lparr>k_open = (\<lambda>name flags d. (Inr 3, d)), k_close = (\<lambda>fd d. d), k_funcs = (\<lambda>fd d. (Inr 0x00030000, d)),
     k_slave = (\<lambda>force fd a d. (None, a # d)), k_pec = (\<lambda>fd v d. (True, d)), k_flush = (\<lambda>fd d. d),
     k_smbus = (\<lambda>fd args d. ((- 1, []), d)), k_rdwr = (\<lambda>fd msg d. ((- 1, msg_buf msg), d)),
     k_read = (\<lambda>fd n d. (Some [], d)), k_write = (\<lambda>fd bs d. (- 1, d)), k_junk = (\<lambda>d. replicate 34 0)\<rparr>"

theorem i2cdetect_stays_in_range_witness:
  "set (io_dev (snd (scan_i2c_bus log_kernel 3 MODE_AUTO 80 82 \<lparr>io_dev = [], io_in = [], io_out = []\<rparr>))) \<subseteq> {80..82}"
  using i2cdetect_stays_in_range [where K = log_kernel and fd = 3 and mode = MODE_AUTO and lo = 80 and hi = 82
      and s = "\<lparr>io_dev = [], io_in = [], io_out = []\<rparr>" and I = "\<lambda>d. set d \<subseteq> {80..82}"]
  by (simp add: log_kernel_def)

section \<open>\<open>i2cdump\<close>\<close>

text \<open>The table for registers that hold bytes.\<close>

definition row_text :: "(nat \<Rightarrow> nat) \<Rightarrow> nat \<Rightarrow> u8 list" where
  "row_text regs i = hex_padded 2 i @ bytes_of '': '' @ concat (map (\<lambda>j. show_cell (Some (of_nat (regs j)))) [i..<i + 16])
     @ bytes_of ''   '' @ map (\<lambda>j. show_char (Some (of_nat (regs j)))) [i..<i + 16] @ [10]"

definition dump_text :: "(nat \<Rightarrow> nat) \<Rightarrow> u8 list" where
  "dump_text regs = dump_head @ concat (map (row_text regs) (map (\<lambda>k. 16 * k) [0..<16]))"

lemma cell_read:
  assumes chip: "register_chip K fd 2 regs" and i: "i < 256"
  shows "\<exists>d. dump_cells K fd 2 block i s = (Inr [Some (of_nat (regs (io_dev s) i))], s\<lparr>io_dev := d\<rparr>) \<and> regs d = regs (io_dev s)"
proof -
  have c: "(word_of_int (int i) :: u8) = of_nat i" by simp
  from reg_read [OF chip, of "int i" s] i show ?thesis
    by (auto simp: dump_cells_def set_read_reg_def c I2C_SMBUS_BYTE_DATA_def I2C_SMBUS_WORD_DATA_def and_then_ok
        byte_cell_def tool_simps)
qed

lemma dump_row_run:
  assumes chip: "register_chip K fd 2 regs"
  shows "\<forall>i \<in> set is. i < 256 \<Longrightarrow>
    \<exists>d. dump_row K fd 2 sl block is s = (Inr (map (\<lambda>j. Some (of_nat (regs (io_dev s) j))) is),
        s\<lparr>io_dev := d, io_out := io_out s @ concat (map (\<lambda>j. show_cell (Some (of_nat (regs (io_dev s) j)))) is)\<rparr>)
      \<and> regs d = regs (io_dev s)"
proof (induction "is" arbitrary: s)
  case Nil
  then show ?case by (auto simp: tool_simps intro!: exI [of _ "io_dev s"])
next
  case (Cons i "is")
  let ?c = "Some (of_nat (regs (io_dev s) i)) :: u8 option"
  obtain d where c: "dump_cells K fd 2 block i s = (Inr [?c], s\<lparr>io_dev := d\<rparr>)" and d: "regs d = regs (io_dev s)"
    using cell_read [OF chip, of i block s] Cons.prems by auto
  let ?t = "s\<lparr>io_dev := d, io_out := io_out s @ show_cell ?c\<rparr>"
  obtain d' where "dump_row K fd 2 sl block is ?t = (Inr (map (\<lambda>j. Some (of_nat (regs (io_dev ?t) j))) is),
        ?t\<lparr>io_dev := d', io_out := io_out ?t @ concat (map (\<lambda>j. show_cell (Some (of_nat (regs (io_dev ?t) j)))) is)\<rparr>)"
    and "regs d' = regs (io_dev ?t)" using Cons.IH [of ?t] Cons.prems by auto
  then show ?case using d
    by (auto simp: c and_then_ok tool_simps in_block_def I2C_SMBUS_BLOCK_DATA_def)
qed

lemma dump_rows_run:
  assumes chip: "register_chip K fd 2 regs"
  shows "\<forall>i \<in> set is. i + 16 \<le> 256 \<Longrightarrow>
    \<exists>d. dump_rows K fd 2 sl block is s =
        (Inr (), s\<lparr>io_dev := d, io_out := io_out s @ concat (map (row_text (regs (io_dev s))) is)\<rparr>) \<and> regs d = regs (io_dev s)"
proof (induction "is" arbitrary: s)
  case Nil
  then show ?case by (auto simp: tool_simps intro!: exI [of _ "io_dev s"])
next
  case (Cons i "is")
  let ?s = "s\<lparr>io_out := io_out s @ hex_padded 2 i @ bytes_of '': ''\<rparr>"
  have "\<forall>j \<in> set [i..<i + 16]. j < 256" using Cons.prems by auto
  from dump_row_run [OF chip this, of sl block ?s] obtain d where
    r: "dump_row K fd 2 sl block [i..<i + 16] ?s = (Inr (map (\<lambda>j. Some (of_nat (regs (io_dev s) j))) [i..<i + 16]),
        ?s\<lparr>io_dev := d, io_out := io_out ?s @ concat (map (\<lambda>j. show_cell (Some (of_nat (regs (io_dev s) j)))) [i..<i + 16])\<rparr>)"
    and d: "regs d = regs (io_dev s)" by auto
  let ?t = "s\<lparr>io_dev := d, io_out := io_out s @ row_text (regs (io_dev s)) i\<rparr>"
  have step: "dump_rows K fd 2 sl block (i # is) s = dump_rows K fd 2 sl block is ?t"
    using r by (simp add: and_then_ok tool_simps in_block_def row_offsets_def row_chars_def row_text_def
        I2C_SMBUS_BLOCK_DATA_def I2C_SMBUS_WORD_DATA_def comp_def del: upt_Suc)
  obtain d' where "dump_rows K fd 2 sl block is ?t =
      (Inr (), ?t\<lparr>io_dev := d', io_out := io_out ?t @ concat (map (row_text (regs (io_dev ?t))) is)\<rparr>)" and "regs d' = regs (io_dev ?t)"
    using Cons.IH [of ?t] Cons.prems by auto
  then show ?case unfolding step using d by auto
qed

lemma dump_bank_gives:
  assumes "dump_bank K F sz args s = (Inr r, t)" and "sz = 2"
  shows "t = s \<and> 0 \<le> fst r \<and> fst r < 16 \<and> 0 \<le> snd r \<and> snd r < 256"
  using assms
  by (auto simp: dump_bank_def give_gives show_help_stops I2C_SMBUS_BYTE_DATA_def I2C_SMBUS_BLOCK_DATA_def split: option.splits if_splits)

lemma dump_mode_gives: "dump_mode K F args s = (Inr r, t) \<Longrightarrow> t = s"
  by (auto simp: dump_mode_def give_gives show_help_stops Let_def split: if_splits)

lemma dump_parse_gives:
  assumes "dump_parse K F args s = (Inr a, t)" and "du_size a = 2"
  shows "t = s \<and> 0 \<le> du_bus a \<and> du_bus a < 256 \<and> 0 \<le> du_bank a \<and> du_bank a < 16 \<and> 0 \<le> du_bankreg a \<and> du_bankreg a < 256"
  using assms
  by (auto simp: dump_parse_def and_then_gives give_gives show_help_stops
      dest!: ranged_arg_gives dump_mode_gives dump_bank_gives split: if_splits)

text \<open>The registers while they are printed: with a bank, the bank register selects it and keeps its upper
  half.\<close>

definition banked :: "dump_args \<Rightarrow> (nat \<Rightarrow> nat) \<Rightarrow> nat \<Rightarrow> nat" where
  "banked a regs = (if du_bank a = 0 then regs
     else regs(nat (du_bankreg a) := nat (du_bank a OR (int (regs (nat (du_bankreg a))) AND 0xf0))))"

lemma bank_range:
  fixes b old :: int
  assumes "0 \<le> b" "b < 16" "0 \<le> old" "old < 256"
  shows "0 \<le> b OR (old AND 0xf0)" "b OR (old AND 0xf0) < 256"
proof -
  have "take_bit 8 b = b" "take_bit 8 old = old" using assms by (simp_all add: take_bit_int_eq_self)
  then have "take_bit 8 (b OR (old AND 0xf0)) = b OR (old AND 0xf0)" by simp
  then show "b OR (old AND 0xf0) < 256" using take_bit_int_less_exp [of 8 "b OR (old AND 0xf0)"] by simp
  show "0 \<le> b OR (old AND 0xf0)" using assms by simp
qed

lemma dump_switch_run:
  assumes chip: "register_chip K fd 2 regs" and sz: "du_size a = 2"
    and b: "0 \<le> du_bank a" "du_bank a < 16" "0 \<le> du_bankreg a" "du_bankreg a < 256"
  shows "\<exists>d. dump_switch K fd a s = (Inr (if du_bank a = 0 then 0 else int (regs (io_dev s) (nat (du_bankreg a)))), s\<lparr>io_dev := d\<rparr>)
      \<and> regs d = banked a (regs (io_dev s))"
proof (cases "du_bank a = 0")
  case True
  then show ?thesis by (auto simp: dump_switch_def banked_def tool_simps intro!: exI [of _ "io_dev s"])
next
  case False
  let ?old = "int (regs (io_dev s) (nat (du_bankreg a)))"
  let ?v = "du_bank a OR (?old AND 0xf0)"
  obtain d where r: "i2c_smbus_read_byte_data K fd (word_of_int (du_bankreg a)) s = (Inr ?old, s\<lparr>io_dev := d\<rparr>)"
    and d: "regs d = regs (io_dev s)"
    using reg_read [OF chip, of "du_bankreg a" s] b by (auto simp: set_read_reg_def I2C_SMBUS_WORD_DATA_def)
  have v: "0 \<le> ?v" "?v < 2 ^ reg_bits 2"
    using bank_range [OF b(1,2), of ?old] regs_range [OF chip, of "du_bankreg a" "io_dev s"] b by (auto simp: reg_bits_def)
  obtain d' where w: "i2c_smbus_write_byte_data K fd (word_of_int (du_bankreg a)) (word_of_int ?v) (s\<lparr>io_dev := d\<rparr>) =
      (Inr 0, s\<lparr>io_dev := d'\<rparr>)" and d': "regs d' = (regs d)(nat (du_bankreg a) := nat ?v)"
    using reg_write [OF chip _ b(3,4) v, of "s\<lparr>io_dev := d\<rparr>"] by (auto simp: set_write_reg_def I2C_SMBUS_WORD_DATA_def)
  show ?thesis using False sz d d'
    by (auto simp: dump_switch_def banked_def and_then_ok r w tool_simps Let_def I2C_SMBUS_BLOCK_DATA_def)
qed

lemma dump_restore_run:
  assumes chip: "register_chip K fd 2 regs" and sz: "du_size a = 2"
    and b: "0 \<le> du_bankreg a" "du_bankreg a < 256" and old: "0 \<le> old" "old < 256"
  shows "\<exists>d. dump_restore K fd a old s = (Inr (), s\<lparr>io_dev := d\<rparr>)
      \<and> regs d = (if du_bank a = 0 then regs (io_dev s) else (regs (io_dev s))(nat (du_bankreg a) := nat old))"
proof (cases "du_bank a = 0")
  case True
  then show ?thesis by (auto simp: dump_restore_def tool_simps intro!: exI [of _ "io_dev s"])
next
  case False
  have v: "0 \<le> old" "old < 2 ^ reg_bits 2" using old by (simp_all add: reg_bits_def)
  from reg_write [OF chip _ b v, of s] False sz show ?thesis
    by (auto simp: dump_restore_def set_write_reg_def I2C_SMBUS_WORD_DATA_def I2C_SMBUS_BLOCK_DATA_def and_then_ok tool_simps)
qed

lemma dump_table_run:
  assumes chip: "register_chip K fd 2 regs" and sz: "du_size a = 2"
  shows "\<exists>d. dump_table K fd a s = (Inr (), s\<lparr>io_dev := d, io_out := io_out s @ dump_text (regs (io_dev s))\<rparr>)
      \<and> regs d = regs (io_dev s)"
proof -
  have "\<forall>i \<in> set (map (\<lambda>k. 16 * k) [0..<16]). i + 16 \<le> (256 :: nat)" by auto
  from dump_rows_run [OF chip this, of 0 "replicate 256 None" "s\<lparr>io_out := io_out s @ dump_head\<rparr>"] sz show ?thesis
    by (auto simp: dump_table_def dump_blocks_def dump_start_def dump_text_def and_then_ok tool_simps I2C_SMBUS_WORD_DATA_def
        I2C_SMBUS_BLOCK_DATA_def I2C_SMBUS_I2C_BLOCK_DATA_def I2C_SMBUS_BYTE_def simp del: upt_Suc)
qed

text \<open>C17. \<open>i2cdump -y\<close> in byte mode prints the 256 registers of a chip, in hexadecimal and as characters,
  and leaves them as they were: the bank register gets its old contents back.\<close>

theorem i2cdump_prints_registers:
  assumes ad: "adapter K fd funcs regs" and chip: "register_chip K fd 2 regs"
    and funcs: "funcs AND I2C_FUNC_SMBUS_READ_BYTE_DATA \<noteq> 0" and sz: "du_size a = 2"
    and args: "args \<noteq> []" "char_at (hd args) 0 \<noteq> 45" "dump_parse K F args s = (Inr a, s)"
  shows "\<exists>t. i2cdump_main K F ([45, 121] # args) s = (Inl (Exits 0), t) \<and> regs (io_dev t) = regs (io_dev s)
    \<and> io_out t = io_out s @ dump_text (banked a (regs (io_dev s)))"
proof -
  let ?fl = "\<lparr>fl_force = False, fl_yes = True, fl_version = False\<rparr>"
  have bus: "0 \<le> du_bus a" "du_bus a < 256" and b: "0 \<le> du_bank a" "du_bank a < 16" "0 \<le> du_bankreg a" "du_bankreg a < 256"
    using dump_parse_gives [OF args(3) sz] by auto
  have flags: "read_flags K F no_flags ([45, 121] # args) s = (Inr (?fl, args), s)"
    using args(1,2) by (cases args) (simp_all add: char_at_def tool_simps no_flags_def)
  obtain d1 name where o: "open_i2c_dev K (du_bus a) s = (Inr (Inr fd, name), s\<lparr>io_dev := d1\<rparr>)" "regs d1 = regs (io_dev s)"
    using adapter_run [OF ad bus] by blast
  define d2 where "d2 = snd (k_funcs K fd d1)"
  define d3 where "d3 = snd (k_slave K False fd (du_address a) d2)"
  have d3: "regs d3 = regs (io_dev s)" and f: "k_funcs K fd d1 = (Inr funcs, d2)" and sl: "k_slave K False fd (du_address a) d2 = (None, d3)"
    using ad o(2) unfolding d3_def d2_def adapter_def by (auto simp: prod_eq_iff)
  obtain d4 where pec: "(if du_pec a then on_dev (k_pec K fd 1) else give True) (s\<lparr>io_dev := d3\<rparr>) = (Inr True, s\<lparr>io_dev := d4\<rparr>)"
    and d4: "regs d4 = regs d3"
    using ad by (cases "du_pec a") (auto simp: adapter_def tool_simps)
  let ?old = "if du_bank a = 0 then 0 else int (regs d4 (nat (du_bankreg a)))"
  obtain d5 where sw: "dump_switch K fd a (s\<lparr>io_dev := d4\<rparr>) = (Inr ?old, s\<lparr>io_dev := d5\<rparr>)" and d5: "regs d5 = banked a (regs d4)"
    using dump_switch_run [OF chip sz b, of "s\<lparr>io_dev := d4\<rparr>"] by auto
  let ?out = "io_out s @ dump_text (regs d5)"
  obtain d6 where tab: "dump_table K fd a (s\<lparr>io_dev := d5\<rparr>) = (Inr (), s\<lparr>io_dev := d6, io_out := ?out\<rparr>)" and d6: "regs d6 = regs d5"
    using dump_table_run [OF chip sz, of "s\<lparr>io_dev := d5\<rparr>"] by auto
  let ?s6 = "s\<lparr>io_dev := d6, io_out := ?out\<rparr>"
  have old: "0 \<le> ?old" "?old < 256" using regs_range [OF chip _ b(3,4)] by (auto simp: reg_bits_def)
  obtain d7 where res: "dump_restore K fd a ?old (?s6) = (Inr (), ?s6\<lparr>io_dev := d7\<rparr>)"
    and d7: "regs d7 = (if du_bank a = 0 then regs d6 else (regs d6)(nat (du_bankreg a) := nat ?old))"
    using dump_restore_run [OF chip sz b(3,4) old, of "?s6"] by auto
  have sup: "dump_supported funcs (du_size a)" using funcs by (simp add: dump_supported_def sz I2C_SMBUS_BYTE_def I2C_SMBUS_BYTE_DATA_def)
  have act: "dump_action K ?fl a s = (Inl (Exits 0), ?s6\<lparr>io_dev := d7\<rparr>)"
  proof (cases "du_pec a")
    case True
    then have "k_pec K fd 1 d3 = (True, d4)" using pec by (auto simp: tool_simps prod_eq_iff)
    with True sw tab res show ?thesis by (simp add: dump_action_def o f sl sup and_then_ok tool_simps set_slave_addr_def)
  next
    case False
    then have "d4 = d3" using pec by (simp add: tool_simps)
    with False sw tab res show ?thesis by (simp add: dump_action_def o f sl sup and_then_ok tool_simps set_slave_addr_def)
  qed
  have "i2cdump_main K F ([45, 121] # args) s = (Inl (Exits 0), ?s6\<lparr>io_dev := d7\<rparr>)"
    unfolding i2cdump_main_def by (rule and_then_into, rule flags) (simp add: and_then_ok args(3) act)
  moreover have "regs d7 = regs (io_dev s)" using d7 d6 d5 d4 d3 by (auto simp: banked_def)
  ultimately show ?thesis using d5 d4 d3 by auto
qed

definition demo_dump :: dump_args where
  "demo_dump = \<lparr>du_bus = 0, du_address = 72, du_size = 2, du_pec = False, du_even = False, du_bank = 3, du_bankreg = 0x4E\<rparr>"

lemma dump_parse_example:
  "dump_parse reg_kernel no_files [[48], [55, 50], [98], [51]] s = (Inr demo_dump, s)"
  by (simp add: demo_dump_def dump_parse_def ranged_arg_def dump_mode_def dump_bank_def int_arg_def strtol_def number_sign_def
      number_body_def blank_def digit_of_def char_at_def tool_simps to_int32_same I2C_SMBUS_BYTE_DATA_def I2C_SMBUS_WORD_DATA_def
      I2C_SMBUS_BLOCK_DATA_def I2C_SMBUS_I2C_BLOCK_DATA_def Let_def)

theorem i2cdump_prints_registers_witness:
  "\<exists>t. i2cdump_main reg_kernel no_files ([45, 121] # [[48], [55, 50], [98], [51]])
      \<lparr>io_dev = (\<lambda>n. of_nat n), io_in = [], io_out = []\<rparr> = (Inl (Exits 0), t)
    \<and> byte_regs (io_dev t) = byte_regs (\<lambda>n. of_nat n)"
  using i2cdump_prints_registers [OF reg_adapter reg_chip, where a = demo_dump and F = no_files
        and args = "[[48], [55, 50], [98], [51]]" and s = "\<lparr>io_dev = (\<lambda>n. of_nat n), io_in = [], io_out = []\<rparr>"]
    dump_parse_example
  by (auto simp: demo_dump_def char_at_def I2C_FUNC_SMBUS_READ_BYTE_DATA_def)

end
