(* ===== verification/Eeprom_Pages.thy ===== *)
theory Eeprom_Pages
  imports I2c_Dev Getopt
begin

text \<open>
  \<open>eepromer/eeprom.c\<close>: the programmer that copies whole pages of 256 bytes between a file and the
  chips at consecutive addresses of a bus, eight bytes at a time, with raw I2C messages.
\<close>

definition MAX_BYTES :: nat where "MAX_BYTES = 8"
definition BYTES_PER_PAGE :: nat where "BYTES_PER_PAGE = 256"
definition DEFAULT_EEPROM_ADDR :: u32 where "DEFAULT_EEPROM_ADDR = 0x50"
definition DEFAULT_NUM_PAGES :: int where "DEFAULT_NUM_PAGES = 8"
definition DEFAULT_I2C_BUS :: "u8 list" where "DEFAULT_I2C_BUS = bytes_of ''/dev/i2c-0''"

section \<open>One transfer\<close>

text \<open>The offset in front of the bytes; without bytes only the read pointer of the chip moves.\<close>

definition eeprom_write :: "'d kernel \<Rightarrow> int \<Rightarrow> u32 \<Rightarrow> u32 \<Rightarrow> u8 list \<Rightarrow> u8 \<Rightarrow> ('d, int) tool" where
  "eeprom_write K fd addr offset buf len =
     (if of_nat MAX_BYTES < len then give (- 1)
      else if 256 < ucast len + offset then give (- 1)
      else and_then (on_dev (k_rdwr K fd \<lparr>msg_addr = ucast addr, msg_flags = 0, msg_buf = ucast offset # take (unat len) buf\<rparr>))
        (\<lambda>(r, _). give (if r < 0 then - 1 else 0)))"

text \<open>The result and the bytes read; what the buffer held before goes to the kernel, which overwrites it.\<close>

definition eeprom_read :: "'d kernel \<Rightarrow> int \<Rightarrow> u32 \<Rightarrow> u32 \<Rightarrow> u8 list \<Rightarrow> u8 \<Rightarrow> ('d, int \<times> u8 list) tool" where
  "eeprom_read K fd addr offset buf len =
     (if of_nat MAX_BYTES < len then give (- 1, buf)
      else and_then (eeprom_write K fd addr offset [] 0) (\<lambda>r.
        if r < 0 then give (- 1, buf)
        else and_then (on_dev (k_rdwr K fd \<lparr>msg_addr = ucast addr, msg_flags = I2C_M_RD, msg_buf = take (unat len) buf\<rparr>))
          (\<lambda>(r, bs). if r < 0 then give (- 1, buf) else give (0, bs))))"

section \<open>One page\<close>

text \<open>The loops over the chunks of a page: a chunk that fails ends the program.\<close>

fun write_chunks :: "'d kernel \<Rightarrow> int \<Rightarrow> u32 \<Rightarrow> u8 list \<Rightarrow> nat list \<Rightarrow> ('d, unit) tool" where
  "write_chunks K d addr buf [] = give ()"
| "write_chunks K d addr buf (j # js) =
     and_then (eeprom_write K d addr (of_nat (j * MAX_BYTES)) (drop (j * MAX_BYTES) buf) (of_nat MAX_BYTES)) (\<lambda>r.
     if r < 0 then stop_with (Exits 1) else write_chunks K d addr buf js)"

fun read_chunks :: "'d kernel \<Rightarrow> int \<Rightarrow> u32 \<Rightarrow> u8 list \<Rightarrow> nat list \<Rightarrow> ('d, u8 list) tool" where
  "read_chunks K d addr buf [] = give buf"
| "read_chunks K d addr buf (j # js) =
     and_then (eeprom_read K d addr (of_nat (j * MAX_BYTES)) (drop (j * MAX_BYTES) buf) (of_nat MAX_BYTES)) (\<lambda>(r, bs).
     if r < 0 then stop_with (Exits 1) else read_chunks K d addr (put_bytes buf (j * MAX_BYTES) bs) js)"

text \<open>What is written to a page: the next bytes of the data file padded with zeros, or zeros.\<close>

definition page_data :: "'d kernel \<Rightarrow> int option \<Rightarrow> ('d, u8 list) tool" where
  "page_data K f = (case f of
     None \<Rightarrow> give (replicate BYTES_PER_PAGE 0)
   | Some fd \<Rightarrow> and_then (on_dev (k_read K fd BYTES_PER_PAGE)) (\<lambda>r. case r of
       None \<Rightarrow> stop_with (Exits 1)
     | Some bs \<Rightarrow> give (bs @ replicate (BYTES_PER_PAGE - length bs) 0)))"

definition page_step :: "'d kernel \<Rightarrow> int \<Rightarrow> int option \<Rightarrow> bool \<Rightarrow> u8 list \<Rightarrow> u32 \<Rightarrow> ('d, unit) tool" where
  "page_step K d f rwmode stack addr =
     (if rwmode
      then and_then (page_data K f) (\<lambda>buf. write_chunks K d addr buf [0..<BYTES_PER_PAGE div MAX_BYTES])
      else and_then (read_chunks K d addr stack [0..<BYTES_PER_PAGE div MAX_BYTES]) (\<lambda>buf.
        case f of None \<Rightarrow> give ()
        | Some fd \<Rightarrow> and_then (on_dev (k_write K fd buf)) (\<lambda>j.
            if j \<noteq> int BYTES_PER_PAGE then stop_with (Exits 1) else give ())))"

fun page_loop :: "'d kernel \<Rightarrow> int \<Rightarrow> int option \<Rightarrow> bool \<Rightarrow> u8 list \<Rightarrow> u32 \<Rightarrow> nat \<Rightarrow> ('d, unit) tool" where
  "page_loop K d f rwmode stack addr 0 = give ()"
| "page_loop K d f rwmode stack addr (Suc n) =
     before (page_step K d f rwmode stack addr) (page_loop K d f rwmode stack (addr + 1) n)"

section \<open>The command line\<close>

record pages_opts =
  po_dn :: "u8 list"
  po_fn :: "u8 list option"
  po_addr :: u32
  po_pages :: int
  po_write :: bool
  po_force :: bool

text \<open>The digits of \<open>%x\<close> and \<open>%d\<close> of \<open>sscanf\<close>: white space, a sign, for \<open>%x\<close> a prefix, and at least one
  digit.\<close>

definition scan_digits :: "nat \<Rightarrow> u8 list \<Rightarrow> int option" where
  "scan_digits base cs =
     (case number_sign cs of (neg, cs) \<Rightarrow>
      let cs = (if base = 16 \<and> length cs > 1 \<and> cs ! 0 = 48 \<and> (cs ! 1 = 120 \<or> cs ! 1 = 88) then drop 2 cs else cs);
          ds = takeWhile (\<lambda>c. digit_of c < base) cs;
          v = int (foldl (\<lambda>v c. base * v + digit_of c) 0 ds)
      in if ds = [] then None else Some (if neg then - v else v))"

definition scan_hex_addr :: "u8 list \<Rightarrow> u32 option" where
  "scan_hex_addr arg =
     (if take 2 arg = bytes_of ''0x'' then map_option word_of_int (scan_digits 16 (drop 2 arg)) else None)"

definition scan_pages :: "u8 list \<Rightarrow> int option" where
  "scan_pages arg = map_option (\<lambda>v. to_int32 (max (- (2 ^ 63)) (min (2 ^ 63 - 1) v))) (scan_digits 10 arg)"

text \<open>One option; \<open>None\<close> is an exit with status 1.  An unknown option is ignored.\<close>

definition pages_opt :: "opt_event \<Rightarrow> pages_opts \<Rightarrow> pages_opts option" where
  "pages_opt ev opts = (case ev of Opt_Bad \<Rightarrow> Some opts | Opt c arg \<Rightarrow>
     (if c = 104 then None
      else if c = 100 then Some (opts\<lparr>po_dn := arg\<rparr>)
      else if c = 97 then map_option (\<lambda>a. opts\<lparr>po_addr := a\<rparr>) (scan_hex_addr arg)
      else if c = 112 then map_option (\<lambda>n. opts\<lparr>po_pages := n\<rparr>) (scan_pages arg)
      else if c = 119 then Some (opts\<lparr>po_write := True\<rparr>)
      else if c = 102 then Some (opts\<lparr>po_fn := Some arg\<rparr>)
      else if c = 121 then Some (opts\<lparr>po_force := True\<rparr>)
      else Some opts))"

fun pages_opts_all :: "opt_event list \<Rightarrow> pages_opts \<Rightarrow> pages_opts option" where
  "pages_opts_all [] opts = Some opts"
| "pages_opts_all (ev # evs) opts = (case pages_opt ev opts of None \<Rightarrow> None | Some opts \<Rightarrow> pages_opts_all evs opts)"

text \<open>The question before writing: \<open>fgets\<close> with four bytes takes at most three characters of a line.\<close>

definition confirm_write :: "('d, unit) tool" where
  "confirm_write s =
     (let line = takeWhile (\<lambda>c. c \<noteq> 10) (io_in s);
          warnbuf = take 3 (if length line < length (io_in s) then line @ [10] else line);
          s' = s\<lparr>io_in := drop (length warnbuf) (io_in s)\<rparr>
      in if warnbuf = bytes_of ''yes'' then (Inr (), s') else (Inl (Exits 1), s'))"

definition open_data :: "'d kernel \<Rightarrow> pages_opts \<Rightarrow> ('d, int option) tool" where
  "open_data K opts = (case po_fn opts of
     None \<Rightarrow> give None
   | Some fn \<Rightarrow> and_then (on_dev (k_open K fn (if po_write opts then O_RDONLY else O_WRONLY_CREAT))) (\<lambda>r. case r of
       Inl _ \<Rightarrow> stop_with (Exits 1) | Inr f \<Rightarrow> give (Some f)))"

definition eeprom_main :: "'d kernel \<Rightarrow> u8 list \<Rightarrow> u8 list list \<Rightarrow> ('d, unit) tool" where
  "eeprom_main K stack args =
     (case pages_opts_all (fst (getopt (bytes_of ''dapf'') (bytes_of ''wyh'') args))
        \<lparr>po_dn = DEFAULT_I2C_BUS, po_fn = None, po_addr = DEFAULT_EEPROM_ADDR, po_pages = DEFAULT_NUM_PAGES,
         po_write = False, po_force = False\<rparr> of
        None \<Rightarrow> stop_with (Exits 1)
      | Some opts \<Rightarrow>
          and_then (open_data K opts) (\<lambda>f.
          and_then (on_dev (k_open K (po_dn opts) O_RDWR)) (\<lambda>r. case r of
            Inl _ \<Rightarrow> stop_with (Exits 1)
          | Inr d \<Rightarrow>
              before (if po_write opts \<and> \<not> po_force opts then confirm_write else give ())
              (before (page_loop K d f (po_write opts) stack (po_addr opts) (nat (po_pages opts)))
              (before (case f of None \<Rightarrow> give () | Some fd \<Rightarrow> on_dev (\<lambda>s. ((), k_close K fd s)))
              (before (on_dev (\<lambda>s. ((), k_close K d s))) (stop_with (Exits 0))))))))"

end
