(* ===== verification/Eeprom_Pages_Correct.thy ===== *)
theory Eeprom_Pages_Correct
  imports Eeprom_Pages
begin

text \<open>
  A page written by \<open>eepromer/eeprom.c\<close> is read back: the protocol of the chip for raw messages, and the
  loops over the chunks of a page.
\<close>

text \<open>Each address of the bus holds a page of 256 bytes.  A message with an offset alone moves the read pointer,
  and a read gives the bytes behind it.  A message with an offset and bytes stores them, but of a message the
  smallest of the chips take eight bytes only, inside one row of eight: what they make of any other is left open.\<close>

definition one_row :: "nat \<Rightarrow> nat \<Rightarrow> bool" where
  "one_row off n \<longleftrightarrow> off mod 8 + n \<le> 8"

definition stored :: "(int \<times> u8 list) \<times> 'd \<Rightarrow> (u16 \<Rightarrow> u8 list) \<Rightarrow> (u16 \<times> nat) option \<Rightarrow> ('d \<Rightarrow> u16 \<Rightarrow> u8 list) \<Rightarrow>
    ('d \<Rightarrow> u16 \<Rightarrow> nat) \<Rightarrow> bool" where
  "stored res pages pos cells ptr \<longleftrightarrow>
     0 \<le> fst (fst res) \<and> cells (snd res) = pages \<and> (case pos of None \<Rightarrow> True | Some (a, off) \<Rightarrow> ptr (snd res) a = off)"

definition fetched :: "(int \<times> u8 list) \<times> 'd \<Rightarrow> u8 list \<Rightarrow> (u16 \<Rightarrow> u8 list) \<Rightarrow> ('d \<Rightarrow> u16 \<Rightarrow> u8 list) \<Rightarrow> bool" where
  "fetched res bs pages cells \<longleftrightarrow> 0 \<le> fst (fst res) \<and> snd (fst res) = bs \<and> cells (snd res) = pages"

definition page_chip :: "'d kernel \<Rightarrow> int \<Rightarrow> ('d \<Rightarrow> u16 \<Rightarrow> u8 list) \<Rightarrow> ('d \<Rightarrow> u16 \<Rightarrow> nat) \<Rightarrow> bool" where
  "page_chip K fd cells ptr \<longleftrightarrow>
     (\<forall>d a. length (cells d a) = 256) \<and>
     (\<forall>d a off bs. one_row (unat off) (length bs) \<longrightarrow> stored (k_rdwr K fd \<lparr>msg_addr = a, msg_flags = 0, msg_buf = off # bs\<rparr> d)
        ((cells d)(a := put_bytes (cells d a) (unat off) bs)) (if bs = [] then Some (a, unat off) else None) cells ptr) \<and>
     (\<forall>d a buf. ptr d a + length buf \<le> 256 \<longrightarrow> fetched (k_rdwr K fd \<lparr>msg_addr = a, msg_flags = 1, msg_buf = buf\<rparr> d)
        (get_bytes (cells d a) (ptr d a) (length buf)) (cells d) cells)"

lemma put_none [simp]: "put_bytes b off [] = b"
  by (simp add: put_bytes_def)

lemma small_offset:
  assumes "m < 256"
  shows "unat (of_nat m :: u8) = m" and "(ucast (of_nat m :: u32) :: u8) = of_nat m"
    and "m \<le> 248 \<Longrightarrow> \<not> 256 < (8 :: u32) + of_nat m" and "\<not> 256 < (of_nat m :: u32)"
proof -
  show "unat (of_nat m :: u8) = m" using assms by (simp add: unat_of_nat)
  have u: "unat (of_nat m :: u32) = m" using assms by (simp add: unat_of_nat)
  then show "\<not> 256 < (of_nat m :: u32)" and "m \<le> 248 \<Longrightarrow> \<not> 256 < (8 :: u32) + of_nat m"
    using assms by (simp_all add: word_less_nat_alt unat_word_ariths)
  show "(ucast (of_nat m :: u32) :: u8) = of_nat m" using assms by (simp add: unsigned_of_nat take_bit_nat_eq_self)
qed

lemma message_written:
  assumes "page_chip K fd cells ptr" and "one_row (unat off) (length bs)"
    and "k_rdwr K fd \<lparr>msg_addr = a, msg_flags = 0, msg_buf = off # bs\<rparr> d = ((r, out), d')"
  shows "0 \<le> r \<and> cells d' = (cells d)(a := put_bytes (cells d a) (unat off) bs) \<and> (bs = [] \<longrightarrow> ptr d' a = unat off)"
proof -
  have "stored (k_rdwr K fd \<lparr>msg_addr = a, msg_flags = 0, msg_buf = off # bs\<rparr> d)
      ((cells d)(a := put_bytes (cells d a) (unat off) bs)) (if bs = [] then Some (a, unat off) else None) cells ptr"
    using assms(1,2) by (simp only: page_chip_def)
  then show ?thesis unfolding assms(3) by (auto simp: stored_def)
qed

lemma message_read:
  assumes "page_chip K fd cells ptr" and "ptr d a + length buf \<le> 256"
    and "k_rdwr K fd \<lparr>msg_addr = a, msg_flags = 1, msg_buf = buf\<rparr> d = ((r, out), d')"
  shows "0 \<le> r \<and> out = get_bytes (cells d a) (ptr d a) (length buf) \<and> cells d' = cells d"
proof -
  have "fetched (k_rdwr K fd \<lparr>msg_addr = a, msg_flags = 1, msg_buf = buf\<rparr> d)
      (get_bytes (cells d a) (ptr d a) (length buf)) (cells d) cells"
    using assms(1,2) by (simp only: page_chip_def)
  then show ?thesis unfolding assms(3) by (auto simp: fetched_def)
qed

lemma chunk_written:
  assumes chip: "page_chip K fd cells ptr" and m: "m \<le> 248" "m mod 8 = 0" and buf: "m + 8 \<le> length buf"
  shows "\<exists>d. eeprom_write K fd addr (of_nat m) (drop m buf) (of_nat MAX_BYTES) s = (Inr 0, s\<lparr>io_dev := d\<rparr>)
    \<and> cells d = (cells (io_dev s))(ucast addr := put_bytes (cells (io_dev s) (ucast addr)) m (get_bytes buf m 8))"
proof -
  have m': "m < 256" using m(1) by simp
  note off = small_offset [OF m']
  obtain r out d where k: "k_rdwr K fd \<lparr>msg_addr = ucast addr, msg_flags = 0, msg_buf = of_nat m # take 8 (drop m buf)\<rparr> (io_dev s) = ((r, out), d)"
    by (metis prod.collapse)
  have "one_row (unat (of_nat m :: u8)) (length (take 8 (drop m buf)))" using m(2) buf off(1) by (simp add: one_row_def)
  from message_written [OF chip this k]
  have "0 \<le> r" and "cells d = (cells (io_dev s))(ucast addr := put_bytes (cells (io_dev s) (ucast addr)) m (take 8 (drop m buf)))"
    unfolding off(1) by auto
  with k off(3) [OF m(1)] show ?thesis
    by (simp add: eeprom_write_def MAX_BYTES_def tool_simps off(2) get_bytes_def)
qed

lemma pointer_set:
  assumes chip: "page_chip K fd cells ptr" and m: "m < 256"
  shows "\<exists>d. eeprom_write K fd addr (of_nat m) [] 0 s = (Inr 0, s\<lparr>io_dev := d\<rparr>)
    \<and> cells d = cells (io_dev s) \<and> ptr d (ucast addr) = m"
proof -
  note off = small_offset [OF m]
  obtain r out d where k: "k_rdwr K fd \<lparr>msg_addr = ucast addr, msg_flags = 0, msg_buf = [of_nat m]\<rparr> (io_dev s) = ((r, out), d)"
    by (metis prod.collapse)
  have "one_row (unat (of_nat m :: u8)) (length ([] :: u8 list))" by (simp add: one_row_def)
  from message_written [OF chip this k] have "0 \<le> r" "ptr d (ucast addr) = m" "cells d = cells (io_dev s)"
    unfolding off(1) by simp_all
  with k off(4) show ?thesis by (simp add: eeprom_write_def MAX_BYTES_def tool_simps off(2))
qed

lemma chunk_read:
  assumes chip: "page_chip K fd cells ptr" and m: "m \<le> 248" and buf: "m + 8 \<le> length buf"
  shows "\<exists>d. eeprom_read K fd addr (of_nat m) (drop m buf) (of_nat MAX_BYTES) s =
      (Inr (0, get_bytes (cells (io_dev s) (ucast addr)) m 8), s\<lparr>io_dev := d\<rparr>) \<and> cells d = cells (io_dev s)"
proof -
  have m': "m < 256" using m by simp
  obtain d where p: "eeprom_write K fd addr (of_nat m) [] 0 s = (Inr 0, s\<lparr>io_dev := d\<rparr>)"
    and d: "cells d = cells (io_dev s)" "ptr d (ucast addr) = m"
    using pointer_set [OF chip m'] by blast
  obtain r out d' where k: "k_rdwr K fd \<lparr>msg_addr = ucast addr, msg_flags = 1, msg_buf = take 8 (drop m buf)\<rparr> d = ((r, out), d')"
    by (metis prod.collapse)
  have len: "length (take 8 (drop m buf)) = 8" using buf by simp
  have "ptr d (ucast addr) + length (take 8 (drop m buf)) \<le> 256" using m d(2) len by simp
  from message_read [OF chip this k] have "0 \<le> r" "cells d' = cells d" "out = get_bytes (cells d (ucast addr)) m 8"
    using d(2) len by simp_all
  with k p d show ?thesis by (simp add: eeprom_read_def MAX_BYTES_def and_then_ok tool_simps I2C_M_RD_def)
qed

text \<open>The first chunks of a page.\<close>

definition merged :: "u8 list \<Rightarrow> u8 list \<Rightarrow> nat \<Rightarrow> u8 list" where
  "merged new old n = take (8 * n) new @ drop (8 * n) old"

lemma merged_step:
  assumes "length new = 256" "length old = 256" "n < 32"
  shows "put_bytes (merged new old n) (n * 8) (get_bytes new (n * 8) 8) = merged new old (Suc n)"
proof -
  have "take (8 * Suc n) new = take (8 * n) new @ take 8 (drop (8 * n) new)"
    by (metis add.commute mult_Suc_right take_add)
  with assms show ?thesis
    by (simp add: merged_def put_bytes_def get_bytes_def mult.commute min_def add.commute)
qed

lemma write_chunks_run:
  assumes chip: "page_chip K fd cells ptr" and buf: "length buf = 256"
  shows "n + k = 32 \<Longrightarrow> cells (io_dev s) (ucast addr) = merged buf old n \<Longrightarrow> length old = 256 \<Longrightarrow>
    \<exists>d. write_chunks K fd addr buf [n..<32] s = (Inr (), s\<lparr>io_dev := d\<rparr>)
      \<and> cells d = (cells (io_dev s))(ucast addr := buf)"
proof (induction k arbitrary: n s)
  case 0
  then show ?case using buf by (auto simp: tool_simps merged_def intro!: exI [of _ "io_dev s"])
next
  case (Suc k)
  then have n: "n < 32" "n * 8 \<le> 248" "n * 8 + 8 \<le> length buf" "n * 8 mod 8 = 0" using buf by auto
  obtain d where w: "eeprom_write K fd addr (of_nat (n * 8)) (drop (n * 8) buf) (of_nat MAX_BYTES) s = (Inr 0, s\<lparr>io_dev := d\<rparr>)"
    and d: "cells d = (cells (io_dev s))(ucast addr := put_bytes (cells (io_dev s) (ucast addr)) (n * 8) (get_bytes buf (n * 8) 8))"
    using chunk_written [OF chip n(2,4,3)] by blast
  have at: "cells (io_dev (s\<lparr>io_dev := d\<rparr>)) (ucast addr) = merged buf old (Suc n)"
    using d Suc.prems(2) merged_step [OF buf Suc.prems(3) n(1)] by simp
  have "Suc n + k = 32" using Suc.prems(1) by simp
  from Suc.IH [OF this at Suc.prems(3)]
  obtain d' where l: "write_chunks K fd addr buf [Suc n..<32] (s\<lparr>io_dev := d\<rparr>) = (Inr (), s\<lparr>io_dev := d'\<rparr>)"
    and "cells d' = (cells d)(ucast addr := buf)" by (auto simp del: fun_upd_apply)
  then have "cells d' = (cells (io_dev s))(ucast addr := buf)" unfolding d by simp
  moreover have "write_chunks K fd addr buf [n..<32] s = (Inr (), s\<lparr>io_dev := d'\<rparr>)"
    using w l n(1) by (simp add: upt_conv_Cons and_then_ok MAX_BYTES_def del: of_nat_mult)
  ultimately show ?case by blast
qed

lemma read_chunks_run:
  assumes chip: "page_chip K fd cells ptr"
  shows "n + k = 32 \<Longrightarrow> length buf = 256 \<Longrightarrow> buf = merged (cells (io_dev s) (ucast addr)) stack n \<Longrightarrow> length stack = 256 \<Longrightarrow>
    \<exists>d. read_chunks K fd addr buf [n..<32] s = (Inr (cells (io_dev s) (ucast addr)), s\<lparr>io_dev := d\<rparr>)
      \<and> cells d = cells (io_dev s)"
proof (induction k arbitrary: n s buf)
  case 0
  moreover have "length (cells (io_dev s) (ucast addr)) = 256" using chip by (simp add: page_chip_def)
  ultimately show ?case by (auto simp: tool_simps merged_def intro!: exI [of _ "io_dev s"])
next
  case (Suc k)
  let ?page = "cells (io_dev s) (ucast addr)"
  have page: "length ?page = 256" using chip by (simp add: page_chip_def)
  have n: "n < 32" "n * 8 \<le> 248" "n * 8 + 8 \<le> length buf" using Suc.prems by auto
  obtain d where r: "eeprom_read K fd addr (of_nat (n * 8)) (drop (n * 8) buf) (of_nat MAX_BYTES) s = (Inr (0, get_bytes ?page (n * 8) 8), s\<lparr>io_dev := d\<rparr>)"
    and d: "cells d = cells (io_dev s)"
    using chunk_read [OF chip n(2,3)] by blast
  let ?buf = "put_bytes buf (n * 8) (get_bytes ?page (n * 8) 8)"
  have m: "?buf = merged ?page stack (Suc n)"
    unfolding Suc.prems(3) by (rule merged_step [OF page Suc.prems(4) n(1)])
  then have "length ?buf = 256" using page Suc.prems(4) n(1) by (simp add: merged_def)
  with m obtain d' where l: "read_chunks K fd addr ?buf [Suc n..<32] (s\<lparr>io_dev := d\<rparr>) = (Inr ?page, s\<lparr>io_dev := d'\<rparr>)"
    and "cells d' = cells d"
    using Suc.IH [of "Suc n" ?buf "s\<lparr>io_dev := d\<rparr>"] Suc.prems d by auto
  then have "cells d' = cells (io_dev s)" using d by simp
  moreover have "read_chunks K fd addr buf [n..<32] s = (Inr ?page, s\<lparr>io_dev := d'\<rparr>)"
    using r l n(1) by (simp add: upt_conv_Cons and_then_ok MAX_BYTES_def del: of_nat_mult)
  ultimately show ?case by blast
qed

text \<open>C30. On chips that take eight bytes at a time, inside a row, a page written in chunks, each behind its
  offset, is the page that reading in chunks
  gives back; the pages at the other addresses do not change.\<close>

theorem eeprom_page_round_trip:
  assumes chip: "page_chip K fd cells ptr" and "length buf = 256" and "length stack = 256"
  shows "\<exists>t u. write_chunks K fd addr buf [0..<BYTES_PER_PAGE div MAX_BYTES] s = (Inr (), t)
    \<and> cells (io_dev t) = (cells (io_dev s))(ucast addr := buf)
    \<and> read_chunks K fd addr stack [0..<BYTES_PER_PAGE div MAX_BYTES] t = (Inr buf, u) \<and> cells (io_dev u) = cells (io_dev t)"
proof -
  have n: "BYTES_PER_PAGE div MAX_BYTES = 32" by (simp add: BYTES_PER_PAGE_def MAX_BYTES_def)
  have "length (cells (io_dev s) (ucast addr)) = 256" using chip by (simp add: page_chip_def)
  then obtain d where w: "write_chunks K fd addr buf [0..<32] s = (Inr (), s\<lparr>io_dev := d\<rparr>)"
    and d: "cells d = (cells (io_dev s))(ucast addr := buf)"
    using write_chunks_run [OF chip assms(2), of 0 32 s addr "cells (io_dev s) (ucast addr)"] by (auto simp: merged_def)
  obtain d' where "read_chunks K fd addr stack [0..<32] (s\<lparr>io_dev := d\<rparr>) = (Inr buf, s\<lparr>io_dev := d'\<rparr>)" and "cells d' = cells d"
    using read_chunks_run [OF chip, of 0 32 stack "s\<lparr>io_dev := d\<rparr>" addr stack] assms(3) d by (auto simp: merged_def)
  with w d show ?thesis unfolding n by auto
qed

text \<open>A bus of such pages, as a kernel.\<close>

type_synonym page_bus = "(u16 \<Rightarrow> u8 list) \<times> (u16 \<Rightarrow> nat)"

definition pages_of :: "page_bus \<Rightarrow> u16 \<Rightarrow> u8 list" where
  "pages_of d a = take 256 (fst d a @ replicate 256 0)"

text \<open>Bytes behind the end of their row are stored at its beginning, as a 24C02 does.\<close>

fun row_put :: "u8 list \<Rightarrow> nat \<Rightarrow> nat \<Rightarrow> u8 list \<Rightarrow> u8 list" where
  "row_put page off i [] = page"
| "row_put page off i (b # bs) = row_put (page[off - off mod 8 + (off + i) mod 8 := b]) off (Suc i) bs"

definition page_rdwr :: "int \<Rightarrow> i2c_msg \<Rightarrow> page_bus \<Rightarrow> (int \<times> u8 list) \<times> page_bus" where
  "page_rdwr fd msg d = (let a = msg_addr msg; buf = msg_buf msg in
     if msg_flags msg = 1 then ((1, get_bytes (pages_of d a) (snd d a) (length buf)), d)
     else let off = unat (hd buf) in
       ((1, buf), ((fst d)(a := row_put (pages_of d a) off 0 (tl buf)), (snd d)(a := off))))"

definition page_kernel :: "page_bus kernel" where
  "page_kernel = \<lparr>k_open = (\<lambda>name flags d. (Inr 3, d)), k_close = (\<lambda>fd d. d), k_funcs = (\<lambda>fd d. (Inr 1, d)),
     k_slave = (\<lambda>force fd a d. (None, d)), k_pec = (\<lambda>fd v d. (True, d)), k_flush = (\<lambda>fd d. d),
     k_smbus = (\<lambda>fd args d. ((- 1, []), d)), k_rdwr = page_rdwr, k_read = (\<lambda>fd n d. (Some [], d)),
     k_write = (\<lambda>fd bs d. (- 1, d)), k_junk = (\<lambda>d. replicate 34 0)\<rparr>"

lemma length_page [simp]: "length (pages_of d a) = 256"
  by (simp add: pages_of_def)

lemma length_row_put [simp]: "length (row_put page off i bs) = length page"
  by (induction page off i bs rule: row_put.induct) simp_all

lemma row_index:
  assumes "off mod 8 + i < 8"
  shows "off - off mod 8 + (off + i) mod 8 = off + (i :: nat)"
proof -
  have "(off + i) mod 8 = off mod 8 + i" using assms by (metis mod_add_left_eq mod_less)
  then show ?thesis using mod_less_eq_dividend [of off 8] by linarith
qed

lemma row_put_row:
  "one_row off (i + length bs) \<Longrightarrow> off + i + length bs \<le> length page \<Longrightarrow> row_put page off i bs = put_bytes page (off + i) bs"
proof (induction page off i bs rule: row_put.induct)
  case (2 page off i b bs)
  then have "off mod 8 + i < 8" "off + i < length page" by (simp_all add: one_row_def)
  then have "row_put page off i (b # bs) = put_bytes (page[off + i := b]) (off + Suc i) bs" using 2 row_index [of off i] by simp
  also have "\<dots> = put_bytes page (off + i) (b # bs)" using \<open>off + i < length page\<close>
    by (simp add: put_bytes_def upd_conv_take_nth_drop ac_simps)
  finally show ?case .
qed (simp add: put_bytes_def)

lemma row_room: "one_row off n \<Longrightarrow> off < 256 \<Longrightarrow> off + n \<le> (256 :: nat)"
  unfolding one_row_def by presburger

lemma pages_of_put: "pages_of ((fst d)(a := row_put (pages_of d a) off 0 bs), p) = (pages_of d)(a := row_put (pages_of d a) off 0 bs)"
  by (auto simp: fun_eq_iff pages_of_def [of "((fst d)(a := x), p)" for x] pages_of_def [of d])

lemma page_kernel_chip: "page_chip page_kernel fd pages_of snd"
  unfolding page_chip_def
proof (intro conjI allI impI)
  fix d :: page_bus and a and off :: u8 and bs :: "u8 list"
  assume row: "one_row (unat off) (length bs)"
  have "unat off < 256" by (rule order.strict_trans2 [OF unsigned_less]) simp
  then have put: "row_put (pages_of d a) (unat off) 0 bs = put_bytes (pages_of d a) (unat off) bs"
    using row_put_row [of "unat off" 0 bs "pages_of d a"] row row_room [OF row] by simp
  have run: "k_rdwr page_kernel fd \<lparr>msg_addr = a, msg_flags = 0, msg_buf = off # bs\<rparr> d =
      ((1, off # bs), ((fst d)(a := row_put (pages_of d a) (unat off) 0 bs), (snd d)(a := unat off)))"
    by (simp add: page_kernel_def page_rdwr_def Let_def)
  show "stored (k_rdwr page_kernel fd \<lparr>msg_addr = a, msg_flags = 0, msg_buf = off # bs\<rparr> d)
      ((pages_of d)(a := put_bytes (pages_of d a) (unat off) bs)) (if bs = [] then Some (a, unat off) else None) pages_of snd"
    unfolding run stored_def using pages_of_put [of d a "unat off" bs "(snd d)(a := unat off)"] unfolding put by auto
qed (simp_all add: page_kernel_def page_rdwr_def fetched_def Let_def)

theorem eeprom_page_round_trip_witness:
  "\<exists>t u. write_chunks page_kernel 3 80 (replicate 256 7) [0..<BYTES_PER_PAGE div MAX_BYTES]
      \<lparr>io_dev = (\<lambda>_. [], \<lambda>_. 0), io_in = [], io_out = []\<rparr> = (Inr (), t)
    \<and> read_chunks page_kernel 3 80 (replicate 256 0) [0..<BYTES_PER_PAGE div MAX_BYTES] t = (Inr (replicate 256 7), u)"
  using eeprom_page_round_trip [OF page_kernel_chip, of "replicate 256 7" "replicate 256 0" 3 80
      "\<lparr>io_dev = (\<lambda>_. [], \<lambda>_. 0), io_in = [], io_out = []\<rparr>"]
  by auto

end
