(* ===== verification/Directory_Correct.thy ===== *)
theory Directory_Correct
  imports Contents Geometry_Correct
begin

text \<open>
  The data of a directory: what \<open>fill_directory\<close> writes, read back by the rules of the file system --
  a chain of records of multiples of four bytes, none of them across a block boundary.
\<close>

section \<open>Records\<close>

text \<open>A record: inode number, length, name and type.\<close>

datatype dirent = Dirent (de_inode: u32) (de_len: nat) (de_name: "u8 list") (de_type: u8)

fun dirent_bytes :: "dirent \<Rightarrow> u8 list" where
  "dirent_bytes (Dirent ino len name ft) =
     le_bytes32 ino @ le_bytes16 (of_nat len) @ [of_nat (length name), ft] @ name @ replicate (len - 8 - length name) 0"

text \<open>The checks of a reader: the record holds its name, its length is a multiple of four, and it does not
  cross the end of its block.\<close>

fun dirent_ok :: "nat \<Rightarrow> nat \<Rightarrow> dirent \<Rightarrow> bool" where
  "dirent_ok bs off (Dirent ino len name ft) \<longleftrightarrow>
     8 + length name \<le> len \<and> len mod 4 = 0 \<and> len < 65536 \<and> length name < 256 \<and> off mod bs + len \<le> bs"

text \<open>Reading a directory from an offset on: the records with their offsets.\<close>

function read_dir :: "nat \<Rightarrow> u8 list \<Rightarrow> nat \<Rightarrow> (nat \<times> dirent) list option" where
  "read_dir bs data off =
     (if off = length data then Some []
      else if length data < off + 8 then None
      else let len = unat (get_u16 data (off + 4));
               d = Dirent (get_u32 data off) len (get_bytes data (off + 8) (unat (data ! (off + 6)))) (data ! (off + 7))
        in if dirent_ok bs off d \<and> off + len \<le> length data
           then map_option ((#) (off, d)) (read_dir bs data (off + len)) else None)"
  by pat_completeness auto
termination
  by (relation "measure (\<lambda>(bs, data, off). length data - off)") (auto simp: Let_def)

declare read_dir.simps [simp del]

text \<open>Records in a row.\<close>

fun placed :: "nat \<Rightarrow> dirent list \<Rightarrow> (nat \<times> dirent) list" where
  "placed off [] = []"
| "placed off (d # ds) = (off, d) # placed (off + de_len d) ds"

fun row_ok :: "nat \<Rightarrow> nat \<Rightarrow> dirent list \<Rightarrow> bool" where
  "row_ok bs off [] \<longleftrightarrow> True"
| "row_ok bs off (d # ds) \<longleftrightarrow> dirent_ok bs off d \<and> row_ok bs (off + de_len d) ds"

definition row_bytes :: "dirent list \<Rightarrow> u8 list" where
  "row_bytes ds = concat (map dirent_bytes ds)"

definition row_len :: "dirent list \<Rightarrow> nat" where
  "row_len ds = sum_list (map de_len ds)"

lemma length_dirent [simp]: "dirent_ok bs off d \<Longrightarrow> length (dirent_bytes d) = de_len d"
  by (cases d) auto

lemma length_row: "row_ok bs off ds \<Longrightarrow> length (row_bytes ds) = row_len ds"
  by (induction ds arbitrary: off) (auto simp: row_bytes_def row_len_def)

lemma row_append: "row_ok bs off (ds @ es) \<longleftrightarrow> row_ok bs off ds \<and> row_ok bs (off + row_len ds) es"
  by (induction ds arbitrary: off) (auto simp: row_len_def add.assoc)

lemma placed_append: "placed off (ds @ es) = placed off ds @ placed (off + row_len ds) es"
  by (induction ds arbitrary: off) (auto simp: row_len_def add.assoc)

lemma row_bytes_simps [simp]:
  "row_bytes [] = []" "row_bytes (d # ds) = dirent_bytes d @ row_bytes ds" "row_bytes (ds @ es) = row_bytes ds @ row_bytes es"
  by (simp_all add: row_bytes_def)

lemma row_len_simps [simp]:
  "row_len [] = 0" "row_len (d # ds) = de_len d + row_len ds" "row_len (ds @ es) = row_len ds + row_len es"
  by (simp_all add: row_len_def)

text \<open>A record behind a prefix is read back.\<close>

lemma dirent_fields:
  assumes "dirent_ok bs off d"
  shows "get_u32 (A @ dirent_bytes d @ B) (length A) = de_inode d"
    and "unat (get_u16 (A @ dirent_bytes d @ B) (length A + 4)) = de_len d"
    and "unat ((A @ dirent_bytes d @ B) ! (length A + 6)) = length (de_name d)"
    and "(A @ dirent_bytes d @ B) ! (length A + 7) = de_type d"
    and "get_bytes (A @ dirent_bytes d @ B) (length A + 8) (length (de_name d)) = de_name d"
proof -
  obtain ino len name ft where d: "d = Dirent ino len name ft" by (cases d)
  let ?L = "of_nat len :: u16"
  define R where "R = name @ replicate (len - 8 - length name) 0 @ B"
  have e: "A @ dirent_bytes d @ B = A @ le_bytes32 ino @ le_bytes16 ?L @ [of_nat (length name), ft] @ R"
    by (simp add: d R_def)
  have n: "length name < 256" "len < 65536" using assms by (simp_all add: d)
  show "get_u32 (A @ dirent_bytes d @ B) (length A) = de_inode d"
    unfolding e by (simp add: d get_u32_def get_bytes_def)
  have "get_u16 ((A @ le_bytes32 ino) @ le_bytes16 ?L @ [of_nat (length name), ft] @ R) (length (A @ le_bytes32 ino)) = ?L"
    by (simp only: get_u16_def get_bytes_def drop_append) simp
  then show "unat (get_u16 (A @ dirent_bytes d @ B) (length A + 4)) = de_len d"
    unfolding e using n(2) by (simp add: d unat_of_nat)
  have at: "(X @ x # Y) ! length X = x" for X :: "u8 list" and x Y by simp
  show "unat ((A @ dirent_bytes d @ B) ! (length A + 6)) = length (de_name d)"
    unfolding e using at [of "A @ le_bytes32 ino @ le_bytes16 ?L" "of_nat (length name)" "ft # R"] n(1) by (simp add: d unat_of_nat)
  show "(A @ dirent_bytes d @ B) ! (length A + 7) = de_type d"
    unfolding e using at [of "A @ le_bytes32 ino @ le_bytes16 ?L @ [of_nat (length name)]" "ft" R] by (simp add: d)
  have "get_bytes ((A @ le_bytes32 ino @ le_bytes16 ?L @ [of_nat (length name), ft]) @ R)
      (length (A @ le_bytes32 ino @ le_bytes16 ?L @ [of_nat (length name), ft])) (length name) = name"
    by (simp only: get_bytes_def drop_append) (simp add: R_def)
  then show "get_bytes (A @ dirent_bytes d @ B) (length A + 8) (length (de_name d)) = de_name d"
    unfolding e by (simp add: d)
qed

lemma read_row:
  "row_ok bs (length A) ds \<Longrightarrow> read_dir bs (A @ row_bytes ds) (length A) = Some (placed (length A) ds)"
proof (induction ds arbitrary: A)
  case Nil
  then show ?case by (subst read_dir.simps) simp
next
  case (Cons d ds)
  then have ok: "dirent_ok bs (length A) d" and len: "length (dirent_bytes d) = de_len d" by (auto simp: length_dirent)
  have d8: "8 \<le> de_len d" using ok by (cases d) simp
  have "read_dir bs ((A @ dirent_bytes d) @ row_bytes ds) (length (A @ dirent_bytes d)) = Some (placed (length (A @ dirent_bytes d)) ds)"
    using Cons by (intro Cons.IH) (simp add: len)
  then have rest: "read_dir bs (A @ dirent_bytes d @ row_bytes ds) (length A + de_len d) = Some (placed (length A + de_len d) ds)"
    by (simp add: len)
  show ?case
    by (subst read_dir.simps) (use ok d8 rest len dirent_fields [OF ok, of A "row_bytes ds"] in \<open>cases d; simp add: Let_def\<close>)
qed

section \<open>Writing records\<close>

lemma store_run: "w_mem s i = Some b \<Longrightarrow> off + length bs \<le> length b \<Longrightarrow> store (i, off) bs s = Inr ((), upd_buf i (put_bytes b off bs) s)"
  by (simp add: store_def)

lemma put_bytes_inside: "length X = length bs \<Longrightarrow> put_bytes (A @ X @ B) (length A) bs = A @ bs @ B"
  by (simp add: put_bytes_def)

lemma store_inside:
  "w_mem s i = Some (A @ X @ B) \<Longrightarrow> length X = length bs \<Longrightarrow> off = length A \<Longrightarrow>
   store (i, off) bs s = Inr ((), upd_buf i (A @ bs @ B) s)"
  by (simp add: store_run put_bytes_inside)

text \<open>The header and the name of a record in a stretch of zeros.\<close>

lemma store_dentry_run:
  assumes mem: "w_mem s i = Some (A @ replicate m 0)" and m: "8 \<le> m"
  shows "store_dentry (i, length A) ino len nl ft s =
    Inr ((), upd_buf i (A @ le_bytes32 ino @ le_bytes16 len @ [nl, ft] @ replicate (m - 8) 0) s)"
proof -
  let ?z = "\<lambda>n. replicate n 0 :: u8 list"
  have "m = 4 + (2 + (1 + (1 + (m - 8))))" using m by simp
  then have split: "?z m = ?z 4 @ ?z 2 @ ?z 1 @ ?z 1 @ ?z (m - 8)" by (metis replicate_add)
  let ?b1 = "A @ le_bytes32 ino @ ?z 2 @ ?z 1 @ ?z 1 @ ?z (m - 8)"
  let ?b2 = "(A @ le_bytes32 ino) @ le_bytes16 len @ ?z 1 @ ?z 1 @ ?z (m - 8)"
  let ?b3 = "(A @ le_bytes32 ino @ le_bytes16 len) @ [nl] @ ?z 1 @ ?z (m - 8)"
  let ?b4 = "(A @ le_bytes32 ino @ le_bytes16 len @ [nl]) @ [ft] @ ?z (m - 8)"
  have 1: "store_u32 (i, length A) ino s = Inr ((), upd_buf i ?b1 s)"
    unfolding store_u32_def by (rule store_inside [of _ _ _ "?z 4"]) (simp_all only: mem split length_le_bytes length_replicate)
  have 2: "store_u16 (ptr_add (i, length A) 4) len (upd_buf i ?b1 s) = Inr ((), upd_buf i ?b2 (upd_buf i ?b1 s))"
    unfolding store_u16_def ptr_add_def fst_conv snd_conv by (rule store_inside [of _ _ _ "?z 2"]) simp_all
  have 3: "store_u8 (ptr_add (i, length A) 6) nl (upd_buf i ?b2 s) = Inr ((), upd_buf i ?b3 (upd_buf i ?b2 s))"
    unfolding store_u8_def ptr_add_def fst_conv snd_conv by (rule store_inside [of _ _ _ "?z 1"]) simp_all
  have 4: "store_u8 (ptr_add (i, length A) 7) ft (upd_buf i ?b3 s) = Inr ((), upd_buf i ?b4 (upd_buf i ?b3 s))"
    unfolding store_u8_def ptr_add_def fst_conv snd_conv by (rule store_inside [of _ _ _ "?z 1"]) simp_all
  show ?thesis
    unfolding store_dentry_def sq_def bind_def 1 sum.case prod.case 2 upd_buf_simps 3 4 by simp
qed

text \<open>A whole record in a stretch of zeros; the length of the record of a name of \<open>n\<close> bytes.\<close>

lemma dentry_space_bounds: "n < 256 \<Longrightarrow> 8 + n \<le> dentry_space n \<and> dentry_space n \<le> 264 \<and> dentry_space n mod 4 = 0"
  by (auto simp: dentry_space_def)

lemma record_run:
  assumes mem: "w_mem s i = Some (A @ replicate m 0)" and m: "dentry_space (length name) \<le> m" and n: "length name < 256"
  shows "bind (store_dentry (i, length A) ino (of_nat (dentry_space (length name))) (of_nat (length name)) ft)
      (\<lambda>_. store (i, length A + 8) name) s =
    Inr ((), upd_buf i (A @ dirent_bytes (Dirent ino (dentry_space (length name)) name ft) @
      replicate (m - dentry_space (length name)) 0) s)"
proof -
  let ?l = "dentry_space (length name)" and ?z = "\<lambda>n. replicate n 0 :: u8 list"
  have l: "8 + length name \<le> ?l" using dentry_space_bounds [OF n] by simp
  let ?H = "A @ le_bytes32 ino @ le_bytes16 (of_nat ?l) @ [of_nat (length name), ft]"
  have 1: "store_dentry (i, length A) ino (of_nat ?l) (of_nat (length name)) ft s = Inr ((), upd_buf i (?H @ ?z (m - 8)) s)"
    using store_dentry_run [OF mem, of ino "of_nat ?l" "of_nat (length name)" ft] l m by simp
  have "m - 8 = length name + ((?l - 8 - length name) + (m - ?l))" using l m by simp
  then have z: "?z (m - 8) = ?z (length name) @ ?z (?l - 8 - length name) @ ?z (m - ?l)" by (metis replicate_add)
  have 2: "store (i, length A + 8) name (upd_buf i (?H @ ?z (m - 8)) s) =
      Inr ((), upd_buf i (?H @ name @ ?z (?l - 8 - length name) @ ?z (m - ?l)) (upd_buf i (?H @ ?z (m - 8)) s))"
    by (rule store_inside [of _ _ _ "?z (length name)"]) (simp_all add: z)
  show ?thesis unfolding bind_def 1 sum.case prod.case 2 upd_buf_simps by simp
qed

text \<open>Lengthening the last record.\<close>

lemma grow_run:
  assumes mem: "w_mem s i = Some (A @ dirent_bytes d @ B)" and d: "dirent_ok bs (length A) d"
  shows "modify_u16 (i, length A + 4) (\<lambda>x. x + p) s =
    Inr ((), upd_buf i (A @ le_bytes32 (de_inode d) @ le_bytes16 (of_nat (de_len d) + p) @ drop 6 (dirent_bytes d) @ B) s)"
proof -
  have e: "dirent_bytes d = le_bytes32 (de_inode d) @ le_bytes16 (of_nat (de_len d)) @ drop 6 (dirent_bytes d)"
    by (cases d) (simp add: eval_nat_numeral)
  let ?l = "le_bytes16 (of_nat (de_len d))" and ?A = "A @ le_bytes32 (de_inode d)"
  have m: "w_mem s i = Some (?A @ ?l @ drop 6 (dirent_bytes d) @ B)" using mem e by (metis append.assoc)
  have "load (i, length A + 4) 2 s = Inr (?l, s)"
    by (simp add: load_def m get_bytes_def)
  then have 1: "load_u16 (i, length A + 4) s = Inr (of_nat (de_len d), s)"
    by (simp add: load_u16_def bind_def ret_def)
  have 2: "store_u16 (i, length A + 4) (of_nat (de_len d) + p) s =
      Inr ((), upd_buf i (?A @ le_bytes16 (of_nat (de_len d) + p) @ drop 6 (dirent_bytes d) @ B) s)"
    unfolding store_u16_def by (rule store_inside [OF m]) simp_all
  show ?thesis unfolding modify_u16_def bind_def 1 sum.case prod.case 2 by simp
qed

fun lengthen :: "nat \<Rightarrow> dirent \<Rightarrow> dirent" where
  "lengthen p (Dirent ino len name ft) = Dirent ino (len + p) name ft"

lemma lengthen_bytes:
  assumes "dirent_ok bs off d"
  shows "le_bytes32 (de_inode d) @ le_bytes16 (of_nat (de_len d) + of_nat p) @ drop 6 (dirent_bytes d) @ replicate p 0 = dirent_bytes (lengthen p d)"
proof -
  obtain ino len name ft where d: "d = Dirent ino len name ft" by (cases d)
  have "len + p - 8 - length name = (len - 8 - length name) + p" using assms by (simp add: d)
  then have "replicate (len + p - 8 - length name) (0 :: u8) = replicate (len - 8 - length name) 0 @ replicate p 0"
    by (simp add: replicate_add)
  then show ?thesis by (simp add: d)
qed

section \<open>Adding an entry\<close>

text \<open>The rows: one record appended, the last one lengthened to the end of its block when the new one would
  reach it.  \<open>extend\<close> gives the row and the place of the new record.\<close>

definition extend :: "nat \<Rightarrow> dirent list \<Rightarrow> u32 \<Rightarrow> u8 list \<Rightarrow> u8 \<Rightarrow> dirent list \<times> nat" where
  "extend bs ds ino name ft =
     (let off = row_len ds; len = dentry_space (length name); new = Dirent ino len name ft in
      if (off mod bs) + len < bs then (ds @ [new], off)
      else let pad = bs - off mod bs in (butlast ds @ [lengthen pad (last ds), new], off + pad))"

lemma same_block:
  fixes off len bs :: nat
  assumes "len \<le> bs" "0 < bs"
  shows "off div bs = (off + len) div bs \<longleftrightarrow> off mod bs + len < bs"
    and "bs \<le> off mod bs + len \<Longrightarrow> off mod bs \<noteq> 0 \<Longrightarrow> (off + len) div bs * bs = off + (bs - off mod bs)"
proof -
  have e: "off = off div bs * bs + off mod bs" by simp
  have d: "(off + len) div bs = off div bs + (off mod bs + len) div bs"
    by (subst e) (simp only: add.assoc div_mult_self3 [OF gr_implies_not0 [OF assms(2)]])
  show "off div bs = (off + len) div bs \<longleftrightarrow> off mod bs + len < bs"
    using assms by (auto simp: d div_eq_0_iff)
  assume a: "bs \<le> off mod bs + len" "off mod bs \<noteq> 0"
  have "off mod bs < bs" using assms by simp
  then have "off mod bs + len < 2 * bs" using assms by linarith
  then have "(off mod bs + len) div bs = 1" using a assms by (intro div_nat_eqI) auto
  then have "(off + len) div bs * bs = off div bs * bs + bs" by (simp add: d)
  also have "\<dots> = off + (bs - off mod bs)" using e \<open>off mod bs < bs\<close> by linarith
  finally show "(off + len) div bs * bs = off + (bs - off mod bs)" .
qed

definition block_size_ok :: "nat \<Rightarrow> bool" where
  "block_size_ok bs \<longleftrightarrow> 264 < bs \<and> bs < 65536 \<and> bs mod 4 = 0"

lemma row_len_mod_4: "row_ok bs off ds \<Longrightarrow> row_len ds mod 4 = 0"
proof (induction ds arbitrary: off)
  case (Cons d ds)
  then show ?case by (cases d) (auto simp: mod_add_eq [symmetric])
qed simp

lemma row_extend:
  assumes bs: "block_size_ok bs" and row: "row_ok bs 0 (es @ [d])" and off: "row_len (es @ [d]) = off" and inside: "off mod bs \<noteq> 0"
    and n: "length name < 256" and e: "extend bs (es @ [d]) ino name ft = (ds', pos)"
  shows "\<exists>es' d'. ds' = es' @ [d'] \<and> row_ok bs 0 ds' \<and> row_len es' = pos \<and> row_len ds' = pos + dentry_space (length name)
    \<and> row_len ds' mod bs \<noteq> 0"
proof -
  define p l where "p = row_len es" and "l = dentry_space (length name)"
  let ?new = "Dirent ino l name ft"
  have l: "8 + length name \<le> l" "l \<le> 264" "l mod 4 = 0" using dentry_space_bounds [OF n] by (auto simp: l_def)
  have b: "264 < bs" "bs < 65536" "bs mod 4 = 0" "0 < bs" using bs by (auto simp: block_size_ok_def)
  have po: "off = p + de_len d" using off by (simp add: p_def)
  have ok: "row_ok bs 0 es" "dirent_ok bs p d" using row by (auto simp: row_append p_def)
  have le: "p mod bs + de_len d \<le> bs" using ok(2) by (cases d) simp
  have offm: "off mod bs = (p mod bs + de_len d) mod bs" by (simp add: po mod_add_left_eq)
  then have lt: "p mod bs + de_len d < bs" using inside le by (cases "p mod bs + de_len d = bs") auto
  then have offm: "off mod bs = p mod bs + de_len d" using offm by simp
  show ?thesis
  proof (cases "off mod bs + l < bs")
    case True
    then have ds': "ds' = (es @ [d]) @ [?new]" and pos: "pos = off"
      using e off by (auto simp: extend_def Let_def l_def simp del: row_len_simps)
    have "(off + l) mod bs = off mod bs + l" using True by (metis mod_add_left_eq mod_less)
    then have "(off + l) mod bs \<noteq> 0" using l(1) by simp
    moreover have "dirent_ok bs off ?new" using l b n True by simp
    moreover have "row_len ds' = off + l" using off by (simp add: ds')
    ultimately show ?thesis using row off pos
      by (intro exI [of _ "es @ [d]"] exI [of _ ?new]) (simp add: ds' row_append [of _ _ "es @ [d]"] l_def del: row_len_simps(3) append_assoc)
  next
    case False
    define pad where "pad = bs - off mod bs"
    have ds': "ds' = (es @ [lengthen pad d]) @ [?new]" and pos: "pos = off + pad"
      using e off False by (auto simp: extend_def Let_def l_def pad_def simp del: row_len_simps)
    have "p mod 4 = 0" using row_len_mod_4 [OF ok(1)] by (simp add: p_def)
    then have "p mod bs mod 4 = 0" using b(3) by (metis mod_mod_cancel mod_0_imp_dvd)
    moreover have full: "de_len d + pad = bs - p mod bs" using offm lt by (simp add: pad_def)
    ultimately have four: "(de_len d + pad) mod 4 = 0" using b(3) by (metis mod_0_imp_dvd dvd_diff_nat dvd_imp_mod_0)
    have len: "de_len (lengthen pad d) = de_len d + pad" by (cases d) simp
    have d': "dirent_ok bs p (lengthen pad d)"
      using ok(2) four full b lt by (cases d) auto
    have "off = off div bs * bs + off mod bs" and "off mod bs < bs" using b by simp_all
    then have "off + pad = off div bs * bs + bs" unfolding pad_def by linarith
    then have m: "(off + pad) mod bs = 0" "(off + pad + l) mod bs = l"
      using l b by (auto simp: mod_simps add.assoc)
    have new: "dirent_ok bs (off + pad) ?new" using m(1) l b n by simp
    have es: "row_len (es @ [lengthen pad d]) = off + pad" by (simp add: len po p_def)
    then have "row_len ds' = off + pad + l" by (simp add: ds')
    moreover have "row_ok bs 0 ds'" using ok(1) d' new es
      by (simp add: ds' row_append [of _ _ "es @ [lengthen pad d]"] row_append [of _ _ es] p_def del: row_len_simps(3) append_assoc)
    ultimately show ?thesis using es m(2) l pos
      by (intro exI [of _ "es @ [lengthen pad d]"] exI [of _ ?new]) (simp add: ds' l_def del: row_len_simps(3) append_assoc)
  qed
qed

text \<open>\<open>add_dentry\<close> on a row followed by zeros.\<close>

lemma u32_of_nat: "n < 4294967296 \<Longrightarrow> unat (of_nat n :: u32) = n"
  by (simp add: unat_of_nat)

lemma seq_ok: "bind m (\<lambda>_. n) s = Inr (x, t) \<Longrightarrow> bind m (\<lambda>_. bind n f) s = f x t"
  by (auto simp: bind_def split: sum.splits prod.splits)

lemma add_dentry_run:
  assumes info: "info_block_size (w_info s) = of_nat bs" and bs: "block_size_ok bs"
    and row: "row_ok bs 0 (es @ [d])" and off: "row_len (es @ [d]) = off" and inside: "off mod bs \<noteq> 0" and n: "length name < 256"
    and mem: "w_mem s i = Some (row_bytes (es @ [d]) @ replicate (cap - off) 0)" and small: "cap < 4294966000"
    and e: "extend bs (es @ [d]) ino name ft = (ds', pos)" and fits: "pos + dentry_space (length name) \<le> cap"
  shows "add_dentry (i, 0) (of_nat off) (Some (i, row_len es)) ino name ft s =
    Inr (((i, pos), of_nat (pos + dentry_space (length name))),
      upd_buf i (row_bytes ds' @ replicate (cap - (pos + dentry_space (length name))) 0) s)"
proof -
  define p l where "p = row_len es" and "l = dentry_space (length name)"
  have l: "8 + length name \<le> l" "l \<le> 264" using dentry_space_bounds [OF n] by (auto simp: l_def)
  have b: "264 < bs" "bs < 65536" "0 < bs" using bs by (auto simp: block_size_ok_def)
  have po: "off = p + de_len d" using off by (simp add: p_def)
  have pos: "pos = (if off mod bs + l < bs then off else off + (bs - off mod bs))"
    using e off by (auto simp: extend_def Let_def l_def simp del: row_len_simps split: if_splits)
  have cap: "off \<le> cap" using fits pos by (auto split: if_splits)
  have ok: "row_ok bs 0 es" "dirent_ok bs p d" using row by (auto simp: row_append p_def)
  have lens: "length (row_bytes es) = p" "length (dirent_bytes d) = de_len d" using length_row [OF ok(1)] ok(2) by (simp_all add: p_def)
  have u: "unat (of_nat off :: u32) = off" "unat (of_nat bs :: u32) = bs" "unat (of_nat l :: u16) = l"
    "unat (of_nat (length name) :: u8) = length name" "unat (of_nat (off + l) :: u32) = off + l" "unat (of_nat pos :: u32) = pos"
    using cap small b l n pos by (simp_all add: unat_of_nat del: of_nat_add)
  have rec: "ucast (of_nat l :: u16) = (of_nat l :: u32)" by (rule word_eq_unat [THEN iffD2]) (use l in \<open>simp add: u(3) unat_of_nat\<close>)
  have blocks: "(of_nat off div of_nat bs = (of_nat off + of_nat l) div (of_nat bs :: u32)) \<longleftrightarrow> off mod bs + l < bs"
  proof -
    have "(of_nat off div of_nat bs = (of_nat off + of_nat l) div (of_nat bs :: u32)) \<longleftrightarrow> off div bs = (off + l) div bs"
      by (simp only: word_eq_unat unat_div u of_nat_add [symmetric])
    then show ?thesis using same_block(1) [of l bs off] l b by simp
  qed
  have nz: "(of_nat bs :: u32) \<noteq> 0" using u(2) b by auto
  note run = add_dentry_def sq_def prog_simps info Let_def rec u ptr_add_def nz l_def [symmetric] p_def [symmetric]
  show ?thesis
  proof (cases "off mod bs + l < bs")
    case True
    then have ds': "ds' = (es @ [d]) @ [Dirent ino l name ft]" and pos': "pos = off"
      using e off pos by (auto simp: extend_def Let_def l_def simp del: row_len_simps)
    let ?A = "row_bytes (es @ [d])"
    have A: "length ?A = off" by (simp add: lens po)
    have w: "bind (store_dentry (i, off) ino (of_nat l) (of_nat (length name)) ft) (\<lambda>_. store (i, off + 8) name) s =
        Inr ((), upd_buf i (?A @ dirent_bytes (Dirent ino l name ft) @ replicate (cap - off - l) 0) s)"
      unfolding A [symmetric] l_def by (rule record_run [OF mem [folded A] _ n]) (use fits pos' A in \<open>simp add: l_def\<close>)
    show ?thesis using True
      by (simp add: run blocks seq_ok [OF w] pos' ds' del: row_bytes_simps) (simp add: run)
  next
    case False
    define pad where "pad = bs - off mod bs"
    have ds': "ds' = (es @ [lengthen pad d]) @ [Dirent ino l name ft]" and pos': "pos = off + pad"
      using e off pos False by (auto simp: extend_def Let_def l_def pad_def simp del: row_len_simps)
    have fits': "off + pad + l \<le> cap" using fits by (simp add: pos' l_def)
    have pad: "pad < 65536" using b by (simp add: pad_def)
    have m: "(off + l) div bs * bs = off + pad"
      unfolding pad_def by (rule same_block(2)) (use False l b inside in auto)
    have "(off + l) div bs \<le> off + l" by simp
    then have "(off + l) div bs < 4294967296" using cap small l by linarith
    then have "(of_nat off + of_nat l) div of_nat bs = (of_nat ((off + l) div bs) :: u32)"
      by (simp only: word_eq_unat unat_div u of_nat_add [symmetric] u32_of_nat)
    then have "((of_nat off + of_nat l) div of_nat bs) * of_nat bs = (of_nat (off + pad) :: u32)"
      by (simp only: of_nat_mult [symmetric] m)
    then have end_off: "((of_nat off + of_nat l) div of_nat bs) * of_nat bs = (of_nat pos :: u32)"
      and end_block: "of_nat pos - of_nat off = (of_nat pad :: u32)" by (simp_all add: pos')
    have pad16: "ucast (of_nat pad :: u32) = (of_nat pad :: u16)" using pad by (simp add: unsigned_of_nat take_bit_nat_eq_self)
    let ?z = "replicate (cap - pos) 0 :: u8 list"
    have "cap - off = pad + (cap - pos)" using fits' by (simp add: pos')
    then have "replicate (cap - off) 0 = replicate pad 0 @ ?z" by (simp add: replicate_add)
    then have "w_mem s i = Some (row_bytes es @ dirent_bytes d @ replicate pad 0 @ ?z)" using mem by simp
    note grow = grow_run [OF this, of bs "of_nat pad", unfolded lens, OF ok(2)]
    have long: "dirent_bytes (lengthen pad d) @ ?z =
        le_bytes32 (de_inode d) @ le_bytes16 (of_nat (de_len d) + of_nat pad) @ drop 6 (dirent_bytes d) @ replicate pad 0 @ ?z"
      by (simp only: lengthen_bytes [OF ok(2), symmetric] append_assoc)
    have g: "modify_u16 (i, p + 4) (\<lambda>x. x + of_nat pad) s =
        Inr ((), upd_buf i (row_bytes (es @ [lengthen pad d]) @ ?z) s)"
      using grow by (simp only: long row_bytes_simps append_Nil2 append_assoc)
    have g': "modify_u16 (i, p + 4) (\<lambda>x. x + ucast (of_nat pad :: u32)) s =
        Inr ((), upd_buf i (row_bytes (es @ [lengthen pad d]) @ ?z) s)"
      unfolding pad16 by (rule g)
    let ?A = "row_bytes (es @ [lengthen pad d])" and ?t = "upd_buf i (row_bytes (es @ [lengthen pad d]) @ ?z) s"
    have "length (dirent_bytes (lengthen pad d)) = de_len d + pad" using ok(2) by (cases d) auto
    then have A: "length ?A = pos" by (simp add: lens pos' po)
    have w: "bind (store_dentry (i, pos) ino (of_nat l) (of_nat (length name)) ft) (\<lambda>_. store (i, pos + 8) name) ?t =
        Inr ((), upd_buf i (?A @ dirent_bytes (Dirent ino l name ft) @ replicate (cap - pos - l) 0) ?t)"
      unfolding A [symmetric] l_def by (rule record_run [OF _ _ n]) (use fits A in \<open>simp_all add: l_def del: row_bytes_simps\<close>)
    show ?thesis using False
      by (simp add: run blocks end_off end_block bind_ok g' del: row_bytes_simps)
        (simp add: run seq_ok [OF w] ds' del: row_bytes_simps, simp add: run pos')
  qed
qed

section \<open>The whole directory\<close>

text \<open>What a reader sees of a row: where each record is, its inode number, name and type.\<close>

definition summary :: "dirent list \<Rightarrow> (nat \<times> u32 \<times> u8 list \<times> u8) list" where
  "summary ds = map (\<lambda>(off, d). (off, de_inode d, de_name d, de_type d)) (placed 0 ds)"

definition list_dir :: "nat \<Rightarrow> u8 list \<Rightarrow> (nat \<times> u32 \<times> u8 list \<times> u8) list option" where
  "list_dir bs data = map_option (map (\<lambda>(off, d). (off, de_inode d, de_name d, de_type d))) (read_dir bs data 0)"

lemma list_row: "row_ok bs 0 ds \<Longrightarrow> list_dir bs (row_bytes ds) = Some (summary ds)"
  using read_row [of bs "[]" ds] by (simp add: list_dir_def summary_def)

lemma summary_snoc: "summary (ds @ [d]) = summary ds @ [(row_len ds, de_inode d, de_name d, de_type d)]"
  by (simp add: summary_def placed_append)

lemma extend_facts:
  assumes "extend bs (es @ [d]) ino name ft = (ds', pos)"
  shows "summary ds' = summary (es @ [d]) @ [(pos, ino, name, ft)]"
    and "row_len ds' = pos + dentry_space (length name)"
    and "pos = (let off = row_len (es @ [d]) in if off mod bs + dentry_space (length name) < bs then off else off + (bs - off mod bs))"
proof -
  let ?off = "row_len (es @ [d])"
  have l: "de_len (lengthen p d) = de_len d + p" "de_inode (lengthen p d) = de_inode d" "de_name (lengthen p d) = de_name d"
    "de_type (lengthen p d) = de_type d" for p by (cases d; simp)+
  have "(ds' = (es @ [d]) @ [Dirent ino (dentry_space (length name)) name ft] \<and> pos = ?off) \<or>
      (ds' = (es @ [lengthen (bs - ?off mod bs) d]) @ [Dirent ino (dentry_space (length name)) name ft] \<and> pos = ?off + (bs - ?off mod bs))"
    using assms by (auto simp: extend_def Let_def simp del: row_len_simps split: if_splits)
  then show "summary ds' = summary (es @ [d]) @ [(pos, ino, name, ft)]" "row_len ds' = pos + dentry_space (length name)"
    by (elim disjE conjE; simp only: summary_snoc; simp add: l)+
  show "pos = (let off = ?off in if off mod bs + dentry_space (length name) < bs then off else off + (bs - off mod bs))"
    using assms by (auto simp: extend_def Let_def simp del: row_len_simps split: if_splits)
qed

text \<open>The rows after all entries, and the places of the new records; the offset where they end, from the
  lengths of the names alone.\<close>

fun add_rows :: "nat \<Rightarrow> dirent list \<Rightarrow> dentry list \<Rightarrow> dirent list \<times> nat list" where
  "add_rows bs ds [] = (ds, [])"
| "add_rows bs ds (e # entries) =
     (let (ds1, pos) = extend bs ds 0 (d_filename e) (d_file_type e);
          (ds2, places) = add_rows bs ds1 entries
      in (ds2, pos # places))"

fun dir_end :: "nat \<Rightarrow> nat \<Rightarrow> nat list \<Rightarrow> nat" where
  "dir_end bs off [] = off"
| "dir_end bs off (n # ns) =
     dir_end bs ((if off mod bs + dentry_space n < bs then off else off + (bs - off mod bs)) + dentry_space n) ns"

lemma dir_end_mono: "off \<le> dir_end bs off ns"
  by (induction bs off ns rule: dir_end.induct) (simp_all split: if_splits)

lemma add_entries_run:
  assumes "info_block_size (w_info s) = of_nat bs" "block_size_ok bs"
    and "row_ok bs 0 (es @ [d])" "row_len (es @ [d]) = off" "off mod bs \<noteq> 0" "\<forall>e\<in>set entries. length (d_filename e) < 256"
    and "w_mem s i = Some (row_bytes (es @ [d]) @ replicate (cap - off) 0)" "cap < 4294966000"
    and "add_rows bs (es @ [d]) entries = (ds', places)" "dir_end bs off (map (\<lambda>e. length (d_filename e)) entries) < cap"
  shows "add_entries (i, 0) (of_nat cap) (of_nat off) (i, row_len es) entries s =
      Inr ((map2 (\<lambda>e p. e\<lparr>d_inode := Some (i, p)\<rparr>) entries places, of_nat (row_len ds')),
        upd_buf i (row_bytes ds' @ replicate (cap - row_len ds') 0) s)
    \<and> row_ok bs 0 ds' \<and> row_len ds' mod bs \<noteq> 0 \<and> row_len ds' = dir_end bs off (map (\<lambda>e. length (d_filename e)) entries)
    \<and> length places = length entries
    \<and> summary ds' = summary (es @ [d]) @ map2 (\<lambda>e p. (p, 0, d_filename e, d_file_type e)) entries places"
  using assms
proof (induction entries arbitrary: es d off s ds' places)
  case Nil
  then have "upd_buf i (row_bytes (es @ [d]) @ replicate (cap - off) 0) s = s" by (intro upd_buf_same)
  then show ?case using Nil by (auto simp: prog_simps simp del: row_bytes_simps row_len_simps)
next
  case (Cons e entries)
  let ?nm = "d_filename e" and ?ft = "d_file_type e"
  obtain ds1 pos where x: "extend bs (es @ [d]) 0 ?nm ?ft = (ds1, pos)" by fastforce
  obtain ps where r: "add_rows bs ds1 entries = (ds', ps)" and places: "places = pos # ps"
    using Cons.prems(9) x by (auto split: prod.splits)
  define off1 where "off1 = pos + dentry_space (length ?nm)"
  have n: "length ?nm < 256" using Cons.prems(6) by simp
  note xf = extend_facts [OF x]
  have endo: "dir_end bs off (map (\<lambda>e. length (d_filename e)) (e # entries)) = dir_end bs off1 (map (\<lambda>e. length (d_filename e)) entries)"
    by (simp only: list.map dir_end.simps off1_def xf(3) Let_def Cons.prems(4))
  have rest: "dir_end bs off1 (map (\<lambda>e. length (d_filename e)) entries) < cap" using Cons.prems(10) unfolding endo .
  then have lt: "off1 < cap" using dir_end_mono [of off1 bs "map (\<lambda>e. length (d_filename e)) entries"] by linarith
  obtain es1 d1 where row1: "ds1 = es1 @ [d1]" "row_ok bs 0 (es1 @ [d1])" "row_len es1 = pos" "row_len (es1 @ [d1]) = off1" "off1 mod bs \<noteq> 0"
    using row_extend [OF Cons.prems(2-5) n x] xf(2) off1_def by auto
  have step: "add_dentry (i, 0) (of_nat off) (Some (i, row_len es)) 0 ?nm ?ft s =
      Inr (((i, pos), of_nat off1), upd_buf i (row_bytes ds1 @ replicate (cap - off1) 0) s)"
    unfolding off1_def by (rule add_dentry_run [OF Cons.prems(1-5) n Cons.prems(7,8) x]) (use lt off1_def in simp)
  let ?t = "upd_buf i (row_bytes (es1 @ [d1]) @ replicate (cap - off1) 0) s"
  have IH: "add_entries (i, 0) (of_nat cap) (of_nat off1) (i, row_len es1) entries ?t =
        Inr ((map2 (\<lambda>e p. e\<lparr>d_inode := Some (i, p)\<rparr>) entries ps, of_nat (row_len ds')), upd_buf i (row_bytes ds' @ replicate (cap - row_len ds') 0) ?t)
      \<and> row_ok bs 0 ds' \<and> row_len ds' mod bs \<noteq> 0 \<and> row_len ds' = dir_end bs off1 (map (\<lambda>e. length (d_filename e)) entries)
      \<and> length ps = length entries
      \<and> summary ds' = summary (es1 @ [d1]) @ map2 (\<lambda>e p. (p, 0, d_filename e, d_file_type e)) entries ps"
  proof (rule Cons.IH)
    show "info_block_size (w_info ?t) = of_nat bs" using Cons.prems(1) by simp
    show "add_rows bs (es1 @ [d1]) entries = (ds', ps)" using r row1(1) by simp
  qed (use Cons.prems(2,6,8) row1 rest in \<open>simp_all del: row_bytes_simps row_len_simps\<close>)
  have u: "unat (of_nat off1 :: u32) = off1" "unat (of_nat cap :: u32) = cap" using lt Cons.prems(8) by (simp_all add: unat_of_nat)
  then have fit: "\<not> (of_nat cap :: u32) < of_nat off1" "(of_nat off1 :: u32) \<noteq> of_nat cap"
    using lt by (simp add: word_less_nat_alt, metis less_irrefl)
  have "add_entries (i, 0) (of_nat cap) (of_nat off) (i, row_len es) (e # entries) s =
      Inr ((map2 (\<lambda>e p. e\<lparr>d_inode := Some (i, p)\<rparr>) (e # entries) places, of_nat (row_len ds')),
        upd_buf i (row_bytes ds' @ replicate (cap - row_len ds') 0) s)"
    using IH fit step row1(1,3) places by (simp add: bind_ok prog_simps del: row_bytes_simps row_len_simps)
  then show ?case using IH endo xf(1) places row1(1) by (auto simp del: row_len_simps dir_end.simps)
qed

text \<open>The first record: it starts the row.\<close>

lemma add_first_run:
  assumes info: "info_block_size (w_info s) = of_nat bs" and bs: "block_size_ok bs"
    and mem: "w_mem s i = Some (replicate cap 0)" and cap: "12 \<le> cap"
  shows "add_dentry (i, 0) 0 None ino [46] ft s =
    Inr (((i, 0), 12), upd_buf i (row_bytes [Dirent ino 12 [46] ft] @ replicate (cap - 12) 0) s)"
proof -
  have b: "264 < bs" "bs < 65536" using bs by (auto simp: block_size_ok_def)
  have l: "dentry_space (length [46 :: u8]) = 12" by (simp add: dentry_space_def)
  have u: "unat (of_nat bs :: u32) = bs" using b by (simp add: unat_of_nat)
  then have nz: "(of_nat bs :: u32) \<noteq> 0" using b by auto
  have zero: "(0 :: u32) div of_nat bs = 0" "(12 :: u32) div of_nat bs = 0"
    by (simp_all only: word_eq_unat unat_div u) (use b in simp_all)
  have w: "bind (store_dentry (i, 0) ino 12 1 ft) (\<lambda>_. store (i, 8) [46]) s =
      Inr ((), upd_buf i (row_bytes [Dirent ino 12 [46] ft] @ replicate (cap - 12) 0) s)"
    using record_run [of s i "[]" cap "[46]" ino ft] mem cap by (simp add: l [simplified])
  show ?thesis
    by (simp add: add_dentry_def sq_def prog_simps info Let_def nz ptr_add_def l [simplified])
      (use zero in \<open>simp add: seq_ok [OF w] ret_def\<close>)
qed


text \<open>The two records every directory starts with, then the entries.\<close>

definition start_row :: "u32 \<Rightarrow> u32 \<Rightarrow> dirent list" where
  "start_row self parent = [Dirent self 12 [46] EXT4_FT_DIR, Dirent parent 12 [46, 46] EXT4_FT_DIR]"

lemma start_row_ok: "block_size_ok bs \<Longrightarrow> row_ok bs 0 (start_row self parent)"
  by (simp add: start_row_def block_size_ok_def)

lemma start_summary: "summary (start_row self parent) = [(0, self, [46], EXT4_FT_DIR), (12, parent, [46, 46], EXT4_FT_DIR)]"
  by (simp add: summary_def start_row_def)

lemma fill_directory_run:
  assumes info: "info_block_size (w_info s) = of_nat bs" and bs: "block_size_ok bs"
    and names: "\<forall>e\<in>set entries. length (d_filename e) < 256"
    and mem: "w_mem s i = Some (replicate cap 0)" and small: "cap < 4294966000"
    and eo: "dir_end bs 24 (map (\<lambda>e. length (d_filename e)) entries) = off" "off < cap"
  obtains ds places where
    "fill_directory (i, 0) (of_nat cap) self parent entries s =
      bind (store_dentry (i, off) 0 (ucast (of_nat cap - of_nat off :: u32)) 0 EXT4_FT_UNKNOWN)
        (\<lambda>_. ret (map2 (\<lambda>e p. e\<lparr>d_inode := Some (i, p)\<rparr>) entries places)) (upd_buf i (row_bytes ds @ replicate (cap - off) 0) s)"
    "row_ok bs 0 ds" "row_len ds = off" "off mod bs \<noteq> 0" "length places = length entries"
    "summary ds = [(0, self, [46], EXT4_FT_DIR), (12, parent, [46, 46], EXT4_FT_DIR)] @
      map2 (\<lambda>e p. (p, 0, d_filename e, d_file_type e)) entries places"
proof -
  have b: "264 < bs" using bs by (simp add: block_size_ok_def)
  have "24 \<le> off" using dir_end_mono [of 24 bs] eo(1) by metis
  then have cap: "24 < cap" using eo(2) by simp
  let ?d1 = "Dirent self 12 [46] EXT4_FT_DIR" and ?d2 = "Dirent parent 12 [46, 46] EXT4_FT_DIR"
  let ?s1 = "upd_buf i (row_bytes ([] @ [?d1]) @ replicate (cap - 12) 0) s"
    and ?s2 = "upd_buf i (row_bytes ([?d1] @ [?d2]) @ replicate (cap - 24) 0) s"
  have l: "dentry_space (length [46, 46 :: u8]) = 12" by (simp add: dentry_space_def)
  have x: "extend bs ([] @ [?d1]) parent [46, 46] EXT4_FT_DIR = ([?d1] @ [?d2], 12)"
    using b by (simp add: extend_def l [simplified] Let_def)
  have 1: "add_dentry (i, 0) 0 None self [46] EXT4_FT_DIR s = Inr (((i, 0), 12), ?s1)"
    using add_first_run [OF info bs mem] cap by simp
  have "add_dentry (i, 0) (of_nat 12) (Some (i, row_len [])) parent [46, 46] EXT4_FT_DIR ?s1 =
      Inr (((i, 12), of_nat (12 + dentry_space (length [46, 46 :: u8]))),
        upd_buf i (row_bytes ([?d1] @ [?d2]) @ replicate (cap - (12 + dentry_space (length [46, 46 :: u8]))) 0) ?s1)"
    by (rule add_dentry_run [OF _ bs _ _ _ _ _ small x])
      (use info b cap in \<open>simp_all add: l [simplified] del: row_bytes_simps\<close>)
  then have 2: "add_dentry (i, 0) 12 (Some (i, 0)) parent [46, 46] EXT4_FT_DIR ?s1 = Inr (((i, 12), 24), ?s2)"
    by (simp add: l [simplified] del: row_bytes_simps)
  obtain ds places where r: "add_rows bs ([?d1] @ [?d2]) entries = (ds, places)" by fastforce
  have "add_entries (i, 0) (of_nat cap) (of_nat 24) (i, row_len [?d1]) entries ?s2 =
      Inr ((map2 (\<lambda>e p. e\<lparr>d_inode := Some (i, p)\<rparr>) entries places, of_nat (row_len ds)),
        upd_buf i (row_bytes ds @ replicate (cap - row_len ds) 0) ?s2)
    \<and> row_ok bs 0 ds \<and> row_len ds mod bs \<noteq> 0 \<and> row_len ds = dir_end bs 24 (map (\<lambda>e. length (d_filename e)) entries)
    \<and> length places = length entries
    \<and> summary ds = summary ([?d1] @ [?d2]) @ map2 (\<lambda>e p. (p, 0, d_filename e, d_file_type e)) entries places"
    by (rule add_entries_run [OF _ bs _ _ _ names _ small r])
      (use info b cap eo start_row_ok [OF bs, of self parent] in \<open>simp_all add: start_row_def del: row_bytes_simps\<close>)
  then have 3: "add_entries (i, 0) (of_nat cap) 24 (i, 12) entries ?s2 =
      Inr ((map2 (\<lambda>e p. e\<lparr>d_inode := Some (i, p)\<rparr>) entries places, of_nat off), upd_buf i (row_bytes ds @ replicate (cap - off) 0) s)"
    and rest: "row_ok bs 0 ds" "row_len ds = off" "off mod bs \<noteq> 0" "length places = length entries"
      "summary ds = summary (start_row self parent) @ map2 (\<lambda>e p. (p, 0, d_filename e, d_file_type e)) entries places"
    using eo(1) by (auto simp: start_row_def)
  have u: "unat (of_nat off :: u32) = off" using eo(2) small by (simp add: unat_of_nat)
  have "fill_directory (i, 0) (of_nat cap) self parent entries s =
      bind (store_dentry (i, off) 0 (ucast (of_nat cap - of_nat off :: u32)) 0 EXT4_FT_UNKNOWN)
        (\<lambda>_. ret (map2 (\<lambda>e p. e\<lparr>d_inode := Some (i, p)\<rparr>) entries places)) (upd_buf i (row_bytes ds @ replicate (cap - off) 0) s)"
    unfolding fill_directory_def
    by (subst bind_ok, rule 1, unfold prod.case, subst bind_ok, rule 2, unfold prod.case, subst bind_ok, rule 3)
      (simp add: u sq_def ptr_add_def)
  then show thesis by (rule that [OF _ rest(1-4)]) (simp add: rest(5) start_summary)
qed

lemma fill_block:
  fixes off r bs :: nat
  assumes "(off + r) mod bs = 0" "off mod bs \<noteq> 0" "r \<le> bs" "0 < bs"
  shows "off mod bs + r = bs"
proof -
  have "bs dvd off mod bs + r" using assms(1) by (simp add: mod_add_left_eq dvd_eq_mod_eq_0)
  then obtain k where k: "off mod bs + r = bs * k" by (elim dvdE)
  have "off mod bs < bs" using assms(4) by simp
  then have "0 < bs * k" "bs * k < bs * 2" using k assms(2,3) by linarith+
  then have "0 < k" "k < 2" by (simp, meson mult_less_cancel1)
  then have "k = 1" by simp
  then show ?thesis using k by simp
qed

text \<open>Enough zeroed data: what is written reads back as a well-formed directory.\<close>

lemma fill_directory_fits:
  assumes info: "info_block_size (w_info s) = of_nat bs" and bs: "block_size_ok bs"
    and names: "\<forall>e\<in>set entries. length (d_filename e) < 256"
    and mem: "w_mem s i = Some (replicate cap 0)" and small: "cap < 4294966000" and blocks: "cap mod bs = 0"
    and eo: "dir_end bs 24 (map (\<lambda>e. length (d_filename e)) entries) = off" "off + 8 \<le> cap" "cap \<le> off + bs"
  shows "\<exists>places data. fill_directory (i, 0) (of_nat cap) self parent entries s =
      Inr (map2 (\<lambda>e p. e\<lparr>d_inode := Some (i, p)\<rparr>) entries places, upd_buf i data s)
    \<and> length data = cap \<and> length places = length entries
    \<and> list_dir bs data = Some ([(0, self, [46], EXT4_FT_DIR), (12, parent, [46, 46], EXT4_FT_DIR)] @
        map2 (\<lambda>e p. (p, 0, d_filename e, d_file_type e)) entries places @ [(off, 0, [], EXT4_FT_UNKNOWN)])"
proof -
  have b: "264 < bs" "bs < 65536" "bs mod 4 = 0" using bs by (auto simp: block_size_ok_def)
  obtain ds places where run: "fill_directory (i, 0) (of_nat cap) self parent entries s =
      bind (store_dentry (i, off) 0 (ucast (of_nat cap - of_nat off :: u32)) 0 EXT4_FT_UNKNOWN)
        (\<lambda>_. ret (map2 (\<lambda>e p. e\<lparr>d_inode := Some (i, p)\<rparr>) entries places)) (upd_buf i (row_bytes ds @ replicate (cap - off) 0) s)"
    and row: "row_ok bs 0 ds" "row_len ds = off" "off mod bs \<noteq> 0" "length places = length entries"
    and sum: "summary ds = [(0, self, [46], EXT4_FT_DIR), (12, parent, [46, 46], EXT4_FT_DIR)] @
      map2 (\<lambda>e p. (p, 0, d_filename e, d_file_type e)) entries places"
    by (rule fill_directory_run [OF info bs names mem small eo(1)]) (use eo(2) in simp)
  let ?c = "Dirent 0 (cap - off) [] EXT4_FT_UNKNOWN"
  define r where "r = cap - off"
  have cap: "cap = off + r" and r: "8 \<le> r" "r \<le> bs" using eo(2,3) by (auto simp: r_def)
  have fill: "off mod bs + r = bs" by (rule fill_block) (use blocks cap row(3) r b in auto)
  moreover have "off mod bs mod 4 = 0" using row_len_mod_4 [OF row(1)] row(2) b(3) by (metis mod_mod_cancel mod_0_imp_dvd)
  ultimately have "r mod 4 = 0" using b(3) by (metis dvd_add_right_iff mod_0_imp_dvd dvd_imp_mod_0)
  then have c: "dirent_ok bs off ?c" using fill r b by (simp add: r_def [symmetric])
  have len: "length (row_bytes ds) = off" using length_row [OF row(1)] row(2) by simp
  have u: "ucast (of_nat cap - of_nat off :: u32) = (of_nat (cap - off) :: u16)"
    using r b by (simp add: cap unsigned_of_nat take_bit_nat_eq_self)
  have "store_dentry (i, off) 0 (of_nat (cap - off)) 0 EXT4_FT_UNKNOWN (upd_buf i (row_bytes ds @ replicate (cap - off) 0) s) =
      Inr ((), upd_buf i (row_bytes (ds @ [?c])) s)"
    using store_dentry_run [of "upd_buf i (row_bytes ds @ replicate (cap - off) 0) s" i "row_bytes ds" "cap - off" 0 "of_nat (cap - off)" 0 EXT4_FT_UNKNOWN] eo(2) len
    by simp
  then have "fill_directory (i, 0) (of_nat cap) self parent entries s =
      Inr (map2 (\<lambda>e p. e\<lparr>d_inode := Some (i, p)\<rparr>) entries places, upd_buf i (row_bytes (ds @ [?c])) s)"
    unfolding run u by (subst bind_ok, assumption) (simp add: ret_def)
  moreover have ok: "row_ok bs 0 (ds @ [?c])" using row(1,2) c by (simp add: row_append)
  moreover have "length (row_bytes (ds @ [?c])) = cap" using length_row [OF ok] row(2) eo(2) by simp
  moreover have "list_dir bs (row_bytes (ds @ [?c])) = Some (summary ds @ [(off, 0, [], EXT4_FT_UNKNOWN)])"
    using list_row [OF ok] by (simp only: summary_snoc row(2) dirent.sel)
  ultimately show ?thesis using row(4) unfolding sum
    by (intro exI [of _ places] exI [of _ "row_bytes (ds @ [?c])"]) (simp del: row_bytes_simps)
qed

section \<open>The length \<open>make_directory\<close> computes\<close>

text \<open>No record ends exactly at the end of a block.\<close>

fun no_exact :: "nat \<Rightarrow> nat \<Rightarrow> nat list \<Rightarrow> bool" where
  "no_exact bs off [] \<longleftrightarrow> True"
| "no_exact bs off (n # ns) \<longleftrightarrow> off mod bs + dentry_space n \<noteq> bs \<and>
     no_exact bs ((if off mod bs + dentry_space n < bs then off else off + (bs - off mod bs)) + dentry_space n) ns"

lemma dentry_size_loop_end:
  assumes "block_size_ok bs" "\<forall>e\<in>set entries. length (d_filename e) < 256"
    and "no_exact bs off (map (\<lambda>e. length (d_filename e)) entries)"
    and "dir_end bs off (map (\<lambda>e. length (d_filename e)) entries) < 4294900000"
  shows "dentry_size_loop (of_nat bs) (of_nat off) entries = of_nat (dir_end bs off (map (\<lambda>e. length (d_filename e)) entries))"
  using assms
proof (induction entries arbitrary: off)
  case (Cons e entries)
  define l off1 where "l = dentry_space (length (d_filename e))"
    and "off1 = (if off mod bs + l < bs then off else off + (bs - off mod bs)) + l"
  have b: "264 < bs" "bs < 65536" using Cons.prems(1) by (auto simp: block_size_ok_def)
  have l: "l \<le> 264" using Cons.prems(2) dentry_space_bounds by (simp add: l_def)
  have "off1 < 4294900000" using Cons.prems(4) dir_end_mono [of off1 bs "map (\<lambda>e. length (d_filename e)) entries"]
    by (simp add: off1_def l_def del: if_distrib)
  then have off: "off < 4294900000" by (auto simp: off1_def split: if_splits)
  have m: "off mod bs < bs" using b by simp
  then have small: "off mod bs < 4294967296" and sum: "off mod bs + l < 4294967296" using b l by linarith+
  have u: "unat (of_nat off :: u32) = off" "unat (of_nat bs :: u32) = bs" "unat (of_nat l :: u32) = l"
    using off b l by (simp_all add: unat_of_nat)
  have mod: "(of_nat off mod of_nat bs :: u32) = of_nat (off mod bs)"
    by (simp only: word_eq_unat unat_mod u u32_of_nat [OF small])
  have less: "(of_nat bs :: u32) < of_nat off mod of_nat bs + of_nat l \<longleftrightarrow> bs < off mod bs + l"
    by (simp only: mod of_nat_add [symmetric] word_less_nat_alt u(2) u32_of_nat [OF sum])
  have "(if (of_nat bs :: u32) < of_nat off mod of_nat bs + of_nat l then of_nat off + (of_nat bs - of_nat off mod of_nat bs) else of_nat off) + of_nat l
      = (of_nat off1 :: u32)"
    unfolding less using Cons.prems(3) m by (auto simp: off1_def mod l_def [symmetric])
  then show ?case using Cons.IH [of off1] Cons.prems
    by (simp add: Let_def l_def [symmetric] off1_def [symmetric])
qed simp

lemma dir_end_inside:
  assumes "block_size_ok bs" "\<forall>n\<in>set ns. n < 256" "off mod bs \<noteq> 0" "off mod 4 = 0"
  shows "dir_end bs off ns mod bs \<noteq> 0 \<and> dir_end bs off ns mod 4 = 0"
  using assms
proof (induction ns arbitrary: off)
  case (Cons n ns)
  define off1 where "off1 = (if off mod bs + dentry_space n < bs then off else off + (bs - off mod bs)) + dentry_space n"
  have b: "264 < bs" "bs mod 4 = 0" using Cons.prems(1) by (auto simp: block_size_ok_def)
  have l: "8 \<le> dentry_space n" "dentry_space n \<le> 264" "dentry_space n mod 4 = 0" using dentry_space_bounds [of n] Cons.prems(2) by auto
  have "off = off div bs * bs + off mod bs" "off mod bs < bs" using b by simp_all
  then have "off + (bs - off mod bs) = off div bs * bs + bs" by linarith
  then have pad: "(off + (bs - off mod bs)) mod bs = 0" by simp
  have "off1 mod bs \<noteq> 0"
  proof (cases "off mod bs + dentry_space n < bs")
    case True
    then have "off1 mod bs = off mod bs + dentry_space n" by (simp add: off1_def) (metis mod_add_left_eq mod_less)
    then show ?thesis using l by simp
  next
    case False
    then have "off1 mod bs = dentry_space n mod bs" by (simp add: off1_def) (metis pad mod_add_left_eq add_0)
    then show ?thesis using l b by simp
  qed
  moreover have "(off + (bs - off mod bs)) mod 4 = 0" using pad b(2) by (metis mod_mod_cancel mod_0_imp_dvd mod_0)
  then have "off1 mod 4 = 0" using Cons.prems(4) l(3) by (auto simp: off1_def mod_add_eq [symmetric])
  ultimately show ?case using Cons by (simp add: off1_def)
qed simp

lemma directory_len:
  assumes bs: "block_size_ok bs" and names: "\<forall>e\<in>set entries. length (d_filename e) < 256"
    and off: "dir_end bs 24 (map (\<lambda>e. length (d_filename e)) entries) = off" "off < 4294900000"
    and exact: "no_exact bs 24 (map (\<lambda>e. length (d_filename e)) entries)"
    and len: "len = DIV_ROUND_UP (dentry_size (of_nat bs) entries) (of_nat bs) * of_nat bs"
  shows "unat len mod bs = 0" "off + 4 \<le> unat len" "unat len < off + bs" "off mod bs \<noteq> 0" "off mod 4 = 0" "unat len mod 4 = 0"
    "of_nat (unat len) = len" "unat len < 4294966000"
proof -
  have b: "264 < bs" "bs < 65536" "bs mod 4 = 0" using bs by (auto simp: block_size_ok_def)
  show m: "off mod bs \<noteq> 0" and four: "off mod 4 = 0"
    using dir_end_inside [OF bs, of "map (\<lambda>e. length (d_filename e)) entries" 24] names b off(1) by auto
  have "dentry_size (of_nat bs) entries = of_nat off"
    using dentry_size_loop_end [OF bs names exact] off by (simp add: dentry_size_def)
  moreover have "unat ((of_nat off + of_nat bs :: u32) - 1) = off + bs - 1"
  proof -
    have "(of_nat off + of_nat bs :: u32) - 1 = of_nat (off + bs - 1)" using b by (simp add: of_nat_diff)
    then show ?thesis using off(2) b u32_of_nat [of "off + bs - 1"] by simp
  qed
  ultimately have "unat (DIV_ROUND_UP (dentry_size (of_nat bs) entries) (of_nat bs :: u32)) = (off + bs - 1) div bs"
    using b by (simp add: DIV_ROUND_UP_def unat_div u32_of_nat)
  also have "\<dots> = off div bs + 1" using ceil_div [of bs off] b m by simp
  finally have "of_nat (unat (DIV_ROUND_UP (dentry_size (of_nat bs) entries) (of_nat bs :: u32))) = (of_nat (off div bs + 1) :: u32)"
    by (simp only:)
  then have blocks: "DIV_ROUND_UP (dentry_size (of_nat bs) entries) (of_nat bs :: u32) = of_nat (off div bs + 1)" by simp
  have e: "off = off div bs * bs + off mod bs" and lt: "off mod bs < bs" using b by simp_all
  have up: "off < (off div bs + 1) * bs" "(off div bs + 1) * bs < off + bs"
    unfolding add_mult_distrib mult_1 using e lt m by linarith+
  have "(off div bs + 1) * bs < 4294967296" using up(2) off(2) b by linarith
  then have "unat (of_nat ((off div bs + 1) * bs) :: u32) = (off div bs + 1) * bs" by (rule u32_of_nat)
  then have ul: "unat len = (off div bs + 1) * bs" unfolding len blocks by (simp only: of_nat_mult)
  then show "unat len mod bs = 0" "unat len < off + bs" "unat len < 4294966000" using up off(2) b by auto
  show d: "unat len mod 4 = 0" using ul b(3) by (metis mod_mult_right_eq mult_0_right mod_0)
  have "off < unat len" using up ul by simp
  then show "off + 4 \<le> unat len" using d four by presburger
  show "of_nat (unat len) = len" by simp
qed

text \<open>C7. The data of a directory reads back as a well-formed directory: itself, its parent, the entries in
  their order, each with inode number 0 at the place \<open>d_inode\<close> now points to, and an unused record up to
  the end.  The data has the length \<open>make_directory\<close> computes for it.  No record may end exactly at the
  end of a block, and the entries may not leave just four bytes.\<close>

theorem fill_directory_listed:
  assumes info: "info_block_size (w_info s) = of_nat bs" and bs: "block_size_ok bs"
    and names: "\<forall>e\<in>set entries. length (d_filename e) < 256"
    and off: "dir_end bs 24 (map (\<lambda>e. length (d_filename e)) entries) = off" "off < 4294900000"
    and exact: "no_exact bs 24 (map (\<lambda>e. length (d_filename e)) entries)" "(off + 4) mod bs \<noteq> 0"
    and len: "len = DIV_ROUND_UP (dentry_size (of_nat bs) entries) (of_nat bs) * of_nat bs"
    and mem: "w_mem s i = Some (replicate (unat len) 0)"
  shows "\<exists>places data. fill_directory (i, 0) len self parent entries s =
      Inr (map2 (\<lambda>e p. e\<lparr>d_inode := Some (i, p)\<rparr>) entries places, upd_buf i data s)
    \<and> length data = unat len \<and> length places = length entries
    \<and> list_dir bs data = Some ([(0, self, [46], EXT4_FT_DIR), (12, parent, [46, 46], EXT4_FT_DIR)] @
        map2 (\<lambda>e p. (p, 0, d_filename e, d_file_type e)) entries places @ [(off, 0, [], EXT4_FT_UNKNOWN)])"
proof -
  note l = directory_len [OF bs names off exact(1) len]
  have "unat len \<noteq> off + 4" using l(1) exact(2) by metis
  then have "off + 8 \<le> unat len" using l(2,5,6) by presburger
  then show ?thesis
    using fill_directory_fits [OF info bs names mem l(8,1) off(1), of self parent] l(3) unfolding l(7) by simp
qed

text \<open>When the entries leave just four bytes, the closing record of eight bytes is written past the
  end of the data.\<close>

theorem fill_directory_overruns:
  assumes info: "info_block_size (w_info s) = of_nat bs" and bs: "block_size_ok bs"
    and names: "\<forall>e\<in>set entries. length (d_filename e) < 256"
    and off: "dir_end bs 24 (map (\<lambda>e. length (d_filename e)) entries) = off" "off < 4294900000"
    and exact: "no_exact bs 24 (map (\<lambda>e. length (d_filename e)) entries)" "(off + 4) mod bs = 0"
    and len: "len = DIV_ROUND_UP (dentry_size (of_nat bs) entries) (of_nat bs) * of_nat bs"
    and mem: "w_mem s i = Some (replicate (unat len) 0)"
  shows "fill_directory (i, 0) len self parent entries s = Inl Undefined"
proof -
  note l = directory_len [OF bs names off exact(1) len]
  define r where "r = unat len - (off + 4)"
  have r: "unat len = off + 4 + r" using l(2) by (simp add: r_def)
  then have "r mod bs = 0" using l(1) exact(2) by (metis mod_add_left_eq add_0)
  moreover have "r < bs" using r l(3) by linarith
  ultimately have cap: "off + 4 = unat len" using r by simp
  obtain ds places where run: "fill_directory (i, 0) (of_nat (unat len)) self parent entries s =
      bind (store_dentry (i, off) 0 (ucast (of_nat (unat len) - of_nat off :: u32)) 0 EXT4_FT_UNKNOWN)
        (\<lambda>_. ret (map2 (\<lambda>e p. e\<lparr>d_inode := Some (i, p)\<rparr>) entries places)) (upd_buf i (row_bytes ds @ replicate (unat len - off) 0) s)"
    and row: "row_ok bs 0 ds" "row_len ds = off"
    by (rule fill_directory_run [OF info bs names mem l(8) off(1)]) (use cap in simp)
  have lr: "length (row_bytes ds) = off" using length_row [OF row(1)] row(2) by simp
  have "replicate (unat len - off) 0 = (replicate 4 0 :: u8 list)" using cap by auto
  then show ?thesis using run unfolding l(7) store_dentry_def
    by (simp add: lr store_u32_def store_u16_def store_def ptr_add_def sq_def bind_def fail_def put_bytes_def)
qed

section \<open>Witnesses\<close>

text \<open>Four entries with names of 244 bytes, the last of which needs a second block of 1024 bytes; and four
  that leave four bytes of the first one.\<close>

definition sample_entry :: "nat \<Rightarrow> dentry" where
  "sample_entry n = \<lparr>d_path = [], d_full_path = [], d_filename = replicate n 97, d_link = [], d_size = 0,
     d_file_type = EXT4_FT_REG_FILE, d_mode = 0, d_uid = 0, d_gid = 0, d_inode = None, d_mtime = 0\<rparr>"

definition long_names :: "dentry list" where
  "long_names = [sample_entry 244, sample_entry 244, sample_entry 244, sample_entry 244]"

definition tight_names :: "dentry list" where
  "tight_names = [sample_entry 244, sample_entry 244, sample_entry 244, sample_entry 232]"

definition dir_world :: "nat \<Rightarrow> world" where
  "dir_world cap = small_start\<lparr>w_info := sample_info\<lparr>info_block_size := 1024\<rparr>, w_mem := [0 \<mapsto> replicate cap 0]\<rparr>"

lemma dir_world_facts: "info_block_size (w_info (dir_world cap)) = of_nat 1024" "w_mem (dir_world cap) 0 = Some (replicate cap 0)"
  "block_size_ok 1024"
  by (simp_all add: dir_world_def block_size_ok_def)

theorem fill_directory_listed_witness:
  "\<exists>places data. fill_directory (0, 0) 2048 2 2 long_names (dir_world 2048) =
      Inr (map2 (\<lambda>e p. e\<lparr>d_inode := Some (0, p)\<rparr>) long_names places, upd_buf 0 data (dir_world 2048))
    \<and> length data = 2048 \<and> length places = 4
    \<and> list_dir 1024 data = Some ([(0, 2, [46], EXT4_FT_DIR), (12, 2, [46, 46], EXT4_FT_DIR)] @
        map2 (\<lambda>e p. (p, 0, d_filename e, d_file_type e)) long_names places @ [(1276, 0, [], EXT4_FT_UNKNOWN)])"
proof -
  have "2048 = DIV_ROUND_UP (dentry_size (of_nat 1024) long_names) (of_nat 1024) * (of_nat 1024 :: u32)"
    by (simp add: DIV_ROUND_UP_def dentry_size_def long_names_def sample_entry_def dentry_space_def)
  note len = this
  have names: "\<forall>e\<in>set long_names. length (d_filename e) < 256" by (simp add: long_names_def sample_entry_def)
  have off: "dir_end 1024 24 (map (\<lambda>e. length (d_filename e)) long_names) = 1276" "no_exact 1024 24 (map (\<lambda>e. length (d_filename e)) long_names)"
    by (simp_all add: long_names_def sample_entry_def dentry_space_def)
  have "length long_names = 4" by (simp add: long_names_def)
  then show ?thesis
    using fill_directory_listed [OF dir_world_facts(1,3) names off(1) _ off(2) _ len, of 2048 0 2 2] by (simp add: dir_world_facts)
qed

theorem fill_directory_overruns_witness: "fill_directory (0, 0) 1024 2 2 tight_names (dir_world 1024) = Inl Undefined"
proof -
  have "1024 = DIV_ROUND_UP (dentry_size (of_nat 1024) tight_names) (of_nat 1024) * (of_nat 1024 :: u32)"
    by (simp add: DIV_ROUND_UP_def dentry_size_def tight_names_def sample_entry_def dentry_space_def)
  note len = this
  have names: "\<forall>e\<in>set tight_names. length (d_filename e) < 256" by (simp add: tight_names_def sample_entry_def)
  have off: "dir_end 1024 24 (map (\<lambda>e. length (d_filename e)) tight_names) = 1020" "no_exact 1024 24 (map (\<lambda>e. length (d_filename e)) tight_names)"
    by (simp_all add: tight_names_def sample_entry_def dentry_space_def)
  have "length tight_names = 4" by (simp add: tight_names_def)
  then show ?thesis
    using fill_directory_overruns [OF dir_world_facts(1,3) names off(1) _ off(2) _ len, of 1024 0 2 2] by (simp add: dir_world_facts)
qed

end
