(* ===== verification/Uuencode.thy ===== *)
theory Uuencode
  imports Tool_Monad Getopt
begin

text \<open>
  busybox \<open>uuencode\<close>, \<open>uudecode\<close> and \<open>base64\<close>: \<open>libbb/uuencode.c\<close>, \<open>coreutils/uuencode.c\<close>,
  \<open>coreutils/uudecode.c\<close> and the line reader of \<open>libbb/get_line_from_file.c\<close>.

  The device of the tools is the file system: the umask, the regular files with their permissions, and
  which names can be opened for writing.  A stream that is read is the list of the bytes still to come;
  what read-ahead leaves of standard input is not modelled, nor are read errors.
\<close>

record files =
  fs_umask :: u32
  fs_node :: "u8 list \<Rightarrow> (u32 \<times> u8 list) option"
  fs_writable :: "u8 list \<Rightarrow> bool"

type_synonym 'a bb = "(files, 'a) tool"

section \<open>Streams\<close>

text \<open>\<open>xfopen_stdin\<close>: the bytes of a file, or of standard input for a lone dash.\<close>

definition read_stdin :: "u8 list bb" where
  "read_stdin s = (Inr (io_in s), s\<lparr>io_in := []\<rparr>)"

definition xopen :: "u8 list \<Rightarrow> (u32 \<times> u8 list) bb" where
  "xopen name = and_then (on_dev (\<lambda>fs. (fs_node fs name, fs))) (\<lambda>r. case r of
     None \<Rightarrow> stop_with (Exits 1)
   | Some node \<Rightarrow> give node)"

definition xfopen_stdin :: "u8 list \<Rightarrow> u8 list bb" where
  "xfopen_stdin name = (if name = bytes_of ''-'' then read_stdin else and_then (xopen name) (\<lambda>(mode, data). give data))"

datatype dst = Stdout | Into "u8 list"

text \<open>\<open>xfopen_for_write\<close> and \<open>fchmod\<close>: an empty file with the permissions.\<close>

definition create_file :: "u8 list \<Rightarrow> u32 \<Rightarrow> dst bb" where
  "create_file name mode = and_then (on_dev (\<lambda>fs. (fs_writable fs name, fs))) (\<lambda>ok.
     if \<not> ok then stop_with (Exits 1)
     else before (on_dev (\<lambda>fs. ((), fs\<lparr>fs_node := (fs_node fs)(name \<mapsto> (mode AND 0x1FF, []))\<rparr>))) (give (Into name)))"

fun fwrite :: "dst \<Rightarrow> u8 list \<Rightarrow> unit bb" where
  "fwrite Stdout bs = put_out bs"
| "fwrite (Into name) bs = on_dev (\<lambda>fs. ((), fs\<lparr>fs_node := (fs_node fs)
     (name := map_option (\<lambda>(mode, data). (mode, data @ bs)) (fs_node fs name))\<rparr>))"

text \<open>A line without its newline; a NUL ends it too.  \<open>None\<close> is the end of the file.\<close>

definition xmalloc_fgetline :: "u8 list \<Rightarrow> (u8 list \<times> u8 list) option" where
  "xmalloc_fgetline src =
     (if src = [] then None
      else let line = takeWhile (\<lambda>c. c \<noteq> 0 \<and> c \<noteq> 10) src in Some (line, drop (Suc (length line)) src))"

lemma fgetline_shorter: "xmalloc_fgetline src = Some (line, rest) \<Longrightarrow> length rest < length src"
  by (auto simp: xmalloc_fgetline_def Let_def split: if_splits)

section \<open>Numbers\<close>

definition isalnum :: "u8 \<Rightarrow> bool" where
  "isalnum c \<longleftrightarrow> 48 \<le> c \<and> c \<le> 57 \<or> 65 \<le> c \<and> c \<le> 90 \<or> 97 \<le> c \<and> c \<le> 122"

text \<open>\<open>bb_strtou\<close> for a base without a prefix; errors give all ones.\<close>

definition bb_strtou :: "u8 list \<Rightarrow> nat \<Rightarrow> u32" where
  "bb_strtou arg base =
     (if arg = [] \<or> \<not> isalnum (hd arg) then - 1
      else let v = foldl (\<lambda>v c. base * v + digit_of c) 0 (takeWhile (\<lambda>c. digit_of c < base) arg);
               rest = dropWhile (\<lambda>c. digit_of c < base) arg
        in if 2 ^ 32 \<le> v then - 1
           else if rest \<noteq> [] \<and> isalnum (hd rest) then - 1
           else of_nat v)"

text \<open>\<open>printf("%o")\<close>\<close>

fun octal :: "nat \<Rightarrow> u8 list" where
  "octal n = (if n < 8 then [of_nat (48 + n)] else octal (n div 8) @ [of_nat (48 + n mod 8)])"

declare octal.simps [simp del]

section \<open>Encoding\<close>

definition bb_uuenc_tbl_base64 :: "u8 list" where
  "bb_uuenc_tbl_base64 = bytes_of ''ABCDEFGHIJKLMNOPQRSTUVWXYZabcdefghijklmnopqrstuvwxyz0123456789+/='' @ [0]"

text \<open>From 33 on the characters follow the ASCII table; the backquote stands for 0 and for the padding.\<close>

definition bb_uuenc_tbl_std :: "u8 list" where
  "bb_uuenc_tbl_std = [96] @ map of_nat [33..<96] @ [96]"

text \<open>The loop over groups of three bytes: what is written, and \<open>length\<close> in the end.\<close>

function uuencode_loop :: "u8 list \<Rightarrow> u8 list \<Rightarrow> int \<Rightarrow> u8 list \<Rightarrow> u8 list \<times> int" where
  "uuencode_loop p s len tbl =
     (if 0 < len
      then let len = len - 3;
               s1 = (if - 1 \<le> len then s ! 1 else 0);
               s2 = (if 0 \<le> len then s ! 2 else 0)
        in uuencode_loop
             (p @ [tbl ! unat (drop_bit 2 (s ! 0)),
                   tbl ! unat (push_bit 4 (s ! 0 AND 3) + drop_bit 4 s1),
                   tbl ! unat (push_bit 2 (s1 AND 0xF) + drop_bit 6 s2),
                   tbl ! unat (s2 AND 0x3F)])
             (drop 3 s) len tbl
      else (p, len))"
  by pat_completeness auto
termination by (relation "measure (\<lambda>(p, s, len, tbl). nat len)") (auto simp: Let_def)

declare uuencode_loop.simps [simp del]

definition bb_uuencode :: "u8 list \<Rightarrow> u8 list \<Rightarrow> u8 list" where
  "bb_uuencode src tbl =
     (let (p, len) = uuencode_loop [] src (int (length src)) tbl; pad = nat (- len)
      in take (length p - pad) p @ replicate pad (tbl ! 64))"

section \<open>Decoding base64\<close>

text \<open>\<open>strchr\<close> in the table, as an index.\<close>

fun strchr :: "u8 list \<Rightarrow> u8 \<Rightarrow> nat option" where
  "strchr [] c = None"
| "strchr (t # ts) c = (if t = c then Some 0 else map_option Suc (strchr ts c))"

text \<open>The next valid character: its index and what follows it.\<close>

fun next_valid :: "u8 list \<Rightarrow> (nat \<times> u8 list) option" where
  "next_valid [] = None"
| "next_valid (ch # src) = (case strchr bb_uuenc_tbl_base64 ch of
     None \<Rightarrow> next_valid src
   | Some i \<Rightarrow> Some (i, src))"

lemma next_valid_shorter: "next_valid src = Some (i, rest) \<Longrightarrow> length rest < length src"
  by (induction src) (auto split: option.splits)

text \<open>Up to four six-bit values; \<open>Inl\<close> when the string ends first, with whether none was read.\<close>

function fetch_group :: "u8 list \<Rightarrow> u8 list \<Rightarrow> bool + u8 list \<times> u8 list" where
  "fetch_group six_bit src =
     (if length six_bit < 4
      then (case next_valid src of
        None \<Rightarrow> Inl (six_bit = [])
      | Some (ch, src) \<Rightarrow> if ch = 64 then Inr (six_bit, src) else fetch_group (six_bit @ [of_nat ch]) src)
      else Inr (six_bit, src))"
  by pat_completeness auto
termination
  by (relation "measure (\<lambda>(six, src). length src)") (auto dest: next_valid_shorter)

declare fetch_group.simps [simp del]

text \<open>The bytes of a group.\<close>

definition group_bytes :: "u8 list \<Rightarrow> u8 list" where
  "group_bytes six_bit =
     (if 1 < length six_bit then [push_bit 2 (six_bit ! 0) OR drop_bit 4 (six_bit ! 1)] else [])
     @ (if 2 < length six_bit then [push_bit 4 (six_bit ! 1) OR drop_bit 2 (six_bit ! 2)] else [])
     @ (if 3 < length six_bit then [push_bit 6 (six_bit ! 2) OR six_bit ! 3] else [])"

lemma fetch_group_le: "fetch_group six src = Inr (six', rest) \<Longrightarrow> length rest \<le> length src"
proof (induction six src rule: fetch_group.induct)
  case (1 six src)
  show ?case
  proof (cases "length six < 4")
    case True
    then obtain ch cs where n: "next_valid src = Some (ch, cs)" and r: "fetch_group six src =
        (if ch = 64 then Inr (six, cs) else fetch_group (six @ [of_nat ch]) cs)"
      using 1(2) by (subst (asm) fetch_group.simps) (auto simp: fetch_group.simps [of six] split: option.splits)
    show ?thesis
      using r 1(2) 1(1) [OF True n refl] next_valid_shorter [OF n] by (auto split: if_splits)
  next
    case False
    then show ?thesis using 1(2) by (simp add: fetch_group.simps [of six])
  qed
qed

lemma fetch_group_shorter:
  "fetch_group six src = Inr (six', rest) \<Longrightarrow> length six < 4 \<Longrightarrow> length rest < length src"
  by (subst (asm) fetch_group.simps)
    (auto split: option.splits if_splits dest!: next_valid_shorter fetch_group_le)

text \<open>What has been decoded and the undecoded tail.\<close>

function decode_base64 :: "u8 list \<Rightarrow> u8 list \<Rightarrow> u8 list \<times> u8 list" where
  "decode_base64 dst src = (case fetch_group [] src of
     Inl none_read \<Rightarrow> (dst, if none_read then [] else src)
   | Inr (six_bit, rest) \<Rightarrow> decode_base64 (dst @ group_bytes six_bit) rest)"
  by pat_completeness auto
termination
  by (relation "measure (\<lambda>(dst, src). length src)") (auto dest: fetch_group_shorter)

declare decode_base64.simps [simp del]

section \<open>The stream of base64 lines\<close>

text \<open>\<open>exit_char\<close> is the low byte of the flags, sign-extended; \<open>-1\<close> is \<open>EOF\<close>.  \<open>base64 -d\<close> passes
  \<open>(char)EOF\<close>, which is 255: \<open>Makefile.flags\<close> makes \<open>char\<close> unsigned.\<close>

definition exit_char :: "int \<Rightarrow> int" where
  "exit_char flags = sint (word_of_int flags :: u8)"

definition uu_style_end :: "int \<Rightarrow> bool" where
  "uu_style_end flags \<longleftrightarrow> flags AND 0x100 \<noteq> 0"

text \<open>Filling the buffer up to 64 characters: \<open>None\<close> is the return on the stop character, otherwise the rest
  of the stream, the buffer and \<open>term_seen\<close>.\<close>

fun fill_buf :: "int \<Rightarrow> u8 list \<Rightarrow> u8 list \<Rightarrow> (u8 list \<times> u8 list \<times> bool) option" where
  "fill_buf stop [] buf =
     (if \<not> length buf < 64 then Some ([], buf, False)
      else if stop = - 1 \<and> buf = [] then None
      else Some ([], buf, True))"
| "fill_buf stop (ch # src) buf =
     (if \<not> length buf < 64 then Some (ch # src, buf, False)
      else if int (unat ch) = stop then (if buf = [] then None else Some (src, buf, True))
      else if ch \<le> 32 then Some (src, buf, False)
      else fill_buf stop src (buf @ [ch]))"

text \<open>One iteration of the outer loop on the stream and the undecoded part of the buffer; \<open>Inl\<close> is the
  return.\<close>

definition read_base64_step :: "dst \<Rightarrow> int \<Rightarrow> u8 list \<times> u8 list \<Rightarrow> (unit + u8 list \<times> u8 list) bb" where
  "read_base64_step dst flags = (\<lambda>(src, buf). case fill_buf (exit_char flags) src buf of
     None \<Rightarrow> give (Inl ())
   | Some (src, buf, term_seen) \<Rightarrow>
       if uu_style_end flags \<and> buf = bytes_of ''===='' then give (Inl ())
       else (case decode_base64 [] buf of (out, in_tail) \<Rightarrow>
         before (fwrite dst out)
           (if term_seen then (if in_tail = [] then give (Inl ()) else stop_with (Exits 1))
            else give (Inr (src, in_tail)))))"

definition read_base64 :: "nat \<Rightarrow> u8 list \<Rightarrow> dst \<Rightarrow> int \<Rightarrow> unit bb" where
  "read_base64 fuel src dst flags = repeat fuel (read_base64_step dst flags) (src, [])"

section \<open>The lines of uuencode\<close>

text \<open>The characters of a line, and the loop over groups of four, on what \<open>line_ptr\<close> points to.  The bytes
  are written over the beginning of the line, always behind what is still to be read.\<close>

definition uu_values :: "u8 list \<Rightarrow> u8 list" where
  "uu_values line = map (\<lambda>c. (c - 0x20) AND 0x3F) line"

fun uu_groups :: "u8 list \<Rightarrow> nat \<Rightarrow> u8 list" where
  "uu_groups p encoded_len =
     (push_bit 2 (p ! 0) OR drop_bit 4 (p ! 1)) #
     (if encoded_len - 1 = 0 then []
      else (push_bit 4 (p ! 1) OR drop_bit 2 (p ! 2)) #
       (if encoded_len - 2 = 0 then []
        else (push_bit 6 (p ! 2) OR p ! 3) #
         (if 4 < encoded_len then uu_groups (drop 4 p) (encoded_len - 4) else [])))"

declare uu_groups.simps [simp del]

function read_stduu :: "u8 list \<Rightarrow> dst \<Rightarrow> unit bb" where
  "read_stduu src dst = (case xmalloc_fgetline src of
     None \<Rightarrow> stop_with (Exits 1)
   | Some (line, rest) \<Rightarrow>
       if line = bytes_of ''end'' then give ()
       else
         let values = uu_values line @ [0];
             str_len = length line;
             encoded_len = unat (values ! 0) * 4 div 3
         in if str_len \<le> encoded_len then stop_with (Exits 1)
            else if encoded_len = 0 then read_stduu rest dst
            else if 60 < encoded_len then stop_with (Exits 1)
            else before (fwrite dst (uu_groups (tl values) encoded_len)) (read_stduu rest dst))"
  by pat_completeness auto
termination
  by (relation "measure (\<lambda>(src, dst). length src)") (auto dest: fgetline_shorter)

declare read_stduu.simps [simp del]

section \<open>The programs\<close>

text \<open>The lines of the encoder, \<open>n\<close> bytes each: \<open>uuencode\<close> puts a newline and, in its own format, the length
  before a line, \<open>base64\<close> a newline behind it.\<close>

function encode_lines :: "nat \<Rightarrow> (u8 list \<Rightarrow> u8 list) \<Rightarrow> u8 list \<Rightarrow> unit bb" where
  "encode_lines n show_line data =
     (if data = [] \<or> n = 0 then give ()
      else before (put_out (show_line (take n data))) (encode_lines n show_line (drop n data)))"
  by pat_completeness auto
termination by (relation "measure (\<lambda>(n, f, data). length data)") auto

declare encode_lines.simps [simp del]

definition uuencode_line :: "u8 list \<Rightarrow> u8 list \<Rightarrow> u8 list" where
  "uuencode_line tbl buf =
     [10] @ (if tbl = bb_uuenc_tbl_std then [tbl ! length buf] else [])
     @ take (4 * ((length buf + 2) div 3)) (bb_uuencode buf tbl)"

definition base64_line :: "u8 list \<Rightarrow> u8 list" where
  "base64_line buf = take (4 * ((length buf + 2) div 3)) (bb_uuencode buf bb_uuenc_tbl_base64) @ [10]"

definition uuencode_main :: "u8 list list \<Rightarrow> int bb" where
  "uuencode_main args = and_then (on_dev (\<lambda>fs. (fs_umask fs, fs\<lparr>fs_umask := 0x1B6\<rparr>))) (\<lambda>mask.
     let mode = 0x1B6 AND NOT mask;
         (evs, operands) = getopt [] (bytes_of ''m'') args
     in if Opt_Bad \<in> set evs \<or> length operands < 1 \<or> 2 < length operands then stop_with (Exits 1)
        else
          let tbl = (if evs \<noteq> [] then bb_uuenc_tbl_base64 else bb_uuenc_tbl_std)
          in and_then (if length operands = 2
               then and_then (xopen (operands ! 0)) (\<lambda>(st_mode, data). give (st_mode AND 0x1FF, data, operands ! 1))
               else and_then read_stdin (\<lambda>data. give (mode, data, operands ! 0)))
             (\<lambda>(mode, data, name).
              before (put_out (bytes_of ''begin'' @ (if tbl = bb_uuenc_tbl_std then [] else bytes_of ''-base64'')
                @ [32] @ octal (unat mode) @ [32] @ name))
              (before (encode_lines 45 (uuencode_line tbl) data)
              (before (put_out (if tbl = bb_uuenc_tbl_std then [10, 96, 10] @ bytes_of ''end'' @ [10]
                 else [10] @ bytes_of ''===='' @ [10]))
              (stop_with (Exits 0))))))"

text \<open>The name after the first space, unless \<open>-o\<close> gave one.\<close>

definition uu_name :: "u8 list \<Rightarrow> u8 list option" where
  "uu_name line_ptr =
     (let rest = dropWhile (\<lambda>c. c \<noteq> 32) line_ptr in if length rest < 2 then None else Some (tl rest))"

definition BASE64_FLAG_UU_STOP :: int where "BASE64_FLAG_UU_STOP = 0x100"
definition BASE64_FLAG_NO_STOP_CHAR :: int where "BASE64_FLAG_NO_STOP_CHAR = 0x80"

text \<open>The search for the begin line, and decoding from there.\<close>

function uudecode_stream :: "nat \<Rightarrow> u8 list option \<Rightarrow> u8 list \<Rightarrow> int bb" where
  "uudecode_stream fuel outname src = (case xmalloc_fgetline src of
     None \<Rightarrow> stop_with (Exits 1)
   | Some (line, rest) \<Rightarrow>
       let base64 = (take 13 line = bytes_of ''begin-base64 '');
           line_ptr = (if base64 then drop 13 line else drop 6 line)
       in if \<not> base64 \<and> take 6 line \<noteq> bytes_of ''begin '' then uudecode_stream fuel outname rest
          else
            let mode = bb_strtou line_ptr 8
            in (case (case outname of Some name \<Rightarrow> Some name | None \<Rightarrow> uu_name line_ptr) of
              None \<Rightarrow> stop_with (Exits 1)
            | Some name \<Rightarrow>
                and_then (if name \<noteq> bytes_of ''-'' then create_file name mode else give Stdout) (\<lambda>dst.
                before (if base64 then read_base64 fuel rest dst (BASE64_FLAG_UU_STOP + BASE64_FLAG_NO_STOP_CHAR)
                        else read_stduu rest dst)
                (give 0))))"
  by pat_completeness auto
termination
  by (relation "measure (\<lambda>(fuel, name, src). length src)") (auto dest: fgetline_shorter)

declare uudecode_stream.simps [simp del]

definition opt_args :: "u8 \<Rightarrow> opt_event list \<Rightarrow> u8 list list" where
  "opt_args c evs = concat (map (\<lambda>ev. case ev of Opt d arg \<Rightarrow> if d = c then [arg] else [] | Opt_Bad \<Rightarrow> []) evs)"

definition uudecode_main :: "nat \<Rightarrow> u8 list list \<Rightarrow> int bb" where
  "uudecode_main fuel args =
     (let (evs, operands) = getopt (bytes_of ''o'') [] args;
          outnames = opt_args 111 evs
      in if Opt_Bad \<in> set evs \<or> 1 < length operands then stop_with (Exits 1)
         else and_then (xfopen_stdin (if operands = [] then bytes_of ''-'' else operands ! 0))
           (uudecode_stream fuel (if outnames = [] then None else Some (last outnames))))"

definition base64_main :: "nat \<Rightarrow> u8 list list \<Rightarrow> int bb" where
  "base64_main fuel args =
     (let (evs, operands) = getopt [] (bytes_of ''d'') args
      in if Opt_Bad \<in> set evs \<or> 1 < length operands then stop_with (Exits 1)
         else and_then (xfopen_stdin (if operands = [] then bytes_of ''-'' else operands ! 0)) (\<lambda>src.
           before (if evs \<noteq> [] then read_base64 fuel src Stdout 255 else encode_lines 57 base64_line src)
           (stop_with (Exits 0))))"

end
