(* ===== verification/Uuencode_Correct.thy ===== *)
theory Uuencode_Correct
  imports Uuencode
begin

text \<open>
  The encoders and decoders of \<open>Uuencode\<close>: what is encoded is decoded, for both formats and over the
  lines of the programs; when reading base64 ends.
\<close>

section \<open>Groups\<close>

text \<open>Four sextets of three bytes, and the code of a list: the padding replaces the last one or two
  characters.\<close>

definition sextets :: "u8 \<Rightarrow> u8 \<Rightarrow> u8 \<Rightarrow> u8 list" where
  "sextets a b c = [drop_bit 2 a, push_bit 4 (a AND 3) + drop_bit 4 b, push_bit 2 (b AND 0xF) + drop_bit 6 c, c AND 0x3F]"

fun code :: "u8 list \<Rightarrow> u8 list \<Rightarrow> u8 list" where
  "code tbl [] = []"
| "code tbl [a] = map (\<lambda>x. tbl ! unat x) (take 2 (sextets a 0 0)) @ [tbl ! 64, tbl ! 64]"
| "code tbl [a, b] = map (\<lambda>x. tbl ! unat x) (take 3 (sextets a b 0)) @ [tbl ! 64]"
| "code tbl (a # b # c # s) = map (\<lambda>x. tbl ! unat x) (sextets a b c) @ code tbl s"

lemma mask_lits: "(3 :: u8) = mask 2" "(0xF :: u8) = mask 4" "(0x3F :: u8) = mask 6"
  by (simp_all add: mask_eq_exp_minus_1)

lemma plus_as_or:
  "push_bit 4 (a AND 3) + drop_bit 4 b = push_bit 4 (a AND 3) OR drop_bit 4 (b :: u8)"
  "push_bit 2 (b AND 0xF) + drop_bit 6 c = push_bit 2 (b AND 0xF) OR drop_bit 6 (c :: u8)"
  by (rule disjunctive_add, auto simp: mask_lits bit_simps)+

lemma sextets_or:
  "sextets a b c = [drop_bit 2 a, push_bit 4 (a AND mask 2) OR drop_bit 4 b, push_bit 2 (b AND mask 4) OR drop_bit 6 c, c AND mask 6]"
  by (simp only: sextets_def plus_as_or) (simp only: mask_lits)

lemma unat_less_64: "\<not> bit (x :: u8) 6 \<Longrightarrow> \<not> bit x 7 \<Longrightarrow> unat x < 64"
proof -
  assume "\<not> bit x 6" "\<not> bit x 7"
  then have "x = x AND mask 6" by (intro bit_word_eqI) (auto simp: bit_simps less_Suc_eq eval_nat_numeral)
  then have "unat x = unat x mod 2 ^ 6" by (metis unat_and_mask)
  then show ?thesis by simp
qed

lemma sextets_small: "x \<in> set (sextets a b c) \<Longrightarrow> unat x < 64"
  by (rule unat_less_64) (auto simp: sextets_or bit_simps)

lemma Suc_Suc_diff_2: "2 \<le> n \<Longrightarrow> Suc (Suc (n - 2)) = n"
  by simp

lemma group_sextets:
  "group_bytes (sextets a b c) = [a, b, c]"
  "group_bytes (take 3 (sextets a b 0)) = [a, b]"
  "group_bytes (take 2 (sextets a 0 0)) = [a]"
  by (auto simp: group_bytes_def sextets_or bit_simps Suc_Suc_diff_2 intro!: bit_word_eqI)


section \<open>The encoder\<close>

text \<open>Before the padding: the missing bytes count as zeros.\<close>

fun raw :: "u8 list \<Rightarrow> u8 list \<Rightarrow> u8 list" where
  "raw tbl [] = []"
| "raw tbl [a] = map (\<lambda>x. tbl ! unat x) (sextets a 0 0)"
| "raw tbl [a, b] = map (\<lambda>x. tbl ! unat x) (sextets a b 0)"
| "raw tbl (a # b # c # s) = map (\<lambda>x. tbl ! unat x) (sextets a b c) @ raw tbl s"

fun pads :: "u8 list \<Rightarrow> nat" where
  "pads [] = 0"
| "pads [a] = 2"
| "pads [a, b] = 1"
| "pads (a # b # c # s) = pads s"

lemma uuencode_loop_raw: "uuencode_loop p s (int (length s)) tbl = (p @ raw tbl s, - int (pads s))"
proof (induction s arbitrary: p rule: pads.induct)
  case (4 a b c s)
  show ?case
    by (subst uuencode_loop.simps) (simp add: Let_def sextets_def 4 [simplified])
qed (subst uuencode_loop.simps; simp add: Let_def sextets_def uuencode_loop.simps)+

lemma length_sextets [simp]: "length (sextets a b c) = 4"
  by (simp add: sextets_def)

lemma raw_code: "take (length (raw tbl s) - pads s) (raw tbl s) @ replicate (pads s) (tbl ! 64) = code tbl s"
proof (induction s rule: pads.induct)
  case (4 a b c s)
  have "pads s \<le> length (raw tbl s)" by (induction s rule: pads.induct) auto
  then show ?case using 4 by simp
qed (simp_all add: take_map numeral_2_eq_2)

theorem bb_uuencode_code: "bb_uuencode s tbl = code tbl s"
  by (simp add: bb_uuencode_def uuencode_loop_raw Let_def raw_code)

lemma length_code: "length (code tbl s) = 4 * ((length s + 2) div 3)"
proof (induction s rule: pads.induct)
  case (4 a b c s)
  have "(length (a # b # c # s) + 2) div 3 = (length s + 2) div 3 + 1" by simp
  then show ?case using 4 by simp
qed simp_all

lemma code_append: "length xs mod 3 = 0 \<Longrightarrow> code tbl (xs @ ys) = code tbl xs @ code tbl ys"
  by (induction xs rule: pads.induct) (auto simp: mod_Suc split: if_splits)

section \<open>Decoding base64\<close>

abbreviation "b64 \<equiv> bb_uuenc_tbl_base64"

lemma strchr_b64: "i < 65 \<Longrightarrow> strchr b64 (b64 ! i) = Some i"
proof -
  have "list_all (\<lambda>i. strchr b64 (b64 ! i) = Some i) [0..<65]" by code_simp
  then show "i < 65 \<Longrightarrow> strchr b64 (b64 ! i) = Some i" by (simp add: list_all_iff)
qed

lemma b64_above: "i < 65 \<Longrightarrow> 32 < b64 ! i"
proof -
  have "list_all (\<lambda>i. 32 < b64 ! i) [0..<65]" by code_simp
  then show "i < 65 \<Longrightarrow> 32 < b64 ! i" by (simp add: list_all_iff)
qed

lemma fetch_values:
  "\<forall>x\<in>set xs. unat x < 64 \<Longrightarrow> length six + length xs \<le> 4 \<Longrightarrow>
   fetch_group six (map (\<lambda>x. b64 ! unat x) xs @ rest) = fetch_group (six @ xs) rest"
proof (induction xs arbitrary: six)
  case (Cons x xs)
  then have "next_valid (b64 ! unat x # map (\<lambda>x. b64 ! unat x) xs @ rest) = Some (unat x, map (\<lambda>x. b64 ! unat x) xs @ rest)"
    by (simp add: strchr_b64)
  then have "fetch_group six (b64 ! unat x # map (\<lambda>x. b64 ! unat x) xs @ rest) =
      fetch_group (six @ [x]) (map (\<lambda>x. b64 ! unat x) xs @ rest)"
    using Cons.prems by (subst fetch_group.simps) simp
  then show ?case using Cons.IH [of "six @ [x]"] Cons.prems by simp
qed simp

lemma fetch_pad: "length six < 4 \<Longrightarrow> fetch_group six (b64 ! 64 # rest) = Inr (six, rest)"
  by (subst fetch_group.simps) (simp add: strchr_b64)

lemma decode_end [simp]: "decode_base64 dst [] = (dst, [])"
  by (simp add: decode_base64.simps fetch_group.simps)

lemma decode_pad: "decode_base64 dst [b64 ! 64] = (dst, [])"
  by (subst decode_base64.simps) (simp add: fetch_pad group_bytes_def)

lemma decode_code_or: "decode_base64 dst (code b64 s @ rest) = decode_base64 (dst @ s) rest \<or> rest \<noteq> [] \<and> length s mod 3 \<noteq> 0"
proof (induction s arbitrary: dst rule: pads.induct)
  case (4 a b c s)
  have "fetch_group [] (code b64 (a # b # c # s) @ rest) = Inr (sextets a b c, code b64 s @ rest)"
    using fetch_values [of "sextets a b c" "[]" "code b64 s @ rest"] by (simp add: sextets_small fetch_group.simps [of "sextets a b c"])
  then have "decode_base64 dst (code b64 (a # b # c # s) @ rest) = decode_base64 (dst @ [a, b, c]) (code b64 s @ rest)"
    by (subst decode_base64.simps) (simp add: group_sextets)
  then show ?case using 4 [of "dst @ [a, b, c]"] by (auto simp: mod_Suc)
next
  case (2 a)
  have "fetch_group [] (code b64 [a] @ []) = Inr (take 2 (sextets a 0 0), [b64 ! 64])"
    using fetch_values [of "take 2 (sextets a 0 0)" "[]" "[b64 ! 64, b64 ! 64]"]
    by (auto simp: fetch_pad dest!: in_set_takeD intro: sextets_small)
  then show ?case by (cases "rest = []") (simp_all add: decode_base64.simps [of dst] group_sextets decode_pad)
next
  case (3 a b)
  have "fetch_group [] (code b64 [a, b] @ []) = Inr (take 3 (sextets a b 0), [])"
    using fetch_values [of "take 3 (sextets a b 0)" "[]" "[b64 ! 64]"]
    by (auto simp: fetch_pad dest!: in_set_takeD intro: sextets_small)
  then show ?case by (cases "rest = []") (simp_all add: decode_base64.simps [of dst] group_sextets)
qed simp


lemma decode_code: "decode_base64 dst (code b64 s) = (dst @ s, [])"
  using decode_code_or [of dst s "[]"] by simp

lemma code_above: "c \<in> set (code b64 s) \<Longrightarrow> 32 < c"
  by (induction s rule: pads.induct) (auto simp: b64_above sextets_small dest!: in_set_takeD intro!: b64_above order.strict_trans [OF sextets_small])

section \<open>The buffer\<close>

lemma fill_buf_chars:
  "\<forall>c\<in>set xs. 32 < c \<and> int (unat c) \<noteq> stop \<Longrightarrow> length buf + length xs \<le> 64 \<Longrightarrow>
   fill_buf stop (xs @ src) buf = fill_buf stop src (buf @ xs)"
proof (induction xs arbitrary: buf)
  case (Cons c xs)
  then have "\<not> c \<le> 32" by (simp add: not_le)
  then show ?case using Cons.IH [of "buf @ [c]"] Cons.prems by simp
qed simp

text \<open>Writing to a stream, as a function of the state.\<close>

definition written :: "dst \<Rightarrow> u8 list \<Rightarrow> files io \<Rightarrow> files io" where
  "written dst bs s = snd (fwrite dst bs s)"

lemma fwrite_run [tool_simps]: "fwrite dst bs s = (Inr (), written dst bs s)"
  by (cases dst) (simp_all add: written_def tool_simps)

lemma written_run [tool_simps]: "and_then (fwrite dst bs) f s = f () (written dst bs s)"
  by (simp add: and_then_def fwrite_run)

lemma fwrite_append: "written dst b (written dst a s) = written dst (a @ b) s"
proof (cases dst)
  case (Into name)
  then show ?thesis
    by (cases "fs_node (io_dev s) name") (auto simp: written_def tool_simps)
qed (simp add: written_def tool_simps)

lemma written_nil [simp]: "written dst [] s = s"
proof (cases dst)
  case (Into name)
  have "(fs_node (io_dev s)) (name := fs_node (io_dev s) name) = fs_node (io_dev s)" by simp
  then show ?thesis using Into
    by (cases "fs_node (io_dev s) name") (simp_all add: written_def tool_simps)
qed (simp add: written_def tool_simps)


section \<open>Reading the lines of the encoder\<close>

lemma code_not_end: "code b64 b \<noteq> bytes_of ''===='' "
proof -
  have e: "bytes_of ''===='' = [b64 ! 64, b64 ! 64, b64 ! 64, b64 ! 64]" by code_simp
  have "b64 ! unat (drop_bit 2 a) \<noteq> b64 ! 64" for a :: u8
  proof -
    have "unat (drop_bit 2 a) < 64" using sextets_small [of "drop_bit 2 a" a 0 0] by (simp add: sextets_def)
    then show ?thesis using strchr_b64 [of 64] strchr_b64 [of "unat (drop_bit 2 a)"] by force
  qed
  then show ?thesis unfolding e by (cases b rule: pads.cases) (auto simp: sextets_def numeral_2_eq_2 numeral_3_eq_3)
qed

text \<open>\<open>stream_step\<close> is the step of \<open>read_base64\<close> for a stop character that no byte has.\<close>

lemma fill_line:
  assumes "exit_char flags < 0" "length xs \<le> 64" "\<forall>c\<in>set xs. 32 < c"
  shows "length xs < 64 \<Longrightarrow> fill_buf (exit_char flags) (xs @ 10 # src) [] = Some (src, xs, False)"
    and "length xs = 64 \<Longrightarrow> fill_buf (exit_char flags) (xs @ src) [] = Some (src, xs, False)"
proof -
  have ne: "int (unat (c :: u8)) \<noteq> exit_char flags" for c using assms(1) by linarith
  then have "fill_buf (exit_char flags) (xs @ r) [] = fill_buf (exit_char flags) r xs" for r
    using fill_buf_chars [of xs "exit_char flags" "[]" r] assms(2,3) by simp
  then show "length xs < 64 \<Longrightarrow> fill_buf (exit_char flags) (xs @ 10 # src) [] = Some (src, xs, False)"
    and "length xs = 64 \<Longrightarrow> fill_buf (exit_char flags) (xs @ src) [] = Some (src, xs, False)"
    using ne [of 10] by (simp_all only:) (simp, cases src, simp_all del: append_Nil2)
qed

lemma line_step:
  assumes "exit_char flags < 0" "length (code b64 b) < 64"
  shows "read_base64_step dst flags (code b64 b @ 10 # src, []) s = (Inr (Inr (src, [])), written dst b s)"
  using fill_line(1) [of flags "code b64 b" src] assms
  by (simp add: read_base64_step_def code_above code_not_end decode_code tool_simps)

lemma buffer_step:
  assumes "exit_char flags < 0" "length (code b64 b) = 64"
  shows "read_base64_step dst flags (code b64 b @ src, []) s = (Inr (Inr (src, [])), written dst b s)"
  using fill_line(2) [of flags "code b64 b" src] assms
  by (simp add: read_base64_step_def code_above code_not_end decode_code tool_simps)

lemma repeat_Suc [tool_simps]:
  "step x s = (Inr (Inr y), t) \<Longrightarrow> repeat (Suc n) step x s = repeat n step y t"
  "step x s = (Inr (Inl r), t) \<Longrightarrow> repeat (Suc n) step x s = (Inr r, t)"
  "step x s = (Inl e, t) \<Longrightarrow> repeat (Suc n) step x s = (Inl e, t)"
  by (simp_all add: and_then_def give_def)

text \<open>A line of at most 57 bytes takes one or two steps.\<close>

definition line_fuel :: "u8 list \<Rightarrow> nat" where
  "line_fuel b = (if length (code b64 b) < 64 then 1 else 2)"

lemma line_steps:
  assumes "exit_char flags < 0" "length b \<le> 57"
  shows "repeat (line_fuel b + n) (read_base64_step dst flags) (code b64 b @ 10 # src, []) s =
    repeat n (read_base64_step dst flags) (src, []) (written dst b s)"
proof (cases "length (code b64 b) < 64")
  case True
  then show ?thesis using assms(1) by (simp add: line_fuel_def repeat_Suc(1) line_step del: repeat.simps)
next
  case False
  then have 46: "46 \<le> length b" by (simp add: length_code)
  have b: "code b64 b = code b64 (take 48 b) @ code b64 (drop 48 b)"
  proof (cases "48 \<le> length b")
    case True
    then show ?thesis using code_append [of "take 48 b" b64 "drop 48 b"] by simp
  qed simp
  have "length (code b64 (take 48 b)) = 64" using 46 by (auto simp: length_code min_def)
  moreover have "(length b - 48 + 2) div 3 \<le> 3" using assms(2) by simp
  then have "length (code b64 (drop 48 b)) < 64" by (simp add: length_code)
  ultimately show ?thesis using False assms(1)
    by (simp add: b line_fuel_def repeat_Suc(1) buffer_step line_step fwrite_append del: repeat.simps)
qed

lemma lines_steps:
  assumes "exit_char flags < 0" "\<forall>b\<in>set bs. length b \<le> 57"
  shows "repeat (sum_list (map line_fuel bs) + n) (read_base64_step dst flags) (concat (map (\<lambda>b. code b64 b @ [10]) bs) @ src, []) s =
    repeat n (read_base64_step dst flags) (src, []) (written dst (concat bs) s)"
  using assms(2)
proof (induction bs arbitrary: s)
  case (Cons b bs)
  then show ?case using line_steps [OF assms(1), of b "sum_list (map line_fuel bs) + n" dst "concat (map (\<lambda>b. code b64 b @ [10]) bs) @ src" s]
    by (simp add: add.assoc fwrite_append)
qed simp

text \<open>More fuel than needed does not change a result.\<close>

lemma repeat_more: "fst (repeat n step x s) \<noteq> Inl Hangs \<Longrightarrow> repeat (n + k) step x s = repeat n step x s"
proof (induction n arbitrary: x s)
  case 0
  then show ?case by (simp add: stop_with_def)
next
  case (Suc n)
  then show ?case by (auto simp: and_then_def give_def split: prod.splits sum.splits)
qed

lemma repeat_le: "n \<le> m \<Longrightarrow> fst (repeat n step x s) \<noteq> Inl Hangs \<Longrightarrow> repeat m step x s = repeat n step x s"
  using repeat_more [of n step x s "m - n"] by simp

section \<open>The chunks of the encoder\<close>

function chunks :: "nat \<Rightarrow> u8 list \<Rightarrow> u8 list list" where
  "chunks n xs = (if xs = [] \<or> n = 0 then [] else take n xs # chunks n (drop n xs))"
  by pat_completeness auto
termination by (relation "measure (\<lambda>(n, xs). length xs)") auto

declare chunks.simps [simp del]

lemma chunks_facts:
  assumes "0 < n"
  shows "concat (chunks n xs) = xs" "\<forall>b\<in>set (chunks n xs). b \<noteq> [] \<and> length b \<le> n" "length (chunks n xs) \<le> length xs"
  using assms
proof (induction n xs rule: chunks.induct)
  case (1 n xs)
  {
    case 1
    then show ?case using "1.IH"(1) by (subst chunks.simps) auto
  next
    case 2
    then show ?case using "1.IH"(2) by (subst chunks.simps) auto
  next
    case 3
    then show ?case using "1.IH"(3) by (cases "xs = []"; subst chunks.simps) (auto simp: Suc_le_eq intro: le_less_trans)
  }
qed

lemma encode_lines_run:
  "0 < n \<Longrightarrow> encode_lines n f data s = (Inr (), s\<lparr>io_out := io_out s @ concat (map f (chunks n data))\<rparr>)"
proof (induction n f data arbitrary: s rule: encode_lines.induct)
  case (1 n f data)
  show ?case
  proof (cases "data = []")
    case True
    then show ?thesis by (simp add: encode_lines.simps chunks.simps tool_simps)
  next
    case False
    then show ?thesis using 1
      by (simp add: encode_lines.simps [of n f data] chunks.simps [of n data] tool_simps)
  qed
qed

lemma line_fuel_sum: "sum_list (map line_fuel (chunks n data)) \<le> 2 * length data" if "0 < n"
proof -
  have "sum_list (map line_fuel bs) \<le> 2 * length bs" for bs by (induction bs) (auto simp: line_fuel_def)
  then show ?thesis using chunks_facts(3) [OF that, of data] by (meson le_trans mult_le_mono2)
qed

section \<open>base64\<close>

lemma base64_line: "base64_line = (\<lambda>b. code b64 b @ [10])"
  by (simp add: base64_line_def bb_uuencode_code length_code fun_eq_iff)

lemma base64_lines_read:
  assumes "2 * length data < fuel"
  shows "read_base64 fuel (concat (map base64_line (chunks 57 data))) Stdout 255 s = (Inr (), s\<lparr>io_out := io_out s @ data\<rparr>)"
proof -
  let ?bs = "chunks 57 data" and ?step = "read_base64_step Stdout 255"
  have stop: "exit_char 255 = - 1" by (simp add: exit_char_def)
  define n where "n = sum_list (map line_fuel ?bs)"
  have n: "Suc n \<le> fuel" using line_fuel_sum [of 57 data] assms by (simp add: n_def)
  have "\<forall>b\<in>set ?bs. length b \<le> 57" "concat ?bs = data" using chunks_facts [of 57 data] by simp_all
  then have "repeat (n + 1) ?step (concat (map (\<lambda>b. code b64 b @ [10]) ?bs) @ [], []) s = repeat 1 ?step ([], []) (written Stdout data s)"
    using lines_steps [of 255 ?bs 1 Stdout "[]" s] stop by (simp add: n_def del: repeat.simps)
  also have "\<dots> = (Inr (), written Stdout data s)"
    by (simp add: read_base64_step_def stop and_then_def give_def)
  finally have "repeat (Suc n) ?step (concat (map base64_line ?bs), []) s = (Inr (), written Stdout data s)"
    by (simp add: base64_line del: repeat.simps)
  then show ?thesis
    using repeat_le [OF n, of ?step "(concat (map base64_line ?bs), [])" s] by (simp add: read_base64_def written_def tool_simps)
qed

text \<open>C31. What \<open>base64\<close> encodes, \<open>base64 -d\<close> decodes: the output of the first run, given to the second as
  its input, comes out as the original bytes.\<close>

theorem base64_round_trip:
  assumes "io_in s = data" and "2 * length data < fuel"
    and "io_in t = drop (length (io_out s)) (io_out (snd (base64_main 0 [] s)))"
  shows "fst (base64_main 0 [] s) = Inl (Exits 0) \<and>
    base64_main fuel [bytes_of ''-d''] t = (Inl (Exits 0), t\<lparr>io_in := [], io_out := io_out t @ data\<rparr>)"
proof -
  have run: "base64_main 0 [] s = (Inl (Exits 0), s\<lparr>io_in := [], io_out := io_out s @ concat (map base64_line (chunks 57 data))\<rparr>)"
    by (simp add: base64_main_def xfopen_stdin_def read_stdin_def and_then_def before_def encode_lines_run stop_with_def assms(1))
  have opt: "getopt [] (bytes_of ''d'') [bytes_of ''-d''] = ([Opt 100 []], [])" by code_simp
  have inp: "io_in t = concat (map base64_line (chunks 57 data))" using assms(3) run by simp
  have "base64_main fuel [bytes_of ''-d''] t = (Inl (Exits 0), t\<lparr>io_in := [], io_out := io_out t @ data\<rparr>)"
    unfolding base64_main_def opt
    by (simp add: xfopen_stdin_def read_stdin_def and_then_def before_def stop_with_def inp base64_lines_read [OF assms(2)])
  then show ?thesis using run by simp
qed

section \<open>uuencode lines\<close>

abbreviation "uustd \<equiv> bb_uuenc_tbl_std"

text \<open>The values of a line: the sextets, zeros for the padding.\<close>

fun line_sextets :: "u8 list \<Rightarrow> u8 list" where
  "line_sextets [] = []"
| "line_sextets [a] = sextets a 0 0"
| "line_sextets [a, b] = sextets a b 0"
| "line_sextets (a # b # c # s) = sextets a b c @ line_sextets s"

lemma uu_value: "i < 64 \<Longrightarrow> (uustd ! i - 0x20) AND 0x3F = of_nat i"
proof -
  have "list_all (\<lambda>i. (uustd ! i - 0x20) AND 0x3F = of_nat i) [0..<64]" by code_simp
  then show "i < 64 \<Longrightarrow> (uustd ! i - 0x20) AND 0x3F = of_nat i" by (simp add: list_all_iff)
qed

lemma uu_value_pad: "(uustd ! 64 - 0x20) AND 0x3F = 0"
  by code_simp

lemma uu_values_map: "(\<And>x. x \<in> set xs \<Longrightarrow> unat x < 64) \<Longrightarrow> uu_values (map (\<lambda>x. uustd ! unat x) xs) = xs"
  by (induction xs) (simp_all add: uu_values_def uu_value)

lemma uu_values_append [simp]: "uu_values (xs @ ys) = uu_values xs @ uu_values ys"
  by (simp add: uu_values_def)

lemma uu_values_code: "uu_values (code uustd s) = line_sextets s"
proof (induction s rule: pads.induct)
  case (2 a)
  have "uu_values (map (\<lambda>x. uustd ! unat x) (take 2 (sextets a 0 0))) = take 2 (sextets a 0 0)"
    by (rule uu_values_map) (auto dest: in_set_takeD intro: sextets_small)
  then show ?case by (simp add: uu_values_def uu_value_pad sextets_def numeral_2_eq_2)
next
  case (3 a b)
  have "uu_values (map (\<lambda>x. uustd ! unat x) (take 3 (sextets a b 0))) = take 3 (sextets a b 0)"
    by (rule uu_values_map) (auto dest: in_set_takeD intro: sextets_small)
  then show ?case by (simp add: uu_values_def uu_value_pad sextets_def numeral_3_eq_3)
qed (simp_all add: uu_values_map sextets_small uu_values_def [of "[]"])

lemma sextet_bytes:
  "push_bit 2 (sextets a b c ! 0) OR drop_bit 4 (sextets a b c ! 1) = a"
  "push_bit 2 (sextets a b c ! 0) OR drop_bit 4 (sextets a b c ! Suc 0) = a"
  "push_bit 4 (sextets a b c ! Suc 0) OR drop_bit 2 (sextets a b c ! 2) = b"
  "push_bit 4 (sextets a b c ! 1) OR drop_bit 2 (sextets a b c ! 2) = b"
  "push_bit 6 (sextets a b c ! 2) OR sextets a b c ! 3 = c"
  using group_sextets(1) [of a b c] by (simp_all add: group_bytes_def)

lemma uu_groups_values:
  "s \<noteq> [] \<Longrightarrow> uu_groups (line_sextets s @ rest) (length s * 4 div 3) = s"
proof (induction s rule: pads.induct)
  case (4 a b c s)
  show ?case
  proof (cases "s = []")
    case True
    then show ?thesis
      by (subst uu_groups.simps) (simp add: nth_append sextet_bytes)
  next
    case False
    then have "4 < length (a # b # c # s) * 4 div 3" "length (a # b # c # s) * 4 div 3 - 4 = length s * 4 div 3"
      by (cases s; simp)+
    then show ?thesis using 4 False
      by (subst uu_groups.simps) (simp add: nth_append sextet_bytes)
  qed
qed (subst uu_groups.simps; simp add: nth_append sextet_bytes)+

lemma fgetline_line: "\<forall>c\<in>set line. c \<noteq> 0 \<and> c \<noteq> 10 \<Longrightarrow> xmalloc_fgetline (line @ 10 # rest) = Some (line, rest)"
proof -
  assume "\<forall>c\<in>set line. c \<noteq> 0 \<and> c \<noteq> 10"
  then have "takeWhile (\<lambda>c. c \<noteq> 0 \<and> c \<noteq> 10) (line @ 10 # rest) = line" by (simp add: takeWhile_append2)
  then show ?thesis by (simp add: xmalloc_fgetline_def)
qed

lemma uustd_range: "i \<le> 64 \<Longrightarrow> 32 < uustd ! i \<and> uustd ! i \<le> 96"
proof -
  have "list_all (\<lambda>i. 32 < uustd ! i \<and> uustd ! i \<le> 96) [0..<65]" by code_simp
  then show "i \<le> 64 \<Longrightarrow> 32 < uustd ! i \<and> uustd ! i \<le> 96" by (simp add: list_all_iff)
qed

lemma sextet_uustd: "x \<in> set (sextets a b c) \<Longrightarrow> 32 < uustd ! unat x \<and> uustd ! unat x \<le> 96"
  by (rule uustd_range) (simp add: sextets_small less_imp_le)

lemma code_uustd: "c \<in> set (code uustd s) \<Longrightarrow> 32 < c \<and> c \<le> 96"
proof (induction s rule: pads.induct)
  case (4 a b x s)
  then show ?case using sextet_uustd [of _ a b x] by auto
next
  case (2 a)
  then show ?case using sextet_uustd [of _ a 0 0] uustd_range [of 64] by (auto dest!: in_set_takeD)
next
  case (3 a b)
  then show ?case using sextet_uustd [of _ a b 0] uustd_range [of 64] by (auto dest!: in_set_takeD)
qed simp

text \<open>A line of 1 to 45 bytes.\<close>

lemma read_line:
  assumes "b \<noteq> []" "length b \<le> 45"
  shows "read_stduu ((uustd ! length b # code uustd b) @ 10 # rest) dst s = read_stduu rest dst (written dst b s)"
proof -
  let ?line = "uustd ! length b # code uustd b"
  have range: "\<forall>c\<in>set ?line. 32 < c \<and> c \<le> 96" using uustd_range [of "length b"] code_uustd assms(2) by auto
  then have "xmalloc_fgetline (?line @ 10 # rest) = Some (?line, rest)" by (intro fgetline_line) auto
  moreover have "?line \<noteq> bytes_of ''end''"
  proof
    assume "?line = bytes_of ''end''"
    then have "101 \<in> set ?line" by (simp add: bytes_of_def)
    then show False using range by force
  qed
  moreover have "uu_values ?line = of_nat (length b) # line_sextets b"
    using uu_value [of "length b"] assms(2) uu_values_code [of b] by (simp add: uu_values_def)
  moreover have "unat (of_nat (length b) :: u8) = length b" using assms(2) by (simp add: unat_of_nat)
  moreover have "length b * 4 div 3 \<noteq> 0" "length b * 4 div 3 \<le> 60" using assms by (cases b; simp)+
  moreover have "length b * 4 div 3 < length ?line" by (simp add: length_code)
  ultimately show ?thesis
    by (subst read_stduu.simps) (simp add: tool_simps uu_groups_values [OF assms(1)] Let_def not_le)
qed

lemma read_lines:
  "\<forall>b\<in>set bs. b \<noteq> [] \<and> length b \<le> 45 \<Longrightarrow>
   read_stduu (concat (map (\<lambda>b. (uustd ! length b # code uustd b) @ [10]) bs) @ rest) dst s =
   read_stduu rest dst (written dst (concat bs) s)"
proof (induction bs arbitrary: s)
  case (Cons b bs)
  then show ?case using read_line [of b "concat (map (\<lambda>b. (uustd ! length b # code uustd b) @ [10]) bs) @ rest" dst s]
    by (simp add: fwrite_append)
qed simp

lemma read_end: "read_stduu ([96, 10] @ bytes_of ''end'' @ [10]) dst s = (Inr (), s)"
proof -
  have 1: "xmalloc_fgetline ([96, 10] @ bytes_of ''end'' @ [10]) = Some ([96], bytes_of ''end'' @ [10])"
    and 2: "xmalloc_fgetline (bytes_of ''end'' @ [10]) = Some (bytes_of ''end'', [])" by code_simp+
  have 3: "uu_values [96] = [0]" "[96 :: u8] \<noteq> bytes_of ''end''" by code_simp+
  show ?thesis
    by (subst read_stduu.simps, simp only: 1 option.case prod.case 3 if_False Let_def, simp)
      (subst read_stduu.simps, simp only: 2 option.case prod.case refl if_True Let_def give_def)
qed

section \<open>The begin line\<close>

lemma digit_of_octal: "n < 8 \<Longrightarrow> digit_of (of_nat (48 + n)) = n"
proof -
  have "list_all (\<lambda>n. digit_of (of_nat (48 + n)) = n) [0..<8]" by code_simp
  then show "n < 8 \<Longrightarrow> digit_of (of_nat (48 + n)) = n" by (simp add: list_all_iff)
qed

lemma octal_digits: "\<forall>c\<in>set (octal n). digit_of c < 8"
proof (induction n rule: octal.induct)
  case (1 n)
  then show ?case using digit_of_octal by (subst octal.simps) auto
qed

lemma octal_value: "foldl (\<lambda>v c. 8 * v + digit_of c) 0 (octal n) = n"
proof (induction n rule: octal.induct)
  case (1 n)
  then show ?case using digit_of_octal by (subst octal.simps) auto
qed

lemma digit_chars: "digit_of c < 8 \<Longrightarrow> 48 \<le> c \<and> c \<le> 57"
  by (auto simp: digit_of_def word_le_nat_alt split: if_splits)

lemma strtou_octal:
  assumes "n < 4294967296"
  shows "bb_strtou (octal n @ 32 # rest) 8 = of_nat n"
proof -
  have d: "\<not> digit_of 32 < 8" by code_simp
  have "octal n \<noteq> []" by (subst octal.simps) simp
  then have "isalnum (hd (octal n))" using octal_digits [of n] digit_chars by (simp add: isalnum_def)
  moreover have "takeWhile (\<lambda>c. digit_of c < 8) (octal n @ 32 # rest) = octal n"
    "dropWhile (\<lambda>c. digit_of c < 8) (octal n @ 32 # rest) = 32 # rest"
    using octal_digits [of n] d by (simp_all add: takeWhile_append2 dropWhile_append2)
  moreover have "\<not> isalnum 32" by (simp add: isalnum_def)
  ultimately show ?thesis using assms \<open>octal n \<noteq> []\<close>
    by (simp add: bb_strtou_def octal_value Let_def)
qed

lemma uu_name_octal: "name \<noteq> [] \<Longrightarrow> uu_name (octal n @ 32 # name) = Some name"
proof -
  have "\<forall>c\<in>set (octal n). c \<noteq> 32" using octal_digits [of n] digit_chars by fastforce
  then have "dropWhile (\<lambda>c. c \<noteq> 32) (octal n @ 32 # name) = 32 # name" by (simp add: dropWhile_append2)
  then show "name \<noteq> [] \<Longrightarrow> uu_name (octal n @ 32 # name) = Some name" by (cases name) (simp_all add: uu_name_def Let_def)
qed

section \<open>The round trip of the programs\<close>

text \<open>The newline before each line is the newline behind the line before it.\<close>

lemma concat_newline: "concat (map (\<lambda>b. 10 # f b) bs) @ 10 # rest = 10 # concat (map (\<lambda>b. f b @ [10]) bs) @ rest"
  by (induction bs) simp_all

definition uu_header :: "bool \<Rightarrow> u32 \<Rightarrow> u8 list \<Rightarrow> u8 list" where
  "uu_header base64 mode name = bytes_of ''begin'' @ (if base64 then bytes_of ''-base64'' else []) @ [32] @ octal (unat mode) @ [32] @ name"

definition uu_text :: "bool \<Rightarrow> u8 list \<Rightarrow> u8 list" where
  "uu_text base64 data =
     (if base64 then concat (map (\<lambda>b. code b64 b @ [10]) (chunks 45 data)) @ bytes_of ''===='' @ [10]
      else concat (map (\<lambda>b. (uustd ! length b # code uustd b) @ [10]) (chunks 45 data)) @ [96, 10] @ bytes_of ''end'' @ [10])"

lemma tables_differ: "b64 \<noteq> uustd"
proof
  assume "b64 = uustd"
  then have "b64 ! 0 = uustd ! 0" by simp
  then show False by (simp add: bb_uuenc_tbl_base64_def bb_uuenc_tbl_std_def bytes_of_def)
qed

lemma uuencode_lines:
  "uuencode_line b64 = (\<lambda>b. 10 # code b64 b)"
  "uuencode_line uustd = (\<lambda>b. 10 # uustd ! length b # code uustd b)"
  by (simp_all add: uuencode_line_def bb_uuencode_code length_code tables_differ fun_eq_iff)

text \<open>What \<open>uuencode\<close> prints for a file.\<close>

lemma uuencode_output:
  assumes "fs_node (io_dev s) input = Some (st_mode, data)"
  shows "uuencode_main ((if base64 then [bytes_of ''-m''] else []) @ [bytes_of ''--'', input, name]) s =
    (Inl (Exits 0), s\<lparr>io_dev := (io_dev s)\<lparr>fs_umask := 0x1B6\<rparr>,
       io_out := io_out s @ uu_header base64 (st_mode AND 0x1FF) name @ 10 # uu_text base64 data\<rparr>)"
proof (cases base64)
  case True
  have opt: "getopt [] (bytes_of ''m'') [bytes_of ''-m'', bytes_of ''--'', input, name] = ([Opt 109 []], [input, name])"
    by (simp add: bytes_of_def)
  show ?thesis using assms True
    by (simp add: uuencode_main_def opt xopen_def tool_simps encode_lines_run uuencode_lines tables_differ
        uu_header_def uu_text_def concat_newline Let_def and_then_def before_def give_def stop_with_def put_out_def on_dev_def
        del: getopt.simps)
next
  case False
  have opt: "getopt [] (bytes_of ''m'') [bytes_of ''--'', input, name] = ([], [input, name])"
    by (simp add: bytes_of_def)
  have cn: "concat (map (\<lambda>b. 10 # uustd ! length b # code uustd b) bs) @ 10 # rest =
      10 # concat (map (\<lambda>b. uustd ! length b # code uustd b @ [10]) bs) @ rest" for bs rest
    using concat_newline [of "\<lambda>b. uustd ! length b # code uustd b" bs rest] by simp
  show ?thesis using assms False
    by (simp add: uuencode_main_def opt xopen_def tool_simps encode_lines_run uuencode_lines
        uu_header_def uu_text_def cn Let_def and_then_def before_def give_def stop_with_def put_out_def on_dev_def
        del: getopt.simps)
qed

text \<open>What \<open>read_base64\<close> and \<open>read_stduu\<close> make of it.\<close>

lemma read_uu_base64:
  assumes "2 * length data < fuel"
  shows "read_base64 fuel (uu_text True data) dst (BASE64_FLAG_UU_STOP + BASE64_FLAG_NO_STOP_CHAR) s = (Inr (), written dst data s)"
proof -
  let ?bs = "chunks 45 data" and ?flags = "BASE64_FLAG_UU_STOP + BASE64_FLAG_NO_STOP_CHAR"
  have flags: "exit_char ?flags = - 128" "uu_style_end ?flags"
    by (simp_all add: exit_char_def uu_style_end_def BASE64_FLAG_UU_STOP_def BASE64_FLAG_NO_STOP_CHAR_def)
  define n where "n = sum_list (map line_fuel ?bs)"
  have n: "Suc n \<le> fuel" using line_fuel_sum [of 45 data] assms by (simp add: n_def)
  have "\<forall>b\<in>set ?bs. length b \<le> 57" "concat ?bs = data" using chunks_facts [of 45 data] by fastforce+
  then have "repeat (n + 1) (read_base64_step dst ?flags) (uu_text True data, []) s =
      repeat 1 (read_base64_step dst ?flags) (bytes_of ''===='' @ [10], []) (written dst data s)"
    using lines_steps [of ?flags ?bs 1 dst "bytes_of ''===='' @ [10]" s] flags
    by (simp add: n_def uu_text_def del: repeat.simps)
  also have "fill_buf (- 128) (bytes_of ''===='' @ [10]) [] = Some ([], bytes_of ''===='', False)" by code_simp
  then have "repeat 1 (read_base64_step dst ?flags) (bytes_of ''===='' @ [10], []) (written dst data s) = (Inr (), written dst data s)"
    by (simp add: read_base64_step_def flags and_then_def give_def)
  finally have "repeat (Suc n) (read_base64_step dst ?flags) (uu_text True data, []) s = (Inr (), written dst data s)"
    by (simp del: repeat.simps)
  then show ?thesis
    using repeat_le [OF n, of "read_base64_step dst ?flags" "(uu_text True data, [])" s] by (simp add: read_base64_def)
qed

lemma read_uu_std: "read_stduu (uu_text False data) dst s = (Inr (), written dst data s)"
  using read_lines [of "chunks 45 data" "[96, 10] @ bytes_of ''end'' @ [10]" dst s] chunks_facts [of 45 data]
    read_end [of dst "written dst data s"] by (simp add: uu_text_def)

lemma header_line:
  assumes "\<forall>c\<in>set name. c \<noteq> 0 \<and> c \<noteq> 10"
  shows "xmalloc_fgetline (uu_header base64 mode name @ 10 # rest) = Some (uu_header base64 mode name, rest)"
proof (rule fgetline_line)
  have "\<forall>c\<in>set (octal (unat mode)). c \<noteq> 0 \<and> c \<noteq> 10" using octal_digits [of "unat mode"] digit_chars by fastforce
  moreover have "\<forall>c\<in>set (bytes_of ''begin''). c \<noteq> 0 \<and> c \<noteq> 10" "\<forall>c\<in>set (bytes_of ''-base64''). c \<noteq> 0 \<and> c \<noteq> 10"
    by code_simp+
  ultimately show "\<forall>c\<in>set (uu_header base64 mode name). c \<noteq> 0 \<and> c \<noteq> 10"
    using assms by (auto simp: uu_header_def)
qed

text \<open>C10. A file encoded by \<open>uuencode\<close>, in either format, and decoded by \<open>uudecode\<close> comes back with its contents
  and its permissions, under the name that was stored.\<close>

theorem uu_round_trip:
  assumes "fs_node (io_dev s) input = Some (st_mode, data)" and out: "io_out s = []"
    and name: "name \<noteq> []" "name \<noteq> bytes_of ''-''" "\<forall>c\<in>set name. c \<noteq> 0 \<and> c \<noteq> 10"
    and writable: "fs_writable (io_dev t) name" and fuel: "2 * length data < fuel"
    and inp: "io_in t = io_out (snd (uuencode_main ((if base64 then [bytes_of ''-m''] else []) @ [bytes_of ''--'', input, name]) s))"
  shows "uudecode_main fuel [] t =
    (Inr 0, t\<lparr>io_in := [], io_dev := (io_dev t)\<lparr>fs_node := (fs_node (io_dev t))(name \<mapsto> (st_mode AND 0x1FF, data))\<rparr>\<rparr>)"
proof -
  let ?mode = "st_mode AND 0x1FF"
  have i: "io_in t = uu_header base64 ?mode name @ 10 # uu_text base64 data"
    unfolding inp uuencode_output [OF assms(1)] by (simp add: out)
  have h: "bytes_of ''begin-base64 '' = bytes_of ''begin'' @ bytes_of ''-base64'' @ [32]" "bytes_of ''begin '' = bytes_of ''begin'' @ [32]"
    "length (bytes_of ''begin'') = 5" "length (bytes_of ''-base64'') = 7" by code_simp+
  have head: "take 13 (uu_header True ?mode name) = bytes_of ''begin-base64 ''" "drop 13 (uu_header True ?mode name) = octal (unat ?mode) @ 32 # name"
    "take 6 (uu_header False ?mode name) = bytes_of ''begin ''" "drop 6 (uu_header False ?mode name) = octal (unat ?mode) @ 32 # name"
    by (simp_all add: uu_header_def h)
  have "take 6 (bytes_of ''begin-base64 '') \<noteq> bytes_of ''begin ''" by code_simp
  then have other: "take 13 (uu_header False ?mode name) \<noteq> bytes_of ''begin-base64 ''"
    using head(3) by (auto dest: arg_cong [of _ _ "take 6"])
  have mode: "bb_strtou (octal (unat ?mode) @ 32 # name) 8 = ?mode"
    using strtou_octal [of "unat ?mode" name] unat_lt_u32 [of ?mode] of_nat_unat_u32 by simp
  let ?t = "t\<lparr>io_in := [], io_dev := (io_dev t)\<lparr>fs_node := (fs_node (io_dev t))(name \<mapsto> (?mode, []))\<rparr>\<rparr>"
  have w: "written (Into name) data ?t = t\<lparr>io_in := [], io_dev := (io_dev t)\<lparr>fs_node := (fs_node (io_dev t))(name \<mapsto> (?mode, data))\<rparr>\<rparr>"
    by (simp add: written_def tool_simps)
  have "uudecode_stream fuel None (io_in t) (t\<lparr>io_in := []\<rparr>) = (Inr 0, written (Into name) data ?t)"
  proof (cases base64)
    case True
    show ?thesis unfolding i
      by (subst uudecode_stream.simps)
        (simp add: header_line [OF name(3)] True head mode uu_name_octal [OF name(1)] name(2) create_file_def writable
          tool_simps Let_def and_then_ok [OF read_uu_base64 [OF fuel]])
  next
    case False
    show ?thesis unfolding i
      by (subst uudecode_stream.simps)
        (simp add: header_line [OF name(3)] False head other mode uu_name_octal [OF name(1)] name(2) create_file_def writable
          tool_simps Let_def and_then_ok [OF read_uu_std])
  qed
  then show ?thesis unfolding w
    by (simp add: uudecode_main_def opt_args_def xfopen_stdin_def read_stdin_def and_then_def)
qed

section \<open>Witnesses\<close>

definition no_files :: "files io" where
  "no_files = \<lparr>io_dev = \<lparr>fs_umask = 0x12, fs_node = Map.empty, fs_writable = (\<lambda>_. True)\<rparr>, io_in = [], io_out = []\<rparr>"

theorem base64_round_trip_witness:
  "base64_main 10 [bytes_of ''-d''] (no_files\<lparr>io_in := bytes_of ''aGkh'' @ [10]\<rparr>) = (Inl (Exits 0), no_files\<lparr>io_out := bytes_of ''hi!''\<rparr>)"
proof -
  let ?s = "no_files\<lparr>io_in := bytes_of ''hi!''\<rparr>" and ?t = "no_files\<lparr>io_in := bytes_of ''aGkh'' @ [10]\<rparr>"
  have "io_in ?t = drop (length (io_out ?s)) (io_out (snd (base64_main 0 [] ?s)))" by code_simp
  from base64_round_trip [OF _ _ this, of "bytes_of ''hi!''" 10]
  have "2 * length (bytes_of ''hi!'') < 10 \<Longrightarrow> ?thesis" by (simp add: no_files_def)
  moreover have "2 * length (bytes_of ''hi!'') < 10" by code_simp
  ultimately show ?thesis by simp
qed

text \<open>A file \<open>a\<close> with permissions 0644, stored as \<open>b\<close>.\<close>

definition one_file :: "files io" where
  "one_file = no_files\<lparr>io_dev := (io_dev no_files)\<lparr>fs_node := [bytes_of ''a'' \<mapsto> (0x1A4, bytes_of ''hi!!'')]\<rparr>\<rparr>"

theorem uu_round_trip_witness:
  "\<exists>t. io_in t = bytes_of ''begin 644 b'' @ [10] @ bytes_of ''$:&DA(0``'' @ [10, 96, 10] @ bytes_of ''end'' @ [10] \<and>
     fs_node (io_dev (snd (uudecode_main 10 [] t))) (bytes_of ''b'') = Some (0x1A4, bytes_of ''hi!!'')"
proof -
  let ?t = "no_files\<lparr>io_in := bytes_of ''begin 644 b'' @ [10] @ bytes_of ''$:&DA(0``'' @ [10, 96, 10] @ bytes_of ''end'' @ [10]\<rparr>"
  have inp: "io_in ?t = io_out (snd (uuencode_main ((if False then [bytes_of ''-m''] else []) @ [bytes_of ''--'', bytes_of ''a'', bytes_of ''b'']) one_file))"
    by code_simp
  have "fs_node (io_dev one_file) (bytes_of ''a'') = Some (0x1A4, bytes_of ''hi!!'')" "io_out one_file = []"
    by (simp_all add: one_file_def no_files_def)
  moreover have "bytes_of ''b'' \<noteq> []" "bytes_of ''b'' \<noteq> bytes_of ''-''" "\<forall>c\<in>set (bytes_of ''b''). c \<noteq> 0 \<and> c \<noteq> 10"
    "2 * length (bytes_of ''hi!!'') < 10" by code_simp+
  moreover have "fs_writable (io_dev ?t) (bytes_of ''b'')" by (simp add: no_files_def)
  ultimately have "uudecode_main 10 [] ?t = (Inr 0, ?t\<lparr>io_in := [],
      io_dev := (io_dev ?t)\<lparr>fs_node := (fs_node (io_dev ?t))(bytes_of ''b'' \<mapsto> (0x1A4 AND 0x1FF, bytes_of ''hi!!''))\<rparr>\<rparr>)"
    using uu_round_trip [OF _ _ _ _ _ _ _ inp] by blast
  then show ?thesis by (intro exI [of _ ?t]) simp
qed

end
