(* ===== verification/Base64_Ends.thy ===== *)
theory Base64_Ends
  imports Uuencode_Correct
begin

text \<open>
  When \<open>read_base64\<close> ends: always when the characters are of the table, and an input on which it reads
  nothing more and decodes nothing.
\<close>

text \<open>Characters outside the table are skipped, but stay in the buffer with an incomplete group.\<close>

lemma fetch_skip: "strchr b64 c = None \<Longrightarrow> length six < 4 \<Longrightarrow> fetch_group six (c # cs) = fetch_group six cs"
  by (simp add: fetch_group.simps)

lemma fetch_valid: "strchr b64 c = Some i \<Longrightarrow> i \<noteq> 64 \<Longrightarrow> length six < 4 \<Longrightarrow> fetch_group six (c # cs) = fetch_group (six @ [of_nat i]) cs"
  by (subst fetch_group.simps) simp

abbreviation "in_table c \<equiv> strchr b64 c \<noteq> None"

lemma fetch_few:
  "\<forall>c\<in>set cs. strchr b64 c \<noteq> Some 64 \<Longrightarrow> length six + length (filter in_table cs) < 4 \<Longrightarrow>
   fetch_group six cs = Inl (six = [] \<and> filter in_table cs = [])"
proof (induction cs arbitrary: six)
  case Nil
  then show ?case by (simp add: fetch_group.simps)
next
  case (Cons c cs)
  show ?case
  proof (cases "strchr b64 c")
    case None
    then show ?thesis using Cons by (simp add: fetch_skip)
  next
    case (Some i)
    then show ?thesis using Cons by (simp add: fetch_valid)
  qed
qed

text \<open>C32. \<open>base64 -d\<close> does not end on 64 characters of which one to three are in the table and none is the
  padding: they fill the buffer, nothing of them is decoded, and nothing more is read.\<close>

theorem base64_hangs:
  assumes "length line = 64" and chars: "\<forall>c\<in>set line. 32 < c \<and> strchr bb_uuenc_tbl_base64 c \<noteq> Some 64"
    and few: "length (filter (\<lambda>c. strchr bb_uuenc_tbl_base64 c \<noteq> None) line) \<in> {1, 2, 3}" and inp: "io_in t = line @ rest"
  shows "fst (base64_main fuel [bytes_of ''-d''] t) = Inl Hangs"
proof -
  let ?step = "read_base64_step Stdout 255"
  have stop: "exit_char 255 = - 1" by (simp add: exit_char_def)
  have "filter in_table line \<noteq> []" using few by auto
  then have "fetch_group [] line = Inl False" using fetch_few [of line "[]"] chars few by auto
  then have d: "decode_base64 [] line = ([], line)" by (simp add: decode_base64.simps)
  have e: "line \<noteq> bytes_of ''===='' "
  proof
    assume "line = bytes_of ''===='' "
    then have "length line = 4" by (simp add: bytes_of_def)
    then show False using assms(1) by simp
  qed
  have again: "fill_buf (- 1) src line = Some (src, line, False)" for src using assms(1) by (cases src) simp_all
  have loop: "repeat n ?step (rest, line) s = (Inl Hangs, s)" for n s
  proof (induction n)
    case (Suc n)
    have "?step (rest, line) s = (Inr (Inr (rest, line)), s)"
      by (simp add: read_base64_step_def stop again d e tool_simps)
    then show ?case using Suc by (simp add: repeat_Suc(1) del: repeat.simps)
  qed (simp add: stop_with_def)
  have "fill_buf (- 1) (line @ rest) [] = Some (rest, line, False)"
    using fill_line(2) [of 255 line rest] assms(1) chars stop by simp
  then have "?step (line @ rest, []) s = (Inr (Inr (rest, line)), s)" for s
    by (simp add: read_base64_step_def stop d e tool_simps)
  then have "read_base64 fuel (line @ rest) Stdout 255 s = (Inl Hangs, s)" for s
    by (cases fuel) (simp_all add: read_base64_def stop_with_def repeat_Suc(1) loop del: repeat.simps(2))
  moreover have opt: "getopt [] (bytes_of ''d'') [bytes_of ''-d''] = ([Opt 100 []], [])" by code_simp
  ultimately show ?thesis unfolding base64_main_def opt
    by (simp add: xfopen_stdin_def read_stdin_def and_then_def before_def inp)
qed

text \<open>If all characters above the space are in the table, a tail has at most three.\<close>

lemma fetch_all_valid:
  "\<forall>c\<in>set cs. in_table c \<Longrightarrow> length six < 4 \<Longrightarrow> fetch_group six cs = Inl r \<Longrightarrow> length six + length cs < 4"
proof (induction cs arbitrary: six)
  case (Cons c cs)
  then obtain i where i: "strchr b64 c = Some i" by auto
  have "i \<noteq> 64" using i Cons.prems(2,3) by (subst (asm) fetch_group.simps) auto
  then have f: "fetch_group (six @ [of_nat i]) cs = Inl r" using fetch_valid [OF i _ Cons.prems(2)] Cons.prems(3) by simp
  then have "length (six @ [of_nat i :: u8]) < 4" by (subst (asm) fetch_group.simps) (auto split: if_splits)
  then show ?case using Cons.IH [OF _ _ f] Cons.prems(1) by simp
qed simp

lemma fetch_set: "fetch_group six cs = Inr (six', rest) \<Longrightarrow> set rest \<subseteq> set cs"
proof -
  have n: "next_valid cs = Some (i, rest) \<Longrightarrow> set rest \<subseteq> set cs" for cs i rest
    by (induction cs) (auto split: option.splits)
  show "fetch_group six cs = Inr (six', rest) \<Longrightarrow> set rest \<subseteq> set cs"
  proof (induction six cs rule: fetch_group.induct)
    case (1 six cs)
    show ?case
    proof (cases "length six < 4 \<and> next_valid cs \<noteq> None")
      case True
      then obtain i cs' where v: "next_valid cs = Some (i, cs')" by auto
      then have "fetch_group six cs = (if i = 64 then Inr (six, cs') else fetch_group (six @ [of_nat i]) cs')"
        using True by (subst fetch_group.simps) simp
      then show ?thesis using 1(2) n [OF v] 1(1) [OF _ v refl] True
        by (cases "i = 64") (auto dest!: sym [of "Inr (six', rest)"])
    next
      case False
      then show ?thesis using 1(2)
        by (cases "next_valid cs"; subst (asm) fetch_group.simps) (auto split: if_splits)
    qed
  qed
qed

lemma decode_tail:
  "\<forall>c\<in>set cs. in_table c \<Longrightarrow> length (snd (decode_base64 dst cs)) < 4 \<and> set (snd (decode_base64 dst cs)) \<subseteq> set cs"
proof (induction dst cs rule: decode_base64.induct)
  case (1 dst cs)
  show ?case
  proof (cases "fetch_group [] cs")
    case (Inl r)
    then show ?thesis using fetch_all_valid [OF 1(2) _ Inl] by (simp add: decode_base64.simps [of dst cs])
  next
    case (Inr p)
    then obtain six rest where p: "fetch_group [] cs = Inr (six, rest)" by (cases p) auto
    then show ?thesis using 1(1) [OF p refl] fetch_set [OF p] 1(2) by (auto simp: decode_base64.simps [of dst cs])
  qed
qed

lemma fill_buf_progress:
  "fill_buf stop src buf = Some (src', buf', ends) \<Longrightarrow> length buf < 64 \<Longrightarrow>
   (ends \<or> length src' < length src) \<and> set buf' \<subseteq> set buf \<union> {c \<in> set src. 32 < c} \<and> set src' \<subseteq> set src"
proof (induction stop src buf rule: fill_buf.induct)
  case (2 stop ch src buf)
  show ?case
  proof (cases "int (unat ch) \<noteq> stop \<and> \<not> ch \<le> 32")
    case True
    then have f: "fill_buf stop src (buf @ [ch]) = Some (src', buf', ends)" using 2(2,3) by simp
    show ?thesis
    proof (cases "length buf < 63")
      case True
      then show ?thesis using 2(1) [OF _ _ _ f] 2(3) \<open>_ \<and> \<not> ch \<le> 32\<close> by (auto simp: not_le)
    next
      case False
      then have "src' = src" "buf' = buf @ [ch]" using f by (cases src; auto)+
      then show ?thesis using True by (auto simp: not_le)
    qed
  next
    case False
    then show ?thesis using 2(2,3) by (auto split: if_splits)
  qed
qed (auto split: if_splits)

text \<open>C33. Reading base64 ends when every character above the space is in the table: whatever the flags, more
  fuel than there are bytes is enough.\<close>

theorem read_base64_ends:
  assumes "\<forall>c\<in>set src. c \<le> 32 \<or> strchr bb_uuenc_tbl_base64 c \<noteq> None" and "length src < fuel"
  shows "fst (read_base64 fuel src dst flags s) \<noteq> Inl Hangs"
proof -
  have "fst (repeat fuel (read_base64_step dst flags) (src, buf) s) \<noteq> Inl Hangs"
    if "length buf < 64" "\<forall>c\<in>set buf. in_table c" for buf
    using assms that
  proof (induction fuel arbitrary: src buf s)
    case (Suc n)
    let ?f = "fill_buf (exit_char flags) src buf"
    show ?case
    proof (cases ?f)
      case None
      then have "read_base64_step dst flags (src, buf) s = (Inr (Inl ()), s)" by (simp add: read_base64_step_def give_def)
      then show ?thesis by (simp add: repeat_Suc(2) del: repeat.simps)
    next
      case (Some p)
      then obtain src' buf' ends where f: "?f = Some (src', buf', ends)" by (cases p) auto
      obtain out tl where d: "decode_base64 [] buf' = (out, tl)" by fastforce
      note prog = fill_buf_progress [OF f Suc.prems(3)]
      have valid: "\<forall>c\<in>set buf'. in_table c"
      proof
        fix c assume "c \<in> set buf'"
        then have "c \<in> set buf \<or> c \<in> set src \<and> \<not> c \<le> 32" using prog by (auto simp: not_le)
        then show "in_table c" using Suc.prems(1,4) by blast
      qed
      have tl: "length tl < 4" "\<forall>c\<in>set tl. in_table c" using decode_tail [OF valid, of "[]"] valid d by auto
      consider "uu_style_end flags \<and> buf' = bytes_of ''===='' " | "ends" "\<not> (uu_style_end flags \<and> buf' = bytes_of ''===='')"
        | "\<not> ends" "\<not> (uu_style_end flags \<and> buf' = bytes_of ''===='')" by blast
      then show ?thesis
      proof cases
        case 1
        then have "read_base64_step dst flags (src, buf) s = (Inr (Inl ()), s)" by (simp add: read_base64_step_def f give_def)
        then show ?thesis by (simp add: repeat_Suc(2) del: repeat.simps)
      next
        case 2
        show ?thesis
        proof (cases "tl = []")
          case True
          then have "read_base64_step dst flags (src, buf) s = (Inr (Inl ()), written dst out s)"
            using 2 by (auto simp add: read_base64_step_def f d tool_simps)
          then show ?thesis by (simp add: repeat_Suc(2) del: repeat.simps)
        next
          case False
          then have "read_base64_step dst flags (src, buf) s = (Inl (Exits 1), written dst out s)"
            using 2 by (auto simp add: read_base64_step_def f d tool_simps)
          then show ?thesis by (simp add: repeat_Suc(3) del: repeat.simps)
        qed
      next
        case 3
        then have "read_base64_step dst flags (src, buf) s = (Inr (Inr (src', tl)), written dst out s)"
          by (auto simp add: read_base64_step_def f d tool_simps)
        moreover have "fst (repeat n (read_base64_step dst flags) (src', tl) (written dst out s)) \<noteq> Inl Hangs"
          by (rule Suc.IH) (use prog 3 Suc.prems tl in auto)
        ultimately show ?thesis by (simp add: repeat_Suc(1) del: repeat.simps)
      qed
    qed
  qed simp
  then show ?thesis by (simp add: read_base64_def)
qed

section \<open>Witnesses\<close>

text \<open>An \<open>A\<close> and 63 exclamation marks.\<close>

theorem base64_hangs_witness:
  "fst (base64_main 1000000 [bytes_of ''-d''] (no_files\<lparr>io_in := [65] @ replicate 63 33 @ [10]\<rparr>)) = Inl Hangs"
proof -
  have "strchr b64 33 = None" "strchr b64 65 = Some 0" by code_simp+
  then have "length ([65] @ replicate 63 33 :: u8 list) = 64" "\<forall>c\<in>set ([65] @ replicate 63 33). 32 < c \<and> strchr b64 c \<noteq> Some 64"
    "length (filter in_table ([65] @ replicate 63 33)) \<in> {1, 2, 3}" by (simp_all add: filter_replicate)
  from base64_hangs [OF this, of "no_files\<lparr>io_in := [65] @ replicate 63 33 @ [10]\<rparr>" "[10]" 1000000]
  show ?thesis by simp
qed

theorem read_base64_ends_witness: "fst (read_base64 10 (bytes_of ''aGkh'' @ [10]) Stdout 255 no_files) \<noteq> Inl Hangs"
proof -
  have "\<forall>c\<in>set (bytes_of ''aGkh'' @ [10]). c \<le> 32 \<or> strchr bb_uuenc_tbl_base64 c \<noteq> None"
    "length (bytes_of ''aGkh'' @ [10]) < 10" by code_simp+
  from read_base64_ends [OF this] show ?thesis .
qed

end
