(* ===== verification/Shell_Arith.thy ===== *)
theory Shell_Arith
  imports Tool_Monad "HOL-Library.Signed_Division"
begin

text \<open>
  The arithmetic expansion of the busybox shells, \<open>shell/math.c\<close>: an evaluator for infix expressions with
  a stack of numbers and a stack of operators, variables, assignments, and the values of variables
  evaluated as expressions in turn.

  A string is its bytes without the terminating NUL.  \<open>arith_t\<close> is \<open>long long\<close>, given by its value; a
  result that does not fit, a shift by a negative number or by 64 bits and more, and a left shift of a
  negative number are undefined in C.  The callbacks \<open>lookupvar\<close> and \<open>setvar\<close> of the shell are the look-up and
  the update of a map.  Both stacks are arrays of a size computed from the length of the string; a write
  past their end is \<open>Stack_Overflow\<close>.  The fuel bounds the nesting of variables whose values are expressions.
\<close>

section \<open>Tokens\<close>

text \<open>The low five bits of an operator are its precedence.\<close>

definition tok_decl :: "u8 \<Rightarrow> u8 \<Rightarrow> u8" where
  "tok_decl prec i = push_bit 5 i OR prec"

definition PREC :: "u8 \<Rightarrow> u8" where
  "PREC op = op AND 0x1F"

definition TOK_LPAREN :: u8 where "TOK_LPAREN = tok_decl 0 0"
definition TOK_COMMA :: u8 where "TOK_COMMA = tok_decl 1 0"
definition TOK_ASSIGN :: u8 where "TOK_ASSIGN = tok_decl 2 0"
definition TOK_AND_ASSIGN :: u8 where "TOK_AND_ASSIGN = tok_decl 2 1"
definition TOK_OR_ASSIGN :: u8 where "TOK_OR_ASSIGN = tok_decl 2 2"
definition TOK_XOR_ASSIGN :: u8 where "TOK_XOR_ASSIGN = tok_decl 2 3"
definition TOK_PLUS_ASSIGN :: u8 where "TOK_PLUS_ASSIGN = tok_decl 2 4"
definition TOK_MINUS_ASSIGN :: u8 where "TOK_MINUS_ASSIGN = tok_decl 2 5"
definition TOK_LSHIFT_ASSIGN :: u8 where "TOK_LSHIFT_ASSIGN = tok_decl 2 6"
definition TOK_RSHIFT_ASSIGN :: u8 where "TOK_RSHIFT_ASSIGN = tok_decl 2 7"
definition TOK_MUL_ASSIGN :: u8 where "TOK_MUL_ASSIGN = tok_decl 3 0"
definition TOK_DIV_ASSIGN :: u8 where "TOK_DIV_ASSIGN = tok_decl 3 1"
definition TOK_REM_ASSIGN :: u8 where "TOK_REM_ASSIGN = tok_decl 3 2"
definition TOK_CONDITIONAL :: u8 where "TOK_CONDITIONAL = tok_decl 4 0"
definition TOK_CONDITIONAL_SEP :: u8 where "TOK_CONDITIONAL_SEP = tok_decl 4 1"
definition TOK_OR :: u8 where "TOK_OR = tok_decl 5 0"
definition TOK_AND :: u8 where "TOK_AND = tok_decl 6 0"
definition TOK_BOR :: u8 where "TOK_BOR = tok_decl 7 0"
definition TOK_BXOR :: u8 where "TOK_BXOR = tok_decl 8 0"
definition TOK_BAND :: u8 where "TOK_BAND = tok_decl 9 0"
definition TOK_EQ :: u8 where "TOK_EQ = tok_decl 10 0"
definition TOK_NE :: u8 where "TOK_NE = tok_decl 10 1"
definition TOK_LT :: u8 where "TOK_LT = tok_decl 11 0"
definition TOK_GT :: u8 where "TOK_GT = tok_decl 11 1"
definition TOK_GE :: u8 where "TOK_GE = tok_decl 11 2"
definition TOK_LE :: u8 where "TOK_LE = tok_decl 11 3"
definition TOK_LSHIFT :: u8 where "TOK_LSHIFT = tok_decl 12 0"
definition TOK_RSHIFT :: u8 where "TOK_RSHIFT = tok_decl 12 1"
definition TOK_ADD :: u8 where "TOK_ADD = tok_decl 13 0"
definition TOK_SUB :: u8 where "TOK_SUB = tok_decl 13 1"
definition TOK_MUL :: u8 where "TOK_MUL = tok_decl 14 0"
definition TOK_DIV :: u8 where "TOK_DIV = tok_decl 14 1"
definition TOK_REM :: u8 where "TOK_REM = tok_decl 14 2"
definition TOK_EXPONENT :: u8 where "TOK_EXPONENT = tok_decl 15 1"
definition TOK_BNOT :: u8 where "TOK_BNOT = tok_decl 16 0"
definition TOK_NOT :: u8 where "TOK_NOT = tok_decl 16 1"
definition TOK_UMINUS :: u8 where "TOK_UMINUS = tok_decl 17 0"
definition TOK_UPLUS :: u8 where "TOK_UPLUS = tok_decl 17 1"
definition TOK_PRE_INC :: u8 where "TOK_PRE_INC = tok_decl 18 0"
definition TOK_PRE_DEC :: u8 where "TOK_PRE_DEC = tok_decl 18 1"
definition TOK_POST_INC :: u8 where "TOK_POST_INC = tok_decl 19 0"
definition TOK_POST_DEC :: u8 where "TOK_POST_DEC = tok_decl 19 1"
definition TOK_NUM :: u8 where "TOK_NUM = tok_decl 20 0"
definition TOK_RPAREN :: u8 where "TOK_RPAREN = tok_decl 20 1"

lemmas tok_defs = tok_decl_def
  TOK_LPAREN_def TOK_COMMA_def TOK_ASSIGN_def TOK_AND_ASSIGN_def TOK_OR_ASSIGN_def TOK_XOR_ASSIGN_def
  TOK_PLUS_ASSIGN_def TOK_MINUS_ASSIGN_def TOK_LSHIFT_ASSIGN_def TOK_RSHIFT_ASSIGN_def TOK_MUL_ASSIGN_def
  TOK_DIV_ASSIGN_def TOK_REM_ASSIGN_def TOK_CONDITIONAL_def TOK_CONDITIONAL_SEP_def TOK_OR_def TOK_AND_def
  TOK_BOR_def TOK_BXOR_def TOK_BAND_def TOK_EQ_def TOK_NE_def TOK_LT_def TOK_GT_def TOK_GE_def TOK_LE_def
  TOK_LSHIFT_def TOK_RSHIFT_def TOK_ADD_def TOK_SUB_def TOK_MUL_def TOK_DIV_def TOK_REM_def TOK_EXPONENT_def
  TOK_BNOT_def TOK_NOT_def TOK_UMINUS_def TOK_UPLUS_def TOK_PRE_INC_def TOK_PRE_DEC_def TOK_POST_INC_def
  TOK_POST_DEC_def TOK_NUM_def TOK_RPAREN_def

definition UNARYPREC :: u8 where "UNARYPREC = 16"
definition PREC_PRE :: u8 where "PREC_PRE = 18"
definition PREC_POST :: u8 where "PREC_POST = 19"
definition SPEC_PREC :: u8 where "SPEC_PREC = 20"

definition fix_assignment_prec :: "u8 \<Rightarrow> u8" where
  "fix_assignment_prec prec = (if prec = 3 then 2 else prec)"

definition is_assign_op :: "u8 \<Rightarrow> bool" where
  "is_assign_op op \<longleftrightarrow> (let prec = fix_assignment_prec (PREC op) in
     prec = PREC TOK_ASSIGN \<or> prec = PREC_PRE \<or> prec = PREC_POST)"

definition is_right_associative :: "u8 \<Rightarrow> bool" where
  "is_right_associative prec \<longleftrightarrow> prec = PREC TOK_ASSIGN \<or> prec = PREC TOK_EXPONENT \<or> prec = PREC TOK_CONDITIONAL"

text \<open>The longest operators first.\<close>

definition op_tokens :: "(u8 list \<times> u8) list" where
  "op_tokens =
    [([60, 60, 61], TOK_LSHIFT_ASSIGN), ([62, 62, 61], TOK_RSHIFT_ASSIGN), ([60, 60], TOK_LSHIFT),
     ([62, 62], TOK_RSHIFT), ([124, 124], TOK_OR), ([38, 38], TOK_AND), ([33, 61], TOK_NE), ([60,
     61], TOK_LE), ([62, 61], TOK_GE), ([61, 61], TOK_EQ), ([124, 61], TOK_OR_ASSIGN), ([38, 61],
     TOK_AND_ASSIGN), ([42, 61], TOK_MUL_ASSIGN), ([47, 61], TOK_DIV_ASSIGN), ([37, 61],
     TOK_REM_ASSIGN), ([43, 61], TOK_PLUS_ASSIGN), ([45, 61], TOK_MINUS_ASSIGN), ([45, 45],
     TOK_POST_DEC), ([94, 61], TOK_XOR_ASSIGN), ([43, 43], TOK_POST_INC), ([42, 42], TOK_EXPONENT),
     ([33], TOK_NOT), ([60], TOK_LT), ([62], TOK_GT), ([61], TOK_ASSIGN), ([124], TOK_BOR), ([38],
     TOK_BAND), ([42], TOK_MUL), ([47], TOK_DIV), ([37], TOK_REM), ([43], TOK_ADD), ([45], TOK_SUB),
     ([94], TOK_BXOR), ([126], TOK_BNOT), ([44], TOK_COMMA), ([63], TOK_CONDITIONAL), ([58],
     TOK_CONDITIONAL_SEP), ([41], TOK_RPAREN), ([40], TOK_LPAREN)]"

fun match_op :: "(u8 list \<times> u8) list \<Rightarrow> u8 list \<Rightarrow> (u8 \<times> u8 list) option" where
  "match_op [] expr = None"
| "match_op ((p, op) # rest) expr =
     (if take (length p) expr = p then Some (op, drop (length p) expr) else match_op rest expr)"

section \<open>Names and numbers\<close>

definition is_name :: "u8 \<Rightarrow> bool" where
  "is_name c \<longleftrightarrow> c = 95 \<or> 65 \<le> c \<and> c \<le> 90 \<or> 97 \<le> c \<and> c \<le> 122"

definition is_in_name :: "u8 \<Rightarrow> bool" where
  "is_in_name c \<longleftrightarrow> is_name c \<or> 48 \<le> c \<and> c \<le> 57"

text \<open>The name a string begins with, empty if there is none.\<close>

definition endofname :: "u8 list \<Rightarrow> u8 list" where
  "endofname expr = (if expr \<noteq> [] \<and> is_name (hd expr) then takeWhile is_in_name expr else [])"

text \<open>\<open>strto_arith_t\<close> is \<open>strtoull\<close> with base 0; a number out of range counts as 0.\<close>

definition number_value :: "nat \<Rightarrow> int" where
  "number_value v = (if 2 ^ 64 \<le> v then 0 else sint (word_of_int (int v) :: u64))"

section \<open>Results\<close>

datatype arith_error = Recursion_Loop | Syntax | Malformed_Conditional | Negative_Exponent | Division_By_Zero
  | Undefined_Result | Stack_Overflow | Out_Of_Fuel

type_synonym vars = "u8 list \<Rightarrow> u8 list option"
type_synonym 'a calc = "vars \<Rightarrow> (arith_error + 'a) \<times> vars"

named_theorems calc_simps

definition ok :: "'a \<Rightarrow> 'a calc" where
  "ok x v = (Inr x, v)"

definition bad :: "arith_error \<Rightarrow> 'a calc" where
  "bad e v = (Inl e, v)"

definition andthen :: "'a calc \<Rightarrow> ('a \<Rightarrow> 'b calc) \<Rightarrow> 'b calc" where
  "andthen m f v = (case m v of (Inl e, w) \<Rightarrow> (Inl e, w) | (Inr x, w) \<Rightarrow> f x w)"

definition lookupvar :: "u8 list \<Rightarrow> u8 list option calc" where
  "lookupvar name v = (Inr (v name), v)"

definition setvar :: "u8 list \<Rightarrow> u8 list \<Rightarrow> unit calc" where
  "setvar name value v = (Inr (), v(name \<mapsto> value))"

lemma andthen_simps [calc_simps]:
  "andthen (ok x) f = f x" "andthen (bad e) g = bad e" "andthen (andthen m h) k = andthen m (\<lambda>x. andthen (h x) k)"
  by (simp_all add: fun_eq_iff andthen_def ok_def bad_def split: prod.splits sum.splits)

lemma andthen_ok [simp]: "andthen m ok = m"
  by (simp add: fun_eq_iff andthen_def ok_def split: prod.splits sum.splits)

lemma andthen_if [calc_simps]: "andthen (if c then m else n) f = (if c then andthen m f else andthen n f)"
  by simp

text \<open>A value that fits \<open>arith_t\<close>.\<close>

definition in_range :: "int \<Rightarrow> bool" where
  "in_range r \<longleftrightarrow> - (2 ^ 63) \<le> r \<and> r < 2 ^ 63"

definition checked :: "int \<Rightarrow> int calc" where
  "checked r = (if in_range r then ok r else bad Undefined_Result)"

section \<open>Applying an operator\<close>

record var_or_num =
  vn_val :: int
  vn_second_val :: int
  vn_second_present :: bool
  vn_var :: "u8 list option"

text \<open>\<open>ev\<close> evaluates a string, given the names being evaluated.\<close>

type_synonym evaluator = "u8 list list \<Rightarrow> u8 list \<Rightarrow> int calc"

definition arith_lookup_val :: "evaluator \<Rightarrow> u8 list list \<Rightarrow> var_or_num \<Rightarrow> var_or_num calc" where
  "arith_lookup_val ev names t = (case vn_var t of
     None \<Rightarrow> ok t
   | Some x \<Rightarrow> andthen (lookupvar x) (\<lambda>p. case p of
       None \<Rightarrow> ok (t\<lparr>vn_val := 0\<rparr>)
     | Some p \<Rightarrow> if x \<in> set names then bad Recursion_Loop
         else andthen (ev (x # names) p) (\<lambda>v. ok (t\<lparr>vn_val := v\<rparr>))))"

definition unary_op :: "u8 \<Rightarrow> bool" where
  "unary_op op \<longleftrightarrow> op \<in> {TOK_UMINUS, TOK_NOT, TOK_BNOT, TOK_POST_INC, TOK_PRE_INC, TOK_POST_DEC, TOK_PRE_DEC, TOK_UPLUS}"

definition of_bool_int :: "bool \<Rightarrow> int" where
  "of_bool_int b = (if b then 1 else 0)"

definition unary_value :: "u8 \<Rightarrow> int \<Rightarrow> int calc" where
  "unary_value op rez =
     (if op = TOK_UMINUS then checked (- rez)
      else if op = TOK_NOT then ok (of_bool_int (rez = 0))
      else if op = TOK_BNOT then ok (NOT rez)
      else if op = TOK_POST_INC \<or> op = TOK_PRE_INC then checked (rez + 1)
      else if op = TOK_POST_DEC \<or> op = TOK_PRE_DEC then checked (rez - 1)
      else ok rez)"

text \<open>\<open>while (--right_side_val >= 0) c *= rez;\<close>\<close>

fun exponent_loop :: "nat \<Rightarrow> int \<Rightarrow> int \<Rightarrow> int calc" where
  "exponent_loop 0 rez c = ok c"
| "exponent_loop (Suc n) rez c = andthen (checked (c * rez)) (exponent_loop n rez)"

definition shift_right :: "int \<Rightarrow> int \<Rightarrow> int calc" where
  "shift_right rez n = (if 0 \<le> n \<and> n < 64 then ok (drop_bit (nat n) rez) else bad Undefined_Result)"

definition shift_left :: "int \<Rightarrow> int \<Rightarrow> int calc" where
  "shift_left rez n = (if 0 \<le> n \<and> n < 64 \<and> 0 \<le> rez then checked (push_bit (nat n) rez) else bad Undefined_Result)"

definition binary_value :: "u8 \<Rightarrow> int \<Rightarrow> int \<Rightarrow> int \<Rightarrow> int calc" where
  "binary_value op rez right second_val =
     (if op = TOK_CONDITIONAL then ok (if rez \<noteq> 0 then right else second_val)
      else if op = TOK_BOR \<or> op = TOK_OR_ASSIGN then ok (rez OR right)
      else if op = TOK_OR then ok (of_bool_int (right \<noteq> 0 \<or> rez \<noteq> 0))
      else if op = TOK_BAND \<or> op = TOK_AND_ASSIGN then ok (rez AND right)
      else if op = TOK_BXOR \<or> op = TOK_XOR_ASSIGN then ok (rez XOR right)
      else if op = TOK_AND then ok (of_bool_int (rez \<noteq> 0 \<and> right \<noteq> 0))
      else if op = TOK_EQ then ok (of_bool_int (rez = right))
      else if op = TOK_NE then ok (of_bool_int (rez \<noteq> right))
      else if op = TOK_GE then ok (of_bool_int (right \<le> rez))
      else if op = TOK_RSHIFT \<or> op = TOK_RSHIFT_ASSIGN then shift_right rez right
      else if op = TOK_LSHIFT \<or> op = TOK_LSHIFT_ASSIGN then shift_left rez right
      else if op = TOK_GT then ok (of_bool_int (right < rez))
      else if op = TOK_LT then ok (of_bool_int (rez < right))
      else if op = TOK_LE then ok (of_bool_int (rez \<le> right))
      else if op = TOK_MUL \<or> op = TOK_MUL_ASSIGN then checked (rez * right)
      else if op = TOK_ADD \<or> op = TOK_PLUS_ASSIGN then checked (rez + right)
      else if op = TOK_SUB \<or> op = TOK_MINUS_ASSIGN then checked (rez - right)
      else if op = TOK_ASSIGN \<or> op = TOK_COMMA then ok right
      else if op = TOK_EXPONENT then (if right < 0 then bad Negative_Exponent else exponent_loop (nat right) rez 1)
      else if right = 0 then bad Division_By_Zero
      else if op = TOK_DIV \<or> op = TOK_DIV_ASSIGN then checked (rez sdiv right)
      else if op = TOK_REM \<or> op = TOK_REM_ASSIGN then andthen (checked (rez sdiv right)) (\<lambda>_. ok (rez smod right))
      else ok rez)"

text \<open>Storing the result, to the variable if there is an assignment: after \<open>v++\<close> the value is the old one.\<close>

definition store_result :: "u8 \<Rightarrow> var_or_num \<Rightarrow> int \<Rightarrow> var_or_num list \<Rightarrow> var_or_num list calc" where
  "store_result op t rez numstack =
     (if is_assign_op op
      then (case vn_var t of
          None \<Rightarrow> bad Syntax
        | Some x \<Rightarrow> andthen (setvar x (dec_int rez)) (\<lambda>_.
            let rez = (if op = TOK_POST_INC then rez - 1 else if op = TOK_POST_DEC then rez + 1 else rez)
            in ok (t\<lparr>vn_val := rez, vn_var := None\<rparr> # numstack)))
      else ok (t\<lparr>vn_val := rez, vn_var := None\<rparr> # numstack))"

text \<open>The stack of numbers has its top in front.\<close>

definition arith_apply :: "evaluator \<Rightarrow> u8 list list \<Rightarrow> u8 \<Rightarrow> var_or_num list \<Rightarrow> var_or_num list calc" where
  "arith_apply ev names op numstack = (case numstack of
     [] \<Rightarrow> bad Syntax
   | right # below \<Rightarrow> andthen (arith_lookup_val ev names right) (\<lambda>right.
       if unary_op op then andthen (unary_value op (vn_val right)) (\<lambda>rez. store_result op right rez below)
       else (case below of
           [] \<Rightarrow> bad Syntax
         | left # below \<Rightarrow>
             if (if op = TOK_CONDITIONAL then \<not> vn_second_present right else vn_second_present right) then bad Malformed_Conditional
             else andthen (if op = TOK_ASSIGN then ok left else arith_lookup_val ev names left) (\<lambda>left.
               if op = TOK_CONDITIONAL_SEP
               then (if below = [] then bad Malformed_Conditional
                 else store_result op (left\<lparr>vn_second_present := True, vn_second_val := vn_val right\<rparr>) (vn_val left) below)
               else andthen (binary_value op (vn_val left) (vn_val right) (vn_second_val right)) (\<lambda>rez.
                 store_result op left rez below)))))"

section \<open>The evaluator\<close>

text \<open>Applying what is on the stack of operators before \<open>op\<close> is pushed; \<open>True\<close> when a left parenthesis has met
  its right one.\<close>

fun reduce :: "evaluator \<Rightarrow> u8 list list \<Rightarrow> u8 \<Rightarrow> u8 list \<Rightarrow> var_or_num list \<Rightarrow> (bool \<times> u8 list \<times> var_or_num list) calc" where
  "reduce ev names op [] numstack = (if op = TOK_RPAREN then bad Syntax else ok (False, [], numstack))"
| "reduce ev names op (prev_op # stack) numstack =
     (let prec = fix_assignment_prec (PREC op); prev_prec = fix_assignment_prec (PREC prev_op) in
      if op = TOK_RPAREN \<and> prev_op = TOK_LPAREN then ok (True, stack, numstack)
      else if op \<noteq> TOK_RPAREN \<and> (prev_prec < prec \<or> prev_prec = prec \<and> is_right_associative prec)
        then ok (False, prev_op # stack, numstack)
      else andthen (arith_apply ev names prev_op numstack) (reduce ev names op stack))"

definition push_num :: "(nat \<Rightarrow> bool) \<Rightarrow> var_or_num \<Rightarrow> var_or_num list \<Rightarrow> var_or_num list calc" where
  "push_num room n numstack = (if room (length numstack) then ok (n # numstack) else bad Stack_Overflow)"

definition push_op :: "(nat \<Rightarrow> bool) \<Rightarrow> u8 \<Rightarrow> u8 list \<Rightarrow> u8 list calc" where
  "push_op room op stack = (if room (length stack) then ok (op # stack) else bad Stack_Overflow)"

definition name_entry :: "u8 list \<Rightarrow> var_or_num" where
  "name_entry x = \<lparr>vn_val = 0, vn_second_val = 0, vn_second_present = False, vn_var = Some x\<rparr>"

definition num_entry :: "int \<Rightarrow> var_or_num" where
  "num_entry v = \<lparr>vn_val = v, vn_second_val = 0, vn_second_present = False, vn_var = None\<rparr>"

text \<open>A number or a finished increment before an operator makes it binary.\<close>

definition after_num :: "u8 \<Rightarrow> bool" where
  "after_num lasttok \<longleftrightarrow> lasttok = TOK_NUM \<or> lasttok = TOK_POST_INC \<or> lasttok = TOK_POST_DEC"

definition fix_unary :: "u8 \<Rightarrow> u8 \<Rightarrow> u8" where
  "fix_unary lasttok op =
     (if after_num lasttok then op
      else if op = TOK_ADD then TOK_UPLUS
      else if op = TOK_SUB then TOK_UMINUS
      else if op = TOK_POST_INC then TOK_PRE_INC
      else if op = TOK_POST_DEC then TOK_PRE_DEC
      else op)"

definition reduces :: "u8 \<Rightarrow> bool" where
  "reduces op \<longleftrightarrow> 0 < PREC op \<and> PREC op < UNARYPREC \<or> PREC op = SPEC_PREC"

lemma number_body_shorter: "number_body cs = Some (v, rest) \<Longrightarrow> length rest < length cs"
proof -
  have "length (dropWhile P xs) < length xs" if "takeWhile P xs \<noteq> []" for P and xs :: "u8 list"
    using that by (cases xs) (auto simp: le_imp_less_Suc length_dropWhile_le split: if_splits)
  then show "number_body cs = Some (v, rest) \<Longrightarrow> length rest < length cs"
    by (auto simp: number_body_def Let_def split: if_splits) fastforce+
qed

lemma match_op_shorter: "\<forall>(p, op)\<in>set table. p \<noteq> [] \<Longrightarrow> match_op table expr = Some (op, rest) \<Longrightarrow> length rest < length expr"
proof (induction table expr rule: match_op.induct)
  case (2 p op' table expr)
  then show ?case by (cases "take (length p) expr = p"; cases expr; cases p) auto
qed simp

lemma op_tokens_nonempty: "\<forall>(p, op)\<in>set op_tokens. p \<noteq> []"
  by (simp add: op_tokens_def)

lemma endofname_nonempty: "endofname expr \<noteq> [] \<Longrightarrow> length (drop (length (endofname expr)) expr) < length expr"
  by (cases expr) (auto simp: endofname_def)

text \<open>One operator token: the unary forms, then the reduction and the push.  The result is the stacks and
  \<open>lasttok\<close>.\<close>

definition operator_step :: "evaluator \<Rightarrow> u8 list list \<Rightarrow> (nat \<Rightarrow> bool) \<Rightarrow> u8 \<Rightarrow> u8 \<Rightarrow> u8 list \<Rightarrow> var_or_num list \<Rightarrow>
    (var_or_num list \<times> u8 list \<times> u8) calc" where
  "operator_step ev names room op lasttok stack numstack =
     (let op = fix_unary lasttok op in
      if reduces op
      then if \<not> after_num lasttok then bad Syntax
        else andthen (reduce ev names op stack numstack) (\<lambda>(closed, stack, numstack).
          if closed then ok (numstack, stack, TOK_NUM)
          else andthen (push_op room op stack) (\<lambda>stack. ok (numstack, stack, op)))
      else andthen (push_op room op stack) (\<lambda>stack. ok (numstack, stack, op)))"

text \<open>The loop over the tokens.  \<open>appended\<close> is set when the right parenthesis has been put behind the
  string.\<close>

function arith_loop :: "evaluator \<Rightarrow> u8 list list \<Rightarrow> (nat \<Rightarrow> bool) \<Rightarrow> (nat \<Rightarrow> bool) \<Rightarrow> bool \<Rightarrow> u8 list \<Rightarrow> var_or_num list \<Rightarrow>
    u8 list \<Rightarrow> u8 \<Rightarrow> int calc" where
  "arith_loop ev names num_room op_room appended expr numstack stack lasttok =
     (let expr = dropWhile blank expr in
      if expr = []
      then if \<not> appended then arith_loop ev names num_room op_room True [41] numstack stack lasttok
        else (case numstack of
            [n] \<Rightarrow> andthen (arith_lookup_val ev names n) (\<lambda>n. ok (vn_val n))
          | _ \<Rightarrow> bad Syntax)
      else if endofname expr \<noteq> []
      then andthen (push_num num_room (name_entry (endofname expr)) numstack) (\<lambda>numstack.
        arith_loop ev names num_room op_room appended (drop (length (endofname expr)) expr) numstack stack TOK_NUM)
      else if 48 \<le> hd expr \<and> hd expr \<le> 57
      then (case number_body expr of
          None \<Rightarrow> bad Syntax
        | Some (v, rest) \<Rightarrow> andthen (push_num num_room (num_entry (number_value v)) numstack) (\<lambda>numstack.
            arith_loop ev names num_room op_room appended rest numstack stack TOK_NUM))
      else (case match_op op_tokens expr of
          None \<Rightarrow> bad Syntax
        | Some (op, rest) \<Rightarrow> andthen (operator_step ev names op_room op lasttok stack numstack) (\<lambda>(numstack, stack, lasttok).
            arith_loop ev names num_room op_room appended rest numstack stack lasttok)))"
  by pat_completeness auto
termination
proof (relation "measure (\<lambda>(_, _, _, _, appended, expr, _). length expr + (if appended then 0 else 2))", goal_cases)
  case (2 ev names num_room op_room appended expr numstack stack lasttok x)
  then show ?case by (auto simp: dropWhile_eq_Nil_conv)
next
  case (3 ev names num_room op_room appended expr numstack stack lasttok x xa)
  then show ?case using endofname_nonempty [of x] length_dropWhile_le [of blank expr] by (auto simp del: length_drop)
next
  case (4 ev names num_room op_room appended expr numstack stack lasttok x xa xb xc xd)
  then show ?case using number_body_shorter length_dropWhile_le [of blank expr] by fastforce
next
  case (5 ev names num_room op_room appended expr numstack stack lasttok)
  then show ?case using match_op_shorter [OF op_tokens_nonempty] length_dropWhile_le [of blank expr] by fastforce
qed auto

declare arith_loop.simps [simp del]

text \<open>\<open>expr_len\<close> counts the string without leading white space and two more characters.\<close>

fun evaluate_string :: "nat \<Rightarrow> u8 list list \<Rightarrow> u8 list \<Rightarrow> int calc" where
  "evaluate_string 0 names expr = bad Out_Of_Fuel"
| "evaluate_string (Suc fuel) names expr =
     (let expr = dropWhile blank expr; expr_len = length expr + 2 in
      if expr = [] then ok 0
      else arith_loop (evaluate_string fuel) names (\<lambda>n. n < expr_len div 2) (\<lambda>n. n < expr_len) False expr [] [TOK_LPAREN] TOK_LPAREN)"

definition arith :: "nat \<Rightarrow> u8 list \<Rightarrow> int calc" where
  "arith fuel expr = evaluate_string fuel [] expr"

end
