(* ===== verification/Arith_Stacks.thy ===== *)
theory Arith_Stacks
  imports Shell_Arith
begin

text \<open>
  The two stacks of \<open>evaluate_string\<close>.  The number stack has \<open>(strlen + 2) / 2\<close> entries, and a comment
  leaves it as an exercise to prove that this is enough.  It is, when every numeral of the expression is
  read as a whole; a numeral such as \<open>08\<close> counts as two numbers, and then it is not.
\<close>

section \<open>What a computation yields\<close>

definition yields :: "'a calc \<Rightarrow> ('a \<Rightarrow> bool) \<Rightarrow> bool" where
  "yields m P \<longleftrightarrow> (\<forall>v x w. m v = (Inr x, w) \<longrightarrow> P x)"

lemma yields_ok [intro]: "P x \<Longrightarrow> yields (ok x) P"
  by (simp add: yields_def ok_def)

lemma yields_bad [intro, simp]: "yields (bad e) P"
  by (simp add: yields_def bad_def)

lemma yields_andthen: "yields m Q \<Longrightarrow> (\<And>x. Q x \<Longrightarrow> yields (f x) P) \<Longrightarrow> yields (andthen m f) P"
  unfolding yields_def andthen_def by (fastforce split: prod.splits sum.splits)

lemma yields_any [simp]: "yields m (\<lambda>_. True)"
  by (simp add: yields_def)

lemma yields_then: "(\<And>x. yields (f x) P) \<Longrightarrow> yields (andthen m f) P"
  by (rule yields_andthen [of _ "\<lambda>_. True"]) simp_all

lemma andthen_cong_yields: "yields m P \<Longrightarrow> (\<And>x. P x \<Longrightarrow> f x = g x) \<Longrightarrow> andthen m f = andthen m g"
  by (fastforce simp: yields_def andthen_def fun_eq_iff split: prod.splits sum.splits)

section \<open>Operators only shrink the number stack\<close>

lemma yields_store: "yields (store_result op t r numstack) (\<lambda>numstack'. length numstack' = Suc (length numstack))"
  by (auto simp: store_result_def Let_def intro!: yields_then yields_ok split: option.split)

lemma yields_apply: "yields (arith_apply ev names op numstack) (\<lambda>numstack'. length numstack' \<le> length numstack)"
proof -
  have store: "yields (store_result op t r below) (\<lambda>numstack'. length numstack' \<le> n)" if "Suc (length below) \<le> n" for op t r below n
    using yields_store [of op t r below] that by (auto simp: yields_def)
  show ?thesis
    by (auto simp: arith_apply_def intro!: yields_then store split: list.split)
qed

lemma yields_reduce:
  "yields (reduce ev names op stack numstack) (\<lambda>(closed, stack', numstack').
     length stack' \<le> length stack \<and> length numstack' \<le> length numstack \<and> (op = TOK_RPAREN \<longrightarrow> closed))"
proof (induction stack arbitrary: numstack)
  case Nil
  then show ?case by (auto intro!: yields_ok)
next
  case (Cons prev_op stack)
  have "yields (andthen (arith_apply ev names prev_op numstack) (reduce ev names op stack)) (\<lambda>(closed, stack', numstack').
      length stack' \<le> Suc (length stack) \<and> length numstack' \<le> length numstack \<and> (op = TOK_RPAREN \<longrightarrow> closed))"
  proof (rule yields_andthen [OF yields_apply])
    fix n :: "var_or_num list" assume "length n \<le> length numstack"
    then show "yields (reduce ev names op stack n) (\<lambda>(closed, stack', numstack').
        length stack' \<le> Suc (length stack) \<and> length numstack' \<le> length numstack \<and> (op = TOK_RPAREN \<longrightarrow> closed))"
      using Cons [of n] by (fastforce simp: yields_def)
  qed
  then show ?case by (auto simp: Let_def intro!: yields_ok)
qed

section \<open>Numerals read as a whole\<close>

lemma length_dropWhile_less: "length (dropWhile P xs) < Suc (length xs)"
  by (simp add: le_imp_less_Suc length_dropWhile_le)

function good_numerals :: "u8 list \<Rightarrow> bool" where
  "good_numerals [] \<longleftrightarrow> True"
| "good_numerals (c # cs) \<longleftrightarrow>
     (if is_in_name c
      then (is_name c \<or> (case number_body (takeWhile is_in_name (c # cs)) of Some (_, []) \<Rightarrow> True | _ \<Rightarrow> False))
        \<and> good_numerals (dropWhile is_in_name cs)
      else good_numerals cs)"
  by pat_completeness auto
termination by (relation "measure length") (auto simp: length_dropWhile_less)

lemma blank_not_name: "blank c \<Longrightarrow> \<not> is_in_name c"
  by (auto simp: blank_def is_in_name_def is_name_def word_le_nat_alt)

lemma good_skip: "good_numerals (xs @ ys) = good_numerals ys" if "\<forall>c\<in>set xs. \<not> is_in_name c"
  using that by (induction xs) auto

lemma good_blank: "good_numerals expr \<Longrightarrow> good_numerals (dropWhile blank expr)"
  using good_skip [of "takeWhile blank expr" "dropWhile blank expr"] blank_not_name by (auto dest: set_takeWhileD)

lemma digits_append:
  assumes "dropWhile (\<lambda>c. digit_of c < base) cs = []" "r = [] \<or> \<not> is_in_name (hd r)" "base \<le> 16"
  shows "takeWhile (\<lambda>c. digit_of c < base) (cs @ r) = takeWhile (\<lambda>c. digit_of c < base) cs"
    and "dropWhile (\<lambda>c. digit_of c < base) (cs @ r) = r"
proof -
  have all: "\<forall>c\<in>set cs. digit_of c < base" using assms(1) by (simp add: dropWhile_eq_Nil_conv)
  have "digit_of c = 99" if "\<not> is_in_name c" for c
    using that by (auto simp: digit_of_def is_in_name_def is_name_def)
  then have "takeWhile (\<lambda>c. digit_of c < base) r = []" "dropWhile (\<lambda>c. digit_of c < base) r = r"
    using assms(2,3) by (cases r; force)+
  then show "takeWhile (\<lambda>c. digit_of c < base) (cs @ r) = takeWhile (\<lambda>c. digit_of c < base) cs"
    and "dropWhile (\<lambda>c. digit_of c < base) (cs @ r) = r"
    using all by (simp_all add: takeWhile_append2 dropWhile_append2 takeWhile_eq_all_conv [THEN iffD2])
qed

definition hex_prefix :: "u8 list \<Rightarrow> bool" where
  "hex_prefix cs \<longleftrightarrow> length cs > 2 \<and> cs ! 0 = 48 \<and> (cs ! 1 = 120 \<or> cs ! 1 = 88) \<and> digit_of (cs ! 2) < 16"

definition based :: "u8 list \<Rightarrow> nat \<times> u8 list" where
  "based cs = (if hex_prefix cs then (16, drop 2 cs) else if cs \<noteq> [] \<and> hd cs = 48 then (8, cs) else (10, cs))"

lemma number_body_based:
  "number_body cs = (case based cs of (base, cs) \<Rightarrow>
     if takeWhile (\<lambda>c. digit_of c < base) cs = [] then None
     else Some (foldl (\<lambda>v c. base * v + digit_of c) 0 (takeWhile (\<lambda>c. digit_of c < base) cs), dropWhile (\<lambda>c. digit_of c < base) cs))"
  by (simp add: number_body_def based_def hex_prefix_def Let_def split: prod.splits)

lemma number_body_append:
  assumes run: "number_body run = Some (v, [])" and r: "r = [] \<or> \<not> is_in_name (hd r)"
  shows "number_body (run @ r) = Some (v, r)"
proof -
  obtain base cs where b: "based run = (base, cs)" by fastforce
  have cs: "dropWhile (\<lambda>c. digit_of c < base) cs = []" "takeWhile (\<lambda>c. digit_of c < base) cs \<noteq> []"
    using run b by (auto simp: number_body_based split: if_splits)
  then have run': "run \<noteq> []" using b by (auto simp: based_def hex_prefix_def split: if_splits)
  have base: "base \<le> 16" using b by (auto simp: based_def split: if_splits)
  have same: "hex_prefix (run @ r) = hex_prefix run"
  proof (cases "2 < length run")
    case True
    then show ?thesis using run' by (auto simp: hex_prefix_def nth_append)
  next
    case False
    have "\<not> hex_prefix (run @ r)"
    proof
      assume h: "hex_prefix (run @ r)"
      show False
      proof (cases run rule: remdups_adj.cases)
        case (2 x)
        then have "r \<noteq> [] \<and> (hd r = 120 \<or> hd r = 88)" using h by (cases r) (auto simp: hex_prefix_def)
        then show False using r by (auto simp: is_in_name_def is_name_def)
      next
        case (3 x y zs)
        then have "run = [48, y]" "y = 120 \<or> y = 88" using h False by (auto simp: hex_prefix_def)
        then have "based run = (8, [48, y])" "\<not> digit_of y < 8" by (auto simp: based_def hex_prefix_def digit_of_def)
        then show False using cs(1) b by (auto split: if_splits)
      qed (use run' in simp)
    qed
    then show ?thesis using False by (simp add: hex_prefix_def)
  qed
  have "based (run @ r) = (base, cs @ r)"
    using b run' same by (auto simp: based_def hex_prefix_def split: if_splits)
  then show ?thesis using run digits_append [OF cs(1) r base] cs(2) b by (simp add: number_body_based)
qed

section \<open>Room on both stacks\<close>

text \<open>How many numbers a good string can still push.\<close>

definition numbers_left :: "u8 list \<Rightarrow> nat" where
  "numbers_left expr = (if expr \<noteq> [] \<and> is_in_name (hd expr) then (length expr + 1) div 2 else length expr div 2)"

lemma numbers_left_le: "numbers_left expr \<le> (length expr + 1) div 2"
  by (simp add: numbers_left_def)

lemma numbers_left_blank: "numbers_left (dropWhile blank expr) \<le> numbers_left expr"
proof (cases "expr \<noteq> [] \<and> blank (hd expr)")
  case True
  then obtain c cs where e: "expr = c # cs" "blank c" by (cases expr) auto
  have "numbers_left (dropWhile blank cs) \<le> (length cs + 1) div 2"
    using numbers_left_le [of "dropWhile blank cs"] length_dropWhile_le [of blank cs] by (meson div_le_mono add_le_mono1 le_trans)
  then show ?thesis using e blank_not_name [OF e(2)] by (simp add: numbers_left_def [of "c # cs"])
next
  case False
  then show ?thesis by (cases expr) auto
qed

text \<open>A name or a number takes everything up to the next character outside names.\<close>

lemma numbers_left_token:
  assumes "expr \<noteq> []" "is_in_name (hd expr)"
  shows "Suc (numbers_left (dropWhile is_in_name expr)) \<le> numbers_left expr"
proof -
  let ?r = "dropWhile is_in_name expr"
  have "\<not> (?r \<noteq> [] \<and> is_in_name (hd ?r))" by (metis hd_dropWhile)
  then have "numbers_left ?r = length ?r div 2" unfolding numbers_left_def by (rule if_not_P)
  moreover have "length ?r < length expr" using assms by (cases expr) (simp_all add: length_dropWhile_less)
  ultimately show ?thesis using assms by (simp add: numbers_left_def)
qed

lemma good_token:
  assumes "good_numerals expr" "expr \<noteq> []" "is_in_name (hd expr)"
  shows "good_numerals (dropWhile is_in_name expr)"
  using assms by (cases expr) auto

lemma good_number:
  assumes "good_numerals expr" "expr \<noteq> []" "is_in_name (hd expr)" "\<not> is_name (hd expr)"
  obtains v where "number_body expr = Some (v, dropWhile is_in_name expr)"
proof -
  obtain c cs where e: "expr = c # cs" using assms(2) by (cases expr) auto
  then obtain v where "number_body (takeWhile is_in_name expr) = Some (v, [])"
    using assms by (auto split: option.splits list.splits prod.splits)
  then have "number_body (takeWhile is_in_name expr @ dropWhile is_in_name expr) = Some (v, dropWhile is_in_name expr)"
    by (rule number_body_append) (metis hd_dropWhile)
  then show thesis using that by simp
qed

lemma endofname_token: "endofname expr \<noteq> [] \<Longrightarrow>
    expr \<noteq> [] \<and> is_in_name (hd expr) \<and> is_name (hd expr) \<and> drop (length (endofname expr)) expr = dropWhile is_in_name expr"
  by (auto simp: endofname_def dropWhile_eq_drop is_in_name_def split: if_splits)

lemma endofname_none: "endofname expr = [] \<Longrightarrow> expr \<noteq> [] \<Longrightarrow> \<not> is_name (hd expr)"
  by (cases expr) (auto simp: endofname_def is_in_name_def)

text \<open>An operator has no character of a name.\<close>

lemma match_op_drop: "match_op table expr = Some (op, rest) \<Longrightarrow> \<exists>p. (p, op) \<in> set table \<and> expr = p @ rest"
  by (induction table expr rule: match_op.induct) (auto split: if_splits, metis append_take_drop_id)

lemma op_tokens_chars: "(p, op) \<in> set op_tokens \<Longrightarrow> p \<noteq> [] \<and> (\<forall>c\<in>set p. \<not> is_in_name c)"
proof -
  have "list_all (\<lambda>(p, op). p \<noteq> [] \<and> list_all (\<lambda>c. \<not> is_in_name c) p) op_tokens" by code_simp
  then show "(p, op) \<in> set op_tokens \<Longrightarrow> p \<noteq> [] \<and> (\<forall>c\<in>set p. \<not> is_in_name c)" by (auto simp: list_all_iff)
qed

lemma operator_step_room:
  assumes "length stack < cap"
  shows "operator_step ev names (\<lambda>n. n < cap) op lasttok stack numstack = operator_step ev names (\<lambda>_. True) op lasttok stack numstack"
proof -
  have "andthen (reduce ev names op' stack numstack) (\<lambda>(closed, stack, numstack).
      if closed then ok (numstack, stack, TOK_NUM) else andthen (push_op (\<lambda>n. n < cap) op' stack) (\<lambda>stack. ok (numstack, stack, op')))
    = andthen (reduce ev names op' stack numstack) (\<lambda>(closed, stack, numstack).
      if closed then ok (numstack, stack, TOK_NUM) else andthen (push_op (\<lambda>_. True) op' stack) (\<lambda>stack. ok (numstack, stack, op')))" for op'
    by (rule andthen_cong_yields [OF yields_reduce]) (use assms in \<open>auto simp: push_op_def split: prod.splits\<close>)
  then show ?thesis using assms by (simp add: operator_step_def Let_def push_op_def)
qed

lemma yields_step:
  "yields (operator_step ev names room op lasttok stack numstack) (\<lambda>(numstack', stack', lasttok').
     length numstack' \<le> length numstack \<and> length stack' \<le> length stack + (if op = TOK_RPAREN then 0 else 1))"
proof -
  have rp: "fix_unary lasttok op = TOK_RPAREN \<longleftrightarrow> op = TOK_RPAREN"
    by (auto simp: fix_unary_def tok_defs)
  have push: "yields (push_op room op' stack') (\<lambda>s. length s = Suc (length stack'))" for op' stack'
    by (auto simp: push_op_def)
  have sure: "reduces TOK_RPAREN" by (simp add: reduces_def PREC_def tok_defs UNARYPREC_def SPEC_PREC_def)
  have body: "yields (if closed then ok (n, st, TOK_NUM) else andthen (push_op room op' st) (\<lambda>stack. ok (n, stack, op')))
      (\<lambda>(numstack', stack', lasttok'). length numstack' \<le> length numstack \<and> length stack' \<le> length stack + (if op = TOK_RPAREN then 0 else 1))"
    if "length st \<le> length stack" "length n \<le> length numstack" "op = TOK_RPAREN \<longrightarrow> closed" for closed st n op'
    using that by (cases closed) (auto intro!: yields_andthen [OF push] yields_ok)
  have reduced: "yields (andthen (reduce ev names (fix_unary lasttok op) stack numstack) (\<lambda>(closed, stack, numstack).
        if closed then ok (numstack, stack, TOK_NUM) else andthen (push_op room (fix_unary lasttok op) stack) (\<lambda>stack. ok (numstack, stack, fix_unary lasttok op))))
      (\<lambda>(numstack', stack', lasttok'). length numstack' \<le> length numstack \<and> length stack' \<le> length stack + (if op = TOK_RPAREN then 0 else 1))"
  proof (rule yields_andthen [OF yields_reduce], clarify)
    fix closed and st :: "u8 list" and n
    assume "length st \<le> length stack" "length n \<le> length numstack" "fix_unary lasttok op = TOK_RPAREN \<longrightarrow> closed"
    then show "yields (if closed then ok (n, st, TOK_NUM) else andthen (push_op room (fix_unary lasttok op) st) (\<lambda>stack. ok (n, stack, fix_unary lasttok op)))
        (\<lambda>(numstack', stack', lasttok'). length numstack' \<le> length numstack \<and> length stack' \<le> length stack + (if op = TOK_RPAREN then 0 else 1))"
      by (intro body) (simp_all add: rp)
  qed
  have "op \<noteq> TOK_RPAREN" if "\<not> reduces (fix_unary lasttok op)" using that sure rp by auto
  then show ?thesis unfolding operator_step_def Let_def
    using reduced by (auto intro!: yields_andthen [OF push] yields_ok)
qed

text \<open>The cases of the loop, by what follows the white space.\<close>

lemma loop_append:
  "dropWhile blank expr = [] \<Longrightarrow> \<not> appended \<Longrightarrow>
   arith_loop ev names nr opr appended expr n st l = arith_loop ev names nr opr True [41] n st l"
  by (subst arith_loop.simps) (simp only: Let_def simp_thms if_True)

lemma loop_finish:
  "dropWhile blank expr = [] \<Longrightarrow> appended \<Longrightarrow> arith_loop ev names nr opr appended expr n st l =
   (case n of [n] \<Rightarrow> andthen (arith_lookup_val ev names n) (\<lambda>n. ok (vn_val n)) | _ \<Rightarrow> bad Syntax)"
  by (subst arith_loop.simps) (simp only: Let_def simp_thms if_True if_False)

lemma loop_name:
  assumes "dropWhile blank expr = e" "endofname e \<noteq> []"
  shows "arith_loop ev names nr opr appended expr n st l = andthen (push_num nr (name_entry (endofname e)) n)
    (\<lambda>n. arith_loop ev names nr opr appended (dropWhile is_in_name e) n st TOK_NUM)"
proof -
  have "e \<noteq> []" "drop (length (endofname e)) e = dropWhile is_in_name e" using endofname_token [OF assms(2)] by auto
  then show ?thesis using assms by (subst arith_loop.simps) (simp only: Let_def if_False if_True simp_thms)
qed

lemma loop_number:
  assumes "dropWhile blank expr = e" "e \<noteq> []" "48 \<le> hd e \<and> hd e \<le> 57" "number_body e = Some (v, rest)"
  shows "arith_loop ev names nr opr appended expr n st l = andthen (push_num nr (num_entry (number_value v)) n)
    (\<lambda>n. arith_loop ev names nr opr appended rest n st TOK_NUM)"
proof -
  have "endofname e = []" using assms(2,3) by (auto simp: endofname_def is_name_def word_le_nat_alt)
  then show ?thesis using assms by (subst arith_loop.simps) (simp only: Let_def if_False if_True simp_thms option.case prod.case)
qed

lemma loop_number_bad:
  assumes "dropWhile blank expr = e" "e \<noteq> []" "48 \<le> hd e \<and> hd e \<le> 57" "number_body e = None"
  shows "arith_loop ev names nr opr appended expr n st l = bad Syntax"
proof -
  have "endofname e = []" using assms(2,3) by (auto simp: endofname_def is_name_def word_le_nat_alt)
  then show ?thesis using assms by (subst arith_loop.simps) (simp only: Let_def if_False if_True simp_thms option.case)
qed

lemma loop_operator:
  assumes "dropWhile blank expr = e" "e \<noteq> []" "\<not> is_in_name (hd e)"
  shows "arith_loop ev names nr opr appended expr n st l = (case match_op op_tokens e of None \<Rightarrow> bad Syntax
    | Some (op, rest) \<Rightarrow> andthen (operator_step ev names opr op l st n) (\<lambda>(n, st, l).
        arith_loop ev names nr opr appended rest n st l))"
proof -
  have "endofname e = []" "\<not> (48 \<le> hd e \<and> hd e \<le> 57)" using assms(3) by (auto simp: endofname_def is_in_name_def)
  then show ?thesis using assms by (subst arith_loop.simps) (simp only: Let_def if_False if_True simp_thms)
qed

lemma loop_room:
  assumes "good_numerals expr" and "numbers_left expr + length numstack \<le> ncap"
    and "length stack + length expr + (if appended then 0 else 1) \<le> scap"
  shows "arith_loop ev names (\<lambda>n. n < ncap) (\<lambda>n. n < scap) appended expr numstack stack lasttok =
    arith_loop ev names (\<lambda>_. True) (\<lambda>_. True) appended expr numstack stack lasttok"
  using assms
proof (induction "length expr + (if appended then 0 else 2)" arbitrary: appended expr numstack stack lasttok rule: less_induct)
  case less
  let ?e = "dropWhile blank expr"
  have good: "good_numerals ?e" and left: "numbers_left ?e + length numstack \<le> ncap" and ops: "length ?e \<le> length expr"
    using good_blank [OF less(2)] numbers_left_blank [of expr] less(3) length_dropWhile_le [of blank expr] by auto
  consider "?e = []" "\<not> appended" | "?e = []" "appended" | "?e \<noteq> []" "endofname ?e \<noteq> []"
    | "?e \<noteq> []" "endofname ?e = []" "48 \<le> hd ?e \<and> hd ?e \<le> 57" | "?e \<noteq> []" "endofname ?e = []" "\<not> (48 \<le> hd ?e \<and> hd ?e \<le> 57)" by blast
  then show ?case
  proof cases
    case 1
    have "arith_loop ev names (\<lambda>n. n < ncap) (\<lambda>n. n < scap) True [41] numstack stack lasttok =
        arith_loop ev names (\<lambda>_. True) (\<lambda>_. True) True [41] numstack stack lasttok"
      using 1 less(3,4) by (intro less(1)) (auto simp: numbers_left_def is_in_name_def is_name_def)
    then show ?thesis using 1 by (simp add: loop_append del: dropWhile_eq_Nil_conv)
  next
    case 2
    then show ?thesis by (simp add: loop_finish del: dropWhile_eq_Nil_conv)
  next
    case 3
    note t = endofname_token [OF 3(2)]
    let ?r = "dropWhile is_in_name ?e"
    have l: "Suc (numbers_left ?r) \<le> numbers_left ?e" "length ?r < length ?e" "good_numerals ?r"
      using numbers_left_token [of ?e] t good_token [OF good] endofname_nonempty [OF 3(2)] by simp_all
    have "arith_loop ev names (\<lambda>n. n < ncap) (\<lambda>n. n < scap) appended ?r (x # numstack) stack TOK_NUM =
        arith_loop ev names (\<lambda>_. True) (\<lambda>_. True) appended ?r (x # numstack) stack TOK_NUM" for x
      using l left ops less(4) by (intro less(1)) auto
    moreover have "push_num (\<lambda>n. n < ncap) x numstack = ok (x # numstack)" "push_num (\<lambda>_. True) x numstack = ok (x # numstack)" for x
      using l left by (simp_all add: push_num_def)
    ultimately show ?thesis by (simp only: loop_name [OF refl 3(2)] calc_simps)
  next
    case 4
    have t: "is_in_name (hd ?e)" "\<not> is_name (hd ?e)" using endofname_none [OF 4(2,1)] 4(3) by (simp_all add: is_in_name_def)
    let ?r = "dropWhile is_in_name ?e"
    obtain v where v: "number_body ?e = Some (v, ?r)" using good_number [OF good 4(1) t] by auto
    have l: "Suc (numbers_left ?r) \<le> numbers_left ?e" "length ?r < length ?e" "good_numerals ?r"
      using numbers_left_token [of ?e] 4(1) t good_token [OF good] number_body_shorter [OF v] by simp_all
    have "arith_loop ev names (\<lambda>n. n < ncap) (\<lambda>n. n < scap) appended ?r (x # numstack) stack TOK_NUM =
        arith_loop ev names (\<lambda>_. True) (\<lambda>_. True) appended ?r (x # numstack) stack TOK_NUM" for x
      using l left ops less(4) by (intro less(1)) auto
    moreover have "push_num (\<lambda>n. n < ncap) x numstack = ok (x # numstack)" "push_num (\<lambda>_. True) x numstack = ok (x # numstack)" for x
      using l left by (simp_all add: push_num_def)
    ultimately show ?thesis by (simp only: loop_number [OF refl 4(1,3) v] calc_simps)
  next
    case 5
    have nn: "\<not> is_in_name (hd ?e)" using endofname_none [OF 5(2,1)] 5(3) by (simp add: is_in_name_def)
    show ?thesis
    proof (cases "match_op op_tokens ?e")
      case None
      then show ?thesis by (simp only: loop_operator [OF refl 5(1) nn] option.case)
    next
      case (Some r)
      then obtain op rest where m: "match_op op_tokens ?e = Some (op, rest)" by (cases r) auto
      obtain p where p: "(p, op) \<in> set op_tokens" "?e = p @ rest" using match_op_drop [OF m] by auto
      note chars = op_tokens_chars [OF p(1)]
      have rest: "good_numerals rest" using good good_skip [of p rest] chars p(2) by simp
      have "numbers_left ?e = length ?e div 2" using nn unfolding numbers_left_def by (intro if_not_P) simp
      moreover have len: "length rest < length ?e" using p(2) chars by (cases p) auto
      moreover have "(length rest + 1) div 2 \<le> length ?e div 2" using len by (intro div_le_mono) simp
      ultimately have nl: "numbers_left rest \<le> numbers_left ?e" using numbers_left_le [of rest] by simp
      have room: "length stack < scap" using less(4) len ops by (simp split: if_splits)
      have "andthen (operator_step ev names (\<lambda>_. True) op lasttok stack numstack) (\<lambda>(numstack, stack, lasttok).
            arith_loop ev names (\<lambda>n. n < ncap) (\<lambda>n. n < scap) appended rest numstack stack lasttok) =
          andthen (operator_step ev names (\<lambda>_. True) op lasttok stack numstack) (\<lambda>(numstack, stack, lasttok).
            arith_loop ev names (\<lambda>_. True) (\<lambda>_. True) appended rest numstack stack lasttok)"
      proof (rule andthen_cong_yields [OF yields_step], clarify)
        fix n :: "var_or_num list" and st :: "u8 list" and l
        assume "length n \<le> length numstack" "length st \<le> length stack + (if op = TOK_RPAREN then 0 else 1)"
        then show "arith_loop ev names (\<lambda>n. n < ncap) (\<lambda>n. n < scap) appended rest n st l =
            arith_loop ev names (\<lambda>_. True) (\<lambda>_. True) appended rest n st l"
          using rest nl left len ops less(4) by (intro less(1)) (auto split: if_splits)
      qed
      then show ?thesis
        by (simp only: loop_operator [OF refl 5(1) nn] m option.case prod.case operator_step_room [OF room])
    qed
  qed
qed

end
