(* ===== verification/Arith_Overflow.thy ===== *)
theory Arith_Overflow
  imports Arith_Stacks Decimal
begin

text \<open>
  Errors that a computation avoids while it keeps an invariant of the variables, shown once for both errors
  that are limits of the machine rather than faults of the expression, the stack overflow and the fuel, and
  used here for the first: an expression whose numerals are read as a whole never overflows the number stack.
\<close>

section \<open>Avoiding an error\<close>

definition avoids :: "arith_error \<Rightarrow> (vars \<Rightarrow> bool) \<Rightarrow> 'a calc \<Rightarrow> bool" where
  "avoids e I m \<longleftrightarrow> (\<forall>v. I v \<longrightarrow> fst (m v) \<noteq> Inl e \<and> I (snd (m v)))"

lemma avoids_andthen: "avoids e I m \<Longrightarrow> (\<And>x. avoids e I (f x)) \<Longrightarrow> avoids e I (andthen m f)"
  unfolding avoids_def andthen_def by (fastforce split: prod.splits sum.splits)

lemma avoids_ok [simp]: "avoids e I (ok x)"
  by (simp add: avoids_def ok_def)

lemma avoids_bad: "e' \<noteq> e \<Longrightarrow> avoids e I (bad e')"
  by (simp add: avoids_def bad_def)

lemma avoids_if: "avoids e I a \<Longrightarrow> avoids e I b \<Longrightarrow> avoids e I (if c then a else b)"
  by simp

text \<open>A look-up that avoids the error, and stores that keep the invariant, make everything else avoid it.\<close>

locale limit =
  fixes e :: arith_error and I :: "vars \<Rightarrow> bool" and ev :: evaluator and names :: "u8 list list"
  assumes lookup: "avoids e I (arith_lookup_val ev names t)"
    and stores: "avoids e I (setvar x (dec_int r))"
    and kind: "e = Stack_Overflow \<or> e = Out_Of_Fuel"
begin

lemma error [simp]: "e' \<noteq> Stack_Overflow \<Longrightarrow> e' \<noteq> Out_Of_Fuel \<Longrightarrow> avoids e I (bad e')"
  using kind by (auto intro: avoids_bad)

lemma checked: "avoids e I (checked r)"
  by (simp add: checked_def)

lemma exponent: "avoids e I (exponent_loop n r c)"
  by (induction n arbitrary: c) (auto intro!: avoids_andthen checked)

lemma unary: "avoids e I (unary_value op r)"
  unfolding unary_value_def by (intro avoids_if avoids_ok checked)

lemma binary: "avoids e I (binary_value op l r s)"
  unfolding binary_value_def shift_right_def shift_left_def
  by (intro avoids_if avoids_ok checked exponent avoids_andthen error) simp_all

lemma store: "avoids e I (store_result op t r n)"
  by (auto simp: store_result_def Let_def intro!: avoids_andthen stores split: option.split)

lemma applied: "avoids e I (arith_apply ev names op n)"
  by (auto simp: arith_apply_def intro!: avoids_andthen lookup unary binary store split: list.split)

lemma reduced: "avoids e I (reduce ev names op st n)"
  by (induction st arbitrary: n) (auto simp: Let_def intro!: avoids_andthen applied)

end

locale limit_room = limit +
  fixes nr opr :: "nat \<Rightarrow> bool"
  assumes room: "e = Stack_Overflow \<Longrightarrow> nr n \<and> opr n"
begin

lemma push: "avoids e I (push_num nr x n)"
  using kind room by (auto simp: push_num_def intro: avoids_bad)

lemma push_operator: "avoids e I (push_op opr x n)"
  using kind room by (auto simp: push_op_def intro: avoids_bad)

lemma step: "avoids e I (operator_step ev names opr op l st n)"
  by (auto simp: operator_step_def Let_def intro!: avoids_andthen reduced push_operator)

lemma loop: "avoids e I (arith_loop ev names nr opr appended expr n st l)"
proof (induction "length expr + (if appended then 0 else 2)" arbitrary: appended expr n st l rule: less_induct)
  case less
  let ?e = "dropWhile blank expr"
  have len: "length ?e \<le> length expr" by (rule length_dropWhile_le)
  consider "?e = []" "\<not> appended" | "?e = []" "appended" | "?e \<noteq> []" "endofname ?e \<noteq> []"
    | "?e \<noteq> []" "endofname ?e = []" "48 \<le> hd ?e \<and> hd ?e \<le> 57" | "?e \<noteq> []" "endofname ?e = []" "\<not> (48 \<le> hd ?e \<and> hd ?e \<le> 57)" by blast
  then show ?case
  proof cases
    case 1
    have "expr \<noteq> [] \<or> expr = []" "length [41 :: u8] + (if True then 0 else 2) < length expr + (if appended then 0 else 2)"
      using 1(2) by simp_all
    then have "avoids e I (arith_loop ev names nr opr True [41] n st l)" by (intro less) simp
    then show ?thesis using 1 by (simp add: loop_append del: dropWhile_eq_Nil_conv)
  next
    case 2
    then show ?thesis by (auto simp: loop_finish simp del: dropWhile_eq_Nil_conv intro!: avoids_andthen lookup split: list.split)
  next
    case 3
    have "length (dropWhile is_in_name ?e) < length expr" using endofname_token [OF 3(2)] endofname_nonempty [OF 3(2)] len by simp
    then show ?thesis using 3 by (simp only: loop_name [OF refl 3(2)]) (intro avoids_andthen push less, simp)
  next
    case 4
    show ?thesis
    proof (cases "number_body ?e")
      case None
      then show ?thesis using 4 by (simp add: loop_number_bad [OF refl 4(1,3)])
    next
      case (Some r)
      then obtain v rest where v: "number_body ?e = Some (v, rest)" by (cases r) auto
      then have "length rest < length expr" using number_body_shorter [OF v] len by simp
      then show ?thesis by (simp only: loop_number [OF refl 4(1,3) v]) (intro avoids_andthen push less, simp)
    qed
  next
    case 5
    have nn: "\<not> is_in_name (hd ?e)" using endofname_none [OF 5(2,1)] 5(3) by (simp add: is_in_name_def)
    show ?thesis
    proof (cases "match_op op_tokens ?e")
      case None
      then show ?thesis by (simp add: loop_operator [OF refl 5(1) nn])
    next
      case (Some r)
      then obtain op rest where m: "match_op op_tokens ?e = Some (op, rest)" by (cases r) auto
      then have "length rest < length expr" using match_op_shorter [OF op_tokens_nonempty m] len by simp
      then have "avoids e I (arith_loop ev names nr opr appended rest n st l)" for n st l by (intro less) simp
      then show ?thesis by (auto simp: loop_operator [OF refl 5(1) nn] m intro!: avoids_andthen step split: prod.split)
    qed
  qed
qed

end

section \<open>Strings the number stack is large enough for\<close>

text \<open>The variables hold good strings.\<close>

definition good_vars :: "vars \<Rightarrow> bool" where
  "good_vars v \<longleftrightarrow> (\<forall>x p. v x = Some p \<longrightarrow> good_numerals p)"

lemma digit_not_name: "d < 10 \<Longrightarrow> is_in_name (48 + of_nat d)"
  by (simp add: is_in_name_def word_le_nat_alt digit_char)

lemma good_dec: "good_numerals (dec_int n)"
proof -
  have digits: "\<forall>c\<in>set (dec_digits m). is_in_name c" for m using dec_digits_digits digit_not_name by fastforce
  have d: "good_numerals (dec_digits m)" for m
  proof -
    obtain c cs where e: "dec_digits m = c # cs" by (cases "dec_digits m") auto
    have all: "is_in_name c" "takeWhile is_in_name (c # cs) = c # cs" "dropWhile is_in_name cs = []"
      using digits [of m] unfolding e by (simp_all add: takeWhile_eq_all_conv)
    have "number_body (c # cs) = Some (m, [])" using number_body_dec [of m] e by simp
    then show ?thesis unfolding e by (simp only: good_numerals.simps all if_True option.case prod.case list.case simp_thms)
  qed
  have "\<not> is_in_name 45" by (simp add: is_in_name_def is_name_def)
  then show ?thesis using d by (simp add: dec_int_def)
qed

lemma good_stores: "avoids e good_vars (setvar x (dec_int r))"
  by (simp add: avoids_def setvar_def good_vars_def good_dec)

text \<open>What a look-up evaluates is the value of a variable under the invariant.\<close>

lemma avoids_lookup:
  assumes "\<And>x v p. I v \<Longrightarrow> v x = Some p \<Longrightarrow> x \<notin> set names \<Longrightarrow> fst (ev (x # names) p v) \<noteq> Inl e \<and> I (snd (ev (x # names) p v))"
    and "e \<noteq> Recursion_Loop"
  shows "avoids e I (arith_lookup_val ev names t)"
proof (cases "vn_var t")
  case (Some x)
  show ?thesis unfolding avoids_def
  proof (intro allI impI)
    fix v assume v: "I v"
    show "fst (arith_lookup_val ev names t v) \<noteq> Inl e \<and> I (snd (arith_lookup_val ev names t v))"
      using v Some assms(1) [OF v, of x] assms(2)
      by (cases "v x") (auto simp: arith_lookup_val_def andthen_def lookupvar_def ok_def bad_def split: prod.split sum.split)
  qed
qed (simp add: arith_lookup_val_def)

lemma evaluate_string_room:
  assumes "good_numerals expr" "dropWhile blank expr \<noteq> []"
  shows "evaluate_string (Suc fuel) names expr =
    arith_loop (evaluate_string fuel) names (\<lambda>_. True) (\<lambda>_. True) False (dropWhile blank expr) [] [TOK_LPAREN] TOK_LPAREN"
proof -
  let ?e = "dropWhile blank expr"
  have "numbers_left ?e + length [] \<le> (length ?e + 2) div 2"
    using numbers_left_le [of ?e] div_le_mono [of "length ?e + 1" "length ?e + 2" 2] by simp
  from loop_room [OF good_blank [OF assms(1)] this, of "[TOK_LPAREN]" False "length ?e + 2"] assms(2)
  show ?thesis by (simp add: Let_def del: dropWhile_eq_Nil_conv)
qed

lemma good_limit:
  assumes "\<And>names p. good_numerals p \<Longrightarrow> avoids Stack_Overflow good_vars (ev names p)"
  shows "limit_room Stack_Overflow good_vars ev names (\<lambda>_. True) (\<lambda>_. True)"
proof
  show "avoids Stack_Overflow good_vars (arith_lookup_val ev names t)" for t
  proof (rule avoids_lookup)
    fix x p and v :: vars assume v: "good_vars v" "v x = Some p"
    then have "good_numerals p" by (simp add: good_vars_def)
    then show "fst (ev (x # names) p v) \<noteq> Inl Stack_Overflow \<and> good_vars (snd (ev (x # names) p v))"
      using assms v(1) by (simp add: avoids_def)
  qed simp
qed (simp_all add: good_stores)

lemma good_evaluation: "good_numerals expr \<Longrightarrow> avoids Stack_Overflow good_vars (evaluate_string fuel names expr)"
proof (induction fuel arbitrary: names expr)
  case (Suc fuel)
  show ?case
  proof (cases "dropWhile blank expr = []")
    case True
    then show ?thesis by (simp add: Let_def del: dropWhile_eq_Nil_conv)
  next
    case False
    show ?thesis unfolding evaluate_string_room [OF Suc.prems False] by (rule limit_room.loop [OF good_limit [OF Suc.IH]])
  qed
qed (simp add: avoids_bad)

interpretation good: limit_room Stack_Overflow good_vars "evaluate_string fuel" names "\<lambda>_. True" "\<lambda>_. True" for fuel names
  by (rule good_limit [OF good_evaluation])

section \<open>The number stack\<close>

text \<open>C34. A number stack of \<open>(strlen + 2) / 2\<close> entries is enough, which the source leaves as an exercise: an
  expression in which every run of letters and digits is a name or one whole numeral never writes past the
  end of either stack, whatever it stores, and whatever is evaluated for its variables, when their values are
  such expressions too.\<close>

theorem stacks_never_overflow:
  assumes "good_numerals expr" "good_vars v"
  shows "fst (arith fuel expr v) \<noteq> Inl Stack_Overflow \<and> good_vars (snd (arith fuel expr v))"
  using good_evaluation [OF assms(1)] assms(2) unfolding arith_def avoids_def by blast

lemma stacks_never_overflow_witness:
  "fst (arith 3 (bytes_of ''a=b+0x1f,(c)'') [bytes_of ''b'' \<mapsto> bytes_of ''2*3'']) \<noteq> Inl Stack_Overflow \<and>
   good_vars (snd (arith 3 (bytes_of ''a=b+0x1f,(c)'') [bytes_of ''b'' \<mapsto> bytes_of ''2*3'']))"
proof (rule stacks_never_overflow)
  show "good_numerals (bytes_of ''a=b+0x1f,(c)'')" by code_simp
  have "good_numerals (bytes_of ''2*3'')" by code_simp
  then show "good_vars [bytes_of ''b'' \<mapsto> bytes_of ''2*3'']" by (simp add: good_vars_def)
qed

text \<open>Without that condition it is not: a zero followed by a digit that is not octal and a name are three
  numbers in three characters.  The number stack of \<open>08a\<close> has two entries, and the third number is written behind it, before anything has looked at the syntax.\<close>

theorem number_stack_overflows: "arith (Suc fuel) (bytes_of ''08a'') v = (Inl Stack_Overflow, v)"
proof -
  let ?loop = "\<lambda>e n. arith_loop (evaluate_string fuel) [] (\<lambda>n. n < 2) (\<lambda>n. n < 5) False e n [TOK_LPAREN]"
  have string: "bytes_of ''08a'' = [48, 56, 97]" by code_simp
  have blanks: "dropWhile blank [48, 56, 97] = [48, 56, 97]" "dropWhile blank [56, 97] = [56, 97]" "dropWhile blank [97] = [97]"
    by code_simp+
  have numbers: "number_body [48, 56, 97] = Some (0, [56, 97])" "number_body [56, 97] = Some (8, [97])" by code_simp+
  have name: "endofname [97] = [97]" by code_simp
  have "?loop [48, 56, 97] [] l = ?loop [56, 97] [num_entry (number_value 0)] TOK_NUM" for l
    using loop_number [OF blanks(1) _ _ numbers(1)] by (simp add: push_num_def calc_simps word_le_nat_alt)
  moreover have "?loop [56, 97] [x] l = ?loop [97] [num_entry (number_value 8), x] TOK_NUM" for x l
    using loop_number [OF blanks(2) _ _ numbers(2)] by (simp add: push_num_def calc_simps word_le_nat_alt)
  moreover have "?loop [97] [x, y] l = bad Stack_Overflow" for x y l
    using loop_name [OF blanks(3)] name by (simp add: push_num_def calc_simps)
  moreover have "length [48, 56, 97 :: u8] + 2 = 5" "(5 :: nat) div 2 = 2" by simp_all
  ultimately show ?thesis
    by (simp only: arith_def string evaluate_string.simps Let_def blanks list.distinct if_False bad_def)
qed

end
