(* ===== verification/Arith_Ends.thy ===== *)
theory Arith_Ends
  imports Arith_Overflow
begin

text \<open>
  The nesting of variables ends: the names being evaluated are distinct, and what an assignment stores is
  a plain number, so that only variables that held an expression from the start are nested in each other.
\<close>

section \<open>The value of a stored number\<close>

text \<open>A token is found in front of any character that no operator has.\<close>

definition operator_char :: "u8 \<Rightarrow> bool" where
  "operator_char c \<longleftrightarrow> list_ex (\<lambda>(p, op). c \<in> set p) op_tokens"

lemma match_op_append:
  assumes "\<forall>(p, op)\<in>set table. \<forall>c\<in>set p. operator_char c" and r: "r = [] \<or> \<not> operator_char (hd r)"
    and "match_op table p = Some (op, rest)"
  shows "match_op table (p @ r) = Some (op, rest @ r)"
  using assms(1,3)
proof (induction table p rule: match_op.induct)
  case (2 q op' table p)
  have "take (length q) (p @ r) = q \<longleftrightarrow> take (length q) p = q"
  proof (cases "length q \<le> length p")
    case False
    have "take (length q) (p @ r) \<noteq> q"
    proof
      assume q: "take (length q) (p @ r) = q"
      show False
      proof (cases r)
        case Nil
        then show False using q False by (metis append_Nil2 length_take min.cobounded1 nle_le)
      next
        case (Cons c cs)
        then have "c \<in> set q" using q False by (cases "length q - length p") (metis append_take_drop_id diff_is_0_eq nle_le, metis in_set_conv_decomp take_Suc_Cons take_append)
        then show False using 2(2) r Cons by auto
      qed
    qed
    moreover have "take (length q) p \<noteq> q" using False by (metis length_take min.cobounded1 nle_le)
    ultimately show ?thesis by simp
  qed simp
  then show ?case using 2 by (auto simp: drop_append split: if_splits)
qed simp

lemma operator_token: "match_op op_tokens p = Some (op, []) \<Longrightarrow> r = [] \<or> \<not> operator_char (hd r) \<Longrightarrow>
    match_op op_tokens (p @ r) = Some (op, r)"
  using match_op_append [of op_tokens r p op "[]"] by (fastforce simp: operator_char_def list_ex_iff)

lemma name_not_operator: "is_in_name c \<Longrightarrow> \<not> operator_char c"
  using op_tokens_chars by (fastforce simp: operator_char_def list_ex_iff)

lemma tokens: "match_op op_tokens [41] = Some (TOK_RPAREN, [])" "match_op op_tokens [45] = Some (TOK_SUB, [])"
  by code_simp+

text \<open>What the number that \<open>setvar\<close> stored evaluates to.\<close>

definition stored_value :: "int \<Rightarrow> int calc" where
  "stored_value r = (if r < 0 then checked (- number_value (nat (- r))) else ok (number_value (nat r)))"

text \<open>The end of an expression: the parenthesis behind the string, and the value that is left.\<close>

lemma loop_end:
  "arith_loop ev names (\<lambda>_. True) (\<lambda>_. True) False [] n st l =
     andthen (operator_step ev names (\<lambda>_. True) TOK_RPAREN l st n) (\<lambda>(n, st, l). case n of
       [n] \<Rightarrow> andthen (arith_lookup_val ev names n) (\<lambda>n. ok (vn_val n)) | _ \<Rightarrow> bad Syntax)"
proof -
  have "\<not> blank 41" "\<not> is_in_name 41" by code_simp+
  moreover have "(\<lambda>(n, st, l). arith_loop ev names (\<lambda>_. True) (\<lambda>_. True) True [] n st l) =
      (\<lambda>(n, st, l). case n of [n] \<Rightarrow> andthen (arith_lookup_val ev names n) (\<lambda>n. ok (vn_val n)) | _ \<Rightarrow> bad Syntax)"
    by (auto simp: fun_eq_iff loop_finish)
  ultimately show ?thesis by (simp add: loop_append loop_operator [OF refl] tokens)
qed

lemma rparen_step: "operator_step ev names room TOK_RPAREN TOK_NUM stack n =
    andthen (reduce ev names TOK_RPAREN stack n) (\<lambda>(closed, stack, numstack).
      if closed then ok (numstack, stack, TOK_NUM) else andthen (push_op room TOK_RPAREN stack) (\<lambda>stack. ok (numstack, stack, TOK_RPAREN)))"
proof -
  have "fix_unary TOK_NUM TOK_RPAREN = TOK_RPAREN" "reduces TOK_RPAREN" "after_num TOK_NUM" by code_simp+
  then show ?thesis by (simp add: operator_step_def)
qed

lemma number_entry_lookup: "arith_lookup_val ev names (num_entry r) = ok (num_entry r)"
  by (simp add: arith_lookup_val_def num_entry_def)

lemma number_entry_value [simp]: "vn_val (num_entry r) = r"
  by (simp add: num_entry_def)

lemma store_uminus: "store_result TOK_UMINUS (num_entry r) r' n = ok (num_entry r' # n)"
proof -
  have "\<not> is_assign_op TOK_UMINUS" by code_simp
  then show ?thesis by (simp add: store_result_def num_entry_def)
qed

lemma evaluate_stored: "evaluate_string (Suc fuel) names (dec_int r) = stored_value r"
proof -
  let ?ev = "evaluate_string fuel"
  let ?loop = "arith_loop ?ev names (\<lambda>_. True) (\<lambda>_. True)"
  have head: "\<exists>d<10. hd (dec_digits m) = 48 + of_nat d" for m
    using dec_digits_digits [of "hd (dec_digits m)" m] by simp
  have inname: "is_in_name (hd (dec_digits m))" for m using head [of m] digit_not_name by auto
  have digit: "48 \<le> hd (dec_digits m) \<and> hd (dec_digits m) \<le> 57" for m
    using head [of m] by (auto simp: word_le_nat_alt digit_char)
  have blanks: "dropWhile blank (dec_digits m) = dec_digits m" for m
    using inname [of m] blank_not_name by (cases "dec_digits m") auto
  have num: "?loop False (dec_digits m) [] stack l = ?loop False [] [num_entry (number_value m)] stack TOK_NUM" for m stack l
    using loop_number [OF blanks dec_digits_nonempty digit number_body_dec] by (simp add: push_num_def calc_simps)
  have base: "reduce ?ev names TOK_RPAREN (TOK_LPAREN # st) n = ok (True, st, n)" for st n by (simp add: Let_def)
  show ?thesis
  proof (cases "r < 0")
    case False
    then have s: "dec_int r = dec_digits (nat r)" by (simp add: dec_int_def)
    have "evaluate_string (Suc fuel) names (dec_int r) = ?loop False (dec_digits (nat r)) [] [TOK_LPAREN] TOK_LPAREN"
      using evaluate_string_room [OF good_dec, of r] by (simp add: s blanks)
    also have "\<dots> = ok (number_value (nat r))"
      unfolding num loop_end rparen_step base by (simp add: calc_simps number_entry_lookup)
    finally show ?thesis using False by (simp add: stored_value_def)
  next
    case True
    let ?m = "nat (- r)"
    have s: "dec_int r = [45] @ dec_digits ?m" using True by (simp add: dec_int_def)
    have n45: "\<not> blank 45" "\<not> is_in_name 45" by code_simp+
    have "match_op op_tokens ([45] @ dec_digits ?m) = Some (TOK_SUB, dec_digits ?m)"
      by (rule operator_token) (simp_all add: tokens name_not_operator inname)
    moreover have "operator_step ?ev names (\<lambda>_. True) TOK_SUB TOK_LPAREN [TOK_LPAREN] [] = ok ([], [TOK_UMINUS, TOK_LPAREN], TOK_UMINUS)"
    proof -
      have "fix_unary TOK_LPAREN TOK_SUB = TOK_UMINUS" "\<not> reduces TOK_UMINUS" by code_simp+
      then show ?thesis by (simp add: operator_step_def push_op_def calc_simps)
    qed
    ultimately have minus: "?loop False ([45] @ dec_digits ?m) [] [TOK_LPAREN] TOK_LPAREN = ?loop False (dec_digits ?m) [] [TOK_UMINUS, TOK_LPAREN] TOK_UMINUS"
      using n45 by (simp add: loop_operator [OF refl] calc_simps)
    have "TOK_UMINUS \<noteq> TOK_LPAREN" "unary_op TOK_UMINUS" by code_simp+
    then have neg: "reduce ?ev names TOK_RPAREN [TOK_UMINUS, TOK_LPAREN] [num_entry v] = andthen (checked (- v)) (\<lambda>v. ok (True, [], [num_entry v]))" for v
      using base by (simp add: Let_def arith_apply_def number_entry_lookup calc_simps unary_value_def store_uminus)
    have "evaluate_string (Suc fuel) names (dec_int r) = ?loop False ([45] @ dec_digits ?m) [] [TOK_LPAREN] TOK_LPAREN"
      using evaluate_string_room [OF good_dec, of r] n45 by (simp add: s)
    also have "\<dots> = checked (- number_value ?m)"
      unfolding minus num loop_end rparen_step neg by (simp add: calc_simps number_entry_lookup)
    finally show ?thesis using True by (simp add: stored_value_def)
  qed
qed

section \<open>Enough fuel\<close>

text \<open>The variables outside \<open>D\<close> hold plain numbers.\<close>

definition expressions_in :: "u8 list set \<Rightarrow> vars \<Rightarrow> bool" where
  "expressions_in D v \<longleftrightarrow> (\<forall>x p. v x = Some p \<longrightarrow> x \<in> D \<or> (\<exists>r. p = dec_int r))"

lemma expressions_stores: "avoids e (expressions_in D) (setvar x (dec_int r))"
  by (auto simp: avoids_def setvar_def expressions_in_def)

lemma enough_fuel:
  assumes "finite D" "card (D - set names) + 2 \<le> fuel"
  shows "avoids Out_Of_Fuel (expressions_in D) (evaluate_string fuel names expr)"
  using assms(2)
proof (induction fuel arbitrary: names expr)
  case (Suc fuel)
  let ?I = "expressions_in D" and ?len = "length (dropWhile blank expr) + 2"
  have "limit_room Out_Of_Fuel ?I (evaluate_string fuel) names (\<lambda>n. n < ?len div 2) (\<lambda>n. n < ?len)"
  proof
    show "avoids Out_Of_Fuel ?I (arith_lookup_val (evaluate_string fuel) names t)" for t
    proof (rule avoids_lookup)
      fix x p and v :: vars assume v: "?I v" "v x = Some p" "x \<notin> set names"
      show "fst (evaluate_string fuel (x # names) p v) \<noteq> Inl Out_Of_Fuel \<and> ?I (snd (evaluate_string fuel (x # names) p v))"
      proof (cases "x \<in> D")
        case True
        have "D - set (x # names) = (D - set names) - {x}" by auto
        then have "Suc (card (D - set (x # names))) = card (D - set names)" using True v(3) assms(1) card_Suc_Diff1 [of "D - set names" x] by simp
        then show ?thesis using Suc v(1) by (simp add: avoids_def)
      next
        case False
        then obtain r where "p = dec_int r" using v by (auto simp: expressions_in_def)
        moreover obtain f where "fuel = Suc f" using Suc.prems by (cases fuel) auto
        ultimately show ?thesis using v(1) by (simp add: evaluate_stored stored_value_def checked_def ok_def bad_def del: evaluate_string.simps)
      qed
    qed simp
  qed (simp_all add: expressions_stores)
  then show ?case by (auto simp: Let_def simp del: dropWhile_eq_Nil_conv intro: limit_room.loop)
qed simp

text \<open>C35. The evaluation ends: when all variables but those of a finite set hold plain numbers, as after an
  assignment, the nesting of evaluations is at most two deeper than that set is large, whatever the
  expression assigns on the way.\<close>

theorem arith_ends:
  assumes "finite D" "\<And>x p. v x = Some p \<Longrightarrow> x \<in> D \<or> (\<exists>r. p = dec_int r)" "card D + 2 \<le> fuel"
  shows "fst (arith fuel expr v) \<noteq> Inl Out_Of_Fuel"
  using enough_fuel [OF assms(1), of "[]" fuel expr] assms(2,3) by (auto simp: avoids_def arith_def expressions_in_def)

lemma arith_ends_witness:
  "fst (arith 3 (bytes_of ''a+a'') [bytes_of ''a'' \<mapsto> bytes_of ''(a=1)+a'']) \<noteq> Inl Out_Of_Fuel"
  by (rule arith_ends [of "{bytes_of ''a''}"]) (auto split: if_splits)

text \<open>What an assignment stores reads back as the same number, except for the least one, whose text is the
  negation of a number that does not fit.\<close>

theorem stored_reads_back:
  assumes "- (2 ^ 63) < r" "r < 2 ^ 63"
  shows "arith (Suc fuel) (dec_int r) v = (Inr r, v)"
proof -
  have "number_value (nat s) = s" if "0 \<le> s" "s < 2 ^ 63" for s
    using that nat_less_iff [of s "2 ^ 64"] by (simp add: number_value_def sint_sbintrunc' signed_take_bit_int_eq_self)
  then have "stored_value r = ok r" using assms by (auto simp: stored_value_def checked_def in_range_def)
  then show ?thesis by (simp add: arith_def evaluate_stored ok_def del: evaluate_string.simps)
qed

lemma stored_reads_back_witness: "arith 1 (dec_int (- 42)) Map.empty = (Inr (- 42), Map.empty)"
  using stored_reads_back [of "- 42" 0 Map.empty] by simp

end
