(* ===== verification/Arith_Trees.thy ===== *)
theory Arith_Trees
  imports Arith_Ends
begin

text \<open>
  What an expression means, by its tree: a definition of the value by recursion on the tree, without tokens
  and without stacks, and the proof that \<open>evaluate_string\<close> on the text of a tree computes it, with the same
  assignments and the same errors in the same order.

  The trees have every operator of \<open>math.c\<close>; the well-formed ones have parentheses wherever precedence and
  associativity ask for them, and where \<open>?:\<close> stands between \<open>?\<close> and \<open>:\<close>.
\<close>

section \<open>Trees and their meaning\<close>

datatype tree = Num nat | Name "u8 list" | Paren tree | Unary u8 tree | Postfix u8 tree | Binary u8 tree tree
  | Conditional tree tree tree

text \<open>An operand is a number, or a variable that has not been looked up.\<close>

datatype operand = Value int | Variable "u8 list"

definition operand_value :: "evaluator \<Rightarrow> u8 list list \<Rightarrow> operand \<Rightarrow> int calc" where
  "operand_value ev names a = (case a of
     Value r \<Rightarrow> ok r
   | Variable x \<Rightarrow> andthen (lookupvar x) (\<lambda>p. case p of
       None \<Rightarrow> ok 0
     | Some p \<Rightarrow> if x \<in> set names then bad Recursion_Loop else ev (x # names) p))"

definition assign :: "operand \<Rightarrow> int \<Rightarrow> unit calc" where
  "assign a r = (case a of Value _ \<Rightarrow> bad Syntax | Variable x \<Rightarrow> setvar x (dec_int r))"

text \<open>\<open>x op= y\<close> stores, \<open>x op y\<close> does not.\<close>

definition finish :: "u8 \<Rightarrow> operand \<Rightarrow> int \<Rightarrow> operand calc" where
  "finish op a r = (if is_assign_op op then andthen (assign a r) (\<lambda>_. ok (Value r)) else ok (Value r))"

text \<open>Both operands are always evaluated, and a variable is looked up after both have been, the right one
  first.\<close>

fun meaning :: "evaluator \<Rightarrow> u8 list list \<Rightarrow> tree \<Rightarrow> operand calc" where
  "meaning ev names (Num n) = ok (Value (number_value n))"
| "meaning ev names (Name x) = ok (Variable x)"
| "meaning ev names (Paren e) = meaning ev names e"
| "meaning ev names (Unary op e) = andthen (meaning ev names e) (\<lambda>a.
     andthen (operand_value ev names a) (\<lambda>x. andthen (unary_value op x) (finish op a)))"
| "meaning ev names (Postfix op e) = andthen (meaning ev names e) (\<lambda>a.
     andthen (operand_value ev names a) (\<lambda>x. andthen (unary_value op x) (\<lambda>r. andthen (assign a r) (\<lambda>_. ok (Value x)))))"
| "meaning ev names (Binary op l r) = andthen (meaning ev names l) (\<lambda>a. andthen (meaning ev names r) (\<lambda>b.
     andthen (operand_value ev names b) (\<lambda>y.
     if op = TOK_ASSIGN then finish op a y
     else andthen (operand_value ev names a) (\<lambda>x. andthen (binary_value op x y 0) (finish op a)))))"
| "meaning ev names (Conditional c l r) = andthen (meaning ev names c) (\<lambda>a. andthen (meaning ev names l) (\<lambda>b.
     andthen (meaning ev names r) (\<lambda>d. andthen (operand_value ev names d) (\<lambda>z. andthen (operand_value ev names b) (\<lambda>y.
     andthen (operand_value ev names a) (\<lambda>x. ok (Value (if x \<noteq> 0 then y else z))))))))"

section \<open>The text of a tree\<close>

definition plain_token :: "u8 \<Rightarrow> u8" where
  "plain_token op =
     (if op = TOK_UPLUS then TOK_ADD else if op = TOK_UMINUS then TOK_SUB else if op = TOK_PRE_INC then TOK_POST_INC
      else if op = TOK_PRE_DEC then TOK_POST_DEC else op)"

definition token_text :: "u8 \<Rightarrow> u8 list" where
  "token_text op = fst (hd (filter (\<lambda>(p, op'). op' = plain_token op) op_tokens))"

fun tree_text :: "tree \<Rightarrow> u8 list" where
  "tree_text (Num n) = dec_digits n"
| "tree_text (Name x) = x"
| "tree_text (Paren e) = token_text TOK_LPAREN @ 32 # tree_text e @ 32 # token_text TOK_RPAREN"
| "tree_text (Unary op e) = token_text op @ 32 # tree_text e"
| "tree_text (Postfix op e) = tree_text e @ 32 # token_text op"
| "tree_text (Binary op l r) = tree_text l @ 32 # token_text op @ 32 # tree_text r"
| "tree_text (Conditional c l r) = tree_text c @ 32 # token_text TOK_CONDITIONAL @ 32 # tree_text l @ 32 #
     token_text TOK_CONDITIONAL_SEP @ 32 # tree_text r"

definition unary_ops :: "u8 list" where
  "unary_ops = [TOK_UMINUS, TOK_UPLUS, TOK_NOT, TOK_BNOT, TOK_PRE_INC, TOK_PRE_DEC]"

definition postfix_ops :: "u8 list" where
  "postfix_ops = [TOK_POST_INC, TOK_POST_DEC]"

definition binary_ops :: "u8 list" where
  "binary_ops = [TOK_COMMA, TOK_ASSIGN, TOK_AND_ASSIGN, TOK_OR_ASSIGN, TOK_XOR_ASSIGN, TOK_PLUS_ASSIGN, TOK_MINUS_ASSIGN,
     TOK_LSHIFT_ASSIGN, TOK_RSHIFT_ASSIGN, TOK_MUL_ASSIGN, TOK_DIV_ASSIGN, TOK_REM_ASSIGN, TOK_OR, TOK_AND, TOK_BOR,
     TOK_BXOR, TOK_BAND, TOK_EQ, TOK_NE, TOK_LT, TOK_GT, TOK_GE, TOK_LE, TOK_LSHIFT, TOK_RSHIFT, TOK_ADD, TOK_SUB,
     TOK_MUL, TOK_DIV, TOK_REM, TOK_EXPONENT]"

text \<open>The binary operators from the loosest to the tightest, as the C standard and POSIX list them, and those that
  group to the right; \<open>?:\<close> has the level 4.\<close>

definition infix_table :: "(u8 \<times> u8 list) list" where
  "infix_table =
    [(1, [TOK_COMMA]),
     (2, [TOK_ASSIGN, TOK_AND_ASSIGN, TOK_OR_ASSIGN, TOK_XOR_ASSIGN, TOK_PLUS_ASSIGN, TOK_MINUS_ASSIGN, TOK_LSHIFT_ASSIGN,
       TOK_RSHIFT_ASSIGN, TOK_MUL_ASSIGN, TOK_DIV_ASSIGN, TOK_REM_ASSIGN]),
     (5, [TOK_OR]), (6, [TOK_AND]), (7, [TOK_BOR]), (8, [TOK_BXOR]), (9, [TOK_BAND]), (10, [TOK_EQ, TOK_NE]),
     (11, [TOK_LT, TOK_GT, TOK_GE, TOK_LE]), (12, [TOK_LSHIFT, TOK_RSHIFT]), (13, [TOK_ADD, TOK_SUB]),
     (14, [TOK_MUL, TOK_DIV, TOK_REM]), (15, [TOK_EXPONENT])]"

definition infix_level :: "u8 \<Rightarrow> u8" where
  "infix_level op = fst (hd (filter (\<lambda>(k, ops). op \<in> set ops) infix_table))"

definition groups_right :: "u8 \<Rightarrow> bool" where
  "groups_right k \<longleftrightarrow> k \<in> {2, 15}"

text \<open>How tightly a tree holds together: the operators up to 15, then unary, postfix, and closed trees.\<close>

fun level :: "tree \<Rightarrow> u8" where
  "level (Binary op l r) = infix_level op"
| "level (Conditional c l r) = 4"
| "level (Unary op e) = 16"
| "level (Postfix op e) = 17"
| "level (Num n) = 18"
| "level (Name x) = 18"
| "level (Paren e) = 18"

fun well_formed :: "tree \<Rightarrow> bool" where
  "well_formed (Num n) \<longleftrightarrow> True"
| "well_formed (Name x) \<longleftrightarrow> x \<noteq> [] \<and> endofname x = x"
| "well_formed (Paren e) \<longleftrightarrow> well_formed e"
| "well_formed (Unary op e) \<longleftrightarrow> op \<in> set unary_ops \<and> well_formed e \<and> 16 \<le> level e"
| "well_formed (Postfix op e) \<longleftrightarrow> op \<in> set postfix_ops \<and> well_formed e \<and> level e = 18"
| "well_formed (Binary op l r) \<longleftrightarrow> op \<in> set binary_ops \<and> well_formed l \<and> well_formed r \<and>
     (if groups_right (infix_level op) then infix_level op < level l \<and> infix_level op \<le> level r
      else infix_level op \<le> level l \<and> infix_level op < level r)"
| "well_formed (Conditional c l r) \<longleftrightarrow> well_formed c \<and> well_formed l \<and> well_formed r \<and> 4 < level c \<and> 4 < level l \<and> 4 \<le> level r"

section \<open>Facts about the tokens\<close>

text \<open>The operators as numbers.\<close>

lemma tok_numbers [code]:
  "TOK_LPAREN = 0" "TOK_COMMA = 1" "TOK_ASSIGN = 2" "TOK_AND_ASSIGN = 34"
  "TOK_OR_ASSIGN = 66" "TOK_XOR_ASSIGN = 98" "TOK_PLUS_ASSIGN = 130" "TOK_MINUS_ASSIGN = 162"
  "TOK_LSHIFT_ASSIGN = 194" "TOK_RSHIFT_ASSIGN = 226" "TOK_MUL_ASSIGN = 3" "TOK_DIV_ASSIGN = 35"
  "TOK_REM_ASSIGN = 67" "TOK_CONDITIONAL = 4" "TOK_CONDITIONAL_SEP = 36" "TOK_OR = 5"
  "TOK_AND = 6" "TOK_BOR = 7" "TOK_BXOR = 8" "TOK_BAND = 9"
  "TOK_EQ = 10" "TOK_NE = 42" "TOK_LT = 11" "TOK_GT = 43"
  "TOK_GE = 75" "TOK_LE = 107" "TOK_LSHIFT = 12" "TOK_RSHIFT = 44"
  "TOK_ADD = 13" "TOK_SUB = 45" "TOK_MUL = 14" "TOK_DIV = 46"
  "TOK_REM = 78" "TOK_EXPONENT = 47" "TOK_BNOT = 16" "TOK_NOT = 48"
  "TOK_UMINUS = 17" "TOK_UPLUS = 49" "TOK_PRE_INC = 18" "TOK_PRE_DEC = 50"
  "TOK_POST_INC = 19" "TOK_POST_DEC = 51" "TOK_NUM = 20" "TOK_RPAREN = 52"
  by (simp_all add: tok_defs)

lemma op_tokens_numbers [code]:
  "op_tokens =
    [([60, 60, 61], 194), ([62, 62, 61], 226), ([60, 60], 12), ([62, 62], 44), ([124, 124], 5), ([38, 38], 6),
     ([33, 61], 42), ([60, 61], 107), ([62, 61], 75), ([61, 61], 10), ([124, 61], 66), ([38, 61], 34), ([42, 61],
     3), ([47, 61], 35), ([37, 61], 67), ([43, 61], 130), ([45, 61], 162), ([45, 45], 51), ([94, 61], 98), ([43,
     43], 19), ([42, 42], 47), ([33], 48), ([60], 11), ([62], 43), ([61], 2), ([124], 7), ([38], 9), ([42], 14),
     ([47], 46), ([37], 78), ([43], 13), ([45], 45), ([94], 8), ([126], 16), ([44], 1), ([63], 4), ([58], 36),
     ([41], 52), ([40], 0)]"
  by (simp add: op_tokens_def tok_numbers)

definition op_level :: "u8 \<Rightarrow> u8" where
  "op_level op = fix_assignment_prec (PREC op)"

lemma infix_levels:
  assumes "op \<in> set binary_ops"
  shows "infix_level op = op_level op" "groups_right (op_level op) \<longleftrightarrow> is_right_associative (op_level op)"
proof -
  have "list_all (\<lambda>op. infix_level op = op_level op \<and> (groups_right (op_level op) \<longleftrightarrow> is_right_associative (op_level op))) binary_ops"
    by code_simp
  with assms show "infix_level op = op_level op" "groups_right (op_level op) \<longleftrightarrow> is_right_associative (op_level op)"
    by (auto simp: list_all_iff)
qed

definition tree_ops :: "u8 list" where
  "tree_ops = [TOK_LPAREN, TOK_RPAREN, TOK_CONDITIONAL, TOK_CONDITIONAL_SEP] @ unary_ops @ postfix_ops @ binary_ops"

lemma token_texts:
  assumes "op \<in> set tree_ops"
  shows "token_text op \<noteq> []" "c \<in> set (token_text op) \<Longrightarrow> \<not> blank c \<and> \<not> is_in_name c"
    "match_op op_tokens (token_text op) = Some (plain_token op, [])"
proof -
  have "list_all (\<lambda>op. token_text op \<noteq> [] \<and> list_all (\<lambda>c. \<not> blank c \<and> \<not> is_in_name c) (token_text op) \<and>
      match_op op_tokens (token_text op) = Some (plain_token op, [])) tree_ops" by code_simp
  with assms show "token_text op \<noteq> []" "c \<in> set (token_text op) \<Longrightarrow> \<not> blank c \<and> \<not> is_in_name c"
    "match_op op_tokens (token_text op) = Some (plain_token op, [])" by (auto simp: list_all_iff)
qed

lemma blank_not_operator: "\<not> operator_char 32"
  by code_simp

lemma loop_token:
  assumes "op \<in> set tree_ops" "rest = [] \<or> hd rest = 32"
  shows "arith_loop ev names nr opr appended (token_text op @ rest) n st l =
     andthen (operator_step ev names opr (plain_token op) l st n) (\<lambda>(n, st, l). arith_loop ev names nr opr appended rest n st l)"
proof -
  note t = token_texts [OF assms(1)]
  obtain c cs where e: "token_text op = c # cs" using t(1) by (cases "token_text op") auto
  have "match_op op_tokens (token_text op @ rest) = Some (plain_token op, rest)"
    using assms(2) blank_not_operator by (intro operator_token [OF t(3)]) auto
  moreover have "dropWhile blank (token_text op @ rest) = token_text op @ rest" "\<not> is_in_name (hd (token_text op @ rest))"
    using t(2) [of c] e by simp_all
  ultimately show ?thesis using t(1) by (simp add: loop_operator)
qed

lemma loop_space: "arith_loop ev names nr opr appended (32 # rest) n st l = arith_loop ev names nr opr appended rest n st l"
proof -
  have "blank 32" by code_simp
  then have "dropWhile blank (32 # rest) = dropWhile blank rest" by simp
  then show ?thesis
    by (simp only: arith_loop.simps [of ev names nr opr appended "32 # rest" n st l] arith_loop.simps [of ev names nr opr appended rest n st l])
qed

text \<open>Binary operators, as tokens behind a number.\<close>

definition infix_ops :: "u8 list" where
  "infix_ops = TOK_CONDITIONAL # TOK_CONDITIONAL_SEP # binary_ops"

lemma infix_token:
  assumes "op \<in> set infix_ops"
  shows "op \<in> set tree_ops" "plain_token op = op" "reduces op" "op \<noteq> TOK_RPAREN" "op \<noteq> TOK_LPAREN" "\<not> after_num op"
    "op_level op < 16" "\<not> unary_op op"
proof -
  have "list_all (\<lambda>op. op \<in> set tree_ops \<and> plain_token op = op \<and> reduces op \<and> op \<noteq> TOK_RPAREN \<and> op \<noteq> TOK_LPAREN \<and>
      \<not> after_num op \<and> op_level op < 16 \<and> \<not> unary_op op) infix_ops" by code_simp
  with assms show "op \<in> set tree_ops" "plain_token op = op" "reduces op" "op \<noteq> TOK_RPAREN" "op \<noteq> TOK_LPAREN" "\<not> after_num op"
    "op_level op < 16" "\<not> unary_op op" by (auto simp: list_all_iff)
qed

lemma unary_token:
  assumes "op \<in> set unary_ops"
  shows "op \<in> set tree_ops" "\<not> after_num l \<Longrightarrow> fix_unary l (plain_token op) = op" "\<not> reduces op" "op \<noteq> TOK_LPAREN" "\<not> after_num op"
    "16 \<le> op_level op" "unary_op op"
proof -
  have "list_all (\<lambda>op. op \<in> set tree_ops \<and> \<not> reduces op \<and> op \<noteq> TOK_LPAREN \<and> \<not> after_num op \<and> 16 \<le> op_level op \<and> unary_op op \<and>
      fix_unary TOK_LPAREN (plain_token op) = op) unary_ops" by code_simp
  moreover have "\<not> after_num TOK_LPAREN" by code_simp
  ultimately show "op \<in> set tree_ops" "\<not> after_num l \<Longrightarrow> fix_unary l (plain_token op) = op" "\<not> reduces op" "op \<noteq> TOK_LPAREN" "\<not> after_num op"
    "16 \<le> op_level op" "unary_op op" using assms by (auto simp: list_all_iff fix_unary_def)
qed

lemma postfix_token:
  assumes "op \<in> set postfix_ops"
  shows "op \<in> set tree_ops" "plain_token op = op" "\<not> reduces op" "op \<noteq> TOK_LPAREN" "after_num op" "16 \<le> op_level op" "unary_op op"
    "is_assign_op op"
proof -
  have "list_all (\<lambda>op. op \<in> set tree_ops \<and> plain_token op = op \<and> \<not> reduces op \<and> op \<noteq> TOK_LPAREN \<and> after_num op \<and> 16 \<le> op_level op \<and>
      unary_op op \<and> is_assign_op op) postfix_ops" by code_simp
  with assms show "op \<in> set tree_ops" "plain_token op = op" "\<not> reduces op" "op \<noteq> TOK_LPAREN" "after_num op" "16 \<le> op_level op" "unary_op op"
    "is_assign_op op" by (auto simp: list_all_iff)
qed

section \<open>Operands on the stack\<close>

fun entry :: "operand \<Rightarrow> var_or_num" where
  "entry (Value r) = num_entry r"
| "entry (Variable x) = name_entry x"

lemma lookup_entry:
  "arith_lookup_val ev names (entry a) = andthen (operand_value ev names a) (\<lambda>r. ok ((entry a)\<lparr>vn_val := r\<rparr>))"
proof (cases a)
  case (Value r)
  then show ?thesis by (simp add: number_entry_lookup operand_value_def calc_simps) (simp add: num_entry_def)
next
  case (Variable x)
  have "(\<lambda>p. case p of None \<Rightarrow> ok ((name_entry x)\<lparr>vn_val := 0\<rparr>) | Some p \<Rightarrow> if x \<in> set names then bad Recursion_Loop
        else andthen (ev (x # names) p) (\<lambda>v. ok ((name_entry x)\<lparr>vn_val := v\<rparr>))) =
      (\<lambda>p. andthen (case p of None \<Rightarrow> ok 0 | Some p \<Rightarrow> if x \<in> set names then bad Recursion_Loop else ev (x # names) p)
        (\<lambda>r. ok ((name_entry x)\<lparr>vn_val := r\<rparr>)))"
    by (rule ext, case_tac p) (simp_all add: calc_simps)
  moreover have "vn_var (name_entry x) = Some x" by (simp add: name_entry_def)
  ultimately show ?thesis using Variable by (simp add: arith_lookup_val_def operand_value_def calc_simps)
qed

lemma entry_records [simp]:
  "(num_entry q)\<lparr>vn_val := r, vn_var := None\<rparr> = num_entry r"
  "(name_entry x)\<lparr>vn_val := r, vn_var := None\<rparr> = num_entry r"
  by (simp_all add: num_entry_def name_entry_def)

lemma entry_numbers [simp]:
  "(entry a)\<lparr>vn_val := r, vn_var := None\<rparr> = num_entry r"
  "(entry a)\<lparr>vn_val := q, vn_val := r\<rparr> = (entry a)\<lparr>vn_val := r\<rparr>"
  "vn_second_present (entry a) = False" "vn_second_val (entry a) = 0"
  by (cases a; simp add: num_entry_def name_entry_def)+

lemma entry_var: "vn_var (entry a) = (case a of Value _ \<Rightarrow> None | Variable x \<Rightarrow> Some x)"
  by (cases a) (simp_all add: num_entry_def name_entry_def)

lemma store_entry:
  assumes "op \<notin> set postfix_ops"
  shows "store_result op ((entry a)\<lparr>vn_val := q\<rparr>) r n = andthen (finish op a r) (\<lambda>b. ok (entry b # n))"
proof -
  have "op \<noteq> TOK_POST_INC" "op \<noteq> TOK_POST_DEC" using assms by (auto simp: postfix_ops_def)
  then show ?thesis unfolding store_result_def Let_def
    by (cases a) (simp_all add: finish_def assign_def entry_var calc_simps num_entry_def name_entry_def)
qed

lemma store_postfix:
  assumes "op \<in> set postfix_ops"
  shows "andthen (unary_value op q) (\<lambda>r. store_result op ((entry a)\<lparr>vn_val := q\<rparr>) r n) =
    andthen (unary_value op q) (\<lambda>r. andthen (assign a r) (\<lambda>_. ok (num_entry q # n)))"
proof -
  have differ: "TOK_POST_INC \<noteq> TOK_POST_DEC" "TOK_POST_INC \<notin> {TOK_UMINUS, TOK_NOT, TOK_BNOT}" "TOK_POST_DEC \<notin> {TOK_UMINUS, TOK_NOT, TOK_BNOT, TOK_PRE_INC}" by code_simp+
  note op = assms [unfolded postfix_ops_def]
  have store: "store_result op ((entry a)\<lparr>vn_val := q\<rparr>) r n =
      andthen (assign a r) (\<lambda>_. ok (num_entry (if op = TOK_POST_INC then r - 1 else r + 1) # n))" for r
    using op differ postfix_token(8) [OF assms] unfolding store_result_def Let_def
    by (cases a) (auto simp: assign_def calc_simps num_entry_def name_entry_def)
  have "yields (unary_value op q) (\<lambda>r. (if op = TOK_POST_INC then r - 1 else r + 1) = q)"
    using op differ by (auto simp: unary_value_def checked_def yields_def ok_def bad_def)
  then show ?thesis by (rule andthen_cong_yields) (simp add: store)
qed

text \<open>Applying an operator to the entries of operands.\<close>

lemma apply_unary:
  assumes "op \<in> set unary_ops"
  shows "arith_apply ev names op (entry a # n) =
    andthen (operand_value ev names a) (\<lambda>x. andthen (unary_value op x) (\<lambda>r. andthen (finish op a r) (\<lambda>b. ok (entry b # n))))"
proof -
  have "op \<notin> set postfix_ops" using assms postfix_token(5) unary_token(5) by blast
  then show ?thesis using unary_token(7) [OF assms]
    by (simp add: arith_apply_def lookup_entry calc_simps store_entry)
qed

lemma apply_postfix:
  assumes "op \<in> set postfix_ops"
  shows "arith_apply ev names op (entry a # n) =
    andthen (operand_value ev names a) (\<lambda>x. andthen (unary_value op x) (\<lambda>r. andthen (assign a r) (\<lambda>_. ok (entry (Value x) # n))))"
  using postfix_token(7) [OF assms] by (simp add: arith_apply_def lookup_entry calc_simps store_postfix [OF assms])

lemma apply_binary:
  assumes "op \<in> set binary_ops"
  shows "arith_apply ev names op (entry b # entry a # n) =
    andthen (operand_value ev names b) (\<lambda>y. if op = TOK_ASSIGN then andthen (finish op a y) (\<lambda>c. ok (entry c # n))
      else andthen (operand_value ev names a) (\<lambda>x. andthen (binary_value op x y 0) (\<lambda>r. andthen (finish op a r) (\<lambda>c. ok (entry c # n)))))"
proof -
  have "op \<in> set infix_ops" using assms by (simp add: infix_ops_def)
  note op = infix_token [OF this]
  have "op \<notin> set postfix_ops" using op(6) postfix_token(5) by blast
  moreover have "list_all (\<lambda>op. op \<noteq> TOK_CONDITIONAL \<and> op \<noteq> TOK_CONDITIONAL_SEP) binary_ops" by code_simp
  then have "op \<noteq> TOK_CONDITIONAL" "op \<noteq> TOK_CONDITIONAL_SEP" using assms by (auto simp: list_all_iff)
  moreover have "binary_value TOK_ASSIGN x y z = ok y" for x y z
  proof -
    have "TOK_ASSIGN \<notin> {TOK_CONDITIONAL, TOK_BOR, TOK_OR_ASSIGN, TOK_OR, TOK_BAND, TOK_AND_ASSIGN, TOK_BXOR, TOK_XOR_ASSIGN, TOK_AND,
      TOK_EQ, TOK_NE, TOK_GE, TOK_RSHIFT, TOK_RSHIFT_ASSIGN, TOK_LSHIFT, TOK_LSHIFT_ASSIGN, TOK_GT, TOK_LT, TOK_LE, TOK_MUL, TOK_MUL_ASSIGN,
      TOK_ADD, TOK_PLUS_ASSIGN, TOK_SUB, TOK_MINUS_ASSIGN}" by code_simp
    then show ?thesis by (simp add: binary_value_def)
  qed
  moreover have "store_result TOK_ASSIGN (entry a) r n = andthen (finish TOK_ASSIGN a r) (\<lambda>c. ok (entry c # n))" for r
  proof -
    have "TOK_ASSIGN \<notin> set postfix_ops" by code_simp
    from store_entry [OF this, of "vn_val (entry a)" a] show ?thesis by simp
  qed
  ultimately show ?thesis using op(8)
    by (simp add: arith_apply_def lookup_entry calc_simps store_entry cong: if_cong)
qed

text \<open>The two operators of a conditional, one after the other.\<close>

lemma apply_conditional:
  "andthen (arith_apply ev names TOK_CONDITIONAL_SEP (entry d # entry b # entry a # n)) (arith_apply ev names TOK_CONDITIONAL) =
    andthen (operand_value ev names d) (\<lambda>z. andthen (operand_value ev names b) (\<lambda>y. andthen (operand_value ev names a) (\<lambda>x.
      ok (entry (Value (if x \<noteq> 0 then y else z)) # n))))"
proof -
  have t: "\<not> is_assign_op TOK_CONDITIONAL_SEP" "\<not> is_assign_op TOK_CONDITIONAL" "\<not> unary_op TOK_CONDITIONAL_SEP" "\<not> unary_op TOK_CONDITIONAL"
    "TOK_CONDITIONAL_SEP \<noteq> TOK_CONDITIONAL" "TOK_CONDITIONAL_SEP \<noteq> TOK_ASSIGN" "TOK_CONDITIONAL \<noteq> TOK_ASSIGN" by code_simp+
  define m where "m y z = (entry b)\<lparr>vn_second_present := True, vn_second_val := z, vn_val := y, vn_var := None\<rparr>" for y z
  have m: "vn_var (m y z) = None" "vn_val (m y z) = y" "vn_second_val (m y z) = z" "vn_second_present (m y z)" for y z
    by (simp_all add: m_def)
  have "arith_apply ev names TOK_CONDITIONAL_SEP (entry d # entry b # entry a # n) =
      andthen (operand_value ev names d) (\<lambda>z. andthen (operand_value ev names b) (\<lambda>y. ok (m y z # entry a # n)))"
    by (simp add: arith_apply_def lookup_entry calc_simps t store_result_def m_def)
  moreover have "arith_apply ev names TOK_CONDITIONAL (m y z # entry a # n) =
      andthen (operand_value ev names a) (\<lambda>x. ok (entry (Value (if x \<noteq> 0 then y else z)) # n))" for y z
    by (simp add: arith_apply_def arith_lookup_val_def [of ev names "m y z"] lookup_entry calc_simps t t(5) [symmetric] store_result_def m binary_value_def cong: if_cong)
  ultimately show ?thesis by (simp add: calc_simps)
qed

section \<open>Reading a tree\<close>

text \<open>A pending operator that waits for one of level \<open>k\<close>, and a token that does not wait for one of level \<open>k\<close>.\<close>

definition waits :: "u8 list \<Rightarrow> u8 \<Rightarrow> bool" where
  "waits st k \<longleftrightarrow> (st \<noteq> [] \<longrightarrow> op_level (hd st) < k \<or> op_level (hd st) = k \<and> is_right_associative k)"

definition closes :: "u8 \<Rightarrow> u8 \<Rightarrow> bool" where
  "closes t k \<longleftrightarrow> t = TOK_RPAREN \<or> t \<in> set infix_ops \<and> (op_level t < k \<or> op_level t = k \<and> \<not> is_right_associative k)"

lemma reduce_waits: "waits st (op_level op) \<Longrightarrow> op \<noteq> TOK_RPAREN \<Longrightarrow> reduce ev names op st n = ok (False, st, n)"
  by (cases st) (auto simp: waits_def op_level_def Let_def)

lemma reduce_closes:
  "closes t (op_level op) \<Longrightarrow> op \<noteq> TOK_LPAREN \<Longrightarrow>
   reduce ev names t (op # st) n = andthen (arith_apply ev names op n) (reduce ev names t st)"
  using infix_token(4) by (auto simp: closes_def op_level_def Let_def)

lemma waits_mono: "waits st k \<Longrightarrow> k \<le> k' \<Longrightarrow> waits st k'"
  by (auto simp: waits_def)

lemma infix_step:
  assumes "op \<in> set infix_ops" "after_num l"
  shows "operator_step ev names (\<lambda>_. True) op l st n = andthen (reduce ev names op st n) (\<lambda>(closed, st, n).
    if closed then ok (n, st, TOK_NUM) else ok (n, op # st, op))"
proof -
  have "fix_unary l op = op" using assms(2) by (simp add: fix_unary_def)
  then show ?thesis using infix_token [OF assms(1)] assms(2) by (simp add: operator_step_def push_op_def calc_simps cong: if_cong)
qed

lemma close_step:
  assumes "t = TOK_RPAREN \<or> t \<in> set infix_ops" "after_num l"
  shows "operator_step ev names (\<lambda>_. True) t l st n = andthen (reduce ev names t st n) (\<lambda>(closed, st, n).
    if closed then ok (n, st, TOK_NUM) else ok (n, t # st, t))"
proof (cases "t = TOK_RPAREN")
  case True
  moreover have "reduces TOK_RPAREN" by code_simp
  moreover have "fix_unary l t = t" using assms(2) by (simp add: fix_unary_def)
  ultimately show ?thesis using assms(2) by (simp add: operator_step_def push_op_def calc_simps cong: if_cong)
next
  case False
  then show ?thesis using assms infix_step by blast
qed

lemma after_num_number [simp]: "after_num TOK_NUM"
  by (simp add: after_num_def)

text \<open>Reading a tree leaves its operand on the stack when what follows is a token \<open>t\<close> that closes it.  \<open>k\<close> is
  what happens after that token.\<close>

definition continues :: "evaluator \<Rightarrow> u8 list list \<Rightarrow> u8 list \<Rightarrow> u8 \<Rightarrow> (var_or_num list \<times> u8 list \<times> u8 \<Rightarrow> int calc) \<Rightarrow> bool" where
  "continues ev names rest t k \<longleftrightarrow> (rest = [] \<or> hd rest = 32) \<and> (\<forall>n st l. after_num l \<longrightarrow>
     arith_loop ev names (\<lambda>_. True) (\<lambda>_. True) False rest n st l = andthen (operator_step ev names (\<lambda>_. True) t l st n) k)"

definition reads :: "evaluator \<Rightarrow> u8 list list \<Rightarrow> tree \<Rightarrow> bool" where
  "reads ev names e \<longleftrightarrow> (\<forall>rest t k n st l. continues ev names rest t k \<and> closes t (level e) \<and> (level e < 16 \<longrightarrow> waits st (level e)) \<and> \<not> after_num l \<longrightarrow>
     arith_loop ev names (\<lambda>_. True) (\<lambda>_. True) False (tree_text e @ rest) n st l =
       andthen (meaning ev names e) (\<lambda>a. andthen (operator_step ev names (\<lambda>_. True) t TOK_NUM st (entry a # n)) k))"

lemma readsD:
  assumes "reads ev names e" "continues ev names rest t k" "closes t (level e)" "level e < 16 \<Longrightarrow> waits st (level e)" "\<not> after_num l"
  shows "arith_loop ev names (\<lambda>_. True) (\<lambda>_. True) False (tree_text e @ rest) n st l =
    andthen (meaning ev names e) (\<lambda>a. andthen (operator_step ev names (\<lambda>_. True) t TOK_NUM st (entry a # n)) k)"
  using assms unfolding reads_def by blast

text \<open>A closed tree is read whatever follows.\<close>

definition stands_alone :: "evaluator \<Rightarrow> u8 list list \<Rightarrow> tree \<Rightarrow> bool" where
  "stands_alone ev names e \<longleftrightarrow> (\<forall>rest n st l. (rest = [] \<or> hd rest = 32) \<and> \<not> after_num l \<longrightarrow>
     arith_loop ev names (\<lambda>_. True) (\<lambda>_. True) False (tree_text e @ rest) n st l =
       andthen (meaning ev names e) (\<lambda>a. arith_loop ev names (\<lambda>_. True) (\<lambda>_. True) False rest (entry a # n) st TOK_NUM))"

lemma alone_reads: "stands_alone ev names e \<Longrightarrow> reads ev names e"
  by (auto simp: stands_alone_def reads_def continues_def)

lemma continues_infix:
  assumes "op \<in> set infix_ops"
  shows "continues ev names (32 # token_text op @ 32 # rest) op (\<lambda>(n, st, l). arith_loop ev names (\<lambda>_. True) (\<lambda>_. True) False rest n st l)"
proof -
  note op = infix_token [OF assms]
  show ?thesis using loop_token [OF op(1), of "32 # rest"] op(2) by (simp add: continues_def loop_space)
qed

lemma continues_close:
  assumes "rest = [] \<or> hd rest = 32"
  shows "continues ev names (32 # token_text TOK_RPAREN @ rest) TOK_RPAREN (\<lambda>(n, st, l). arith_loop ev names (\<lambda>_. True) (\<lambda>_. True) False rest n st l)"
proof -
  have "TOK_RPAREN \<in> set tree_ops" "plain_token TOK_RPAREN = TOK_RPAREN" by code_simp+
  then show ?thesis using loop_token [OF _ assms, of TOK_RPAREN] by (simp add: continues_def loop_space)
qed

lemma continues_end: "continues ev names [] TOK_RPAREN (\<lambda>(n, st, l). case n of
    [n] \<Rightarrow> andthen (arith_lookup_val ev names n) (\<lambda>n. ok (vn_val n)) | _ \<Rightarrow> bad Syntax)"
  by (simp add: continues_def loop_end)

subsection \<open>The kinds of trees\<close>

lemma reads_number: "stands_alone ev names (Num m)"
proof -
  have head: "\<exists>d<10. hd (dec_digits m) = 48 + of_nat d" using dec_digits_digits [of "hd (dec_digits m)" m] by simp
  have digit: "48 \<le> hd (dec_digits m) \<and> hd (dec_digits m) \<le> 57" using head by (auto simp: word_le_nat_alt digit_char)
  have "is_in_name (hd (dec_digits m))" using head digit_not_name by auto
  then have nb: "\<not> blank (hd (dec_digits m))" using blank_not_name by blast
  show ?thesis unfolding stands_alone_def
  proof (intro allI impI, elim conjE)
    fix rest :: "u8 list" and n st l assume r: "rest = [] \<or> hd rest = 32"
    have "\<not> is_in_name 32" by code_simp
    then have b: "number_body (dec_digits m @ rest) = Some (m, rest)" using r by (intro number_body_append [OF number_body_dec]) auto
    have blanks: "dropWhile blank (dec_digits m @ rest) = dec_digits m @ rest" using nb by (cases "dec_digits m") simp_all
    show "arith_loop ev names (\<lambda>_. True) (\<lambda>_. True) False (tree_text (Num m) @ rest) n st l =
       andthen (meaning ev names (Num m)) (\<lambda>a. arith_loop ev names (\<lambda>_. True) (\<lambda>_. True) False rest (entry a # n) st TOK_NUM)"
      using loop_number [OF blanks _ _ b] digit by (simp add: push_num_def calc_simps hd_append)
  qed
qed

lemma reads_name: "well_formed (Name x) \<Longrightarrow> stands_alone ev names (Name x)"
proof -
  assume x: "well_formed (Name x)"
  show ?thesis unfolding stands_alone_def
  proof (intro allI impI, elim conjE)
    fix rest :: "u8 list" and n st l assume r: "rest = [] \<or> hd rest = 32"
    have "\<not> is_in_name 32" by code_simp
    then have "takeWhile is_in_name rest = []" "dropWhile is_in_name rest = rest" using r by (cases rest; auto)+
    moreover have name: "is_name (hd x)" "takeWhile is_in_name x = x" using x by (auto simp: endofname_def split: if_splits)
    moreover have "\<forall>c\<in>set x. is_in_name c" using name(2) by (metis set_takeWhileD)
    ultimately have e: "endofname (x @ rest) = x" "dropWhile is_in_name (x @ rest) = rest"
      using x by (simp_all add: endofname_def takeWhile_append2 dropWhile_append2 hd_append)
    have "\<not> blank (hd x)" using name(1) blank_not_name by (auto simp: is_in_name_def)
    then have blanks: "dropWhile blank (x @ rest) = x @ rest" using x by (cases x) simp_all
    show "arith_loop ev names (\<lambda>_. True) (\<lambda>_. True) False (tree_text (Name x) @ rest) n st l =
       andthen (meaning ev names (Name x)) (\<lambda>a. arith_loop ev names (\<lambda>_. True) (\<lambda>_. True) False rest (entry a # n) st TOK_NUM)"
      using loop_name [OF blanks] x e by (simp add: push_num_def calc_simps)
  qed
qed

lemma level_positive: "well_formed e \<Longrightarrow> 0 < level e"
proof -
  have "list_all (\<lambda>op. 0 < infix_level op) binary_ops" by code_simp
  then show "well_formed e \<Longrightarrow> 0 < level e" by (cases e) (auto simp: list_all_iff)
qed

lemma reads_paren: "reads ev names e \<Longrightarrow> well_formed e \<Longrightarrow> stands_alone ev names (Paren e)"
proof -
  assume e: "reads ev names e" "well_formed e"
  have lp: "TOK_LPAREN \<in> set tree_ops" "plain_token TOK_LPAREN = TOK_LPAREN" "\<not> reduces TOK_LPAREN" "\<not> after_num TOK_LPAREN"
    "op_level TOK_LPAREN = 0" "TOK_LPAREN \<notin> {TOK_ADD, TOK_SUB, TOK_POST_INC, TOK_POST_DEC}" by code_simp+
  show ?thesis unfolding stands_alone_def
  proof (intro allI impI, elim conjE)
    fix rest :: "u8 list" and n st l assume r: "rest = [] \<or> hd rest = 32" and l: "\<not> after_num l"
    let ?loop = "arith_loop ev names (\<lambda>_. True) (\<lambda>_. True) False"
    have "waits (TOK_LPAREN # st) (level e)" using level_positive [OF e(2)] lp(5) by (simp add: waits_def)
    then have "?loop (tree_text e @ 32 # token_text TOK_RPAREN @ rest) n (TOK_LPAREN # st) TOK_LPAREN =
        andthen (meaning ev names e) (\<lambda>a. andthen (operator_step ev names (\<lambda>_. True) TOK_RPAREN TOK_NUM (TOK_LPAREN # st) (entry a # n))
          (\<lambda>(n, st, l). ?loop rest n st l))"
      using lp(4) by (intro readsD [OF e(1) continues_close [OF r]]) (simp_all add: closes_def)
    also have "\<dots> = andthen (meaning ev names e) (\<lambda>a. ?loop rest (entry a # n) st TOK_NUM)"
      by (simp add: close_step Let_def calc_simps)
    finally have inner: "?loop (tree_text e @ 32 # token_text TOK_RPAREN @ rest) n (TOK_LPAREN # st) TOK_LPAREN =
        andthen (meaning ev names e) (\<lambda>a. ?loop rest (entry a # n) st TOK_NUM)" .
    have "operator_step ev names (\<lambda>_. True) TOK_LPAREN l st n = ok (n, TOK_LPAREN # st, TOK_LPAREN)"
    proof -
      have "fix_unary l TOK_LPAREN = TOK_LPAREN" using lp(6) by (simp add: fix_unary_def)
      then show ?thesis using lp(3) by (simp add: operator_step_def push_op_def calc_simps)
    qed
    then show "?loop (tree_text (Paren e) @ rest) n st l =
       andthen (meaning ev names (Paren e)) (\<lambda>a. ?loop rest (entry a # n) st TOK_NUM)"
      using loop_token [OF lp(1), of "32 # tree_text e @ 32 # token_text TOK_RPAREN @ rest"] lp(2) inner
      by (simp add: loop_space calc_simps)
  qed
qed

text \<open>What follows a tree that is closed by \<open>t\<close>: the pending operators are applied before \<open>t\<close>.\<close>

lemma closed_step:
  assumes "closes t (op_level op)" "op \<noteq> TOK_LPAREN"
  shows "operator_step ev names (\<lambda>_. True) t TOK_NUM (op # st) n =
    andthen (arith_apply ev names op n) (operator_step ev names (\<lambda>_. True) t TOK_NUM st)"
proof -
  have t: "t = TOK_RPAREN \<or> t \<in> set infix_ops" using assms(1) by (auto simp: closes_def)
  show ?thesis unfolding close_step [OF t after_num_number] reduce_closes [OF assms] by (simp add: calc_simps)
qed

lemma after_num_step:
  assumes "closes t k" "after_num l"
  shows "operator_step ev names (\<lambda>_. True) t l st n = operator_step ev names (\<lambda>_. True) t TOK_NUM st n"
proof -
  have t: "t = TOK_RPAREN \<or> t \<in> set infix_ops" using assms(1) by (auto simp: closes_def)
  show ?thesis by (simp only: close_step [OF t assms(2)] close_step [OF t after_num_number])
qed

lemma closes_high: "closes t k \<Longrightarrow> 16 \<le> k' \<Longrightarrow> closes t k'"
  using infix_token(7) by (fastforce simp: closes_def)

lemma reads_unary:
  assumes e: "reads ev names e" and wf: "well_formed (Unary op e)"
  shows "reads ev names (Unary op e)"
  unfolding reads_def
proof (intro allI impI, elim conjE)
  fix rest t k n st l
  assume rest: "continues ev names rest t k" and t: "closes t (level (Unary op e))" and l: "\<not> after_num l"
  let ?loop = "arith_loop ev names (\<lambda>_. True) (\<lambda>_. True) False"
  have op: "op \<in> set unary_ops" and high: "16 \<le> level e" using wf by simp_all
  note u = unary_token [OF op]
  have "operator_step ev names (\<lambda>_. True) (plain_token op) l st n = ok (n, op # st, op)"
    using u(2) [OF l] u(3) by (simp add: operator_step_def push_op_def calc_simps)
  then have "?loop (tree_text (Unary op e) @ rest) n st l = ?loop (tree_text e @ rest) n (op # st) op"
    using loop_token [OF u(1), of "32 # tree_text e @ rest"] by (simp add: calc_simps loop_space)
  also have "\<dots> = andthen (meaning ev names e) (\<lambda>a. andthen (operator_step ev names (\<lambda>_. True) t TOK_NUM (op # st) (entry a # n)) k)"
    using closes_high [OF t high] high u(5) by (intro readsD [OF e rest]) auto
  also have "\<dots> = andthen (meaning ev names (Unary op e)) (\<lambda>a. andthen (operator_step ev names (\<lambda>_. True) t TOK_NUM st (entry a # n)) k)"
    unfolding closed_step [OF closes_high [OF t u(6)] u(4)] by (simp add: apply_unary [OF op] calc_simps)
  finally show "?loop (tree_text (Unary op e) @ rest) n st l =
    andthen (meaning ev names (Unary op e)) (\<lambda>a. andthen (operator_step ev names (\<lambda>_. True) t TOK_NUM st (entry a # n)) k)" .
qed

lemma reads_postfix:
  assumes e: "stands_alone ev names e" and wf: "well_formed (Postfix op e)"
  shows "reads ev names (Postfix op e)"
  unfolding reads_def
proof (intro allI impI, elim conjE)
  fix rest t k n st l
  assume rest: "continues ev names rest t k" and t: "closes t (level (Postfix op e))" and l: "\<not> after_num l"
  let ?loop = "arith_loop ev names (\<lambda>_. True) (\<lambda>_. True) False"
  have op: "op \<in> set postfix_ops" using wf by simp
  note u = postfix_token [OF op]
  have sep: "rest = [] \<or> hd rest = 32" and go: "after_num l \<Longrightarrow> ?loop rest n st l = andthen (operator_step ev names (\<lambda>_. True) t l st n) k" for n st l
    using rest by (auto simp: continues_def)
  have "fix_unary TOK_NUM op = op" by (simp add: fix_unary_def)
  then have step: "operator_step ev names (\<lambda>_. True) (plain_token op) TOK_NUM st n = ok (n, op # st, op)" for n
    using u(2,3) by (simp add: operator_step_def push_op_def calc_simps)
  have "?loop (tree_text (Postfix op e) @ rest) n st l =
      andthen (meaning ev names e) (\<lambda>a. ?loop (32 # token_text op @ rest) (entry a # n) st TOK_NUM)"
    using e l unfolding stands_alone_def by simp
  also have "\<dots> = andthen (meaning ev names e) (\<lambda>a. ?loop rest (entry a # n) (op # st) op)"
    by (simp add: loop_space loop_token [OF u(1) sep] step calc_simps)
  also have "\<dots> = andthen (meaning ev names e) (\<lambda>a. andthen (operator_step ev names (\<lambda>_. True) t TOK_NUM (op # st) (entry a # n)) k)"
    using go [OF u(5)] after_num_step [OF t u(5)] by simp
  also have "\<dots> = andthen (meaning ev names (Postfix op e)) (\<lambda>a. andthen (operator_step ev names (\<lambda>_. True) t TOK_NUM st (entry a # n)) k)"
    unfolding closed_step [OF closes_high [OF t u(6)] u(4)] by (simp add: apply_postfix [OF op] calc_simps)
  finally show "?loop (tree_text (Postfix op e) @ rest) n st l =
    andthen (meaning ev names (Postfix op e)) (\<lambda>a. andthen (operator_step ev names (\<lambda>_. True) t TOK_NUM st (entry a # n)) k)" .
qed

text \<open>An infix operator between two trees: the left one is read, and the operator waits on the stack for the
  right one.\<close>

lemma read_left:
  assumes l: "reads ev names l" and op: "op \<in> set infix_ops" and k: "closes op (level l)" "waits st (op_level op)" "op_level op \<le> level l"
    and "\<not> after_num lasttok"
  shows "arith_loop ev names (\<lambda>_. True) (\<lambda>_. True) False (tree_text l @ 32 # token_text op @ 32 # rest) n st lasttok =
    andthen (meaning ev names l) (\<lambda>a. arith_loop ev names (\<lambda>_. True) (\<lambda>_. True) False rest (entry a # n) (op # st) op)"
proof -
  note i = infix_token [OF op]
  have "operator_step ev names (\<lambda>_. True) op TOK_NUM st n = ok (n, op # st, op)" for n
    unfolding infix_step [OF op after_num_number] by (simp add: reduce_waits [OF k(2) i(4)] calc_simps)
  then show ?thesis
    using readsD [OF l continues_infix [OF op] k(1) waits_mono [OF k(2,3)] assms(6)] by (simp add: calc_simps)
qed

lemma reads_binary:
  assumes l: "reads ev names l" and r: "reads ev names r" and wf: "well_formed (Binary op l r)"
  shows "reads ev names (Binary op l r)"
  unfolding reads_def
proof (intro allI impI, elim conjE)
  fix rest t k n st lasttok
  assume rest: "continues ev names rest t k" and t: "closes t (level (Binary op l r))"
    and w: "level (Binary op l r) < 16 \<longrightarrow> waits st (level (Binary op l r))" and lt: "\<not> after_num lasttok"
  let ?loop = "arith_loop ev names (\<lambda>_. True) (\<lambda>_. True) False"
  have op: "op \<in> set binary_ops" "op \<in> set infix_ops" using wf by (simp_all add: infix_ops_def)
  note i = infix_token [OF op(2)]
  have this_level: "level (Binary op l r) = op_level op" using infix_levels(1) [OF op(1)] by simp
  have lev: "if is_right_associative (op_level op) then op_level op < level l \<and> op_level op \<le> level r
      else op_level op \<le> level l \<and> op_level op < level r" using wf infix_levels [OF op(1)] by (simp cong: if_cong)
  have "closes op (level l)" "op_level op \<le> level l" using lev op(2) by (auto simp: closes_def split: if_splits)
  moreover have "waits st (op_level op)" using w i(7) this_level by simp
  ultimately have "?loop (tree_text (Binary op l r) @ rest) n st lasttok =
      andthen (meaning ev names l) (\<lambda>a. ?loop (tree_text r @ rest) (entry a # n) (op # st) op)"
    using read_left [OF l op(2) _ _ _ lt, of st "tree_text r @ rest" n] by simp
  also have "\<dots> = andthen (meaning ev names l) (\<lambda>a. andthen (meaning ev names r) (\<lambda>b.
      andthen (operator_step ev names (\<lambda>_. True) t TOK_NUM (op # st) (entry b # entry a # n)) k))"
  proof -
    have "closes t (level r)" using t [unfolded this_level] lev by (auto simp: closes_def split: if_splits)
    moreover have "waits (op # st) (level r)" using lev by (auto simp: waits_def split: if_splits)
    ultimately show ?thesis using readsD [OF r rest _ _ i(6)] by simp
  qed
  also have "\<dots> = andthen (meaning ev names (Binary op l r)) (\<lambda>a. andthen (operator_step ev names (\<lambda>_. True) t TOK_NUM st (entry a # n)) k)"
    unfolding closed_step [OF t [unfolded this_level] i(5)] by (simp add: apply_binary [OF op(1)] calc_simps cong: if_cong)
  finally show "?loop (tree_text (Binary op l r) @ rest) n st lasttok =
    andthen (meaning ev names (Binary op l r)) (\<lambda>a. andthen (operator_step ev names (\<lambda>_. True) t TOK_NUM st (entry a # n)) k)" .
qed

lemma reads_conditional:
  assumes c: "reads ev names c" and l: "reads ev names l" and r: "reads ev names r" and wf: "well_formed (Conditional c l r)"
  shows "reads ev names (Conditional c l r)"
  unfolding reads_def
proof (intro allI impI, elim conjE)
  fix rest t k n st lasttok
  assume rest: "continues ev names rest t k" and t: "closes t (level (Conditional c l r))"
    and w: "level (Conditional c l r) < 16 \<longrightarrow> waits st (level (Conditional c l r))" and lt: "\<not> after_num lasttok"
  let ?loop = "arith_loop ev names (\<lambda>_. True) (\<lambda>_. True) False"
  have ops: "TOK_CONDITIONAL \<in> set infix_ops" "TOK_CONDITIONAL_SEP \<in> set infix_ops" by (simp_all add: infix_ops_def)
  have lev: "op_level TOK_CONDITIONAL = 4" "op_level TOK_CONDITIONAL_SEP = 4" "is_right_associative 4" by code_simp+
  have wl: "4 < level c" "4 < level l" "4 \<le> level r" using wf by simp_all
  have "?loop (tree_text (Conditional c l r) @ rest) n st lasttok =
      andthen (meaning ev names c) (\<lambda>a. ?loop (tree_text l @ 32 # token_text TOK_CONDITIONAL_SEP @ 32 # tree_text r @ rest) (entry a # n) (TOK_CONDITIONAL # st) TOK_CONDITIONAL)"
    using read_left [OF c ops(1) _ _ _ lt, of st "tree_text l @ 32 # token_text TOK_CONDITIONAL_SEP @ 32 # tree_text r @ rest" n] wl w ops lev
    by (simp add: closes_def less_imp_le)
  also have "\<dots> = andthen (meaning ev names c) (\<lambda>a. andthen (meaning ev names l) (\<lambda>b.
      ?loop (tree_text r @ rest) (entry b # entry a # n) (TOK_CONDITIONAL_SEP # TOK_CONDITIONAL # st) TOK_CONDITIONAL_SEP))"
    using read_left [OF l ops(2), of "TOK_CONDITIONAL # st" TOK_CONDITIONAL "tree_text r @ rest"] wl ops lev infix_token(6) [OF ops(1)]
    by (simp add: closes_def waits_def less_imp_le)
  also have "\<dots> = andthen (meaning ev names c) (\<lambda>a. andthen (meaning ev names l) (\<lambda>b. andthen (meaning ev names r) (\<lambda>d.
      andthen (operator_step ev names (\<lambda>_. True) t TOK_NUM (TOK_CONDITIONAL_SEP # TOK_CONDITIONAL # st) (entry d # entry b # entry a # n)) k)))"
  proof -
    have "closes t (level r)" using t wl(3) lev(3) by (auto simp: closes_def)
    moreover have "waits (TOK_CONDITIONAL_SEP # TOK_CONDITIONAL # st) (level r)" using wl(3) lev by (auto simp: waits_def)
    ultimately show ?thesis using readsD [OF r rest _ _ infix_token(6) [OF ops(2)]] by simp
  qed
  also have "\<dots> = andthen (meaning ev names (Conditional c l r)) (\<lambda>a. andthen (operator_step ev names (\<lambda>_. True) t TOK_NUM st (entry a # n)) k)"
  proof -
    have k: "closes t (op_level TOK_CONDITIONAL)" "closes t (op_level TOK_CONDITIONAL_SEP)" using t lev by simp_all
    have steps: "operator_step ev names (\<lambda>_. True) t TOK_NUM (TOK_CONDITIONAL_SEP # TOK_CONDITIONAL # st) n =
        andthen (andthen (arith_apply ev names TOK_CONDITIONAL_SEP n) (arith_apply ev names TOK_CONDITIONAL))
          (operator_step ev names (\<lambda>_. True) t TOK_NUM st)" for n
    proof -
      have "operator_step ev names (\<lambda>_. True) t TOK_NUM (TOK_CONDITIONAL # st) =
          (\<lambda>n. andthen (arith_apply ev names TOK_CONDITIONAL n) (operator_step ev names (\<lambda>_. True) t TOK_NUM st))"
        using infix_token(5) [OF ops(1)] k(1) by (simp add: fun_eq_iff closed_step)
      then show ?thesis
        using infix_token(5) [OF ops(2)] k(2) by (simp add: closed_step calc_simps)
    qed
    show ?thesis by (simp only: steps apply_conditional) (simp add: calc_simps)
  qed
  finally show "?loop (tree_text (Conditional c l r) @ rest) n st lasttok =
    andthen (meaning ev names (Conditional c l r)) (\<lambda>a. andthen (operator_step ev names (\<lambda>_. True) t TOK_NUM st (entry a # n)) k)" .
qed

lemma reads_tree: "well_formed e \<Longrightarrow> reads ev names e \<and> (level e = 18 \<longrightarrow> stands_alone ev names e)"
proof (induction e)
  case (Num m)
  then show ?case using reads_number alone_reads by blast
next
  case (Name x)
  then show ?case using reads_name alone_reads by blast
next
  case (Paren e)
  then show ?case using reads_paren alone_reads by simp
next
  case (Unary op e)
  then show ?case using reads_unary by simp
next
  case (Postfix op e)
  then show ?case using reads_postfix by simp
next
  case (Binary op l r)
  then have "op \<in> set binary_ops" "op \<in> set infix_ops" by (simp_all add: infix_ops_def)
  then have "level (Binary op l r) < 16" using infix_levels(1) infix_token(7) by simp
  then show ?case using Binary reads_binary by auto
next
  case (Conditional c l r)
  then show ?case using reads_conditional by simp
qed

section \<open>The whole expression\<close>

lemma good_numerals_space: "good_numerals (xs @ 32 # ys) \<longleftrightarrow> good_numerals xs \<and> good_numerals ys"
proof (induction xs rule: good_numerals.induct)
  case 1
  have "\<not> is_in_name 32" by code_simp
  then show ?case by simp
next
  case (2 c cs)
  have n: "\<not> is_in_name 32" by code_simp
  show ?case
  proof (cases "is_in_name c")
    case True
    have "takeWhile is_in_name (cs @ 32 # ys) = takeWhile is_in_name cs"
      "dropWhile is_in_name (cs @ 32 # ys) = dropWhile is_in_name cs @ 32 # ys"
      using n by (induction cs) simp_all
    then show ?thesis using 2(1) [OF True] True by simp
  next
    case False
    then show ?thesis using 2(2) by simp
  qed
qed

lemma good_token_text: "op \<in> set tree_ops \<Longrightarrow> good_numerals (token_text op)"
  using token_texts(2) [of op] good_skip [of "token_text op" "[]"] by simp

lemma good_tree: "well_formed e \<Longrightarrow> good_numerals (tree_text e)"
proof (induction e)
  case (Num m)
  then show ?case using good_dec [of "int m"] by (simp add: dec_int_def)
next
  case (Name x)
  then obtain c cs where x: "x = c # cs" by (cases x) auto
  then have "is_name c" "takeWhile is_in_name x = x" using Name by (auto simp: endofname_def split: if_splits)
  moreover have "\<forall>c\<in>set x. is_in_name c" using calculation(2) by (metis set_takeWhileD)
  then have "dropWhile is_in_name cs = []" using x by simp
  ultimately show ?case using x by (simp add: is_in_name_def del: dropWhile_eq_Nil_conv)
next
  case (Paren e)
  have "TOK_LPAREN \<in> set tree_ops" "TOK_RPAREN \<in> set tree_ops" by (simp_all add: tree_ops_def)
  then show ?case using Paren good_token_text by (simp add: good_numerals_space)
next
  case (Unary op e)
  then show ?case using good_token_text unary_token(1) by (simp add: good_numerals_space)
next
  case (Postfix op e)
  then show ?case using good_token_text postfix_token(1) by (simp add: good_numerals_space)
next
  case (Binary op l r)
  then have "op \<in> set infix_ops" by (simp add: infix_ops_def)
  then show ?case using Binary good_token_text infix_token(1) by (simp add: good_numerals_space)
next
  case (Conditional c l r)
  have "TOK_CONDITIONAL \<in> set tree_ops" "TOK_CONDITIONAL_SEP \<in> set tree_ops" by (simp_all add: tree_ops_def)
  then show ?case using Conditional good_token_text by (simp add: good_numerals_space)
qed

lemma tree_text_head: "well_formed e \<Longrightarrow> tree_text e \<noteq> [] \<and> \<not> blank (hd (tree_text e))"
proof (induction e)
  case (Num m)
  obtain d where "d < 10" "hd (dec_digits m) = 48 + of_nat d"
    using dec_digits_digits [of "hd (dec_digits m)" m] by auto
  then have "is_in_name (hd (dec_digits m))" using digit_not_name by auto
  then show ?case using blank_not_name by auto
next
  case (Name x)
  then show ?case using blank_not_name by (auto simp: endofname_def is_in_name_def split: if_splits)
next
  case (Paren e)
  have "TOK_LPAREN \<in> set tree_ops" by (simp add: tree_ops_def)
  then show ?case using token_texts(1,2) [of TOK_LPAREN] by (simp add: hd_append)
next
  case (Unary op e)
  then show ?case using token_texts(1,2) [of op] unary_token(1) [of op] by (simp add: hd_append)
qed (simp_all add: hd_append)

text \<open>C8. \<open>evaluate_string\<close> computes the meaning of an expression: on the text of a well-formed tree, \<open>arith\<close> gives
  the value, the assignments and the error that recursion on the tree gives, with every operator of the
  shell, at its precedence and associativity, and with the conditional as one operator of three operands.\<close>

theorem arith_evaluates_trees:
  assumes "well_formed e"
  shows "arith (Suc fuel) (tree_text e) =
    andthen (meaning (evaluate_string fuel) [] e) (operand_value (evaluate_string fuel) [])"
proof -
  let ?ev = "evaluate_string fuel"
  let ?fin = "\<lambda>(n, st, l). case n of [n] \<Rightarrow> andthen (arith_lookup_val ?ev [] n) (\<lambda>n. ok (vn_val n)) | _ \<Rightarrow> bad Syntax"
  have blanks: "dropWhile blank (tree_text e) = tree_text e"
    using tree_text_head [OF assms] by (cases "tree_text e") simp_all
  have "arith (Suc fuel) (tree_text e) = arith_loop ?ev [] (\<lambda>_. True) (\<lambda>_. True) False (tree_text e) [] [TOK_LPAREN] TOK_LPAREN"
    unfolding arith_def using evaluate_string_room [OF good_tree [OF assms]] blanks tree_text_head [OF assms] by simp
  also have "\<dots> = andthen (meaning ?ev [] e) (\<lambda>a. andthen (operator_step ?ev [] (\<lambda>_. True) TOK_RPAREN TOK_NUM [TOK_LPAREN] [entry a]) ?fin)"
  proof -
    have "\<not> after_num TOK_LPAREN" "op_level TOK_LPAREN = 0" by code_simp+
    then show ?thesis
      using reads_tree [OF assms, of ?ev "[]"] continues_end level_positive [OF assms]
        readsD [of ?ev "[]" e "[]" TOK_RPAREN ?fin "[TOK_LPAREN]" TOK_LPAREN "[]"] by (simp add: closes_def waits_def)
  qed
  also have "\<dots> = andthen (meaning ?ev [] e) (operand_value ?ev [])"
    by (simp add: close_step Let_def calc_simps lookup_entry)
  finally show ?thesis .
qed

definition demo_tree :: tree where
  "demo_tree = Binary TOK_ASSIGN (Name [97]) (Conditional (Binary TOK_LT (Name [98]) (Num 9))
     (Binary TOK_ADD (Num 2) (Binary TOK_MUL (Num 3) (Paren (Postfix TOK_POST_INC (Name [98])))))
     (Unary TOK_UMINUS (Num 1)))"

lemma arith_evaluates_trees_witness:
  "tree_text demo_tree = bytes_of ''a = b < 9 ? 2 + 3 * ( b ++ ) : - 1'' \<and>
   arith 2 (tree_text demo_tree) [[98] \<mapsto> [53]] = (Inr 17, [[97] \<mapsto> [49, 55], [98] \<mapsto> [54]])"
proof
  show "tree_text demo_tree = bytes_of ''a = b < 9 ? 2 + 3 * ( b ++ ) : - 1''" by code_simp
  have "well_formed demo_tree" by code_simp
  note meant = arith_evaluates_trees [OF this, of "Suc 0"]
  have shown: "dec_int 5 = [53]" "dec_int 6 = [54]" "dec_int 17 = [49, 55]" by (simp_all add: dec_int_def dec_digits.simps)
  have look: "evaluate_string (Suc 0) [[98]] [53] = ok 5" "evaluate_string (Suc 0) [[98]] [54] = ok 6"
    using evaluate_stored [of 0 "[[98]]" 5] evaluate_stored [of 0 "[[98]]" 6]
    by (simp_all only: shown stored_value_def) (simp_all add: number_value_def sint_sbintrunc')
  let ?ev = "evaluate_string (Suc 0)"
  have operands: "operand_value ?ev [] (Value r) = ok r" "v [98] = Some [53] \<Longrightarrow> operand_value ?ev [] (Variable [98]) v = (Inr 5, v)" for r v
    using look by (simp_all add: operand_value_def andthen_def lookupvar_def ok_def del: evaluate_string.simps)
  have assigns: "is_assign_op TOK_ASSIGN" "\<not> is_assign_op TOK_LT" "\<not> is_assign_op TOK_ADD" "\<not> is_assign_op TOK_MUL" "\<not> is_assign_op TOK_UMINUS"
    "TOK_LT \<noteq> TOK_ASSIGN" "TOK_ADD \<noteq> TOK_ASSIGN" "TOK_MUL \<noteq> TOK_ASSIGN" by code_simp+
  have results: "binary_value TOK_LT 5 9 0 = ok 1" "binary_value TOK_MUL 3 5 0 = ok 15" "binary_value TOK_ADD 2 15 0 = ok 17"
    "unary_value TOK_POST_INC 5 = ok 6" "unary_value TOK_UMINUS 1 = ok (- 1)"
    by (simp_all add: binary_value_def unary_value_def tok_numbers checked_def in_range_def of_bool_int_def)
  have numbers: "number_value 9 = 9" "number_value 2 = 2" "number_value 3 = 3" "number_value (Suc 0) = 1"
    by (simp_all add: number_value_def sint_sbintrunc')
  have "meaning ?ev [] demo_tree v = (Inr (Value 17), v([98] \<mapsto> [54], [97] \<mapsto> [49, 55]))" if "v [98] = Some [53]" for v
    using that by (simp add: demo_tree_def calc_simps operands assigns numbers finish_def assign_def)
      (simp add: andthen_def operands results assigns assign_def setvar_def shown ok_def)
  then show "arith 2 (tree_text demo_tree) [[98] \<mapsto> [53]] = (Inr 17, [[97] \<mapsto> [49, 55], [98] \<mapsto> [54]])"
    using meant by (simp add: andthen_def operands ok_def fun_upd_twist numeral_2_eq_2 del: evaluate_string.simps tree_text.simps)
qed

end
