(* ===== verification/Domain_Codec.thy ===== *)
theory Domain_Codec
  imports Tool_Monad
begin

text \<open>
  The compressed domain names of the busybox DHCP client and server, \<open>networking/udhcp/domain_codec.c\<close>: the
  encoding of RFC 1035, in which a name may end in a pointer to a tail that occurs earlier.

  Strings and buffers are lists of bytes; a C string is its bytes without the NUL.  Positions and lengths
  are natural numbers: they stay below the length of the data, a pointer offset, or the limits of the code,
  all far from \<open>2 ^ 31\<close>.  A read or write outside a buffer is \<open>Out_Of_Bounds\<close>, returning \<open>NULL\<close> is \<open>Aborted\<close>.
\<close>

section \<open>Limits and results\<close>

definition NS_MAXDNAME :: nat where "NS_MAXDNAME = 1025"
definition NS_MAXCDNAME :: nat where "NS_MAXCDNAME = 255"
definition NS_MAXLABEL :: nat where "NS_MAXLABEL = 63"
definition NS_MAXDNSRCH :: nat where "NS_MAXDNSRCH = 6"
definition NS_CMPRSFLGS :: u8 where "NS_CMPRSFLGS = 0xC0"

datatype dname_error = Aborted | Out_Of_Bounds

type_synonym 'a dname = "dname_error + 'a"

definition bindd :: "'a dname \<Rightarrow> ('a \<Rightarrow> 'b dname) \<Rightarrow> 'b dname" where
  "bindd r f = (case r of Inl e \<Rightarrow> Inl e | Inr x \<Rightarrow> f x)"

lemma bindd_simps [simp]: "bindd (Inl e) f = Inl e" "bindd (Inr x) f = f x"
  by (simp_all add: bindd_def)

text \<open>Reading a byte, and the source of a \<open>memcpy\<close>.\<close>

definition byte_at :: "u8 list \<Rightarrow> nat \<Rightarrow> u8 dname" where
  "byte_at cstr i = (if i < length cstr then Inr (cstr ! i) else Inl Out_Of_Bounds)"

definition bytes_at :: "u8 list \<Rightarrow> nat \<Rightarrow> nat \<Rightarrow> u8 list dname" where
  "bytes_at cstr i n = (if i + n \<le> length cstr then Inr (take n (drop i cstr)) else Inl Out_Of_Bounds)"

definition is_pointer :: "u8 \<Rightarrow> bool" where
  "is_pointer c \<longleftrightarrow> c AND NS_CMPRSFLGS = NS_CMPRSFLGS"

definition pointer_offset :: "u8 \<Rightarrow> u8 \<Rightarrow> nat" where
  "pointer_offset c0 c1 = unat (push_bit 8 (ucast (c0 AND 0x3F)) OR ucast c1 :: u32)"

section \<open>Decoding\<close>

text \<open>\<open>dst\<close> is \<open>NULL\<close> in the first pass, which only measures.\<close>

record decoder =
  crtpos :: nat
  retpos :: nat
  depth :: nat
  len :: nat
  dst :: "u8 list option"

definition store_byte :: "u8 list option \<Rightarrow> nat \<Rightarrow> u8 \<Rightarrow> u8 list option dname" where
  "store_byte d i b = (case d of None \<Rightarrow> Inr None
   | Some buf \<Rightarrow> if i < length buf then Inr (Some (buf[i := b])) else Inl Out_Of_Bounds)"

definition store_bytes :: "u8 list option \<Rightarrow> nat \<Rightarrow> u8 list \<Rightarrow> u8 list option dname" where
  "store_bytes d i bs = (case d of None \<Rightarrow> Inr None
   | Some buf \<Rightarrow> if i + length bs \<le> length buf then Inr (Some (take i buf @ bs @ drop (i + length bs) buf)) else Inl Out_Of_Bounds)"

text \<open>\<open>len - 1\<close> for an unsigned \<open>len\<close> of 32 bits, as an index where pointers have 64 bits: for a length of
  zero it is far behind the buffer.  (With pointers of 32 bits it would be the byte before it.)\<close>

definition before_len :: "nat \<Rightarrow> nat" where
  "before_len n = (if n = 0 then 2 ^ 32 - 1 else n - 1)"

text \<open>The label is read and copied in the second pass only.\<close>

definition copy_label :: "u8 list \<Rightarrow> decoder \<Rightarrow> nat \<Rightarrow> u8 list option dname" where
  "copy_label cstr s n = (case dst s of None \<Rightarrow> Inr None
   | Some buf \<Rightarrow> bindd (bytes_at cstr (crtpos s + 1) n) (store_bytes (Some buf) (len s)))"

definition dec_step :: "u8 list \<Rightarrow> decoder \<Rightarrow> decoder dname" where
  "dec_step cstr s =
     (let clen = length cstr in
      bindd (byte_at cstr (crtpos s)) (\<lambda>c.
      bindd (if is_pointer c
        then (if clen < crtpos s + 2 then Inl Aborted
          else bindd (byte_at cstr (crtpos s + 1)) (\<lambda>c1.
            Inr (s\<lparr>retpos := if retpos s = 0 then crtpos s + 2 else retpos s, depth := depth s + 1,
              crtpos := pointer_offset c c1\<rparr>)))
        else if c \<noteq> 0
        then (if clen < crtpos s + unat c + 1 then Inl Aborted
          else bindd (copy_label cstr s (unat c)) (\<lambda>d.
            bindd (store_byte d (len s + unat c) 46) (\<lambda>d.
            Inr (s\<lparr>len := len s + unat c + 1, crtpos := crtpos s + unat c + 1, dst := d\<rparr>))))
        else bindd (store_byte (dst s) (before_len (len s)) 32) (\<lambda>d.
          Inr (if retpos s = 0 then s\<lparr>crtpos := crtpos s + 1, dst := d\<rparr>
               else s\<lparr>crtpos := retpos s, retpos := 0, depth := 0, dst := d\<rparr>)))
      (\<lambda>s. if NS_MAXDNSRCH < depth s \<or> NS_MAXDNAME * NS_MAXDNSRCH < len s then Inl Aborted else Inr s)))"

text \<open>Where the names at the top level go on.\<close>

definition toplevel :: "decoder \<Rightarrow> nat" where
  "toplevel s = (if retpos s = 0 then crtpos s else retpos s)"

lemma dec_step_limits: "dec_step cstr s = Inr s' \<Longrightarrow> depth s' \<le> 6 \<and> len s' \<le> 6150"
  by (auto simp: dec_step_def Let_def bindd_def NS_MAXDNSRCH_def NS_MAXDNAME_def not_less split: sum.splits if_splits)

function dec_loop :: "u8 list \<Rightarrow> decoder \<Rightarrow> decoder dname" where
  "dec_loop cstr s =
     (if crtpos s < length cstr
      then (case dec_step cstr s of Inl e \<Rightarrow> Inl e | Inr s \<Rightarrow> dec_loop cstr s)
      else Inr s)"
  by pat_completeness auto
termination
proof (relation "measures [\<lambda>(cstr, s). length cstr - toplevel s, \<lambda>(cstr, s). if retpos s = 0 then 0 else 1,
    \<lambda>(cstr, s). 6151 - len s, \<lambda>(cstr, s). 7 - depth s]", goal_cases)
  case (2 cstr s s')
  note lim = dec_step_limits [OF 2(2)]
  show ?case using 2 lim
    by (auto simp: dec_step_def Let_def toplevel_def bindd_def split: sum.splits if_splits)
qed simp

declare dec_loop.simps [simp del]

definition start :: "u8 list option \<Rightarrow> decoder" where
  "start d = \<lparr>crtpos = 0, retpos = 0, depth = 0, len = 0, dst = d\<rparr>"

text \<open>\<open>junk\<close> is what the allocated memory holds.  The result is the buffer, with its NUL.\<close>

definition dname_dec :: "(nat \<Rightarrow> u8) \<Rightarrow> u8 list \<Rightarrow> u8 list \<Rightarrow> u8 list dname" where
  "dname_dec junk cstr pre =
     bindd (dec_loop cstr (start None)) (\<lambda>s.
     if len s = 0 then Inl Aborted
     else bindd (dec_loop cstr (start (Some (map junk [0..<len s])))) (\<lambda>s.
       if len s = 0 then Inl Aborted
       else bindd (store_byte (dst s) (before_len (len s)) 0) (\<lambda>d.
         case d of None \<Rightarrow> Inl Aborted | Some buf \<Rightarrow> Inr (pre @ buf))))"

section \<open>Encoding\<close>

definition lower :: "u8 \<Rightarrow> u8" where
  "lower c = (if 65 \<le> c \<and> c \<le> 90 then c + 32 else c)"

text \<open>\<open>res\<close> is what has been finished in front of \<open>lenptr\<close>, \<open>label\<close> what has been written behind it.\<close>

fun convert_loop :: "u8 list \<Rightarrow> u8 list \<Rightarrow> u8 list \<Rightarrow> u8 list option" where
  "convert_loop src res label =
     (if src = [] \<or> hd src = 46
      then (if NS_MAXLABEL < length label \<or> label = [] \<or> (src \<noteq> [] \<and> tl src \<noteq> [] \<and> hd (tl src) = 46) then None
        else if src = [] \<or> tl src = [] then Some (res @ of_nat (length label) # label)
        else convert_loop (tl src) (res @ of_nat (length label) # label) [])
      else convert_loop (tl src) res (label @ [lower (hd src)]))"

declare convert_loop.simps [simp del]

definition convert_dname :: "u8 list \<Rightarrow> u8 list option" where
  "convert_dname src = (case convert_loop src [] [] of
     None \<Rightarrow> None
   | Some res \<Rightarrow> if NS_MAXCDNAME \<le> length res then None else Some (res @ [0]))"

text \<open>\<open>memcmp\<close>, byte by byte up to the first difference.\<close>

fun memcmp_eq :: "u8 list \<Rightarrow> u8 list \<Rightarrow> nat \<Rightarrow> bool dname" where
  "memcmp_eq c d n =
     (if n = 0 then Inr True
      else if c = [] \<or> d = [] then Inl Out_Of_Bounds
      else if hd c = hd d then memcmp_eq (tl c) (tl d) (n - 1) else Inr False)"

declare memcmp_eq.simps [simp del]

text \<open>Matching the labels \<open>d\<close> with those at \<open>c\<close>.\<close>

lemma memcmp_length: "memcmp_eq c d n = Inr True \<Longrightarrow> n \<le> length d"
proof (induction c d n rule: memcmp_eq.induct)
  case (1 c d n)
  then show ?case by (subst (asm) (2) memcmp_eq.simps) (cases d; auto split: if_splits)
qed

function match_name :: "u8 list \<Rightarrow> nat \<Rightarrow> u8 list \<Rightarrow> bool dname" where
  "match_name cstr c d = (case byte_at cstr c of Inl e \<Rightarrow> Inl e | Inr b \<Rightarrow>
     let len1 = unat b + 1 in
     (case memcmp_eq (drop c cstr) d len1 of Inl e \<Rightarrow> Inl e
      | Inr same \<Rightarrow>
        if \<not> same then Inr False
        else if len1 = 1 then Inr True
        else (case byte_at cstr (c + len1) of Inl e \<Rightarrow> Inl e
          | Inr b \<Rightarrow>
            if is_pointer b
            then (case byte_at cstr (c + len1 + 1) of Inl e \<Rightarrow> Inl e
              | Inr b1 \<Rightarrow> match_name cstr (pointer_offset b b1) (drop len1 d))
            else match_name cstr (c + len1) (drop len1 d))))"
  by pat_completeness auto
termination
  by (relation "measure (\<lambda>(cstr, c, d). length d)") (auto dest!: memcmp_length)

declare match_name.simps [simp del]

text \<open>The search from \<open>off\<close> on; \<open>None\<close> stands for \<open>-1\<close>.\<close>

function find_from :: "u8 list \<Rightarrow> u8 list \<Rightarrow> nat \<Rightarrow> nat option dname" where
  "find_from cstr dname off =
     (if \<not> off < length cstr then Inr None
      else
        let c = cstr ! off in
        if is_pointer c then find_from cstr dname (off + 2)
        else if c \<noteq> 0
        then (case match_name cstr off dname of Inl e \<Rightarrow> Inl e
          | Inr same \<Rightarrow> if same then Inr (Some off) else find_from cstr dname (off + unat c + 1))
        else find_from cstr dname (off + 1))"
  by pat_completeness auto
termination by (relation "measure (\<lambda>(cstr, dname, off). length cstr - off)") auto

declare find_from.simps [simp del]

definition find_offset :: "u8 list \<Rightarrow> u8 list \<Rightarrow> nat option dname" where
  "find_offset cstr dname = find_from cstr dname 0"

text \<open>The tails of the name, longest first; \<open>head\<close> is what stands in front of \<open>d\<close>.  The result is what
  \<open>retlen\<close> bytes of the buffer hold.\<close>

function compress :: "u8 list option \<Rightarrow> u8 list \<Rightarrow> u8 list \<Rightarrow> u8 list dname" where
  "compress cstr hdr d =
     (if d = [] then Inl Out_Of_Bounds
      else if hd d = 0 then Inr (hdr @ [0])
      else (case (case cstr of None \<Rightarrow> Inr None | Some cstr \<Rightarrow> find_offset cstr d) of Inl e \<Rightarrow> Inl e
        | Inr (Some off) \<Rightarrow> Inr (hdr @ [NS_CMPRSFLGS OR of_nat (off div 256), of_nat off])
        | Inr None \<Rightarrow> compress cstr (hdr @ take (unat (hd d) + 1) d) (drop (unat (hd d) + 1) d)))"
  by pat_completeness auto
termination by (relation "measure (\<lambda>(cstr, hdr, d). length d)") auto

declare compress.simps [simp del]

definition dname_enc :: "u8 list option \<Rightarrow> u8 list \<Rightarrow> u8 list dname" where
  "dname_enc cstr src = (case convert_dname src of None \<Rightarrow> Inl Aborted | Some dname \<Rightarrow> compress cstr [] dname)"

end
