(* ===== verification/Dhcp_Options.thy ===== *)
theory Dhcp_Options
  imports Domain_Codec
begin

text \<open>
  The options of DHCP packets in busybox, \<open>networking/udhcp/common.c\<close>: looking an option up in a packet, adding
  one, and the list of options that is built from the configuration.

  Of a packet only the three fields that can hold options are modelled.  As in \<open>Domain_Codec\<close>, leaving a
  buffer is \<open>Out_Of_Bounds\<close>; \<open>Aborted\<close> is here the exit of \<open>bb_error_msg_and_die\<close>.  The list of options is
  linked in the code; nothing else points into it.
\<close>

section \<open>Codes and types\<close>

definition OPT_CODE :: nat where "OPT_CODE = 0"
definition OPT_LEN :: nat where "OPT_LEN = 1"
definition OPT_DATA :: nat where "OPT_DATA = 2"
definition DHCP_PADDING :: u8 where "DHCP_PADDING = 0"
definition DHCP_OPTION_OVERLOAD :: u8 where "DHCP_OPTION_OVERLOAD = 0x34"
definition DHCP_END :: u8 where "DHCP_END = 0xFF"
definition FILE_FIELD :: u32 where "FILE_FIELD = 1"
definition SNAME_FIELD :: u32 where "SNAME_FIELD = 2"
definition DHCP_OPTIONS_BUFSIZE :: nat where "DHCP_OPTIONS_BUFSIZE = 308"

definition OPTION_IP :: u8 where "OPTION_IP = 1"
definition OPTION_IP_PAIR :: u8 where "OPTION_IP_PAIR = 2"
definition OPTION_STRING :: u8 where "OPTION_STRING = 3"
definition OPTION_STRING_HOST :: u8 where "OPTION_STRING_HOST = 4"
definition OPTION_U8 :: u8 where "OPTION_U8 = 5"
definition OPTION_U16 :: u8 where "OPTION_U16 = 6"
definition OPTION_U32 :: u8 where "OPTION_U32 = 7"
definition OPTION_S32 :: u8 where "OPTION_S32 = 8"
definition OPTION_BIN :: u8 where "OPTION_BIN = 9"
definition OPTION_STATIC_ROUTES :: u8 where "OPTION_STATIC_ROUTES = 10"
definition OPTION_6RD :: u8 where "OPTION_6RD = 11"
definition OPTION_DNS_STRING :: u8 where "OPTION_DNS_STRING = 12"
definition OPTION_SIP_SERVERS :: u8 where "OPTION_SIP_SERVERS = 13"
definition OPTION_TYPE_MASK :: u8 where "OPTION_TYPE_MASK = 0x0F"
definition OPTION_REQ :: u8 where "OPTION_REQ = 0x10"
definition OPTION_LIST :: u8 where "OPTION_LIST = 0x20"

text \<open>Flags and code of the known options, without the terminating entry, with every feature configured.\<close>

definition dhcp_optflags :: "(u8 \<times> u8) list" where
  "dhcp_optflags =
    [(OPTION_IP OR OPTION_REQ, 0x01), (OPTION_S32, 0x02), (OPTION_IP OR OPTION_LIST OR OPTION_REQ, 0x03),
     (OPTION_IP OR OPTION_LIST OR OPTION_REQ, 0x06), (OPTION_IP OR OPTION_LIST, 0x09), (OPTION_STRING_HOST OR OPTION_REQ, 0x0C),
     (OPTION_U16, 0x0D), (OPTION_STRING_HOST OR OPTION_REQ, 0x0F), (OPTION_IP, 0x10), (OPTION_STRING, 0x11), (OPTION_U8, 0x17),
     (OPTION_U16, 0x1A), (OPTION_IP OR OPTION_REQ, 0x1C), (OPTION_IP_PAIR OR OPTION_LIST, 0x21), (OPTION_STRING_HOST, 0x28),
     (OPTION_IP OR OPTION_LIST, 0x29), (OPTION_IP OR OPTION_LIST OR OPTION_REQ, 0x2A), (OPTION_IP OR OPTION_LIST, 0x2C),
     (OPTION_U32, 0x33), (OPTION_IP, 0x36), (OPTION_STRING, 0x38), (OPTION_STRING_HOST, 0x42), (OPTION_STRING, 0x43),
     (OPTION_DNS_STRING OR OPTION_LIST, 0x77), (OPTION_SIP_SERVERS, 0x78), (OPTION_STATIC_ROUTES OR OPTION_LIST, 0x79),
     (OPTION_U16, 0x84), (OPTION_U8, 0x85), (OPTION_6RD, 0xD4), (OPTION_STATIC_ROUTES OR OPTION_LIST, 0xF9), (OPTION_STRING, 0xFC),
     (OPTION_IP, 0x32), (OPTION_U8, 0x35), (OPTION_U16, 0x39)]"

definition dhcp_option_lengths :: "u8 \<Rightarrow> nat" where
  "dhcp_option_lengths ty =
     (if ty = OPTION_IP then 4 else if ty = OPTION_IP_PAIR then 8 else if ty = OPTION_STRING then 1
      else if ty = OPTION_STRING_HOST then 1 else if ty = OPTION_DNS_STRING then 1 else if ty = OPTION_SIP_SERVERS then 1
      else if ty = OPTION_U8 then 1 else if ty = OPTION_U16 then 2 else if ty = OPTION_U32 then 4 else if ty = OPTION_S32 then 4
      else if ty = OPTION_STATIC_ROUTES then 5 else if ty = OPTION_6RD then 22 else 0)"

section \<open>Options in a packet\<close>

record dhcp_packet =
  pk_sname :: "u8 list"
  pk_file :: "u8 list"
  pk_options :: "u8 list"

datatype packet_field = Options | File | Sname

fun bytes_in :: "dhcp_packet \<Rightarrow> packet_field \<Rightarrow> u8 list" where
  "bytes_in p Options = pk_options p"
| "bytes_in p File = pk_file p"
| "bytes_in p Sname = pk_sname p"

text \<open>\<open>udhcp_get_option\<close>: \<open>optionptr\<close> is an offset in a field.  The bits above the low byte of \<open>overload\<close> say which
  fields have been looked at.\<close>

definition FILE_FIELD101 :: u32 where "FILE_FIELD101 = FILE_FIELD * 0x101"
definition SNAME_FIELD101 :: u32 where "SNAME_FIELD101 = SNAME_FIELD * 0x101"

lemma overload_bits:
  "bit (ov OR FILE_FIELD101) 8" "bit (ov OR FILE_FIELD101) 9 = bit ov 9"
  "bit (ov OR SNAME_FIELD101) 8 = bit ov 8" "bit (ov OR SNAME_FIELD101) 9"
  "bit (ov OR ucast (b :: u8)) 8 = bit ov 8" "bit (ov OR ucast (b :: u8)) 9 = bit ov 9"
  "ov AND FILE_FIELD101 = FILE_FIELD \<Longrightarrow> \<not> bit ov 8" "ov AND SNAME_FIELD101 = SNAME_FIELD \<Longrightarrow> \<not> bit ov 9"
proof -
  have bits: "bit FILE_FIELD101 8" "\<not> bit FILE_FIELD101 9" "\<not> bit FILE_FIELD 8" "\<not> bit SNAME_FIELD101 8" "bit SNAME_FIELD101 9" "\<not> bit SNAME_FIELD 9"
    by (simp_all add: FILE_FIELD101_def SNAME_FIELD101_def FILE_FIELD_def SNAME_FIELD_def)
  show "bit (ov OR FILE_FIELD101) 8" "bit (ov OR FILE_FIELD101) 9 = bit ov 9"
    "bit (ov OR SNAME_FIELD101) 8 = bit ov 8" "bit (ov OR SNAME_FIELD101) 9" using bits by (simp_all add: bit_or_iff)
  have "\<not> bit (ucast b :: u32) n" if "8 \<le> n" for n using that by (auto simp: bit_ucast_iff dest: bit_imp_le_length)
  then show "bit (ov OR ucast b) 8 = bit ov 8" "bit (ov OR ucast b) 9 = bit ov 9" by (simp_all add: bit_or_iff)
  show "ov AND FILE_FIELD101 = FILE_FIELD \<Longrightarrow> \<not> bit ov 8" using bits by (metis bit_and_iff)
  show "ov AND SNAME_FIELD101 = SNAME_FIELD \<Longrightarrow> \<not> bit ov 9" using bits by (metis bit_and_iff)
qed

lemma option_length_positive: "- 2 < uint (w :: u8)" "\<not> rem < 2 + uint (w :: u8) \<Longrightarrow> 0 < rem"
  using uint_ge_0 [of w] by linarith+

function get_loop :: "dhcp_packet \<Rightarrow> u8 \<Rightarrow> packet_field \<Rightarrow> nat \<Rightarrow> int \<Rightarrow> u32 \<Rightarrow> (packet_field \<times> nat) option dname" where
  "get_loop p code f ptr rem overload =
     (if rem \<le> 0 then Inr None
      else if length (bytes_in p f) \<le> ptr then Inl Out_Of_Bounds
      else
        let c = bytes_in p f ! ptr in
        if c = DHCP_PADDING then get_loop p code f (ptr + 1) (rem - 1) overload
        else if c = DHCP_END
        then (if overload AND FILE_FIELD101 = FILE_FIELD
              then get_loop p code File 0 (int (length (pk_file p))) (overload OR FILE_FIELD101)
              else if overload AND SNAME_FIELD101 = SNAME_FIELD
              then get_loop p code Sname 0 (int (length (pk_sname p))) (overload OR SNAME_FIELD101)
              else Inr None)
        else if length (bytes_in p f) \<le> ptr + OPT_LEN then Inl Out_Of_Bounds
        else
          let len = 2 + unat (bytes_in p f ! (ptr + OPT_LEN)) in
          if rem - int len < 0 then Inr None
          else if c = code then Inr (Some (f, ptr + OPT_DATA))
          else if c = DHCP_OPTION_OVERLOAD
          then (if length (bytes_in p f) \<le> ptr + OPT_DATA then Inl Out_Of_Bounds
            else get_loop p code f (ptr + len) (rem - int len) (overload OR ucast (bytes_in p f ! (ptr + OPT_DATA))))
          else get_loop p code f (ptr + len) (rem - int len) overload)"
  by pat_completeness auto
termination
  by (relation "measures [\<lambda>(p, code, f, ptr, rem, ov). (if bit ov 8 then 0 else 1) + (if bit ov 9 then 0 else 1), \<lambda>(p, code, f, ptr, rem, ov). nat rem]")
    (auto simp: overload_bits option_length_positive(1) intro: option_length_positive(2))

declare get_loop.simps [simp del]

definition udhcp_get_option :: "dhcp_packet \<Rightarrow> u8 \<Rightarrow> (packet_field \<times> nat) option dname" where
  "udhcp_get_option p code = get_loop p code Options 0 (int (length (pk_options p))) 0"

function end_loop :: "u8 list \<Rightarrow> nat \<Rightarrow> nat dname" where
  "end_loop opts i =
     (if length opts \<le> i then Inl Out_Of_Bounds
      else if opts ! i = DHCP_END then Inr i
      else if opts ! i = DHCP_PADDING then end_loop opts (i + 1)
      else if length opts \<le> i + OPT_LEN then Inl Out_Of_Bounds
      else end_loop opts (i + unat (opts ! (i + OPT_LEN)) + (OPT_DATA - 1) + 1))"
  by pat_completeness auto
termination by (relation "measure (\<lambda>(opts, i). length opts - i)") auto

declare end_loop.simps [simp del]

definition udhcp_end_option :: "u8 list \<Rightarrow> nat dname" where
  "udhcp_end_option opts = end_loop opts 0"

text \<open>\<open>memcpy\<close> between buffers.\<close>

definition copy_in :: "u8 list \<Rightarrow> nat \<Rightarrow> u8 list \<Rightarrow> nat \<Rightarrow> u8 list dname" where
  "copy_in buf i src n =
     (if n \<le> length src \<and> i + n \<le> length buf then Inr (take i buf @ take n src @ drop (i + n) buf) else Inl Out_Of_Bounds)"

definition udhcp_add_binary_option :: "dhcp_packet \<Rightarrow> u8 list \<Rightarrow> dhcp_packet dname" where
  "udhcp_add_binary_option p addopt = bindd (udhcp_end_option (pk_options p)) (\<lambda>pos.
     bindd (byte_at addopt OPT_LEN) (\<lambda>l.
     let n = OPT_DATA + unat l in
     if DHCP_OPTIONS_BUFSIZE \<le> pos + n + 1 then Inr p
     else bindd (copy_in (pk_options p) pos addopt n) (\<lambda>opts.
       if pos + n < length opts then Inr (p\<lparr>pk_options := opts[pos + n := DHCP_END]\<rparr>) else Inl Out_Of_Bounds)))"

text \<open>The host is little-endian, so \<open>data\<close> is stored as it is; the buffer \<open>option\<close> has six bytes.\<close>

definition udhcp_add_simple_option :: "dhcp_packet \<Rightarrow> u8 \<Rightarrow> u32 \<Rightarrow> dhcp_packet dname" where
  "udhcp_add_simple_option p code data = (case List.find (\<lambda>(flags, c). c = code) dhcp_optflags of
     None \<Rightarrow> Inr p
   | Some (flags, c) \<Rightarrow>
       udhcp_add_binary_option p ([code, of_nat (dhcp_option_lengths (flags AND OPTION_TYPE_MASK))] @ le_bytes32 data))"

section \<open>The list of options\<close>

text \<open>An option of the list is its bytes: code, length, data.\<close>

definition udhcp_find_option :: "u8 list list \<Rightarrow> u8 \<Rightarrow> u8 list option" where
  "udhcp_find_option opt_list code =
     (case dropWhile (\<lambda>d. d ! OPT_CODE < code) opt_list of
        [] \<Rightarrow> None
      | d # _ \<Rightarrow> if d ! OPT_CODE = code then Some d else None)"

definition hex2bin_digit :: "u8 \<Rightarrow> u8 option" where
  "hex2bin_digit c =
     (if 48 \<le> c \<and> c \<le> 57 then Some (c - 48)
      else if 97 \<le> (c OR 0x20) \<and> (c OR 0x20) \<le> 102 then Some ((c OR 0x20) - 87)
      else None)"

text \<open>\<open>hex2bin\<close>: two digits or one for a byte, with colons between bytes if one likes.  \<open>None\<close> stands for an
  error.\<close>

fun hex2bin :: "u8 list \<Rightarrow> nat \<Rightarrow> u8 list option" where
  "hex2bin str 0 = (if str = [] then Some [] else None)"
| "hex2bin [] (Suc count) = Some []"
| "hex2bin (c # str) (Suc count) = (case hex2bin_digit c of
     None \<Rightarrow> None
   | Some hi \<Rightarrow>
       let two = (str \<noteq> [] \<and> hex2bin_digit (hd str) \<noteq> None)
       in if two \<or> str = [] \<or> hd str = 58
          then
            let val = (if two then push_bit 4 hi OR the (hex2bin_digit (hd str)) else hi);
                str = (if str = [] then [] else tl str);
                str = (if str \<noteq> [] \<and> hd str = 58 then tl str else str)
            in map_option (\<lambda>bs. val # bs) (hex2bin str count)
          else None)"

text \<open>What is stored: the buffer as it is, its hexadecimal digits, or the encoded name; a malformed name stores
  nothing.\<close>

definition option_data :: "u8 \<Rightarrow> u8 list option \<Rightarrow> u8 list \<Rightarrow> nat \<Rightarrow> u8 list dname" where
  "option_data flags cache buffer n =
     (if flags AND OPTION_TYPE_MASK = OPTION_BIN
      then (case hex2bin buffer 255 of None \<Rightarrow> Inl Aborted | Some bs \<Rightarrow> Inr bs)
      else if flags AND OPTION_TYPE_MASK = OPTION_DNS_STRING
      then (case dname_enc cache buffer of Inl Aborted \<Rightarrow> Inr [] | r \<Rightarrow> r)
      else if n \<le> length buffer then Inr (take n buffer) else Inl Out_Of_Bounds)"

text \<open>A further value of binary type would be copied from its text, not from its bytes.\<close>

definition attach_option :: "u8 list list \<Rightarrow> u8 \<Rightarrow> u8 \<Rightarrow> u8 list \<Rightarrow> nat \<Rightarrow> u8 list list dname" where
  "attach_option opt_list flags code buffer n =
     (let front = takeWhile (\<lambda>d. d ! OPT_CODE < code) opt_list;
          rest = dropWhile (\<lambda>d. d ! OPT_CODE < code) opt_list
      in case udhcp_find_option opt_list code of
        None \<Rightarrow> bindd (option_data flags None buffer n) (\<lambda>data.
          Inr (front @ ([code, of_nat (length data)] @ data) # rest))
      | Some existing \<Rightarrow>
          if flags AND OPTION_LIST = 0 then Inr opt_list
          else
            let old_len = unat (existing ! OPT_LEN);
                old = take old_len (drop OPT_DATA existing)
            in bindd (option_data flags (Some old) buffer n) (\<lambda>data.
              let data = (if flags AND OPTION_TYPE_MASK = OPTION_BIN then take (length data) buffer else data) in
              if old_len + length data < 255
              then
                let ty = flags AND OPTION_TYPE_MASK;
                    old = (if ty = OPTION_STRING \<or> ty = OPTION_STRING_HOST then old @ [32] else old)
                in Inr (front @ ([code, of_nat (length old + length data)] @ old @ data) # tl rest)
              else Inr opt_list))"

text \<open>The string types in the loop of \<open>udhcp_str2optset\<close>, \<open>vals\<close> being what \<open>strtok\<close> returns one after the other: the
  length is cut at 254, an empty string ends the loop, and only a list takes more than one value.\<close>

fun attach_strings :: "u8 list list \<Rightarrow> u8 \<Rightarrow> u8 \<Rightarrow> u8 list list \<Rightarrow> u8 list list dname" where
  "attach_strings opt_list flags code [] = Inr opt_list"
| "attach_strings opt_list flags code (val # vals) =
     (let n = min (length val) 254 in
      if n = 0 then Inr opt_list
      else bindd (attach_option opt_list flags code val n) (\<lambda>opt_list.
        if flags AND OPTION_LIST = 0 then Inr opt_list else attach_strings opt_list flags code vals))"

end
