(* ===== verification/Domain_Correct.thy ===== *)
theory Domain_Correct
  imports Domain_Codec
begin

text \<open>
  What a compressed list of domain names stands for: \<open>name_at\<close> reads the labels of the name at an offset,
  following its pointers, and counts them.  The decoder prints what \<open>name_at\<close> reads, within its limits, and the
  encoder appends what \<open>name_at\<close> reads back.
\<close>

section \<open>Names on the wire and in print\<close>

definition labels_ok :: "u8 list list \<Rightarrow> bool" where
  "labels_ok ls \<longleftrightarrow> (\<forall>l\<in>set ls. l \<noteq> [] \<and> length l \<le> 63 \<and> 46 \<notin> set l)"

definition heads :: "u8 list list \<Rightarrow> u8 list" where
  "heads ls = concat (map (\<lambda>l. of_nat (length l) # l) ls)"

definition wire :: "u8 list list \<Rightarrow> u8 list" where
  "wire ls = heads ls @ [0]"

text \<open>Every label with a dot behind it, and the dots only between the labels.\<close>

definition dotted :: "u8 list list \<Rightarrow> u8 list" where
  "dotted ls = concat (map (\<lambda>l. l @ [46]) ls)"

definition join :: "u8 list list \<Rightarrow> u8 list" where
  "join ls = butlast (dotted ls)"

lemma labels_ok_simps [simp]: "labels_ok []" "labels_ok (l # ls) \<longleftrightarrow> l \<noteq> [] \<and> length l \<le> 63 \<and> 46 \<notin> set l \<and> labels_ok ls"
  by (auto simp: labels_ok_def)

lemma wire_simps [simp]: "wire [] = [0]" "wire (l # ls) = of_nat (length l) # l @ wire ls"
  by (simp_all add: wire_def heads_def)

lemma heads_simps [simp]: "heads [] = []" "heads (l # ls) = of_nat (length l) # l @ heads ls" "heads (ls @ ms) = heads ls @ heads ms"
  by (simp_all add: heads_def)

lemma dotted_simps [simp]: "dotted [] = []" "dotted (l # ls) = l @ 46 # dotted ls" "dotted (ls @ ms) = dotted ls @ dotted ms"
  by (simp_all add: dotted_def)

lemma length_heads: "length (heads ls) = length (dotted ls)"
  by (induction ls) simp_all

lemma dotted_empty [simp]: "dotted ls = [] \<longleftrightarrow> ls = []"
  by (cases ls) simp_all

lemma join_simps: "join [l] = l" "ls \<noteq> [] \<Longrightarrow> join (l # ls) = l @ 46 # join ls"
  by (simp_all add: join_def butlast_append)

lemma join_start: "labels_ok ls \<Longrightarrow> ls \<noteq> [] \<Longrightarrow> join ls \<noteq> [] \<and> hd (join ls) \<noteq> 46"
proof (cases ls)
  case (Cons l ms)
  assume "labels_ok ls"
  then have "l \<noteq> []" "hd l \<noteq> 46" using Cons by (auto simp: in_set_conv_nth hd_conv_nth)
  then show ?thesis using Cons by (cases "ms = []") (simp_all add: join_simps)
qed simp

lemma label_byte: "length l \<le> 63 \<Longrightarrow> unat (of_nat (length l) :: u8) = length l"
  by (simp add: unat_of_nat)

lemma short_no_pointer: "unat c \<le> 63 \<Longrightarrow> \<not> is_pointer c"
proof
  assume c: "unat c \<le> 63" and p: "is_pointer c"
  have "c AND 0xC0 \<le> c" by (rule word_and_le2)
  then show False using c p by (simp add: is_pointer_def NS_CMPRSFLGS_def word_le_nat_alt)
qed

section \<open>Writing a name out\<close>

lemma convert_label: "46 \<notin> set l \<Longrightarrow> convert_loop (l @ r) res lab = convert_loop r res (lab @ map lower l)"
proof (induction l arbitrary: lab)
  case (Cons c l)
  then show ?case by (subst convert_loop.simps) auto
qed simp

lemma convert_labels:
  "labels_ok ls \<Longrightarrow> ls \<noteq> [] \<Longrightarrow> convert_loop (join ls) res [] = Some (res @ heads (map (map lower) ls))"
proof (induction ls arbitrary: res)
  case (Cons l ls)
  have l: "46 \<notin> set l" "l \<noteq> []" "length l \<le> 63" using Cons.prems by auto
  show ?case
  proof (cases "ls = []")
    case True
    have "convert_loop (join [l]) res [] = convert_loop [] res (map lower l)"
      using convert_label [OF l(1), of "[]"] by (simp add: join_simps)
    also have "\<dots> = Some (res @ of_nat (length l) # map lower l)"
      using l by (subst convert_loop.simps) (simp add: NS_MAXLABEL_def)
    finally show ?thesis using True by simp
  next
    case False
    note j = join_start [OF _ False]
    have "convert_loop (join (l # ls)) res [] = convert_loop (46 # join ls) res (map lower l)"
      using convert_label [OF l(1)] False by (simp add: join_simps)
    also have "\<dots> = convert_loop (join ls) (res @ of_nat (length l) # map lower l) []"
      using l j Cons.prems by (subst convert_loop.simps) (simp add: NS_MAXLABEL_def)
    also have "\<dots> = Some (res @ heads (map (map lower) (l # ls)))"
      using Cons False by simp
    finally show ?thesis .
  qed
qed simp

lemma convert_dname_wire:
  assumes "labels_ok ls" "ls \<noteq> []" "length (dotted ls) < 255"
  shows "convert_dname (join ls) = Some (wire (map (map lower) ls))"
proof -
  have "length (heads (map (map lower) ls)) = length (dotted ls)" by (induction ls) simp_all
  then show ?thesis using assms convert_labels [of ls "[]"] by (simp add: convert_dname_def NS_MAXCDNAME_def wire_def)
qed

lemma lower_labels: "labels_ok ls \<Longrightarrow> labels_ok (map (map lower) ls)"
proof -
  have "lower c \<noteq> 46" if "c \<noteq> 46" for c
  proof
    assume low: "lower c = 46"
    then have "c + 32 = 46" "65 \<le> c" using that by (auto simp: lower_def split: if_splits)
    then have "c = 46 - 32" by (simp only: eq_diff_eq)
    with \<open>65 \<le> c\<close> show False by simp
  qed
  then have "46 \<notin> lower ` set l" if "46 \<notin> set l" for l using that by (metis imageE)
  then show "labels_ok ls \<Longrightarrow> labels_ok (map (map lower) ls)" by (induction ls) auto
qed

section \<open>Reading a name\<close>

text \<open>The labels at an offset, the number of jumps, and where the bytes of the name end.\<close>

inductive name_at :: "u8 list \<Rightarrow> nat \<Rightarrow> u8 list list \<Rightarrow> nat \<Rightarrow> nat \<Rightarrow> bool" for cstr where
  root: "off < length cstr \<Longrightarrow> cstr ! off = 0 \<Longrightarrow> name_at cstr off [] 0 (off + 1)"
| label: "off + unat (cstr ! off) + 1 \<le> length cstr \<Longrightarrow> cstr ! off \<noteq> 0 \<Longrightarrow> \<not> is_pointer (cstr ! off) \<Longrightarrow>
    name_at cstr (off + unat (cstr ! off) + 1) ls j e \<Longrightarrow>
    name_at cstr off (take (unat (cstr ! off)) (drop (off + 1) cstr) # ls) j e"
| jump: "off + 2 \<le> length cstr \<Longrightarrow> is_pointer (cstr ! off) \<Longrightarrow>
    name_at cstr (pointer_offset (cstr ! off) (cstr ! (off + 1))) ls j e \<Longrightarrow> name_at cstr off ls (Suc j) (off + 2)"

lemma name_at_bound: "name_at cstr off ls j e \<Longrightarrow> off < length cstr"
  by (induction rule: name_at.induct) auto

lemma name_at_append: "name_at cstr off ls j e \<Longrightarrow> name_at (cstr @ x) off ls j e"
proof (induction rule: name_at.induct)
  case (root off)
  then show ?case using name_at.root [of off "cstr @ x"] by (simp add: nth_append)
next
  case (label off ls j e)
  then show ?case using name_at.label [of off "cstr @ x" ls j e] by (simp add: nth_append)
next
  case (jump off ls j e)
  then show ?case using name_at.jump [of off "cstr @ x" ls j e] by (simp add: nth_append)
qed

lemma name_at_heads:
  "labels_ok ls \<Longrightarrow> name_at (pre @ heads ls @ post) (length pre + length (heads ls)) ms j e \<Longrightarrow>
   name_at (pre @ heads ls @ post) (length pre) (ls @ ms) j e"
proof (induction ls arbitrary: pre)
  case (Cons l ls)
  let ?c = "pre @ heads (l # ls) @ post" and ?b = "of_nat (length l) :: u8"
  have l: "l \<noteq> []" "length l \<le> 63" using Cons.prems(1) by auto
  have b: "?c ! length pre = ?b" "unat ?b = length l" using label_byte [OF l(2)] by (simp_all add: nth_append)
  have "name_at ((pre @ ?b # l) @ heads ls @ post) (length (pre @ ?b # l)) (ls @ ms) j e"
    using Cons.prems by (intro Cons.IH) (simp_all add: add.assoc)
  then have "name_at ?c (length pre + unat ?b + 1) (ls @ ms) j e" using b(2) by (simp add: add.assoc)
  moreover have "?b \<noteq> 0" using b(2) l(1) by auto
  moreover have "\<not> is_pointer ?b" using short_no_pointer b(2) l(2) by simp
  moreover have "take (unat ?b) (drop (length pre + 1) ?c) = l" using b(2) by simp
  ultimately show ?case using name_at.label [of "length pre" ?c "ls @ ms" j e] b by simp
qed simp

lemma name_at_wire:
  assumes "labels_ok ls"
  shows "name_at (pre @ wire ls @ post) (length pre) ls 0 (length pre + length (wire ls))"
proof -
  have "name_at (pre @ heads ls @ 0 # post) (length pre + length (heads ls)) [] 0 (length pre + length (heads ls) + 1)"
    by (rule name_at.root) (simp_all add: nth_append)
  from name_at_heads [OF assms this] show ?thesis by (simp add: wire_def)
qed

section \<open>The decoder\<close>

text \<open>A buffer that has been filled up to some point: \<open>J\<close> is what it held, if there is one.\<close>

definition hold :: "u8 list option \<Rightarrow> u8 list \<Rightarrow> u8 list option" where
  "hold J out = map_option (\<lambda>jnk. out @ drop (length out) jnk) J"

definition fits :: "u8 list option \<Rightarrow> nat \<Rightarrow> bool" where
  "fits J n \<longleftrightarrow> (case J of None \<Rightarrow> True | Some jnk \<Rightarrow> n \<le> length jnk)"

lemma fits_less: "fits J n \<Longrightarrow> m \<le> n \<Longrightarrow> fits J m"
  by (auto simp: fits_def split: option.splits)

lemma hold_bytes: "fits J (length out + length bs) \<Longrightarrow> store_bytes (hold J out) (length out) bs = Inr (hold J (out @ bs))"
  by (auto simp: fits_def hold_def store_bytes_def ac_simps split: option.splits)

lemma hold_byte: "fits J (Suc (length out)) \<Longrightarrow> store_byte (hold J out) (length out) b = Inr (hold J (out @ [b]))"
proof (cases J)
  case (Some jnk)
  assume "fits J (Suc (length out))"
  then have "length out < length jnk" using Some by (simp add: fits_def)
  then have "drop (length out) jnk = jnk ! length out # drop (Suc (length out)) jnk" by (simp add: Cons_nth_drop_Suc)
  then show ?thesis using Some \<open>length out < length jnk\<close> by (simp add: hold_def store_byte_def)
qed (simp add: hold_def store_byte_def)

lemma hold_last:
  assumes "fits J (length out)" "out \<noteq> []"
  shows "store_byte (hold J out) (before_len (length out)) b = Inr (hold J (butlast out @ [b]))"
proof -
  have n: "before_len (length out) = length (butlast out)" "length (butlast out @ [b]) = length out"
    using assms(2) by (simp_all add: before_len_def)
  have o: "out = butlast out @ [last out]" using assms(2) by simp
  have "((butlast out @ [last out]) @ ys)[length (butlast out) := b] = butlast out @ [b] @ ys" for ys
    by (simp add: list_update_append)
  then have "(out @ ys)[length (butlast out) := b] = butlast out @ [b] @ ys" for ys using o by simp
  moreover have "length (butlast out) < k" if "length out \<le> k" for k using that assms(2) by (cases out) simp_all
  ultimately show ?thesis using assms n by (cases J) (simp_all add: hold_def store_byte_def fits_def)
qed

text \<open>Behind a name stands a space in the place of its last dot.\<close>

definition spaced :: "u8 list \<Rightarrow> u8 list list \<Rightarrow> u8 list" where
  "spaced out ls = butlast (out @ dotted ls) @ [32]"

lemma length_spaced: "out \<noteq> [] \<or> ls \<noteq> [] \<Longrightarrow> length (spaced out ls) = length out + length (dotted ls)"
  by (cases "dotted ls") (auto simp: spaced_def)

abbreviation at :: "nat \<Rightarrow> nat \<Rightarrow> nat \<Rightarrow> u8 list option \<Rightarrow> u8 list \<Rightarrow> decoder" where
  "at off r d J out \<equiv> \<lparr>crtpos = off, retpos = r, depth = d, len = length out, dst = hold J out\<rparr>"

lemma loop_step: "off < length cstr \<Longrightarrow> dec_step cstr (at off r d J out) = Inr s \<Longrightarrow>
    dec_loop cstr (at off r d J out) = dec_loop cstr s"
  by (subst dec_loop.simps) simp

lemma pointer_not_zero: "is_pointer c \<Longrightarrow> c \<noteq> 0"
  by (auto simp: is_pointer_def NS_CMPRSFLGS_def)

lemma dec_name:
  assumes "name_at cstr off ls j e" "d + j \<le> 6" "r = 0 \<longrightarrow> d = 0" "length out + length (dotted ls) \<le> 6150"
    and "fits J (length out + length (dotted ls))" "out \<noteq> [] \<or> ls \<noteq> []"
  shows "dec_loop cstr (at off r d J out) = dec_loop cstr (at (if r = 0 then e else r) 0 0 J (spaced out ls))"
  using assms
proof (induction arbitrary: r d out rule: name_at.induct)
  case (root off)
  have out: "out \<noteq> []" using root.prems by simp
  have s: "length (spaced out []) = length out" using length_spaced [of out "[]"] out by simp
  have "\<not> is_pointer 0" by code_simp
  then have "dec_step cstr (at off r d J out) = Inr (at (if r = 0 then off + 1 else r) 0 0 J (spaced out []))"
    using root out s hold_last [of J out 32]
    by (auto simp: dec_step_def byte_at_def Let_def spaced_def NS_MAXDNSRCH_def NS_MAXDNAME_def)
  then show ?case using root(1) by (simp add: loop_step)
next
  case (label off ls j e)
  let ?c = "cstr ! off" let ?l = "take (unat ?c) (drop (off + 1) cstr)"
  have l: "length ?l = unat ?c" using label(1) by simp
  have len: "length out + (unat ?c + 1) + length (dotted ls) \<le> 6150" "fits J (length (out @ ?l @ [46]) + length (dotted ls))"
    using label.prems(3,4) l by (simp_all add: ac_simps)
  have w: "store_bytes (hold J out) (length out) ?l = Inr (hold J (out @ ?l))"
    using len(2) l by (intro hold_bytes) (auto elim: fits_less)
  have w: "copy_label cstr (at off r d J out) (unat ?c) = Inr (hold J (out @ ?l))"
    using w label(1) by (cases J) (simp_all add: copy_label_def bytes_at_def hold_def)
  have "store_byte (hold J (out @ ?l)) (length (out @ ?l)) 46 = Inr (hold J ((out @ ?l) @ [46]))"
    using len(2) by (intro hold_byte) (auto elim: fits_less)
  then have w': "store_byte (hold J (out @ ?l)) (length out + unat ?c) 46 = Inr (hold J (out @ ?l @ [46]))"
    using l by simp
  have "dec_step cstr (at off r d J out) = Inr (at (off + unat ?c + 1) r d J (out @ ?l @ [46]))"
    using label(1,2,3) label.prems(1) w w' l len(1) by (simp add: dec_step_def byte_at_def Let_def NS_MAXDNSRCH_def NS_MAXDNAME_def)
  moreover have "off < length cstr" using label(1) by simp
  moreover have "dec_loop cstr (at (off + unat ?c + 1) r d J (out @ ?l @ [46])) =
      dec_loop cstr (at (if r = 0 then e else r) 0 0 J (spaced (out @ ?l @ [46]) ls))"
    using label.prems len l by (intro label.IH) auto
  ultimately show ?case by (simp add: loop_step spaced_def)
next
  case (jump off ls j e)
  let ?c = "cstr ! off" let ?t = "pointer_offset ?c (cstr ! (off + 1))"
  have "dec_step cstr (at off r d J out) = Inr (at ?t (if r = 0 then off + 2 else r) (d + 1) J out)"
    using jump(1,2) jump.prems(1,3) by (simp add: dec_step_def byte_at_def Let_def NS_MAXDNSRCH_def NS_MAXDNAME_def)
  moreover have "dec_loop cstr (at ?t (if r = 0 then off + 2 else r) (d + 1) J out) =
      dec_loop cstr (at (if (if r = 0 then off + 2 else r) = 0 then e else (if r = 0 then off + 2 else r)) 0 0 J (spaced out ls))"
    using jump.prems by (intro jump.IH) auto
  ultimately show ?case using jump(1) by (simp add: loop_step)
qed

text \<open>Names one behind the other up to the end of the data, each with at most \<open>m\<close> jumps.\<close>

inductive names :: "u8 list \<Rightarrow> nat \<Rightarrow> nat \<Rightarrow> u8 list list list \<Rightarrow> bool" for cstr m where
  none: "names cstr m (length cstr) []"
| one: "name_at cstr off ls j e \<Longrightarrow> ls \<noteq> [] \<Longrightarrow> j \<le> m \<Longrightarrow> names cstr m e lss \<Longrightarrow> names cstr m off (ls # lss)"

definition listed :: "u8 list list list \<Rightarrow> u8 list" where
  "listed lss = concat (map (\<lambda>ls. join ls @ [32]) lss)"

lemma listed_simps [simp]: "listed [] = []" "listed (ls # lss) = join ls @ 32 # listed lss"
  by (simp_all add: listed_def)

lemma spaced_join: "ls \<noteq> [] \<Longrightarrow> spaced out ls = out @ join ls @ [32]"
  by (simp add: spaced_def join_def butlast_append)

lemma length_join: "ls \<noteq> [] \<Longrightarrow> Suc (length (join ls)) = length (dotted ls)"
  by (cases "dotted ls") (simp_all add: join_def)

lemma dec_names:
  assumes "names cstr m off lss" "m \<le> 6" "length out + length (listed lss) \<le> 6150" "fits J (length out + length (listed lss))"
  shows "dec_loop cstr (at off 0 0 J out) = Inr (at (length cstr) 0 0 J (out @ listed lss))"
  using assms
proof (induction arbitrary: out rule: names.induct)
  case none
  then show ?case by (subst dec_loop.simps) simp
next
  case (one off ls j e lss)
  have n: "length out + length (dotted ls) + length (listed lss) \<le> 6150" "fits J (length out + length (dotted ls) + length (listed lss))"
    using one.prems(2) length_join [OF one(2)] fits_less [OF one.prems(3)] by simp_all
  have "dec_loop cstr (at off 0 0 J out) = dec_loop cstr (at e 0 0 J (spaced out ls))"
    using dec_name [OF one(1), of 0 0 out J] one(2,3) one.prems(1) n(1) fits_less [OF n(2), of "length out + length (dotted ls)"] by simp
  also have "\<dots> = Inr (at (length cstr) 0 0 J (spaced out ls @ listed lss))"
    using n one.prems(1) length_spaced [of out ls] one(2) by (intro one.IH) simp_all
  finally show ?case using one(2) by (simp add: spaced_join)
qed

theorem dname_dec_names:
  assumes "names cstr m 0 lss" "m \<le> 6" "lss \<noteq> []" "length (listed lss) \<le> 6150"
  shows "dname_dec junk cstr pre = Inr (pre @ butlast (listed lss) @ [0])"
proof -
  have ne: "listed lss \<noteq> []" using assms(3) by (cases lss) simp_all
  have pass: "dec_loop cstr (start (hold J [])) = Inr (at (length cstr) 0 0 J (listed lss))" if "fits J (length (listed lss))" for J
    using dec_names [OF assms(1,2), of "[]" J] assms(4) that by (simp add: start_def)
  let ?junk = "map junk [0..<length (listed lss)]"
  have one: "dec_loop cstr (start None) = Inr (at (length cstr) 0 0 None (listed lss))"
    using pass [of None] by (simp add: fits_def hold_def)
  have two: "dec_loop cstr (start (Some ?junk)) = Inr (at (length cstr) 0 0 (Some ?junk) (listed lss))"
    using pass [of "Some ?junk"] by (simp add: fits_def hold_def)
  have "store_byte (hold (Some ?junk) (listed lss)) (before_len (length (listed lss))) 0 = Inr (hold (Some ?junk) (butlast (listed lss) @ [0]))"
    by (rule hold_last) (simp_all add: fits_def ne)
  moreover have "length (butlast (listed lss) @ [0]) = length (listed lss)" using ne by simp
  ultimately show ?thesis using one two ne by (simp add: dname_dec_def hold_def)
qed

section \<open>The encoder\<close>

lemma memcmp_take:
  "n \<le> length c \<Longrightarrow> n \<le> length d \<Longrightarrow> memcmp_eq c d n = Inr (take n c = take n d)"
proof (induction c d n rule: memcmp_eq.induct)
  case (1 c d n)
  show ?case
  proof (cases "n = 0")
    case False
    then obtain x c' y d' where "c = x # c'" "d = y # d'" using 1(2,3) by (cases c; cases d) auto
    then show ?thesis using 1 False by (subst memcmp_eq.simps) (cases n; auto)
  qed (simp add: memcmp_eq.simps)
qed

lemma memcmp_first: "0 < n \<Longrightarrow> c \<noteq> [] \<Longrightarrow> d \<noteq> [] \<Longrightarrow> hd c \<noteq> hd d \<Longrightarrow> memcmp_eq c d n = Inr False"
  by (subst memcmp_eq.simps) simp

text \<open>The tail of the name being encoded is found where its labels are.\<close>

definition matches :: "u8 list \<Rightarrow> nat \<Rightarrow> u8 list list \<Rightarrow> u8 list list \<Rightarrow> bool" where
  "matches cstr c ds ls \<longleftrightarrow> (\<exists>b. match_name cstr c (wire ds) = Inr b \<and> (b \<longrightarrow> ls = ds))"

lemma wire_hd: "labels_ok ds \<Longrightarrow> unat (hd (wire ds)) \<le> 63 \<and> wire ds \<noteq> []"
  by (cases ds) (simp_all add: label_byte)

lemma drop_hd: "off < length cstr \<Longrightarrow> drop off cstr \<noteq> [] \<and> hd (drop off cstr) = cstr ! off"
  by (simp add: hd_drop_conv_nth)

lemma matches_name:
  "name_at cstr off ls j e \<Longrightarrow> labels_ok ds \<Longrightarrow> matches cstr off ds ls \<and>
   (is_pointer (cstr ! off) \<longrightarrow> off + 2 \<le> length cstr \<and> matches cstr (pointer_offset (cstr ! off) (cstr ! (off + 1))) ds ls)"
proof (induction arbitrary: ds rule: name_at.induct)
  case (root off)
  have np: "\<not> is_pointer 0" by code_simp
  have "memcmp_eq (drop off cstr) (wire ds) 1 = Inr (ds = [])"
  proof (cases ds)
    case Nil
    then show ?thesis using root memcmp_take [of 1 "drop off cstr" "wire ds"] by (simp add: take_Suc drop_hd)
  next
    case (Cons d ds')
    have "unat (of_nat (length d) :: u8) = length d" "d \<noteq> []" using root.prems Cons label_byte by auto
    then have "(of_nat (length d) :: u8) \<noteq> 0" by auto
    then show ?thesis using Cons root drop_hd [of off cstr] by (auto intro!: memcmp_first)
  qed
  then have "match_name cstr off (wire ds) = Inr (ds = [])"
    using root by (subst match_name.simps) (simp add: byte_at_def)
  then show ?case using root np by (simp add: matches_def)
next
  case (label off ls j e)
  let ?c = "cstr ! off" let ?n = "unat ?c"
  let ?l = "take ?n (drop (off + 1) cstr)"
  have off: "off < length cstr" using label(1) by simp
  have split: "drop off cstr = ?c # ?l @ drop (off + ?n + 1) cstr"
    using off append_take_drop_id [of ?n "drop (off + 1) cstr"] by (simp add: Cons_nth_drop_Suc [symmetric] ac_simps)
  have len: "length ?l = ?n" using label(1) by simp
  have pos: "0 < ?n" using label(2) by (simp add: unat_gt_0)
  have "matches cstr off ds (?l # ls)"
  proof (cases ds)
    case Nil
    then have "memcmp_eq (drop off cstr) (wire ds) (?n + 1) = Inr False"
      using label(2) drop_hd [OF off] by (intro memcmp_first) auto
    then show ?thesis unfolding matches_def by (subst match_name.simps) (auto simp: byte_at_def off)
  next
    case (Cons d ds')
    have d: "unat (of_nat (length d) :: u8) = length d" using label.prems Cons label_byte by auto
    show ?thesis
    proof (cases "length d = ?n \<and> d = ?l")
      case False
      have "memcmp_eq (drop off cstr) (wire ds) (?n + 1) = Inr False"
      proof (cases "length d = ?n")
        case True
        then have "memcmp_eq (drop off cstr) (wire ds) (?n + 1) = Inr (take (?n + 1) (drop off cstr) = take (?n + 1) (wire ds))"
          using label(1) Cons by (intro memcmp_take) simp_all
        moreover have "take (?n + 1) (drop off cstr) = ?c # ?l" using len by (subst split) simp
        moreover have "take (?n + 1) (wire ds) = of_nat (length d) # d" using True Cons by simp
        ultimately show ?thesis using False True by simp
      next
        case neq: False
        then have "?c \<noteq> of_nat (length d)" using d by auto
        then show ?thesis using Cons off drop_hd [OF off] by (intro memcmp_first) auto
      qed
      then show ?thesis unfolding matches_def by (subst match_name.simps) (auto simp: byte_at_def off)
    next
      case True
      then have dn: "length d = ?n" by blast
      have "memcmp_eq (drop off cstr) (wire ds) (?n + 1) = Inr (take (?n + 1) (drop off cstr) = take (?n + 1) (wire ds))"
        using label(1) Cons dn by (intro memcmp_take) simp_all
      moreover have "take (?n + 1) (drop off cstr) = ?c # ?l" using len by (subst split) simp
      moreover have "take (?n + 1) (wire ds) = of_nat (length d) # d" using dn Cons by simp
      moreover have "of_nat (length d) = ?c" using dn by simp
      ultimately have same: "memcmp_eq (drop off cstr) (wire ds) (?n + 1) = Inr True" using True by simp
      have rest: "drop (?n + 1) (wire ds) = wire ds'" using dn Cons by simp
      have next_off: "off + ?n + 1 < length cstr" using name_at_bound [OF label(4)] .
      have ih: "matches cstr (off + ?n + 1) ds' ls"
        "is_pointer (cstr ! (off + ?n + 1)) \<Longrightarrow> off + ?n + 1 + 2 \<le> length cstr \<and>
          matches cstr (pointer_offset (cstr ! (off + ?n + 1)) (cstr ! (off + ?n + 2))) ds' ls"
        using label.IH [of ds'] label.prems Cons by simp_all
      show ?thesis
      proof (cases "is_pointer (cstr ! (off + ?n + 1))")
        case p: True
        have "match_name cstr off (wire ds) = match_name cstr (pointer_offset (cstr ! (off + ?n + 1)) (cstr ! (off + ?n + 2))) (wire ds')"
          using same rest next_off off p ih(2) [OF p] pos by (subst match_name.simps) (simp add: byte_at_def add.assoc)
        then show ?thesis using ih(2) [OF p] True Cons by (simp add: matches_def)
      next
        case p: False
        have "match_name cstr off (wire ds) = match_name cstr (off + ?n + 1) (wire ds')"
          using same rest next_off off p pos by (subst match_name.simps) (simp add: byte_at_def add.assoc)
        then show ?thesis using ih(1) True Cons by (simp add: matches_def)
      qed
    qed
  qed
  then show ?case using label(3) by simp
next
  case (jump off ls j e)
  have off: "off < length cstr" using jump(1) by simp
  have "hd (drop off cstr) \<noteq> hd (wire ds)" using drop_hd [OF off] wire_hd [OF jump.prems] jump(2) short_no_pointer by metis
  then have "memcmp_eq (drop off cstr) (wire ds) (unat (cstr ! off) + 1) = Inr False"
    using drop_hd [OF off] wire_hd [OF jump.prems] by (intro memcmp_first) auto
  then have "matches cstr off ds ls" unfolding matches_def by (subst match_name.simps) (auto simp: byte_at_def off)
  then show ?case using jump by simp
qed

text \<open>The search meets no surprise in a list of names, and what it finds is the tail.\<close>

definition finds :: "u8 list \<Rightarrow> nat \<Rightarrow> u8 list list \<Rightarrow> nat \<Rightarrow> bool" where
  "finds cstr m ds off \<longleftrightarrow> (\<exists>r. find_from cstr (wire ds) off = Inr r \<and>
     (\<forall>t. r = Some t \<longrightarrow> t < length cstr \<and> (\<exists>j e. name_at cstr t ds j e \<and> j \<le> m)))"

lemma finds_name:
  "name_at cstr off ls j e \<Longrightarrow> labels_ok ds \<Longrightarrow> j \<le> m \<Longrightarrow> finds cstr m ds e \<Longrightarrow> finds cstr m ds off"
proof (induction rule: name_at.induct)
  case (root off)
  have "\<not> is_pointer 0" by code_simp
  then have "find_from cstr (wire ds) off = find_from cstr (wire ds) (off + 1)"
    using root by (subst find_from.simps) simp
  then show ?case using root by (simp add: finds_def)
next
  case (label off ls j e)
  let ?c = "cstr ! off"
  have off: "off < length cstr" using label(1) by simp
  note name = name_at.label [OF label(1-4)]
  obtain b where b: "match_name cstr off (wire ds) = Inr b" "b \<longrightarrow> take (unat ?c) (drop (off + 1) cstr) # ls = ds"
    using matches_name [OF name label.prems(1)] by (auto simp: matches_def)
  have "find_from cstr (wire ds) off = (if b then Inr (Some off) else find_from cstr (wire ds) (off + unat ?c + 1))"
    using off label(2,3) b(1) by (subst find_from.simps) simp
  moreover have "finds cstr m ds (off + unat ?c + 1)" using label.IH label.prems by blast
  ultimately show ?case using b(2) name off label.prems(2) by (cases b) (auto simp: finds_def)
next
  case (jump off ls j e)
  have "find_from cstr (wire ds) off = find_from cstr (wire ds) (off + 2)"
    using jump(1,2) by (subst find_from.simps) simp
  then show ?case using jump.prems by (simp add: finds_def)
qed

lemma finds_names: "names cstr m off lss \<Longrightarrow> labels_ok ds \<Longrightarrow> finds cstr m ds off"
proof (induction rule: names.induct)
  case none
  then show ?case by (simp add: finds_def find_from.simps)
next
  case (one off ls j e lss)
  then show ?case using finds_name by blast
qed

text \<open>What is appended: some labels, and then either the end or a pointer to the other ones.\<close>

lemma pointer_bytes:
  assumes "t < 2 ^ 14"
  shows "is_pointer (NS_CMPRSFLGS OR of_nat (t div 256))"
    "pointer_offset (NS_CMPRSFLGS OR of_nat (t div 256)) (of_nat t) = t"
proof -
  have "list_all (\<lambda>q. is_pointer (NS_CMPRSFLGS OR of_nat q) \<and> (NS_CMPRSFLGS OR of_nat q) AND 0x3F = (of_nat q :: u8)) [0..<64]"
    by code_simp
  moreover have "t div 256 < 64" using assms by simp
  ultimately have q: "is_pointer (NS_CMPRSFLGS OR of_nat (t div 256))" "(NS_CMPRSFLGS OR of_nat (t div 256)) AND 0x3F = (of_nat (t div 256) :: u8)"
    by (simp_all add: list_all_iff)
  show "is_pointer (NS_CMPRSFLGS OR of_nat (t div 256))" by (rule q)
  have hi: "unat (push_bit 8 (ucast (of_nat (t div 256) :: u8)) :: u32) = push_bit 8 (drop_bit 8 t)"
  proof -
    have "unat (of_nat (t div 256) :: u8) = t div 256" using assms by (simp add: unat_of_nat)
    then have "ucast (of_nat (t div 256) :: u8) = (of_nat (t div 256) :: u32)" 
      using assms by (simp add: word_unat_eq_iff unsigned_ucast_eq unat_of_nat take_bit_nat_eq_self)
    then have "push_bit 8 (ucast (of_nat (t div 256) :: u8)) = (of_nat (t div 256 * 256) :: u32)" by (simp add: push_bit_eq_mult)
    then show ?thesis using assms by (simp only: unat_of_nat) (simp add: drop_bit_eq_div push_bit_eq_mult)
  qed
  have lo: "unat (ucast (of_nat t :: u8) :: u32) = take_bit 8 t"
    by (simp add: unsigned_ucast_eq unsigned_of_nat)
  have "push_bit 8 (drop_bit 8 t) OR take_bit 8 t = t"
    by (rule bit_eqI) (auto simp: bit_simps)
  then show "pointer_offset (NS_CMPRSFLGS OR of_nat (t div 256)) (of_nat t) = t"
    by (simp add: pointer_offset_def q(2) unsigned_or_eq hi lo)
qed

lemma name_at_pointer:
  assumes "labels_ok ls" "name_at cstr t ds j e" "t < 2 ^ 14"
  defines "enc \<equiv> heads ls @ [NS_CMPRSFLGS OR of_nat (t div 256), of_nat t]"
  shows "name_at (cstr @ enc) (length cstr) (ls @ ds) (Suc j) (length cstr + length enc)"
proof -
  note p = pointer_bytes [OF assms(3)]
  have "name_at (cstr @ enc) (length cstr + length (heads ls)) ds (Suc j) (length cstr + length (heads ls) + 2)"
    using name_at_append [OF assms(2), of enc] p
    by (intro name_at.jump) (simp_all add: enc_def nth_append)
  then show ?thesis unfolding enc_def using name_at_heads [OF assms(1), of cstr _ ds "Suc j"] by (simp add: add.assoc)
qed

lemma compress_names:
  assumes "names cstr m 0 lss" "length cstr \<le> 2 ^ 14" "labels_ok (ls @ ds)"
  shows "\<exists>enc j. compress (Some cstr) (heads ls) (wire ds) = Inr enc \<and> length enc \<le> length (heads (ls @ ds)) + 1 \<and> j \<le> Suc m \<and>
    name_at (cstr @ enc) (length cstr) (ls @ ds) j (length cstr + length enc)"
  using assms(3)
proof (induction ds arbitrary: ls)
  case Nil
  have "compress (Some cstr) (heads ls) (wire []) = Inr (wire ls)" by (subst compress.simps) (simp add: wire_def)
  moreover have "labels_ok ls" using Nil by (simp add: labels_ok_def)
  ultimately show ?case using name_at_wire [of ls cstr "[]"] by (auto simp: wire_def)
next
  case (Cons d ds)
  have ok: "labels_ok (d # ds)" "labels_ok ls" using Cons.prems by (auto simp: labels_ok_def)
  obtain r where r: "find_offset cstr (wire (d # ds)) = Inr r" and
    found: "\<And>t. r = Some t \<Longrightarrow> t < length cstr \<and> (\<exists>j e. name_at cstr t (d # ds) j e \<and> j \<le> m)"
    using finds_names [OF assms(1) ok(1)] by (auto simp: finds_def find_offset_def)
  have d: "d \<noteq> []" "unat (of_nat (length d) :: u8) = length d" using ok(1) label_byte by auto
  then have nz: "(of_nat (length d) :: u8) \<noteq> 0" by auto
  show ?case
  proof (cases r)
    case None
    have "compress (Some cstr) (heads ls) (wire (d # ds)) = compress (Some cstr) (heads (ls @ [d])) (wire ds)"
      using r None d nz by (subst compress.simps) simp
    then show ?thesis using Cons.IH [of "ls @ [d]"] Cons.prems by simp
  next
    case (Some t)
    obtain j e where t: "t < length cstr" "name_at cstr t (d # ds) j e" "j \<le> m" using found [OF Some] by blast
    have "compress (Some cstr) (heads ls) (wire (d # ds)) = Inr (heads ls @ [NS_CMPRSFLGS OR of_nat (t div 256), of_nat t])"
      using r Some nz by (subst compress.simps) simp
    moreover have "t < 2 ^ 14" using t(1) assms(2) by simp
    moreover have "2 \<le> length (heads (d # ds)) + 1" using d(1) by (cases d) simp_all
    ultimately show ?thesis using name_at_pointer [OF ok(2) t(2)] t(3) by fastforce
  qed
qed

lemma names_append:
  "names cstr m off lss \<Longrightarrow> m \<le> m' \<Longrightarrow> names (cstr @ x) m' (length cstr) lss' \<Longrightarrow> names (cstr @ x) m' off (lss @ lss')"
proof (induction rule: names.induct)
  case (one off ls j e lss)
  then show ?case using name_at_append [OF one(1)] names.one [of "cstr @ x" off ls j e m' "lss @ lss'"] by simp
qed simp

text \<open>The names of a search list, encoded one after the other, as \<open>attach_option\<close> does.\<close>

fun encode_names :: "u8 list \<Rightarrow> u8 list list \<Rightarrow> u8 list dname" where
  "encode_names cstr [] = Inr cstr"
| "encode_names cstr (src # srcs) =
     bindd (dname_enc (if cstr = [] then None else Some cstr) src) (\<lambda>enc. encode_names (cstr @ enc) srcs)"

definition domain_ok :: "u8 list list \<Rightarrow> bool" where
  "domain_ok ls \<longleftrightarrow> ls \<noteq> [] \<and> labels_ok ls \<and> length (dotted ls) < 255"

lemma compress_none: "compress None hdr (wire ds) = Inr (hdr @ wire ds)" if "labels_ok ds"
  using that
proof (induction ds arbitrary: hdr)
  case Nil
  then show ?case by (subst compress.simps) simp
next
  case (Cons d ds)
  have d: "d \<noteq> []" "unat (of_nat (length d) :: u8) = length d" using Cons.prems label_byte by auto
  then have nz: "(of_nat (length d) :: u8) \<noteq> 0" by auto
  have "compress None hdr (wire (d # ds)) = compress None (hdr @ of_nat (length d) # d) (wire ds)"
    using d nz by (subst compress.simps) simp
  then show ?case using Cons by simp
qed

lemma dname_enc_names:
  assumes "names cstr m 0 lss" "length cstr \<le> 2 ^ 14" "domain_ok ls" "cstr \<noteq> []"
  shows "\<exists>enc. dname_enc (Some cstr) (join ls) = Inr enc \<and> length enc \<le> length (dotted ls) + 1 \<and>
    names (cstr @ enc) (Suc m) 0 (lss @ [map (map lower) ls])"
proof -
  let ?ls = "map (map lower) ls"
  have l: "convert_dname (join ls) = Some (wire ?ls)" "labels_ok ?ls" "?ls \<noteq> []"
    using assms(3) convert_dname_wire lower_labels by (auto simp: domain_ok_def)
  obtain enc j where e: "compress (Some cstr) [] (wire ?ls) = Inr enc" "length enc \<le> length (heads ?ls) + 1" "j \<le> Suc m"
      "name_at (cstr @ enc) (length cstr) ?ls j (length cstr + length enc)"
    using compress_names [OF assms(1,2), of "[]" ?ls] l(2) by auto
  have "length (heads ?ls) = length (dotted ls)" by (induction ls) simp_all
  then have "length enc \<le> length (dotted ls) + 1" using e(2) by simp
  moreover have "names (cstr @ enc) (Suc m) (length cstr) [?ls]"
    using names.one [OF e(4) l(3) e(3)] names.none [of "cstr @ enc" "Suc m"] by simp
  ultimately show ?thesis using names_append [OF assms(1)] e(1) l(1) by (auto simp: dname_enc_def)
qed

definition wire_bound :: "u8 list list list \<Rightarrow> nat" where
  "wire_bound dss = sum_list (map (\<lambda>ls. length (dotted ls) + 1) dss)"

lemma wire_bound_simps [simp]: "wire_bound [] = 0" "wire_bound (ls # dss) = length (dotted ls) + 1 + wire_bound dss"
  by (simp_all add: wire_bound_def)

lemma wire_bound_le: "\<forall>ls\<in>set dss. domain_ok ls \<Longrightarrow> wire_bound dss \<le> 255 * length dss"
  by (induction dss) (auto simp: domain_ok_def)

lemma encode_names_names:
  assumes "names cstr m 0 lss" "cstr \<noteq> []" "length cstr + wire_bound dss \<le> 2 ^ 14" "\<forall>ls\<in>set dss. domain_ok ls"
  shows "\<exists>out. encode_names cstr (map join dss) = Inr out \<and> length out \<le> length cstr + wire_bound dss \<and>
    names out (m + length dss) 0 (lss @ map (map (map lower)) dss)"
  using assms
proof (induction dss arbitrary: cstr m lss)
  case (Cons ls dss)
  obtain enc where e: "dname_enc (Some cstr) (join ls) = Inr enc" "length enc \<le> length (dotted ls) + 1"
      "names (cstr @ enc) (Suc m) 0 (lss @ [map (map lower) ls])"
    using dname_enc_names [OF Cons.prems(1) _ _ Cons.prems(2)] Cons.prems(3,4) by auto
  obtain out where "encode_names (cstr @ enc) (map join dss) = Inr out" "length out \<le> length (cstr @ enc) + wire_bound dss"
      "names out (Suc m + length dss) 0 ((lss @ [map (map lower) ls]) @ map (map (map lower)) dss)"
    using Cons.IH [OF e(3)] Cons.prems e(2) by auto
  then show ?case using e(1,2) Cons.prems(2) by simp
qed auto

lemma lower_join: "map lower (join ls) = join (map (map lower) ls)"
proof -
  have "lower 46 = 46" by code_simp
  then have "map lower (dotted ls) = dotted (map (map lower) ls)" by (induction ls) simp_all
  then show ?thesis by (simp add: join_def map_butlast)
qed

lemma listed_length: "\<forall>ls\<in>set lss. domain_ok ls \<Longrightarrow> length (listed (map (map (map lower)) lss)) \<le> 254 * length lss"
proof (induction lss)
  case (Cons ls lss)
  have "length (dotted (map (map lower) ls)) = length (dotted ls)" by (induction ls) simp_all
  moreover have "ls \<noteq> []" "length (dotted ls) < 255" using Cons.prems by (auto simp: domain_ok_def)
  ultimately show ?case using Cons length_join [of "map (map lower) ls"] by simp
qed simp

section \<open>Search lists\<close>

lemma first_name:
  assumes "domain_ok ls"
  shows "dname_enc None (join ls) = Inr (wire (map (map lower) ls))" "names (wire (map (map lower) ls)) 0 0 [map (map lower) ls]"
    "length (wire (map (map lower) ls)) = length (dotted ls) + 1"
proof -
  let ?ls = "map (map lower) ls"
  have l: "convert_dname (join ls) = Some (wire ?ls)" "labels_ok ?ls" "?ls \<noteq> []"
    using assms convert_dname_wire lower_labels by (auto simp: domain_ok_def)
  show "dname_enc None (join ls) = Inr (wire ?ls)" using l compress_none by (simp add: dname_enc_def)
  show "names (wire ?ls) 0 0 [?ls]"
    using names.one [OF _ l(3) order_refl names.none, of "wire ?ls" 0 0] name_at_wire [OF l(2), of "[]" "[]"] by simp
  have "length (dotted ?ls) = length (dotted ls)" by (induction ls) simp_all
  then show "length (wire ?ls) = length (dotted ls) + 1" by (simp add: wire_def length_heads)
qed

lemma search_list_names:
  assumes "\<forall>ls\<in>set dss. domain_ok ls" "dss \<noteq> []" "length dss \<le> 7"
  shows "\<exists>cstr m. encode_names [] (map join dss) = Inr cstr \<and> length cstr \<le> wire_bound dss \<and> m \<le> 6 \<and>
    names cstr m 0 (map (map (map lower)) dss)"
proof -
  obtain ls rest where dss: "dss = ls # rest" using assms(2) by (cases dss) auto
  have d: "domain_ok ls" "\<forall>ls\<in>set rest. domain_ok ls" using assms(1) dss by auto
  have "wire_bound dss \<le> 2 ^ 14" using wire_bound_le [OF assms(1)] assms(3) by simp
  then obtain cstr where "encode_names (wire (map (map lower) ls)) (map join rest) = Inr cstr"
      "length cstr \<le> length (dotted ls) + 1 + wire_bound rest" "names cstr (length rest) 0 (map (map (map lower)) dss)"
    using encode_names_names [OF first_name(2) [OF d(1)] _ _ d(2)] first_name(3) [OF d(1)] dss by (auto simp: wire_def)
  then show ?thesis using first_name(1) [OF d(1)] dss assms(3) by auto
qed

lemma decoded_list:
  assumes "names cstr m 0 (map (map (map lower)) dss)" "m \<le> 6" "dss \<noteq> []" "length dss \<le> 7" "\<forall>ls\<in>set dss. domain_ok ls"
  shows "dname_dec junk cstr pre = Inr (pre @ butlast (concat (map (\<lambda>ls. map lower (join ls) @ [32]) dss)) @ [0])"
proof -
  let ?lss = "map (map (map lower)) dss"
  have "length (listed ?lss) \<le> 6150" using listed_length [OF assms(5)] assms(4) by linarith
  then have "dname_dec junk cstr pre = Inr (pre @ butlast (listed ?lss) @ [0])"
    using dname_dec_names [OF assms(1,2)] assms(3) by simp
  moreover have "listed ?lss = concat (map (\<lambda>ls. map lower (join ls) @ [32]) dss)"
    by (simp add: listed_def lower_join comp_def)
  ultimately show ?thesis by simp
qed

text \<open>A search list of up to seven domains comes back: the names, encoded one after the other with pointers
  into what is there already, are decoded to the names in lower case, with spaces between them.\<close>

theorem search_list_round_trip:
  assumes "\<forall>ls\<in>set dss. domain_ok ls" "dss \<noteq> []" "length dss \<le> 7"
  shows "\<exists>cstr. encode_names [] (map join dss) = Inr cstr \<and>
    dname_dec junk cstr pre = Inr (pre @ butlast (concat (map (\<lambda>ls. map lower (join ls) @ [32]) dss)) @ [0])"
  using search_list_names [OF assms] decoded_list [OF _ _ assms(2,3,1)] by blast

definition demo_search :: "u8 list list list" where
  "demo_search = map (map bytes_of) [[''Example'', ''com''], [''lab'', ''example'', ''com''], [''www'', ''lab'', ''Example'', ''com'']]"

lemma search_list_round_trip_witness:
  "\<exists>cstr. encode_names [] (map join demo_search) = Inr cstr \<and> dname_dec (\<lambda>_. 7) cstr [] =
     Inr (bytes_of ''example.com lab.example.com www.lab.example.com'' @ [0])"
proof -
  have "\<forall>ls\<in>set demo_search. domain_ok ls" by code_simp
  moreover have "demo_search \<noteq> []" "length demo_search \<le> 7" by (simp_all add: demo_search_def)
  moreover have "butlast (concat (map (\<lambda>ls. map lower (join ls) @ [32]) demo_search)) = bytes_of ''example.com lab.example.com www.lab.example.com''"
    by code_simp
  ultimately show ?thesis using search_list_round_trip [of demo_search "\<lambda>_. 7" "[]"] by simp
qed

definition nested_search :: "u8 list list" where
  "nested_search = map bytes_of [''a'', ''b.a'', ''c.b.a'', ''d.c.b.a'', ''e.d.c.b.a'', ''f.e.d.c.b.a'', ''g.f.e.d.c.b.a'', ''h.g.f.e.d.c.b.a'']"

text \<open>Eight domains are too many, although the limit of six is on jumps: each one a subdomain of the one before,
  the last name takes seven jumps, and the decoder refuses the whole list as a loop.\<close>

theorem nested_search_refused:
  "bindd (encode_names [] nested_search) (\<lambda>cstr. dname_dec junk cstr pre) = Inl Aborted"
proof -
  let ?cstr = "[1, 97, 0, 1, 98, 192, 0, 1, 99, 192, 3, 1, 100, 192, 7, 1, 101, 192, 11, 1, 102, 192, 15, 1, 103, 192, 19, 1, 104, 192, 23] :: u8 list"
  have "encode_names [] nested_search = Inr ?cstr" by code_simp
  moreover have "dec_loop ?cstr (start None) = Inl Aborted"
    by (simp add: dec_loop.simps dec_step_def byte_at_def copy_label_def start_def store_byte_def is_pointer_def pointer_offset_def
      NS_CMPRSFLGS_def NS_MAXDNSRCH_def NS_MAXDNAME_def)
  ultimately show ?thesis by (simp add: dname_dec_def)
qed

section \<open>Bounds\<close>

text \<open>The first pass never stores, and the second one takes the same way.\<close>

definition measured :: "decoder \<Rightarrow> decoder" where
  "measured s = s\<lparr>dst := None\<rparr>"

lemma measured_fields [simp]: "crtpos (measured s) = crtpos s" "retpos (measured s) = retpos s" "depth (measured s) = depth s"
  "len (measured s) = len s" "dst (measured s) = None"
  by (simp_all add: measured_def)

lemma first_pass_error: "dst s = None \<Longrightarrow> dec_loop cstr s \<noteq> Inl Out_Of_Bounds"
proof (induction cstr s rule: dec_loop.induct)
  case (1 cstr s)
  have "crtpos s < length cstr \<Longrightarrow> dec_step cstr s \<noteq> Inl Out_Of_Bounds" "dec_step cstr s = Inr s' \<Longrightarrow> dst s' = None" for s'
    using 1(2) by (auto simp: dec_step_def byte_at_def copy_label_def Let_def store_byte_def bindd_def split: if_splits sum.splits)
  then show ?case using 1(1) by (subst dec_loop.simps) (auto split: sum.splits)
qed

lemma dec_step_grows: "dec_step cstr s = Inr s' \<Longrightarrow> len s \<le> len s'"
  by (auto simp: dec_step_def Let_def bindd_def split: if_splits sum.splits)

lemma dec_loop_grows: "dec_loop cstr s = Inr t \<Longrightarrow> len s \<le> len t"
proof (induction cstr s rule: dec_loop.induct)
  case (1 cstr s)
  then show ?case by (subst (asm) (2) dec_loop.simps) (force dest: dec_step_grows split: if_splits sum.splits)
qed

lemma dec_loop_limit: "dec_loop cstr s = Inr t \<Longrightarrow> len s \<le> 6150 \<Longrightarrow> len t \<le> 6150"
proof (induction cstr s rule: dec_loop.induct)
  case (1 cstr s)
  then show ?case by (subst (asm) (2) dec_loop.simps) (force dest: dec_step_limits split: if_splits sum.splits)
qed

text \<open>One step of the second pass, when there is room and something has been written before a name ends.\<close>

lemma step_in_bounds:
  assumes "crtpos s < length cstr" "dec_step cstr (measured s) = Inr t" "dst s = Some buf" "len t \<le> length buf"
    and "len s \<noteq> 0 \<or> cstr ! crtpos s \<noteq> 0 \<and> \<not> is_pointer (cstr ! crtpos s)"
  shows "\<exists>s' buf'. dec_step cstr s = Inr s' \<and> measured s' = t \<and> dst s' = Some buf' \<and> length buf' = length buf \<and> len s' \<noteq> 0"
proof -
  let ?c = "cstr ! crtpos s"
  consider "is_pointer ?c" "len s \<noteq> 0" | "\<not> is_pointer ?c" "?c \<noteq> 0" | "?c = 0" "\<not> is_pointer ?c" "len s \<noteq> 0" using assms(5) by blast
  then show ?thesis
  proof cases
    case 1
    then show ?thesis using assms by (auto simp: dec_step_def byte_at_def Let_def measured_def split: if_splits)
  next
    case 2
    have room: "crtpos s + unat ?c + 1 \<le> length cstr" "len s + unat ?c + 1 \<le> length buf"
      using 2 assms(1,2,4) by (auto simp: dec_step_def byte_at_def Let_def store_byte_def store_bytes_def bytes_at_def copy_label_def split: if_splits)
    then show ?thesis using 2 assms(1,2,3)
      by (auto simp: dec_step_def byte_at_def Let_def store_byte_def store_bytes_def bytes_at_def copy_label_def measured_def split: if_splits)
  next
    case 3
    have "len s \<le> length buf" using dec_step_grows [OF assms(2)] assms(4) by simp
    then show ?thesis using 3 assms(1,2,3)
      by (auto simp: dec_step_def byte_at_def Let_def store_byte_def before_len_def measured_def split: if_splits)
  qed
qed

lemma loop_in_bounds:
  assumes "dec_loop cstr (measured s) = Inr t" "dst s = Some buf" "length buf = len t"
    and "len s \<noteq> 0 \<or> crtpos s < length cstr \<and> cstr ! crtpos s \<noteq> 0 \<and> \<not> is_pointer (cstr ! crtpos s)"
  shows "\<exists>s' buf'. dec_loop cstr s = Inr s' \<and> dst s' = Some buf' \<and> length buf' = len t \<and> len s' = len t \<and> len t \<noteq> 0"
  using assms
proof (induction cstr s arbitrary: buf rule: dec_loop.induct)
  case (1 cstr s)
  show ?case
  proof (cases "crtpos s < length cstr")
    case True
    obtain t1 where t1: "dec_step cstr (measured s) = Inr t1" "dec_loop cstr t1 = Inr t"
      using 1(2) True by (subst (asm) dec_loop.simps) (auto split: sum.splits)
    have "len t1 \<le> length buf" using dec_loop_grows [OF t1(2)] 1(4) by simp
    then obtain s1 buf1 where s1: "dec_step cstr s = Inr s1" "measured s1 = t1" "dst s1 = Some buf1" "length buf1 = length buf" "len s1 \<noteq> 0"
      using step_in_bounds [OF True t1(1) 1(3)] 1(5) by blast
    have "dec_loop cstr s = dec_loop cstr s1" using s1(1) True by (subst dec_loop.simps) simp
    then show ?thesis using 1(1) [OF True s1(1), of buf1] t1(2) s1 1(4) by simp
  next
    case False
    then have "dec_loop cstr s = Inr s" "t = measured s" using 1(2) by (simp_all add: dec_loop.simps)
    then show ?thesis using 1(3,4,5) False by simp
  qed
qed

lemma start_measured: "measured (start d) = start None"
  by (simp add: measured_def start_def)

text \<open>C39. When the data begins with a label, the decoder neither reads outside the data nor writes outside its
  buffer, whatever follows: loops of pointers, pointers out of the data, labels that are cut off.\<close>

theorem dname_dec_in_bounds:
  assumes "cstr \<noteq> []" "hd cstr \<noteq> 0" "\<not> is_pointer (hd cstr)"
  shows "dname_dec junk cstr pre \<noteq> Inl Out_Of_Bounds"
proof (cases "dec_loop cstr (start None)")
  case (Inl e)
  then show ?thesis using first_pass_error [of "start None" cstr] by (simp add: dname_dec_def start_def)
next
  case (Inr t)
  let ?s = "start (Some (map junk [0..<len t]))"
  have "dec_loop cstr (measured ?s) = Inr t" using Inr by (simp add: start_measured)
  then obtain s' buf' where "dec_loop cstr ?s = Inr s'" "dst s' = Some buf'" "length buf' = len t" "len s' = len t" "len t \<noteq> 0"
    using loop_in_bounds [of cstr ?s t "map junk [0..<len t]"] assms by (auto simp: start_def hd_conv_nth)
  then show ?thesis using Inr by (simp add: dname_dec_def store_byte_def before_len_def)
qed

lemma dname_dec_in_bounds_witness: "dname_dec (\<lambda>_. 0) [1, 97, 0xC0, 0, 5] [] \<noteq> Inl Out_Of_Bounds"
  by (rule dname_dec_in_bounds) (simp_all add: is_pointer_def NS_CMPRSFLGS_def)

text \<open>C40. When it begins with the empty name, the space behind that name is written outside the buffer: at the index
  \<open>len - 1\<close> of an unsigned length of zero, which is \<open>2 ^ 32 - 1\<close> where pointers have 64 bits.\<close>

theorem leading_root_out_of_bounds:
  assumes "dec_loop (0 # cstr) (start None) = Inr s" "len s \<noteq> 0"
  shows "dname_dec junk (0 # cstr) pre = Inl Out_Of_Bounds"
proof -
  have np: "\<not> is_pointer 0" by code_simp
  have "len s \<le> 6150" using dec_loop_limit [OF assms(1)] by (simp add: start_def)
  then have "dec_step (0 # cstr) (start (Some (map junk [0..<len s]))) = Inl Out_Of_Bounds"
    using np by (simp add: dec_step_def byte_at_def start_def store_byte_def before_len_def)
  then have "dec_loop (0 # cstr) (start (Some (map junk [0..<len s]))) = Inl Out_Of_Bounds"
    by (subst dec_loop.simps) (simp add: start_def)
  then show ?thesis using assms by (simp add: dname_dec_def)
qed

lemma leading_root_out_of_bounds_witness: "dname_dec (\<lambda>_. 0) (0 # [1, 97, 0]) [] = Inl Out_Of_Bounds"
proof (rule leading_root_out_of_bounds)
  show "dec_loop (0 # [1, 97, 0]) (start None) = Inr \<lparr>crtpos = 4, retpos = 0, depth = 0, len = 2, dst = None\<rparr>"
    by (simp add: dec_loop.simps dec_step_def byte_at_def copy_label_def start_def store_byte_def is_pointer_def
      NS_CMPRSFLGS_def NS_MAXDNSRCH_def NS_MAXDNAME_def)
qed simp

end
