(* ===== verification/Dhcp_Correct.thy ===== *)
theory Dhcp_Correct
  imports Dhcp_Options Domain_Correct
begin

text \<open>
  The options of a packet as a table: what \<open>udhcp_get_option\<close> finds in an area of options, in the fields the
  overload option adds, and after \<open>udhcp_add_binary_option\<close>; that it stays inside the packet; and the list of
  options as a sorted table, with the search list that is collected in it.
\<close>

section \<open>Areas of options\<close>

definition option_bytes :: "u8 \<times> u8 list \<Rightarrow> u8 list" where
  "option_bytes t = (case t of (c, d) \<Rightarrow> c # of_nat (length d) # d)"

definition area :: "(u8 \<times> u8 list) list \<Rightarrow> u8 list" where
  "area ts = concat (map option_bytes ts)"

definition options_ok :: "(u8 \<times> u8 list) list \<Rightarrow> bool" where
  "options_ok ts \<longleftrightarrow> (\<forall>(c, d)\<in>set ts. c \<noteq> DHCP_PADDING \<and> c \<noteq> DHCP_END \<and> length d \<le> 255 \<and> (c = DHCP_OPTION_OVERLOAD \<longrightarrow> d \<noteq> []))"

lemma area_simps [simp]: "area [] = []" "area ((c, d) # ts) = c # of_nat (length d) # d @ area ts"
    "area (ts @ us) = area ts @ area us"
  by (simp_all add: area_def option_bytes_def)

lemma options_ok_simps [simp]: "options_ok []" "options_ok ((c, d) # ts) \<longleftrightarrow>
    c \<noteq> DHCP_PADDING \<and> c \<noteq> DHCP_END \<and> length d \<le> 255 \<and> (c = DHCP_OPTION_OVERLOAD \<longrightarrow> d \<noteq> []) \<and> options_ok ts"
    "options_ok (ts @ us) \<longleftrightarrow> options_ok ts \<and> options_ok us"
  by (auto simp: options_ok_def)

lemma length_byte: "length d \<le> 255 \<Longrightarrow> unat (of_nat (length d) :: u8) = length d"
  by (simp add: unat_of_nat)

text \<open>The overload flags after the options that have been passed.\<close>

fun overload_of :: "u32 \<Rightarrow> (u8 \<times> u8 list) list \<Rightarrow> u32" where
  "overload_of ov [] = ov"
| "overload_of ov ((c, d) # ts) = overload_of (if c = DHCP_OPTION_OVERLOAD then ov OR ucast (hd d) else ov) ts"

text \<open>The bytes that a result points to.\<close>

definition option_at :: "dhcp_packet \<Rightarrow> packet_field \<times> nat \<Rightarrow> u8 list" where
  "option_at p r = (case r of (f, i) \<Rightarrow> take (unat (bytes_in p f ! (i - 1))) (drop i (bytes_in p f)))"

definition option_value :: "dhcp_packet \<Rightarrow> u8 \<Rightarrow> u8 list option dname" where
  "option_value p code = bindd (udhcp_get_option p code) (\<lambda>r. Inr (map_option (option_at p) r))"

definition values_from :: "dhcp_packet \<Rightarrow> u8 \<Rightarrow> packet_field \<Rightarrow> nat \<Rightarrow> u32 \<Rightarrow> u8 list option dname" where
  "values_from p code f i ov = bindd (get_loop p code f i (int (length (bytes_in p f)) - int i) ov) (\<lambda>r. Inr (map_option (option_at p) r))"

lemma values_area:
  assumes "bytes_in p f = front @ area ts @ DHCP_END # junk" "options_ok ts"
  shows "values_from p code f (length front) ov = (case map_of ts code of
      Some d \<Rightarrow> Inr (Some d) | None \<Rightarrow> values_from p code f (length front + length (area ts)) (overload_of ov ts))"
  using assms
proof (induction ts arbitrary: front ov)
  case (Cons t ts)
  obtain c d where t: "t = (c, d)" by (cases t)
  let ?b = "bytes_in p f" and ?i = "length front"
  have ok: "c \<noteq> DHCP_PADDING" "c \<noteq> DHCP_END" "length d \<le> 255" "c = DHCP_OPTION_OVERLOAD \<Longrightarrow> d \<noteq> []" "options_ok ts"
    using Cons.prems(2) t by auto
  have b: "?b = front @ (c # of_nat (length d) # d @ area ts @ DHCP_END # junk)" using Cons.prems(1) t by simp
  have at: "?b ! ?i = c" "?b ! (?i + 1) = of_nat (length d)" "take (length d) (drop (?i + 2) ?b) = d" "?i + 2 + length d < length ?b"
    unfolding b by (simp_all add: nth_append)
  have first: "?b ! (?i + 2) = hd d" if "d \<noteq> []" using that unfolding b by (cases d) (simp_all add: nth_append)
  have len: "unat (?b ! (?i + 1)) = length d" using at(2) length_byte [OF ok(3)] by simp
  note opts = OPT_LEN_def OPT_DATA_def
  show ?case
  proof (cases "c = code")
    case True
    have "get_loop p code f ?i (int (length ?b) - int ?i) ov = Inr (Some (f, ?i + 2))"
      using at len ok(1,2) True by (subst get_loop.simps) (simp add: Let_def opts)
    moreover have "option_at p (f, ?i + 2) = d" using at(3) len by (simp add: option_at_def)
    ultimately show ?thesis using True t by (simp add: values_from_def)
  next
    case False
    let ?ov = "if c = DHCP_OPTION_OVERLOAD then ov OR ucast (hd d) else ov"
    have "get_loop p code f ?i (int (length ?b) - int ?i) ov =
        get_loop p code f (?i + 2 + length d) (int (length ?b) - int (?i + 2 + length d)) ?ov"
      using at len ok(1,2,4) False first by (subst get_loop.simps) (simp add: Let_def opts algebra_simps)
    then have "values_from p code f ?i ov = values_from p code f (length (front @ [c, of_nat (length d)] @ d)) ?ov"
      by (simp add: values_from_def)
    also have "\<dots> = (case map_of ts code of Some d \<Rightarrow> Inr (Some d)
        | None \<Rightarrow> values_from p code f (length (front @ [c, of_nat (length d)] @ d) + length (area ts)) (overload_of ?ov ts))"
      using b ok(5) by (intro Cons.IH) simp_all
    finally show ?thesis using False t by (simp add: add.assoc split: option.split)
  qed
qed simp

text \<open>At the end of a field the next one follows that the flags name and that has not been looked at.\<close>

lemma values_end:
  assumes "i < length (bytes_in p f)" "bytes_in p f ! i = DHCP_END"
  shows "values_from p code f i ov =
    (if ov AND FILE_FIELD101 = FILE_FIELD then values_from p code File 0 (ov OR FILE_FIELD101)
     else if ov AND SNAME_FIELD101 = SNAME_FIELD then values_from p code Sname 0 (ov OR SNAME_FIELD101)
     else Inr None)"
proof -
  have "DHCP_END \<noteq> DHCP_PADDING" by (simp add: DHCP_END_def DHCP_PADDING_def)
  then show ?thesis unfolding values_from_def using assms by (subst get_loop.simps) (simp add: Let_def)
qed

lemma option_value_from: "option_value p code = values_from p code Options 0 0"
  by (simp add: option_value_def values_from_def udhcp_get_option_def)

lemma no_overload: "DHCP_OPTION_OVERLOAD \<notin> fst ` set ts \<Longrightarrow> overload_of ov ts = ov"
  by (induction ts) auto

text \<open>An area of options is a table: without an overload option, \<open>udhcp_get_option\<close> gives the data of the first
  option with the code, or nothing.\<close>

lemma option_value_area:
  assumes "pk_options p = area ts @ DHCP_END # junk" "options_ok ts" "DHCP_OPTION_OVERLOAD \<notin> fst ` set ts"
  shows "option_value p code = Inr (map_of ts code)"
proof -
  have z: "(0 :: u32) AND FILE_FIELD101 \<noteq> FILE_FIELD" "(0 :: u32) AND SNAME_FIELD101 \<noteq> SNAME_FIELD"
    by (simp_all add: FILE_FIELD_def SNAME_FIELD_def)
  have "values_from p code Options (length (area ts)) 0 = Inr None"
    using assms(1) z by (subst values_end) (simp_all add: nth_append)
  then show ?thesis
    using values_area [of p Options "[]" ts junk code 0] assms no_overload [OF assms(3), of 0]
    by (simp add: option_value_from split: option.split)
qed

text \<open>The flags of the overload option.\<close>

lemma field_flags:
  "ov AND FILE_FIELD101 = FILE_FIELD \<longleftrightarrow> bit ov 0 \<and> \<not> bit ov 8"
  "ov AND SNAME_FIELD101 = SNAME_FIELD \<longleftrightarrow> bit ov 1 \<and> \<not> bit ov 9"
proof -
  have masks: "FILE_FIELD101 = 2 ^ 0 OR 2 ^ 8" "SNAME_FIELD101 = 2 ^ 1 OR 2 ^ 9" "FILE_FIELD = 2 ^ 0" "SNAME_FIELD = 2 ^ 1"
    by (simp_all add: FILE_FIELD101_def SNAME_FIELD101_def FILE_FIELD_def SNAME_FIELD_def)
  have two: "ov AND (2 ^ a OR 2 ^ b) = 2 ^ a \<longleftrightarrow> bit ov a \<and> \<not> bit ov b" if "a < 32" "b < 32" "a \<noteq> b" for ov :: u32 and a b
  proof
    assume e: "ov AND (2 ^ a OR 2 ^ b) = 2 ^ a"
    then have "bit (ov AND (2 ^ a OR 2 ^ b)) n = bit (2 ^ a :: u32) n" for n by simp
    from this [of a] this [of b] show "bit ov a \<and> \<not> bit ov b" using that by (simp add: bit_and_iff bit_or_iff bit_exp_iff)
  next
    assume "bit ov a \<and> \<not> bit ov b"
    then show "ov AND (2 ^ a OR 2 ^ b) = 2 ^ a" using that by (intro bit_word_eqI) (auto simp: bit_and_iff bit_or_iff bit_exp_iff)
  qed
  show "ov AND FILE_FIELD101 = FILE_FIELD \<longleftrightarrow> bit ov 0 \<and> \<not> bit ov 8" "ov AND SNAME_FIELD101 = SNAME_FIELD \<longleftrightarrow> bit ov 1 \<and> \<not> bit ov 9"
    unfolding masks by (rule two; simp)+
qed

lemma overload_of_high: "bit (overload_of ov ts) 8 = bit ov 8" "bit (overload_of ov ts) 9 = bit ov 9"
  by (induction ov ts rule: overload_of.induct) (auto simp: overload_bits)

lemma sname_flag_kept: "bit (ov OR FILE_FIELD101) (Suc 0) = bit ov (Suc 0)" "bit (ov OR SNAME_FIELD101) 0 = bit ov 0"
  by (simp_all add: bit_or_iff FILE_FIELD101_def SNAME_FIELD101_def FILE_FIELD_def SNAME_FIELD_def)

text \<open>C19. Options in the fields for the file and the server name: \<open>udhcp_get_option\<close> reads the three areas one behind
  the other, as far as the overload option says so, and each of them once.\<close>

theorem option_value_overload:
  assumes "pk_options p = area ts @ DHCP_END # junk" "pk_file p = area tf @ DHCP_END # junk'" "pk_sname p = area tn @ DHCP_END # junk''"
    and "options_ok ts" "options_ok tf" "options_ok tn" "DHCP_OPTION_OVERLOAD \<notin> fst ` set tf" "DHCP_OPTION_OVERLOAD \<notin> fst ` set tn"
  shows "option_value p code = Inr (map_of (ts @ (if bit (overload_of 0 ts) 0 then tf else []) @
    (if bit (overload_of 0 ts) 1 then tn else [])) code)"
proof -
  let ?v = "overload_of 0 ts"
  have high: "\<not> bit ?v 8" "\<not> bit ?v 9" by (simp_all add: overload_of_high)
  have sname: "values_from p code Sname 0 ov = Inr (map_of tn code)" if "bit ov 8 \<or> \<not> bit ov 0" "bit ov 9" for ov
  proof -
    have "values_from p code Sname (length (area tn)) ov = Inr None"
      using assms(3) that by (subst values_end) (auto simp: nth_append field_flags)
    then show ?thesis using values_area [of p Sname "[]" tn junk'' code ov] assms(3,6) no_overload [OF assms(8)]
      by (simp split: option.split)
  qed
  have second: "values_from p code f i ov = Inr (if bit ov 1 then map_of tn code else None)"
    if "i < length (bytes_in p f)" "bytes_in p f ! i = DHCP_END" "bit ov 8 \<or> \<not> bit ov 0" "\<not> bit ov 9" for f i ov
    using that sname [of "ov OR SNAME_FIELD101"] by (subst values_end) (auto simp: field_flags overload_bits sname_flag_kept)
  have first: "values_from p code File 0 ov = Inr (case map_of tf code of Some d \<Rightarrow> Some d | None \<Rightarrow> if bit ov 1 then map_of tn code else None)"
    if "bit ov 8" "\<not> bit ov 9" for ov
  proof -
    have "values_from p code File (length (area tf)) ov = Inr (if bit ov 1 then map_of tn code else None)"
      using assms(2) that by (intro second) (simp_all add: nth_append)
    then show ?thesis using values_area [of p File "[]" tf junk' code ov] assms(2,5) no_overload [OF assms(7)]
      by (simp split: option.split)
  qed
  have "values_from p code Options (length (area ts)) ?v = Inr (if bit ?v 0
      then (case map_of tf code of Some d \<Rightarrow> Some d | None \<Rightarrow> if bit ?v 1 then map_of tn code else None)
      else if bit ?v 1 then map_of tn code else None)"
  proof (cases "bit ?v 0")
    case True
    then show ?thesis using assms(1) high first [of "?v OR FILE_FIELD101"]
      by (subst values_end) (simp_all add: nth_append field_flags overload_bits sname_flag_kept)
  next
    case False
    then show ?thesis using assms(1) high by (subst second) (simp_all add: nth_append)
  qed
  then show ?thesis using values_area [of p Options "[]" ts junk code 0] assms(1,4)
    by (auto simp: option_value_from map_add_def split: option.split)
qed

lemma option_value_overload_witness:
  "option_value \<lparr>pk_sname = [0x43, 2, 47, 98, 0xFF], pk_file = [0xFF, 0], pk_options = [0x35, 1, 5, 0x34, 1, 3, 0xFF]\<rparr> 0x43 = Inr (Some [47, 98])"
  using option_value_overload [of "\<lparr>pk_sname = [0x43, 2, 47, 98, 0xFF], pk_file = [0xFF, 0], pk_options = [0x35, 1, 5, 0x34, 1, 3, 0xFF]\<rparr>"
      "[(0x35, [5]), (0x34, [3])]" "[]" "[]" "[0]" "[(0x43, [47, 98])]" "[]" "0x43"]
  by (simp add: DHCP_END_def DHCP_PADDING_def DHCP_OPTION_OVERLOAD_def)

section \<open>Adding an option\<close>

lemma end_loop_area:
  "options_ok ts \<Longrightarrow> end_loop (front @ area ts @ DHCP_END # junk) (length front) = Inr (length front + length (area ts))"
proof (induction ts arbitrary: front)
  case Nil
  then show ?case by (subst end_loop.simps) (simp add: nth_append)
next
  case (Cons t ts)
  obtain c d where t: "t = (c, d)" by (cases t)
  let ?b = "front @ (c # of_nat (length d) # d @ area ts) @ DHCP_END # junk"
  have ok: "c \<noteq> DHCP_PADDING" "c \<noteq> DHCP_END" "length d \<le> 255" "options_ok ts" using Cons.prems t by auto
  have "?b ! length front = c" "unat (?b ! (length front + 1)) = length d" "length front + 1 < length ?b"
    using length_byte [OF ok(3)] by (simp_all add: nth_append)
  then have "end_loop ?b (length front) = end_loop ?b (length (front @ [c, of_nat (length d)] @ d))"
    using ok by (subst end_loop.simps) (simp add: OPT_LEN_def OPT_DATA_def)
  also have "\<dots> = Inr (length front + length (area (t # ts)))"
    using Cons.IH [OF ok(4), of "front @ [c, of_nat (length d)] @ d"] t by simp
  finally show ?case using t by simp
qed

text \<open>C18. What is added is found: an option that fits is put behind the others, so that its code gives its data unless
  an earlier option has the code, every other code gives what it gave, and the other fields are untouched.\<close>

theorem get_after_add:
  assumes "pk_options p = area ts @ DHCP_END # junk" "308 \<le> length (pk_options p)" "options_ok (ts @ [(code, d)])"
    and "DHCP_OPTION_OVERLOAD \<notin> fst ` set (ts @ [(code, d)])" "length (area ts) + length d + 3 < 308"
  shows "\<exists>p'. udhcp_add_binary_option p (option_bytes (code, d)) = Inr p' \<and> pk_file p' = pk_file p \<and> pk_sname p' = pk_sname p \<and>
    length (pk_options p') = length (pk_options p) \<and>
    (\<forall>c. option_value p' c = Inr (case map_of ts c of Some d' \<Rightarrow> Some d' | None \<Rightarrow> if c = code then Some d else None))"
proof -
  let ?n = "length (area ts)"
  have ok: "options_ok ts" "length d \<le> 255" using assms(3) by simp_all
  have pos: "udhcp_end_option (area ts @ DHCP_END # junk) = Inr ?n"
    using end_loop_area [OF ok(1), of "[]"] by (simp add: udhcp_end_option_def)
  have junk: "length d + 3 \<le> length junk" using assms(1,2,5) by simp
  define j where "j = drop (length d + 2) junk"
  have split: "junk = take (length d + 2) junk @ j" by (simp add: j_def)
  define p' where "p' = p\<lparr>pk_options := area (ts @ [(code, d)]) @ DHCP_END # j\<rparr>"
  have len: "unat (of_nat (length d) :: u8) = length d" by (rule length_byte [OF ok(2)])
  have drops: "drop (?n + (2 + length d)) (pk_options p) = drop (length d + 1) junk"
    using assms(1) by simp
  have last: "drop (length d + 1) junk = junk ! (length d + 1) # j"
    using junk by (simp add: j_def Cons_nth_drop_Suc [symmetric])
  have "udhcp_add_binary_option p (option_bytes (code, d)) = Inr p'"
    using assms(1,2,5) drops last
    by (simp add: udhcp_add_binary_option_def pos option_bytes_def byte_at_def OPT_LEN_def OPT_DATA_def len copy_in_def
      DHCP_OPTIONS_BUFSIZE_def Let_def p'_def list_update_append)
  moreover have "option_value p' c = Inr (case map_of ts c of Some d' \<Rightarrow> Some d' | None \<Rightarrow> if c = code then Some d else None)" for c
    using option_value_area [of p' "ts @ [(code, d)]" j c] assms(3,4)
    by (auto simp: p'_def map_add_def split: option.split)
  moreover have "length (pk_options p') = length (pk_options p)" using assms(1) junk by (simp add: p'_def j_def)
  ultimately show ?thesis by (auto simp: p'_def)
qed

lemma get_after_add_witness:
  "\<exists>p'. udhcp_add_binary_option \<lparr>pk_sname = [], pk_file = [], pk_options = [0x35, 1, 5, 0xFF] @ replicate 304 0\<rparr> [0x36, 2, 8, 9] = Inr p' \<and>
     option_value p' 0x36 = Inr (Some [8, 9]) \<and> option_value p' 0x35 = Inr (Some [5]) \<and> option_value p' 0x37 = Inr None"
  using get_after_add [of "\<lparr>pk_sname = [], pk_file = [], pk_options = [0x35, 1, 5, 0xFF] @ replicate 304 0\<rparr>" "[(0x35, [5])]" "replicate 304 0" "0x36" "[8, 9]"]
  by (auto simp: DHCP_END_def DHCP_PADDING_def DHCP_OPTION_OVERLOAD_def option_bytes_def)

section \<open>Any packet\<close>

lemma get_loop_found:
  "get_loop p code f ptr rem ov = Inr (Some (g, i)) \<Longrightarrow> int ptr + rem = int (length (bytes_in p f)) \<Longrightarrow>
   2 \<le> i \<and> bytes_in p g ! (i - 2) = code \<and> i + unat (bytes_in p g ! (i - 1)) \<le> length (bytes_in p g)"
proof (induction p code f ptr rem ov rule: get_loop.induct)
  case (1 p code f ptr rem ov)
  let ?b = "bytes_in p f" and ?l = "2 + unat (bytes_in p f ! (ptr + OPT_LEN))"
  have go: "0 < rem" "ptr < length ?b" using 1(6) by (auto simp: get_loop.simps [of p code f ptr rem ov] split: if_splits)
  consider (pad) "?b ! ptr = DHCP_PADDING" | (last) "?b ! ptr = DHCP_END"
    | (opt) "?b ! ptr \<noteq> DHCP_PADDING" "?b ! ptr \<noteq> DHCP_END" by blast
  then show ?case
  proof cases
    case pad
    then show ?thesis using 1(1,6,7) go by (simp add: get_loop.simps [of p code f ptr rem ov])
  next
    case last
    then show ?thesis using 1(2,3,6) go by (simp add: get_loop.simps [of p code f ptr rem ov] DHCP_PADDING_def DHCP_END_def split: if_splits)
  next
    case opt
    have len: "ptr + OPT_LEN < length ?b" "int ?l \<le> rem"
      using 1(6) opt go by (auto simp: get_loop.simps [of p code f ptr rem ov] Let_def split: if_splits)
    show ?thesis
    proof (cases "?b ! ptr = code")
      case True
      then have "g = f" "i = ptr + 2"
        using 1(6) opt go len by (auto simp: get_loop.simps [of p code f ptr rem ov] Let_def OPT_DATA_def split: if_splits)
      moreover have "ptr + ?l \<le> length ?b" using len(2) 1(7) by linarith
      ultimately show ?thesis using True by (simp add: OPT_LEN_def)
    next
      case False
      have after: "int (ptr + ?l) + (rem - int ?l) = int (length ?b)" using 1(7) by linarith
      show ?thesis
      proof (cases "?b ! ptr = DHCP_OPTION_OVERLOAD")
        case True
        then have "ptr + OPT_DATA < length ?b"
            "get_loop p code f (ptr + ?l) (rem - int ?l) (ov OR ucast (?b ! (ptr + OPT_DATA))) = Inr (Some (g, i))"
          using 1(6) opt go len False by (auto simp: get_loop.simps [of p code f ptr rem ov] Let_def split: if_splits)
        then show ?thesis using 1(4) [OF _ _ refl opt _ refl _ _ True _ _ after] False go len by simp
      next
        case other: False
        then have "get_loop p code f (ptr + ?l) (rem - int ?l) ov = Inr (Some (g, i))"
          using 1(6) opt go len False by (auto simp: get_loop.simps [of p code f ptr rem ov] Let_def split: if_splits)
        then show ?thesis using 1(5) [OF _ _ refl opt _ refl _ _ other _ after] False go len by simp
      qed
    qed
  qed
qed

text \<open>C37. Whatever the packet holds, malformed lengths and overloading included, an option that is found is one: its
  code is the one asked for and its data lies inside the field it was found in.\<close>

theorem found_option_in_packet:
  assumes "udhcp_get_option p code = Inr (Some (f, i))"
  shows "2 \<le> i \<and> bytes_in p f ! (i - 2) = code \<and> i + unat (bytes_in p f ! (i - 1)) \<le> length (bytes_in p f)"
  using get_loop_found assms by (simp add: udhcp_get_option_def)

lemma found_option_in_packet_witness:
  "udhcp_get_option \<lparr>pk_sname = [], pk_file = [], pk_options = [0, 0x35, 1, 5, 0xFF]\<rparr> 0x35 = Inr (Some (Options, 3)) \<and>
   3 + unat ([0, 0x35, 1, 5, 0xFF :: u8] ! 2) \<le> 5"
proof -
  have "udhcp_get_option \<lparr>pk_sname = [], pk_file = [], pk_options = [0, 0x35, 1, 5, 0xFF]\<rparr> 0x35 = Inr (Some (Options, 3))"
    by (simp add: udhcp_get_option_def get_loop.simps DHCP_PADDING_def DHCP_END_def OPT_LEN_def OPT_DATA_def)
  then show ?thesis using found_option_in_packet by fastforce
qed

lemma get_loop_padding:
  "pk_options p = front @ replicate n 0 @ [c] \<Longrightarrow> c \<noteq> DHCP_PADDING \<Longrightarrow> c \<noteq> DHCP_END \<Longrightarrow>
   get_loop p code Options (length front) (int n + 1) ov = Inl Out_Of_Bounds"
proof (induction n arbitrary: front)
  case 0
  then show ?case by (subst get_loop.simps) (simp add: nth_append OPT_LEN_def)
next
  case (Suc n)
  then show ?case using Suc.IH [of "front @ [0]"] by (subst get_loop.simps) (simp add: nth_append DHCP_PADDING_def add.commute)
qed

text \<open>The check of the length comes after the read of the length: when only padding stands before a code in the last
  byte of the options, whichever option is looked for, the byte behind the field is read.\<close>

theorem last_byte_overread:
  assumes "pk_options p = replicate n 0 @ [c]" "c \<noteq> DHCP_PADDING" "c \<noteq> DHCP_END"
  shows "udhcp_get_option p code = Inl Out_Of_Bounds"
  using get_loop_padding [of p "[]" n c] assms by (simp add: udhcp_get_option_def add.commute)

lemma last_byte_overread_witness:
  "udhcp_get_option \<lparr>pk_sname = [], pk_file = [], pk_options = [0, 0, 0, 0x35]\<rparr> 0x35 = Inl Out_Of_Bounds"
  using last_byte_overread [of "\<lparr>pk_sname = [], pk_file = [], pk_options = [0, 0, 0, 0x35]\<rparr>" 3 "0x35" "0x35"]
  by (simp add: numeral_3_eq_3 DHCP_PADDING_def DHCP_END_def)

section \<open>The list of options\<close>

abbreviation codes :: "u8 list list \<Rightarrow> u8 list" where
  "codes ds \<equiv> map (\<lambda>d. d ! OPT_CODE) ds"

text \<open>The search that stops early finds what is there.\<close>

lemma find_option_member:
  "sorted_wrt (<) (codes ds) \<Longrightarrow> udhcp_find_option ds c = Some d \<longleftrightarrow> d \<in> set ds \<and> d ! OPT_CODE = c"
  by (induction ds) (force simp: udhcp_find_option_def)+

lemma find_option_none:
  assumes "sorted_wrt (<) (codes ds)"
  shows "udhcp_find_option ds c = None \<longleftrightarrow> c \<notin> set (codes ds)"
proof -
  have "udhcp_find_option ds c = None \<longleftrightarrow> (\<forall>d. udhcp_find_option ds c \<noteq> Some d)" by simp
  then show ?thesis unfolding find_option_member [OF assms] by auto
qed

text \<open>An option put in its place.\<close>

definition put :: "u8 list list \<Rightarrow> u8 list \<Rightarrow> u8 list list" where
  "put ds d = takeWhile (\<lambda>e. e ! OPT_CODE < d ! OPT_CODE) ds @ d # dropWhile (\<lambda>e. e ! OPT_CODE \<le> d ! OPT_CODE) ds"

lemma sorted_codes_filter:
  assumes "sorted_wrt (<) (codes ds)"
  shows "takeWhile (\<lambda>e. e ! OPT_CODE < c) ds = filter (\<lambda>e. e ! OPT_CODE < c) ds"
    "dropWhile (\<lambda>e. e ! OPT_CODE < c) ds = filter (\<lambda>e. c \<le> e ! OPT_CODE) ds"
    "dropWhile (\<lambda>e. e ! OPT_CODE \<le> c) ds = filter (\<lambda>e. c < e ! OPT_CODE) ds"
proof -
  show "takeWhile (\<lambda>e. e ! OPT_CODE < c) ds = filter (\<lambda>e. e ! OPT_CODE < c) ds"
    using assms by (induction ds; auto simp: not_less intro!: filter_False [symmetric]; metis order.strict_trans1 order_less_asym)
  show "dropWhile (\<lambda>e. e ! OPT_CODE < c) ds = filter (\<lambda>e. c \<le> e ! OPT_CODE) ds"
    using assms by (induction ds; auto simp: not_less intro!: filter_True [symmetric]; order)
  show "dropWhile (\<lambda>e. e ! OPT_CODE \<le> c) ds = filter (\<lambda>e. c < e ! OPT_CODE) ds"
    using assms by (induction ds; auto simp: not_le intro!: filter_True [symmetric]; order)
qed

lemma sorted_codes_filtered: "sorted_wrt (<) (codes ds) \<Longrightarrow> sorted_wrt (<) (codes (filter P ds))"
  by (induction ds) auto

lemma put_sorted: "sorted_wrt (<) (codes ds) \<Longrightarrow> sorted_wrt (<) (codes (put ds d))"
  by (auto simp: put_def sorted_codes_filter sorted_wrt_append sorted_codes_filtered)

lemma put_set: "sorted_wrt (<) (codes ds) \<Longrightarrow> set (put ds d) = insert d {e \<in> set ds. e ! OPT_CODE \<noteq> d ! OPT_CODE}"
  by (auto simp: put_def sorted_codes_filter)

lemma put_find:
  assumes "sorted_wrt (<) (codes ds)"
  shows "udhcp_find_option (put ds d) c = (if c = d ! OPT_CODE then Some d else udhcp_find_option ds c)"
proof -
  have "udhcp_find_option (put ds d) c = Some e \<longleftrightarrow> (if c = d ! OPT_CODE then Some d else udhcp_find_option ds c) = Some e" for e
    using assms by (auto simp: find_option_member put_sorted put_set)
  then show ?thesis by (metis not_None_eq)
qed

lemma put_rest:
  assumes "sorted_wrt (<) (codes ds)"
  shows "udhcp_find_option ds c = None \<Longrightarrow> filter (\<lambda>e. c \<le> e ! OPT_CODE) ds = filter (\<lambda>e. c < e ! OPT_CODE) ds"
    "udhcp_find_option ds c = Some d \<Longrightarrow> tl (filter (\<lambda>e. c \<le> e ! OPT_CODE) ds) = filter (\<lambda>e. c < e ! OPT_CODE) ds"
proof -
  show "udhcp_find_option ds c = None \<Longrightarrow> filter (\<lambda>e. c \<le> e ! OPT_CODE) ds = filter (\<lambda>e. c < e ! OPT_CODE) ds"
    using assms by (intro filter_cong) (auto simp: find_option_none)
  have "d \<in> set ds \<Longrightarrow> d ! OPT_CODE = c \<Longrightarrow> tl (filter (\<lambda>e. c \<le> e ! OPT_CODE) ds) = filter (\<lambda>e. c < e ! OPT_CODE) ds"
    using assms by (induction ds) (auto simp: filter_id_conv intro!: filter_cong less_imp_le)
  then show "udhcp_find_option ds c = Some d \<Longrightarrow> tl (filter (\<lambda>e. c \<le> e ! OPT_CODE) ds) = filter (\<lambda>e. c < e ! OPT_CODE) ds"
    using assms by (simp add: find_option_member)
qed

lemma attach_put:
  assumes "sorted_wrt (<) (codes ds)"
  shows "attach_option ds flags code buf n = (case udhcp_find_option ds code of
      None \<Rightarrow> bindd (option_data flags None buf n) (\<lambda>data. Inr (put ds ([code, of_nat (length data)] @ data)))
    | Some d \<Rightarrow> if flags AND OPTION_LIST = 0 then Inr ds
        else let old = take (unat (d ! OPT_LEN)) (drop OPT_DATA d)
          in bindd (option_data flags (Some old) buf n) (\<lambda>data.
            let data = (if flags AND OPTION_TYPE_MASK = OPTION_BIN then take (length data) buf else data);
              sep = (if flags AND OPTION_TYPE_MASK = OPTION_STRING \<or> flags AND OPTION_TYPE_MASK = OPTION_STRING_HOST then [32] else [])
            in if unat (d ! OPT_LEN) + length data < 255
               then Inr (put ds ([code, of_nat (length (old @ sep @ data))] @ old @ sep @ data)) else Inr ds))"
proof -
  have code: "(code # bs) ! OPT_CODE = code" for bs :: "u8 list" by (simp add: OPT_CODE_def)
  show ?thesis
  proof (cases "udhcp_find_option ds code")
    case None
    then show ?thesis using put_rest(1) [OF assms]
      by (simp add: attach_option_def put_def sorted_codes_filter [OF assms] code)
  next
    case (Some d)
    let ?r = "option_data flags (Some (take (unat (d ! OPT_LEN)) (drop OPT_DATA d))) buf n"
    show ?thesis
    proof (cases ?r)
      case (Inr data)
      then show ?thesis using Some put_rest(2) [OF assms Some]
        by (cases "flags AND OPTION_TYPE_MASK = OPTION_STRING \<or> flags AND OPTION_TYPE_MASK = OPTION_STRING_HOST")
          (simp_all add: attach_option_def put_def sorted_codes_filter [OF assms] code Let_def)
    qed (simp add: attach_option_def Some)
  qed
qed

text \<open>C38. The list of options stays a table: \<open>attach_option\<close> keeps it sorted by code without a code twice, so that the
  search which stops early is right, and changes what is found under its own code only, where something is found then.\<close>

theorem attach_option_table:
  assumes "sorted_wrt (<) (codes ds)" "attach_option ds flags code buf n = Inr ds'"
  shows "sorted_wrt (<) (codes ds') \<and> (\<forall>c. c \<noteq> code \<longrightarrow> udhcp_find_option ds' c = udhcp_find_option ds c) \<and>
    udhcp_find_option ds' code \<noteq> None"
proof -
  have "ds' = ds \<and> udhcp_find_option ds code \<noteq> None \<or> (\<exists>bs. ds' = put ds (code # bs))"
    using assms(2) unfolding attach_put [OF assms(1)]
    by (auto simp: bindd_def Let_def split: option.splits sum.splits if_splits)
  moreover have "(code # bs) ! OPT_CODE = code" for bs :: "u8 list" by (simp add: OPT_CODE_def)
  ultimately show ?thesis using assms(1) put_sorted put_find by auto
qed

lemma attach_option_table_witness:
  "\<exists>ds'. attach_option [[0x0C, 2, 104, 105], [0x43, 1, 98]] OPTION_STRING 0x11 [47] 1 = Inr ds' \<and> sorted_wrt (<) (codes ds') \<and>
     udhcp_find_option ds' 0x43 = Some [0x43, 1, 98]"
proof -
  let ?ds = "[[0x0C, 2, 104, 105], [0x43, 1, 98]] :: u8 list list"
  have a: "attach_option ?ds OPTION_STRING 0x11 [47] 1 = Inr [[0x0C, 2, 104, 105], [0x11, 1, 47], [0x43, 1, 98]]" by code_simp
  have s: "sorted_wrt (<) (codes ?ds)" by code_simp
  have "udhcp_find_option ?ds 0x43 = Some [0x43, 1, 98]" by code_simp
  then show ?thesis using attach_option_table [OF s a] a by simp
qed

section \<open>The domain search list\<close>

definition search_flags :: u8 where
  "search_flags = OPTION_DNS_STRING OR OPTION_LIST"

lemma search_flag_bits: "search_flags AND OPTION_LIST \<noteq> 0" "search_flags AND OPTION_TYPE_MASK = OPTION_DNS_STRING"
    "OPTION_DNS_STRING \<noteq> OPTION_BIN" "OPTION_DNS_STRING \<noteq> OPTION_STRING" "OPTION_DNS_STRING \<noteq> OPTION_STRING_HOST"
  by code_simp+

lemma encode_names_grows: "encode_names cstr srcs = Inr out \<Longrightarrow> length cstr \<le> length out"
proof (induction cstr srcs rule: encode_names.induct)
  case (2 cstr src srcs)
  then show ?case by (fastforce simp: bindd_def split: sum.splits)
qed simp

lemma attach_strings_step:
  "val \<noteq> [] \<Longrightarrow> attach_strings ds flags code (val # vals) =
     bindd (attach_option ds flags code val (min (length val) 254)) (\<lambda>ds.
       if flags AND OPTION_LIST = 0 then Inr ds else attach_strings ds flags code vals)"
  by (simp add: Let_def min_def)

lemma attach_more_names:
  assumes "sorted_wrt (<) (codes ds)" "udhcp_find_option ds code = Some (code # of_nat (length cstr) # cstr)" "cstr \<noteq> []"
    "encode_names cstr srcs = Inr out" "length out < 255" "[] \<notin> set srcs"
  shows "\<exists>ds'. attach_strings ds search_flags code srcs = Inr ds' \<and> sorted_wrt (<) (codes ds') \<and>
    udhcp_find_option ds' code = Some (code # of_nat (length out) # out) \<and>
    (\<forall>c. c \<noteq> code \<longrightarrow> udhcp_find_option ds' c = udhcp_find_option ds c)"
  using assms
proof (induction srcs arbitrary: ds cstr)
  case (Cons src srcs)
  obtain enc where e: "dname_enc (Some cstr) src = Inr enc" "encode_names (cstr @ enc) srcs = Inr out"
    using Cons.prems(3,4) by (auto simp: bindd_def split: sum.splits)
  have short: "length (cstr @ enc) < 255" "length cstr \<le> 255" using encode_names_grows [OF e(2)] Cons.prems(5) by simp_all
  let ?d = "code # of_nat (length (cstr @ enc)) # cstr @ enc"
  have len: "unat (of_nat (length cstr) :: u8) = length cstr" by (rule length_byte [OF short(2)])
  have step: "attach_option ds search_flags code src n = Inr (put ds ?d)" for n
    using short e(1) len by (simp add: attach_put [OF Cons.prems(1)] Cons.prems(2) search_flag_bits option_data_def OPT_LEN_def OPT_DATA_def)
  have code: "?d ! OPT_CODE = code" by (simp add: OPT_CODE_def)
  have found: "udhcp_find_option (put ds ?d) code = Some ?d" using put_find [OF Cons.prems(1), of ?d] code by simp
  obtain ds' where "attach_strings (put ds ?d) search_flags code srcs = Inr ds'" "sorted_wrt (<) (codes ds')"
      "udhcp_find_option ds' code = Some (code # of_nat (length out) # out)"
      "\<forall>c. c \<noteq> code \<longrightarrow> udhcp_find_option ds' c = udhcp_find_option (put ds ?d) c"
    using Cons.IH [OF put_sorted [OF Cons.prems(1)] found _ e(2) Cons.prems(5)] Cons.prems(3,6) by auto
  moreover have "src \<noteq> []" using Cons.prems(6) by auto
  ultimately show ?case using step put_find [OF Cons.prems(1), of ?d] code
    by (simp add: attach_strings_step search_flag_bits del: attach_strings.simps)
qed auto

lemma domain_join: "domain_ok ls \<Longrightarrow> join ls \<noteq> []"
  using join_start by (simp add: domain_ok_def)

text \<open>C9. The domains of a search list, attached one after the other to a list of options, arrive together: up to seven
  names that take fewer than 255 bytes uncompressed end in one option, whose data is decoded to all of them, in their
  order and in lower case; no other option changes.\<close>

theorem attached_search_list:
  assumes "sorted_wrt (<) (codes ds)" "udhcp_find_option ds code = None" "\<forall>ls\<in>set dss. domain_ok ls" "dss \<noteq> []" "length dss \<le> 7"
    "wire_bound dss < 255"
  shows "\<exists>ds' d. attach_strings ds search_flags code (map join dss) = Inr ds' \<and> sorted_wrt (<) (codes ds') \<and>
    udhcp_find_option ds' code = Some d \<and>
    dname_dec junk (take (unat (d ! OPT_LEN)) (drop OPT_DATA d)) pre =
      Inr (pre @ butlast (concat (map (\<lambda>ls. map lower (join ls) @ [32]) dss)) @ [0]) \<and>
    (\<forall>c. c \<noteq> code \<longrightarrow> udhcp_find_option ds' c = udhcp_find_option ds c)"
proof -
  obtain ls rest where dss: "dss = ls # rest" using assms(4) by (cases dss) auto
  let ?w = "wire (map (map lower) ls)"
  have ok: "domain_ok ls" using assms(3) dss by simp
  have joined: "[] \<notin> set (map join dss)" using assms(3) domain_join by (metis (no_types, lifting) imageE list.set_map)
  obtain out m where out: "encode_names [] (map join dss) = Inr out" "length out \<le> wire_bound dss" "m \<le> 6"
      "names out m 0 (map (map (map lower)) dss)" using search_list_names [OF assms(3-5)] by blast
  have w: "?w \<noteq> []" "encode_names ?w (map join rest) = Inr out"
    using out(1) first_name(1) [OF ok] dss by (simp_all add: wire_def)
  let ?d = "code # of_nat (length ?w) # ?w" and ?o = "code # of_nat (length out) # out"
  have code: "?d ! OPT_CODE = code" by (simp add: OPT_CODE_def)
  have found: "udhcp_find_option (put ds ?d) code = Some ?d" using put_find [OF assms(1), of ?d] code by simp
  have short: "length out < 255" using out(2) assms(6) by linarith
  have step: "attach_option ds search_flags code (join ls) n = Inr (put ds ?d)" for n
    by (simp add: attach_put [OF assms(1)] assms(2) search_flag_bits option_data_def first_name(1) [OF ok])
  obtain ds' where ds': "attach_strings (put ds ?d) search_flags code (map join rest) = Inr ds'" "sorted_wrt (<) (codes ds')"
      "udhcp_find_option ds' code = Some ?o" "\<forall>c. c \<noteq> code \<longrightarrow> udhcp_find_option ds' c = udhcp_find_option (put ds ?d) c"
    using attach_more_names [OF put_sorted [OF assms(1)] found w(1,2) short] joined dss by auto
  have "unat (of_nat (length out) :: u8) = length out" using out(2) assms(6) by (intro length_byte) simp
  then have "take (unat (?o ! OPT_LEN)) (drop OPT_DATA ?o) = out" by (simp add: OPT_LEN_def OPT_DATA_def)
  moreover have "attach_strings ds search_flags code (map join dss) = Inr ds'"
    using ds'(1) step domain_join [OF ok] dss by (simp add: attach_strings_step search_flag_bits del: attach_strings.simps)
  ultimately show ?thesis using ds' decoded_list [OF out(4,3) assms(4,5,3)] put_find [OF assms(1), of ?d] code by metis
qed

lemma attached_search_list_witness:
  "\<exists>ds' d. attach_strings [[0x0C, 2, 104, 105]] search_flags 0x77 (map join demo_search) = Inr ds' \<and>
     udhcp_find_option ds' 0x77 = Some d \<and> dname_dec (\<lambda>_. 7) (take (unat (d ! OPT_LEN)) (drop OPT_DATA d)) [] =
     Inr (bytes_of ''example.com lab.example.com www.lab.example.com'' @ [0])"
proof -
  have "\<forall>ls\<in>set demo_search. domain_ok ls" by code_simp
  moreover have "demo_search \<noteq> []" "length demo_search \<le> 7" by (simp_all add: demo_search_def)
  moreover have "wire_bound demo_search < 255" by code_simp
  moreover have "sorted_wrt (<) (codes [[0x0C, 2, 104, 105]])" "udhcp_find_option [[0x0C, 2, 104, 105]] 0x77 = None" by code_simp+
  moreover have "butlast (concat (map (\<lambda>ls. map lower (join ls) @ [32]) demo_search)) = bytes_of ''example.com lab.example.com www.lab.example.com''"
    by code_simp
  ultimately show ?thesis using attached_search_list [of "[[0x0C, 2, 104, 105]]" "0x77" demo_search "\<lambda>_. 7" "[]"] by auto
qed

end
