(* ===== verification/Spec2Isabelle.thy ===== *)
theory Spec2Isabelle
  imports Make_Ext4fs_Main Simg2img Checksum Region_Reduce Indirect_Correct Alloc_Theorems Geometry_Correct Sparse_Round Plain_Image I2c_Scan_Correct Eeprom_Pages_Correct Directory_Correct
    Base64_Ends Arith_Trees Dhcp_Correct
begin

text \<open>
  A verification of the C programs of this repository that build and unpack Android file system
  images (\<open>src/android/ext4_utils\<close>), of the I2C tools beside them (\<open>src/tools/i2c-tools-3.0.0\<close>), of some
  parts of busybox (\<open>src/tools/busybox-1.20\<close>: the arithmetic of its shells, \<open>uuencode\<close>, \<open>uudecode\<close> and
  \<open>base64\<close>, and the options of its DHCP client and server) and of a small checksum demo (\<open>src/linux/checksum\<close>).

  \<^bold>\<open>The programs.\<close>  \<open>make_ext4fs\<close> reads its options (\<open>make_ext4fs_main.c\<close>), computes the geometry of the
  file system (\<open>make_ext4fs.c\<close>, \<open>ext4_utils.c\<close>), sets up a block allocator (\<open>allocate.c\<close>), copies a
  directory tree of the host into inodes, directories, extents and indirect blocks (\<open>contents.c\<close>,
  \<open>extent.c\<close>, \<open>indirect.c\<close>), queues every block to be written (\<open>backed_block.c\<close>) and writes the queue as a
  plain, compressed or sparse file (\<open>output_file.c\<close>), with a CRC-32 (\<open>sparse_crc32.c\<close>) and a UUID
  hashed by SHA-1 (\<open>sha1.c\<close>, \<open>uuid.c\<close>).  \<open>simg2img\<close> unpacks a sparse file.  The I2C tools are processes
  that talk to chips through \<open>ioctl\<close>: \<open>i2cget\<close>, \<open>i2cset\<close>, \<open>i2cdetect\<close>, \<open>i2cdump\<close> and the EEPROM
  programmers \<open>eeprog\<close> and \<open>eeprom\<close>.

  \<^bold>\<open>The foundation.\<close>
  \<^item> \<open>Prelude\<close>: words at the widths of the code, little- and big-endian encodings, bytes at an offset.
  \<^item> \<open>C_Monad\<close>: statements as functions from a state to a fault or a result with a new state; the faults
    are \<open>exit\<close>, undefined behaviour, and a loop out of fuel.  \<open>wp\<close> is total correctness.
  \<^item> \<open>World\<close>: the state of \<open>make_ext4fs\<close>: the globals \<open>info\<close>, \<open>aux_info\<close>, \<open>force\<close>, the heap of byte buffers,
    the heap of regions, the queue, the output file.  Pointers are addresses, so aliasing is the code's.
  \<^item> \<open>Tool_Monad\<close>: the I2C tools as functions on the devices and the standard streams; a run that exits
    keeps what it has done.  \<open>strtol\<close>, \<open>strtoul\<close> and hexadecimal output are the C library's.  \<open>Getopt\<close> is
    the C library's \<open>getopt\<close>.

  \<^bold>\<open>Building an image.\<close>
  \<^item> \<open>Crc32\<close>, \<open>Sha1\<close>, \<open>Sha1_Stream\<close>, \<open>Uuid\<close>: the checksums, with their reference definitions (a bit-serial
    register, FIPS 180) and the proof that the code computes them.
  \<^item> \<open>Backed_Block\<close>: the sorted queue; its contract is the locale \<open>sorted_queue\<close>.
  \<^item> \<open>Fs_Geometry\<close>, \<open>Geometry_Correct\<close>: backup superblocks, \<open>ext4_create_fs_aux_info\<close>, the defaults; the
    derived parameters are those the allocator needs.
  \<^item> \<open>Bitmap\<close>, \<open>Block_Group\<close>, \<open>Group_Correct\<close>, \<open>Group_Inv\<close>, \<open>Group_Init\<close>, \<open>Allocator\<close>, \<open>Alloc_Theorems\<close>: the
    block groups of \<open>allocate.c\<close>.  A bitmap is the set of its bits; byte-wise marking equals bit-wise
    marking; the invariant \<open>alloc_inv\<close> holds after the setup and is kept; allocations are first fit and
    disjoint (locale \<open>disjoint_allocator\<close>).
  \<^item> \<open>Region_List\<close>, \<open>Region_Correct\<close>, \<open>Region_Walk\<close>, \<open>Region_Reduce\<close>: block allocations as doubly linked lists
    in the heap; what the lists stand for, what allocating, appending, removing, reading and shortening
    do to that, and where the code leaves a list with a stale end.
  \<^item> \<open>Extent\<close>, \<open>Indirect\<close>, \<open>Indirect_Correct\<close>, \<open>Contents\<close>, \<open>Superblock\<close>, \<open>Make_Ext4fs\<close>,
    \<open>Make_Ext4fs_Main\<close>: extents, indirect maps and the resize inode, directories, superblock and journal,
    the build and the command line.
  \<^item> \<open>Directory_Correct\<close>: a directory as a chain of records; what \<open>fill_directory\<close> writes into data of the
    length \<open>dentry_size\<close> gives is read back as the entries, and where that length is too short.
  \<^item> \<open>Output_File\<close>, \<open>Image\<close>: writing; a device is its bytes, a position and a capacity.
  \<^item> \<open>Image_Writer\<close> states what \<open>write_ext4_image\<close> hands to the output file, and the contract of an output
    file as the locale \<open>image_writer\<close>.  \<open>Plain_Image\<close> interprets it on plain files; \<open>Sparse_Write\<close> and
    \<open>Sparse_Round\<close> interpret it on sparse files, and with the decoder lemmas of \<open>Sparse_Read\<close> on
    \<open>Simg2img\<close> they give the round trip: a sparse image unpacks to the image, and
    whether \<open>simg2img\<close> accepts it is a matter of what \<open>malloc\<close> left in a buffer it never clears.

  \<^bold>\<open>The I2C tools.\<close>
  \<^item> \<open>I2c_Dev\<close>: the SMBus transactions of \<open>i2c-dev.h\<close>.  The kernel is a parameter, the record \<open>kernel\<close> of what
    its system calls do to the devices; the properties state the protocol of the chip they are about as
    a hypothesis on it (\<open>serial_chip\<close>, \<open>register_chip\<close>, \<open>page_chip\<close>), and their witnesses run on kernels
    with such a chip in memory.
  \<^item> \<open>I2c_Bus\<close>: \<open>i2cbusses.c\<close> and \<open>util.c\<close>.  \<open>I2c_Tools\<close>: \<open>i2cget\<close> and \<open>i2cset\<close>.  \<open>I2c_Scan\<close>: \<open>i2cdetect\<close> and
    \<open>i2cdump\<close>.  \<open>Eeprom\<close>: \<open>24cXX.c\<close> and \<open>eeprog.c\<close>.  \<open>Eeprom_Pages\<close>: \<open>eeprom.c\<close>.  Each \<open>main\<close> is a composition of
    phases in the order of the code.
  \<^item> \<open>Eeprog_Correct\<close>, \<open>I2c_Tools_Correct\<close>, \<open>I2c_Scan_Correct\<close>, \<open>Eeprom_Pages_Correct\<close>: what is written is read
    back, what a register holds afterwards, which addresses are touched, what is printed, and on
    which arguments a run of \<open>eeprog\<close> ends without undefined behaviour.

  \<^bold>\<open>busybox.\<close>
  \<^item> \<open>Uuencode\<close>: the encoder and decoder of \<open>libbb/uuencode.c\<close> and the programs of \<open>coreutils\<close> on them.
    \<open>Uuencode_Correct\<close>: a file sent through \<open>uuencode\<close> and \<open>uudecode\<close>, or through \<open>base64\<close> twice, comes back.
    \<open>Base64_Ends\<close>: when reading base64 ends, and an input on which it never does.
  \<^item> \<open>Shell_Arith\<close>: \<open>shell/math.c\<close>, an operator precedence evaluator with a stack of numbers and one of
    operators; a computation maps the variables to an error or a value and new variables, and the
    evaluation of the value of a variable is a parameter, tied by \<open>evaluate_string\<close>.
  \<^item> \<open>Arith_Stacks\<close>, \<open>Arith_Overflow\<close>: both stacks are large enough, when numerals are read as a whole.  The
    locales \<open>limit\<close> and \<open>limit_room\<close> are the argument that a limit is never met, used for the stacks and for
    the fuel.  \<open>Arith_Ends\<close>: the nesting of variables ends.
    \<open>Arith_Trees\<close>: the value of an expression by recursion on its tree, with precedence and associativity as
    C has them, and the proof that the evaluator computes it.
  \<^item> \<open>Domain_Codec\<close>: compressed domain names, \<open>networking/udhcp/domain_codec.c\<close>.  \<open>Domain_Correct\<close>: the names
    at an offset as the relation \<open>name_at\<close>; the decoder prints them, the encoder appends them, the decoder
    stays in its buffers, and the data on which it does not.
  \<^item> \<open>Dhcp_Options\<close>: the options in a packet and the list of configured options, \<open>networking/udhcp/common.c\<close>.
    \<open>Dhcp_Correct\<close>: a packet is read as a table, adding to it, any malformed packet, and the list as a sorted
    table in which a domain search list is collected.
  \<^item> \<open>Decimal\<close>: what is printed in decimal is read back.

  \<^item> \<open>Checksum\<close>: \<open>gCRCCheckSum\<close>, and the value it really computes.

  \<^bold>\<open>Bounds and fuel.\<close>  A walk along region pointers has the number of addresses handed out as fuel, which
  only a cyclic list outlasts; the recursion over the source directory has the depth of the tree;
  the loops of \<open>eeprog\<close> have the number of input bytes, or the distance of the counter to its end, and
  \<open>eeprog_terminates\<close> shows that this is enough, for counts that do not overflow; the I2C block read has 257 turns because every turn adds
  a byte; \<open>read_base64_ends\<close> and \<open>arith_ends\<close> say how much fuel reading base64 and nested variables
  take.  Where a loop of the code really does not end, the model runs out of fuel, and a theorem says
  so (\<open>multiple_allocation_never_ends\<close>, \<open>base64_hangs\<close>).

  \<^bold>\<open>Conventions.\<close>  Words have the widths of a 64-bit little-endian build, and \<open>char\<close> is
  unsigned in busybox, as its \<open>Makefile.flags\<close> has it; \<open>malloc\<close> and \<open>calloc\<close> succeed;
  memory that the code reads before writing it is a parameter (\<open>k_junk\<close>, the contents of \<open>zerobuf\<close>), not
  assumed zero.  Messages on standard error and waiting are left out, standard output of the I2C tools
  and of the busybox programs is kept.

  \<^bold>\<open>Not modelled.\<close>  The other applets of \<open>busybox-1.20\<close>, a release of another project, are front ends
  of system calls and interpreters of other languages; of the DHCP programs the sockets, leases and
  scripts are left out, and the parsing of addresses and numbers in the configuration.
  \<open>eepromer.c\<close> clears one byte past its buffer before every write, so it has no defined behaviour to speak of; \<open>smbusmodule.c\<close> is glue for the Python
  interpreter.  \<open>pl2303\<close>, \<open>kd_sensorlist.c\<close> and the kernel demos only call interfaces of the kernel.
  \<open>android_filesystem_config.h\<close> is not used (its only caller is commented out), nor are the macros of
  \<open>ext4_jbd2.h\<close>.  The Java programs, scripts and binaries are not C.
\<close>

end
